(* ===== verification/Bex_Prelude.thy ===== *)
theory Bex_Prelude
  imports Main "HOL-Library.Word" "HOL-Library.Char_ord" "HOL-Library.Monad_Syntax"
begin

text \<open>
  Shared vocabulary of the development: Go bytes and byte slices, expressions that may panic,
  results that may carry an error, Go maps used as counters, and the generic facts about them.

  A Go expression that indexes or slices may panic. Here \<open>None\<close> is the panic and \<open>Some\<close> the
  value, so that "this routine never panics" is a statement of the model. \<open>slice\<close> is bounded by
  the length of its operand; Go bounds it by the capacity, which is never smaller, so a routine
  that is panic free here is panic free in Go, and where it is, both compute the same bytes.
\<close>

named_theorems panic_free "index and slice expressions known to be in range"
named_theorems counter_simps "reading, bumping and dropping the counters of a Go map"

section \<open>Bytes and slices\<close>

type_synonym byte = "8 word"
type_synonym bytes = "byte list"

definition idx :: "'a list \<Rightarrow> nat \<Rightarrow> 'a option" where
  "idx xs i = (if i < length xs then Some (xs ! i) else None)"

definition slice :: "'a list \<Rightarrow> nat \<Rightarrow> nat \<Rightarrow> 'a list option" where
  "slice xs lo hi = (if lo \<le> hi \<and> hi \<le> length xs then Some (take (hi - lo) (drop lo xs)) else None)"

lemma idx_in_range [panic_free]: "i < length xs \<Longrightarrow> idx xs i = Some (xs ! i)"
  by (simp add: idx_def)

lemma slice_in_range [panic_free]:
  "lo \<le> hi \<Longrightarrow> hi \<le> length xs \<Longrightarrow> slice xs lo hi = Some (take (hi - lo) (drop lo xs))"
  by (simp add: slice_def)

lemma slice_length: "slice xs lo hi = Some ys \<Longrightarrow> length ys = hi - lo"
  by (auto simp: slice_def split: if_splits)

definition be16 :: "byte \<Rightarrow> byte \<Rightarrow> nat" where
  "be16 a b = unat a * 256 + unat b"

lemma be16_bound: "be16 a b < 65536"
proof -
  have "unat a < 2 ^ 8" "unat b < 2 ^ 8"
    using unsigned_less [of a] unsigned_less [of b] by simp_all
  then show ?thesis by (simp add: be16_def)
qed

definition be16_bytes :: "nat \<Rightarrow> bytes" where
  "be16_bytes n = [word_of_nat (n div 256), word_of_nat (n mod 256)]"

lemma length_be16_bytes [simp]: "length (be16_bytes n) = 2"
  by (simp add: be16_bytes_def)

lemma unat_byte_of_nat: "n < 256 \<Longrightarrow> unat (word_of_nat n :: byte) = n"
  by (simp add: unat_of_nat take_bit_nat_eq_self)

lemma be16_be16_bytes:
  assumes "n < 65536"
  shows "be16 (word_of_nat (n div 256)) (word_of_nat (n mod 256)) = n"
proof -
  from assms have "n div 256 < 256" by (simp add: less_mult_imp_div_less)
  then show ?thesis by (simp add: be16_def unat_byte_of_nat)
qed

lemma nth_append_shift: "length xs = n \<Longrightarrow> (xs @ ys) ! (n + i) = ys ! i"
  by (simp add: nth_append)

section \<open>Results that carry an error\<close>

fun rbind :: "'e + 'a \<Rightarrow> ('a \<Rightarrow> 'e + 'b) \<Rightarrow> 'e + 'b" where
  "rbind (Inl e) f = Inl e"
| "rbind (Inr x) f = f x"

lemma rbind_Inr_iff: "rbind m f = Inr y \<longleftrightarrow> (\<exists>x. m = Inr x \<and> f x = Inr y)"
  by (cases m) auto

lemma rbind_Inl_iff: "rbind m f = Inl e \<longleftrightarrow> m = Inl e \<or> (\<exists>x. m = Inr x \<and> f x = Inl e)"
  by (cases m) auto

lemma rbind_cong [fundef_cong]:
  "m = m' \<Longrightarrow> (\<And>x. m' = Inr x \<Longrightarrow> f x = g x) \<Longrightarrow> rbind m f = rbind m' g"
  by (cases m') auto

definition is_ok :: "'e + 'a \<Rightarrow> bool" where
  "is_ok r = (case r of Inl _ \<Rightarrow> False | Inr _ \<Rightarrow> True)"

lemma is_ok_simps [simp]: "\<not> is_ok (Inl e)" "is_ok (Inr x)"
  by (simp_all add: is_ok_def)

text \<open>What a store answers when asked for one object: an error, not found, or the object.\<close>

datatype 'a got = GotErr | GotNone | Got 'a

section \<open>Go maps as counters\<close>

text \<open>Reading an absent key of a Go \<open>map[K]int\<close> gives 0.\<close>

type_synonym 'k counts = "'k \<Rightarrow> int option"

definition count_of :: "'k counts \<Rightarrow> 'k \<Rightarrow> int" where
  "count_of m k = (case m k of None \<Rightarrow> 0 | Some n \<Rightarrow> n)"

definition bump :: "'k counts \<Rightarrow> 'k \<Rightarrow> 'k counts" where
  "bump m k = m(k \<mapsto> count_of m k + 1)"

text \<open>Decrement that deletes an entry about to reach zero (\<open>decrementKey\<close> and its inlined copy).\<close>

definition drop_count :: "'k counts \<Rightarrow> 'k \<Rightarrow> 'k counts" where
  "drop_count m k = (if count_of m k \<le> 1 then m(k := None) else m(k \<mapsto> count_of m k - 1))"

text \<open>A counter map is tidy when every entry it keeps is positive: no zero entry is retained.\<close>

definition tidy :: "'k counts \<Rightarrow> bool" where
  "tidy m \<longleftrightarrow> (\<forall>k n. m k = Some n \<longrightarrow> 0 < n)"

lemma count_of_empty [counter_simps]: "count_of Map.empty k = 0"
  by (simp add: count_of_def)

lemma count_of_bump [counter_simps]: "count_of (bump m k) j = count_of m j + (if j = k then 1 else 0)"
  by (simp add: bump_def count_of_def)

lemma count_of_drop_count [counter_simps]:
  "0 < count_of m k \<Longrightarrow> count_of (drop_count m k) j = count_of m j - (if j = k then 1 else 0)"
  by (auto simp: drop_count_def count_of_def split: option.splits)

lemma tidy_empty [counter_simps]: "tidy Map.empty"
  by (simp add: tidy_def)

lemma tidy_drop_count [counter_simps]: "tidy m \<Longrightarrow> tidy (drop_count m k)"
  by (auto simp: tidy_def drop_count_def)

lemma tidy_nonneg:
  assumes "tidy m"
  shows "0 \<le> count_of m k"
proof (cases "m k")
  case (Some n)
  with assms have "0 < n" by (auto simp: tidy_def)
  with Some show ?thesis by (simp add: count_of_def)
qed (simp add: count_of_def)

lemma tidy_bump [counter_simps]: "tidy m \<Longrightarrow> tidy (bump m k)"
  using tidy_nonneg [of m k] by (auto simp: tidy_def bump_def)

lemma drop_bump [simp]: "tidy m \<Longrightarrow> drop_count (bump m k) k = m"
proof -
  assume t: "tidy m"
  show ?thesis
  proof (cases "m k")
    case None
    then show ?thesis by (auto simp: drop_count_def bump_def count_of_def)
  next
    case (Some n)
    with t have "0 < n" by (auto simp: tidy_def)
    with Some show ?thesis by (auto simp: drop_count_def bump_def count_of_def)
  qed
qed

lemma tidy_zero_empty: "tidy m \<Longrightarrow> (\<And>k. count_of m k = 0) \<Longrightarrow> m = Map.empty"
  by (rule ext) (metis count_of_def less_irrefl option.case_eq_if option.exhaust_sel tidy_def)

section \<open>Lists\<close>

lemma filter_length_update_off:
  assumes "i < length xs" "P (xs ! i)" "\<not> P y"
  shows "length (filter P (xs[i := y])) = length (filter P xs) - 1"
    and "0 < length (filter P xs)"
proof -
  have split: "xs = take i xs @ xs ! i # drop (Suc i) xs"
    using assms(1) by (rule id_take_nth_drop)
  have "xs[i := y] = take i xs @ y # drop (Suc i) xs"
    using assms(1) by (simp add: upd_conv_take_nth_drop)
  moreover have "length (filter P xs) =
      length (filter P (take i xs)) + 1 + length (filter P (drop (Suc i) xs))"
    by (subst split) (simp add: assms(2))
  ultimately show "length (filter P (xs[i := y])) = length (filter P xs) - 1"
    and "0 < length (filter P xs)"
    using assms(3) by simp_all
qed

lemma filter_length_update_same:
  assumes "i < length xs" "\<not> P (xs ! i)" "\<not> P y"
  shows "length (filter P (xs[i := y])) = length (filter P xs)"
proof -
  have split: "xs = take i xs @ xs ! i # drop (Suc i) xs"
    using assms(1) by (rule id_take_nth_drop)
  have "length (filter P xs) =
      length (filter P (take i xs)) + length (filter P (drop (Suc i) xs))"
    by (subst split) (simp add: assms(2))
  then show ?thesis using assms by (simp add: upd_conv_take_nth_drop)
qed

section \<open>Histories\<close>

text \<open>
  A table whose rows only evolve. An operation keeps the invariant of the table, and each row it does not end
  (\<open>spares\<close>) has its successor in the next table, up to what the operation does to the row on purpose
  (\<open>edit\<close>); then so does any sequence of operations, in any order.
\<close>

locale history =
  fixes step :: "'o \<Rightarrow> 's \<Rightarrow> 's"
    and ok :: "'s \<Rightarrow> bool"
    and rows :: "'s \<Rightarrow> 'r set"
    and evolves :: "'r \<Rightarrow> 'r \<Rightarrow> bool"
    and spares :: "'o \<Rightarrow> 'r \<Rightarrow> bool"
    and edit :: "'o \<Rightarrow> 'r \<Rightarrow> 'r"
  assumes step_ok: "ok s \<Longrightarrow> ok (step a s)"
    and step_evolves: "ok s \<Longrightarrow> r \<in> rows s \<Longrightarrow> spares a r \<Longrightarrow> \<exists>q\<in>rows (step a s). evolves (edit a r) q"
    and evolves_id: "evolves r r"
    and evolves_on: "evolves r q \<Longrightarrow> evolves q p \<Longrightarrow> evolves r p"
    and evolves_edit: "evolves r q \<Longrightarrow> evolves (edit a r) (edit a q)"
    and spares_on: "evolves r q \<Longrightarrow> spares a r \<Longrightarrow> spares a q"
    and spares_edit: "spares a r \<Longrightarrow> spares a (edit b r)"
begin

lemma run_ok: "ok s \<Longrightarrow> ok (fold step as s)"
  by (induction as arbitrary: s) (simp_all add: step_ok)

lemma edits_evolve: "evolves r q \<Longrightarrow> evolves (fold edit as r) (fold edit as q)"
  by (induction as arbitrary: r q) (simp_all add: evolves_edit)

lemma run_evolves:
  "ok s \<Longrightarrow> r \<in> rows s \<Longrightarrow> list_all (\<lambda>a. spares a r) as \<Longrightarrow> \<exists>q\<in>rows (fold step as s). evolves (fold edit as r) q"
proof (induction as arbitrary: s r)
  case Nil
  then show ?case by (auto intro: evolves_id)
next
  case (Cons a as)
  from Cons.prems(3) have spared: "spares a r" "list_all (\<lambda>b. spares b r) as" by simp_all
  obtain q where q: "q \<in> rows (step a s)" "evolves (edit a r) q"
    using step_evolves [OF Cons.prems(1,2) spared(1)] by blast
  have "list_all (\<lambda>b. spares b q) as"
    using spared(2) q(2) by (auto simp: list_all_iff intro: spares_on spares_edit)
  from Cons.IH [OF step_ok [OF Cons.prems(1)] q(1) this] edits_evolve [OF q(2), of as]
  show ?case by (auto intro: evolves_on)
qed

end

end
