(* ===== verification/Admission.thy ===== *)
theory Admission
  imports Bex_Prelude
begin

text \<open>
  The contract the connection limiters share. A limiter keeps counters; admitting a request
  charges some of them, up to a cap each, and the lease it hands out gives the charge back when
  it is released. \<open>lease_step\<close> is the discipline of the callers: a request asks for admission, and
  a granted lease may be released any number of times but counts once, which is what the
  \<open>sync.Once\<close> of the returned closure enforces (\<open>operator/internal/sniproxy/limiter.go\<close>).
\<close>

section \<open>Leases\<close>

datatype 'l lease_event = Ask 'l | Release nat

type_synonym ('s, 'l) lease_state = "'s \<times> ('l \<times> bool) list"

text \<open>The second component of a lease says whether it is still held.\<close>

fun lease_step :: "('s \<Rightarrow> 'l \<Rightarrow> 's option) \<Rightarrow> ('s \<Rightarrow> 'l \<Rightarrow> 's) \<Rightarrow> ('s, 'l) lease_state
    \<Rightarrow> 'l lease_event \<Rightarrow> ('s, 'l) lease_state" where
  "lease_step acq rel (s, ls) (Ask l) =
     (case acq s l of None \<Rightarrow> (s, ls) | Some s' \<Rightarrow> (s', ls @ [(l, True)]))"
| "lease_step acq rel (s, ls) (Release i) =
     (if i < length ls \<and> snd (ls ! i) then (rel s (fst (ls ! i)), ls[i := (fst (ls ! i), False)])
      else (s, ls))"

fun lease_run :: "('s \<Rightarrow> 'l \<Rightarrow> 's option) \<Rightarrow> ('s \<Rightarrow> 'l \<Rightarrow> 's) \<Rightarrow> ('s, 'l) lease_state
    \<Rightarrow> 'l lease_event list \<Rightarrow> ('s, 'l) lease_state" where
  "lease_run acq rel st [] = st"
| "lease_run acq rel st (e # es) = lease_run acq rel (lease_step acq rel st e) es"

section \<open>The contract\<close>

locale leasing =
  fixes acq :: "'s \<Rightarrow> 'l \<Rightarrow> 's option"
    and rel :: "'s \<Rightarrow> 'l \<Rightarrow> 's"
    and held :: "'s \<Rightarrow> 'k \<Rightarrow> int"
    and cap :: "'s \<Rightarrow> 'k \<Rightarrow> int option"
    and charges :: "'s \<Rightarrow> 'l \<Rightarrow> 'k \<Rightarrow> bool"
    and inv :: "'s \<Rightarrow> bool"
  assumes acq_inv: "inv s \<Longrightarrow> acq s l = Some s' \<Longrightarrow> inv s'"
    and acq_held: "inv s \<Longrightarrow> acq s l = Some s' \<Longrightarrow> held s' k = held s k + (if charges s l k then 1 else 0)"
    and acq_room: "inv s \<Longrightarrow> acq s l = Some s' \<Longrightarrow> charges s l k \<Longrightarrow> cap s k = Some c \<Longrightarrow> held s k < c"
    and acq_config: "inv s \<Longrightarrow> acq s l = Some s' \<Longrightarrow> cap s' = cap s \<and> charges s' = charges s"
    and rel_inv: "inv s \<Longrightarrow> (\<And>k. charges s l k \<Longrightarrow> 0 < held s k) \<Longrightarrow> inv (rel s l)"
    and rel_held: "inv s \<Longrightarrow> (\<And>k. charges s l k \<Longrightarrow> 0 < held s k)
           \<Longrightarrow> held (rel s l) k = held s k - (if charges s l k then 1 else 0)"
    and rel_config: "inv s \<Longrightarrow> cap (rel s l) = cap s \<and> charges (rel s l) = charges s"
begin

text \<open>The number of live leases that charge a counter, and the invariant of a run.\<close>

definition live :: "'s \<Rightarrow> ('l \<times> bool) list \<Rightarrow> 'k \<Rightarrow> nat" where
  "live s ls k = length (filter (\<lambda>x. snd x \<and> charges s (fst x) k) ls)"

definition accounted :: "('s, 'l) lease_state \<Rightarrow> bool" where
  "accounted st \<longleftrightarrow> inv (fst st) \<and> (\<forall>k. held (fst st) k = int (live (fst st) (snd st) k))
     \<and> (\<forall>k c. cap (fst st) k = Some c \<longrightarrow> 0 \<le> c \<longrightarrow> held (fst st) k \<le> c)"

lemma live_config: "charges s' = charges s \<Longrightarrow> live s' ls k = live s ls k"
  by (simp add: live_def)

lemma ask_accounted:
  assumes "accounted (s, ls)"
  shows "accounted (lease_step acq rel (s, ls) (Ask l))"
proof (cases "acq s l")
  case None
  with assms show ?thesis by simp
next
  case (Some s')
  from assms have inv: "inv s" by (simp add: accounted_def)
  note config = acq_config [OF inv Some]
  have held: "held s' k = int (live s' (ls @ [(l, True)]) k)" for k
    using assms acq_held [OF inv Some, of k] config
    by (simp add: accounted_def live_def)
  have bound: "held s' k \<le> c" if "cap s' k = Some c" "0 \<le> c" for k c
    using assms acq_held [OF inv Some, of k] acq_room [OF inv Some, of k c] config that
    by (auto simp: accounted_def split: if_splits)
  show ?thesis using Some acq_inv [OF inv Some] held bound by (simp add: accounted_def)
qed

lemma release_accounted:
  assumes "accounted (s, ls)"
  shows "accounted (lease_step acq rel (s, ls) (Release i))"
proof (cases "i < length ls \<and> snd (ls ! i)")
  case False
  with assms show ?thesis by auto
next
  case True
  let ?l = "fst (ls ! i)" and ?ls' = "ls[i := (fst (ls ! i), False)]"
  from assms have inv: "inv s" and held: "\<And>k. held s k = int (live s ls k)"
    by (simp_all add: accounted_def)
  have pos: "0 < held s k" if "charges s ?l k" for k
    using True that held filter_length_update_off(2) [of i ls "\<lambda>x. snd x \<and> charges s (fst x) k" "(?l, False)"]
    by (simp add: live_def)
  have given: "held (rel s ?l) k = held s k - (if charges s ?l k then 1 else 0)" for k
    by (rule rel_held [OF inv]) (rule pos)
  have same: "live (rel s ?l) ?ls' k = live s ?ls' k" for k
    by (rule live_config) (use rel_config [OF inv] in simp)
  have inv': "inv (rel s ?l)" by (rule rel_inv [OF inv]) (rule pos)
  have held': "held (rel s ?l) k = int (live (rel s ?l) ?ls' k)" for k
  proof (cases "charges s ?l k")
    case charged: True
    have "live s ?ls' k = live s ls k - 1" and "0 < live s ls k"
      using True charged filter_length_update_off [of i ls "\<lambda>x. snd x \<and> charges s (fst x) k" "(?l, False)"]
      by (simp_all add: live_def)
    then show ?thesis
      using given [of k] charged held [of k] same [of k] by simp
  next
    case uncharged: False
    have "live s ?ls' k = live s ls k"
      using True uncharged filter_length_update_same [of i ls "\<lambda>x. snd x \<and> charges s (fst x) k" "(?l, False)"]
      by (simp add: live_def)
    then show ?thesis
      using given [of k] uncharged held [of k] same [of k] by simp
  qed
  have bound: "held (rel s ?l) k \<le> c" if "cap (rel s ?l) k = Some c" "0 \<le> c" for k c
  proof -
    have "held s k \<le> c" using assms that rel_config [OF inv, of ?l] by (auto simp: accounted_def)
    then show ?thesis using given [of k] by simp
  qed
  have "accounted (rel s ?l, ?ls')"
    using inv' held' bound by (simp add: accounted_def)
  then show ?thesis using True by simp
qed

lemma step_accounted: "accounted st \<Longrightarrow> accounted (lease_step acq rel st e)"
  by (cases st; cases e) (auto simp del: lease_step.simps intro: ask_accounted release_accounted)

lemma run_accounted: "accounted st \<Longrightarrow> accounted (lease_run acq rel st es)"
  by (induction es arbitrary: st) (simp_all add: step_accounted)

lemma fresh_accounted: "inv s \<Longrightarrow> (\<And>k. held s k = 0) \<Longrightarrow> accounted (s, [])"
  by (simp add: accounted_def live_def)

lemma step_config: "accounted st \<Longrightarrow> cap (fst (lease_step acq rel st e)) = cap (fst st)
    \<and> charges (fst (lease_step acq rel st e)) = charges (fst st)"
  by (cases st; cases e)
    (auto simp: accounted_def acq_config rel_config split: option.splits)

lemma run_config: "accounted st \<Longrightarrow> cap (fst (lease_run acq rel st es)) = cap (fst st)
    \<and> charges (fst (lease_run acq rel st es)) = charges (fst st)"
  by (induction es arbitrary: st) (simp_all add: step_accounted step_config)

text \<open>
  From a fresh limiter, after any run: a counter holds exactly the live leases that charge it and
  never more than its cap, and it is zero again once every lease is released.
\<close>

lemma run_exact:
  assumes "inv s" "\<And>k. held s k = 0" "lease_run acq rel (s, []) es = (s', ls)"
  shows "held s' k = int (length (filter (\<lambda>x. snd x \<and> charges s (fst x) k) ls))"
proof -
  have "accounted (s', ls)" using run_accounted [OF fresh_accounted [OF assms(1,2)], of es] assms(3) by simp
  moreover have "charges s' = charges s"
    using run_config [OF fresh_accounted [OF assms(1,2)], of es] assms(3) by simp
  ultimately show ?thesis by (simp add: accounted_def live_def)
qed

lemma run_capped:
  assumes "inv s" "\<And>k. held s k = 0" "lease_run acq rel (s, []) es = (s', ls)"
    and "cap s k = Some c" "0 \<le> c"
  shows "held s' k \<le> c"
proof -
  have "accounted (s', ls)" using run_accounted [OF fresh_accounted [OF assms(1,2)], of es] assms(3) by simp
  moreover have "cap s' = cap s"
    using run_config [OF fresh_accounted [OF assms(1,2)], of es] assms(3) by simp
  ultimately show ?thesis using assms(4,5) by (auto simp: accounted_def)
qed

lemma run_inv:
  assumes "inv s" "\<And>k. held s k = 0" "lease_run acq rel (s, []) es = (s', ls)"
  shows "inv s'"
  using run_accounted [OF fresh_accounted [OF assms(1,2)], of es] assms(3) by (simp add: accounted_def)

lemma run_drained:
  assumes "inv s" "\<And>k. held s k = 0" "lease_run acq rel (s, []) es = (s', ls)"
    and "\<forall>x \<in> set ls. \<not> snd x"
  shows "held s' k = 0"
proof -
  have "filter (\<lambda>x. snd x \<and> charges s (fst x) k) ls = []" using assms(4) by (simp add: filter_empty_conv)
  then show ?thesis using run_exact [OF assms(1-3), of k] by simp
qed

end

text \<open>A limiter that refuses only when one of its own counters is full.\<close>

locale admission = leasing acq rel held cap charges inv
  for acq :: "'s \<Rightarrow> 'l \<Rightarrow> 's option" and rel :: "'s \<Rightarrow> 'l \<Rightarrow> 's" and held :: "'s \<Rightarrow> 'k \<Rightarrow> int"
    and cap :: "'s \<Rightarrow> 'k \<Rightarrow> int option" and charges :: "'s \<Rightarrow> 'l \<Rightarrow> 'k \<Rightarrow> bool" and inv :: "'s \<Rightarrow> bool" +
  assumes acq_full: "inv s \<Longrightarrow> acq s l = None \<Longrightarrow> \<exists>k c. charges s l k \<and> cap s k = Some c \<and> c \<le> held s k"
begin

lemma admitted_with_room:
  assumes "inv s" "\<And>k c. charges s l k \<Longrightarrow> cap s k = Some c \<Longrightarrow> held s k < c"
  shows "\<exists>s'. acq s l = Some s'"
proof (cases "acq s l")
  case None
  from acq_full [OF assms(1) None] assms(2) show ?thesis by fastforce
qed simp

end

text \<open>Some counter is charged by every lease: it counts the live leases.\<close>

locale total_admission = admission acq rel held cap charges inv
  for acq :: "'s \<Rightarrow> 'l \<Rightarrow> 's option" and rel :: "'s \<Rightarrow> 'l \<Rightarrow> 's" and held :: "'s \<Rightarrow> 'k \<Rightarrow> int"
    and cap :: "'s \<Rightarrow> 'k \<Rightarrow> int option" and charges :: "'s \<Rightarrow> 'l \<Rightarrow> 'k \<Rightarrow> bool" and inv :: "'s \<Rightarrow> bool" +
  fixes everyone :: 'k
  assumes everyone_charged: "inv s \<Longrightarrow> charges s l everyone"
begin

lemma run_total:
  assumes "inv s" "\<And>k. held s k = 0" "lease_run acq rel (s, []) es = (s', ls)"
  shows "held s' everyone = int (length (filter snd ls))"
  using run_exact [OF assms, of everyone] everyone_charged [OF assms(1)] by simp

lemma run_total_capped:
  assumes "inv s" "\<And>k. held s k = 0" "lease_run acq rel (s, []) es = (s', ls)"
    and "cap s everyone = Some c" "0 \<le> c"
  shows "int (length (filter snd ls)) \<le> c"
  using run_capped [OF assms] run_total [OF assms(1-3)] by simp

end

end
