(* ===== verification/NetIP.thy ===== *)
theory NetIP
  imports Bex_Prelude
begin

text \<open>
  The part of Go's standard package \<open>net/netip\<close> the modelled code uses: addresses with an IPv6
  zone, \<open>ParseAddr\<close>, \<open>ParsePrefix\<close>, \<open>Unmap\<close>, \<open>Masked\<close> and \<open>Contains\<close>. A parse error is \<open>None\<close>:
  the callers only branch on whether there was one.
\<close>

unbundle bit_operations_syntax

section \<open>Addresses\<close>

datatype ip_addr = NoAddr | IP4 "32 word" | IP6 "128 word" string

definition is4 :: "ip_addr \<Rightarrow> bool" where
  "is4 a = (case a of IP4 _ \<Rightarrow> True | _ \<Rightarrow> False)"

definition is6 :: "ip_addr \<Rightarrow> bool" where
  "is6 a = (case a of IP6 _ _ \<Rightarrow> True | _ \<Rightarrow> False)"

definition zone_of :: "ip_addr \<Rightarrow> string" where
  "zone_of a = (case a of IP6 _ z \<Rightarrow> z | _ \<Rightarrow> [])"

definition unmap :: "ip_addr \<Rightarrow> ip_addr" where
  "unmap a = (case a of
      IP6 w z \<Rightarrow> if drop_bit 32 w = 65535 then IP4 (ucast w) else a
    | _ \<Rightarrow> a)"

definition bit_len :: "ip_addr \<Rightarrow> nat" where
  "bit_len a = (case a of NoAddr \<Rightarrow> 0 | IP4 _ \<Rightarrow> 32 | IP6 _ _ \<Rightarrow> 128)"

lemma unmap_idem [simp]: "unmap (unmap a) = unmap a"
  by (auto simp: unmap_def split: ip_addr.splits)

section \<open>Prefixes\<close>

text \<open>A valid \<open>netip.Prefix\<close>: an address and a length within its bit length.\<close>

type_synonym ip_prefix = "ip_addr \<times> nat"

fun masked :: "ip_prefix \<Rightarrow> ip_prefix" where
  "masked (IP4 w, b) = (IP4 (push_bit (32 - b) (drop_bit (32 - b) w)), b)"
| "masked (IP6 w z, b) = (IP6 (push_bit (128 - b) (drop_bit (128 - b) w)) [], b)"
| "masked (NoAddr, b) = (NoAddr, b)"

fun prefix_contains :: "ip_prefix \<Rightarrow> ip_addr \<Rightarrow> bool" where
  "prefix_contains (IP4 p, b) (IP4 a) \<longleftrightarrow> drop_bit (32 - b) (a XOR p) = 0"
| "prefix_contains (IP6 p pz, b) (IP6 a z) \<longleftrightarrow> z = [] \<and> drop_bit (128 - b) (a XOR p) = 0"
| "prefix_contains _ _ \<longleftrightarrow> False"

lemma drop_bit_masked: "drop_bit n (push_bit n (drop_bit n w)) = drop_bit n (w :: 'a::len word)"
  by (rule bit_eqI) (auto simp: bit_simps dest: bit_imp_le_length)

lemma contains_masked [simp]: "prefix_contains (masked p) a = prefix_contains p a"
proof (cases p)
  case (Pair ip b)
  then show ?thesis
    by (cases ip; cases a) (simp_all add: drop_bit_masked drop_bit_xor)
qed

lemma masked_idem [simp]: "masked (masked p) = masked p"
  by (cases p rule: masked.cases) (simp_all add: drop_bit_masked)

lemma any4_contains: "prefix_contains (IP4 0, 0) (IP4 a)"
proof -
  have "drop_bit 32 (a XOR 0) = 0"
    by (rule bit_eqI) (auto simp: bit_simps dest: bit_imp_le_length)
  then show ?thesis by simp
qed

lemma any6_contains: "prefix_contains (IP6 0 [], 0) (IP6 a [])"
proof -
  have "drop_bit 128 (a XOR 0) = 0"
    by (rule bit_eqI) (auto simp: bit_simps dest: bit_imp_le_length)
  then show ?thesis by simp
qed

section \<open>Parsing addresses\<close>

definition digit_val :: "char \<Rightarrow> nat option" where
  "digit_val c = (if CHR ''0'' \<le> c \<and> c \<le> CHR ''9'' then Some (of_char c - 48) else None)"

definition hex_val :: "char \<Rightarrow> nat option" where
  "hex_val c =
     (if CHR ''0'' \<le> c \<and> c \<le> CHR ''9'' then Some (of_char c - 48)
      else if CHR ''a'' \<le> c \<and> c \<le> CHR ''f'' then Some (of_char c - 87)
      else if CHR ''A'' \<le> c \<and> c \<le> CHR ''F'' then Some (of_char c - 55)
      else None)"

text \<open>\<open>parseIPv4Fields\<close>: the last character read, the octets so far, the current octet and its digits.\<close>

fun ipv4_fields :: "string \<Rightarrow> char option \<Rightarrow> nat list \<Rightarrow> nat \<Rightarrow> nat \<Rightarrow> nat list option" where
  "ipv4_fields [] prev fields val digs = (if length fields < 3 then None else Some (fields @ [val]))"
| "ipv4_fields (c # cs) prev fields val digs =
     (case digit_val c of
        Some d \<Rightarrow>
          if digs = 1 \<and> val = 0 then None
          else if val * 10 + d > 255 then None
          else ipv4_fields cs (Some c) fields (val * 10 + d) (Suc digs)
      | None \<Rightarrow>
          if c = CHR ''.'' then
            if prev = None \<or> cs = [] \<or> prev = Some (CHR ''.'') then None
            else if length fields = 3 then None
            else ipv4_fields cs (Some c) (fields @ [val]) 0 0
          else None)"

definition from_octets :: "nat list \<Rightarrow> nat" where
  "from_octets bs = foldl (\<lambda>acc b. acc * 256 + b) 0 bs"

definition parse_ipv4 :: "string \<Rightarrow> ip_addr option" where
  "parse_ipv4 s = map_option (\<lambda>fs. IP4 (word_of_nat (from_octets fs))) (ipv4_fields s None [] 0 0)"

text \<open>One group of hex digits: digits read, value, rest of the input; \<open>None\<close> when it is too long.\<close>

fun scan_hex :: "string \<Rightarrow> nat \<Rightarrow> nat \<Rightarrow> (nat \<times> nat \<times> string) option" where
  "scan_hex [] off acc = Some (off, acc, [])"
| "scan_hex (c # cs) off acc =
     (case hex_val c of
        None \<Rightarrow> Some (off, acc, c # cs)
      | Some d \<Rightarrow>
          if 3 < off then None
          else if 65535 < acc * 16 + d then None
          else scan_hex cs (Suc off) (acc * 16 + d))"

text \<open>The group loop of \<open>parseIPv6\<close>: the bytes so far and the position of the ellipsis.\<close>

function ipv6_loop :: "string \<Rightarrow> nat list \<Rightarrow> nat option \<Rightarrow> (nat list \<times> nat option \<times> string) option" where
  "ipv6_loop s ip ell =
     (if 16 \<le> length ip then Some (ip, ell, s)
      else case scan_hex s 0 0 of
        None \<Rightarrow> None
      | Some (off, acc, rest) \<Rightarrow>
          if off = 0 then None
          else if rest \<noteq> [] \<and> hd rest = CHR ''.'' then
            if ell = None \<and> length ip \<noteq> 12 then None
            else if 16 < length ip + 4 then None
            else (case ipv4_fields s None [] 0 0 of
                    None \<Rightarrow> None
                  | Some fs \<Rightarrow> Some (ip @ fs, ell, []))
          else
            (case rest of
               [] \<Rightarrow> Some (ip @ [acc div 256, acc mod 256], ell, [])
             | [c] \<Rightarrow> None
             | c # c2 # cs2 \<Rightarrow>
                 if c \<noteq> CHR '':'' then None
                 else if c2 = CHR '':'' then
                   if ell \<noteq> None then None
                   else if cs2 = [] then Some (ip @ [acc div 256, acc mod 256], Some (length ip + 2), [])
                   else ipv6_loop cs2 (ip @ [acc div 256, acc mod 256]) (Some (length ip + 2))
                 else ipv6_loop (c2 # cs2) (ip @ [acc div 256, acc mod 256]) ell))"
  by pat_completeness auto
termination
  by (relation "measure (\<lambda>(s, ip, ell). 16 - length ip)") auto

declare ipv6_loop.simps [simp del]

definition ipv6_finish :: "nat list \<times> nat option \<times> string \<Rightarrow> nat list option" where
  "ipv6_finish r =
     (case r of (ip, ell, s) \<Rightarrow>
        if s \<noteq> [] then None
        else if length ip < 16 then
          (case ell of
             None \<Rightarrow> None
           | Some e \<Rightarrow> Some (take e ip @ replicate (16 - length ip) 0 @ drop e ip))
        else if ell \<noteq> None then None
        else Some ip)"

definition ipv6_bytes :: "string \<Rightarrow> nat list option" where
  "ipv6_bytes s =
     (if length s \<ge> 2 \<and> s ! 0 = CHR '':'' \<and> s ! 1 = CHR '':'' then
        if drop 2 s = [] then Some (replicate 16 0)
        else Option.bind (ipv6_loop (drop 2 s) [] (Some 0)) ipv6_finish
      else Option.bind (ipv6_loop s [] None) ipv6_finish)"

definition parse_ipv6 :: "string \<Rightarrow> ip_addr option" where
  "parse_ipv6 s =
     (let body = takeWhile (\<lambda>c. c \<noteq> CHR ''%'') s;
          zone = drop (Suc (length body)) s
      in if body \<noteq> s \<and> zone = [] then None
         else map_option (\<lambda>bs. IP6 (word_of_nat (from_octets bs)) zone) (ipv6_bytes body))"

fun parse_addr_from :: "string \<Rightarrow> string \<Rightarrow> ip_addr option" where
  "parse_addr_from [] s = None"
| "parse_addr_from (c # cs) s =
     (if c = CHR ''.'' then parse_ipv4 s
      else if c = CHR '':'' then parse_ipv6 s
      else if c = CHR ''%'' then None
      else parse_addr_from cs s)"

definition parse_addr :: "string \<Rightarrow> ip_addr option" where
  "parse_addr s = parse_addr_from s s"

section \<open>Parsing prefixes\<close>

fun decimal :: "nat \<Rightarrow> string \<Rightarrow> nat option" where
  "decimal acc [] = Some acc"
| "decimal acc (c # cs) =
     (case digit_val c of None \<Rightarrow> None | Some d \<Rightarrow> decimal (acc * 10 + d) cs)"

definition cut_last :: "char \<Rightarrow> string \<Rightarrow> (string \<times> string) option" where
  "cut_last c s =
     (if c \<in> set s then
        Some (rev (tl (dropWhile (\<lambda>d. d \<noteq> c) (rev s))), rev (takeWhile (\<lambda>d. d \<noteq> c) (rev s)))
      else None)"

definition parse_bits :: "nat \<Rightarrow> string \<Rightarrow> nat option" where
  "parse_bits limit s =
     (if s = [] \<or> (1 < length s \<and> hd s = CHR ''0'') then None
      else Option.bind (decimal 0 s) (\<lambda>b. if b \<le> limit then Some b else None))"

definition parse_prefix :: "string \<Rightarrow> ip_prefix option" where
  "parse_prefix s =
     (case cut_last (CHR ''/'') s of
        None \<Rightarrow> None
      | Some (host, bits) \<Rightarrow>
          (case parse_addr host of
             None \<Rightarrow> None
           | Some ip \<Rightarrow>
               if is6 ip \<and> zone_of ip \<noteq> [] then None
               else map_option (\<lambda>b. (ip, b)) (parse_bits (if is6 ip then 128 else 32) bits)))"

lemma parse_ipv4_is4: "parse_ipv4 s = Some a \<Longrightarrow> \<exists>w. a = IP4 w"
  by (auto simp: parse_ipv4_def)

lemma parse_ipv6_is6: "parse_ipv6 s = Some a \<Longrightarrow> \<exists>w z. a = IP6 w z"
  by (auto simp: parse_ipv6_def Let_def split: if_splits)

lemma parse_addr_from_valid: "parse_addr_from cs s = Some a \<Longrightarrow> (\<exists>w. a = IP4 w) \<or> (\<exists>w z. a = IP6 w z)"
  by (induction cs s rule: parse_addr_from.induct)
    (auto split: if_splits dest: parse_ipv4_is4 parse_ipv6_is6)

lemma parse_addr_valid: "parse_addr s = Some a \<Longrightarrow> (\<exists>w. a = IP4 w) \<or> (\<exists>w z. a = IP6 w z)"
  by (simp add: parse_addr_def parse_addr_from_valid)

text \<open>A parsed prefix is valid: it has an address, no zone, and a length within the address.\<close>

lemma parse_prefix_valid:
  assumes "parse_prefix s = Some (ip, b)"
  shows "b \<le> bit_len ip \<and> zone_of ip = [] \<and> ((\<exists>w. ip = IP4 w) \<or> (\<exists>w. ip = IP6 w []))"
proof -
  from assms obtain host bits where host: "parse_addr host = Some ip"
    and nozone: "\<not> (is6 ip \<and> zone_of ip \<noteq> [])"
    and b: "parse_bits (if is6 ip then 128 else 32) bits = Some b"
    by (auto simp: parse_prefix_def split: option.splits if_splits)
  from b have "b \<le> (if is6 ip then 128 else 32)"
    by (auto simp: parse_bits_def bind_eq_Some_conv split: if_splits)
  with parse_addr_valid [OF host] nozone show ?thesis
    by (auto simp: is6_def zone_of_def bit_len_def)
qed

text \<open>The equations that evaluate the parsers on a literal by \<open>simp\<close>.\<close>

lemma replicate_numeral_unfold: "replicate (numeral k) x = x # replicate (pred_numeral k) x"
  by (simp add: numeral_eq_Suc)

lemmas ip_eval = parse_prefix_def cut_last_def parse_bits_def parse_addr_def parse_ipv4_def
  parse_ipv6_def ipv6_bytes_def ipv6_loop.simps ipv6_finish_def from_octets_def hex_val_def
  digit_val_def is6_def zone_of_def unmap_def replicate_numeral_unfold

lemma parse_any4: "parse_prefix ''0.0.0.0/0'' = Some (IP4 0, 0)"
  by (simp add: ip_eval)

lemma parse_any6: "parse_prefix ''::/0'' = Some (IP6 0 [], 0)"
  by (simp add: ip_eval)

lemma parse_doc6: "parse_prefix ''2001:db8::/32'' = Some (IP6 0x20010db8000000000000000000000000 [], 32)"
  by (simp add: ip_eval)

lemma parse_mapped: "map_option unmap (parse_addr ''::ffff:10.1.2.3'') = Some (IP4 0x0a010203)"
  by (simp add: ip_eval)

end
