(* ===== verification/Limiters.thy ===== *)
theory Limiters
  imports Admission NetIP
begin

text \<open>
  The connection and session limiters: \<open>operator/internal/sniproxy/limiter.go\<close> (global, per source,
  per workspace and per resource caps of the public database proxies) and
  \<open>backend/internal/sshgateway/limiter.go\<close> (session, channel and source caps of the SSH gateway).
  Every method takes its mutex for its whole body, so one call is one step. A nil receiver is
  \<open>None\<close>. Go's \<open>int\<close> is unbounded here: every counter stays between 0 and a cap.
\<close>

section \<open>The SNI proxy limiter\<close>

record sni_limiter =
  sl_global :: int
  sl_maxGlobal :: int
  sl_perSource :: "ip_addr counts"
  sl_maxSource :: int
  sl_perWorkspace :: "string counts"
  sl_maxWorkspace :: int
  sl_perResource :: "string counts"
  sl_maxResource :: int

definition newLimiter :: "int \<Rightarrow> int \<Rightarrow> sni_limiter" where
  "newLimiter maxGlobal maxSource =
     \<lparr>sl_global = 0, sl_maxGlobal = maxGlobal, sl_perSource = Map.empty, sl_maxSource = maxSource,
      sl_perWorkspace = Map.empty, sl_maxWorkspace = 0, sl_perResource = Map.empty, sl_maxResource = 0\<rparr>"

definition setRouteLimits :: "sni_limiter option \<Rightarrow> int \<Rightarrow> int \<Rightarrow> sni_limiter option" where
  "setRouteLimits lo maxWorkspace maxResource =
     (case lo of None \<Rightarrow> None
      | Some l \<Rightarrow> Some (l\<lparr>sl_maxWorkspace := maxWorkspace, sl_maxResource := maxResource\<rparr>))"

definition acquireGlobal :: "sni_limiter option \<Rightarrow> sni_limiter option \<times> bool" where
  "acquireGlobal lo =
     (case lo of None \<Rightarrow> (None, True)
      | Some l \<Rightarrow>
          if sl_maxGlobal l \<le> 0 then (Some l, True)
          else if sl_maxGlobal l \<le> sl_global l then (Some l, False)
          else (Some (l\<lparr>sl_global := sl_global l + 1\<rparr>), True))"

text \<open>
  The first call of the closure an \<open>AcquireGlobal\<close> that admitted returned; the one handed out while
  the dimension is disabled does nothing.
\<close>

definition releaseGlobal :: "sni_limiter \<Rightarrow> sni_limiter" where
  "releaseGlobal l = (if sl_maxGlobal l \<le> 0 then l else l\<lparr>sl_global := sl_global l - 1\<rparr>)"

definition acquireSource :: "sni_limiter option \<Rightarrow> ip_addr \<Rightarrow> sni_limiter option \<times> bool" where
  "acquireSource lo addr =
     (case lo of None \<Rightarrow> (None, True)
      | Some l \<Rightarrow>
          if sl_maxSource l \<le> 0 then (Some l, True)
          else
            let key = unmap addr
            in if sl_maxSource l \<le> count_of (sl_perSource l) key then (Some l, False)
               else (Some (l\<lparr>sl_perSource := bump (sl_perSource l) key\<rparr>), True))"

definition releaseSource :: "sni_limiter \<Rightarrow> ip_addr \<Rightarrow> sni_limiter" where
  "releaseSource l addr =
     (if sl_maxSource l \<le> 0 then l
      else l\<lparr>sl_perSource := drop_count (sl_perSource l) (unmap addr)\<rparr>)"

definition acquireRoute :: "sni_limiter option \<Rightarrow> string \<Rightarrow> string \<Rightarrow> sni_limiter option \<times> string \<times> bool" where
  "acquireRoute lo workspace resource =
     (case lo of None \<Rightarrow> (None, '''', True)
      | Some l \<Rightarrow>
          if 0 < sl_maxWorkspace l \<and> sl_maxWorkspace l \<le> count_of (sl_perWorkspace l) workspace
          then (Some l, ''workspace'', False)
          else if 0 < sl_maxResource l \<and> sl_maxResource l \<le> count_of (sl_perResource l) resource
          then (Some l, ''resource'', False)
          else
            let l1 = (if 0 < sl_maxWorkspace l
                      then l\<lparr>sl_perWorkspace := bump (sl_perWorkspace l) workspace\<rparr> else l);
                l2 = (if 0 < sl_maxResource l1
                      then l1\<lparr>sl_perResource := bump (sl_perResource l1) resource\<rparr> else l1)
            in (Some l2, '''', True))"

definition releaseRoute :: "sni_limiter \<Rightarrow> string \<Rightarrow> string \<Rightarrow> sni_limiter" where
  "releaseRoute l workspace resource =
     (let l1 = (if 0 < sl_maxWorkspace l
                then l\<lparr>sl_perWorkspace := drop_count (sl_perWorkspace l) workspace\<rparr> else l)
      in if 0 < sl_maxResource l1
         then l1\<lparr>sl_perResource := drop_count (sl_perResource l1) resource\<rparr> else l1)"

text \<open>A refused route acquisition changes nothing: there is no workspace slot left behind.\<close>

lemma acquireRoute_refused: "acquireRoute lo w r = (lo', scope, False) \<Longrightarrow> lo' = lo"
  by (auto simp: acquireRoute_def Let_def split: option.splits if_splits)

subsection \<open>The accept loop\<close>

text \<open>
  One turn of \<open>Serve\<close> on what \<open>Accept\<close> returned: a shutdown ends the loop, another accept error is
  reported, a connection is dispatched to a handler or shed. The log records what happened to each.
\<close>

datatype 'c accept_outcome = AcceptErr bool | Accepted 'c

datatype 'c serve_log = ErrReported | Shed 'c bool | Dispatched 'c

text \<open>\<open>Shed c m\<close> is a connection closed at accept; \<open>m\<close> says the meter counted the rejection.\<close>

fun serve :: "bool \<Rightarrow> bool \<Rightarrow> sni_limiter option \<Rightarrow> 'c accept_outcome list \<Rightarrow> sni_limiter option \<times> 'c serve_log list" where
  "serve meter onErr lo [] = (lo, [])"
| "serve meter onErr lo (AcceptErr cancelled # rest) =
     (if cancelled then (lo, [])
      else case serve meter onErr lo rest of (lo', lg) \<Rightarrow> (lo', if onErr then ErrReported # lg else lg))"
| "serve meter onErr lo (Accepted c # rest) =
     (case acquireGlobal lo of
        (lo1, ok) \<Rightarrow>
          (case serve meter onErr lo1 rest of
             (lo', lg) \<Rightarrow> (lo', (if ok then Dispatched c else Shed c meter) # lg)))"

definition dispatched :: "'c serve_log list \<Rightarrow> nat" where
  "dispatched lg = length (filter (\<lambda>e. case e of Dispatched _ \<Rightarrow> True | _ \<Rightarrow> False) lg)"

lemma serve_dispatched:
  assumes "0 < sl_maxGlobal l" "sl_global l \<le> sl_maxGlobal l"
    and "serve meter onErr (Some l) evs = (lo', lg)"
  shows "\<exists>l'. lo' = Some l' \<and> sl_global l' = sl_global l + int (dispatched lg)
    \<and> sl_global l' \<le> sl_maxGlobal l"
  using assms
proof (induction evs arbitrary: l lo' lg)
  case Nil
  then show ?case by (auto simp: dispatched_def)
next
  case (Cons e evs)
  show ?case
  proof (cases e)
    case (AcceptErr b)
    then show ?thesis using Cons.prems Cons.IH [OF Cons.prems(1,2)]
      by (cases "serve meter onErr (Some l) evs") (auto simp: dispatched_def split: if_splits)
  next
    case (Accepted c)
    show ?thesis
    proof (cases "sl_maxGlobal l \<le> sl_global l")
      case True
      then have "acquireGlobal (Some l) = (Some l, False)" using Cons.prems by (simp add: acquireGlobal_def)
      then show ?thesis using Cons.prems Cons.IH [OF Cons.prems(1,2)] Accepted
        by (cases "serve meter onErr (Some l) evs") (auto simp: dispatched_def)
    next
      case False
      let ?l = "l\<lparr>sl_global := sl_global l + 1\<rparr>"
      have "acquireGlobal (Some l) = (Some ?l, True)"
        using False Cons.prems by (simp add: acquireGlobal_def)
      then show ?thesis using Cons.prems Cons.IH [of ?l] Accepted False
        by (cases "serve meter onErr (Some ?l) evs") (auto simp: dispatched_def)
    qed
  qed
qed

section \<open>The SSH gateway limiters\<close>

record session_limiter =
  ss_max :: int
  ss_maxPer :: int
  ss_global :: int
  ss_per :: "string counts"

definition newSessionLimiter :: "int \<Rightarrow> int \<Rightarrow> session_limiter" where
  "newSessionLimiter maxSessions maxPerIdentity =
     \<lparr>ss_max = (if maxSessions \<le> 0 then 100 else maxSessions),
      ss_maxPer = (if maxPerIdentity \<le> 0 then 5 else maxPerIdentity),
      ss_global = 0, ss_per = Map.empty\<rparr>"

definition acquireSession :: "session_limiter \<Rightarrow> string \<Rightarrow> session_limiter \<times> bool \<times> string" where
  "acquireSession l subject =
     (if ss_max l \<le> ss_global l then (l, False, ''global'')
      else if ss_maxPer l \<le> count_of (ss_per l) subject then (l, False, ''identity'')
      else (l\<lparr>ss_global := ss_global l + 1, ss_per := bump (ss_per l) subject\<rparr>, True, ''''))"

text \<open>\<open>Release\<close> decrements first and deletes the entry when it reaches exactly zero.\<close>

definition dec_del0 :: "'k counts \<Rightarrow> 'k \<Rightarrow> 'k counts" where
  "dec_del0 m k = (let m' = m(k \<mapsto> count_of m k - 1) in if count_of m' k = 0 then m'(k := None) else m')"

definition releaseSession :: "session_limiter \<Rightarrow> string \<Rightarrow> session_limiter" where
  "releaseSession l subject = l\<lparr>ss_global := ss_global l - 1, ss_per := dec_del0 (ss_per l) subject\<rparr>"

record channel_limiter =
  ch_max :: int
  ch_maxPer :: int
  ch_global :: int
  ch_per :: "string counts"

definition newChannelLimiter :: "int \<Rightarrow> int \<Rightarrow> channel_limiter" where
  "newChannelLimiter maxGlobal maxPerIdentity =
     \<lparr>ch_max = (if maxGlobal \<le> 0 then 512 else maxGlobal),
      ch_maxPer = (if maxPerIdentity \<le> 0 then 32 else maxPerIdentity),
      ch_global = 0, ch_per = Map.empty\<rparr>"

definition acquireChannel :: "channel_limiter \<Rightarrow> string \<Rightarrow> channel_limiter \<times> bool \<times> string" where
  "acquireChannel l subject =
     (if ch_max l \<le> ch_global l then (l, False, ''channel_global'')
      else if ch_maxPer l \<le> count_of (ch_per l) subject then (l, False, ''channel_identity'')
      else (l\<lparr>ch_global := ch_global l + 1, ch_per := bump (ch_per l) subject\<rparr>, True, ''''))"

definition releaseChannel :: "channel_limiter \<Rightarrow> string \<Rightarrow> channel_limiter" where
  "releaseChannel l subject = l\<lparr>ch_global := ch_global l - 1, ch_per := dec_del0 (ch_per l) subject\<rparr>"

record source_limiter =
  so_max :: int
  so_count :: "string counts"

definition newSourceLimiter :: "int \<Rightarrow> source_limiter" where
  "newSourceLimiter maxPerSource =
     \<lparr>so_max = (if maxPerSource = 0 then 32 else maxPerSource), so_count = Map.empty\<rparr>"

definition acquireSrc :: "source_limiter \<Rightarrow> string \<Rightarrow> source_limiter \<times> bool" where
  "acquireSrc l source =
     (if so_max l < 0 then (l, True)
      else if so_max l \<le> count_of (so_count l) source then (l, False)
      else (l\<lparr>so_count := bump (so_count l) source\<rparr>, True))"

definition releaseSrc :: "source_limiter \<Rightarrow> string \<Rightarrow> source_limiter" where
  "releaseSrc l source =
     (if so_max l < 0 then l
      else let m = (so_count l)(source \<mapsto> count_of (so_count l) source - 1)
           in l\<lparr>so_count := (if count_of m source \<le> 0 then m(source := None) else m)\<rparr>)"

lemma count_of_dec_del0 [counter_simps]:
  "count_of (dec_del0 m k) j = count_of m j - (if j = k then 1 else 0)"
  by (auto simp: dec_del0_def count_of_def Let_def split: option.splits)

lemma tidy_dec_del0 [counter_simps]: "tidy m \<Longrightarrow> 0 < count_of m k \<Longrightarrow> tidy (dec_del0 m k)"
  by (auto simp: tidy_def dec_del0_def count_of_def Let_def split: option.splits if_splits)

section \<open>The limiters meet the admission contract\<close>

text \<open>Each operation as a step that grants or refuses, and the counters it charges.\<close>

definition global_acq :: "sni_limiter \<Rightarrow> unit \<Rightarrow> sni_limiter option" where
  "global_acq l u = (case acquireGlobal (Some l) of (lo, ok) \<Rightarrow> if ok then lo else None)"

definition source_acq :: "sni_limiter \<Rightarrow> ip_addr \<Rightarrow> sni_limiter option" where
  "source_acq l a = (case acquireSource (Some l) a of (lo, ok) \<Rightarrow> if ok then lo else None)"

definition route_acq :: "sni_limiter \<Rightarrow> string \<times> string \<Rightarrow> sni_limiter option" where
  "route_acq l wr = (case acquireRoute (Some l) (fst wr) (snd wr) of (lo, scope, ok) \<Rightarrow> if ok then lo else None)"

definition route_rel :: "sni_limiter \<Rightarrow> string \<times> string \<Rightarrow> sni_limiter" where
  "route_rel l wr = releaseRoute l (fst wr) (snd wr)"

definition session_acq :: "session_limiter \<Rightarrow> string \<Rightarrow> session_limiter option" where
  "session_acq l s = (case acquireSession l s of (l', ok, scope) \<Rightarrow> if ok then Some l' else None)"

definition channel_acq :: "channel_limiter \<Rightarrow> string \<Rightarrow> channel_limiter option" where
  "channel_acq l s = (case acquireChannel l s of (l', ok, scope) \<Rightarrow> if ok then Some l' else None)"

definition src_acq :: "source_limiter \<Rightarrow> string \<Rightarrow> source_limiter option" where
  "src_acq l s = (case acquireSrc l s of (l', ok) \<Rightarrow> if ok then Some l' else None)"

datatype route_key = OfWorkspace string | OfResource string

datatype session_key = Everyone | Identity string

fun route_held :: "sni_limiter \<Rightarrow> route_key \<Rightarrow> int" where
  "route_held l (OfWorkspace w) = count_of (sl_perWorkspace l) w"
| "route_held l (OfResource r) = count_of (sl_perResource l) r"

fun route_cap :: "sni_limiter \<Rightarrow> route_key \<Rightarrow> int option" where
  "route_cap l (OfWorkspace w) = Some (sl_maxWorkspace l)"
| "route_cap l (OfResource r) = Some (sl_maxResource l)"

fun route_charges :: "sni_limiter \<Rightarrow> string \<times> string \<Rightarrow> route_key \<Rightarrow> bool" where
  "route_charges l (w, r) (OfWorkspace w') \<longleftrightarrow> 0 < sl_maxWorkspace l \<and> w = w'"
| "route_charges l (w, r) (OfResource r') \<longleftrightarrow> 0 < sl_maxResource l \<and> r = r'"

fun session_held :: "session_limiter \<Rightarrow> session_key \<Rightarrow> int" where
  "session_held l Everyone = ss_global l"
| "session_held l (Identity s) = count_of (ss_per l) s"

fun channel_held :: "channel_limiter \<Rightarrow> session_key \<Rightarrow> int" where
  "channel_held l Everyone = ch_global l"
| "channel_held l (Identity s) = count_of (ch_per l) s"

fun keyed_charges :: "string \<Rightarrow> session_key \<Rightarrow> bool" where
  "keyed_charges s Everyone \<longleftrightarrow> True"
| "keyed_charges s (Identity t) \<longleftrightarrow> s = t"

fun session_cap :: "session_limiter \<Rightarrow> session_key \<Rightarrow> int option" where
  "session_cap l Everyone = Some (ss_max l)"
| "session_cap l (Identity s) = Some (ss_maxPer l)"

fun channel_cap :: "channel_limiter \<Rightarrow> session_key \<Rightarrow> int option" where
  "channel_cap l Everyone = Some (ch_max l)"
| "channel_cap l (Identity s) = Some (ch_maxPer l)"

lemma route_charges_iff: "route_charges l wr k \<longleftrightarrow>
    (case k of OfWorkspace w \<Rightarrow> 0 < sl_maxWorkspace l \<and> fst wr = w
     | OfResource r \<Rightarrow> 0 < sl_maxResource l \<and> snd wr = r)"
  by (cases wr; cases k) auto

lemma route_cap_iff: "route_cap l k =
    (case k of OfWorkspace w \<Rightarrow> Some (sl_maxWorkspace l) | OfResource r \<Rightarrow> Some (sl_maxResource l))"
  by (cases k) auto

lemma charged_workspace: "0 < sl_maxWorkspace l \<Longrightarrow> route_charges l wr (OfWorkspace (fst wr))"
  by (cases wr) simp

lemma charged_resource: "0 < sl_maxResource l \<Longrightarrow> route_charges l wr (OfResource (snd wr))"
  by (cases wr) simp

interpretation global: admission global_acq "\<lambda>l u. releaseGlobal l" "\<lambda>l (u::unit). sl_global l"
  "\<lambda>l u. Some (sl_maxGlobal l)" "\<lambda>l u v. 0 < sl_maxGlobal l" "\<lambda>l. True"
  by unfold_locales
    (auto simp: global_acq_def acquireGlobal_def releaseGlobal_def split: if_splits)

interpretation source: admission source_acq releaseSource "\<lambda>l. count_of (sl_perSource l)"
  "\<lambda>l a. Some (sl_maxSource l)" "\<lambda>l a k. 0 < sl_maxSource l \<and> unmap a = k" "\<lambda>l. tidy (sl_perSource l)"
  by unfold_locales
    (auto simp: source_acq_def acquireSource_def releaseSource_def Let_def counter_simps split: if_splits)

interpretation route: admission route_acq route_rel route_held route_cap route_charges
  "\<lambda>l. tidy (sl_perWorkspace l) \<and> tidy (sl_perResource l)"
proof (unfold_locales, goal_cases)
  case (1 s l s') then show ?case
    by (auto simp: route_acq_def acquireRoute_def Let_def counter_simps split: if_splits)
next
  case (2 s l s' k) then show ?case
    by (cases k; cases l)
      (auto simp: route_acq_def acquireRoute_def Let_def counter_simps split: if_splits)
next
  case (3 s l s' k c) then show ?case
    by (cases k; cases l)
      (auto simp: route_acq_def acquireRoute_def Let_def split: if_splits)
next
  case (8 s l)
  then show ?case
    using charged_workspace [of s l] charged_resource [of s l]
    by (force simp: route_acq_def acquireRoute_def Let_def split: if_splits)
next
  case (4 s l s') then show ?case
    by (auto simp: route_acq_def acquireRoute_def Let_def route_charges_iff route_cap_iff fun_eq_iff
        split: if_splits route_key.splits)
next
  case (5 s l)
  then show ?case
    using charged_workspace [of s l] charged_resource [of s l]
    by (auto simp: route_rel_def releaseRoute_def Let_def counter_simps)
next
  case (6 s l k)
  have "0 < sl_maxWorkspace s \<Longrightarrow> 0 < count_of (sl_perWorkspace s) (fst l)"
    and "0 < sl_maxResource s \<Longrightarrow> 0 < count_of (sl_perResource s) (snd l)"
    using 6(2) [OF charged_workspace [of s l]] 6(2) [OF charged_resource [of s l]] by simp_all
  then show ?case
    by (cases k) (auto simp: route_rel_def releaseRoute_def Let_def counter_simps route_charges_iff)
next
  case (7 s l) then show ?case
    by (auto simp: route_rel_def releaseRoute_def Let_def route_charges_iff route_cap_iff fun_eq_iff
        split: route_key.splits)
qed


definition session_inv :: "session_limiter \<Rightarrow> bool" where
  "session_inv l \<longleftrightarrow> tidy (ss_per l)"

definition channel_inv :: "channel_limiter \<Rightarrow> bool" where
  "channel_inv l \<longleftrightarrow> tidy (ch_per l)"

lemma keyed_charges_iff: "keyed_charges s k \<longleftrightarrow> (case k of Everyone \<Rightarrow> True | Identity t \<Rightarrow> s = t)"
  by (cases k) auto

lemma session_cap_iff: "session_cap l k = Some (case k of Everyone \<Rightarrow> ss_max l | Identity t \<Rightarrow> ss_maxPer l)"
  by (cases k) auto

lemma channel_cap_iff: "channel_cap l k = Some (case k of Everyone \<Rightarrow> ch_max l | Identity t \<Rightarrow> ch_maxPer l)"
  by (cases k) auto

interpretation session: total_admission session_acq releaseSession session_held session_cap
  "\<lambda>l. keyed_charges" session_inv Everyone
proof (unfold_locales, goal_cases)
  case (2 s l s' k) then show ?case
    by (cases k) (auto simp: session_acq_def acquireSession_def counter_simps split: if_splits)
next
  case (3 s l s' k c) then show ?case
    by (cases k) (auto simp: session_acq_def acquireSession_def split: if_splits)
next
  case (8 s l)
  have "keyed_charges l Everyone" "keyed_charges l (Identity l)" by simp_all
  moreover from 8 have "ss_max s \<le> session_held s Everyone \<or> ss_maxPer s \<le> session_held s (Identity l)"
    by (auto simp: session_acq_def acquireSession_def split: if_splits)
  moreover have "session_cap s Everyone = Some (ss_max s)" "session_cap s (Identity l) = Some (ss_maxPer s)"
    by simp_all
  ultimately show ?case by blast
next
  case (5 s l)
  then have "0 < count_of (ss_per s) l" using 5(2) [of "Identity l"] by simp
  with 5 show ?case by (simp add: session_inv_def releaseSession_def counter_simps)
next
  case (6 s l k) then show ?case
    by (cases k) (auto simp: releaseSession_def counter_simps)
qed (auto simp: session_acq_def acquireSession_def releaseSession_def session_inv_def counter_simps
    fun_eq_iff session_cap_iff split: if_splits session_key.splits)

interpretation channel: total_admission channel_acq releaseChannel channel_held channel_cap
  "\<lambda>l. keyed_charges" channel_inv Everyone
proof (unfold_locales, goal_cases)
  case (2 s l s' k) then show ?case
    by (cases k) (auto simp: channel_acq_def acquireChannel_def counter_simps split: if_splits)
next
  case (3 s l s' k c) then show ?case
    by (cases k) (auto simp: channel_acq_def acquireChannel_def split: if_splits)
next
  case (8 s l)
  have "keyed_charges l Everyone" "keyed_charges l (Identity l)" by simp_all
  moreover from 8 have "ch_max s \<le> channel_held s Everyone \<or> ch_maxPer s \<le> channel_held s (Identity l)"
    by (auto simp: channel_acq_def acquireChannel_def split: if_splits)
  moreover have "channel_cap s Everyone = Some (ch_max s)" "channel_cap s (Identity l) = Some (ch_maxPer s)"
    by simp_all
  ultimately show ?case by blast
next
  case (5 s l)
  then have "0 < count_of (ch_per s) l" using 5(2) [of "Identity l"] by simp
  with 5 show ?case by (simp add: channel_inv_def releaseChannel_def counter_simps)
next
  case (6 s l k) then show ?case
    by (cases k) (auto simp: releaseChannel_def counter_simps)
qed (auto simp: channel_acq_def acquireChannel_def releaseChannel_def channel_inv_def counter_simps
    fun_eq_iff channel_cap_iff split: if_splits session_key.splits)

lemma decrement_then_delete:
  "(let m' = m(k \<mapsto> count_of m k - 1) in if count_of m' k \<le> 0 then m'(k := None) else m') = drop_count m k"
  by (simp add: drop_count_def count_of_def)

lemma releaseSrc_drop: "releaseSrc l source =
    (if so_max l < 0 then l else l\<lparr>so_count := drop_count (so_count l) source\<rparr>)"
  using decrement_then_delete [of "so_count l" source] by (simp add: releaseSrc_def Let_def)

interpretation src: admission src_acq releaseSrc "\<lambda>l. count_of (so_count l)"
  "\<lambda>l s. Some (so_max l)" "\<lambda>l s t. 0 \<le> so_max l \<and> s = t" "\<lambda>l. tidy (so_count l)"
  by unfold_locales
    (auto simp: src_acq_def acquireSrc_def releaseSrc_drop counter_simps split: if_splits)

section \<open>Properties\<close>

text \<open>Whatever the order of admissions and (repeated) releases, the per-source table of the SNI
  proxy counts, for every client address after unmapping, exactly the connections it holds, never
  more than the cap, and it is empty again once every connection is released.\<close>

theorem sni_source_fair:
  assumes "0 < maxSource"
    and "lease_run source_acq releaseSource (newLimiter maxGlobal maxSource, []) es = (l, ls)"
  shows "count_of (sl_perSource l) a = int (length (filter (\<lambda>x. snd x \<and> unmap (fst x) = a) ls))
    \<and> count_of (sl_perSource l) a \<le> maxSource
    \<and> ((\<forall>x \<in> set ls. \<not> snd x) \<longrightarrow> sl_perSource l = Map.empty)"
proof -
  have fresh: "tidy (sl_perSource (newLimiter maxGlobal maxSource))"
    "\<And>k. count_of (sl_perSource (newLimiter maxGlobal maxSource)) k = 0"
    by (simp_all add: newLimiter_def counter_simps)
  have "sl_perSource l = Map.empty" if "\<forall>x \<in> set ls. \<not> snd x"
    using source.run_inv [OF fresh assms(2)] source.run_drained [OF fresh assms(2) that]
    by (auto intro: tidy_zero_empty)
  moreover have "count_of (sl_perSource l) a \<le> maxSource"
    using source.run_capped [OF fresh assms(2), where k = a and c = maxSource] assms(1) by (simp add: newLimiter_def)
  moreover have "count_of (sl_perSource l) a
      = int (length (filter (\<lambda>x. snd x \<and> unmap (fst x) = a) ls))"
    using source.run_exact [OF fresh assms(2), of a] assms(1) by (simp add: newLimiter_def)
  ultimately show ?thesis by blast
qed

theorem sni_source_fair_witness:
  "lease_run source_acq releaseSource (newLimiter 4 1, [])
      [Ask (IP4 1), Ask (IP6 0xffff00000001 []), Release 0, Release 0]
    = (newLimiter 4 1, [(IP4 1, False)])
   \<and> count_of (sl_perSource (newLimiter 4 1)) (IP4 1) \<le> 1"
proof -
  have run: "lease_run source_acq releaseSource (newLimiter 4 1, [])
      [Ask (IP4 1), Ask (IP6 0xffff00000001 []), Release 0, Release 0]
    = (newLimiter 4 1, [(IP4 1, False)])"
    by (simp add: source_acq_def acquireSource_def releaseSource_def newLimiter_def unmap_def
        bump_def drop_count_def count_of_def)
  have "count_of (sl_perSource (newLimiter 4 1)) (IP4 1) \<le> 1"
    using sni_source_fair [OF _ run, of "IP4 1"] by (simp add: count_of_def newLimiter_def)
  with run show ?thesis by (rule conjI)
qed

text \<open>Route admission is all-or-nothing and exact. After any run of route admissions and
  releases, each workspace and each resource counter equals the number of held connections of that
  workspace or resource, neither passes its cap, and releasing everything empties both tables.\<close>

theorem sni_route_fair:
  assumes "0 < maxW" "0 < maxR"
    and "setRouteLimits (Some (newLimiter maxGlobal maxSource)) maxW maxR = Some l0"
    and "lease_run route_acq route_rel (l0, []) es = (l, ls)"
  shows "count_of (sl_perWorkspace l) w = int (length (filter (\<lambda>x. snd x \<and> fst (fst x) = w) ls))
    \<and> count_of (sl_perResource l) r = int (length (filter (\<lambda>x. snd x \<and> snd (fst x) = r) ls))
    \<and> count_of (sl_perWorkspace l) w \<le> maxW \<and> count_of (sl_perResource l) r \<le> maxR
    \<and> ((\<forall>x \<in> set ls. \<not> snd x) \<longrightarrow> sl_perWorkspace l = Map.empty \<and> sl_perResource l = Map.empty)"
proof -
  from assms(3) have l0: "l0 = (newLimiter maxGlobal maxSource)\<lparr>sl_maxWorkspace := maxW, sl_maxResource := maxR\<rparr>"
    by (simp add: setRouteLimits_def)
  have inv: "tidy (sl_perWorkspace l0) \<and> tidy (sl_perResource l0)"
    by (simp add: l0 newLimiter_def counter_simps)
  have zero: "route_held l0 k = 0" for k
    by (cases k) (simp_all add: l0 newLimiter_def counter_simps)
  note run = inv zero assms(4)
  have "sl_perWorkspace l = Map.empty \<and> sl_perResource l = Map.empty" if "\<forall>x \<in> set ls. \<not> snd x"
    using route.run_inv [OF run] route.run_drained [OF run that, of "OfWorkspace _"]
      route.run_drained [OF run that, of "OfResource _"]
    by (auto intro!: tidy_zero_empty)
  moreover have "count_of (sl_perWorkspace l) w \<le> maxW" "count_of (sl_perResource l) r \<le> maxR"
    using route.run_capped [OF run, of "OfWorkspace w" maxW] route.run_capped [OF run, of "OfResource r" maxR]
      assms(1,2) by (simp_all add: l0)
  moreover have "count_of (sl_perWorkspace l) w = int (length (filter (\<lambda>x. snd x \<and> fst (fst x) = w) ls))"
    using route.run_exact [OF run, of "OfWorkspace w"] assms(1) by (simp add: l0 route_charges_iff)
  moreover have "count_of (sl_perResource l) r = int (length (filter (\<lambda>x. snd x \<and> snd (fst x) = r) ls))"
    using route.run_exact [OF run, of "OfResource r"] assms(2) by (simp add: l0 route_charges_iff)
  ultimately show ?thesis by blast
qed

theorem sni_route_fair_witness:
  "lease_run route_acq route_rel ((newLimiter 0 0)\<lparr>sl_maxWorkspace := 2, sl_maxResource := 1\<rparr>, [])
      [Ask (''w'', ''a''), Ask (''w'', ''a''), Ask (''w'', ''b''), Release 0, Release 1, Release 1]
    = ((newLimiter 0 0)\<lparr>sl_maxWorkspace := 2, sl_maxResource := 1\<rparr>,
        [((''w'', ''a''), False), ((''w'', ''b''), False)])
   \<and> count_of (sl_perWorkspace (newLimiter 0 0)) ''w'' \<le> 2"
proof -
  let ?l0 = "(newLimiter 0 0)\<lparr>sl_maxWorkspace := 2, sl_maxResource := 1\<rparr>"
  have run: "lease_run route_acq route_rel (?l0, [])
      [Ask (''w'', ''a''), Ask (''w'', ''a''), Ask (''w'', ''b''), Release 0, Release 1, Release 1]
    = (?l0, [((''w'', ''a''), False), ((''w'', ''b''), False)])"
    by (simp add: route_acq_def acquireRoute_def route_rel_def releaseRoute_def newLimiter_def
        bump_def drop_count_def count_of_def Let_def fun_upd_twist)
  have "setRouteLimits (Some (newLimiter 0 0)) 2 1 = Some ?l0" by (simp add: setRouteLimits_def)
  from sni_route_fair [OF _ _ this run, of "''w''" "''a''"]
  have "count_of (sl_perWorkspace ?l0) ''w'' \<le> 2" by (simp add: count_of_def newLimiter_def)
  then have "count_of (sl_perWorkspace (newLimiter 0 0)) ''w'' \<le> 2" by simp
  with run show ?thesis by (rule conjI)
qed

text \<open>The SSH gateway never holds more sessions than its two caps. After any run of session
  admissions and releases the live sessions number at most the global cap, those of one identity at
  most its cap, and the limiter's counters are exactly these numbers.\<close>

theorem ssh_sessions_capped:
  assumes "lease_run session_acq releaseSession (newSessionLimiter m p, []) es = (l, ls)"
  shows "ss_global l = int (length (filter snd ls))
    \<and> ss_global l \<le> (if m \<le> 0 then 100 else m)
    \<and> count_of (ss_per l) s = int (length (filter (\<lambda>x. snd x \<and> fst x = s) ls))
    \<and> count_of (ss_per l) s \<le> (if p \<le> 0 then 5 else p)
    \<and> ((\<forall>x \<in> set ls. \<not> snd x) \<longrightarrow> ss_per l = Map.empty)"
proof -
  have inv: "session_inv (newSessionLimiter m p)"
    by (simp add: session_inv_def newSessionLimiter_def counter_simps)
  have zero: "session_held (newSessionLimiter m p) k = 0" for k
    by (cases k) (simp_all add: newSessionLimiter_def counter_simps)
  note run = inv zero assms
  have "ss_per l = Map.empty" if "\<forall>x \<in> set ls. \<not> snd x"
    using session.run_inv [OF run] session.run_drained [OF run that, of "Identity _"]
    by (auto simp: session_inv_def intro!: tidy_zero_empty)
  moreover have "ss_global l \<le> (if m \<le> 0 then 100 else m)"
    using session.run_capped [OF run, of Everyone "if m \<le> 0 then 100 else m"]
    by (simp add: newSessionLimiter_def)
  moreover have "count_of (ss_per l) s \<le> (if p \<le> 0 then 5 else p)"
    using session.run_capped [OF run, of "Identity s" "if p \<le> 0 then 5 else p"]
    by (simp add: newSessionLimiter_def)
  moreover have "ss_global l = int (length (filter snd ls))" using session.run_total [OF run] by simp
  moreover have "count_of (ss_per l) s = int (length (filter (\<lambda>x. snd x \<and> fst x = s) ls))"
    using session.run_exact [OF run, of "Identity s"] by simp
  ultimately show ?thesis by blast
qed

theorem ssh_sessions_capped_witness:
  "\<exists>l ls. lease_run session_acq releaseSession (newSessionLimiter 2 1, [])
      [Ask ''ann'', Ask ''ann'', Ask ''bob'', Ask ''eve'', Release 0] = (l, ls)
    \<and> ss_global l = 1 \<and> ss_global l \<le> 2 \<and> ls = [(''ann'', False), (''bob'', True)]"
proof -
  have run: "lease_run session_acq releaseSession (newSessionLimiter 2 1, [])
      [Ask ''ann'', Ask ''ann'', Ask ''bob'', Ask ''eve'', Release 0]
    = (\<lparr>ss_max = 2, ss_maxPer = 1, ss_global = 1, ss_per = [''bob'' \<mapsto> 1]\<rparr>,
       [(''ann'', False), (''bob'', True)])"
    by (simp add: session_acq_def acquireSession_def releaseSession_def newSessionLimiter_def
        bump_def dec_del0_def count_of_def Let_def fun_upd_twist)
  from ssh_sessions_capped [OF run, of "''bob''"] run show ?thesis by auto
qed

text \<open>The accept loop of the SNI proxies sheds load at accept time: whatever the accept outcomes,
  the handlers it dispatches fit the global slots that were free, and every slot taken belongs to a
  dispatched handler.\<close>

theorem serve_sheds_overload:
  assumes "0 < sl_maxGlobal l" "sl_global l \<le> sl_maxGlobal l"
    and "serve meter onErr (Some l) evs = (lo', lg)"
  shows "\<exists>l'. lo' = Some l' \<and> sl_global l' = sl_global l + int (dispatched lg)
    \<and> int (dispatched lg) \<le> sl_maxGlobal l - sl_global l"
  using serve_dispatched [OF assms] by auto

theorem serve_sheds_overload_witness:
  "int (dispatched (snd (serve True True (Some (newLimiter 1 0))
      [Accepted ''a'', AcceptErr False, Accepted ''b'', AcceptErr True, Accepted ''c'']))) \<le> 1
   \<and> snd (serve True True (Some (newLimiter 1 0))
      [Accepted ''a'', AcceptErr False, Accepted ''b'', AcceptErr True, Accepted ''c''])
     = [Dispatched ''a'', ErrReported, Shed ''b'' True]"
proof -
  let ?evs = "[Accepted ''a'', AcceptErr False, Accepted ''b'', AcceptErr True, Accepted ''c'']"
  obtain lo lg where run: "serve True True (Some (newLimiter 1 0)) ?evs = (lo, lg)" by fastforce
  have "int (dispatched lg) \<le> 1"
    using serve_sheds_overload [OF _ _ run] by (auto simp: newLimiter_def)
  moreover have "lg = [Dispatched ''a'', ErrReported, Shed ''b'' True]"
    using run by (simp add: acquireGlobal_def newLimiter_def)
  ultimately show ?thesis using run by simp
qed

end
