(* ===== verification/Allowlist.thy ===== *)
theory Allowlist
  imports NetIP
begin

text \<open>
  Inbound-IP rules of a public managed datastore (\<open>operator/internal/sniproxy/allowlist.go\<close>): parsing
  the resource's own layer and its environment's layer, and the test of one layer.
\<close>

record ip_allow_entry =
  ae_cidr :: string
  ae_description :: string

datatype allow_error = BadRule string | BadEnvRule string

definition anyIPv4 :: ip_prefix where "anyIPv4 = (IP4 0, 0)"
definition anyIPv6 :: ip_prefix where "anyIPv6 = (IP6 0 [], 0)"

definition appendRule :: "ip_prefix list \<Rightarrow> string \<Rightarrow> ip_prefix list option" where
  "appendRule prefixes cidr =
     (case parse_prefix cidr of
        None \<Rightarrow> None
      | Some p \<Rightarrow>
          let prefix = masked p;
              prefixes' = prefixes @ [prefix]
          in Some (if prefix = anyIPv4 then prefixes' @ [anyIPv6] else prefixes'))"

fun appendRules :: "(string \<Rightarrow> allow_error) \<Rightarrow> ip_prefix list \<Rightarrow> string list \<Rightarrow> allow_error + ip_prefix list" where
  "appendRules bad acc [] = Inr acc"
| "appendRules bad acc (c # cs) =
     (case appendRule acc c of None \<Rightarrow> Inl (bad c) | Some acc' \<Rightarrow> appendRules bad acc' cs)"

definition parseAllowList :: "ip_allow_entry list \<Rightarrow> string list
    \<Rightarrow> allow_error + ip_prefix list \<times> ip_prefix list" where
  "parseAllowList entries environment =
     rbind (appendRules BadRule [] (map ae_cidr entries)) (\<lambda>allow.
     rbind (appendRules BadEnvRule [] environment) (\<lambda>envAllow.
     Inr (allow, envAllow)))"

fun allowedIn :: "ip_addr \<Rightarrow> ip_prefix list \<Rightarrow> bool" where
  "allowedIn source [] \<longleftrightarrow> False"
| "allowedIn source (p # ps) \<longleftrightarrow> (if prefix_contains p (unmap source) then True else allowedIn source ps)"

definition allowedBy :: "ip_addr \<Rightarrow> ip_prefix list \<Rightarrow> bool" where
  "allowedBy source prefixes \<longleftrightarrow> (if prefixes = [] then True else allowedIn source prefixes)"

section \<open>What a parsed layer admits\<close>

text \<open>The rules a client address must match: an authored prefix, or the widened any-IPv4 rule.\<close>

definition rule_admits :: "string \<Rightarrow> ip_addr \<Rightarrow> bool" where
  "rule_admits cidr a \<longleftrightarrow>
     (case parse_prefix cidr of
        None \<Rightarrow> False
      | Some p \<Rightarrow> prefix_contains p (unmap a) \<or> (masked p = anyIPv4 \<and> prefix_contains anyIPv6 (unmap a)))"

lemma allowedIn_iff: "allowedIn a ps \<longleftrightarrow> (\<exists>p \<in> set ps. prefix_contains p (unmap a))"
  by (induction ps) auto

lemma appendRule_admits:
  assumes "appendRule acc c = Some acc'"
  shows "allowedIn a acc' \<longleftrightarrow> allowedIn a acc \<or> rule_admits c a" and "acc' \<noteq> []"
proof -
  from assms obtain p where p: "parse_prefix c = Some p"
    and acc': "acc' = acc @ [masked p] @ (if masked p = anyIPv4 then [anyIPv6] else [])"
    by (auto simp: appendRule_def Let_def split: option.splits if_splits)
  show "allowedIn a acc' \<longleftrightarrow> allowedIn a acc \<or> rule_admits c a"
    using p contains_masked [of p "unmap a"]
    by (auto simp: acc' allowedIn_iff rule_admits_def simp del: contains_masked)
  show "acc' \<noteq> []" by (simp add: acc')
qed

lemma appendRules_admits:
  "appendRules bad acc cs = Inr ps \<Longrightarrow>
    (allowedIn a ps \<longleftrightarrow> allowedIn a acc \<or> (\<exists>c \<in> set cs. rule_admits c a))
    \<and> (ps = [] \<longleftrightarrow> acc = [] \<and> cs = [])"
proof (induction cs arbitrary: acc)
  case Nil
  then show ?case by auto
next
  case (Cons c cs)
  then obtain acc' where acc': "appendRule acc c = Some acc'" and rest: "appendRules bad acc' cs = Inr ps"
    by (auto split: option.splits)
  from Cons.IH [OF rest] appendRule_admits(1) [OF acc', of a] appendRule_admits(2) [OF acc'] show ?case by auto
qed

lemma appendRules_ok_iff:
  "is_ok (appendRules bad acc cs) \<longleftrightarrow> (\<forall>c \<in> set cs. parse_prefix c \<noteq> None)"
proof (induction cs arbitrary: acc)
  case (Cons c cs)
  then show ?case by (cases "appendRule acc c") (auto simp: appendRule_def Let_def split: option.splits)
qed simp

lemma parseAllowList_layers:
  assumes "parseAllowList entries environment = Inr (allow, envAllow)"
  shows "appendRules BadRule [] (map ae_cidr entries) = Inr allow"
    and "appendRules BadEnvRule [] environment = Inr envAllow"
  using assms by (auto simp: parseAllowList_def rbind_Inr_iff)

text \<open>One layer admits exactly the addresses some rule of it admits; an empty layer admits all.\<close>

definition layer_admits :: "string list \<Rightarrow> ip_addr \<Rightarrow> bool" where
  "layer_admits cidrs a \<longleftrightarrow> cidrs = [] \<or> (\<exists>c \<in> set cidrs. rule_admits c a)"

lemma allowedBy_layer:
  assumes "appendRules bad [] cidrs = Inr ps"
  shows "allowedBy a ps \<longleftrightarrow> layer_admits cidrs a"
  using appendRules_admits [OF assms, of a] by (auto simp: allowedBy_def layer_admits_def)

section \<open>Properties\<close>

text \<open>Enforcement follows the authored rules. When the two layers parse, the front door's test of a
  client address against a layer is true exactly when the layer has no rule, or one of its rules, as
  authored, contains the address, or one is any-IPv4 and the address is an IPv6 address without zone.
  No other address is let in by the widening, and none an authored rule names is lost.\<close>

theorem allowlist_exact:
  assumes "parseAllowList entries environment = Inr (allow, envAllow)"
  shows "(allowedBy a allow \<longleftrightarrow> layer_admits (map ae_cidr entries) a)
    \<and> (allowedBy a envAllow \<longleftrightarrow> layer_admits environment a)"
  using allowedBy_layer [OF parseAllowList_layers(1) [OF assms], of a]
    allowedBy_layer [OF parseAllowList_layers(2) [OF assms], of a] by blast

theorem allowlist_exact_witness:
  "\<exists>allow envAllow.
     parseAllowList [\<lparr>ae_cidr = ''0.0.0.0/0'', ae_description = ''any''\<rparr>] [''10.0.0.0/8''] = Inr (allow, envAllow)
     \<and> allowedBy (IP6 1 []) allow \<and> \<not> allowedBy (IP6 1 []) envAllow"
proof -
  have parsed: "parseAllowList [\<lparr>ae_cidr = ''0.0.0.0/0'', ae_description = ''any''\<rparr>] [''10.0.0.0/8'']
      = Inr ([anyIPv4, anyIPv6], [(IP4 0x0a000000, 8)])"
    by (simp add: parseAllowList_def appendRule_def anyIPv4_def anyIPv6_def ip_eval)
  have "layer_admits [''0.0.0.0/0''] (IP6 1 [])"
    using any6_contains [of 1]
    by (simp add: layer_admits_def rule_admits_def parse_any4 anyIPv4_def anyIPv6_def unmap_def)
  moreover have "\<not> layer_admits [''10.0.0.0/8''] (IP6 1 [])"
    by (simp add: layer_admits_def rule_admits_def anyIPv4_def ip_eval)
  ultimately show ?thesis using allowlist_exact [OF parsed, of "IP6 1 []"] parsed by auto
qed

text \<open>A malformed rule anywhere, in either layer, fails the whole parse; nothing else does.\<close>

theorem allowlist_malformed:
  "is_ok (parseAllowList entries environment) \<longleftrightarrow>
     (\<forall>e \<in> set entries. parse_prefix (ae_cidr e) \<noteq> None) \<and> (\<forall>c \<in> set environment. parse_prefix c \<noteq> None)"
proof (cases "appendRules BadRule [] (map ae_cidr entries)")
  case (Inl e)
  then show ?thesis using appendRules_ok_iff [of BadRule "[]" "map ae_cidr entries"]
    by (auto simp: parseAllowList_def)
next
  case (Inr ps)
  then show ?thesis
    using appendRules_ok_iff [of BadRule "[]" "map ae_cidr entries"]
      appendRules_ok_iff [of BadEnvRule "[]" environment]
    by (cases "appendRules BadEnvRule [] environment") (auto simp: parseAllowList_def)
qed

theorem allowlist_malformed_witness:
  "\<not> is_ok (parseAllowList [\<lparr>ae_cidr = ''10.0.0.0/8'', ae_description = []\<rparr>] [''10.0.0.0/33''])"
proof -
  have "parse_prefix ''10.0.0.0/33'' = None" by (simp add: ip_eval)
  then show ?thesis
    using allowlist_malformed [of "[\<lparr>ae_cidr = ''10.0.0.0/8'', ae_description = []\<rparr>]" "[''10.0.0.0/33'']"] by simp
qed

end
