(* ===== verification/GoText.thy ===== *)
theory GoText
  imports Bex_Prelude
begin

text \<open>
  The functions of Go's \<open>strings\<close>, \<open>strconv\<close> and \<open>net\<close> packages the modelled code uses, on byte strings.
  White space is Go's: the six ASCII characters and the UTF-8 encodings of the other Unicode spaces.
  A lead byte never occurs inside a UTF-8 sequence, so matching the encodings byte by byte finds the
  same spaces as Go's decoding does. Lower-casing is exact on ASCII; Unicode's case tables are the
  argument \<open>uni\<close> of \<open>to_lower\<close>, used for strings that are not ASCII.
\<close>

section \<open>White space\<close>

definition ascii_space :: "char \<Rightarrow> bool" where
  "ascii_space c \<longleftrightarrow> c \<in> {CHR 0x09, CHR 0x0A, CHR 0x0B, CHR 0x0C, CHR 0x0D, CHR '' ''}"

definition unicode_spaces :: "string list" where
  "unicode_spaces =
     [[CHR 0xC2, CHR 0x85], [CHR 0xC2, CHR 0xA0], [CHR 0xE1, CHR 0x9A, CHR 0x80]]
     @ map (\<lambda>b. [CHR 0xE2, CHR 0x80, b])
         [CHR 0x80, CHR 0x81, CHR 0x82, CHR 0x83, CHR 0x84, CHR 0x85, CHR 0x86, CHR 0x87, CHR 0x88,
          CHR 0x89, CHR 0x8A, CHR 0xA8, CHR 0xA9, CHR 0xAF]
     @ [[CHR 0xE2, CHR 0x81, CHR 0x9F], [CHR 0xE3, CHR 0x80, CHR 0x80]]"

definition starts_with :: "'a list \<Rightarrow> 'a list \<Rightarrow> bool" where
  "starts_with p s \<longleftrightarrow> take (length p) s = p"

definition ends_with :: "'a list \<Rightarrow> 'a list \<Rightarrow> bool" where
  "ends_with q s \<longleftrightarrow> length q \<le> length s \<and> drop (length s - length q) s = q"

text \<open>The width of the space a string starts with, 0 when it starts with none.\<close>

definition space_width :: "string \<Rightarrow> nat" where
  "space_width s =
     (case s of [] \<Rightarrow> 0
      | c # _ \<Rightarrow> if ascii_space c then 1
          else case find (\<lambda>u. starts_with u s) unicode_spaces of None \<Rightarrow> 0 | Some u \<Rightarrow> length u)"

definition space_width_end :: "string \<Rightarrow> nat" where
  "space_width_end s =
     (if s = [] then 0
      else if ascii_space (last s) then 1
      else case find (\<lambda>u. ends_with u s) unicode_spaces of None \<Rightarrow> 0 | Some u \<Rightarrow> length u)"

function trim_left :: "string \<Rightarrow> string" where
  "trim_left s = (let n = space_width s in if s = [] \<or> n = 0 then s else trim_left (drop n s))"
  by pat_completeness auto
termination
  by (relation "measure length") auto

function trim_right :: "string \<Rightarrow> string" where
  "trim_right s = (let n = space_width_end s in if s = [] \<or> n = 0 then s else trim_right (take (length s - n) s))"
  by pat_completeness auto
termination
  by (relation "measure length") auto

declare trim_left.simps [simp del] trim_right.simps [simp del]

definition trim_space :: "string \<Rightarrow> string" where
  "trim_space s = trim_right (trim_left s)"

text \<open>\<open>strings.Fields\<close>: the current field is kept reversed.\<close>

function fields_from :: "string \<Rightarrow> string \<Rightarrow> string list" where
  "fields_from cur [] = (if cur = [] then [] else [rev cur])"
| "fields_from cur (c # s) =
     (let n = space_width (c # s)
      in if n = 0 then fields_from (c # cur) s
         else if cur = [] then fields_from [] (drop n (c # s))
         else rev cur # fields_from [] (drop n (c # s)))"
  by pat_completeness auto
termination
  by (relation "measure (\<lambda>(cur, s). length s)") auto

definition go_fields :: "string \<Rightarrow> string list" where
  "go_fields s = fields_from [] s"

section \<open>Splitting and affixes\<close>

fun split_on :: "char \<Rightarrow> string \<Rightarrow> string list" where
  "split_on sep [] = [[]]"
| "split_on sep (c # s) =
     (if c = sep then [] # split_on sep s
      else case split_on sep s of [] \<Rightarrow> [[c]] | w # ws \<Rightarrow> (c # w) # ws)"

definition cut_prefix :: "string \<Rightarrow> string \<Rightarrow> string option" where
  "cut_prefix p s = (if starts_with p s then Some (drop (length p) s) else None)"

definition cut_suffix :: "string \<Rightarrow> string \<Rightarrow> string option" where
  "cut_suffix q s = (if ends_with q s then Some (take (length s - length q) s) else None)"

definition trim_prefix :: "string \<Rightarrow> string \<Rightarrow> string" where
  "trim_prefix p s = (if starts_with p s then drop (length p) s else s)"

definition trim_suffix :: "string \<Rightarrow> string \<Rightarrow> string" where
  "trim_suffix q s = (if ends_with q s then take (length s - length q) s else s)"

lemma starts_with_append [simp]: "starts_with p (p @ s)"
  by (simp add: starts_with_def)

lemma ends_with_append [simp]: "ends_with q (s @ q)"
  by (simp add: ends_with_def)

lemma cut_suffix_append [simp]: "cut_suffix q (s @ q) = Some s"
  by (simp add: cut_suffix_def)

lemma cut_suffix_Some: "cut_suffix q s = Some b \<longleftrightarrow> s = b @ q"
proof
  assume "cut_suffix q s = Some b"
  then have b: "b = take (length s - length q) s" and q: "drop (length s - length q) s = q"
    by (auto simp: cut_suffix_def ends_with_def split: if_splits)
  show "s = b @ q" unfolding b by (metis append_take_drop_id q)
qed simp

lemma starts_with_iff: "starts_with p s \<longleftrightarrow> (\<exists>r. s = p @ r)"
proof
  assume "starts_with p s"
  then have "s = p @ drop (length p) s"
    unfolding starts_with_def by (metis append_take_drop_id)
  then show "\<exists>r. s = p @ r" ..
qed (auto simp: starts_with_def)

lemma cut_prefix_Some: "cut_prefix p s = Some r \<longleftrightarrow> s = p @ r"
  by (auto simp: cut_prefix_def starts_with_iff)

text \<open>\<open>strings.Cut\<close> around the first separator: before, after, found.\<close>

definition cut_at :: "char \<Rightarrow> string \<Rightarrow> string \<times> string \<times> bool" where
  "cut_at sep s =
     (if sep \<in> set s then (takeWhile (\<lambda>c. c \<noteq> sep) s, tl (dropWhile (\<lambda>c. c \<noteq> sep) s), True)
      else (s, [], False))"

lemma cut_at_found: "cut_at sep s = (a, b, True) \<Longrightarrow> s = a @ sep # b \<and> sep \<notin> set a"
proof -
  assume "cut_at sep s = (a, b, True)"
  then have m: "sep \<in> set s" and a: "a = takeWhile (\<lambda>c. c \<noteq> sep) s" and b: "b = tl (dropWhile (\<lambda>c. c \<noteq> sep) s)"
    by (auto simp: cut_at_def split: if_splits)
  have ne: "dropWhile (\<lambda>c. c \<noteq> sep) s \<noteq> []" using m by (auto simp: dropWhile_eq_Nil_conv)
  then have "hd (dropWhile (\<lambda>c. c \<noteq> sep) s) = sep" using hd_dropWhile by blast
  with ne have "dropWhile (\<lambda>c. c \<noteq> sep) s = sep # b"
    by (cases "dropWhile (\<lambda>c. c \<noteq> sep) s") (simp_all add: b)
  then have "s = a @ sep # b" unfolding a by (metis takeWhile_dropWhile_id)
  moreover have "sep \<notin> set a" unfolding a using set_takeWhileD by fastforce
  ultimately show ?thesis by simp
qed

lemma cut_at_append: "sep \<notin> set a \<Longrightarrow> cut_at sep (a @ sep # b) = (a, b, True)"
proof -
  assume "sep \<notin> set a"
  then have "takeWhile (\<lambda>c. c \<noteq> sep) (a @ sep # b) = a"
    and "dropWhile (\<lambda>c. c \<noteq> sep) (a @ sep # b) = sep # b"
    by (induction a) auto
  then show ?thesis by (simp add: cut_at_def)
qed

section \<open>Case\<close>

definition is_ascii :: "char \<Rightarrow> bool" where
  "is_ascii c \<longleftrightarrow> (of_char c :: nat) < 128"

definition ascii_lower :: "char \<Rightarrow> char" where
  "ascii_lower c = (if CHR ''A'' \<le> c \<and> c \<le> CHR ''Z'' then char_of (of_char c + 32 :: nat) else c)"

definition to_lower :: "(string \<Rightarrow> string) \<Rightarrow> string \<Rightarrow> string" where
  "to_lower uni s = (if list_all is_ascii s then map ascii_lower s else uni s)"

text \<open>\<open>strings.EqualFold\<close>: exact on ASCII, Unicode folding is the argument.\<close>

definition equal_fold :: "(string \<Rightarrow> string \<Rightarrow> bool) \<Rightarrow> string \<Rightarrow> string \<Rightarrow> bool" where
  "equal_fold fold_eq s t =
     (if list_all is_ascii s \<and> list_all is_ascii t then map ascii_lower s = map ascii_lower t else fold_eq s t)"

section \<open>Numbers\<close>

text \<open>Decimal digits of a natural number, as \<open>strconv.Itoa\<close> and \<open>%d\<close> print it.\<close>

fun show_nat :: "nat \<Rightarrow> string" where
  "show_nat n = (if n < 10 then [char_of (48 + n)] else show_nat (n div 10) @ [char_of (48 + n mod 10)])"

declare show_nat.simps [simp del]

definition show_int :: "int \<Rightarrow> string" where
  "show_int i = (if i < 0 then CHR ''-'' # show_nat (nat (- i)) else show_nat (nat i))"

definition is_digit :: "char \<Rightarrow> bool" where
  "is_digit c \<longleftrightarrow> CHR ''0'' \<le> c \<and> c \<le> CHR ''9''"

fun digits_val :: "nat \<Rightarrow> string \<Rightarrow> nat" where
  "digits_val acc [] = acc"
| "digits_val acc (c # s) = digits_val (acc * 10 + (of_char c - 48)) s"

text \<open>\<open>strconv.ParseUint(s, 10, bits)\<close> and \<open>strconv.ParseInt(s, 10, bits)\<close>; \<open>None\<close> is any error.\<close>

definition parse_uint :: "nat \<Rightarrow> string \<Rightarrow> nat option" where
  "parse_uint bits s =
     (if s = [] \<or> \<not> list_all is_digit s then None
      else let n = digits_val 0 s in if n < 2 ^ bits then Some n else None)"

definition parse_int :: "nat \<Rightarrow> string \<Rightarrow> int option" where
  "parse_int bits s =
     (let neg = (s \<noteq> [] \<and> hd s = CHR ''-'');
          body = (if s \<noteq> [] \<and> (hd s = CHR ''-'' \<or> hd s = CHR ''+'') then tl s else s)
      in if body = [] \<or> \<not> list_all is_digit body then None
         else let n = digits_val 0 body
              in if neg then (if n \<le> 2 ^ (bits - 1) then Some (- int n) else None)
                 else (if n < 2 ^ (bits - 1) then Some (int n) else None))"

lemma digits_val_append: "digits_val acc (s @ [c]) = digits_val acc s * 10 + (of_char c - 48)"
  by (induction s arbitrary: acc) auto

lemma of_char_digit: "d < 10 \<Longrightarrow> of_char (char_of (48 + d :: nat)) = 48 + d"
  by (simp add: take_bit_nat_eq_self)

lemma is_digit_char: "d < 10 \<Longrightarrow> is_digit (char_of (48 + d :: nat))"
  using of_char_digit [of d] by (simp add: is_digit_def less_eq_char_def)

lemma show_nat_digits: "list_all is_digit (show_nat n) \<and> show_nat n \<noteq> [] \<and> digits_val 0 (show_nat n) = n"
proof (induction n rule: show_nat.induct)
  case (1 n)
  show ?case
  proof (cases "n < 10")
    case True
    then show ?thesis by (subst (1 2 3) show_nat.simps) (simp add: is_digit_char)
  next
    case False
    with 1 show ?thesis
      using of_char_digit [of "n mod 10"]
      by (subst (1 2 3) show_nat.simps) (simp add: is_digit_char digits_val_append)
  qed
qed

lemma parse_uint_show [simp]: "n < 2 ^ bits \<Longrightarrow> parse_uint bits (show_nat n) = Some n"
  using show_nat_digits [of n] by (simp add: parse_uint_def)

lemma show_nat_hd: "is_digit (hd (show_nat n))"
  using show_nat_digits [of n] by (cases "show_nat n") auto

lemma parse_int_show:
  assumes "- (2 ^ (bits - 1)) \<le> i" "i < 2 ^ (bits - 1)"
  shows "parse_int bits (show_int i) = Some i"
proof (cases "i < 0")
  case True
  have "nat (- i) \<le> 2 ^ (bits - 1)" using assms(1) by (simp add: nat_le_iff)
  then show ?thesis using True show_nat_digits [of "nat (- i)"] by (simp add: parse_int_def show_int_def)
next
  case False
  have "\<not> (hd (show_nat (nat i)) = CHR ''-'' \<or> hd (show_nat (nat i)) = CHR ''+'')"
    using show_nat_hd [of "nat i"] by (auto simp: is_digit_def less_eq_char_def)
  moreover have "nat i < 2 ^ (bits - 1)" using False assms(2) by (simp add: nat_less_iff)
  ultimately show ?thesis using False show_nat_digits [of "nat i"]
    by (simp add: parse_int_def show_int_def)
qed

section \<open>Host and port\<close>

text \<open>\<open>net.SplitHostPort\<close>, the host part; \<open>None\<close> is any error.\<close>

definition split_host :: "string \<Rightarrow> string option" where
  "split_host s =
     (if CHR '':'' \<notin> set s then None
      else
        let i = length s - 1 - length (takeWhile (\<lambda>c. c \<noteq> CHR '':'') (rev s))
        in if hd s = CHR ''['' then
             if CHR '']'' \<notin> set s then None
             else
               let e = length (takeWhile (\<lambda>c. c \<noteq> CHR '']'') s)
               in if e + 1 \<noteq> i then None
                  else if CHR ''['' \<in> set (tl s) \<or> CHR '']'' \<in> set (drop (e + 1) s) then None
                  else Some (drop 1 (take e s))
           else
             let host = take i s
             in if CHR '':'' \<in> set host \<or> CHR ''['' \<in> set s \<or> CHR '']'' \<in> set s then None
                else Some host)"

lemmas text_eval = trim_space_def trim_left.simps trim_right.simps space_width_def space_width_end_def
  ascii_space_def unicode_spaces_def starts_with_def ends_with_def go_fields_def Let_def

lemma fields_example: "go_fields ''PROXY  TCP4 a'' = [''PROXY'', ''TCP4'', ''a'']"
  by (simp add: text_eval)

lemma trim_example: "trim_space '' a b '' = ''a b''"
  by (simp add: text_eval)

lemma split_host_example: "split_host ''[::1]:443'' = Some ''::1''" "split_host ''10.0.0.1:80'' = Some ''10.0.0.1''"
  by (simp_all add: split_host_def)

end
