(* ===== verification/ProxyProto.thy ===== *)
theory ProxyProto
  imports NetIP GoText
begin

text \<open>
  The PROXY protocol reader of the front doors (\<open>types/proxyproto/proxyproto.go\<close>): which client
  address a connection is attributed to. The connection is the list of the bytes it will deliver
  before it ends; a \<open>bufio.Reader\<close> is what is left of it plus the size of its buffer, which bounds
  \<open>ReadSlice\<close> (\<open>bufsz\<close>, 4096 for the readers the front doors make, at least 16).
\<close>

section \<open>Constants\<close>

definition str_bytes :: "string \<Rightarrow> bytes" where
  "str_bytes s = map (\<lambda>c. word_of_nat (of_char c)) s"

definition bytes_str :: "bytes \<Rightarrow> string" where
  "bytes_str bs = map (\<lambda>b. char_of (unat b)) bs"

definition proxyV1Prefix :: string where "proxyV1Prefix = ''PROXY ''"

definition proxyV2Signature :: bytes where
  "proxyV2Signature = [0x0D, 0x0A, 0x0D, 0x0A, 0x00, 0x0D, 0x0A, 0x51, 0x55, 0x49, 0x54, 0x0A]"

definition maxProxyV1Header :: nat where "maxProxyV1Header = 108"
definition maxProxyV2Body :: nat where "maxProxyV2Body = 216"

datatype proxy_error =
    BadPeer | NoPrefix | Untrusted
  | V1TooLarge | V1Read | V1NoCRLF | V1Invalid | V1BadSource | V1BadDestination | V1Family | V1Port
  | V2Read | V2Invalid | V2TooLarge | V2Body | V2Command | V2Transport | V2Short4 | V2Short6 | V2Port | V2Family

section \<open>Trust\<close>

fun parsePrefixes :: "string list \<Rightarrow> ip_prefix list option" where
  "parsePrefixes [] = Some []"
| "parsePrefixes (item # items) =
     (case parse_prefix (trim_space item) of
        None \<Rightarrow> None
      | Some p \<Rightarrow> map_option (\<lambda>ps. masked p # ps) (parsePrefixes items))"

definition parseTrustedProxyCIDRs :: "string \<Rightarrow> ip_prefix list option" where
  "parseTrustedProxyCIDRs raw =
     (if trim_space raw = [] then Some [] else parsePrefixes (split_on (CHR '','') raw))"

definition remoteIP :: "string \<Rightarrow> ip_addr option" where
  "remoteIP addr = (case split_host addr of None \<Rightarrow> None | Some host \<Rightarrow> parse_addr host)"

fun trustedProxyPeer :: "ip_addr \<Rightarrow> ip_prefix list \<Rightarrow> bool" where
  "trustedProxyPeer peer [] \<longleftrightarrow> False"
| "trustedProxyPeer peer (p # ps) \<longleftrightarrow>
     (if prefix_contains p (unmap peer) then True else trustedProxyPeer peer ps)"

section \<open>Version 1\<close>

datatype slice_result = Line bytes bytes | BufferFull | ReadErr

definition readSlice :: "nat \<Rightarrow> byte \<Rightarrow> bytes \<Rightarrow> slice_result" where
  "readSlice bufsz delim s =
     (let i = length (takeWhile (\<lambda>b. b \<noteq> delim) s)
      in if i < length s \<and> i < bufsz then Line (take (Suc i) s) (drop (Suc i) s)
         else if bufsz \<le> length s then BufferFull
         else ReadErr)"

definition v1_port_ok :: "string \<Rightarrow> bool" where
  "v1_port_ok raw = (case parse_uint 16 raw of None \<Rightarrow> False | Some port \<Rightarrow> port \<noteq> 0)"

definition readProxyV1 :: "nat \<Rightarrow> bytes \<Rightarrow> ip_addr \<Rightarrow> proxy_error + ip_addr \<times> bytes" where
  "readProxyV1 bufsz stream immediate =
     (case readSlice bufsz 0x0A stream of
        BufferFull \<Rightarrow> Inl V1TooLarge
      | ReadErr \<Rightarrow> Inl V1Read
      | Line lineBytes rest \<Rightarrow>
          if maxProxyV1Header < length lineBytes then Inl V1TooLarge
          else
            let line = bytes_str lineBytes
            in if \<not> ends_with [CHR 0x0D, CHR 0x0A] line then Inl V1NoCRLF
               else
                 let fields = go_fields (trim_suffix [CHR 0x0D, CHR 0x0A] line)
                 in if length fields = 2 \<and> fields ! 1 = ''UNKNOWN'' then Inr (unmap immediate, rest)
                    else if length fields \<noteq> 6 \<or> fields ! 0 \<noteq> ''PROXY'' then Inl V1Invalid
                    else
                      let family = fields ! 1; isTCP4 = (family = ''TCP4'')
                      in if family \<noteq> ''TCP4'' \<and> family \<noteq> ''TCP6'' then Inl V1Invalid
                         else
                           (case parse_addr (fields ! 2) of
                              None \<Rightarrow> Inl V1BadSource
                            | Some source \<Rightarrow>
                                (case parse_addr (fields ! 3) of
                                   None \<Rightarrow> Inl V1BadDestination
                                 | Some destination \<Rightarrow>
                                     if isTCP4 \<noteq> is4 source \<or> isTCP4 \<noteq> is4 destination then Inl V1Family
                                     else if \<not> v1_port_ok (fields ! 4) \<or> \<not> v1_port_ok (fields ! 5) then Inl V1Port
                                     else Inr (unmap source, rest))))"

section \<open>Version 2\<close>

definition be_addr :: "bytes \<Rightarrow> nat" where
  "be_addr bs = foldl (\<lambda>acc b. acc * 256 + unat b) 0 bs"

definition port_zero :: "bytes \<Rightarrow> nat \<Rightarrow> bool" where
  "port_zero body i = (be16 (body ! i) (body ! (i + 1)) = 0)"

definition readProxyV2 :: "bytes \<Rightarrow> ip_addr \<Rightarrow> proxy_error + ip_addr \<times> bytes" where
  "readProxyV2 stream immediate =
     (if length stream < 16 then Inl V2Read
      else
        let header = take 16 stream; s1 = drop 16 stream
        in if take 12 header \<noteq> proxyV2Signature \<or> drop_bit 4 (header ! 12) \<noteq> 2 then Inl V2Invalid
           else
             let bodyLen = be16 (header ! 14) (header ! 15)
             in if maxProxyV2Body < bodyLen then Inl V2TooLarge
                else if length s1 < bodyLen then Inl V2Body
                else
                  let body = take bodyLen s1; rest = drop bodyLen s1; command = header ! 12 AND 0x0F
                  in if command = 0 then Inr (unmap immediate, rest)
                     else if command \<noteq> 1 then Inl V2Command
                     else if header ! 13 AND 0x0F \<noteq> 1 then Inl V2Transport
                     else if drop_bit 4 (header ! 13) = 1 then
                       (if length body < 12 then Inl V2Short4
                        else if port_zero body 8 \<or> port_zero body 10 then Inl V2Port
                        else Inr (unmap (IP4 (word_of_nat (be_addr (take 4 body)))), rest))
                     else if drop_bit 4 (header ! 13) = 2 then
                       (if length body < 36 then Inl V2Short6
                        else if port_zero body 32 \<or> port_zero body 34 then Inl V2Port
                        else Inr (unmap (IP6 (word_of_nat (be_addr (take 16 body))) []), rest))
                     else Inl V2Family)"

section \<open>The reader\<close>

datatype proxy_header = NoHeader | HeaderV1 | HeaderV2

text \<open>Which header the stream starts with, by the two \<open>Peek\<close>s.\<close>

definition detect :: "bytes \<Rightarrow> proxy_header" where
  "detect stream =
     (if hd stream = hd (str_bytes proxyV1Prefix) then
        (if length stream < 6 \<or> take 6 stream \<noteq> str_bytes proxyV1Prefix then NoHeader else HeaderV1)
      else if hd stream = hd proxyV2Signature then
        (if length stream < 12 \<or> take 12 stream \<noteq> proxyV2Signature then NoHeader else HeaderV2)
      else NoHeader)"

definition readProxySource :: "nat \<Rightarrow> bytes \<Rightarrow> string \<Rightarrow> ip_prefix list \<Rightarrow> proxy_error + ip_addr \<times> bytes" where
  "readProxySource bufsz stream remote trusted =
     (case remoteIP remote of
        None \<Rightarrow> Inl BadPeer
      | Some immediate \<Rightarrow>
          if stream = [] then Inl NoPrefix
          else
            (case detect stream of
               NoHeader \<Rightarrow> Inr (unmap immediate, stream)
             | h \<Rightarrow>
                 if \<not> trustedProxyPeer immediate trusted then Inl Untrusted
                 else if h = HeaderV1 then readProxyV1 bufsz stream immediate
                 else readProxyV2 stream immediate))"

section \<open>Reading consumes only the header\<close>

lemma trustedProxyPeer_iff: "trustedProxyPeer peer ps \<longleftrightarrow> (\<exists>p \<in> set ps. prefix_contains p (unmap peer))"
  by (induction ps) auto

lemma readSlice_Line:
  assumes "readSlice bufsz d s = Line line rest"
  shows "s = line @ rest \<and> line \<noteq> [] \<and> last line = d \<and> d \<notin> set (butlast line) \<and> length line \<le> bufsz"
proof -
  let ?i = "length (takeWhile (\<lambda>b. b \<noteq> d) s)"
  from assms have i: "?i < length s" "?i < bufsz" and line: "line = take (Suc ?i) s" and rest: "rest = drop (Suc ?i) s"
    by (auto simp: readSlice_def Let_def split: if_splits)
  have tw: "take ?i s = takeWhile (\<lambda>b. b \<noteq> d) s" by (rule takeWhile_eq_take [symmetric])
  have hit: "s ! ?i = d" using nth_length_takeWhile [OF i(1)] by simp
  have lineq: "line = takeWhile (\<lambda>b. b \<noteq> d) s @ [d]"
    using i(1) hit tw by (simp add: line take_Suc_conv_app_nth)
  have "d \<notin> set (takeWhile (\<lambda>b. b \<noteq> d) s)" using set_takeWhileD by fastforce
  then have "line \<noteq> [] \<and> last line = d \<and> d \<notin> set (butlast line) \<and> length line \<le> bufsz"
    using i(2) by (simp add: lineq)
  moreover have "s = line @ rest" by (simp add: line rest)
  ultimately show ?thesis by blast
qed

lemma readProxyV1_suffix:
  assumes "readProxyV1 bufsz stream immediate = Inr (a, rest)"
  shows "\<exists>line. stream = line @ rest \<and> length line \<le> maxProxyV1Header"
proof -
  obtain line r where line: "readSlice bufsz 0x0A stream = Line line r"
    using assms by (cases "readSlice bufsz 0x0A stream") (simp_all add: readProxyV1_def)
  have "length line \<le> maxProxyV1Header \<and> r = rest"
    using assms unfolding readProxyV1_def line slice_result.case Let_def
    by (simp only: sum.inject prod.inject sum.simps if_True if_False not_less
        split: if_split_asm option.split_asm)
  then show ?thesis using readSlice_Line [OF line] by blast
qed

lemma readProxyV2_suffix:
  assumes "readProxyV2 stream immediate = Inr (a, rest)"
  shows "\<exists>header. stream = header @ rest \<and> length header \<le> 16 + maxProxyV2Body"
proof -
  let ?n = "be16 (stream ! 14) (stream ! 15)"
  from assms have "rest = drop (16 + ?n) stream" "?n \<le> maxProxyV2Body" "16 + ?n \<le> length stream"
    by (auto simp: readProxyV2_def Let_def add.commute split: if_splits)
  then show ?thesis
    by (intro exI [of _ "take (16 + ?n) stream"]) simp
qed

section \<open>Properties\<close>

text \<open>A client address is only ever taken from a header a trusted peer sent. From an untrusted
  peer the reader either refuses the connection or attributes it to the peer itself and leaves every
  byte of the stream to the caller, so no byte the peer sends can forge an address.\<close>

theorem proxy_untrusted_cannot_spoof:
  assumes "readProxySource bufsz stream remote trusted = Inr (a, rest)"
    and "remoteIP remote = Some immediate" and "\<not> trustedProxyPeer immediate trusted"
  shows "a = unmap immediate \<and> rest = stream"
  using assms by (auto simp: readProxySource_def split: if_splits proxy_header.splits)

theorem proxy_untrusted_cannot_spoof_witness:
  "readProxySource 4096 [0x16, 0x03] ''203.0.113.9:5000'' [] = Inr (IP4 0xcb007109, [0x16, 0x03])
   \<and> readProxySource 4096 (str_bytes ''PROXY TCP4'') ''203.0.113.9:5000'' [] = Inl Untrusted"
proof -
  have peer: "remoteIP ''203.0.113.9:5000'' = Some (IP4 0xcb007109)"
    by (simp add: remoteIP_def split_host_def ip_eval)
  have run: "readProxySource 4096 [0x16, 0x03] ''203.0.113.9:5000'' [] = Inr (IP4 0xcb007109, [0x16, 0x03])"
    by (simp add: readProxySource_def peer detect_def str_bytes_def proxyV1Prefix_def proxyV2Signature_def unmap_def)
  have "IP4 0xcb007109 = unmap (IP4 0xcb007109) \<and> [0x16, 0x03] = [0x16, 0x03::byte]"
    using proxy_untrusted_cannot_spoof [OF run peer] by simp
  moreover have "readProxySource 4096 (str_bytes ''PROXY TCP4'') ''203.0.113.9:5000'' [] = Inl Untrusted"
    by (simp add: readProxySource_def peer detect_def str_bytes_def proxyV1Prefix_def)
  ultimately show ?thesis using run by blast
qed

text \<open>Reading a header takes only the header. What the caller reads next is a suffix of the
  stream, and at most 232 bytes were consumed, whatever the peer sent.\<close>

theorem proxy_header_bounded:
  assumes "readProxySource bufsz stream remote trusted = Inr (a, rest)"
  shows "\<exists>header. stream = header @ rest \<and> length header \<le> 232"
proof -
  from assms obtain immediate where "rest = stream \<or> readProxyV1 bufsz stream immediate = Inr (a, rest)
      \<or> readProxyV2 stream immediate = Inr (a, rest)"
    by (auto simp: readProxySource_def split: if_splits proxy_header.splits option.splits)
  then show ?thesis
    using readProxyV1_suffix [of bufsz stream immediate a rest] readProxyV2_suffix [of stream immediate a rest]
    by (fastforce simp: maxProxyV1Header_def maxProxyV2Body_def)
qed

theorem proxy_header_bounded_witness:
  "\<exists>header. [0x16, 0x03::byte] = header @ [0x16, 0x03] \<and> length header \<le> 232"
proof -
  have "readProxySource 4096 [0x16, 0x03] ''203.0.113.9:5000'' [] = Inr (IP4 0xcb007109, [0x16, 0x03])"
    by (simp add: readProxySource_def detect_def str_bytes_def proxyV1Prefix_def proxyV2Signature_def
        remoteIP_def split_host_def ip_eval)
  from proxy_header_bounded [OF this] show ?thesis .
qed

section \<open>Round trip of version 2\<close>

text \<open>The header a load balancer writes for an IPv4 and for an IPv6 client.\<close>

definition be_bytes :: "nat \<Rightarrow> nat \<Rightarrow> bytes" where
  "be_bytes n v = map (\<lambda>i. word_of_nat (v div 256 ^ (n - 1 - i) mod 256)) [0..<n]"

definition encode_v2_4 :: "32 word \<Rightarrow> 32 word \<Rightarrow> nat \<Rightarrow> nat \<Rightarrow> bytes" where
  "encode_v2_4 src dst sport dport =
     proxyV2Signature @ [0x21, 0x11] @ be16_bytes 12
     @ be_bytes 4 (unat src) @ be_bytes 4 (unat dst) @ be16_bytes sport @ be16_bytes dport"

lemma length_be_bytes [simp]: "length (be_bytes n v) = n"
  by (simp add: be_bytes_def)

lemma be_addr_append: "be_addr (xs @ [b]) = be_addr xs * 256 + unat b"
  by (simp add: be_addr_def)

lemma be_bytes_Suc: "be_bytes (Suc n) v = be_bytes n (v div 256) @ [word_of_nat (v mod 256)]"
proof -
  have "v div 256 ^ (n - i) mod 256 = v div 256 div 256 ^ (n - 1 - i) mod 256" if "i < n" for i
  proof -
    from that obtain k where k: "n - i = Suc k" by (metis Suc_diff_Suc)
    then have "n - 1 - i = k" by simp
    then show ?thesis using k by (simp add: div_mult2_eq)
  qed
  then show ?thesis by (simp add: be_bytes_def)
qed

lemma be_addr_be_bytes: "v < 256 ^ n \<Longrightarrow> be_addr (be_bytes n v) = v"
proof (induction n arbitrary: v)
  case 0
  then show ?case by (simp add: be_bytes_def be_addr_def)
next
  case (Suc n)
  then have "v div 256 < 256 ^ n" by (simp add: less_mult_imp_div_less mult.commute)
  with Suc.IH show ?case by (simp add: be_bytes_Suc be_addr_append unat_byte_of_nat)
qed

lemma unat_lt_32: "unat (w :: 32 word) < 256 ^ 4"
  using unsigned_less [of w] by simp

text \<open>Round trip. From a trusted peer, the version 2 header of an IPv4 client with non-zero ports
  is read back as exactly that client's address, and the reader is left at the payload.\<close>

theorem proxy_v2_roundtrip:
  assumes "remoteIP remote = Some immediate" and "trustedProxyPeer immediate trusted"
    and "0 < sport" "sport < 65536" "0 < dport" "dport < 65536"
  shows "readProxySource bufsz (encode_v2_4 src dst sport dport @ payload) remote trusted
    = Inr (IP4 src, payload)"
proof -
  let ?body = "be_bytes 4 (unat src) @ be_bytes 4 (unat dst) @ be16_bytes sport @ be16_bytes dport"
  let ?stream = "encode_v2_4 src dst sport dport @ payload"
  have sig: "length proxyV2Signature = 12" by (simp add: proxyV2Signature_def)
  have head: "?stream = (proxyV2Signature @ [0x21, 0x11, 0, 12]) @ ?body @ payload"
    by (simp add: encode_v2_4_def be16_bytes_def)
  have len: "length ?stream = 28 + length payload" by (simp add: encode_v2_4_def sig)
  have take16: "take 16 ?stream = proxyV2Signature @ [0x21, 0x11, 0, 12]"
    and drop16: "drop 16 ?stream = ?body @ payload"
    unfolding head by (simp_all add: sig)
  have hdr: "(proxyV2Signature @ [0x21, 0x11, 0, 12]) ! 12 = 0x21"
    "(proxyV2Signature @ [0x21, 0x11, 0, 12]) ! 13 = 0x11"
    "(proxyV2Signature @ [0x21, 0x11, 0, 12]) ! 14 = 0"
    "(proxyV2Signature @ [0x21, 0x11, 0, 12]) ! 15 = 12"
    by (simp_all add: proxyV2Signature_def)
  have sport: "\<not> port_zero ?body 8"
    using assms(3,4) by (simp add: port_zero_def nth_append be16_bytes_def be16_be16_bytes)
  have dport: "\<not> port_zero ?body 10"
    using assms(5,6) by (simp add: port_zero_def nth_append be16_bytes_def be16_be16_bytes)
  have det: "detect ?stream = HeaderV2"
    by (simp add: detect_def encode_v2_4_def proxyV2Signature_def str_bytes_def proxyV1Prefix_def)
  have ne: "?stream \<noteq> []" by (simp add: encode_v2_4_def proxyV2Signature_def)
  have "readProxyV2 ?stream immediate = Inr (IP4 src, payload)"
    unfolding readProxyV2_def Let_def take16 drop16 hdr
    using sport dport
    using len
    by (simp del: length_append) (simp add: sig be16_def maxProxyV2Body_def be_addr_be_bytes [OF unat_lt_32] unmap_def)
  then show ?thesis using assms(1,2) det ne by (simp add: readProxySource_def)
qed

theorem proxy_v2_roundtrip_witness:
  "readProxySource 4096 (encode_v2_4 0xC6336401 0x0A000001 40000 5432 @ [0x16]) ''10.0.0.2:70''
      [(IP4 0x0A000000, 8)] = Inr (IP4 0xC6336401, [0x16])"
proof -
  have peer: "remoteIP ''10.0.0.2:70'' = Some (IP4 0x0A000002)"
    by (simp add: remoteIP_def split_host_def ip_eval)
  have "trustedProxyPeer (IP4 0x0A000002) [(IP4 0x0A000000, 8)]" by (simp add: unmap_def)
  from proxy_v2_roundtrip [OF peer this, where sport = 40000 and dport = 5432 and bufsz = 4096
      and src = "0xC6336401" and dst = "0x0A000001" and payload = "[0x16]"]
  show ?thesis by simp
qed

end
