(* ===== verification/TlsHello.thy ===== *)
theory TlsHello
  imports Bex_Prelude
begin

text \<open>
  Reading the first TLS record of a connection and the host name of its ClientHello
  (\<open>operator/internal/sniproxy/tls.go\<close>). The bytes come from an unauthenticated client. Every index
  and slice expression is an \<open>idx\<close> or a \<open>slice\<close>, so \<open>None\<close> is a Go panic.
\<close>

unbundle bit_operations_syntax

definition TLSHandshakeType :: byte where "TLSHandshakeType = 0x16"
definition MaxClientHello :: nat where "MaxClientHello = 16 * 1024"

section \<open>Reading one record\<close>

datatype record_error = HeaderRead | NotHandshake byte | RecordTooLarge nat | BodyRead

text \<open>\<open>io.ReadFull\<close> of \<open>n\<close> bytes: the bytes and what is left, or an error.\<close>

definition readFull :: "bytes \<Rightarrow> nat \<Rightarrow> (bytes \<times> bytes) option" where
  "readFull s n = (if n \<le> length s then Some (take n s, drop n s) else None)"

definition readTLSRecord :: "bytes \<Rightarrow> bytes \<Rightarrow> record_error + bytes \<times> bytes" where
  "readTLSRecord r initial =
     (case (if length (take 5 initial) < 5
            then map_option (\<lambda>(got, rest). (take 5 initial @ got, rest)) (readFull r (5 - length (take 5 initial)))
            else Some (take 5 initial, r)) of
        None \<Rightarrow> Inl HeaderRead
      | Some (header, r1) \<Rightarrow>
          if header ! 0 \<noteq> TLSHandshakeType then Inl (NotHandshake (header ! 0))
          else
            let recordLen = be16 (header ! 3) (header ! 4)
            in if MaxClientHello < recordLen then Inl (RecordTooLarge recordLen)
               else
                 let fromInitial = take recordLen (drop (min (length header) (length initial)) initial);
                     alreadyHave = length header + length fromInitial
                 in if alreadyHave < length header + recordLen then
                      (case readFull r1 (length header + recordLen - alreadyHave) of
                         None \<Rightarrow> Inl BodyRead
                       | Some (got, r2) \<Rightarrow> Inr (header @ fromInitial @ got, r2))
                    else Inr (header @ fromInitial, r1))"

section \<open>The server name\<close>

datatype sni_error = NotRecord | Truncated | NotClientHello | HelloTruncated | HelloTooShort | ExtTruncated

function sniNames :: "bytes \<Rightarrow> nat \<Rightarrow> nat \<Rightarrow> bytes option option" where
  "sniNames extension position e =
     (if position + 3 \<le> e then do {
        nameType \<leftarrow> idx extension position;
        l0 \<leftarrow> idx extension (position + 1);
        l1 \<leftarrow> idx extension (position + 2);
        (if e < position + 3 + be16 l0 l1 then Some None
         else if nameType = 0 then
           Option.bind (slice extension (position + 3) (position + 3 + be16 l0 l1)) (\<lambda>nm. Some (Some nm))
         else sniNames extension (position + 3 + be16 l0 l1) e)
      } else Some None)"
  by pat_completeness auto
termination
  by (relation "measure (\<lambda>(x, p, e). e - p)") auto

definition parseSNIExtension :: "bytes \<Rightarrow> bytes option option" where
  "parseSNIExtension extension =
     (if length extension < 2 then Some None
      else do {
        l0 \<leftarrow> idx extension 0;
        l1 \<leftarrow> idx extension 1;
        sniNames extension 2 (min (2 + be16 l0 l1) (length extension))
      })"

text \<open>The extension loop: the position after the bytes read so far, and where the list ends.\<close>

function sniExtensions :: "bytes \<Rightarrow> nat \<Rightarrow> nat \<Rightarrow> (sni_error + bytes) option" where
  "sniExtensions ch position e =
     (if position + 4 \<le> e then do {
        t0 \<leftarrow> idx ch position;
        t1 \<leftarrow> idx ch (position + 1);
        l0 \<leftarrow> idx ch (position + 2);
        l1 \<leftarrow> idx ch (position + 3);
        (if e < position + 4 + be16 l0 l1 then Some (Inl ExtTruncated)
         else if be16 t0 t1 = 0 then do {
           ext \<leftarrow> slice ch (position + 4) (position + 4 + be16 l0 l1);
           found \<leftarrow> parseSNIExtension ext;
           (case found of
              Some nm \<Rightarrow> Some (Inr nm)
            | None \<Rightarrow> sniExtensions ch (position + 4 + be16 l0 l1) e)
         } else sniExtensions ch (position + 4 + be16 l0 l1) e)
      } else Some (Inr []))"
  by pat_completeness auto
termination
  by (relation "measure (\<lambda>(c, p, e). e - p)") auto

declare sniNames.simps [simp del] sniExtensions.simps [simp del]

text \<open>After the 34 fixed bytes: session id, cipher suites, compression methods, extensions.\<close>

definition sniOfClientHello :: "bytes \<Rightarrow> (sni_error + bytes) option" where
  "sniOfClientHello ch =
     (if length ch < 34 then Some (Inl HelloTooShort)
      else if length ch \<le> 34 then Some (Inr [])
      else do {
        sid \<leftarrow> idx ch 34;
        let p1 = 34 + (1 + unat sid);
        (if length ch < p1 + 2 then Some (Inr [])
         else do {
           c0 \<leftarrow> idx ch p1;
           c1 \<leftarrow> idx ch (p1 + 1);
           let p2 = p1 + (2 + be16 c0 c1);
           (if length ch \<le> p2 then Some (Inr [])
            else do {
              comp \<leftarrow> idx ch p2;
              let p3 = p2 + (1 + unat comp);
              (if length ch < p3 + 2 then Some (Inr [])
               else do {
                 e0 \<leftarrow> idx ch p3;
                 e1 \<leftarrow> idx ch (p3 + 1);
                 sniExtensions ch (p3 + 2) (min (p3 + 2 + be16 e0 e1) (length ch))
               })
            })
         })
      })"

definition extractSNI :: "bytes \<Rightarrow> (sni_error + bytes) option" where
  "extractSNI rcd =
     (if length rcd < 5 then Some (Inl NotRecord)
      else do {
        b0 \<leftarrow> idx rcd 0;
        (if b0 \<noteq> TLSHandshakeType then Some (Inl NotRecord)
         else do {
           r3 \<leftarrow> idx rcd 3;
           r4 \<leftarrow> idx rcd 4;
           (if length rcd < 5 + be16 r3 r4 then Some (Inl Truncated)
            else do {
              data \<leftarrow> slice rcd 5 (5 + be16 r3 r4);
              (if length data < 4 then Some (Inl NotClientHello)
               else do {
                 d0 \<leftarrow> idx data 0;
                 (if d0 \<noteq> 0x01 then Some (Inl NotClientHello)
                  else do {
                    h1 \<leftarrow> idx data 1;
                    h2 \<leftarrow> idx data 2;
                    h3 \<leftarrow> idx data 3;
                    let handshakeLen = unat h1 * 65536 + be16 h2 h3;
                    (if length data < 4 + handshakeLen then Some (Inl HelloTruncated)
                     else do {
                       ch \<leftarrow> slice data 4 (4 + handshakeLen);
                       sniOfClientHello ch
                     })
                  })
               })
            })
         })
      })"

section \<open>No input makes the parser panic\<close>

lemma sniNames_safe: "e \<le> length x \<Longrightarrow> sniNames x p e \<noteq> None"
proof (induction x p e rule: sniNames.induct)
  case (1 x p e)
  show ?case
  proof (cases "p + 3 \<le> e")
    case False
    then show ?thesis by (simp add: sniNames.simps [of x p e])
  next
    case True
    let ?q = "p + 3 + be16 (x ! (p + 1)) (x ! (p + 2))"
    have step: "sniNames x p e =
      (if e < ?q then Some None
       else if x ! p = 0 then Option.bind (slice x (p + 3) ?q) (\<lambda>nm. Some (Some nm))
       else sniNames x ?q e)"
      using True "1.prems" by (simp add: sniNames.simps [of x p e] panic_free)
    have "sniNames x ?q e \<noteq> None" if "\<not> e < ?q" "x ! p \<noteq> 0"
      using "1.IH" [OF True _ _ _ that] that True "1.prems" by (simp add: panic_free)
    then show ?thesis using "1.prems" by (simp add: step panic_free)
  qed
qed

lemma parseSNIExtension_safe: "parseSNIExtension x \<noteq> None"
proof (cases "length x < 2")
  case False
  then have "idx x 0 = Some (x ! 0)" "idx x 1 = Some (x ! 1)"
    by (auto simp: idx_def)
  then show ?thesis
    using False sniNames_safe by (simp add: parseSNIExtension_def)
qed (simp add: parseSNIExtension_def)

lemma sniExtensions_step:
  assumes "p + 4 \<le> e" "e \<le> length ch"
  defines "q \<equiv> p + 4 + be16 (ch ! (p + 2)) (ch ! (p + 3))"
  shows "sniExtensions ch p e =
      (if e < q then Some (Inl ExtTruncated)
       else if be16 (ch ! p) (ch ! (p + 1)) = 0 then
         Option.bind (parseSNIExtension (take (q - (p + 4)) (drop (p + 4) ch)))
           (\<lambda>found. case found of Some nm \<Rightarrow> Some (Inr nm) | None \<Rightarrow> sniExtensions ch q e)
       else sniExtensions ch q e)"
  using assms by (simp add: sniExtensions.simps [of ch p e] panic_free del: add_2_eq_Suc')

lemma sniExtensions_safe: "e \<le> length ch \<Longrightarrow> sniExtensions ch p e \<noteq> None"
proof (induction "e - p" arbitrary: p rule: less_induct)
  case less
  show ?case
  proof (cases "p + 4 \<le> e")
    case False
    then show ?thesis by (simp add: sniExtensions.simps [of ch p e])
  next
    case True
    let ?q = "p + 4 + be16 (ch ! (p + 2)) (ch ! (p + 3))"
    obtain found where found: "parseSNIExtension (take (?q - (p + 4)) (drop (p + 4) ch)) = Some found"
      using parseSNIExtension_safe by blast
    have "sniExtensions ch ?q e \<noteq> None"
      using True less.prems by (intro less.hyps) auto
    then show ?thesis
      unfolding sniExtensions_step [OF True less.prems] found by (auto split: option.splits)
  qed
qed

lemma sniOfClientHello_safe: "sniOfClientHello ch \<noteq> None"
  by (auto simp: sniOfClientHello_def Let_def panic_free sniExtensions_safe [simplified]
           simp del: not_None_eq add_2_eq_Suc')

text \<open>C23: whatever bytes an unauthenticated client sends, looking for the server name in them
  never panics: the result is a name, no name, or an error.\<close>

theorem sni_never_panics: "extractSNI rcd \<noteq> None"
proof -
  have "idx rcd 0 = Some (rcd ! 0)" "idx rcd 3 = Some (rcd ! 3)" "idx rcd 4 = Some (rcd ! 4)"
    if "\<not> length rcd < 5"
    using that by (auto simp: idx_def)
  moreover have "idx d 0 = Some (d ! 0)" "idx d 1 = Some (d ! 1)" "idx d 2 = Some (d ! 2)" "idx d 3 = Some (d ! 3)"
    if "\<not> length d < 4" for d :: bytes
    using that by (auto simp: idx_def)
  ultimately show ?thesis
    using sniOfClientHello_safe
    by (auto simp: extractSNI_def Let_def slice_in_range simp del: not_None_eq)
qed

section \<open>One record and no more is read\<close>

lemma readFull_Some: "readFull s n = Some (got, rest) \<longleftrightarrow> n \<le> length s \<and> got = take n s \<and> rest = drop n s"
  by (auto simp: readFull_def)

lemma take_drop_join: "i \<le> n \<Longrightarrow> take i xs @ take (n - i) (drop i xs) = take n xs"
  by (metis le_add_diff_inverse take_add)

lemma readTLSRecord_prefix:
  assumes "readTLSRecord r initial = Inr (rcd, rest)" and "length initial \<le> length rcd"
  shows "initial @ r = rcd @ rest" and "length rcd = 5 + be16 (rcd ! 3) (rcd ! 4)"
    and "length rcd \<le> 5 + MaxClientHello" and "rcd ! 0 = TLSHandshakeType"
proof -
  define header where "header = take 5 (initial @ r)"
  define r1 where "r1 = drop (5 - length initial) r"
  define n where "n = be16 (header ! 3) (header ! 4)"
  have len: "length header = 5"
    using assms(1) by (cases "length initial < 5")
      (auto simp: readTLSRecord_def header_def readFull_def split: if_split_asm)
  have hd: "(if length (take 5 initial) < 5
          then map_option (\<lambda>(got, rest). (take 5 initial @ got, rest)) (readFull r (5 - length (take 5 initial)))
          else Some (take 5 initial, r)) = Some (header, r1)"
    using len by (auto simp: header_def r1_def readFull_def min_def split: if_split_asm)
  let ?fi = "take n (drop (min (length header) (length initial)) initial)"
  have "header ! 0 = TLSHandshakeType \<and> n \<le> MaxClientHello
    \<and> (if 5 + length ?fi < 5 + n then n - length ?fi \<le> length r1
         \<and> rcd = header @ ?fi @ take (n - length ?fi) r1 \<and> rest = drop (n - length ?fi) r1
       else rcd = header @ ?fi \<and> rest = r1)"
    using assms(1) len unfolding readTLSRecord_def hd option.case prod.case Let_def n_def [symmetric]
    by (auto simp: readFull_def split: if_split_asm)
  then have h0: "header ! 0 = TLSHandshakeType" and small: "n \<le> MaxClientHello"
    and body: "n - length ?fi \<le> length r1" "rcd = header @ ?fi @ take (n - length ?fi) r1"
      "rest = drop (n - length ?fi) r1"
    by (auto split: if_split_asm)
  have fi: "length ?fi \<le> n" by simp
  have total: "length rcd = 5 + n" using body(1,2) len fi by simp
  have "drop (min (length header) (length initial)) initial = drop 5 initial"
    using len by (cases "length initial < 5") auto
  then have fi5: "?fi = drop 5 initial" using assms(2) total by simp
  have hr: "initial @ r = header @ drop 5 initial @ r1"
    by (cases "length initial < 5") (simp_all add: header_def r1_def)
  show "initial @ r = rcd @ rest" unfolding hr body(2,3) fi5 by simp
  from len have same: "rcd ! i = header ! i" if "i < 5" for i
    using that by (simp add: body(2) nth_append)
  show "length rcd = 5 + be16 (rcd ! 3) (rcd ! 4)"
    using total by (simp add: same n_def)
  show "length rcd \<le> 5 + MaxClientHello" using small total by simp
  show "rcd ! 0 = TLSHandshakeType" using h0 by (simp add: same)
qed

lemma readTLSRecord_length:
  assumes "readTLSRecord r initial = Inr (rcd, rest)"
  shows "5 \<le> length rcd"
  using assms by (auto simp: readTLSRecord_def readFull_def Let_def split: if_split_asm) arith+

text \<open>The record is exactly the next bytes of the connection, the ones a preamble reader had
  already taken first, and never more than the 5 byte header and 16384 bytes of body are read.\<close>

theorem tls_record_is_prefix:
  assumes "readTLSRecord r initial = Inr (rcd, rest)" and "length initial \<le> 5"
  shows "initial @ r = rcd @ rest \<and> length rcd = 5 + be16 (rcd ! 3) (rcd ! 4)
    \<and> length rcd \<le> 5 + MaxClientHello \<and> rcd ! 0 = TLSHandshakeType"
  using readTLSRecord_prefix [OF assms(1)] readTLSRecord_length [OF assms(1)] assms(2) by simp

theorem tls_record_is_prefix_witness:
  "readTLSRecord [1, 0, 1, 7, 9] [0x16, 3] = Inr ([0x16, 3, 1, 0, 1, 7], [9])
    \<and> [0x16, 3] @ [1, 0, 1, 7, 9 :: byte] = [0x16, 3, 1, 0, 1, 7] @ [9]"
proof -
  have "readTLSRecord [1, 0, 1, 7, 9] [0x16, 3] = Inr ([0x16, 3, 1, 0, 1, 7], [9])"
    by (simp add: readTLSRecord_def readFull_def TLSHandshakeType_def be16_def MaxClientHello_def)
  with tls_record_is_prefix [OF this] show ?thesis by simp
qed

section \<open>Round trip: the name a client wrote is the name that is read\<close>

definition encode_ext :: "nat \<times> bytes \<Rightarrow> bytes" where
  "encode_ext x = be16_bytes (fst x) @ be16_bytes (length (snd x)) @ snd x"

definition encode_sni :: "bytes \<Rightarrow> bytes" where
  "encode_sni name = be16_bytes (3 + length name) @ [0] @ be16_bytes (length name) @ name"

definition encode_hello :: "bytes \<Rightarrow> bytes \<Rightarrow> bytes \<Rightarrow> bytes \<Rightarrow> bytes \<Rightarrow> bytes" where
  "encode_hello fixed sid ciphers comps exts =
     fixed @ word_of_nat (length sid) # sid @ be16_bytes (length ciphers) @ ciphers
     @ word_of_nat (length comps) # comps @ be16_bytes (length exts) @ exts"

definition encode_record :: "bytes \<Rightarrow> bytes" where
  "encode_record hello =
     [0x16, 3, 1] @ be16_bytes (4 + length hello) @ [1, 0] @ be16_bytes (length hello) @ hello"

lemma idx_append_shift: "idx (pre @ xs) (length pre + i) = idx xs i"
  by (simp add: idx_def)

lemma idx_at: "p = length pre + i \<Longrightarrow> idx (pre @ xs) p = idx xs i"
  by (simp add: idx_append_shift)

lemma slice_at: "lo = length pre \<Longrightarrow> hi = length pre + length ys \<Longrightarrow> slice (pre @ ys @ zs) lo hi = Some ys"
  by (simp add: slice_def)

lemma idx_be16 [simp]:
  "idx (be16_bytes n @ xs) 0 = Some (word_of_nat (n div 256))"
  "idx (be16_bytes n @ xs) (Suc 0) = Some (word_of_nat (n mod 256))"
  by (simp_all add: idx_def be16_bytes_def)

lemma idx_Cons_0 [simp]: "idx (x # xs) 0 = Some x"
  by (simp add: idx_def)

lemma parseSNIExtension_encode:
  assumes "length name + 3 < 65536"
  shows "parseSNIExtension (encode_sni name) = Some (Some name)"
proof -
  have len: "length (encode_sni name) = 5 + length name" by (simp add: encode_sni_def)
  have "idx (encode_sni name) 2 = Some 0"
    "idx (encode_sni name) 3 = Some (word_of_nat (length name div 256))"
    "idx (encode_sni name) 4 = Some (word_of_nat (length name mod 256))"
    "slice (encode_sni name) 5 (5 + length name) = Some name"
    by (simp_all add: encode_sni_def be16_bytes_def idx_def slice_def)
  moreover have "be16 (word_of_nat (length name div 256)) (word_of_nat (length name mod 256)) = length name"
    using assms by (simp add: be16_be16_bytes)
  ultimately have "sniNames (encode_sni name) 2 (5 + length name) = Some (Some name)"
    by (subst sniNames.simps) simp
  moreover have "idx (encode_sni name) 0 = Some (word_of_nat ((3 + length name) div 256))"
    "idx (encode_sni name) 1 = Some (word_of_nat ((3 + length name) mod 256))"
    by (simp_all add: encode_sni_def)
  ultimately show ?thesis
    using assms by (simp add: parseSNIExtension_def len be16_be16_bytes min_def add.commute)
qed

lemma length_encode_ext [simp]: "length (encode_ext x) = 4 + length (snd x)"
  by (simp add: encode_ext_def)

lemma encode_ext_reads:
  assumes "ch = pre @ encode_ext (t, body) @ post" "t < 65536" "length body < 65536" "p = length pre"
  shows "be16 (ch ! p) (ch ! (p + 1)) = t"
    and "be16 (ch ! (p + 2)) (ch ! (p + 3)) = length body"
    and "take (length body) (drop (p + 4) ch) = body"
proof -
  have nth: "ch ! (length pre + i) = (encode_ext (t, body) @ post) ! i" for i
    by (simp add: assms(1) nth_append)
  have "ch ! p = word_of_nat (t div 256)"
    using nth [of 0] by (simp add: encode_ext_def be16_bytes_def assms(4))
  moreover have "ch ! (p + 1) = word_of_nat (t mod 256)"
    using nth [of 1] by (simp add: encode_ext_def be16_bytes_def assms(4))
  ultimately show "be16 (ch ! p) (ch ! (p + 1)) = t" using assms(2) by (simp add: be16_be16_bytes)
  have "ch ! (p + 2) = word_of_nat (length body div 256)"
    using nth [of 2] by (simp add: encode_ext_def be16_bytes_def assms(4))
  moreover have "ch ! (p + 3) = word_of_nat (length body mod 256)"
    using nth [of 3] by (simp add: encode_ext_def be16_bytes_def assms(4))
  ultimately show "be16 (ch ! (p + 2)) (ch ! (p + 3)) = length body"
    using assms(3) by (simp add: be16_be16_bytes)
  show "take (length body) (drop (p + 4) ch) = body"
    by (simp add: assms(1,4) encode_ext_def be16_bytes_def)
qed

lemma sniExtensions_skip:
  assumes "ch = pre @ encode_ext (t, body) @ post" "t \<noteq> 0" "t < 65536" "length body < 65536"
    and "length (pre @ encode_ext (t, body)) \<le> e" "e \<le> length ch"
  shows "sniExtensions ch (length pre) e = sniExtensions ch (length (pre @ encode_ext (t, body))) e"
proof -
  have bounds: "length pre + 4 \<le> e" using assms(5) by simp
  show ?thesis
    unfolding sniExtensions_step [OF bounds assms(6)] encode_ext_reads [OF assms(1,3,4) refl]
    using assms(2,5) by (simp add: add.assoc)
qed

lemma sniExtensions_hit:
  assumes "ch = pre @ encode_ext (0, encode_sni name) @ post" "length name + 9 < 65536"
    and "length (pre @ encode_ext (0, encode_sni name)) \<le> e" "e \<le> length ch"
  shows "sniExtensions ch (length pre) e = Some (Inr name)"
proof -
  have bounds: "length pre + 4 \<le> e" using assms(3) by simp
  have small: "length (encode_sni name) < 65536" using assms(2) by (simp add: encode_sni_def)
  have reads: "be16 (ch ! length pre) (ch ! (length pre + 1)) = 0"
    "be16 (ch ! (length pre + 2)) (ch ! (length pre + 3)) = length (encode_sni name)"
    "take (length (encode_sni name)) (drop (length pre + 4) ch) = encode_sni name"
    using encode_ext_reads [OF assms(1) _ small refl] by simp_all
  show ?thesis
    unfolding sniExtensions_step [OF bounds assms(4)] reads
    using assms(2,3) by (simp add: reads(3) parseSNIExtension_encode)
qed

lemma sniExtensions_encode:
  assumes "\<forall>x \<in> set exts. fst x \<noteq> 0 \<and> fst x < 65536 \<and> length (snd x) < 65536"
    and "length name + 9 < 65536"
    and "ch = pre @ concat (map encode_ext exts) @ encode_ext (0, encode_sni name) @ post"
    and "length (pre @ concat (map encode_ext exts) @ encode_ext (0, encode_sni name)) \<le> e" "e \<le> length ch"
  shows "sniExtensions ch (length pre) e = Some (Inr name)"
  using assms
proof (induction exts arbitrary: pre)
  case Nil
  then show ?case by (intro sniExtensions_hit) simp_all
next
  case (Cons x exts)
  obtain t body where x: "x = (t, body)" by (cases x)
  have "sniExtensions ch (length pre) e = sniExtensions ch (length (pre @ encode_ext (t, body))) e"
    using Cons.prems by (intro sniExtensions_skip) (simp_all add: x)
  also have "\<dots> = Some (Inr name)"
    using Cons.prems by (intro Cons.IH) (simp_all add: x)
  finally show ?case .
qed

lemma sniOfClientHello_encode:
  assumes "length fixed = 34" "length sid < 256" "length ciphers < 65536" "length comps < 256"
    and exts: "extbytes = concat (map encode_ext exts) @ encode_ext (0, encode_sni name) @ post"
    and "\<forall>x \<in> set exts. fst x \<noteq> 0 \<and> fst x < 65536 \<and> length (snd x) < 65536"
    and "length extbytes < 65536"
  shows "sniOfClientHello (encode_hello fixed sid ciphers comps extbytes) = Some (Inr name)"
proof -
  let ?ch = "encode_hello fixed sid ciphers comps extbytes"
  define pre1 where "pre1 = fixed @ word_of_nat (length sid) # sid"
  define pre2 where "pre2 = pre1 @ be16_bytes (length ciphers) @ ciphers"
  define pre3 where "pre3 = pre2 @ word_of_nat (length comps) # comps"
  define pre4 where "pre4 = pre3 @ be16_bytes (length extbytes)"
  have lens: "length pre1 = 35 + length sid" "length pre2 = length pre1 + 2 + length ciphers"
    "length pre3 = length pre2 + 1 + length comps" "length pre4 = length pre3 + 2"
    using assms(1) by (simp_all add: pre1_def pre2_def pre3_def pre4_def)
  have ch0: "?ch = fixed @ word_of_nat (length sid) # sid @ be16_bytes (length ciphers) @ ciphers
     @ word_of_nat (length comps) # comps @ be16_bytes (length extbytes) @ extbytes"
    and ch1: "?ch = pre1 @ be16_bytes (length ciphers) @ ciphers @ word_of_nat (length comps) # comps
      @ be16_bytes (length extbytes) @ extbytes"
    and ch2: "?ch = pre2 @ word_of_nat (length comps) # comps @ be16_bytes (length extbytes) @ extbytes"
    and ch3: "?ch = pre3 @ be16_bytes (length extbytes) @ extbytes"
    and ch4: "?ch = pre4 @ extbytes"
    by (simp_all add: encode_hello_def pre1_def pre2_def pre3_def pre4_def)
  have len: "length ?ch = length pre4 + length extbytes" by (simp add: ch4)
  have r0: "idx ?ch 34 = Some (word_of_nat (length sid))"
    unfolding ch0 using idx_append_shift [of fixed _ 0] assms(1) by simp
  have r1: "idx ?ch (length pre1) = Some (word_of_nat (length ciphers div 256))"
    "idx ?ch (length pre1 + 1) = Some (word_of_nat (length ciphers mod 256))"
    unfolding ch1 using idx_append_shift [of pre1 _ 0] idx_append_shift [of pre1 _ 1] by simp_all
  have r2: "idx ?ch (length pre2) = Some (word_of_nat (length comps))"
    unfolding ch2 using idx_append_shift [of pre2 _ 0] by simp
  have r3: "idx ?ch (length pre3) = Some (word_of_nat (length extbytes div 256))"
    "idx ?ch (length pre3 + 1) = Some (word_of_nat (length extbytes mod 256))"
    unfolding ch3 using idx_append_shift [of pre3 _ 0] idx_append_shift [of pre3 _ 1] by simp_all
  have small: "length name + 9 < 65536" using assms(7) by (simp add: exts encode_sni_def)
  have found: "sniExtensions ?ch (length pre4) (length ?ch) = Some (Inr name)"
    using ch4 len by (intro sniExtensions_encode [where exts = exts and post = post, OF assms(6) small])
      (simp_all add: exts)
  have p: "34 + (1 + unat (word_of_nat (length sid) :: byte)) = length pre1"
    "length pre1 + (2 + length ciphers) = length pre2"
    "length pre2 + (1 + unat (word_of_nat (length comps) :: byte)) = length pre3"
    "length pre3 + 2 = length pre4"
    "min (length pre4 + length extbytes) (length ?ch) = length ?ch"
    "\<not> length ?ch < 34" "\<not> length ?ch \<le> 34" "\<not> length ?ch < length pre1 + 2"
    "\<not> length ?ch \<le> length pre2" "\<not> length ?ch < length pre4"
    using assms(2,4) by (simp_all only: unat_byte_of_nat len lens)
  show ?thesis
    unfolding sniOfClientHello_def
    using assms(3,7) by (simp only: p r0 r1 r2 r3 found if_False bind.bind_lunit Let_def be16_be16_bytes)
qed

lemma extractSNI_encode:
  assumes "length fixed = 34" "length sid < 256" "length ciphers < 65536" "length comps < 256"
    and "extbytes = concat (map encode_ext exts) @ encode_ext (0, encode_sni name) @ post"
    and "\<forall>x \<in> set exts. fst x \<noteq> 0 \<and> fst x < 65536 \<and> length (snd x) < 65536"
    and "hello = encode_hello fixed sid ciphers comps extbytes" and "length hello + 4 < 65536"
  shows "extractSNI (encode_record hello) = Some (Inr name)"
proof -
  let ?rcd = "encode_record hello"
  let ?data = "[1, 0] @ be16_bytes (length hello) @ hello"
  have "length extbytes < 65536" using assms(8) by (simp add: assms(7) encode_hello_def)
  then have found: "sniOfClientHello hello = Some (Inr name)"
    unfolding assms(7) by (intro sniOfClientHello_encode [OF assms(1-6)])
  have len: "length ?rcd = 9 + length hello" by (simp add: encode_record_def)
  have r: "idx ?rcd 0 = Some TLSHandshakeType"
    "idx ?rcd 3 = Some (word_of_nat ((4 + length hello) div 256))"
    "idx ?rcd 4 = Some (word_of_nat ((4 + length hello) mod 256))"
    "slice ?rcd 5 (5 + (4 + length hello)) = Some ?data"
    by (simp_all add: encode_record_def be16_bytes_def idx_def slice_def TLSHandshakeType_def)
  have d: "idx ?data 0 = Some 1" "idx ?data 1 = Some 0"
    "idx ?data 2 = Some (word_of_nat (length hello div 256))"
    "idx ?data 3 = Some (word_of_nat (length hello mod 256))"
    "slice ?data 4 (4 + length hello) = Some hello"
    by (simp_all add: be16_bytes_def idx_def slice_def)
  have b: "be16 (word_of_nat ((4 + length hello) div 256)) (word_of_nat ((4 + length hello) mod 256))
      = 4 + length hello"
    "be16 (word_of_nat (length hello div 256)) (word_of_nat (length hello mod 256)) = length hello"
    using assms(8) by (simp_all only: be16_be16_bytes add.commute)
  have c: "unat (0 :: byte) * 65536 + length hello = length hello"
    "\<not> 9 + length hello < 5" "\<not> 9 + length hello < 5 + (4 + length hello)"
    "length ?data = 4 + length hello" "\<not> 4 + length hello < 4" "\<not> 4 + length hello < 4 + length hello"
    by simp_all
  show ?thesis
    unfolding extractSNI_def
    by (simp only: len r d b c found if_False bind.bind_lunit Let_def simp_thms not_False_eq_True)
qed

text \<open>C24: round trip. For every ClientHello that carries the server name \<open>name\<close> after any number
  of other extensions, of any kind and length, and fits one record, the name found is \<open>name\<close>.\<close>

theorem sni_roundtrip:
  assumes "length fixed = 34" "length sid < 256" "length ciphers < 65536" "length comps < 256"
    and "extbytes = concat (map encode_ext exts) @ encode_ext (0, encode_sni name) @ post"
    and "\<forall>x \<in> set exts. fst x \<noteq> 0 \<and> fst x < 65536 \<and> length (snd x) < 65536"
    and "hello = encode_hello fixed sid ciphers comps extbytes" and "length hello + 4 < 65536"
  shows "extractSNI (encode_record hello) = Some (Inr name)"
  using assms by (rule extractSNI_encode)

theorem sni_roundtrip_witness:
  "extractSNI (encode_record (encode_hello (replicate 34 7) [1, 2] [0x13, 1] [0]
     (concat (map encode_ext [(43, [2, 3, 4])]) @ encode_ext (0, encode_sni [0x64, 0x62]) @ [])))
   = Some (Inr [0x64, 0x62])"
  by (rule sni_roundtrip [OF _ _ _ _ refl _ refl])
    (simp_all add: encode_hello_def encode_sni_def encode_ext_def)

end
