(* ===== verification/RouteSync.thy ===== *)
theory RouteSync
  imports Allowlist GoText
begin

text \<open>
  The contract both public proxies rely on between the Kubernetes watch and their routing table.
  A watch is a sequence of events on resources known by name. Whatever happened before, the table and
  the set of malformed resources are functions of the newest object seen under each name.
\<close>

text \<open>What one \<open>Reconcile\<close> call finds: the object, that it is gone, or an API error. \<open>Started\<close> is the
  \<open>meter.SetHealthy(true)\<close> of \<open>main\<close> after the cache sync, which runs beside the reconciler.\<close>

datatype 'o watch_event = Fetched 'o | NotFound string | GetFailed string | Started

text \<open>The newest object seen under each name (none after a not-found).\<close>

fun view_step :: "('o \<Rightarrow> string) \<Rightarrow> (string \<Rightarrow> 'o option) \<Rightarrow> 'o watch_event \<Rightarrow> (string \<Rightarrow> 'o option)" where
  "view_step nm v (Fetched x) = v(nm x \<mapsto> x)"
| "view_step nm v (NotFound n) = v(n := None)"
| "view_step nm v (GetFailed n) = v"
| "view_step nm v Started = v"

definition view :: "('o \<Rightarrow> string) \<Rightarrow> 'o watch_event list \<Rightarrow> string \<Rightarrow> 'o option" where
  "view nm evs = foldl (view_step nm) Map.empty evs"

text \<open>What an object asks of the table: a route, nothing, or that it is malformed.\<close>

datatype 'e wanted = Malformed | Unrouted | Routed 'e

fun routed_of :: "'e wanted \<Rightarrow> 'e option" where
  "routed_of (Routed e) = Some e"
| "routed_of Malformed = None"
| "routed_of Unrouted = None"

lemma routed_of_Some [simp]: "routed_of w = Some e \<longleftrightarrow> w = Routed e"
  by (cases w) auto

locale route_sync =
  fixes step :: "'s \<Rightarrow> 'o watch_event \<Rightarrow> 's"
    and table :: "'s \<Rightarrow> string \<Rightarrow> 'e option"
    and invalid :: "'s \<Rightarrow> string set"
    and published :: "'s \<Rightarrow> bool"
    and domain :: "'s \<Rightarrow> string"
    and nm :: "'o \<Rightarrow> string"
    and wants :: "string \<Rightarrow> 'o \<Rightarrow> 'e wanted"
  assumes domain_step: "domain (step s ev) = domain s"
    and table_fetched: "table (step s (Fetched x)) n =
      (if n = nm x then routed_of (wants (domain s) x) else table s n)"
    and table_gone: "table (step s (NotFound m)) n = (if n = m then None else table s n)"
    and table_other: "table (step s (GetFailed m)) n = table s n" "table (step s Started) n = table s n"
    and invalid_fetched: "n \<in> invalid (step s (Fetched x)) \<longleftrightarrow>
      (if n = nm x then wants (domain s) x = Malformed else n \<in> invalid s)"
    and invalid_gone: "n \<in> invalid (step s (NotFound m)) \<longleftrightarrow> n \<noteq> m \<and> n \<in> invalid s"
    and invalid_other: "invalid (step s (GetFailed m)) = invalid s" "invalid (step s Started) = invalid s"
    and published_reconcile: "published (step s (Fetched x)) \<longleftrightarrow> invalid (step s (Fetched x)) = {}"
      "published (step s (NotFound m)) \<longleftrightarrow> invalid (step s (NotFound m)) = {}"
    and published_failed: "published (step s (GetFailed m)) = published s"
begin

lemma view_snoc: "view nm (evs @ [ev]) = view_step nm (view nm evs) ev"
  by (simp add: view_def)

lemma domain_run: "domain (foldl step s evs) = domain s"
  by (induction evs rule: rev_induct) (simp_all add: domain_step)

lemma name_of_view: "view nm evs n = Some x \<Longrightarrow> nm x = n"
proof (induction evs arbitrary: x rule: rev_induct)
  case (snoc ev evs)
  show ?case using snoc.IH [of x] snoc.prems
    by (cases ev) (simp_all add: view_snoc split: if_split_asm)
qed (simp add: view_def)

text \<open>The table is the image of the view.\<close>

lemma table_of_view:
  assumes "\<And>n. table s n = None"
  shows "table (foldl step s evs) n =
    (case view nm evs n of None \<Rightarrow> None | Some x \<Rightarrow> routed_of (wants (domain s) x))"
proof (induction evs rule: rev_induct)
  case Nil
  then show ?case by (simp add: view_def assms)
next
  case (snoc ev evs)
  then show ?case
    by (cases ev) (auto simp: view_snoc table_fetched table_gone table_other domain_run)
qed

lemma invalid_of_view:
  assumes "invalid s = {}"
  shows "n \<in> invalid (foldl step s evs) \<longleftrightarrow> (\<exists>x. view nm evs n = Some x \<and> wants (domain s) x = Malformed)"
proof (induction evs rule: rev_induct)
  case Nil
  then show ?case by (simp add: view_def assms)
next
  case (snoc ev evs)
  then show ?case
    by (cases ev) (auto simp: view_snoc invalid_fetched invalid_gone invalid_other domain_run)
qed

text \<open>Published health is accurate as soon as one reconcile ran after the start of \<open>main\<close>.\<close>

lemma published_after_start:
  assumes "\<forall>ev \<in> set later. ev \<noteq> Started" and "\<exists>ev \<in> set later. \<forall>m. ev \<noteq> GetFailed m"
  shows "published (foldl step s later) \<longleftrightarrow> invalid (foldl step s later) = {}"
  using assms
proof (induction later rule: rev_induct)
  case (snoc ev evs)
  then show ?case
  proof (cases ev)
    case (GetFailed m)
    then show ?thesis using snoc by (auto simp: published_failed invalid_other)
  qed (simp_all add: published_reconcile)
qed simp

end

end
