(* ===== verification/PgRouter.thy ===== *)
theory PgRouter
  imports RouteSync
begin

text \<open>
  The routing table of the PostgreSQL front door (\<open>operator/cmd/pg-sni-proxy/main.go\<close>): \<open>dbRouter\<close>, its
  hostname index, and the reconciler that feeds it. Methods hold the router's lock for their whole
  body. A Go map is a partial function, a Go set of names a set; \<open>dbe_replicas\<close> lists the keys of the
  replica set without duplicates, and as every replica has its own label the order cannot be observed.
\<close>

section \<open>State\<close>

record database =
  d_name :: string
  d_namespace :: string
  d_workspace :: string
  d_public :: bool
  d_pooler :: bool
  d_replicas :: "string list"
  d_allow :: "ip_allow_entry list"
  d_envAllow :: "string list"
  d_deleting :: bool

record db_routing_entry =
  dbe_workspace :: string
  dbe_namespace :: string
  dbe_pooler :: bool
  dbe_replicas :: "string list"
  dbe_allow :: "ip_prefix list"
  dbe_envAllow :: "ip_prefix list"

record host_route =
  hr_db :: string
  hr_backend :: string

record db_route =
  Database :: string
  Workspace :: string
  Backend :: string

record db_router =
  r_domain :: string
  r_table :: "string \<Rightarrow> db_routing_entry option"
  r_hosts :: "string \<Rightarrow> host_route list option"
  r_invalid :: "string set"

section \<open>Operations\<close>

definition newRouter :: "(string \<Rightarrow> string) \<Rightarrow> string \<Rightarrow> db_router" where
  "newRouter uni dm =
     \<lparr>r_domain = to_lower uni (trim_suffix ''.'' dm), r_table = Map.empty, r_hosts = Map.empty, r_invalid = {}\<rparr>"

definition drop_routes :: "string \<Rightarrow> host_route list \<Rightarrow> host_route list option" where
  "drop_routes nm routes =
     (let kept = filter (\<lambda>rt. hr_db rt \<noteq> nm) routes in if length kept = 0 then None else Some kept)"

definition dropIndexLocked :: "db_router \<Rightarrow> string \<Rightarrow> db_router" where
  "dropIndexLocked r nm =
     r\<lparr>r_hosts := \<lambda>label. Option.bind (r_hosts r label) (drop_routes nm)\<rparr>"

definition host_list :: "(string \<Rightarrow> host_route list option) \<Rightarrow> string \<Rightarrow> host_route list" where
  "host_list hosts label = (case hosts label of None \<Rightarrow> [] | Some routes \<Rightarrow> routes)"

definition add_host :: "string \<Rightarrow> string \<times> string \<Rightarrow> db_router \<Rightarrow> db_router" where
  "add_host nm lb r =
     r\<lparr>r_hosts := (r_hosts r)(fst lb \<mapsto> host_list (r_hosts r) (fst lb) @ [\<lparr>hr_db = nm, hr_backend = snd lb\<rparr>])\<rparr>"

text \<open>The public labels of a database, each with its backend, in the order they are added.\<close>

definition service :: "string \<Rightarrow> string \<Rightarrow> string \<Rightarrow> string" where
  "service nm kind ns = nm @ kind @ ''.'' @ ns @ ''.svc.cluster.local:5432''"

definition variants :: "string \<Rightarrow> db_routing_entry \<Rightarrow> (string \<times> string) list" where
  "variants nm entry =
     [(nm, service nm ''-rw'' (dbe_namespace entry))]
     @ (if dbe_pooler entry then [(nm @ ''-pool'', service nm ''-pooler'' (dbe_namespace entry))] else [])
     @ map (\<lambda>replica. (nm @ ''-ro-'' @ replica, service nm ''-ro'' (dbe_namespace entry))) (dbe_replicas entry)"

definition indexLocked :: "db_router \<Rightarrow> string \<Rightarrow> db_routing_entry \<Rightarrow> db_router" where
  "indexLocked r nm entry = fold (add_host nm) (variants nm entry) (dropIndexLocked r nm)"

definition deleteLocked :: "db_router \<Rightarrow> string \<Rightarrow> db_router" where
  "deleteLocked r nm =
     dropIndexLocked (r\<lparr>r_table := (r_table r)(nm := None), r_invalid := r_invalid r - {nm}\<rparr>) nm"

definition set_db :: "db_router \<Rightarrow> database \<Rightarrow> db_router \<times> bool" where
  "set_db r db =
     (if \<not> d_public db \<or> r_domain r = [] then (deleteLocked r (d_name db), True)
      else
        let workspace = (if d_workspace db = [] then d_namespace db else d_workspace db)
        in case parseAllowList (d_allow db) (d_envAllow db) of
             Inl e \<Rightarrow>
               let r1 = deleteLocked r (d_name db)
               in (r1\<lparr>r_invalid := insert (d_name db) (r_invalid r1)\<rparr>, False)
           | Inr (allow, envAllow) \<Rightarrow>
               let entry = \<lparr>dbe_workspace = workspace, dbe_namespace = d_namespace db,
                     dbe_pooler = d_pooler db, dbe_replicas = remdups (d_replicas db),
                     dbe_allow = allow, dbe_envAllow = envAllow\<rparr>;
                   r1 = r\<lparr>r_table := (r_table r)(d_name db \<mapsto> entry), r_invalid := r_invalid r - {d_name db}\<rparr>
               in (indexLocked r1 (d_name db) entry, True))"

definition healthy :: "db_router \<Rightarrow> bool" where
  "healthy r \<longleftrightarrow> r_invalid r = {}"

text \<open>The first claim to the label whose database is in the table and admits the source.\<close>

fun first_allowed :: "(string \<Rightarrow> db_routing_entry option) \<Rightarrow> ip_addr \<Rightarrow> host_route list \<Rightarrow> db_route option" where
  "first_allowed tab source [] = None"
| "first_allowed tab source (rt # rts) =
     (case tab (hr_db rt) of
        None \<Rightarrow> first_allowed tab source rts
      | Some entry \<Rightarrow>
          if \<not> allowedBy source (dbe_allow entry) \<or> \<not> allowedBy source (dbe_envAllow entry)
          then first_allowed tab source rts
          else Some \<lparr>Database = hr_db rt, Workspace = dbe_workspace entry, Backend = hr_backend rt\<rparr>)"

definition label_of :: "(string \<Rightarrow> string) \<Rightarrow> string \<Rightarrow> string \<Rightarrow> string option" where
  "label_of uni dm sni = cut_suffix (''.'' @ dm) (to_lower uni (trim_suffix ''.'' sni))"

definition resolve :: "(string \<Rightarrow> string) \<Rightarrow> db_router \<Rightarrow> string \<Rightarrow> ip_addr \<Rightarrow> db_route option" where
  "resolve uni r sni source =
     (if r_domain r = [] then None
      else case label_of uni (r_domain r) sni of
             None \<Rightarrow> None
           | Some base \<Rightarrow> first_allowed (r_table r) source (host_list (r_hosts r) base))"

subsection \<open>The reconciler\<close>

record db_watcher =
  w_router :: db_router
  w_healthy :: bool

fun reconcile :: "db_watcher \<Rightarrow> database watch_event \<Rightarrow> db_watcher" where
  "reconcile w (NotFound nm) =
     (let r = deleteLocked (w_router w) nm in \<lparr>w_router = r, w_healthy = healthy r\<rparr>)"
| "reconcile w (GetFailed nm) = w"
| "reconcile w (Fetched db) =
     (if d_deleting db then
        (let r = deleteLocked (w_router w) (d_name db) in \<lparr>w_router = r, w_healthy = healthy r\<rparr>)
      else
        (case set_db (w_router w) db of (r, ok) \<Rightarrow> \<lparr>w_router = r, w_healthy = healthy r\<rparr>))"
| "reconcile w Started = w\<lparr>w_healthy := True\<rparr>"

definition reconcile_all :: "db_watcher \<Rightarrow> database watch_event list \<Rightarrow> db_watcher" where
  "reconcile_all w evs = foldl reconcile w evs"

definition newWatcher :: "(string \<Rightarrow> string) \<Rightarrow> string \<Rightarrow> db_watcher" where
  "newWatcher uni dm = \<lparr>w_router = newRouter uni dm, w_healthy = False\<rparr>"

section \<open>The table follows the watch\<close>

text \<open>What a database asks of the table.\<close>

definition db_wants :: "string \<Rightarrow> database \<Rightarrow> db_routing_entry wanted" where
  "db_wants dm db =
     (if d_deleting db \<or> \<not> d_public db \<or> dm = [] then Unrouted
      else case parseAllowList (d_allow db) (d_envAllow db) of
             Inl e \<Rightarrow> Malformed
           | Inr (allow, envAllow) \<Rightarrow>
               Routed \<lparr>dbe_workspace = (if d_workspace db = [] then d_namespace db else d_workspace db),
                 dbe_namespace = d_namespace db, dbe_pooler = d_pooler db,
                 dbe_replicas = remdups (d_replicas db), dbe_allow = allow, dbe_envAllow = envAllow\<rparr>)"

lemma fold_add_host_rest [simp]:
  "r_domain (fold (add_host nm) lbs r) = r_domain r"
  "r_table (fold (add_host nm) lbs r) = r_table r"
  "r_invalid (fold (add_host nm) lbs r) = r_invalid r"
  by (induction lbs arbitrary: r) (simp_all add: add_host_def)

lemma indexLocked_rest [simp]:
  "r_domain (indexLocked r nm e) = r_domain r" "r_table (indexLocked r nm e) = r_table r"
  "r_invalid (indexLocked r nm e) = r_invalid r"
  by (simp_all add: indexLocked_def dropIndexLocked_def)

lemma deleteLocked_rest [simp]:
  "r_domain (deleteLocked r nm) = r_domain r" "r_table (deleteLocked r nm) = (r_table r)(nm := None)"
  "r_invalid (deleteLocked r nm) = r_invalid r - {nm}"
  by (simp_all add: deleteLocked_def dropIndexLocked_def)

lemma set_db_cases:
  "set_db r db = (case db_wants (r_domain r) (db\<lparr>d_deleting := False\<rparr>) of
      Unrouted \<Rightarrow> (deleteLocked r (d_name db), True)
    | Malformed \<Rightarrow> ((deleteLocked r (d_name db))\<lparr>r_invalid := insert (d_name db) (r_invalid r)\<rparr>, False)
    | Routed e \<Rightarrow> (indexLocked (r\<lparr>r_table := (r_table r)(d_name db \<mapsto> e), r_invalid := r_invalid r - {d_name db}\<rparr>)
          (d_name db) e, True))"
  by (auto simp: set_db_def db_wants_def Let_def split: sum.splits)

lemma db_wants_deleting: "db_wants dm db = (if d_deleting db then Unrouted else db_wants dm (db\<lparr>d_deleting := False\<rparr>))"
  by (auto simp: db_wants_def split: sum.split)

interpretation pg: route_sync reconcile "\<lambda>w. r_table (w_router w)" "\<lambda>w. r_invalid (w_router w)" w_healthy
  "\<lambda>w. r_domain (w_router w)" d_name db_wants
proof (unfold_locales, goal_cases)
  case (1 s ev)
  then show ?case
    by (cases ev) (auto simp: Let_def set_db_cases split: wanted.splits)
next
  case (2 s x n)
  then show ?case
    by (subst db_wants_deleting) (auto simp: Let_def set_db_cases split: wanted.splits)
next
  case (6 n s x)
  then show ?case
    by (subst db_wants_deleting) (auto simp: Let_def set_db_cases split: wanted.splits)
next
  case (10 s x)
  then show ?case by (auto simp: Let_def healthy_def split: prod.splits)
qed (auto simp: Let_def healthy_def split: prod.splits)

section \<open>The hostname index is a copy of the table\<close>

definition index_ok :: "db_router \<Rightarrow> bool" where
  "index_ok r \<longleftrightarrow> (\<forall>label. r_hosts r label \<noteq> Some [])
    \<and> (\<forall>label rt. rt \<in> set (host_list (r_hosts r) label) \<longleftrightarrow>
         (\<exists>e. r_table r (hr_db rt) = Some e \<and> (label, hr_backend rt) \<in> set (variants (hr_db rt) e)))"

lemma host_list_drop [simp]:
  "host_list (r_hosts (dropIndexLocked r nm)) label = filter (\<lambda>rt. hr_db rt \<noteq> nm) (host_list (r_hosts r) label)"
  by (auto simp: host_list_def dropIndexLocked_def drop_routes_def Let_def split: option.splits)

lemma drop_not_empty: "r_hosts (dropIndexLocked r nm) label \<noteq> Some []"
  by (auto simp: dropIndexLocked_def drop_routes_def Let_def bind_eq_Some_conv split: if_splits)

lemma host_list_add:
  "rt \<in> set (host_list (r_hosts (fold (add_host nm) lbs r)) label) \<longleftrightarrow>
    rt \<in> set (host_list (r_hosts r) label) \<or> hr_db rt = nm \<and> (label, hr_backend rt) \<in> set lbs"
proof (induction lbs arbitrary: r)
  case (Cons lb lbs)
  have "rt \<in> set (host_list (r_hosts (add_host nm lb r)) label) \<longleftrightarrow>
      rt \<in> set (host_list (r_hosts r) label) \<or> label = fst lb \<and> rt = \<lparr>hr_db = nm, hr_backend = snd lb\<rparr>"
    by (auto simp: add_host_def host_list_def split: option.splits)
  then show ?case using Cons.IH by (cases lb; cases rt) auto
qed simp

lemma add_not_empty:
  assumes "\<forall>label. r_hosts r label \<noteq> Some []"
  shows "r_hosts (fold (add_host nm) lbs r) label \<noteq> Some []"
  using assms by (induction lbs arbitrary: r) (simp_all add: add_host_def)

lemma index_ok_new: "index_ok (newRouter uni dm)"
  by (simp add: index_ok_def newRouter_def host_list_def)

lemma hosts_upd [simp]: "r_hosts (r_table_update f r) = r_hosts r" "r_hosts (r_invalid_update g r) = r_hosts r"
  by simp_all

lemma index_ok_invalid [simp]: "index_ok (r\<lparr>r_invalid := s\<rparr>) = index_ok r"
  by (simp add: index_ok_def)

lemma index_ok_deleteLocked:
  assumes "index_ok r"
  shows "index_ok (deleteLocked r nm)"
  unfolding index_ok_def
proof (intro conjI allI)
  fix label rt
  show "r_hosts (deleteLocked r nm) label \<noteq> Some []" by (simp add: deleteLocked_def drop_not_empty)
  show "rt \<in> set (host_list (r_hosts (deleteLocked r nm)) label) \<longleftrightarrow>
      (\<exists>e. r_table (deleteLocked r nm) (hr_db rt) = Some e \<and> (label, hr_backend rt) \<in> set (variants (hr_db rt) e))"
    using assms by (auto simp: deleteLocked_rest(2) simp: index_ok_def) (auto simp: deleteLocked_def)
qed

lemma index_ok_indexLocked:
  assumes "index_ok r"
  shows "index_ok (indexLocked (r\<lparr>r_table := (r_table r)(nm \<mapsto> e), r_invalid := s\<rparr>) nm e)"
  unfolding index_ok_def
proof (intro conjI allI)
  fix label rt
  let ?r = "r\<lparr>r_table := (r_table r)(nm \<mapsto> e), r_invalid := s\<rparr>"
  show "r_hosts (indexLocked ?r nm e) label \<noteq> Some []"
    unfolding indexLocked_def by (intro add_not_empty allI drop_not_empty)
  have "rt \<in> set (host_list (r_hosts (indexLocked ?r nm e)) label) \<longleftrightarrow>
      hr_db rt \<noteq> nm \<and> rt \<in> set (host_list (r_hosts r) label)
      \<or> hr_db rt = nm \<and> (label, hr_backend rt) \<in> set (variants nm e)"
    by (auto simp: indexLocked_def host_list_add)
  with assms show "rt \<in> set (host_list (r_hosts (indexLocked ?r nm e)) label) \<longleftrightarrow>
      (\<exists>e'. r_table (indexLocked ?r nm e) (hr_db rt) = Some e' \<and> (label, hr_backend rt) \<in> set (variants (hr_db rt) e'))"
    by (auto simp: index_ok_def)
qed

lemma index_ok_reconcile:
  assumes "index_ok (w_router w)"
  shows "index_ok (w_router (reconcile w ev))"
  using assms
  by (cases ev) (auto simp: Let_def set_db_cases index_ok_deleteLocked index_ok_indexLocked split: wanted.splits)

lemma index_ok_run: "index_ok (w_router (foldl reconcile (newWatcher uni dm) evs))"
  by (induction evs rule: rev_induct) (simp_all add: newWatcher_def index_ok_new index_ok_reconcile)

section \<open>Routing as the cluster's objects define it\<close>

text \<open>The labels a database publishes, and the backend of each.\<close>

definition public_labels :: "database \<Rightarrow> (string \<times> string) set" where
  "public_labels db =
     {(d_name db, service (d_name db) ''-rw'' (d_namespace db))}
     \<union> (if d_pooler db then {(d_name db @ ''-pool'', service (d_name db) ''-pooler'' (d_namespace db))} else {})
     \<union> (\<lambda>replica. (d_name db @ ''-ro-'' @ replica, service (d_name db) ''-ro'' (d_namespace db))) ` set (d_replicas db)"

text \<open>
  The database \<open>db\<close> may serve the host name \<open>sni\<close> to \<open>source\<close> over \<open>route\<close>: it is live and public, it
  publishes the label, its two authored layers parse and each admits the source.
\<close>

definition serves :: "(string \<Rightarrow> string) \<Rightarrow> string \<Rightarrow> string \<Rightarrow> ip_addr \<Rightarrow> database \<Rightarrow> db_route \<Rightarrow> bool" where
  "serves uni dm sni source db route \<longleftrightarrow>
     dm \<noteq> [] \<and> \<not> d_deleting db \<and> d_public db
     \<and> (\<exists>base. label_of uni dm sni = Some base \<and> (base, Backend route) \<in> public_labels db)
     \<and> is_ok (parseAllowList (d_allow db) (d_envAllow db))
     \<and> layer_admits (map ae_cidr (d_allow db)) source \<and> layer_admits (d_envAllow db) source
     \<and> Database route = d_name db
     \<and> Workspace route = (if d_workspace db = [] then d_namespace db else d_workspace db)"

lemma first_allowed_Some:
  "first_allowed tab a rts = Some route \<Longrightarrow> \<exists>rt \<in> set rts. \<exists>e. tab (hr_db rt) = Some e
     \<and> allowedBy a (dbe_allow e) \<and> allowedBy a (dbe_envAllow e)
     \<and> route = \<lparr>Database = hr_db rt, Workspace = dbe_workspace e, Backend = hr_backend rt\<rparr>"
  by (induction rts) (auto split: option.splits if_splits)

lemma first_allowed_None:
  "first_allowed tab a rts = None \<longleftrightarrow> (\<forall>rt \<in> set rts. \<forall>e. tab (hr_db rt) = Some e \<longrightarrow>
     \<not> (allowedBy a (dbe_allow e) \<and> allowedBy a (dbe_envAllow e)))"
  by (induction rts) (auto split: option.splits)

lemma db_wants_Routed:
  "db_wants dm db = Routed e \<longleftrightarrow> dm \<noteq> [] \<and> \<not> d_deleting db \<and> d_public db
    \<and> parseAllowList (d_allow db) (d_envAllow db) = Inr (dbe_allow e, dbe_envAllow e)
    \<and> dbe_workspace e = (if d_workspace db = [] then d_namespace db else d_workspace db)
    \<and> dbe_namespace e = d_namespace db \<and> dbe_pooler e = d_pooler db \<and> dbe_replicas e = remdups (d_replicas db)"
  by (cases e) (auto simp: db_wants_def split: sum.split)

lemma variants_public:
  assumes "db_wants dm db = Routed e"
  shows "set (variants (d_name db) e) = public_labels db"
  using assms by (auto simp: db_wants_Routed variants_def public_labels_def)

text \<open>An entry that may be used for a source, seen as the object it came from.\<close>

lemma serves_iff_entry:
  "serves uni dm sni source db route \<longleftrightarrow>
     (\<exists>e base. db_wants dm db = Routed e \<and> label_of uni dm sni = Some base
       \<and> (base, Backend route) \<in> set (variants (d_name db) e)
       \<and> allowedBy source (dbe_allow e) \<and> allowedBy source (dbe_envAllow e)
       \<and> Database route = d_name db \<and> Workspace route = dbe_workspace e)" (is "?L \<longleftrightarrow> ?R")
proof
  assume ?L
  then obtain allow envAllow where parsed: "parseAllowList (d_allow db) (d_envAllow db) = Inr (allow, envAllow)"
    by (auto simp: serves_def is_ok_def split: sum.splits)
  moreover obtain e where w: "db_wants dm db = Routed e"
    using \<open>?L\<close> parsed by (simp add: db_wants_def serves_def)
  ultimately have e: "dbe_allow e = allow" "dbe_envAllow e = envAllow" "Workspace route = dbe_workspace e"
    using \<open>?L\<close> by (simp_all add: db_wants_Routed serves_def)
  from \<open>?L\<close> w show ?R
    using allowedBy_layer [OF parseAllowList_layers(1) [OF parsed], of source]
      allowedBy_layer [OF parseAllowList_layers(2) [OF parsed], of source]
    by (intro exI [of _ e]) (auto simp: serves_def variants_public [OF w] e)
next
  assume ?R
  then obtain e base where e: "db_wants dm db = Routed e" "label_of uni dm sni = Some base"
      "(base, Backend route) \<in> set (variants (d_name db) e)"
      "allowedBy source (dbe_allow e)" "allowedBy source (dbe_envAllow e)"
      "Database route = d_name db" "Workspace route = dbe_workspace e" by blast
  then have parsed: "parseAllowList (d_allow db) (d_envAllow db) = Inr (dbe_allow e, dbe_envAllow e)"
    by (simp add: db_wants_Routed)
  show ?L
    using e parsed allowedBy_layer [OF parseAllowList_layers(1) [OF parsed], of source]
      allowedBy_layer [OF parseAllowList_layers(2) [OF parsed], of source]
    by (auto simp: serves_def variants_public [OF e(1)] db_wants_Routed)
qed

text \<open>The table after a watch, entry by entry.\<close>

lemma pg_table:
  "r_table (w_router (foldl reconcile (newWatcher uni dm) evs)) n =
     (case view d_name evs n of None \<Rightarrow> None
      | Some db \<Rightarrow> routed_of (db_wants (to_lower uni (trim_suffix ''.'' dm)) db))"
proof -
  have "r_domain (w_router (newWatcher uni dm)) = to_lower uni (trim_suffix ''.'' dm)"
    "\<And>n. r_table (w_router (newWatcher uni dm)) n = None"
    by (simp_all add: newWatcher_def newRouter_def)
  then show ?thesis using pg.table_of_view [of "newWatcher uni dm" evs n] by (simp split: option.split)
qed

lemma pg_domain:
  "r_domain (w_router (foldl reconcile (newWatcher uni dm) evs)) = to_lower uni (trim_suffix ''.'' dm)"
  by (simp add: pg.domain_run) (simp add: newWatcher_def newRouter_def)

lemma pg_resolve_refines:
  "case resolve uni (w_router (reconcile_all (newWatcher uni dm) evs)) sni source of
     None \<Rightarrow> \<forall>n db route. \<not> (view d_name evs n = Some db \<and> serves uni (to_lower uni (trim_suffix ''.'' dm)) sni source db route)
   | Some route \<Rightarrow> \<exists>db. view d_name evs (Database route) = Some db
       \<and> serves uni (to_lower uni (trim_suffix ''.'' dm)) sni source db route"
proof -
  let ?r = "w_router (foldl reconcile (newWatcher uni dm) evs)" and ?dm = "to_lower uni (trim_suffix ''.'' dm)"
  have ix: "rt \<in> set (host_list (r_hosts ?r) label) \<longleftrightarrow>
      (\<exists>e. r_table ?r (hr_db rt) = Some e \<and> (label, hr_backend rt) \<in> set (variants (hr_db rt) e))" for rt label
    using index_ok_run [of uni dm evs] by (simp add: index_ok_def)
  have tab: "r_table ?r n = Some e \<longleftrightarrow> (\<exists>db. view d_name evs n = Some db \<and> db_wants ?dm db = Routed e \<and> d_name db = n)" for n e
    using pg.name_of_view [of evs n] by (auto simp: pg_table split: option.splits)
  show ?thesis
  proof (cases "resolve uni ?r sni source")
    case (Some route)
    then obtain base where "label_of uni ?dm sni = Some base"
      "first_allowed (r_table ?r) source (host_list (r_hosts ?r) base) = Some route"
      by (auto simp: resolve_def pg_domain split: if_splits option.splits)
    with first_allowed_Some [OF this(2)] show ?thesis
      by (auto simp: reconcile_all_def Some ix serves_iff_entry tab)
  next
    case None
    have "\<not> serves uni ?dm sni source db route" if v: "view d_name evs n = Some db" for n db route
    proof
      assume "serves uni ?dm sni source db route"
      then obtain e base where e: "db_wants ?dm db = Routed e" "label_of uni ?dm sni = Some base"
          "(base, Backend route) \<in> set (variants (d_name db) e)"
          "allowedBy source (dbe_allow e)" "allowedBy source (dbe_envAllow e)"
        by (auto simp: serves_iff_entry)
      have nm: "d_name db = n" by (rule pg.name_of_view [OF v])
      have t: "r_table ?r n = Some e" using v e(1) nm by (auto simp: tab)
      have "\<lparr>hr_db = n, hr_backend = Backend route\<rparr> \<in> set (host_list (r_hosts ?r) base)"
        using t e(3) nm by (simp add: ix)
      moreover have "?dm \<noteq> []" using e(1) by (simp add: db_wants_Routed)
      then have "first_allowed (r_table ?r) source (host_list (r_hosts ?r) base) = None"
        using None e(2) by (simp add: resolve_def pg_domain)
      ultimately show False using e(4,5) t by (fastforce simp: first_allowed_None)
    qed
    then show ?thesis by (simp add: reconcile_all_def None)
  qed
qed

text \<open>C13: routing refines the cluster. After any history of reconciles, from an empty router, the
  constant-time lookup answers what a scan of the newest objects would: a route it returns belongs to
  a live public database that publishes the host name and whose own and environment allowlist layers,
  as authored, both admit the client; when it returns none, no database may serve the client under
  that name. No stale, deleted, private or malformed database is ever routed.\<close>

theorem pg_routing_refines_cluster:
  "case resolve uni (w_router (reconcile_all (newWatcher uni dm) evs)) sni source of
     None \<Rightarrow> \<forall>n db route. \<not> (view d_name evs n = Some db \<and> serves uni (to_lower uni (trim_suffix ''.'' dm)) sni source db route)
   | Some route \<Rightarrow> \<exists>db. view d_name evs (Database route) = Some db
       \<and> serves uni (to_lower uni (trim_suffix ''.'' dm)) sni source db route"
  by (rule pg_resolve_refines)

text \<open>Fail closed and say so. Once a reconcile has run after start-up, the health the proxy
  publishes is true exactly when no live public database has a malformed allowlist rule.\<close>

theorem pg_health_accurate:
  assumes "\<forall>ev \<in> set later. ev \<noteq> Started" and "\<exists>ev \<in> set later. \<forall>m. ev \<noteq> GetFailed m"
  shows "w_healthy (reconcile_all (newWatcher uni dm) (earlier @ later)) \<longleftrightarrow>
    (\<forall>n db. view d_name (earlier @ later) n = Some db \<longrightarrow> db_wants (to_lower uni (trim_suffix ''.'' dm)) db \<noteq> Malformed)"
proof -
  have "w_healthy (foldl reconcile (newWatcher uni dm) (earlier @ later)) \<longleftrightarrow>
      r_invalid (w_router (foldl reconcile (newWatcher uni dm) (earlier @ later))) = {}"
    using pg.published_after_start [OF assms, of "foldl reconcile (newWatcher uni dm) earlier"] by simp
  moreover have "r_invalid (w_router (newWatcher uni dm)) = {}"
    "r_domain (w_router (newWatcher uni dm)) = to_lower uni (trim_suffix ''.'' dm)"
    by (simp_all add: newWatcher_def newRouter_def)
  ultimately show ?thesis
    using pg.invalid_of_view [of "newWatcher uni dm" _ "earlier @ later"] unfolding reconcile_all_def by auto
qed

definition ex_db :: database where
  "ex_db = \<lparr>d_name = ''pg'', d_namespace = ''ns'', d_workspace = [], d_public = True, d_pooler = False,
     d_replicas = [], d_allow = [\<lparr>ae_cidr = ''bad'', ae_description = []\<rparr>], d_envAllow = [], d_deleting = False\<rparr>"

lemma ex_db_malformed: "db_wants ''db.x'' ex_db = Malformed"
  by (simp add: db_wants_def ex_db_def parseAllowList_def appendRule_def ip_eval)

lemma lower_dbx: "to_lower uni (trim_suffix ''.'' ''db.x'') = ''db.x''"
  by (simp add: to_lower_def is_ascii_def ascii_lower_def trim_suffix_def cut_suffix_def ends_with_def less_char_def)

theorem pg_health_accurate_witness:
  "\<not> w_healthy (reconcile_all (newWatcher id ''db.x'') ([Started] @ [Fetched ex_db]))"
proof -
  have v: "view d_name ([Started] @ [Fetched ex_db]) ''pg'' = Some ex_db"
    by (simp add: view_def ex_db_def)
  show ?thesis
    using pg_health_accurate [of "[Fetched ex_db]" id "''db.x''" "[Started]"] v ex_db_malformed
    unfolding lower_dbx by auto
qed

text \<open>The write at the end of start-up hides what the first reconciles found: \<open>main\<close> reports the proxy
  healthy once the cache has synced, over a database whose malformed rule was already published.\<close>

theorem pg_health_masked:
  "w_healthy (reconcile_all (newWatcher id ''db.x'') [Fetched ex_db, Started])
   \<and> view d_name [Fetched ex_db, Started] ''pg'' = Some ex_db \<and> db_wants ''db.x'' ex_db = Malformed"
  by (simp add: reconcile_all_def ex_db_malformed) (simp add: view_def ex_db_def)

end
