(* ===== verification/KvRouter.thy ===== *)
theory KvRouter
  imports RouteSync
begin

text \<open>
  The routing table of the key-value front door (\<open>operator/cmd/kv-sni-proxy/main.go\<close>): \<open>kvRouter\<close> and its
  reconciler. One label per instance, so the table itself is the index. \<open>strings.ToLower\<close> and
  \<open>strings.EqualFold\<close> are the ASCII functions on ASCII strings; \<open>uni\<close> and \<open>fold_eq\<close> stand for the
  Unicode tables beyond.
\<close>

section \<open>State\<close>

record key_value =
  k_name :: string
  k_namespace :: string
  k_workspace :: string
  k_public :: bool
  k_allow :: "ip_allow_entry list"
  k_envAllow :: "string list"
  k_externalHost :: string
  k_deleting :: bool

record kv_route =
  ResourceID :: string
  kv_Workspace :: string
  kv_Backend :: string
  kv_Allow :: "ip_prefix list"
  kv_EnvAllow :: "ip_prefix list"

record kv_router =
  kr_domain :: string
  kr_table :: "string \<Rightarrow> kv_route option"
  kr_invalid :: "string set"

section \<open>Operations\<close>

definition newKvRouter :: "string \<Rightarrow> kv_router" where
  "newKvRouter dm = \<lparr>kr_domain = dm, kr_table = Map.empty, kr_invalid = {}\<rparr>"

definition deleteKv :: "kv_router \<Rightarrow> string \<Rightarrow> kv_router" where
  "deleteKv r nm = r\<lparr>kr_table := (kr_table r)(nm := None), kr_invalid := kr_invalid r - {nm}\<rparr>"

definition setKv :: "(string \<Rightarrow> string \<Rightarrow> bool) \<Rightarrow> kv_router \<Rightarrow> key_value \<Rightarrow> kv_router \<times> bool" where
  "setKv fold_eq r kv =
     (let expectedHost = k_name kv @ ''.'' @ kr_domain r
      in if \<not> k_public kv \<or> kr_domain r = [] \<or> \<not> equal_fold fold_eq (k_externalHost kv) expectedHost
         then (deleteKv r (k_name kv), True)
         else
           let workspace = (if k_workspace kv = [] then k_namespace kv else k_workspace kv);
               route = \<lparr>ResourceID = k_name kv, kv_Workspace = workspace,
                 kv_Backend = k_name kv @ ''.'' @ k_namespace kv @ ''.svc.cluster.local:6380'',
                 kv_Allow = [], kv_EnvAllow = []\<rparr>
           in case parseAllowList (k_allow kv) (k_envAllow kv) of
                Inl e \<Rightarrow>
                  (r\<lparr>kr_table := (kr_table r)(k_name kv := None),
                     kr_invalid := insert (k_name kv) (kr_invalid r)\<rparr>, False)
              | Inr (allow, envAllow) \<Rightarrow>
                  (r\<lparr>kr_table := (kr_table r)(k_name kv \<mapsto> route\<lparr>kv_Allow := allow, kv_EnvAllow := envAllow\<rparr>),
                     kr_invalid := kr_invalid r - {k_name kv}\<rparr>, True))"

definition healthyKv :: "kv_router \<Rightarrow> bool" where
  "healthyKv r \<longleftrightarrow> kr_invalid r = {}"

definition resolveKv :: "(string \<Rightarrow> string) \<Rightarrow> kv_router \<Rightarrow> string \<Rightarrow> ip_addr \<Rightarrow> kv_route option" where
  "resolveKv uni r sni source =
     (case cut_suffix (''.'' @ kr_domain r) (to_lower uni (trim_suffix ''.'' sni)) of
        None \<Rightarrow> None
      | Some base \<Rightarrow>
          if base = [] \<or> CHR ''.'' \<in> set base then None
          else
            (case kr_table r base of
               None \<Rightarrow> None
             | Some route \<Rightarrow>
                 if \<not> allowedBy source (kv_Allow route) \<or> \<not> allowedBy source (kv_EnvAllow route) then None
                 else Some route))"

record kv_watcher =
  kw_router :: kv_router
  kw_healthy :: bool

fun reconcileKv :: "(string \<Rightarrow> string \<Rightarrow> bool) \<Rightarrow> kv_watcher \<Rightarrow> key_value watch_event \<Rightarrow> kv_watcher" where
  "reconcileKv fold_eq w (NotFound nm) =
     (let r = deleteKv (kw_router w) nm in \<lparr>kw_router = r, kw_healthy = healthyKv r\<rparr>)"
| "reconcileKv fold_eq w (GetFailed nm) = w"
| "reconcileKv fold_eq w (Fetched kv) =
     (if k_deleting kv then
        (let r = deleteKv (kw_router w) (k_name kv) in \<lparr>kw_router = r, kw_healthy = healthyKv r\<rparr>)
      else
        (case setKv fold_eq (kw_router w) kv of (r, ok) \<Rightarrow> \<lparr>kw_router = r, kw_healthy = healthyKv r\<rparr>))"
| "reconcileKv fold_eq w Started = w\<lparr>kw_healthy := True\<rparr>"

definition newKvWatcher :: "string \<Rightarrow> kv_watcher" where
  "newKvWatcher dm = \<lparr>kw_router = newKvRouter dm, kw_healthy = False\<rparr>"

section \<open>The table follows the watch\<close>

definition kv_wants :: "(string \<Rightarrow> string \<Rightarrow> bool) \<Rightarrow> string \<Rightarrow> key_value \<Rightarrow> kv_route wanted" where
  "kv_wants fold_eq dm kv =
     (if k_deleting kv \<or> \<not> k_public kv \<or> dm = []
         \<or> \<not> equal_fold fold_eq (k_externalHost kv) (k_name kv @ ''.'' @ dm) then Unrouted
      else case parseAllowList (k_allow kv) (k_envAllow kv) of
             Inl e \<Rightarrow> Malformed
           | Inr (allow, envAllow) \<Rightarrow>
               Routed \<lparr>ResourceID = k_name kv,
                 kv_Workspace = (if k_workspace kv = [] then k_namespace kv else k_workspace kv),
                 kv_Backend = k_name kv @ ''.'' @ k_namespace kv @ ''.svc.cluster.local:6380'',
                 kv_Allow = allow, kv_EnvAllow = envAllow\<rparr>)"

lemma setKv_cases:
  assumes "\<not> k_deleting kv"
  shows "setKv fold_eq r kv = (case kv_wants fold_eq (kr_domain r) kv of
      Unrouted \<Rightarrow> (deleteKv r (k_name kv), True)
    | Malformed \<Rightarrow> (r\<lparr>kr_table := (kr_table r)(k_name kv := None),
        kr_invalid := insert (k_name kv) (kr_invalid r)\<rparr>, False)
    | Routed e \<Rightarrow> (r\<lparr>kr_table := (kr_table r)(k_name kv \<mapsto> e), kr_invalid := kr_invalid r - {k_name kv}\<rparr>, True))"
  using assms by (auto simp: setKv_def kv_wants_def Let_def split: sum.split)

lemma kv_wants_deleting: "k_deleting kv \<Longrightarrow> kv_wants fold_eq dm kv = Unrouted"
  by (simp add: kv_wants_def)

lemma deleteKv_fields [simp]:
  "kr_domain (deleteKv r nm) = kr_domain r" "kr_table (deleteKv r nm) = (kr_table r)(nm := None)"
  "kr_invalid (deleteKv r nm) = kr_invalid r - {nm}"
  by (simp_all add: deleteKv_def)

interpretation kv: route_sync "reconcileKv fold_eq" "\<lambda>w. kr_table (kw_router w)" "\<lambda>w. kr_invalid (kw_router w)"
  kw_healthy "\<lambda>w. kr_domain (kw_router w)" k_name "kv_wants fold_eq" for fold_eq
proof (unfold_locales, goal_cases)
  case (1 s ev)
  then show ?case
    by (cases ev) (auto simp: Let_def setKv_cases split: wanted.splits)
next
  case (2 s x n)
  then show ?case
    by (cases "k_deleting x") (auto simp: Let_def setKv_cases kv_wants_deleting split: wanted.splits)
next
  case (6 n s x)
  then show ?case
    by (cases "k_deleting x") (auto simp: Let_def setKv_cases kv_wants_deleting split: wanted.splits)
next
  case (10 s x)
  then show ?case by (auto simp: Let_def healthyKv_def split: prod.splits)
qed (auto simp: Let_def healthyKv_def split: prod.splits)

section \<open>Routing as the cluster's objects define it\<close>

definition servesKv :: "(string \<Rightarrow> string) \<Rightarrow> (string \<Rightarrow> string \<Rightarrow> bool) \<Rightarrow> string \<Rightarrow> string \<Rightarrow> ip_addr
    \<Rightarrow> key_value \<Rightarrow> bool" where
  "servesKv uni fold_eq dm sni source kv \<longleftrightarrow>
     dm \<noteq> [] \<and> \<not> k_deleting kv \<and> k_public kv \<and> equal_fold fold_eq (k_externalHost kv) (k_name kv @ ''.'' @ dm)
     \<and> to_lower uni (trim_suffix ''.'' sni) = k_name kv @ ''.'' @ dm
     \<and> k_name kv \<noteq> [] \<and> CHR ''.'' \<notin> set (k_name kv)
     \<and> is_ok (parseAllowList (k_allow kv) (k_envAllow kv))
     \<and> layer_admits (map ae_cidr (k_allow kv)) source \<and> layer_admits (k_envAllow kv) source"

text \<open>The route an instance is served by.\<close>

definition route_for :: "key_value \<Rightarrow> kv_route \<Rightarrow> bool" where
  "route_for kv route \<longleftrightarrow> ResourceID route = k_name kv
     \<and> kv_Workspace route = (if k_workspace kv = [] then k_namespace kv else k_workspace kv)
     \<and> kv_Backend route = k_name kv @ ''.'' @ k_namespace kv @ ''.svc.cluster.local:6380''"

lemma kv_wants_Routed:
  "kv_wants fold_eq dm kv = Routed e \<longleftrightarrow> dm \<noteq> [] \<and> \<not> k_deleting kv \<and> k_public kv
    \<and> equal_fold fold_eq (k_externalHost kv) (k_name kv @ ''.'' @ dm)
    \<and> parseAllowList (k_allow kv) (k_envAllow kv) = Inr (kv_Allow e, kv_EnvAllow e) \<and> route_for kv e"
  by (cases e) (auto simp: kv_wants_def route_for_def split: sum.split)

lemma servesKv_iff:
  "servesKv uni fold_eq dm sni source kv \<longleftrightarrow>
     (\<exists>e. kv_wants fold_eq dm kv = Routed e \<and> allowedBy source (kv_Allow e) \<and> allowedBy source (kv_EnvAllow e))
     \<and> cut_suffix (''.'' @ dm) (to_lower uni (trim_suffix ''.'' sni)) = Some (k_name kv)
     \<and> k_name kv \<noteq> [] \<and> CHR ''.'' \<notin> set (k_name kv)"
proof (cases "parseAllowList (k_allow kv) (k_envAllow kv)")
  case (Inl e)
  then show ?thesis by (auto simp: servesKv_def kv_wants_Routed)
next
  case (Inr ps)
  then obtain allow envAllow where parsed: "parseAllowList (k_allow kv) (k_envAllow kv) = Inr (allow, envAllow)"
    by (cases ps) simp
  have "\<exists>e. kv_Allow e = allow \<and> kv_EnvAllow e = envAllow \<and> route_for kv e"
    by (rule exI [of _ "\<lparr>ResourceID = k_name kv,
                 kv_Workspace = (if k_workspace kv = [] then k_namespace kv else k_workspace kv),
                 kv_Backend = k_name kv @ ''.'' @ k_namespace kv @ ''.svc.cluster.local:6380'',
                 kv_Allow = allow, kv_EnvAllow = envAllow\<rparr>"]) (simp add: route_for_def)
  then show ?thesis
    using allowedBy_layer [OF parseAllowList_layers(1) [OF parsed], of source]
      allowedBy_layer [OF parseAllowList_layers(2) [OF parsed], of source]
    by (auto simp: servesKv_def kv_wants_Routed cut_suffix_Some parsed)
qed

lemma kv_table:
  "kr_table (kw_router (foldl (reconcileKv fold_eq) (newKvWatcher dm) evs)) n = Some e \<longleftrightarrow>
     (\<exists>kv. view k_name evs n = Some kv \<and> kv_wants fold_eq dm kv = Routed e \<and> k_name kv = n)"
proof -
  have "kr_domain (kw_router (newKvWatcher dm)) = dm" "\<And>n. kr_table (kw_router (newKvWatcher dm)) n = None"
    by (simp_all add: newKvWatcher_def newKvRouter_def)
  then show ?thesis
    using kv.table_of_view [of "newKvWatcher dm" fold_eq evs n] kv.name_of_view [of evs n]
    by (auto split: option.splits)
qed

lemma kv_resolve_refines:
  "case resolveKv uni (kw_router (foldl (reconcileKv fold_eq) (newKvWatcher dm) evs)) sni source of
     None \<Rightarrow> \<forall>n kv. \<not> (view k_name evs n = Some kv \<and> servesKv uni fold_eq dm sni source kv)
   | Some route \<Rightarrow> \<exists>kv. view k_name evs (ResourceID route) = Some kv
       \<and> servesKv uni fold_eq dm sni source kv \<and> route_for kv route"
proof -
  let ?r = "kw_router (foldl (reconcileKv fold_eq) (newKvWatcher dm) evs)"
  have dm: "kr_domain ?r = dm"
    using kv.domain_run [of fold_eq "newKvWatcher dm" evs] by (simp add: newKvWatcher_def newKvRouter_def)
  show ?thesis
  proof (cases "resolveKv uni ?r sni source")
    case (Some route)
    then obtain base where base: "cut_suffix (''.'' @ dm) (to_lower uni (trim_suffix ''.'' sni)) = Some base"
        "base \<noteq> []" "CHR ''.'' \<notin> set base" "kr_table ?r base = Some route"
        "allowedBy source (kv_Allow route)" "allowedBy source (kv_EnvAllow route)"
      by (auto simp: resolveKv_def dm split: if_splits option.splits)
    from base(4) obtain kv where kv: "view k_name evs base = Some kv" "kv_wants fold_eq dm kv = Routed route"
        "k_name kv = base"
      by (auto simp: kv_table)
    then have "route_for kv route" by (simp add: kv_wants_Routed)
    then have "ResourceID route = base" using kv(3) by (simp add: route_for_def)
    then show ?thesis using base kv \<open>route_for kv route\<close> unfolding servesKv_iff Some by auto
  next
    case None
    have "\<not> servesKv uni fold_eq dm sni source kv" if v: "view k_name evs n = Some kv" for n kv
    proof
      assume "servesKv uni fold_eq dm sni source kv"
      then obtain e where e: "kv_wants fold_eq dm kv = Routed e" "allowedBy source (kv_Allow e)"
          "allowedBy source (kv_EnvAllow e)"
          "cut_suffix (''.'' @ dm) (to_lower uni (trim_suffix ''.'' sni)) = Some (k_name kv)"
          "k_name kv \<noteq> []" "CHR ''.'' \<notin> set (k_name kv)"
        by (auto simp: servesKv_iff)
      have "k_name kv = n" by (rule kv.name_of_view [OF v])
      then have "kr_table ?r (k_name kv) = Some e" using v e(1) by (auto simp: kv_table)
      then show False using None e by (simp add: resolveKv_def dm)
    qed
    then show ?thesis by (simp add: None)
  qed
qed

text \<open>Routing refines the cluster. After any history of reconciles, a lookup returns a route
  exactly for the live public instance whose published host is the requested one and whose own and
  environment allowlist layers, as authored, both admit the client; otherwise it returns none.\<close>

theorem kv_routing_refines_cluster:
  "case resolveKv uni (kw_router (foldl (reconcileKv fold_eq) (newKvWatcher dm) evs)) sni source of
     None \<Rightarrow> \<forall>n kv. \<not> (view k_name evs n = Some kv \<and> servesKv uni fold_eq dm sni source kv)
   | Some route \<Rightarrow> \<exists>kv. view k_name evs (ResourceID route) = Some kv
       \<and> servesKv uni fold_eq dm sni source kv \<and> route_for kv route"
  by (rule kv_resolve_refines)

section \<open>Case of the configured domain\<close>

text \<open>
  Unlike the PostgreSQL router, this one stores the domain as configured while every requested name is
  lower-cased, so a domain with an upper-case letter routes nothing.
\<close>

lemma ascii_lower_not_upper: "\<not> (CHR ''A'' \<le> ascii_lower c \<and> ascii_lower c \<le> CHR ''Z'')"
proof (cases "CHR ''A'' \<le> c \<and> c \<le> CHR ''Z''")
  case True
  then have "65 \<le> (of_char c :: nat)" "(of_char c :: nat) \<le> 90"
    by (simp_all add: less_eq_char_def)
  then have "\<not> (of_char (char_of (of_char c + 32 :: nat)) :: nat) \<le> 90" by simp
  with True show ?thesis by (auto simp: ascii_lower_def less_eq_char_def)
qed (auto simp: ascii_lower_def)

theorem kv_upper_case_domain_unreachable:
  assumes "c \<in> set dm" "CHR ''A'' \<le> c" "c \<le> CHR ''Z''" "list_all is_ascii sni"
  shows "resolveKv uni (kw_router (foldl (reconcileKv fold_eq) (newKvWatcher dm) evs)) sni source = None"
proof -
  let ?r = "kw_router (foldl (reconcileKv fold_eq) (newKvWatcher dm) evs)"
  have dm: "kr_domain ?r = dm"
    using kv.domain_run [of fold_eq "newKvWatcher dm" evs] by (simp add: newKvWatcher_def newKvRouter_def)
  have "list_all is_ascii (trim_suffix ''.'' sni)"
    using assms(4) by (auto simp: trim_suffix_def list_all_iff dest: in_set_takeD)
  then have lower: "to_lower uni (trim_suffix ''.'' sni) = map ascii_lower (trim_suffix ''.'' sni)"
    by (simp add: to_lower_def)
  have "cut_suffix (''.'' @ dm) (to_lower uni (trim_suffix ''.'' sni)) = None"
  proof (rule ccontr)
    assume "cut_suffix (''.'' @ dm) (to_lower uni (trim_suffix ''.'' sni)) \<noteq> None"
    then obtain b where "map ascii_lower (trim_suffix ''.'' sni) = b @ ''.'' @ dm"
      by (auto simp: cut_suffix_Some lower)
    then have "c \<in> ascii_lower ` set (trim_suffix ''.'' sni)"
      using assms(1) by (metis (no_types) Un_iff list.set_map set_append)
    then show False using assms(2,3) ascii_lower_not_upper by auto
  qed
  then show ?thesis by (simp add: resolveKv_def dm)
qed

end
