(* ===== verification/FrontDoor.thy ===== *)
theory FrontDoor
  imports Limiters ProxyProto TlsHello PgRouter KvRouter
begin

text \<open>
  One connection through a public proxy: \<open>handleConn\<close> of \<open>operator/cmd/pg-sni-proxy/main.go\<close> and of
  \<open>operator/cmd/kv-sni-proxy/main.go\<close>, and the metered copy of \<open>operator/internal/sniproxy/meter.go\<close>.

  The setup of a connection, up to the splice, is a function of the limiter, the router and what the
  client sends. Its result holds the limiter while the connection is spliced; a connection that ends
  before has run its deferred releases. Deadlines and logs are left out: a read that times out is a
  read that fails, as on a stream that is too short.
\<close>

section \<open>What a connection meets\<close>

text \<open>
  The client: its whole byte stream, its socket address, how much of the stream the buffered reader
  has taken from the socket when the splice starts, and whether writing to it succeeds. The backend
  a dial reaches: whether each of the two writes succeeds, and the bytes it answers.
\<close>

record client =
  c_stream :: bytes
  c_remote :: string
  c_pulled :: nat
  c_writable :: bool

record backend =
  b_write1 :: bool
  b_reply :: bytes
  b_write2 :: bool

text \<open>\<open>Spliced b sent left\<close>: the backend address, the bytes written to the backend before the copy,
  and the bytes of the client that the copy will read from the socket.\<close>

datatype conn_end =
    BadProxyHeader | RejectedSource | ShortPreamble | UnknownProtocol | ClientGone | BadClientHello
  | Panicked | NoServerName | NoRoute | RejectedRoute string | DialFailed | BackendGone | BackendDeclined
  | Spliced string bytes bytes

fun spliced :: "conn_end \<Rightarrow> bool" where
  "spliced (Spliced b sent left) \<longleftrightarrow> True"
| "spliced BadProxyHeader \<longleftrightarrow> False" | "spliced RejectedSource \<longleftrightarrow> False"
| "spliced ShortPreamble \<longleftrightarrow> False" | "spliced UnknownProtocol \<longleftrightarrow> False" | "spliced ClientGone \<longleftrightarrow> False"
| "spliced BadClientHello \<longleftrightarrow> False" | "spliced Panicked \<longleftrightarrow> False" | "spliced NoServerName \<longleftrightarrow> False"
| "spliced NoRoute \<longleftrightarrow> False" | "spliced (RejectedRoute scope) \<longleftrightarrow> False" | "spliced DialFailed \<longleftrightarrow> False"
| "spliced BackendGone \<longleftrightarrow> False" | "spliced BackendDeclined \<longleftrightarrow> False"

text \<open>The deferred releases: they run when the connection ends before its splice.\<close>

definition deferring :: "(sni_limiter \<Rightarrow> sni_limiter) \<Rightarrow> sni_limiter option \<times> conn_end \<Rightarrow> sni_limiter option \<times> conn_end" where
  "deferring release out =
     (if spliced (snd out) then out else (map_option release (fst out), snd out))"

section \<open>PostgreSQL\<close>

definition sslRequestMagic :: nat where "sslRequestMagic = 80877103"
definition sslRequestLen :: nat where "sslRequestLen = 8"
definition sslByte :: byte where "sslByte = 0x53"

text \<open>After the route is known: dial, replay the SSL request, forward the ClientHello.\<close>

definition dialPg :: "client \<Rightarrow> (string \<Rightarrow> backend option) \<Rightarrow> bool \<Rightarrow> bytes \<Rightarrow> bytes \<Rightarrow> db_route \<Rightarrow> conn_end" where
  "dialPg c dial isSSLRequest peek hello route =
     (case dial (Backend route) of
        None \<Rightarrow> DialFailed
      | Some b \<Rightarrow>
          if isSSLRequest \<and> \<not> b_write1 b then BackendGone
          else if isSSLRequest \<and> b_reply b = [] then BackendGone
          else if isSSLRequest \<and> hd (b_reply b) \<noteq> sslByte then BackendDeclined
          else if \<not> b_write2 b then BackendGone
          else Spliced (Backend route) ((if isSSLRequest then peek else []) @ hello)
                 (drop (c_pulled c) (c_stream c)))"

definition routePg :: "(string \<Rightarrow> string) \<Rightarrow> db_router \<Rightarrow> sni_limiter option \<Rightarrow> ip_addr \<Rightarrow> client
    \<Rightarrow> (string \<Rightarrow> backend option) \<Rightarrow> bool \<Rightarrow> bytes \<Rightarrow> bytes \<Rightarrow> sni_limiter option \<times> conn_end" where
  "routePg uni router lo source c dial isSSLRequest peek hello =
     (case extractSNI hello of
        None \<Rightarrow> (lo, Panicked)
      | Some (Inl e) \<Rightarrow> (lo, NoServerName)
      | Some (Inr sni) \<Rightarrow>
          if sni = [] then (lo, NoServerName)
          else
            (case resolve uni router (bytes_str sni) source of
               None \<Rightarrow> (lo, NoRoute)
             | Some route \<Rightarrow>
                 let resource = Workspace route @ ''/'' @ Database route
                 in (case acquireRoute lo (Workspace route) resource of
                       (lo', scope, False) \<Rightarrow> (lo', RejectedRoute scope)
                     | (lo', scope, True) \<Rightarrow>
                         deferring (\<lambda>l. releaseRoute l (Workspace route) resource)
                           (lo', dialPg c dial isSSLRequest peek hello route))))"

definition preamblePg :: "(string \<Rightarrow> string) \<Rightarrow> db_router \<Rightarrow> sni_limiter option \<Rightarrow> ip_addr \<Rightarrow> bytes \<Rightarrow> client
    \<Rightarrow> (string \<Rightarrow> backend option) \<Rightarrow> sni_limiter option \<times> conn_end" where
  "preamblePg uni router lo source rest c dial =
     (case readFull rest 8 of
        None \<Rightarrow> (lo, ShortPreamble)
      | Some (peek, rest1) \<Rightarrow>
          let isSSLRequest = (be_addr (take 4 peek) = sslRequestLen \<and> be_addr (drop 4 peek) = sslRequestMagic);
              isDirectTLS = (peek ! 0 = TLSHandshakeType)
          in if \<not> isSSLRequest \<and> \<not> isDirectTLS then (lo, UnknownProtocol)
             else if isSSLRequest \<and> \<not> c_writable c then (lo, ClientGone)
             else
               (case readTLSRecord rest1 (if isDirectTLS then peek else []) of
                  Inl e \<Rightarrow> (lo, BadClientHello)
                | Inr (hello, rest2) \<Rightarrow> routePg uni router lo source c dial isSSLRequest peek hello))"

definition handlePg :: "(string \<Rightarrow> string) \<Rightarrow> nat \<Rightarrow> ip_prefix list \<Rightarrow> db_router \<Rightarrow> sni_limiter option \<Rightarrow> client
    \<Rightarrow> (string \<Rightarrow> backend option) \<Rightarrow> sni_limiter option \<times> conn_end" where
  "handlePg uni bufsz trusted router lo c dial =
     (case readProxySource bufsz (c_stream c) (c_remote c) trusted of
        Inl e \<Rightarrow> (lo, BadProxyHeader)
      | Inr (source, rest) \<Rightarrow>
          (case acquireSource lo source of
             (lo', False) \<Rightarrow> (lo', RejectedSource)
           | (lo', True) \<Rightarrow>
               deferring (\<lambda>l. releaseSource l source) (preamblePg uni router lo' source rest c dial)))"

section \<open>Key-value\<close>

definition dialKv :: "client \<Rightarrow> (string \<Rightarrow> backend option) \<Rightarrow> bytes \<Rightarrow> kv_route \<Rightarrow> conn_end" where
  "dialKv c dial hello route =
     (case dial (kv_Backend route) of
        None \<Rightarrow> DialFailed
      | Some b \<Rightarrow>
          if \<not> b_write1 b then BackendGone
          else Spliced (kv_Backend route) hello (drop (c_pulled c) (c_stream c)))"

definition routeKv :: "(string \<Rightarrow> string) \<Rightarrow> kv_router \<Rightarrow> sni_limiter option \<Rightarrow> ip_addr \<Rightarrow> bytes \<Rightarrow> client
    \<Rightarrow> (string \<Rightarrow> backend option) \<Rightarrow> sni_limiter option \<times> conn_end" where
  "routeKv uni router lo source rest c dial =
     (case readTLSRecord rest [] of
        Inl e \<Rightarrow> (lo, BadClientHello)
      | Inr (rcd, rest1) \<Rightarrow>
          (case extractSNI rcd of
             None \<Rightarrow> (lo, Panicked)
           | Some (Inl e) \<Rightarrow> (lo, NoServerName)
           | Some (Inr sni) \<Rightarrow>
               if sni = [] then (lo, NoServerName)
               else
                 (case resolveKv uni router (bytes_str sni) source of
                    None \<Rightarrow> (lo, NoRoute)
                  | Some route \<Rightarrow>
                      let resource = kv_Workspace route @ ''/'' @ ResourceID route
                      in (case acquireRoute lo (kv_Workspace route) resource of
                            (lo', scope, False) \<Rightarrow> (lo', RejectedRoute scope)
                          | (lo', scope, True) \<Rightarrow>
                              deferring (\<lambda>l. releaseRoute l (kv_Workspace route) resource)
                                (lo', dialKv c dial rcd route)))))"

definition handleKv :: "(string \<Rightarrow> string) \<Rightarrow> nat \<Rightarrow> ip_prefix list \<Rightarrow> kv_router \<Rightarrow> sni_limiter option \<Rightarrow> client
    \<Rightarrow> (string \<Rightarrow> backend option) \<Rightarrow> sni_limiter option \<times> conn_end" where
  "handleKv uni bufsz trusted router lo c dial =
     (case readProxySource bufsz (c_stream c) (c_remote c) trusted of
        Inl e \<Rightarrow> (lo, BadProxyHeader)
      | Inr (source, rest) \<Rightarrow>
          (case acquireSource lo source of
             (lo', False) \<Rightarrow> (lo', RejectedSource)
           | (lo', True) \<Rightarrow>
               deferring (\<lambda>l. releaseSource l source) (routeKv uni router lo' source rest c dial)))"

section \<open>Slots are given back\<close>

definition limiter_tidy :: "sni_limiter option \<Rightarrow> bool" where
  "limiter_tidy lo = (case lo of None \<Rightarrow> True
     | Some l \<Rightarrow> tidy (sl_perSource l) \<and> tidy (sl_perWorkspace l) \<and> tidy (sl_perResource l))"

lemma source_slot_back:
  assumes "acquireSource lo a = (lo', ok)" "limiter_tidy lo"
  shows "limiter_tidy lo'" and "ok \<Longrightarrow> map_option (\<lambda>l. releaseSource l a) lo' = lo" and "\<not> ok \<Longrightarrow> lo' = lo"
proof -
  have "limiter_tidy lo' \<and> (if ok then map_option (\<lambda>l. releaseSource l a) lo' = lo else lo' = lo)"
  proof (cases lo)
    case None
    then show ?thesis using assms by (simp add: acquireSource_def)
  next
    case (Some l)
    then have "tidy (sl_perSource l)" using assms(2) by (simp add: limiter_tidy_def)
    then have "drop_count (bump (sl_perSource l) (unmap a)) (unmap a) = sl_perSource l" by simp
    then show ?thesis
      using assms Some
      by (cases l; cases "sl_maxSource l \<le> 0"; cases "sl_maxSource l \<le> count_of (sl_perSource l) (unmap a)")
        (auto simp: acquireSource_def releaseSource_def limiter_tidy_def tidy_bump)
  qed
  then show "limiter_tidy lo'" "ok \<Longrightarrow> map_option (\<lambda>l. releaseSource l a) lo' = lo" "\<not> ok \<Longrightarrow> lo' = lo"
    by (simp_all split: if_splits)
qed

lemma route_slot_back:
  assumes "acquireRoute lo w r = (lo', scope, True)" "limiter_tidy lo"
  shows "map_option (\<lambda>l. releaseRoute l w r) lo' = lo"
proof (cases lo)
  case None
  then show ?thesis using assms by (simp add: acquireRoute_def)
next
  case (Some l)
  then have "drop_count (bump (sl_perWorkspace l) w) w = sl_perWorkspace l"
    "drop_count (bump (sl_perResource l) r) r = sl_perResource l"
    using assms(2) by (simp_all add: limiter_tidy_def)
  then show ?thesis
    using assms(1) Some
    by (cases l; cases "0 < sl_maxWorkspace l"; cases "0 < sl_maxResource l")
      (auto simp: acquireRoute_def releaseRoute_def split: if_split_asm)
qed

lemma deferring_cases:
  "deferring rel (lo, out) = (lo', out') \<longleftrightarrow> out' = out \<and> lo' = (if spliced out then lo else map_option rel lo)"
  by (auto simp: deferring_def)

lemma deferring_Spliced:
  "deferring rel out = (lo', Spliced b sent left) \<longleftrightarrow> out = (lo', Spliced b sent left)"
  by (cases out) (auto simp: deferring_def)

lemma routePg_back:
  assumes "routePg uni router lo source c dial ssl peek hello = (lo', out)" "limiter_tidy lo" "\<not> spliced out"
  shows "lo' = lo"
  using assms
  by (auto simp: routePg_def Let_def deferring_cases route_slot_back acquireRoute_refused
      split: option.splits sum.splits if_splits prod.splits bool.splits)

lemma preamblePg_back:
  assumes "preamblePg uni router lo source rest c dial = (lo', out)" "limiter_tidy lo" "\<not> spliced out"
  shows "lo' = lo"
  using assms
  by (auto simp: preamblePg_def Let_def routePg_back split: option.splits sum.splits if_splits prod.splits)

lemma routeKv_back:
  assumes "routeKv uni router lo source rest c dial = (lo', out)" "limiter_tidy lo" "\<not> spliced out"
  shows "lo' = lo"
  using assms
  by (auto simp: routeKv_def Let_def deferring_cases route_slot_back acquireRoute_refused
      split: option.splits sum.splits if_splits prod.splits bool.splits)

lemma handlePg_back:
  assumes "limiter_tidy lo" and run: "handlePg uni bufsz trusted router lo c dial = (lo', out)" and "\<not> spliced out"
  shows "lo' = lo"
proof (cases "readProxySource bufsz (c_stream c) (c_remote c) trusted")
  case (Inl e)
  then show ?thesis using run by (simp add: handlePg_def)
next
  case (Inr p)
  obtain source rest where p: "p = (source, rest)" by (cases p)
  obtain lo1 ok where acq: "acquireSource lo source = (lo1, ok)" by (cases "acquireSource lo source")
  show ?thesis
  proof (cases ok)
    case False
    then show ?thesis using run Inr p acq source_slot_back(3) [OF acq assms(1)] by (simp add: handlePg_def)
  next
    case True
    obtain lo2 out2 where pre: "preamblePg uni router lo1 source rest c dial = (lo2, out2)"
      by (cases "preamblePg uni router lo1 source rest c dial")
    have "out2 = out \<and> lo' = map_option (\<lambda>l. releaseSource l source) lo2"
      using run Inr p acq True pre assms(3) by (auto simp: handlePg_def deferring_cases)
    then show ?thesis
      using preamblePg_back [OF pre source_slot_back(1) [OF acq assms(1)]] assms(3)
        source_slot_back(2) [OF acq assms(1)] True by simp
  qed
qed

lemma handleKv_back:
  assumes "limiter_tidy lo" and run: "handleKv uni bufsz trusted router lo c dial = (lo', out)" and "\<not> spliced out"
  shows "lo' = lo"
proof (cases "readProxySource bufsz (c_stream c) (c_remote c) trusted")
  case (Inl e)
  then show ?thesis using run by (simp add: handleKv_def)
next
  case (Inr p)
  obtain source rest where p: "p = (source, rest)" by (cases p)
  obtain lo1 ok where acq: "acquireSource lo source = (lo1, ok)" by (cases "acquireSource lo source")
  show ?thesis
  proof (cases ok)
    case False
    then show ?thesis using run Inr p acq source_slot_back(3) [OF acq assms(1)] by (simp add: handleKv_def)
  next
    case True
    obtain lo2 out2 where pre: "routeKv uni router lo1 source rest c dial = (lo2, out2)"
      by (cases "routeKv uni router lo1 source rest c dial")
    have "out2 = out \<and> lo' = map_option (\<lambda>l. releaseSource l source) lo2"
      using run Inr p acq True pre assms(3) by (auto simp: handleKv_def deferring_cases)
    then show ?thesis
      using routeKv_back [OF pre source_slot_back(1) [OF acq assms(1)]] assms(3)
        source_slot_back(2) [OF acq assms(1)] True by simp
  qed
qed

text \<open>No slot leaks. Whatever a client sends to either proxy, a connection that does not reach its
  splice leaves the limiter exactly as it found it.\<close>

theorem rejected_connection_keeps_no_slot:
  assumes "limiter_tidy lo"
    and "handlePg uni bufsz trusted router lo c dial = (lo1, out1)" "\<not> spliced out1"
    and "handleKv uni bufsz trusted krouter lo c dial = (lo2, out2)" "\<not> spliced out2"
  shows "lo1 = lo \<and> lo2 = lo"
  using handlePg_back [OF assms(1-3)] handleKv_back [OF assms(1,4,5)] by simp

definition idle_client :: client where
  "idle_client = \<lparr>c_stream = [], c_remote = ''10.0.0.9:1'', c_pulled = 0, c_writable = True\<rparr>"

theorem rejected_connection_keeps_no_slot_witness:
  "handlePg id 4096 [] (newRouter id ''db.x'') (Some (newLimiter 4 2)) idle_client (\<lambda>b. None)
     = (Some (newLimiter 4 2), BadProxyHeader)"
proof -
  have tidy: "limiter_tidy (Some (newLimiter 4 2))"
    by (simp add: limiter_tidy_def newLimiter_def tidy_empty)
  have bad: "readProxySource 4096 (c_stream idle_client) (c_remote idle_client) [] = Inl NoPrefix"
    by (simp add: readProxySource_def idle_client_def remoteIP_def split_host_def ip_eval)
  obtain lo1 lo2 where pg: "handlePg id 4096 [] (newRouter id ''db.x'') (Some (newLimiter 4 2)) idle_client (\<lambda>b. None)
      = (lo1, BadProxyHeader)"
    and kv: "handleKv id 4096 [] (newKvRouter ''kv.x'') (Some (newLimiter 4 2)) idle_client (\<lambda>b. None)
      = (lo2, BadProxyHeader)"
    by (simp add: handlePg_def handleKv_def bad)
  show ?thesis using rejected_connection_keeps_no_slot [OF tidy pg _ kv] pg by simp
qed

section \<open>What a spliced connection went through\<close>


lemma routeKv_spliced:
  assumes "routeKv uni router lo source rest c dial = (lo', Spliced b sent left)"
  obtains sni route scope rest1 where "readTLSRecord rest [] = Inr (sent, rest1)" "extractSNI sent = Some (Inr sni)"
    "resolveKv uni router (bytes_str sni) source = Some route"
    "acquireRoute lo (kv_Workspace route) (kv_Workspace route @ ''/'' @ ResourceID route) = (lo', scope, True)"
    "b = kv_Backend route" "left = drop (c_pulled c) (c_stream c)"
  using assms
  by (auto simp: routeKv_def Let_def deferring_cases dialKv_def
      split: option.splits sum.splits if_split_asm prod.splits bool.splits)



lemma handleKv_spliced:
  assumes "handleKv uni bufsz trusted router lo c dial = (lo', Spliced b sent left)"
  obtains source rest lo1 route sni scope post where
    "readProxySource bufsz (c_stream c) (c_remote c) trusted = Inr (source, rest)"
    "acquireSource lo source = (lo1, True)"
    "resolveKv uni router (bytes_str sni) source = Some route" "b = kv_Backend route"
    "acquireRoute lo1 (kv_Workspace route) (kv_Workspace route @ ''/'' @ ResourceID route) = (lo', scope, True)"
    "rest = sent @ post" "left = drop (c_pulled c) (c_stream c)"
proof -
  obtain source rest lo1 where src: "readProxySource bufsz (c_stream c) (c_remote c) trusted = Inr (source, rest)"
      "acquireSource lo source = (lo1, True)"
      "routeKv uni router lo1 source rest c dial = (lo', Spliced b sent left)"
    using assms by (auto simp: handleKv_def deferring_Spliced split: sum.splits prod.splits bool.splits)
  obtain sni route scope rest1 where r: "readTLSRecord rest [] = Inr (sent, rest1)" "extractSNI sent = Some (Inr sni)"
    "resolveKv uni router (bytes_str sni) source = Some route"
    "acquireRoute lo1 (kv_Workspace route) (kv_Workspace route @ ''/'' @ ResourceID route) = (lo', scope, True)"
    "b = kv_Backend route" "left = drop (c_pulled c) (c_stream c)"
    using routeKv_spliced [OF src(3)] by metis
  have "rest = sent @ rest1" using readTLSRecord_prefix(1) [OF r(1)] by simp
  then show thesis using that src r by blast
qed

section \<open>A connection to each proxy\<close>

text \<open>A direct TLS client that asks for \<open>pg.db.x\<close>, and one that asks for \<open>kv.kv.x\<close>.\<close>

definition ex_record :: "string \<Rightarrow> bytes" where
  "ex_record host =
     encode_record (encode_hello (replicate 34 7) [] [] [] (encode_ext (0, encode_sni (str_bytes host))))"

definition ex_client :: "string \<Rightarrow> client" where
  "ex_client host = \<lparr>c_stream = ex_record host, c_remote = ''10.0.0.9:1'', c_pulled = 100, c_writable = True\<rparr>"


definition ex_kv :: key_value where
  "ex_kv = \<lparr>k_name = ''kv'', k_namespace = ''ns'', k_workspace = [], k_public = True, k_allow = [],
     k_envAllow = [], k_externalHost = ''kv.kv.x'', k_deleting = False\<rparr>"

lemma ex_record_sni:
  assumes "length host < 1000"
  shows "extractSNI (ex_record host) = Some (Inr (str_bytes host))"
  unfolding ex_record_def
  using assms
  by (intro extractSNI_encode [of "replicate 34 7" "[]" "[]" "[]" _ "[]" _ "[]", OF _ _ _ _ _ _ refl])
    (simp_all add: encode_hello_def encode_ext_def encode_sni_def str_bytes_def)

lemma bytes_str_bytes: "list_all is_ascii s \<Longrightarrow> bytes_str (str_bytes s) = s"
  by (induction s) (auto simp: bytes_str_def str_bytes_def is_ascii_def unat_byte_of_nat)

lemma ex_source: "readProxySource 4096 (c_stream (ex_client host)) (c_remote (ex_client host)) []
    = Inr (IP4 0x0a000009, ex_record host)"
  by (simp add: readProxySource_def ex_client_def ex_record_def encode_record_def detect_def str_bytes_def
      proxyV1Prefix_def proxyV2Signature_def remoteIP_def split_host_def ip_eval unmap_def)

lemma ex_slots:
  "acquireSource (Some (newLimiter 4 2)) (IP4 0x0a000009)
     = (Some ((newLimiter 4 2)\<lparr>sl_perSource := [IP4 0x0a000009 \<mapsto> 1]\<rparr>), True)"
  "acquireRoute (Some ((newLimiter 4 2)\<lparr>sl_perSource := [IP4 0x0a000009 \<mapsto> 1]\<rparr>)) w r
     = (Some ((newLimiter 4 2)\<lparr>sl_perSource := [IP4 0x0a000009 \<mapsto> 1]\<rparr>), [], True)"
  by (simp_all add: acquireSource_def acquireRoute_def newLimiter_def count_of_def bump_def unmap_def)

lemma ex_tls:
  assumes "host = ''pg.db.x'' \<or> host = ''kv.kv.x''"
  shows "readTLSRecord (drop 8 (ex_record host)) (take 8 (ex_record host)) = Inr (ex_record host, [])"
    and "readTLSRecord (ex_record host) [] = Inr (ex_record host, [])"
    and "readFull (ex_record host) 8 = Some (take 8 (ex_record host), drop 8 (ex_record host))"
    and "take 8 (ex_record host) ! 0 = 0x16" and "be_addr (take 4 (take 8 (ex_record host))) \<noteq> 8"
  using assms
  by (auto simp: ex_record_def encode_record_def encode_hello_def encode_ext_def encode_sni_def str_bytes_def
      be16_bytes_def readTLSRecord_def readFull_def TLSHandshakeType_def MaxClientHello_def be16_def be_addr_def
      replicate_numeral_unfold)





text \<open>The key-value front door is safe end to end, in the same sense.\<close>

theorem kv_front_door_safe:
  assumes "handleKv uni bufsz trusted (kw_router (foldl (reconcileKv fold_eq) (newKvWatcher dm) evs)) lo c dial
      = (lo', Spliced b sent left)"
  shows "\<exists>source rest lo1 scope kv route sni post.
    readProxySource bufsz (c_stream c) (c_remote c) trusted = Inr (source, rest)
    \<and> view k_name evs (ResourceID route) = Some kv
    \<and> servesKv uni fold_eq dm sni source kv \<and> route_for kv route \<and> b = kv_Backend route
    \<and> acquireSource lo source = (lo1, True)
    \<and> acquireRoute lo1 (kv_Workspace route) (kv_Workspace route @ ''/'' @ ResourceID route) = (lo', scope, True)
    \<and> rest = sent @ post"
  using assms
proof (rule handleKv_spliced)
  fix source rest lo1 route sni scope post
  assume h: "readProxySource bufsz (c_stream c) (c_remote c) trusted = Inr (source, rest)"
    "acquireSource lo source = (lo1, True)"
    "resolveKv uni (kw_router (foldl (reconcileKv fold_eq) (newKvWatcher dm) evs)) (bytes_str sni) source = Some route"
    "b = kv_Backend route"
    "acquireRoute lo1 (kv_Workspace route) (kv_Workspace route @ ''/'' @ ResourceID route) = (lo', scope, True)"
    "rest = sent @ post"
  from kv_resolve_refines [where uni = uni and fold_eq = fold_eq and dm = dm and evs = evs and sni = "bytes_str sni" and source = source] h(3)
  obtain kv where "view k_name evs (ResourceID route) = Some kv"
    "servesKv uni fold_eq dm (bytes_str sni) source kv" "route_for kv route" by auto
  with h show ?thesis by blast
qed

lemma ex_kv_resolve:
  "resolveKv id (kw_router (foldl (reconcileKv (=)) (newKvWatcher ''kv.x'') [Fetched ex_kv])) ''kv.kv.x'' (IP4 0x0a000009)
     = Some \<lparr>ResourceID = ''kv'', kv_Workspace = ''ns'', kv_Backend = ''kv.ns.svc.cluster.local:6380'',
         kv_Allow = [], kv_EnvAllow = []\<rparr>"
  by (simp add: newKvWatcher_def newKvRouter_def setKv_def ex_kv_def parseAllowList_def equal_fold_def resolveKv_def
      to_lower_def is_ascii_def ascii_lower_def trim_suffix_def cut_suffix_def ends_with_def less_char_def
      less_eq_char_def allowedBy_def)

lemma ex_kv_spliced:
  "\<exists>lo'. handleKv id 4096 [] (kw_router (foldl (reconcileKv (=)) (newKvWatcher ''kv.x'') [Fetched ex_kv]))
      (Some (newLimiter 4 2)) (ex_client ''kv.kv.x'') (\<lambda>b. Some \<lparr>b_write1 = True, b_reply = [], b_write2 = True\<rparr>)
    = (lo', Spliced ''kv.ns.svc.cluster.local:6380'' (ex_record ''kv.kv.x'') [])"
proof -
  have name: "bytes_str (str_bytes ''kv.kv.x'') = ''kv.kv.x''" "str_bytes ''kv.kv.x'' \<noteq> []"
    by (rule bytes_str_bytes, simp add: is_ascii_def) (simp add: str_bytes_def)
  have sni: "extractSNI (ex_record ''kv.kv.x'') = Some (Inr (str_bytes ''kv.kv.x''))"
    by (rule ex_record_sni) simp
  have left: "drop 100 (ex_record ''kv.kv.x'') = []"
    by (simp add: ex_record_def encode_record_def encode_hello_def encode_ext_def encode_sni_def str_bytes_def)
  show ?thesis
    unfolding handleKv_def ex_source sum.case prod.case ex_slots
    using left
    by (simp add: ex_tls routeKv_def sni name ex_kv_resolve [simplified] ex_slots deferring_def dialKv_def ex_client_def)
qed

theorem kv_front_door_safe_witness:
  "\<exists>source rest kv (route :: kv_route) sni post.
    readProxySource 4096 (c_stream (ex_client ''kv.kv.x'')) (c_remote (ex_client ''kv.kv.x'')) [] = Inr (source, rest)
    \<and> view k_name [Fetched ex_kv] (ResourceID route) = Some kv
    \<and> servesKv id (=) ''kv.x'' sni source kv \<and> rest = ex_record ''kv.kv.x'' @ post"
proof -
  obtain lo' where run: "handleKv id 4096 [] (kw_router (foldl (reconcileKv (=)) (newKvWatcher ''kv.x'') [Fetched ex_kv]))
      (Some (newLimiter 4 2)) (ex_client ''kv.kv.x'') (\<lambda>b. Some \<lparr>b_write1 = True, b_reply = [], b_write2 = True\<rparr>)
    = (lo', Spliced ''kv.ns.svc.cluster.local:6380'' (ex_record ''kv.kv.x'') [])"
    using ex_kv_spliced by blast
  show ?thesis using kv_front_door_safe [OF run] by blast
qed

text \<open>
  What the buffered reader has taken from the socket beyond the ClientHello is lost: the copy reads the
  socket, not the reader. A client whose whole stream \<open>hello @ early\<close> was pulled with its ClientHello
  (one that sends early data in the same segment) has only \<open>hello\<close> forwarded.
\<close>

theorem pg_buffered_bytes_lost:
  assumes "dial (Backend route) = Some b" "b_write2 b" "c_stream c = hello @ early"
    and "c_pulled c = length (c_stream c)"
  shows "dialPg c dial False peek hello route = Spliced (Backend route) hello []"
  using assms by (simp add: dialPg_def)

end
