(* ===== verification/Autoscale.thy ===== *)
theory Autoscale
  imports GoText Complex_Main
begin

text \<open>
  Horizontal autoscaling of a service (\<open>operator/internal/controller/autoscale.go\<close> and the seeding in
  \<open>desiredReplicas\<close> of \<open>app_controller.go\<close>).

  A \<open>float64\<close> is the rational it stands for; \<open>rnd\<close> is the rounding applied after every operation and
  \<open>imp\<close> the value a conversion of an infinite or out-of-range float to \<open>int32\<close> gives, which Go leaves to
  the implementation. Times are nanoseconds; the RFC3339 stamp an annotation holds keeps whole seconds.
  The two annotations that carry a number are strings, as in the code. The \<open>tiers\<close> catalog and
  \<open>resource.ParseQuantity\<close> are parameters.
\<close>

section \<open>Desired replicas\<close>

record autoscaling_spec =
  enabled :: bool
  minReplicas :: int
  maxReplicas :: int
  targetCPUPercent :: "int option"
  targetMemoryPercent :: "int option"

record pod_usage =
  pod :: string
  cpuCores :: rat
  memoryBytes :: rat

definition MaxReplicas :: int where "MaxReplicas = 100"
definition scaleDownStabilizationWindow :: int where "scaleDownStabilizationWindow = 5 * 60 * 1000000000"

definition autoscaleBounds :: "autoscaling_spec \<Rightarrow> int \<times> int" where
  "autoscaleBounds sp =
     (let minR = min (max (minReplicas sp) 1) MaxReplicas;
          maxR = min (max (maxReplicas sp) minR) MaxReplicas
      in (minR, maxR))"

text \<open>\<open>int32(math.Ceil(current * (average / target)))\<close>, the average taken over the pods.\<close>

definition metricDesired :: "(rat \<Rightarrow> rat) \<Rightarrow> int \<Rightarrow> int \<Rightarrow> rat \<Rightarrow> int \<Rightarrow> rat \<Rightarrow> int" where
  "metricDesired rnd imp current tot percent limit =
     (let average = rnd (tot / of_int current);
          target = rnd (rnd (of_int percent / 100) * limit);
          n = \<lceil>rnd (of_int current * rnd (average / target))\<rceil>
      in if target = 0 then imp else if - (2 ^ 31) \<le> n \<and> n < 2 ^ 31 then n else imp)"

definition total_usage :: "(rat \<Rightarrow> rat) \<Rightarrow> (pod_usage \<Rightarrow> rat) \<Rightarrow> pod_usage list \<Rightarrow> rat" where
  "total_usage rnd f us = foldl (\<lambda>acc u. rnd (acc + f u)) 0 us"

definition tierLimits :: "(string \<Rightarrow> (string \<times> string \<times> string) option) \<Rightarrow> (string \<Rightarrow> rat option)
    \<Rightarrow> (string \<Rightarrow> rat option) \<Rightarrow> string \<Rightarrow> rat \<times> rat" where
  "tierLimits resources parseCPU parseMem tier =
     (case resources tier of
        None \<Rightarrow> (0, 0)
      | Some (cpuStr, memStr, rest) \<Rightarrow>
          ((case parseCPU cpuStr of None \<Rightarrow> 0 | Some q \<Rightarrow> q), (case parseMem memStr of None \<Rightarrow> 0 | Some q \<Rightarrow> q)))"

text \<open>The desired count, and whether the pass is to be skipped.\<close>

definition autoscaleDesired :: "(rat \<Rightarrow> rat) \<Rightarrow> int \<Rightarrow> autoscaling_spec option \<Rightarrow> pod_usage list \<Rightarrow> rat \<times> rat
    \<Rightarrow> int \<times> bool" where
  "autoscaleDesired rnd imp sp usage limits =
     (case sp of
        None \<Rightarrow> (0, True)
      | Some a \<Rightarrow>
          if \<not> enabled a \<or> usage = [] then (0, True)
          else
            let minR = fst (autoscaleBounds a); maxR = snd (autoscaleBounds a);
                current = int (length usage);
                cpuLimit = fst limits; memLimit = snd limits;
                cpu = (case targetCPUPercent a of None \<Rightarrow> None
                   | Some p \<Rightarrow> if 0 < cpuLimit
                       then Some (metricDesired rnd imp current (total_usage rnd cpuCores usage) p cpuLimit) else None);
                mem = (case targetMemoryPercent a of None \<Rightarrow> None
                   | Some p \<Rightarrow> if 0 < memLimit
                       then Some (metricDesired rnd imp current (total_usage rnd memoryBytes usage) p memLimit) else None);
                desired0 = (0::int);
                desired1 = (case cpu of None \<Rightarrow> desired0 | Some d \<Rightarrow> if desired0 < d then d else desired0);
                desired2 = (case mem of None \<Rightarrow> desired1 | Some d \<Rightarrow> if desired1 < d then d else desired1)
            in if cpu = None \<and> mem = None then (current, True)
               else
                 let desired3 = (if desired2 < minR then minR else desired2);
                     desired4 = (if maxR < desired3 then maxR else desired3)
                 in (desired4, False))"

section \<open>State kept on the App\<close>

text \<open>\<open>app.bex.co/autoscale-scale-down-at\<close>: absent or empty, unreadable, or a time in whole seconds.\<close>

datatype stamp = NoStamp | Unreadable | StampAt int

datatype transition_state = Started | Ended

record transition =
  fromReplicas :: int
  toReplicas :: int
  tstate :: transition_state
  startedAt :: int
  finishedAt :: "int option"

record scaling =
  scaleDownAt :: stamp
  scaleDownTo :: string
  autoscaleReplicas :: string
  status :: "transition option"

definition scaleDownPending :: "scaling \<Rightarrow> bool" where
  "scaleDownPending s \<longleftrightarrow> scaleDownAt s \<noteq> NoStamp \<or> scaleDownTo s \<noteq> []"

definition clearScaleDownWindow :: "scaling \<Rightarrow> scaling" where
  "clearScaleDownWindow s = s\<lparr>scaleDownAt := NoStamp, scaleDownTo := []\<rparr>"

text \<open>\<open>ok\<close> says whether the one metadata patch of the pass succeeds; a failed patch changes nothing.\<close>

definition settleAutoscaler :: "bool \<Rightarrow> scaling \<Rightarrow> string \<Rightarrow> scaling \<times> bool" where
  "settleAutoscaler ok s count =
     (if \<not> scaleDownPending s \<and> autoscaleReplicas s = count then (s, True)
      else if ok then ((clearScaleDownWindow s)\<lparr>autoscaleReplicas := count\<rparr>, True)
      else (s, False))"

definition endAutoscalingTransition :: "scaling \<Rightarrow> int \<Rightarrow> scaling" where
  "endAutoscalingTransition s now =
     (case status s of
        None \<Rightarrow> s
      | Some t \<Rightarrow>
          if tstate t \<noteq> Started then s
          else s\<lparr>status := Some (t\<lparr>tstate := Ended, finishedAt := Some now\<rparr>)\<rparr>)"

definition completeAutoscalingTransition :: "scaling \<Rightarrow> int \<Rightarrow> int \<Rightarrow> int \<Rightarrow> scaling" where
  "completeAutoscalingTransition s replicas ready now =
     (case status s of
        None \<Rightarrow> s
      | Some t \<Rightarrow>
          if replicas = toReplicas t \<and> toReplicas t \<le> ready then endAutoscalingTransition s now else s)"

definition autoscalingEnabled :: "autoscaling_spec option \<Rightarrow> bool" where
  "autoscalingEnabled sp = (case sp of None \<Rightarrow> False | Some a \<Rightarrow> enabled a)"

definition skipAutoscaling :: "bool \<Rightarrow> autoscaling_spec option \<Rightarrow> int \<Rightarrow> scaling \<Rightarrow> scaling" where
  "skipAutoscaling ok sp now s =
     (let count = (if autoscalingEnabled sp then autoscaleReplicas s else []);
          s1 = (if autoscalingEnabled sp then s else endAutoscalingTransition s now)
      in fst (settleAutoscaler ok s1 count))"

text \<open>What the metrics reader gives: there is none, it fails, or the pods' usage.\<close>

datatype reading = NoReader | ReadFailed | Pods "pod_usage list"

definition stamp_of :: "int \<Rightarrow> stamp" where
  "stamp_of now = StampAt (now div 1000000000)"

definition applyAutoscaling :: "(rat \<Rightarrow> rat) \<Rightarrow> int \<Rightarrow> rat \<times> rat \<Rightarrow> bool \<Rightarrow> reading \<Rightarrow> int \<Rightarrow> autoscaling_spec option
    \<Rightarrow> scaling \<Rightarrow> int \<Rightarrow> int \<times> bool \<times> scaling" where
  "applyAutoscaling rnd imp limits ok reader now sp s current =
     (case reader of
        NoReader \<Rightarrow> (current, False, skipAutoscaling ok sp now s)
      | _ \<Rightarrow>
        (case sp of
           None \<Rightarrow> (current, False, s)
         | Some a \<Rightarrow>
           if \<not> enabled a then (current, False, s)
           else
             (case (case status s of None \<Rightarrow> None | Some t \<Rightarrow> if tstate t = Started then Some t else None) of
                Some t \<Rightarrow> (toReplicas t, True, s)
              | None \<Rightarrow>
                (case reader of
                   Pods usage \<Rightarrow>
                     (case autoscaleDesired rnd imp sp usage limits of
                        (want, True) \<Rightarrow> (current, True, s)
                      | (want, False) \<Rightarrow>
                        let commit = (\<lambda>w.
                              (case settleAutoscaler ok s (show_int w) of
                                 (s1, False) \<Rightarrow> (current, True, s1)
                               | (s1, True) \<Rightarrow>
                                   (w, True, if w \<noteq> current
                                     then s1\<lparr>status := Some \<lparr>fromReplicas = current, toReplicas = w, tstate = Started,
                                            startedAt = now, finishedAt = None\<rparr>\<rparr> else s1)))
                        in if want < current then
                             (case scaleDownAt s of
                                StampAt sec \<Rightarrow>
                                  let ceiling = (case parse_int 32 (scaleDownTo s) of None \<Rightarrow> want | Some n \<Rightarrow> max want n)
                                  in if now - sec * 1000000000 < scaleDownStabilizationWindow then
                                       (current, True,
                                        if show_int ceiling \<noteq> scaleDownTo s \<and> ok
                                        then s\<lparr>scaleDownTo := show_int ceiling\<rparr> else s)
                                     else commit (min (min ceiling current) (snd (autoscaleBounds a)))
                              | _ \<Rightarrow>
                                  (current, True,
                                   if ok then s\<lparr>scaleDownAt := stamp_of now, scaleDownTo := show_int want\<rparr> else s))
                           else commit want)
                 | _ \<Rightarrow> (current, True, s)))))"

text \<open>One reconcile pass: the count is seeded from the annotation, then decided or skipped.\<close>

record pass =
  p_now :: int
  p_spec :: "autoscaling_spec option"
  p_suspended :: bool
  p_reader :: reading
  p_limits :: "rat \<times> rat"
  p_configured :: int
  p_ok :: bool

definition seed :: "scaling \<Rightarrow> int \<Rightarrow> int" where
  "seed s configured =
     (if autoscaleReplicas s = [] then configured
      else case parse_int 32 (autoscaleReplicas s) of None \<Rightarrow> configured | Some n \<Rightarrow> if 0 < n then n else configured)"

definition scalingPass :: "(rat \<Rightarrow> rat) \<Rightarrow> int \<Rightarrow> pass \<Rightarrow> scaling \<Rightarrow> int \<times> bool \<times> scaling" where
  "scalingPass rnd imp p s =
     (if autoscalingEnabled (p_spec p) \<and> \<not> p_suspended p
      then applyAutoscaling rnd imp (p_limits p) (p_ok p) (p_reader p) (p_now p) (p_spec p) s
             (seed s (p_configured p))
      else (p_configured p, False, skipAutoscaling (p_ok p) (p_spec p) (p_now p) s))"

section \<open>Bounds\<close>

lemma autoscaleBounds_range:
  "autoscaleBounds a = (minR, maxR) \<Longrightarrow> 1 \<le> minR \<and> minR \<le> maxR \<and> maxR \<le> MaxReplicas"
  by (auto simp: autoscaleBounds_def Let_def MaxReplicas_def)

lemma autoscaleDesired_range:
  assumes "autoscaleDesired rnd imp (Some a) usage limits = (w, False)"
  shows "fst (autoscaleBounds a) \<le> w \<and> w \<le> snd (autoscaleBounds a)"
proof -
  obtain minR maxR where b: "autoscaleBounds a = (minR, maxR)" by (cases "autoscaleBounds a")
  then have "minR \<le> maxR" by (auto dest: autoscaleBounds_range)
  then show ?thesis using assms b by (auto simp: autoscaleDesired_def Let_def split: if_split_asm)
qed

text \<open>The reading of a pass: what the metrics ask for, when they can be evaluated.\<close>

definition want_of :: "(rat \<Rightarrow> rat) \<Rightarrow> int \<Rightarrow> pass \<Rightarrow> int option" where
  "want_of rnd imp p =
     (case p_reader p of
        Pods usage \<Rightarrow> (case autoscaleDesired rnd imp (p_spec p) usage (p_limits p) of (w, skip) \<Rightarrow> if skip then None else Some w)
      | _ \<Rightarrow> None)"

definition running :: "scaling \<Rightarrow> bool" where
  "running s \<longleftrightarrow> (\<exists>t. status s = Some t \<and> tstate t = Started)"

definition active :: "pass \<Rightarrow> bool" where
  "active p \<longleftrightarrow> autoscalingEnabled (p_spec p) \<and> \<not> p_suspended p \<and> p_reader p \<noteq> NoReader"

lemma want_of_range:
  assumes "want_of rnd imp p = Some w"
  obtains a where "p_spec p = Some a" "fst (autoscaleBounds a) \<le> w" "w \<le> snd (autoscaleBounds a)"
    "1 \<le> w" "w \<le> MaxReplicas"
proof -
  from assms obtain usage where u: "p_reader p = Pods usage"
      "autoscaleDesired rnd imp (p_spec p) usage (p_limits p) = (w, False)"
    by (auto simp: want_of_def split: reading.splits prod.splits if_splits)
  then obtain a where a: "p_spec p = Some a" by (cases "p_spec p") (auto simp: autoscaleDesired_def)
  obtain minR maxR where b: "autoscaleBounds a = (minR, maxR)" by (cases "autoscaleBounds a")
  show thesis
    using autoscaleDesired_range [of rnd imp a usage "p_limits p" w] u a b autoscaleBounds_range [OF b]
    by (intro that [OF a]) auto
qed

text \<open>The four ways an active pass can go.\<close>

definition commit :: "bool \<Rightarrow> scaling \<Rightarrow> int \<Rightarrow> int \<Rightarrow> int \<Rightarrow> int \<times> bool \<times> scaling" where
  "commit ok s current now w =
     (case settleAutoscaler ok s (show_int w) of
        (s1, False) \<Rightarrow> (current, True, s1)
      | (s1, True) \<Rightarrow>
          (w, True, if w \<noteq> current
             then s1\<lparr>status := Some \<lparr>fromReplicas = current, toReplicas = w, tstate = Started,
                    startedAt = now, finishedAt = None\<rparr>\<rparr> else s1))"

definition ceiling_of :: "scaling \<Rightarrow> int \<Rightarrow> int" where
  "ceiling_of s want = (case parse_int 32 (scaleDownTo s) of None \<Rightarrow> want | Some n \<Rightarrow> max want n)"

lemma pass_running:
  assumes "active p" "status s = Some t" "tstate t = Started"
  shows "scalingPass rnd imp p s = (toReplicas t, True, s)"
  using assms
  by (auto simp: scalingPass_def active_def applyAutoscaling_def autoscalingEnabled_def split: reading.splits option.splits)

lemma pass_no_reading:
  assumes "active p" "\<not> running s" "want_of rnd imp p = None"
  shows "scalingPass rnd imp p s = (seed s (p_configured p), True, s)"
  using assms
  by (auto simp: scalingPass_def active_def applyAutoscaling_def autoscalingEnabled_def want_of_def running_def
      split: reading.splits option.splits prod.splits if_splits)

lemma pass_reading:
  assumes "active p" "\<not> running s" "want_of rnd imp p = Some w"
  shows "scalingPass rnd imp p s =
    (if w < seed s (p_configured p) then
       (case scaleDownAt s of
          StampAt sec \<Rightarrow>
            if p_now p - sec * 1000000000 < scaleDownStabilizationWindow then
              (seed s (p_configured p), True,
               if show_int (ceiling_of s w) \<noteq> scaleDownTo s \<and> p_ok p
               then s\<lparr>scaleDownTo := show_int (ceiling_of s w)\<rparr> else s)
            else commit (p_ok p) s (seed s (p_configured p)) (p_now p)
              (min (min (ceiling_of s w) (seed s (p_configured p))) (snd (autoscaleBounds (the (p_spec p)))))
        | _ \<Rightarrow>
            (seed s (p_configured p), True,
             if p_ok p then s\<lparr>scaleDownAt := stamp_of (p_now p), scaleDownTo := show_int w\<rparr> else s))
     else commit (p_ok p) s (seed s (p_configured p)) (p_now p) w)"
proof -
  from assms(3) obtain usage where u: "p_reader p = Pods usage"
      "autoscaleDesired rnd imp (p_spec p) usage (p_limits p) = (w, False)"
    by (auto simp: want_of_def split: reading.splits prod.splits if_splits)
  from assms(1) obtain a where a: "p_spec p = Some a" "enabled a" "\<not> p_suspended p"
    by (auto simp: active_def autoscalingEnabled_def split: option.splits)
  have st: "(case status s of None \<Rightarrow> None | Some t \<Rightarrow> if tstate t = Started then Some t else None) = None"
    using assms(2) by (auto simp: running_def split: option.splits)
  have en: "autoscalingEnabled (p_spec p) \<and> \<not> p_suspended p" using a by (simp add: autoscalingEnabled_def)
  note desired = u(2) [unfolded a(1)]
  show ?thesis
    unfolding scalingPass_def applyAutoscaling_def u(1) a(1) reading.case option.case option.sel st desired prod.case
      Let_def commit_def [symmetric] ceiling_of_def [symmetric]
    using en a by (simp add: autoscalingEnabled_def)
qed

lemma pass_inactive:
  assumes "\<not> active p" "p_ok p" "scalingPass rnd imp p s = (d, rq, s')"
  shows "scaleDownAt s' = NoStamp" "scaleDownTo s' = []"
proof -
  have "s' = skipAutoscaling (p_ok p) (p_spec p) (p_now p) s"
    using assms by (auto simp: scalingPass_def active_def applyAutoscaling_def split: if_split_asm)
  then have "scaleDownAt s' = NoStamp \<and> scaleDownTo s' = []"
    using assms(2)
    by (auto simp: skipAutoscaling_def settleAutoscaler_def scaleDownPending_def clearScaleDownWindow_def
        endAutoscalingTransition_def Let_def split: option.splits)
  then show "scaleDownAt s' = NoStamp" "scaleDownTo s' = []" by simp_all
qed

lemma commit_ok:
  "commit True s current now w = (d, rq, s') \<Longrightarrow> d = w \<and> scaleDownAt s' = NoStamp \<and> scaleDownTo s' = []"
  by (auto simp: commit_def settleAutoscaler_def scaleDownPending_def clearScaleDownWindow_def split: if_split_asm)

section \<open>Properties\<close>

text \<open>The autoscaler never leaves its range. A pass that changes the replica count, with no
  transition under way, picks a count between the bounds of the spec, at least 1 and at most 100,
  whatever the metrics, the rounding of floats, the state of the annotations and the outcome of writes.\<close>

theorem autoscale_in_bounds:
  assumes "active p" "\<not> running s" "scalingPass rnd imp p s = (d, rq, s')" "d \<noteq> seed s (p_configured p)"
  shows "\<exists>a. p_spec p = Some a \<and> fst (autoscaleBounds a) \<le> d \<and> d \<le> snd (autoscaleBounds a)
    \<and> 1 \<le> d \<and> d \<le> MaxReplicas"
proof (cases "want_of rnd imp p")
  case None
  then show ?thesis using assms pass_no_reading [OF assms(1,2) None] by simp
next
  case (Some w)
  from want_of_range [OF Some] obtain a where a: "p_spec p = Some a" "fst (autoscaleBounds a) \<le> w"
      "w \<le> snd (autoscaleBounds a)" "1 \<le> w" "w \<le> MaxReplicas" by blast
  have commits: "d = x" if "commit (p_ok p) s (seed s (p_configured p)) (p_now p) x = (d, rq, s')" for x
    using that assms(4) by (auto simp: commit_def split: prod.splits bool.splits)
  have "w \<le> ceiling_of s w" by (simp add: ceiling_of_def split: option.split)
  obtain minR maxR where b: "autoscaleBounds a = (minR, maxR)" by (cases "autoscaleBounds a")
  note range = autoscaleBounds_range [OF b]
  have "d = w \<or> w < seed s (p_configured p) \<and> d = min (min (ceiling_of s w) (seed s (p_configured p))) maxR"
    using assms(3,4) commits unfolding pass_reading [OF assms(1,2) Some]
    by (auto simp: a(1) b split: if_split_asm stamp.splits)
  then show ?thesis using a b range \<open>w \<le> ceiling_of s w\<close> by (auto simp: min_def)
qed

text \<open>A pass and the state it met.\<close>

fun scalingTrace :: "(rat \<Rightarrow> rat) \<Rightarrow> int \<Rightarrow> scaling \<Rightarrow> pass list \<Rightarrow> (scaling \<times> pass) list" where
  "scalingTrace rnd imp s [] = []"
| "scalingTrace rnd imp s (p # ps) = (s, p) # scalingTrace rnd imp (snd (snd (scalingPass rnd imp p s))) ps"

definition scalingState :: "(rat \<Rightarrow> rat) \<Rightarrow> int \<Rightarrow> scaling \<Rightarrow> pass list \<Rightarrow> scaling" where
  "scalingState rnd imp s ps = foldl (\<lambda>st p. snd (snd (scalingPass rnd imp p st))) s ps"

lemma scalingTrace_snoc:
  "scalingTrace rnd imp s (ps @ [p]) = scalingTrace rnd imp s ps @ [(scalingState rnd imp s ps, p)]"
  by (induction ps arbitrary: s) (simp_all add: scalingState_def)

text \<open>A pass that keeps a scale-down window: it ran, and no reading of it reached the count in force.\<close>

definition held_low :: "(rat \<Rightarrow> rat) \<Rightarrow> int \<Rightarrow> scaling \<times> pass \<Rightarrow> bool" where
  "held_low rnd imp x \<longleftrightarrow> active (snd x)
     \<and> (case want_of rnd imp (snd x) of None \<Rightarrow> True | Some w \<Rightarrow> w < seed (fst x) (p_configured (snd x)))"

definition readings :: "(rat \<Rightarrow> rat) \<Rightarrow> int \<Rightarrow> (scaling \<times> pass) list \<Rightarrow> int set" where
  "readings rnd imp xs = {w. \<exists>x \<in> set xs. want_of rnd imp (snd x) = Some w}"

lemma readings_simps:
  "readings rnd imp (xs @ [x]) = (case want_of rnd imp (snd x) of None \<Rightarrow> {} | Some w \<Rightarrow> {w}) \<union> readings rnd imp xs"
  "readings rnd imp [] = {}"
  by (auto simp: readings_def split: option.splits)

lemma readings_finite: "finite (readings rnd imp xs)"
proof -
  have "readings rnd imp xs \<subseteq> (\<lambda>x. the (want_of rnd imp (snd x))) ` set xs"
    by (force simp: readings_def)
  then show ?thesis by (rule finite_subset) simp
qed

lemma readings_range: "w \<in> readings rnd imp xs \<Longrightarrow> 1 \<le> w \<and> w \<le> MaxReplicas"
  by (auto simp: readings_def elim!: want_of_range)

text \<open>What the window's annotations mean: the passes since its stamp.\<close>

definition window :: "(rat \<Rightarrow> rat) \<Rightarrow> int \<Rightarrow> (scaling \<times> pass) list \<Rightarrow> int \<Rightarrow> string \<Rightarrow> bool" where
  "window rnd imp rs sec recorded \<longleftrightarrow> rs \<noteq> [] \<and> sec = p_now (snd (hd rs)) div 1000000000
     \<and> (\<forall>x \<in> set rs. held_low rnd imp x) \<and> readings rnd imp rs \<noteq> {}
     \<and> recorded = show_int (Max (readings rnd imp rs))"

definition window_inv :: "(rat \<Rightarrow> rat) \<Rightarrow> int \<Rightarrow> (scaling \<times> pass) list \<Rightarrow> scaling \<Rightarrow> bool" where
  "window_inv rnd imp tr s \<longleftrightarrow>
     (case scaleDownAt s of
        NoStamp \<Rightarrow> scaleDownTo s = []
      | Unreadable \<Rightarrow> False
      | StampAt sec \<Rightarrow> \<not> running s \<and> (\<exists>qs rs. tr = qs @ rs \<and> window rnd imp rs sec (scaleDownTo s)))"

lemma window_ceiling:
  assumes "window rnd imp rs sec (scaleDownTo s)" "want_of rnd imp p = Some w"
  shows "ceiling_of s w = Max (readings rnd imp (rs @ [(s', p)]))"
    and "1 \<le> ceiling_of s w" "ceiling_of s w \<le> MaxReplicas"
proof -
  let ?R = "readings rnd imp rs"
  have R: "finite ?R" "?R \<noteq> {}" using assms(1) by (simp_all add: readings_finite window_def)
  then have "1 \<le> Max ?R \<and> Max ?R \<le> MaxReplicas" by (intro readings_range [of _ rnd imp rs] Max_in)
  then have "parse_int 32 (scaleDownTo s) = Some (Max ?R)"
    using assms(1) by (simp add: window_def parse_int_show MaxReplicas_def)
  then have c: "ceiling_of s w = max w (Max ?R)" by (simp add: ceiling_of_def)
  then show eq: "ceiling_of s w = Max (readings rnd imp (rs @ [(s', p)]))"
    using R assms(2) by (simp add: readings_simps)
  have "Max (readings rnd imp (rs @ [(s', p)])) \<in> readings rnd imp (rs @ [(s', p)])"
    using assms(2) by (intro Max_in readings_finite) (simp add: readings_simps)
  then show "1 \<le> ceiling_of s w" "ceiling_of s w \<le> MaxReplicas"
    using readings_range unfolding eq by blast+
qed

lemma window_extend:
  assumes "window rnd imp rs sec recorded" "held_low rnd imp (s, p)"
    and "recorded' = show_int (Max (readings rnd imp (rs @ [(s, p)])))"
  shows "window rnd imp (rs @ [(s, p)]) sec recorded'"
  using assms by (auto simp: window_def readings_simps)

lemma window_inv_step:
  assumes inv: "window_inv rnd imp tr s" and "p_ok p" and run: "scalingPass rnd imp p s = (d, rq, s')"
  shows "window_inv rnd imp (tr @ [(s, p)]) s'"
proof (cases "active p")
  case False
  then show ?thesis using pass_inactive [OF False assms(2) run] by (simp add: window_inv_def)
next
  case True
  note act = this
  show ?thesis
  proof (cases "running s")
    case True
    then have "scaleDownAt s = NoStamp" "s' = s"
      using inv run act by (auto simp: window_inv_def running_def pass_running split: stamp.splits)
    then show ?thesis using inv by (simp add: window_inv_def)
  next
    case False
    note idle = this
    have extend: "window_inv rnd imp (tr @ [(s, p)]) t"
      if "scaleDownAt s = StampAt sec" "scaleDownAt t = StampAt sec" "\<not> running t" "held_low rnd imp (s, p)"
        "\<And>rs. window rnd imp rs sec (scaleDownTo s) \<Longrightarrow> scaleDownTo t = show_int (Max (readings rnd imp (rs @ [(s, p)])))"
      for sec t
      using inv that by (auto simp: window_inv_def) (metis append.assoc window_extend)
    show ?thesis
    proof (cases "want_of rnd imp p")
      case None
      then have s': "s' = s" using run pass_no_reading [OF act idle None] by simp
      have low: "held_low rnd imp (s, p)" using act None by (simp add: held_low_def)
      show ?thesis
      proof (cases "scaleDownAt s")
        case (StampAt sec)
        then show ?thesis unfolding s'
          by (intro extend [of sec] idle low) (auto simp: window_def readings_simps None)
      qed (use inv s' in \<open>simp_all add: window_inv_def\<close>)
    next
      case (Some w)
      note r = run [unfolded pass_reading [OF act idle Some]]
      have clear: "window_inv rnd imp (tr @ [(s, p)]) s'"
        if "commit (p_ok p) s c n x = (d, rq, s')" for c n x
        using commit_ok [of s c n x d rq s'] that assms(2) by (simp add: window_inv_def)
      show ?thesis
      proof (cases "w < seed s (p_configured p)")
        case False
        then show ?thesis using r clear by simp
      next
        case True
        then have low: "held_low rnd imp (s, p)" using act Some by (simp add: held_low_def)
        show ?thesis
        proof (cases "scaleDownAt s")
          case (StampAt sec)
          show ?thesis
          proof (cases "p_now p - sec * 1000000000 < scaleDownStabilizationWindow")
            case True
            then have s': "scaleDownAt s' = StampAt sec" "scaleDownTo s' = show_int (ceiling_of s w)" "status s' = status s"
              using r StampAt \<open>w < seed s (p_configured p)\<close> assms(2) by (auto split: if_split_asm)
            show ?thesis
              using idle s'(3)
              by (intro extend [OF StampAt s'(1) _ low]) (auto simp: running_def s'(2) window_ceiling(1) [OF _ Some, of _ _ _ s])
          next
            case False
            then show ?thesis using r StampAt \<open>w < seed s (p_configured p)\<close> clear by simp
          qed
        next
          case NoStamp
          then have "s' = s\<lparr>scaleDownAt := stamp_of (p_now p), scaleDownTo := show_int w\<rparr>"
            using r True assms(2) by simp
          moreover have "window rnd imp [(s, p)] (p_now p div 1000000000) (show_int w)"
            using low Some readings_simps(1) [of rnd imp "[]" "(s, p)"] by (simp add: window_def readings_simps(2))
          ultimately show ?thesis using idle by (auto simp: window_inv_def stamp_of_def running_def)
        next
          case Unreadable
          then show ?thesis using inv by (simp add: window_inv_def)
        qed
      qed
    qed
  qed
qed

lemma window_inv_run:
  assumes "scaleDownAt s0 = NoStamp" "scaleDownTo s0 = []" "\<forall>p \<in> set ps. p_ok p"
  shows "window_inv rnd imp (scalingTrace rnd imp s0 ps) (scalingState rnd imp s0 ps)"
  using assms(3)
proof (induction ps rule: rev_induct)
  case Nil
  then show ?case using assms(1,2) by (simp add: window_inv_def scalingState_def)
next
  case (snoc p ps)
  then show ?case
    unfolding scalingTrace_snoc
    by (intro window_inv_step [where d = "fst (scalingPass rnd imp p (scalingState rnd imp s0 ps))"
          and rq = "fst (snd (scalingPass rnd imp p (scalingState rnd imp s0 ps)))"])
      (auto simp: scalingState_def)
qed

text \<open>C15: scaling down waits. From a service with no window recorded, and with every metadata write
  succeeding, a pass that lowers the count ends an unbroken run of passes that lasted the five
  minutes of the window (less the second the stamp rounds away), every one of which ran and read less
  than the count in force, or nothing; and it lowers the count only to the highest of their readings,
  within the current count and the maximum.\<close>

theorem scale_down_stabilised:
  assumes "scaleDownAt s0 = NoStamp" "scaleDownTo s0 = []" "\<forall>q \<in> set ps. p_ok q"
    and "s = scalingState rnd imp s0 ps" "active p" "\<not> running s"
    and "scalingPass rnd imp p s = (d, rq, s')" "d < seed s (p_configured p)"
  shows "\<exists>qs rs. scalingTrace rnd imp s0 (ps @ [p]) = qs @ rs \<and> rs \<noteq> []
    \<and> scaleDownStabilizationWindow \<le> p_now p - p_now (snd (hd rs)) div 1000000000 * 1000000000
    \<and> list_all (held_low rnd imp) rs \<and> readings rnd imp rs \<noteq> {}
    \<and> d = min (min (Max (readings rnd imp rs)) (seed s (p_configured p))) (snd (autoscaleBounds (the (p_spec p))))"
proof -
  have inv: "window_inv rnd imp (scalingTrace rnd imp s0 ps) s"
    using window_inv_run [OF assms(1-3)] by (simp add: assms(4))
  obtain w where w: "want_of rnd imp p = Some w"
    using pass_no_reading [OF assms(5,6)] assms(7,8) by (cases "want_of rnd imp p") auto
  note r = assms(7) [unfolded pass_reading [OF assms(5,6) w]]
  have commits: "d = x" if "commit (p_ok p) s (seed s (p_configured p)) (p_now p) x = (d, rq, s')" for x
    using that assms(8) by (auto simp: commit_def split: prod.splits bool.splits)
  have low: "w < seed s (p_configured p)"
    using r assms(8) commits by (auto split: if_split_asm)
  obtain sec where sec: "scaleDownAt s = StampAt sec"
    "\<not> p_now p - sec * 1000000000 < scaleDownStabilizationWindow"
    "d = min (min (ceiling_of s w) (seed s (p_configured p))) (snd (autoscaleBounds (the (p_spec p))))"
    using r low assms(8) commits by (auto split: stamp.splits if_split_asm)
  from inv sec(1) obtain qs rs where tr: "scalingTrace rnd imp s0 ps = qs @ rs" "window rnd imp rs sec (scaleDownTo s)"
    by (auto simp: window_inv_def)
  have held: "held_low rnd imp (s, p)" using assms(5) w low by (simp add: held_low_def)
  have ext: "window rnd imp (rs @ [(s, p)]) sec (show_int (Max (readings rnd imp (rs @ [(s, p)]))))"
    by (rule window_extend [OF tr(2) held refl])
  show ?thesis
    using ext sec tr(1) assms(4) window_ceiling(1) [OF tr(2) w, of s]
    by (intro exI [of _ qs] exI [of _ "rs @ [(s, p)]"])
      (auto simp: scalingTrace_snoc window_def list_all_iff)
qed

subsection \<open>A concrete service\<close>

definition ex_spec :: autoscaling_spec where
  "ex_spec = \<lparr>enabled = True, minReplicas = 1, maxReplicas = 10, targetCPUPercent = Some 50, targetMemoryPercent = None\<rparr>"

definition ex_pass :: "int \<Rightarrow> rat \<Rightarrow> pass" where
  "ex_pass now cpu = \<lparr>p_now = now, p_spec = Some ex_spec, p_suspended = False,
     p_reader = Pods [\<lparr>pod = ''a'', cpuCores = cpu, memoryBytes = 0\<rparr>, \<lparr>pod = ''b'', cpuCores = cpu, memoryBytes = 0\<rparr>],
     p_limits = (1, 0), p_configured = 2, p_ok = True\<rparr>"

definition ex_scaling :: scaling where
  "ex_scaling = \<lparr>scaleDownAt = NoStamp, scaleDownTo = [], autoscaleReplicas = [], status = None\<rparr>"

lemma ceiling_two_fifths: "\<lceil>2 / 5 :: rat\<rceil> = 1"
  by (rule ceiling_unique) simp_all

lemma ex_want: "want_of id 0 (ex_pass now 1) = Some 4" "want_of id 0 (ex_pass now (1/10)) = Some 1"
  by (simp_all add: want_of_def ex_pass_def ex_spec_def autoscaleDesired_def autoscaleBounds_def MaxReplicas_def
      metricDesired_def total_usage_def ceiling_two_fifths)

lemma ex_active: "active (ex_pass now cpu)" "\<not> running ex_scaling" "seed ex_scaling (p_configured (ex_pass now cpu)) = 2"
  by (simp_all add: active_def ex_pass_def ex_spec_def autoscalingEnabled_def running_def ex_scaling_def seed_def)

theorem autoscale_in_bounds_witness:
  "\<exists>s'. scalingPass id 0 (ex_pass 0 1) ex_scaling = (4, True, s')
    \<and> (\<exists>a. p_spec (ex_pass 0 1) = Some a \<and> fst (autoscaleBounds a) \<le> 4 \<and> 4 \<le> snd (autoscaleBounds a))"
proof -
  obtain s' where run: "scalingPass id 0 (ex_pass 0 1) ex_scaling = (4, True, s')"
    unfolding pass_reading [OF ex_active(1,2) ex_want(1)] ex_active(3)
    by (simp add: commit_def settleAutoscaler_def ex_pass_def split: prod.split)
      (simp add: ex_scaling_def scaleDownPending_def show_int_def show_nat.simps)
  show ?thesis using autoscale_in_bounds [OF ex_active(1,2) run] run ex_active(3) by auto
qed

theorem scale_down_stabilised_witness:
  "\<exists>s' rs. scalingPass id 0 (ex_pass 300000000000 (1/10)) (scalingState id 0 ex_scaling [ex_pass 0 (1/10)]) = (1, True, s')
    \<and> rs \<noteq> [] \<and> list_all (held_low id 0) rs"
proof -
  let ?s = "scalingState id 0 ex_scaling [ex_pass 0 (1/10)]"
  have s: "?s = ex_scaling\<lparr>scaleDownAt := StampAt 0, scaleDownTo := show_int 1\<rparr>"
    unfolding scalingState_def foldl.simps pass_reading [OF ex_active(1,2) ex_want(2)] ex_active(3)
    by (simp add: ex_scaling_def ex_pass_def stamp_of_def)
  have idle: "\<not> running ?s" unfolding s by (simp add: running_def ex_scaling_def)
  have seed2: "seed ?s (p_configured (ex_pass 300000000000 (1/10))) = 2"
    unfolding s by (simp add: seed_def ex_scaling_def ex_pass_def)
  have ceil: "ceiling_of ?s 1 = 1" unfolding s by (simp add: ceiling_of_def parse_int_show)
  have bounds: "snd (autoscaleBounds (the (p_spec (ex_pass 300000000000 (1/10))))) = 10"
    by (simp add: ex_pass_def ex_spec_def autoscaleBounds_def MaxReplicas_def)
  obtain s' where run: "scalingPass id 0 (ex_pass 300000000000 (1/10)) ?s = (1, True, s')"
    unfolding pass_reading [OF ex_active(1) idle ex_want(2)] seed2 ceil bounds
    unfolding s by (simp add: commit_def settleAutoscaler_def scaleDownPending_def clearScaleDownWindow_def ex_scaling_def
        ex_pass_def scaleDownStabilizationWindow_def)
  have low: "(1::int) < seed ?s (p_configured (ex_pass 300000000000 (1/10)))" by (simp add: seed2)
  have init: "scaleDownAt ex_scaling = NoStamp" "scaleDownTo ex_scaling = []" "\<forall>q \<in> set [ex_pass 0 (1/10)]. p_ok q"
    by (simp_all add: ex_scaling_def ex_pass_def)
  show ?thesis using scale_down_stabilised [OF init refl ex_active(1) idle run low] run by auto
qed

lemma metricDesired_enough:
  assumes "0 < current" "0 < percent" "0 < lmt" "0 \<le> tot"
    and "tot \<le> (2 ^ 31 - 1) * (of_int percent / 100 * lmt)"
  shows "tot \<le> of_int (metricDesired id imp current tot percent lmt) * (of_int percent / 100 * lmt)"
proof -
  let ?t = "of_int percent / 100 * lmt :: rat"
  have t: "0 < ?t" using assms(2,3) by simp
  have q: "of_int current * (tot / of_int current / ?t) = tot / ?t" using assms(1) by (simp add: field_simps)
  have up: "tot / ?t \<le> 2 ^ 31 - 1" using assms(5) t by (simp add: pos_divide_le_eq)
  then have "\<lceil>tot / ?t\<rceil> \<le> 2 ^ 31 - 1" by (simp add: ceiling_le_iff)
  moreover have "0 \<le> tot / ?t" using assms(4) t by simp
  then have "0 \<le> \<lceil>tot / ?t\<rceil>" by (simp add: zero_le_ceiling)
  ultimately have "metricDesired id imp current tot percent lmt = \<lceil>tot / ?t\<rceil>"
    using t q assms(1-3) by (simp add: metricDesired_def Let_def)
  moreover have "tot / ?t \<le> of_int \<lceil>tot / ?t\<rceil>" by (rule le_of_int_ceiling)
  ultimately show ?thesis using t by (simp only: pos_divide_le_eq)
qed

text \<open>Scaling up is enough. In exact arithmetic, a count chosen below the maximum brings the pods' average
  CPU utilisation to its target or under it.\<close>

theorem autoscale_meets_targets:
  assumes "autoscaleDesired id imp (Some a) usage limits = (d, False)" "d < snd (autoscaleBounds a)"
    and "targetCPUPercent a = Some c" "0 < c" "0 < fst limits" "0 \<le> total_usage id cpuCores usage"
    and "total_usage id cpuCores usage \<le> (2 ^ 31 - 1) * (of_int c / 100 * fst limits)"
  shows "total_usage id cpuCores usage \<le> of_int d * (of_int c / 100 * fst limits)"
proof -
  let ?m = "metricDesired id imp (int (length usage)) (total_usage id cpuCores usage) c (fst limits)"
  have ne: "usage \<noteq> []" "enabled a" using assms(1) by (auto simp: autoscaleDesired_def split: if_split_asm)
  have "?m \<le> d"
    using assms(1-3,5) ne by (auto simp: autoscaleDesired_def Let_def split: option.splits if_split_asm)
  moreover have "total_usage id cpuCores usage \<le> of_int ?m * (of_int c / 100 * fst limits)"
    using assms ne by (intro metricDesired_enough) auto
  moreover have "0 \<le> of_int c / 100 * fst limits" using assms(4,5) by simp
  ultimately show ?thesis by (meson mult_right_mono of_int_le_iff order_trans)
qed

theorem autoscale_meets_targets_witness:
  "autoscaleDesired id 0 (Some ex_spec) [\<lparr>pod = ''a'', cpuCores = 1, memoryBytes = 0\<rparr>] (1, 0) = (2, False)
    \<and> (1::rat) \<le> of_int 2 * (of_int 50 / 100 * 1)"
proof -
  have tot: "total_usage id cpuCores [\<lparr>pod = ''a'', cpuCores = 1, memoryBytes = 0\<rparr>] = 1"
    by (simp add: total_usage_def)
  have run: "autoscaleDesired id 0 (Some ex_spec) [\<lparr>pod = ''a'', cpuCores = 1, memoryBytes = 0\<rparr>] (1, 0) = (2, False)"
    by (simp add: autoscaleDesired_def ex_spec_def autoscaleBounds_def MaxReplicas_def metricDesired_def total_usage_def)
  have "(1::rat) \<le> of_int 2 * (of_int 50 / 100 * 1)"
    using autoscale_meets_targets [OF run, of 50]
    by (simp add: tot ex_spec_def autoscaleBounds_def MaxReplicas_def)
  with run show ?thesis by simp
qed

end
