(* ===== verification/ReleasePlan.thy ===== *)
theory ReleasePlan
  imports GoText
begin

text \<open>
  What a reconcile pass does with an App's release: \<open>operator/internal/controller/release_plan.go\<close> and the
  helpers it reads from \<open>release_identity.go\<close>, \<open>release_config_snapshot.go\<close> and \<open>app_controller.go\<close>. Times
  are nanoseconds, and a zero Go time is \<open>None\<close>. What the executors of a hold learn from the cluster is
  the argument \<open>x\<close> of the loop; whether an App has a pre-deploy step is a field of the App here.
\<close>

section \<open>Facts and plans\<close>

datatype release_act = ActRoll | ActWake | ActGate | ActHoldStep | ActHoldVerdict | ActHoldParked | ActStartServed

datatype rollout_verdict = VerdictNone | VerdictRecorded | VerdictFailed

datatype template_rev = TemplateOther | TemplateServed | TemplateCurrent

record release_facts =
  suspended :: bool
  idle :: bool
  newer :: bool
  servedRuntime :: bool
  wokeForRelease :: bool
  verdict :: rollout_verdict
  fPreDeployPassed :: bool
  fPreDeployFailed :: bool
  tmpl :: template_rev
  scaled :: bool
  ready :: bool
  replicas :: int
  deadlineExceeded :: bool
  deadlineAt :: int
  unavailableSince :: "int option"
  restorable :: bool
  firstReleaseFailed :: bool

record release_plan =
  act :: release_act
  parked :: bool
  autoHibernating :: bool
  stopped :: bool
  facts :: release_facts
  planNow :: int

definition rolloutVerdictGrace :: int where "rolloutVerdictGrace = 2 * 60 * 1000000000"
definition servedWakeBudget :: int where "servedWakeBudget = 5 * 60 * 1000000000"

definition awaitingVerdict :: "release_facts \<Rightarrow> int \<Rightarrow> bool" where
  "awaitingVerdict f now \<longleftrightarrow>
     (if \<not> newer f \<or> verdict f \<noteq> VerdictNone \<or> tmpl f \<noteq> TemplateCurrent \<or> \<not> scaled f then False
      else \<not> deadlineExceeded f \<or> now - deadlineAt f < rolloutVerdictGrace)"

definition servedBudgetSpent :: "release_facts \<Rightarrow> int \<Rightarrow> bool" where
  "servedBudgetSpent f now \<longleftrightarrow>
     (case unavailableSince f of None \<Rightarrow> False | Some since \<Rightarrow> servedWakeBudget < now - since)"

definition nextAct :: "release_plan \<Rightarrow> release_act" where
  "nextAct p =
     (let f = facts p
      in if autoHibernating p \<and> newer f \<and> \<not> wokeForRelease f \<and> verdict f \<noteq> VerdictFailed \<and> \<not> fPreDeployFailed f then ActWake
         else if \<not> servedRuntime f then ActRoll
         else if \<not> fPreDeployPassed f then (if fPreDeployFailed f \<or> parked p then ActHoldStep else ActGate)
         else if verdict f = VerdictFailed \<and> restorable f then ActHoldVerdict
         else if \<not> newer f then ActRoll
         else if parked p then (if restorable f then ActHoldParked else ActRoll)
         else if tmpl f = TemplateServed \<and> \<not> ready f \<and> 0 < replicas f \<and> \<not> servedBudgetSpent f (planNow p) then ActStartServed
         else ActRoll)"

definition planRelease :: "release_facts \<Rightarrow> int \<Rightarrow> release_plan" where
  "planRelease f now =
     (let stop = (firstReleaseFailed f \<and> \<not> suspended f);
          hibernating = (idle f \<and> \<not> suspended f \<and> \<not> stop \<and> \<not> awaitingVerdict f now);
          p = \<lparr>act = ActRoll, parked = suspended f \<or> hibernating, autoHibernating = hibernating,
                stopped = stop, facts = f, planNow = now\<rparr>
      in p\<lparr>act := nextAct p\<rparr>)"

definition deploying :: "release_plan \<Rightarrow> bool" where
  "deploying p \<longleftrightarrow> \<not> parked p \<and> \<not> stopped p"

definition stepPassed :: "release_plan \<Rightarrow> release_plan" where
  "stepPassed p = (let q = p\<lparr>facts := (facts p)\<lparr>fPreDeployPassed := True\<rparr>\<rparr> in q\<lparr>act := nextAct q\<rparr>)"

definition unrestorable :: "release_plan \<Rightarrow> release_plan" where
  "unrestorable p = (let q = p\<lparr>facts := (facts p)\<lparr>restorable := False\<rparr>\<rparr> in q\<lparr>act := nextAct q\<rparr>)"

section \<open>Carrying out a plan\<close>

text \<open>What the executors of one pass meet: the wake stamp is written or not; the pre-deploy step fails to
  run, halts the pass or passes; the served template is unreadable, restored or absent; the serving
  runtime converges or not.\<close>

datatype gate_result = GateErr | GateHalt | GatePassed
datatype restore_result = RestoreErr | Restored | NotRestored

record executors =
  x_stamp :: bool
  x_gate :: gate_result
  x_restore :: restore_result
  x_converge :: bool

text \<open>\<open>held = false\<close> is \<open>Roll\<close>; a hold ends the pass with or without an error.\<close>

datatype hold_out = Roll | Hold release_act | HoldErr release_act

fun holdNewerRelease :: "nat \<Rightarrow> executors \<Rightarrow> release_plan \<Rightarrow> (release_plan \<times> hold_out) option" where
  "holdNewerRelease 0 x p = None"
| "holdNewerRelease (Suc n) x p =
     (case act p of
        ActWake \<Rightarrow> Some (p, if x_stamp x then Hold ActWake else HoldErr ActWake)
      | ActGate \<Rightarrow>
          (case x_gate x of
             GateErr \<Rightarrow> Some (p, HoldErr ActGate)
           | GatePassed \<Rightarrow> holdNewerRelease n x (stepPassed p)
           | GateHalt \<Rightarrow> Some (p, if x_converge x then Hold ActGate else HoldErr ActGate))
      | ActHoldStep \<Rightarrow> Some (p, if x_converge x then Hold ActHoldStep else HoldErr ActHoldStep)
      | ActHoldVerdict \<Rightarrow>
          (case x_restore x of
             RestoreErr \<Rightarrow> Some (p, HoldErr ActHoldVerdict)
           | NotRestored \<Rightarrow> holdNewerRelease n x (unrestorable p)
           | Restored \<Rightarrow> Some (p, if x_converge x then Hold ActHoldVerdict else HoldErr ActHoldVerdict))
      | ActHoldParked \<Rightarrow>
          (case x_restore x of
             RestoreErr \<Rightarrow> Some (p, HoldErr ActHoldParked)
           | NotRestored \<Rightarrow> holdNewerRelease n x (unrestorable p)
           | Restored \<Rightarrow> Some (p, if x_converge x then Hold ActHoldParked else HoldErr ActHoldParked))
      | ActStartServed \<Rightarrow> Some (p, if x_converge x then Hold ActStartServed else HoldErr ActStartServed)
      | ActRoll \<Rightarrow> Some (p, Roll))"

section \<open>Facts of an App\<close>

datatype cond_status = CondTrue | CondFalse | CondUnknown

record condition =
  c_type :: string
  c_status :: cond_status
  c_reason :: string
  c_observed :: int
  c_transition :: int

record pre_deploy =
  pd_generation :: int
  pd_status :: string

record app =
  a_suspended :: bool
  a_type :: string
  a_generation :: int
  a_wakeGeneration :: string
  a_activeRevision :: string
  a_releaseGeneration :: int
  a_observedGeneration :: int
  a_fingerprints :: bool
  a_conditions :: "condition list"
  a_preDeploy :: "pre_deploy option"
  a_hasPreDeployStep :: bool

record deployment =
  dep_revision :: string
  dep_replicas :: "int option"
  dep_generation :: int
  dep_observedGeneration :: int
  dep_ready :: int
  dep_conditions :: "condition list"

text \<open>\<open>meta.FindStatusCondition\<close> and \<open>deploymentCondition\<close>: the first condition of a type.\<close>

fun findCondition :: "'a condition_scheme list \<Rightarrow> string \<Rightarrow> 'a condition_scheme option" where
  "findCondition [] t = None"
| "findCondition (c # cs) t = (if c_type c = t then Some c else findCondition cs t)"

definition revisionGeneration :: "string \<Rightarrow> int option" where
  "revisionGeneration rv =
     (case cut_prefix ''rev-'' rv of
        None \<Rightarrow> None
      | Some raw \<Rightarrow> (case parse_int 64 raw of None \<Rightarrow> None | Some g \<Rightarrow> if 0 < g then Some g else None))"

definition releaseHasServed :: "app \<Rightarrow> bool" where
  "releaseHasServed a \<longleftrightarrow> a_activeRevision a \<noteq> []"

definition activeRevisionGeneration :: "app \<Rightarrow> int" where
  "activeRevisionGeneration a =
     (case revisionGeneration (a_activeRevision a) of
        Some g \<Rightarrow> g
      | None \<Rightarrow> if 0 < a_observedGeneration a then a_observedGeneration a else a_generation a)"

text \<open>\<open>a_fingerprints\<close>: some of the three fingerprints of the status is recorded.\<close>

definition successfulReleaseGeneration :: "app \<Rightarrow> int" where
  "successfulReleaseGeneration a =
     (case revisionGeneration (a_activeRevision a) of
        Some g \<Rightarrow> g
      | None \<Rightarrow>
          if \<not> releaseHasServed a \<and> a_fingerprints a then 0
          else if 0 < a_observedGeneration a then a_observedGeneration a else a_generation a)"

definition releaseGeneration :: "app \<Rightarrow> int" where
  "releaseGeneration a = (if 0 < a_releaseGeneration a then a_releaseGeneration a else activeRevisionGeneration a)"

definition releaseRevision :: "app \<Rightarrow> string" where
  "releaseRevision a = ''rev-'' @ show_int (releaseGeneration a)"

definition newerReleaseUnserved :: "app \<Rightarrow> bool" where
  "newerReleaseUnserved a \<longleftrightarrow> releaseHasServed a \<and> successfulReleaseGeneration a \<noteq> releaseGeneration a"

definition failedRolloutOverServed :: "app \<Rightarrow> bool" where
  "failedRolloutOverServed a \<longleftrightarrow>
     (case findCondition (a_conditions a) ''Rollout'' of
        None \<Rightarrow> False
      | Some c \<Rightarrow> c_status c = CondFalse \<and> c_observed c = releaseGeneration a \<and> c_reason c \<noteq> ''PublishFailed''
          \<and> newerReleaseUnserved a)"

definition currentRolloutVerdict :: "app \<Rightarrow> int \<Rightarrow> rollout_verdict" where
  "currentRolloutVerdict a gen =
     (if failedRolloutOverServed a then VerdictFailed
      else case findCondition (a_conditions a) ''Rollout'' of
             None \<Rightarrow> VerdictNone
           | Some c \<Rightarrow> if c_observed c = gen then VerdictRecorded else VerdictNone)"

definition failedFirstRelease :: "app \<Rightarrow> bool" where
  "failedFirstRelease a \<longleftrightarrow>
     (if releaseHasServed a then False
      else case findCondition (a_conditions a) ''Rollout'' of
             None \<Rightarrow> False
           | Some c \<Rightarrow> c_status c = CondFalse \<and> c_observed c = releaseGeneration a)"

definition preDeployPassed :: "app \<Rightarrow> bool" where
  "preDeployPassed a \<longleftrightarrow>
     (if \<not> a_hasPreDeployStep a then True
      else case a_preDeploy a of None \<Rightarrow> False
           | Some pd \<Rightarrow> pd_generation pd = releaseGeneration a \<and> pd_status pd = ''Succeeded'')"

definition preDeployFailedFor :: "app \<Rightarrow> int \<Rightarrow> bool" where
  "preDeployFailedFor a gen \<longleftrightarrow>
     (case a_preDeploy a of None \<Rightarrow> False | Some pd \<Rightarrow> pd_generation pd = gen \<and> pd_status pd = ''Failed'')"

definition rolloutBudget :: int where "rolloutBudget = 900 * 1000000000"

definition progressDeadlineExceeded :: "deployment \<Rightarrow> int option" where
  "progressDeadlineExceeded d =
     (if dep_observedGeneration d < dep_generation d then None
      else case findCondition (dep_conditions d) ''Progressing'' of
             None \<Rightarrow> None
           | Some c \<Rightarrow> if c_status c = CondFalse \<and> c_reason c = ''ProgressDeadlineExceeded''
               then Some (c_transition c) else None)"

definition scaledUpPastDeadline :: "app \<Rightarrow> deployment \<Rightarrow> int \<Rightarrow> int option" where
  "scaledUpPastDeadline a d clock =
     (if dep_observedGeneration d < dep_generation d \<or> dep_replicas d = None \<or> dep_replicas d = Some 0 then None
      else if dep_revision d \<noteq> releaseRevision a \<or> dep_revision d = a_activeRevision a then None
      else case (findCondition (dep_conditions d) ''Progressing'', findCondition (dep_conditions d) ''Available'') of
             (Some progressing, Some available) \<Rightarrow>
               if c_reason progressing \<noteq> ''NewReplicaSetAvailable'' \<or> c_status available \<noteq> CondFalse then None
               else if clock < c_transition available + rolloutBudget then None
               else Some (c_transition available + rolloutBudget)
           | _ \<Rightarrow> None)"

text \<open>The transition time of the deadline condition, when there is one.\<close>

definition rolloutDeadline :: "app \<Rightarrow> deployment \<Rightarrow> int \<Rightarrow> int option" where
  "rolloutDeadline a d clock =
     (case progressDeadlineExceeded d of Some t \<Rightarrow> Some t | None \<Rightarrow> scaledUpPastDeadline a d clock)"

definition internallyAddressable :: "app \<Rightarrow> bool" where
  "internallyAddressable a \<longleftrightarrow> a_type a = [] \<or> a_type a = ''web_service'' \<or> a_type a = ''private_service''"

text \<open>A Service is read as the ports it exposes.\<close>

record observation =
  o_dep :: "deployment option"
  o_prior :: "int option"

text \<open>\<open>None\<close> is a read error. The port of a background worker is 0.\<close>

definition observeRelease :: "app \<Rightarrow> deployment got \<Rightarrow> int list got \<Rightarrow> observation option" where
  "observeRelease a gdep gsvc =
     (if \<not> releaseHasServed a then Some \<lparr>o_dep = None, o_prior = None\<rparr>
      else case gdep of
             GotErr \<Rightarrow> None
           | GotNone \<Rightarrow> Some \<lparr>o_dep = None, o_prior = None\<rparr>
           | Got d \<Rightarrow>
               if \<not> internallyAddressable a then Some \<lparr>o_dep = Some d, o_prior = Some 0\<rparr>
               else
                 (case gsvc of
                    GotErr \<Rightarrow> None
                  | GotNone \<Rightarrow> Some \<lparr>o_dep = Some d, o_prior = None\<rparr>
                  | Got ports \<Rightarrow> Some \<lparr>o_dep = Some d, o_prior = (case ports of [] \<Rightarrow> None | p # ps \<Rightarrow> Some p)\<rparr>))"

text \<open>\<open>idle\<close> and \<open>replicas\<close> are filled in by the replica plan.\<close>

definition factsOf :: "observation \<Rightarrow> app \<Rightarrow> int \<Rightarrow> release_facts" where
  "factsOf obs a clock =
     (let gen = releaseGeneration a;
          f = \<lparr>suspended = a_suspended a, idle = False, newer = newerReleaseUnserved a,
            servedRuntime = (o_prior obs \<noteq> None), wokeForRelease = (a_wakeGeneration a = show_int gen),
            verdict = currentRolloutVerdict a gen, fPreDeployPassed = preDeployPassed a,
            fPreDeployFailed = preDeployFailedFor a gen, tmpl = TemplateOther, scaled = False, ready = False,
            replicas = 0, deadlineExceeded = False, deadlineAt = 0, unavailableSince = None, restorable = True,
            firstReleaseFailed = failedFirstRelease a\<rparr>
      in case o_dep obs of
           None \<Rightarrow> f
         | Some d \<Rightarrow>
             let f1 = f\<lparr>tmpl := (if dep_revision d = a_activeRevision a then TemplateServed
                              else if dep_revision d = releaseRevision a then TemplateCurrent else TemplateOther),
                   scaled := (case dep_replicas d of None \<Rightarrow> False | Some n \<Rightarrow> 0 < n), ready := 0 < dep_ready d\<rparr>;
                 f2 = (case rolloutDeadline a d clock of None \<Rightarrow> f1
                       | Some t \<Rightarrow> f1\<lparr>deadlineExceeded := True, deadlineAt := t\<rparr>)
             in (case findCondition (dep_conditions d) ''Available'' of
                   None \<Rightarrow> f2
                 | Some c \<Rightarrow> if c_status c = CondFalse then f2\<lparr>unavailableSince := Some (c_transition c)\<rparr> else f2))"

section \<open>Properties of the plan\<close>

lemma factsOf_firstReleaseFailed [simp]: "firstReleaseFailed (factsOf obs a clock) = failedFirstRelease a"
  unfolding factsOf_def Let_def if_distrib [of firstReleaseFailed] option.case_distrib [of firstReleaseFailed]
  unfolding release_facts.simps release_facts.update_convs release_facts.select_convs
    option.case_distrib [of firstReleaseFailed] if_distrib [of firstReleaseFailed]
  by (simp only: if_distrib [of firstReleaseFailed] option.case_distrib [of firstReleaseFailed] release_facts.simps
      if_cancel split: option.split) simp

lemma factsOf_newer [simp]: "newer (factsOf obs a clock) = newerReleaseUnserved a"
  unfolding factsOf_def Let_def if_distrib [of newer] option.case_distrib [of newer]
  unfolding release_facts.simps release_facts.update_convs release_facts.select_convs
    option.case_distrib [of newer] if_distrib [of newer]
  by (simp only: if_distrib [of newer] option.case_distrib [of newer] release_facts.simps
      if_cancel split: option.split) simp

lemma factsOf_suspended [simp]: "suspended (factsOf obs a clock) = a_suspended a"
  unfolding factsOf_def Let_def if_distrib [of suspended] option.case_distrib [of suspended]
  unfolding release_facts.simps release_facts.update_convs release_facts.select_convs
    option.case_distrib [of suspended] if_distrib [of suspended]
  by (simp only: if_distrib [of suspended] option.case_distrib [of suspended] release_facts.simps
      if_cancel split: option.split) simp

lemma planRelease_fields [simp]:
  "facts (planRelease f now) = f" "planNow (planRelease f now) = now"
  "stopped (planRelease f now) = (firstReleaseFailed f \<and> \<not> suspended f)"
  "parked (planRelease f now) = (suspended f \<or> autoHibernating (planRelease f now))"
  by (simp_all add: planRelease_def Let_def)

lemma nextAct_act [simp]: "nextAct (p\<lparr>act := a\<rparr>) = nextAct p"
  by (simp add: nextAct_def Let_def)

lemma act_planRelease: "act (planRelease f now) = nextAct (planRelease f now)"
proof -
  obtain p where "planRelease f now = p\<lparr>act := nextAct p\<rparr>"
    unfolding planRelease_def Let_def by blast
  then show ?thesis by simp
qed

lemma autoHibernating_iff:
  "autoHibernating (planRelease f now) \<longleftrightarrow>
     idle f \<and> \<not> suspended f \<and> \<not> firstReleaseFailed f \<and> \<not> awaitingVerdict f now"
  by (auto simp: planRelease_def Let_def)

text \<open>A plan whose act is the one its facts ask for; every plan of a pass is one.\<close>

definition planned :: "release_plan \<Rightarrow> bool" where
  "planned p \<longleftrightarrow> act p = nextAct p"

lemma planned_simps [simp]: "planned (planRelease f now)" "planned (stepPassed p)" "planned (unrestorable p)"
  by (simp_all add: planned_def act_planRelease stepPassed_def unrestorable_def Let_def)

text \<open>How many facts a pass can still learn.\<close>

definition learnable :: "release_plan \<Rightarrow> nat" where
  "learnable p = (if fPreDeployPassed (facts p) then 0 else 1) + (if restorable (facts p) then 1 else 0)"

lemma learning_removes_act:
  assumes "planned p"
  shows "act p = ActGate \<Longrightarrow> learnable (stepPassed p) < learnable p"
    and "act p = ActHoldVerdict \<or> act p = ActHoldParked \<Longrightarrow> learnable (unrestorable p) < learnable p"
proof -
  have gate: "nextAct p = ActGate \<Longrightarrow> \<not> fPreDeployPassed (facts p)"
    and hold: "nextAct p = ActHoldVerdict \<or> nextAct p = ActHoldParked \<Longrightarrow> restorable (facts p)"
    by (auto simp: nextAct_def Let_def split: if_split_asm)
  show "act p = ActGate \<Longrightarrow> learnable (stepPassed p) < learnable p"
    using gate assms by (auto simp: planned_def learnable_def stepPassed_def Let_def)
  show "act p = ActHoldVerdict \<or> act p = ActHoldParked \<Longrightarrow> learnable (unrestorable p) < learnable p"
    using hold assms by (auto simp: planned_def learnable_def unrestorable_def Let_def)
qed

lemma holdNewerRelease_enough: "planned p \<Longrightarrow> learnable p < n \<Longrightarrow> holdNewerRelease n x p \<noteq> None"
proof (induction n x p rule: holdNewerRelease.induct)
  case (2 n x p)
  have "act p = ActGate \<Longrightarrow> holdNewerRelease n x (stepPassed p) \<noteq> None" if "x_gate x = GatePassed"
    using 2(1) [OF _ that] learning_removes_act(1) [OF 2(4)] 2(5) by fastforce
  moreover have "act p = ActHoldVerdict \<Longrightarrow> holdNewerRelease n x (unrestorable p) \<noteq> None" if "x_restore x = NotRestored"
    using 2(2) [OF _ that] learning_removes_act(2) [OF 2(4)] 2(5) by fastforce
  moreover have "act p = ActHoldParked \<Longrightarrow> holdNewerRelease n x (unrestorable p) \<noteq> None" if "x_restore x = NotRestored"
    using 2(3) [OF _ that] learning_removes_act(2) [OF 2(4)] 2(5) by fastforce
  ultimately show ?case
    by (simp split: release_act.split gate_result.split restore_result.split)
qed simp

text \<open>C25: the loop that carries a plan out plans at most three times, whatever the executors meet.\<close>

theorem release_loop_terminates: "\<exists>out. holdNewerRelease 3 x (planRelease f now) = Some out"
proof -
  have "holdNewerRelease 3 x (planRelease f now) \<noteq> None"
    by (rule holdNewerRelease_enough) (simp_all add: learnable_def)
  then show ?thesis by auto
qed

text \<open>What is known when a pass hands over to the rollout.\<close>

definition roll_allowed :: "executors \<Rightarrow> release_plan \<Rightarrow> bool" where
  "roll_allowed x p \<longleftrightarrow>
     (let f = facts p; kept = (restorable f \<and> x_restore x \<noteq> NotRestored)
      in (fPreDeployPassed f \<or> \<not> fPreDeployFailed f \<and> \<not> parked p \<and> x_gate x = GatePassed)
         \<and> \<not> (verdict f = VerdictFailed \<and> kept) \<and> \<not> (parked p \<and> kept)
         \<and> \<not> (\<not> parked p \<and> tmpl f = TemplateServed \<and> \<not> ready f \<and> 0 < replicas f \<and> \<not> servedBudgetSpent f (planNow p)))"

lemma holdNewerRelease_roll:
  assumes "planned p" "holdNewerRelease n x p = Some (q, Roll)" "servedRuntime (facts p)" "newer (facts p)"
  shows "roll_allowed x p"
  using assms
proof (induction n x p rule: holdNewerRelease.induct)
  case (2 n x p)
  show ?case
  proof (cases "act p")
    case ActRoll
    then show ?thesis using 2(4,6,7)
      by (auto simp: planned_def roll_allowed_def nextAct_def Let_def split: if_split_asm)
  next
    case ActGate
    then have g: "x_gate x = GatePassed" "holdNewerRelease n x (stepPassed p) = Some (q, Roll)"
      using 2(5) by (auto split: gate_result.splits if_split_asm)
    have "roll_allowed x (stepPassed p)"
      by (rule 2(1) [OF ActGate g(1) planned_simps(2) g(2)]) (use 2(6,7) in \<open>simp_all add: stepPassed_def Let_def\<close>)
    moreover have "\<not> fPreDeployPassed (facts p) \<and> \<not> fPreDeployFailed (facts p) \<and> \<not> parked p"
      using ActGate 2(4) by (auto simp: planned_def nextAct_def Let_def split: if_split_asm)
    ultimately show ?thesis using g(1) by (simp add: roll_allowed_def stepPassed_def servedBudgetSpent_def Let_def)
  next
    case ActHoldVerdict
    then have r: "x_restore x = NotRestored" "holdNewerRelease n x (unrestorable p) = Some (q, Roll)"
      using 2(5) by (auto split: restore_result.splits if_split_asm)
    have "roll_allowed x (unrestorable p)"
      by (rule 2(2) [OF ActHoldVerdict r(1) planned_simps(3) r(2)]) (use 2(6,7) in \<open>simp_all add: unrestorable_def Let_def\<close>)
    then show ?thesis using r(1) by (auto simp: roll_allowed_def unrestorable_def Let_def servedBudgetSpent_def)
  next
    case ActHoldParked
    then have r: "x_restore x = NotRestored" "holdNewerRelease n x (unrestorable p) = Some (q, Roll)"
      using 2(5) by (auto split: restore_result.splits if_split_asm)
    have "roll_allowed x (unrestorable p)"
      by (rule 2(3) [OF ActHoldParked r(1) planned_simps(3) r(2)]) (use 2(6,7) in \<open>simp_all add: unrestorable_def Let_def\<close>)
    then show ?thesis using r(1) by (auto simp: roll_allowed_def unrestorable_def Let_def servedBudgetSpent_def)
  qed (use 2(5) in \<open>auto split: if_split_asm\<close>)
qed simp

text \<open>C17: a serving release is kept until the newer one may take over. When a pass rolls the newer release
  over a release that has a runtime, its pre-deploy step has passed, before or, on a pass that does not park and
  a step that had not failed, during the pass; and if its rollout had settled
  failed, or the pass parks, there was no served template to keep; and on a pass that does not park, whether its step passed
  before or during the pass and whatever its rollout's verdict, a Deployment that asks for pods of the served template and
  has none ready has had its budget to start them.\<close>

theorem release_rolls_only_when_allowed:
  assumes "holdNewerRelease 3 x (planRelease f now) = Some (q, Roll)" "servedRuntime f" "newer f"
  shows "(fPreDeployPassed f \<or> \<not> fPreDeployFailed f \<and> \<not> parked (planRelease f now) \<and> x_gate x = GatePassed)
    \<and> (restorable f \<and> x_restore x \<noteq> NotRestored \<longrightarrow> verdict f \<noteq> VerdictFailed \<and> \<not> parked (planRelease f now))
    \<and> (\<not> parked (planRelease f now) \<and> tmpl f = TemplateServed \<and> \<not> ready f \<and> 0 < replicas f \<longrightarrow> servedBudgetSpent f now)"
  using holdNewerRelease_roll [OF planned_simps(1) assms(1)] assms(2,3)
  by (auto simp: roll_allowed_def Let_def)

definition ex_facts :: release_facts where
  "ex_facts = \<lparr>suspended = False, idle = False, newer = True, servedRuntime = True, wokeForRelease = False,
     verdict = VerdictNone, fPreDeployPassed = False, fPreDeployFailed = False, tmpl = TemplateServed, scaled = True,
     ready = True, replicas = 1, deadlineExceeded = False, deadlineAt = 0, unavailableSince = None,
     restorable = True, firstReleaseFailed = False\<rparr>"

theorem release_rolls_only_when_allowed_witness:
  "\<exists>q. holdNewerRelease 3 \<lparr>x_stamp = True, x_gate = GatePassed, x_restore = Restored, x_converge = True\<rparr>
     (planRelease ex_facts 0) = Some (q, Roll) \<and> verdict ex_facts \<noteq> VerdictFailed"
proof -
  let ?x = "\<lparr>x_stamp = True, x_gate = GatePassed, x_restore = Restored, x_converge = True\<rparr>"
  obtain q where run: "holdNewerRelease 3 ?x (planRelease ex_facts 0) = Some (q, Roll)"
    by (simp add: numeral_3_eq_3 planRelease_def nextAct_def stepPassed_def ex_facts_def awaitingVerdict_def Let_def)
  have f: "servedRuntime ex_facts" "newer ex_facts" "restorable ex_facts" by (simp_all add: ex_facts_def)
  show ?thesis using release_rolls_only_when_allowed [OF run f(1,2)] run f(3) by auto
qed

text \<open>An awake release is never held for ever. Once its step has passed, its rollout has not failed
  over a served release, and the served release is ready or has spent its five minutes, an unparked
  pass rolls it.\<close>

theorem release_eventually_rolls:
  assumes "\<not> parked (planRelease f now)" "fPreDeployPassed f" "verdict f \<noteq> VerdictFailed"
    and "ready f \<or> servedBudgetSpent f now"
  shows "holdNewerRelease 1 x (planRelease f now) = Some (planRelease f now, Roll)"
proof -
  have "act (planRelease f now) = ActRoll"
    using assms by (auto simp: act_planRelease nextAct_def Let_def)
  then show ?thesis by simp
qed

theorem release_eventually_rolls_witness:
  "holdNewerRelease 1 \<lparr>x_stamp = True, x_gate = GateErr, x_restore = Restored, x_converge = True\<rparr>
     (planRelease (ex_facts\<lparr>fPreDeployPassed := True\<rparr>) 0)
   = Some (planRelease (ex_facts\<lparr>fPreDeployPassed := True\<rparr>) 0, Roll)"
  by (rule release_eventually_rolls) (simp_all add: ex_facts_def autoHibernating_iff)

text \<open>One wake per release. Once the wake for a release is stamped on the App, no plan wakes it again
  while its release generation stays, whatever else changes.\<close>

theorem release_wakes_once:
  assumes "a_wakeGeneration a = show_int (releaseGeneration a)"
  shows "act (planRelease ((factsOf obs a clock)\<lparr>idle := i, replicas := n\<rparr>) now) \<noteq> ActWake"
proof -
  have "wokeForRelease ((factsOf obs a clock)\<lparr>idle := i, replicas := n\<rparr>)"
    using assms by (simp add: factsOf_def Let_def split: option.split)
  then show ?thesis by (simp add: act_planRelease nextAct_def Let_def)
qed

definition ex_app :: app where
  "ex_app = \<lparr>a_suspended = False, a_type = [], a_generation = 3, a_wakeGeneration = show_int 2, a_activeRevision = ''rev-1'',
     a_releaseGeneration = 2, a_observedGeneration = 3, a_fingerprints = True, a_conditions = [], a_preDeploy = None,
     a_hasPreDeployStep = False\<rparr>"

theorem release_wakes_once_witness:
  "act (planRelease ((factsOf \<lparr>o_dep = None, o_prior = Some 80\<rparr> ex_app 0)\<lparr>idle := True, replicas := 1\<rparr>) 0) \<noteq> ActWake"
  by (rule release_wakes_once) (simp add: ex_app_def releaseGeneration_def)

text \<open>A failed first release is stopped for good. While nothing has served and the release's rollout
  verdict stands, no pass of an unsuspended App stamps Deploying or puts it to sleep.\<close>

theorem failed_first_release_stays_stopped:
  assumes "\<not> releaseHasServed a" "findCondition (a_conditions a) ''Rollout'' = Some c" "c_status c = CondFalse"
    and "c_observed c = releaseGeneration a" "\<not> a_suspended a"
    and "f = (factsOf obs a clock)\<lparr>idle := i, replicas := n\<rparr>"
  shows "stopped (planRelease f now) \<and> \<not> deploying (planRelease f now) \<and> \<not> autoHibernating (planRelease f now)"
proof -
  have "firstReleaseFailed f \<and> \<not> suspended f"
    using assms by (auto simp: factsOf_def failedFirstRelease_def Let_def split: option.split)
  then show ?thesis by (auto simp: deploying_def autoHibernating_iff)
qed

theorem failed_first_release_stays_stopped_witness:
  "\<exists>(a :: app) (f :: release_facts). a_activeRevision a = [] \<and> stopped (planRelease f 0) \<and> \<not> deploying (planRelease f 0)"
proof -
  let ?c = "\<lparr>c_type = ''Rollout'', c_status = CondFalse, c_reason = ''x'', c_observed = 2, c_transition = 0\<rparr>"
  let ?a = "ex_app\<lparr>a_activeRevision := [], a_conditions := [?c]\<rparr>"
  have h: "\<not> releaseHasServed ?a" "findCondition (a_conditions ?a) ''Rollout'' = Some ?c" "c_status ?c = CondFalse"
    "c_observed ?c = releaseGeneration ?a" "\<not> a_suspended ?a"
    by (simp_all add: releaseHasServed_def releaseGeneration_def ex_app_def)
  have "a_activeRevision ?a = []" by simp
  with failed_first_release_stays_stopped [OF h refl, where obs = "\<lparr>o_dep = None, o_prior = None\<rparr>"
      and clock = 0 and i = True and n = 1 and now = 0] show ?thesis
    by blast
qed

end
