(* ===== verification/DrainGuard.thy ===== *)
theory DrainGuard
  imports Bex_Prelude
begin

text \<open>
  The drain guard (\<open>operator/internal/drainguard/drainguard.go\<close>): the CAPI pre-drain hook on guarded Machines,
  the hold of a deleting Machine until no App on its node is at risk, and the hand-over of a node the
  cluster autoscaler marks. The cluster is a record of what the API server holds; \<open>fails\<close> says which
  API calls of the pass return an error. Times are nanoseconds; logs are left out.
\<close>

section \<open>The cluster\<close>

datatype pod_cond = PodReadyTrue | PodReadyOther | OtherCond

record pod =
  pod_ns :: string
  pod_app :: "string option"
  pod_node :: string
  pod_deleting :: bool
  pod_controller :: "string option"
  pod_conds :: "pod_cond list"

type_synonym app_key = "string \<times> string"

record deploy =
  dp_evacuatedFrom :: "string option"
  dp_selector :: "string option"
  dp_recreate :: bool
  dp_replicas :: "int option"
  dp_generation :: int
  dp_observed :: int
  dp_updated :: int
  dp_statusReplicas :: int

record node =
  nd_unschedulable :: bool
  nd_taints :: "string list"
  nd_conds :: "pod_cond list"

record machine =
  mc_node :: string
  mc_hook :: bool
  mc_deletedAt :: "int option"
  mc_guarded :: bool

record cluster =
  cl_nodes :: "string \<Rightarrow> node option"
  cl_deploys :: "app_key \<Rightarrow> deploy option"
  cl_pods :: "pod list"
  cl_machines :: "string \<Rightarrow> machine option"
  cl_machineNames :: "string list"

text \<open>The API calls that may fail.\<close>

datatype api_call = GetMachine | PatchMachine | GetNode | PatchNode | ListNodePods | GetDeploy app_key
  | ListAppPods app_key | PatchDeploy app_key | ListMachines

datatype pass_end = Finished | RequeueAfter int | Failed api_call

definition recheck :: int where "recheck = 5 * 1000000000"
definition ScaleDownTaint :: string where "ScaleDownTaint = ''ToBeDeletedByClusterAutoscaler''"

section \<open>Pods, Deployments and nodes\<close>

text \<open>The first \<open>Ready\<close> condition decides.\<close>

fun ready_cond :: "pod_cond list \<Rightarrow> bool" where
  "ready_cond [] \<longleftrightarrow> False"
| "ready_cond (PodReadyTrue # cs) \<longleftrightarrow> True"
| "ready_cond (PodReadyOther # cs) \<longleftrightarrow> False"
| "ready_cond (OtherCond # cs) \<longleftrightarrow> ready_cond cs"

definition ownedByReplicaSet :: "pod \<Rightarrow> bool" where
  "ownedByReplicaSet p \<longleftrightarrow> pod_controller p = Some ''ReplicaSet''"

definition serving :: "pod \<Rightarrow> bool" where
  "serving p \<longleftrightarrow> (if pod_deleting p \<or> \<not> ownedByReplicaSet p then False else ready_cond (pod_conds p))"

definition nodeReady :: "node \<Rightarrow> bool" where
  "nodeReady n \<longleftrightarrow> ready_cond (nd_conds n)"

definition markedForScaleDown :: "node \<Rightarrow> bool" where
  "markedForScaleDown n \<longleftrightarrow> ScaleDownTaint \<in> set (nd_taints n)"

definition rolledOut :: "deploy \<Rightarrow> bool" where
  "rolledOut d \<longleftrightarrow>
     (let want = (case dp_replicas d of None \<Rightarrow> 1 | Some n \<Rightarrow> n)
      in dp_generation d \<le> dp_observed d \<and> dp_updated d = want \<and> dp_statusReplicas d = want)"

section \<open>Apps at risk\<close>

definition served_elsewhere :: "cluster \<Rightarrow> string \<Rightarrow> app_key \<Rightarrow> bool" where
  "served_elsewhere c nd key \<longleftrightarrow>
     list_ex (\<lambda>p. pod_ns p = fst key \<and> pod_app p = Some (snd key) \<and> pod_node p \<noteq> nd \<and> serving p) (cl_pods c)"

fun atRiskFrom :: "(api_call \<Rightarrow> bool) \<Rightarrow> cluster \<Rightarrow> string \<Rightarrow> app_key list \<Rightarrow> pod list
    \<Rightarrow> api_call + (app_key \<times> deploy) list" where
  "atRiskFrom fails c nd seen [] = Inr []"
| "atRiskFrom fails c nd seen (p # ps) =
     (let key = (pod_ns p, (case pod_app p of None \<Rightarrow> [] | Some a \<Rightarrow> a))
      in if key \<in> set seen \<or> \<not> serving p then atRiskFrom fails c nd seen ps
         else if fails (GetDeploy key) then Inl (GetDeploy key)
         else
           (case cl_deploys c key of
              None \<Rightarrow> atRiskFrom fails c nd (key # seen) ps
            | Some d \<Rightarrow>
                if dp_selector d \<noteq> Some (snd key) \<or> dp_recreate d then atRiskFrom fails c nd (key # seen) ps
                else if fails (ListAppPods key) then Inl (ListAppPods key)
                else if \<not> served_elsewhere c nd key
                then rbind (atRiskFrom fails c nd (key # seen) ps) (\<lambda>out. Inr ((key, d) # out))
                else atRiskFrom fails c nd (key # seen) ps))"

definition atRisk :: "(api_call \<Rightarrow> bool) \<Rightarrow> cluster \<Rightarrow> string \<Rightarrow> api_call + (app_key \<times> deploy) list" where
  "atRisk fails c nd =
     (if fails ListNodePods then Inl ListNodePods
      else atRiskFrom fails c nd [] (filter (\<lambda>p. pod_node p = nd \<and> pod_app p \<noteq> None) (cl_pods c)))"

text \<open>The Apps a drain of the node would take down.\<close>

definition taken_down :: "cluster \<Rightarrow> string \<Rightarrow> app_key \<Rightarrow> bool" where
  "taken_down c nd key \<longleftrightarrow>
     (\<exists>p \<in> set (cl_pods c). pod_node p = nd \<and> pod_ns p = fst key \<and> pod_app p = Some (snd key) \<and> serving p)
     \<and> \<not> served_elsewhere c nd key
     \<and> (\<exists>d. cl_deploys c key = Some d \<and> dp_selector d = Some (snd key) \<and> \<not> dp_recreate d)"

section \<open>Evacuation, hold and hand-over\<close>

fun evacuate :: "(api_call \<Rightarrow> bool) \<Rightarrow> string \<Rightarrow> (app_key \<times> deploy) list \<Rightarrow> cluster \<Rightarrow> cluster \<times> api_call option" where
  "evacuate fails nd [] c = (c, None)"
| "evacuate fails nd ((key, d) # rest) c =
     (if dp_evacuatedFrom d = Some nd \<or> \<not> rolledOut d then evacuate fails nd rest c
      else if fails (PatchDeploy key) then (c, Some (PatchDeploy key))
      else evacuate fails nd rest (c\<lparr>cl_deploys := (cl_deploys c)(key \<mapsto> d\<lparr>dp_evacuatedFrom := Some nd\<rparr>)\<rparr>))"

text \<open>A Machine that is gone is no error.\<close>

definition setHook :: "(api_call \<Rightarrow> bool) \<Rightarrow> string \<Rightarrow> bool \<Rightarrow> cluster \<Rightarrow> cluster \<times> pass_end" where
  "setHook fails mc on c =
     (if fails PatchMachine then (c, Failed PatchMachine)
      else case cl_machines c mc of
             None \<Rightarrow> (c, Finished)
           | Some m \<Rightarrow> (c\<lparr>cl_machines := (cl_machines c)(mc \<mapsto> m\<lparr>mc_hook := on\<rparr>)\<rparr>, Finished))"

definition handOff :: "(api_call \<Rightarrow> bool) \<Rightarrow> string \<Rightarrow> (app_key \<times> deploy) list \<Rightarrow> cluster \<Rightarrow> cluster \<times> pass_end" where
  "handOff fails nd risks c =
     (case evacuate fails nd risks c of
        (c', Some e) \<Rightarrow> (c', Failed e)
      | (c', None) \<Rightarrow> (c', RequeueAfter recheck))"

definition hold :: "(api_call \<Rightarrow> bool) \<Rightarrow> int \<Rightarrow> int \<Rightarrow> string \<Rightarrow> machine \<Rightarrow> cluster \<Rightarrow> cluster \<times> pass_end" where
  "hold fails maxHold now mc m c =
     (if mc_node m = [] then setHook fails mc False c
      else if maxHold \<le> now - (case mc_deletedAt m of None \<Rightarrow> 0 | Some t \<Rightarrow> t) then setHook fails mc False c
      else if fails GetNode then (c, Failed GetNode)
      else
        (case cl_nodes c (mc_node m) of
           None \<Rightarrow> setHook fails mc False c
         | Some n \<Rightarrow>
             if \<not> nodeReady n then setHook fails mc False c
             else if \<not> nd_unschedulable n \<and> fails PatchNode then (c, Failed PatchNode)
             else
               let c1 = (if nd_unschedulable n then c
                         else c\<lparr>cl_nodes := (cl_nodes c)(mc_node m \<mapsto> n\<lparr>nd_unschedulable := True\<rparr>)\<rparr>)
               in (case atRisk fails c1 (mc_node m) of
                     Inl e \<Rightarrow> (c1, Failed e)
                   | Inr risks \<Rightarrow>
                       if risks = [] then setHook fails mc False c1
                       else handOff fails (mc_node m) risks c1)))"

definition paced :: "cluster \<times> pass_end \<Rightarrow> cluster \<times> pass_end" where
  "paced out = (case snd out of Failed e \<Rightarrow> (fst out, RequeueAfter recheck) | _ \<Rightarrow> out)"

definition reconcileMachine :: "(api_call \<Rightarrow> bool) \<Rightarrow> int \<Rightarrow> int \<Rightarrow> string \<Rightarrow> cluster \<Rightarrow> cluster \<times> pass_end" where
  "reconcileMachine fails maxHold now mc c =
     (if fails GetMachine then (c, Failed GetMachine)
      else case cl_machines c mc of
             None \<Rightarrow> (c, Finished)
           | Some m \<Rightarrow>
               if mc_deletedAt m \<noteq> None then
                 (if \<not> mc_hook m then (c, Finished) else paced (hold fails maxHold now mc m c))
               else if mc_guarded m \<noteq> mc_hook m then setHook fails mc (mc_guarded m) c
               else (c, Finished))"

text \<open>The list of Machines the selector matches, and whether one of them runs the node.\<close>

definition guardsNode :: "(api_call \<Rightarrow> bool) \<Rightarrow> string \<Rightarrow> cluster \<Rightarrow> api_call + bool" where
  "guardsNode fails nd c =
     (if fails ListMachines then Inl ListMachines
      else Inr (list_ex (\<lambda>mc. case cl_machines c mc of None \<Rightarrow> False | Some m \<Rightarrow> mc_guarded m \<and> mc_node m = nd)
        (cl_machineNames c)))"

definition handOver :: "(api_call \<Rightarrow> bool) \<Rightarrow> string \<Rightarrow> cluster \<Rightarrow> cluster \<times> pass_end" where
  "handOver fails nd c =
     (if fails GetNode then (c, Failed GetNode)
      else case cl_nodes c nd of
             None \<Rightarrow> (c, Finished)
           | Some n \<Rightarrow>
               if \<not> markedForScaleDown n \<or> \<not> nodeReady n then (c, Finished)
               else
                 (case guardsNode fails nd c of
                    Inl e \<Rightarrow> (c, Failed e)
                  | Inr guarded \<Rightarrow>
                      if \<not> guarded then (c, Finished)
                      else
                        (case atRisk fails c nd of
                           Inl e \<Rightarrow> (c, Failed e)
                         | Inr risks \<Rightarrow> if risks = [] then (c, Finished) else handOff fails nd risks c)))"

definition reconcileNode :: "(api_call \<Rightarrow> bool) \<Rightarrow> string \<Rightarrow> cluster \<Rightarrow> cluster \<times> pass_end" where
  "reconcileNode fails nd c = paced (handOver fails nd c)"

section \<open>The list of Apps at risk is exact\<close>

text \<open>A pod list holds a serving pod of the App; the App has no other node and may be rolled.\<close>

definition serves_app :: "pod list \<Rightarrow> app_key \<Rightarrow> bool" where
  "serves_app ps key \<longleftrightarrow> (\<exists>p \<in> set ps. pod_ns p = fst key \<and> pod_app p = Some (snd key) \<and> serving p)"

definition at_stake :: "cluster \<Rightarrow> string \<Rightarrow> app_key \<Rightarrow> bool" where
  "at_stake c nd key \<longleftrightarrow> \<not> served_elsewhere c nd key
     \<and> (\<exists>d. cl_deploys c key = Some d \<and> dp_selector d = Some (snd key) \<and> \<not> dp_recreate d)"

lemma serves_app_Cons:
  "pod_app p = Some a \<Longrightarrow> serves_app (p # ps) key \<longleftrightarrow> (key = (pod_ns p, a) \<and> serving p) \<or> serves_app ps key"
  by (cases key) (auto simp: serves_app_def)

lemma atRiskFrom_exact:
  assumes "atRiskFrom fails c nd seen ps = Inr out" "\<forall>p \<in> set ps. pod_app p \<noteq> None"
  shows "set (map fst out) = {key. key \<notin> set seen \<and> serves_app ps key \<and> at_stake c nd key}
    \<and> (\<forall>x \<in> set out. cl_deploys c (fst x) = Some (snd x)) \<and> distinct (map fst out)"
  using assms
proof (induction ps arbitrary: seen out)
  case Nil
  then show ?case by (simp add: serves_app_def)
next
  case (Cons p ps)
  obtain a where a: "pod_app p = Some a" using Cons.prems(2) by auto
  let ?key = "(pod_ns p, a)"
  have rest: "\<forall>q \<in> set ps. pod_app q \<noteq> None" using Cons.prems(2) by simp
  note in_cons = serves_app_Cons [OF a]
  show ?case
  proof (cases "?key \<in> set seen \<or> \<not> serving p")
    case True
    then have "atRiskFrom fails c nd seen ps = Inr out" using Cons.prems(1) a by simp
    with Cons.IH [OF this rest] True show ?thesis unfolding in_cons by blast
  next
    case False
    note fresh = this
    show ?thesis
    proof (cases "at_stake c nd ?key")
      case True
      then obtain d out' where d: "cl_deploys c ?key = Some d" "out = (?key, d) # out'"
          "atRiskFrom fails c nd (?key # seen) ps = Inr out'"
        using Cons.prems(1) a fresh by (auto simp: at_stake_def rbind_Inr_iff Let_def split: if_split_asm)
      note ih = Cons.IH [OF d(3) rest]
      have "set (map fst out) = insert ?key (set (map fst out'))" using d(2) by simp
      also have "\<dots> = {key. key \<notin> set seen \<and> serves_app (p # ps) key \<and> at_stake c nd key}"
        using ih fresh True unfolding in_cons by auto
      finally have "set (map fst out) = \<dots>" .
      moreover have "?key \<notin> set (map fst out')" using ih by auto
      ultimately show ?thesis using ih d by simp
    next
      case False
      then have "atRiskFrom fails c nd (?key # seen) ps = Inr out"
        using Cons.prems(1) a fresh by (auto simp: at_stake_def Let_def split: option.splits if_split_asm)
      note ih = Cons.IH [OF this rest]
      then show ?thesis using False fresh unfolding in_cons by auto
    qed
  qed
qed

lemma atRisk_exact:
  assumes "atRisk fails c nd = Inr out"
  shows "fst ` set out = {key. taken_down c nd key}"
    and "\<forall>x \<in> set out. cl_deploys c (fst x) = Some (snd x)" and "distinct (map fst out)"
proof -
  let ?ps = "filter (\<lambda>p. pod_node p = nd \<and> pod_app p \<noteq> None) (cl_pods c)"
  have run: "atRiskFrom fails c nd [] ?ps = Inr out"
    using assms by (simp add: atRisk_def split: if_split_asm)
  have app: "\<forall>p \<in> set ?ps. pod_app p \<noteq> None" by simp
  show "fst ` set out = {key. taken_down c nd key}"
    using atRiskFrom_exact [OF run app] by (auto simp: taken_down_def serves_app_def at_stake_def)
  show "\<forall>x \<in> set out. cl_deploys c (fst x) = Some (snd x)" "distinct (map fst out)"
    using atRiskFrom_exact [OF run app] by auto
qed

section \<open>A concrete drain\<close>

definition ex_machine :: machine where
  "ex_machine = \<lparr>mc_node = ''n1'', mc_hook = True, mc_deletedAt = Some 0, mc_guarded = True\<rparr>"

definition ex_deploy :: deploy where
  "ex_deploy = \<lparr>dp_evacuatedFrom = None, dp_selector = Some ''web'', dp_recreate = False, dp_replicas = Some 1,
     dp_generation = 1, dp_observed = 1, dp_updated = 1, dp_statusReplicas = 1\<rparr>"

definition ex_pod :: pod where
  "ex_pod = \<lparr>pod_ns = ''t'', pod_app = Some ''web'', pod_node = ''n1'', pod_deleting = False,
     pod_controller = Some ''ReplicaSet'', pod_conds = [PodReadyTrue]\<rparr>"

text \<open>One App serving from the node of a deleting Machine, or, with no pods, none.\<close>

definition ex_cluster :: "pod list \<Rightarrow> cluster" where
  "ex_cluster ps = \<lparr>cl_nodes = [''n1'' \<mapsto> \<lparr>nd_unschedulable = False, nd_taints = [], nd_conds = [PodReadyTrue]\<rparr>],
     cl_deploys = [(''t'', ''web'') \<mapsto> ex_deploy], cl_pods = ps, cl_machines = [''m'' \<mapsto> ex_machine],
     cl_machineNames = [''m'']\<rparr>"

lemmas ex_drain = ex_cluster_def ex_machine_def ex_pod_def ex_deploy_def reconcileMachine_def hold_def paced_def
  setHook_def nodeReady_def atRisk_def handOff_def recheck_def serving_def ownedByReplicaSet_def served_elsewhere_def
  rolledOut_def

section \<open>Properties\<close>

lemma setHook_result:
  "setHook fails mc on c = (c', out) \<Longrightarrow> cl_deploys c' = cl_deploys c \<and> cl_nodes c' = cl_nodes c \<and> cl_pods c' = cl_pods c"
  by (auto simp: setHook_def split: if_split_asm option.splits)

lemma evacuate_rest:
  "evacuate fails nd risks c = (c', e) \<Longrightarrow> cl_nodes c' = cl_nodes c \<and> cl_pods c' = cl_pods c \<and> cl_machines c' = cl_machines c"
  by (induction risks arbitrary: c) (auto split: if_split_asm)

lemma evacuate_deploys:
  assumes "evacuate fails nd risks c = (c', e)" "\<forall>x \<in> set risks. cl_deploys c (fst x) = Some (snd x)" "distinct (map fst risks)"
  shows "cl_deploys c' key = cl_deploys c key \<or>
    (\<exists>d. (key, d) \<in> set risks \<and> rolledOut d \<and> dp_evacuatedFrom d \<noteq> Some nd
      \<and> cl_deploys c' key = Some (d\<lparr>dp_evacuatedFrom := Some nd\<rparr>))"
  using assms
proof (induction risks arbitrary: c)
  case Nil
  then show ?case by simp
next
  case (Cons x risks)
  obtain k d where x: "x = (k, d)" by (cases x)
  show ?case
  proof (cases "dp_evacuatedFrom d = Some nd \<or> \<not> rolledOut d")
    case True
    then have "evacuate fails nd risks c = (c', e)" using Cons.prems(1) x by simp
    from Cons.IH [OF this] Cons.prems(2,3) show ?thesis by auto
  next
    case False
    note moved = this
    show ?thesis
    proof (cases "fails (PatchDeploy k)")
      case True
      then show ?thesis using Cons.prems(1) x moved by auto
    next
      case False
      let ?c = "c\<lparr>cl_deploys := (cl_deploys c)(k \<mapsto> d\<lparr>dp_evacuatedFrom := Some nd\<rparr>)\<rparr>"
      have run: "evacuate fails nd risks ?c = (c', e)" using Cons.prems(1) x moved False by simp
      have fresh: "\<forall>y \<in> set risks. fst y \<noteq> k" using Cons.prems(3) x by auto
      have "\<forall>y \<in> set risks. cl_deploys ?c (fst y) = Some (snd y)" using Cons.prems(2) fresh by simp
      from Cons.IH [OF run this] Cons.prems(3)
      have "cl_deploys c' key = cl_deploys ?c key \<or> (\<exists>d. (key, d) \<in> set risks \<and> rolledOut d \<and> dp_evacuatedFrom d \<noteq> Some nd
        \<and> cl_deploys c' key = Some (d\<lparr>dp_evacuatedFrom := Some nd\<rparr>))" by simp
      then show ?thesis using moved x by (cases "key = k") auto
    qed
  qed
qed

text \<open>The pass over a deleting, hooked Machine, by how it ends.\<close>

lemma hold_cases:
  assumes "hold fails maxHold now mc m c = (c', out)" "mc_deletedAt m = Some t"
  obtains (released) "setHook fails mc False c = (c', out)"
      "mc_node m = [] \<or> maxHold \<le> now - t \<or> cl_nodes c (mc_node m) = None
       \<or> (\<exists>n. cl_nodes c (mc_node m) = Some n \<and> \<not> nodeReady n)"
    | (failed) e where "out = Failed e" "c' = c"
    | (cordoned) n c1 where "cl_nodes c (mc_node m) = Some n" "nodeReady n"
        "c1 = (if nd_unschedulable n then c
          else c\<lparr>cl_nodes := (cl_nodes c)(mc_node m \<mapsto> n\<lparr>nd_unschedulable := True\<rparr>)\<rparr>)"
        "(case atRisk fails c1 (mc_node m) of Inl e \<Rightarrow> (c1, Failed e)
          | Inr risks \<Rightarrow> if risks = [] then setHook fails mc False c1 else handOff fails (mc_node m) risks c1) = (c', out)"
  using assms unfolding hold_def Let_def by (auto split: if_split_asm option.splits)

lemma reconcileMachine_hold:
  assumes "cl_machines c mc = Some m" "mc_hook m" "mc_deletedAt m = Some t"
    and "reconcileMachine fails maxHold now mc c = (c', out)"
  shows "c' = c \<or> hold fails maxHold now mc m c = (c', snd (hold fails maxHold now mc m c))"
  using assms
  by (cases "hold fails maxHold now mc m c")
    (auto simp: reconcileMachine_def paced_def split: if_split_asm pass_end.splits)

lemma taken_down_nodes: "taken_down (c\<lparr>cl_nodes := x\<rparr>) nd key = taken_down c nd key"
  by (simp add: taken_down_def served_elsewhere_def)

lemma atRisk_cordoned:
  assumes "c1 = (if b then c else c\<lparr>cl_nodes := x\<rparr>)" "atRisk fails c1 nd = Inr risks"
  shows "fst ` set risks = {key. taken_down c nd key}" and "\<forall>x \<in> set risks. cl_deploys c1 (fst x) = Some (snd x)"
    and "distinct (map fst risks)"
  using atRisk_exact [OF assms(2)] assms(1) by (auto simp: taken_down_nodes)

text \<open>C16: the hook is only let go when it is safe. When a pass removes the hook of a deleting Machine, the
  hold has reached its bound, or the Machine has no node, or the node is gone or not Ready, or no App
  would be taken down by draining it: every App Deployment that may overlap two pods and serves from
  the node also serves from another.\<close>

theorem hook_released_only_when_safe:
  assumes "cl_machines c mc = Some m" "mc_hook m" "mc_deletedAt m = Some t"
    and "reconcileMachine fails maxHold now mc c = (c', out)" "cl_machines c' mc = Some m'" "\<not> mc_hook m'"
  shows "maxHold \<le> now - t \<or> mc_node m = [] \<or> cl_nodes c (mc_node m) = None
    \<or> (\<exists>n. cl_nodes c (mc_node m) = Some n \<and> \<not> nodeReady n) \<or> (\<forall>key. \<not> taken_down c (mc_node m) key)"
proof -
  obtain out' where h: "hold fails maxHold now mc m c = (c', out')"
    using reconcileMachine_hold [OF assms(1-4)] assms(1,2,5,6) by auto
  from h assms(3) show ?thesis
  proof (cases rule: hold_cases)
    case (failed e)
    then show ?thesis using assms by simp
  next
    case (cordoned n c1)
    have hook: "cl_machines c1 mc = Some m" using cordoned(3) assms(1) by simp
    obtain risks where r: "atRisk fails c1 (mc_node m) = Inr risks"
      using cordoned(4) hook assms(2,5,6) by (cases "atRisk fails c1 (mc_node m)") auto
    have "risks = []"
    proof (rule ccontr)
      assume "risks \<noteq> []"
      then have "handOff fails (mc_node m) risks c1 = (c', out')" using cordoned(4) r by simp
      then have "cl_machines c' = cl_machines c1"
        using evacuate_rest [of fails "mc_node m" risks c1] by (auto simp: handOff_def split: prod.splits option.splits)
      then show False using hook assms(2,5,6) by simp
    qed
    then show ?thesis using atRisk_cordoned(1) [OF cordoned(3) r] by auto
  qed auto
qed

theorem hook_released_only_when_safe_witness:
  "\<exists>c' m'. reconcileMachine (\<lambda>call. False) 600 0 ''m'' (ex_cluster []) = (c', Finished) \<and> cl_machines c' ''m'' = Some m'
    \<and> \<not> mc_hook m' \<and> \<not> taken_down (ex_cluster []) ''n1'' (''t'', ''web'')"
proof -
  obtain c' m' where run: "reconcileMachine (\<lambda>call. False) 600 0 ''m'' (ex_cluster []) = (c', Finished)"
      "cl_machines c' ''m'' = Some m'" "\<not> mc_hook m'"
    by (simp add: ex_drain)
  have m: "cl_machines (ex_cluster []) ''m'' = Some ex_machine" "mc_hook ex_machine" "mc_deletedAt ex_machine = Some 0"
    by (simp_all add: ex_drain)
  from hook_released_only_when_safe [OF m run] have "\<not> taken_down (ex_cluster []) ''n1'' (''t'', ''web'')"
    by (auto simp: ex_drain)
  with run show ?thesis by blast
qed

text \<open>A hold is bounded. Once a deleting Machine has been held for the maximum, the next pass whose
  API calls succeed removes the hook, whatever its node runs.\<close>

theorem hold_is_bounded:
  assumes "cl_machines c mc = Some m" "mc_deletedAt m = Some t" "maxHold \<le> now - t"
    and "\<not> fails GetMachine" "\<not> fails PatchMachine"
  shows "\<exists>c' m'. reconcileMachine fails maxHold now mc c = (c', Finished)
    \<and> cl_machines c' mc = Some m' \<and> \<not> mc_hook m'"
  using assms by (cases "mc_hook m") (auto simp: reconcileMachine_def hold_def setHook_def paced_def)

theorem hold_is_bounded_witness:
  "\<exists>c' m'. reconcileMachine (\<lambda>call. call = GetNode) 600 600 ''m'' (ex_cluster [ex_pod]) = (c', Finished)
    \<and> cl_machines c' ''m'' = Some m' \<and> \<not> mc_hook m'"
  by (rule hold_is_bounded [where m = ex_machine and t = 0]) (simp_all add: ex_cluster_def ex_machine_def)

text \<open>A drain disturbs only the Apps it would take down. A pass over a deleting Machine changes no
  Deployment but to mark, as evacuated from the node, one that the drain would take down and whose
  rollout has finished, and only once the node is cordoned, so that its replacement cannot land there.\<close>

theorem evacuation_is_targeted:
  assumes "cl_machines c mc = Some m" "mc_deletedAt m = Some t"
    and "reconcileMachine fails maxHold now mc c = (c', out)" "cl_deploys c' key \<noteq> cl_deploys c key"
  shows "taken_down c (mc_node m) key
    \<and> (\<exists>d. cl_deploys c key = Some d \<and> rolledOut d \<and> dp_evacuatedFrom d \<noteq> Some (mc_node m)
         \<and> cl_deploys c' key = Some (d\<lparr>dp_evacuatedFrom := Some (mc_node m)\<rparr>))
    \<and> (\<exists>n. cl_nodes c' (mc_node m) = Some n \<and> nd_unschedulable n)"
proof -
  have hooked: "mc_hook m" using assms by (auto simp: reconcileMachine_def split: if_split_asm)
  obtain out' where h: "hold fails maxHold now mc m c = (c', out')"
    using reconcileMachine_hold [OF assms(1) hooked assms(2,3)] assms(4) by auto
  from h assms(2) show ?thesis
  proof (cases rule: hold_cases)
    case released
    then show ?thesis using setHook_result [OF released(1)] assms(4) by simp
  next
    case (failed e)
    then show ?thesis using assms(4) by simp
  next
    case (cordoned n c1)
    have same: "cl_deploys c1 = cl_deploys c" using cordoned(3) by simp
    have "cl_nodes c1 (mc_node m) = Some (n\<lparr>nd_unschedulable := True\<rparr>)"
      using cordoned(1,3) by (cases n) auto
    then have uns: "\<exists>n. cl_nodes c1 (mc_node m) = Some n \<and> nd_unschedulable n" by simp
    obtain risks where r: "atRisk fails c1 (mc_node m) = Inr risks" "risks \<noteq> []"
      using cordoned(4) assms(4) same setHook_result [of fails mc False c1 c' out']
      by (cases "atRisk fails c1 (mc_node m)") (auto split: if_split_asm)
    obtain e where ev: "evacuate fails (mc_node m) risks c1 = (c', e)"
      using cordoned(4) r by (auto simp: handOff_def split: prod.splits option.splits)
    note risks = atRisk_cordoned [OF cordoned(3) r(1)]
    obtain d where d: "(key, d) \<in> set risks" "rolledOut d" "dp_evacuatedFrom d \<noteq> Some (mc_node m)"
        "cl_deploys c' key = Some (d\<lparr>dp_evacuatedFrom := Some (mc_node m)\<rparr>)"
      using evacuate_deploys [OF ev risks(2,3), of key] assms(4) same by auto
    have "cl_deploys c key = Some d" using risks(2) d(1) same by auto
    moreover have "taken_down c (mc_node m) key" using risks(1) d(1) by force
    moreover have "cl_nodes c' = cl_nodes c1" using evacuate_rest [OF ev] by simp
    ultimately show ?thesis using d uns by auto
  qed
qed

theorem evacuation_is_targeted_witness:
  "\<exists>c' out. reconcileMachine (\<lambda>call. False) 600 0 ''m'' (ex_cluster [ex_pod]) = (c', out)
    \<and> taken_down (ex_cluster [ex_pod]) ''n1'' (''t'', ''web'')
    \<and> cl_deploys c' (''t'', ''web'') = Some (ex_deploy\<lparr>dp_evacuatedFrom := Some ''n1''\<rparr>)"
proof -
  obtain c' out where run: "reconcileMachine (\<lambda>call. False) 600 0 ''m'' (ex_cluster [ex_pod]) = (c', out)"
    by (cases "reconcileMachine (\<lambda>call. False) 600 0 ''m'' (ex_cluster [ex_pod])")
  then have moved: "cl_deploys c' (''t'', ''web'') \<noteq> cl_deploys (ex_cluster [ex_pod]) (''t'', ''web'')"
    by (auto simp: ex_drain)
  have m: "cl_machines (ex_cluster [ex_pod]) ''m'' = Some ex_machine" "mc_deletedAt ex_machine = Some 0"
    "mc_node ex_machine = ''n1''" "cl_deploys (ex_cluster [ex_pod]) (''t'', ''web'') = Some ex_deploy"
    by (simp_all add: ex_cluster_def ex_machine_def)
  from evacuation_is_targeted [OF m(1,2) run moved] run m(3,4) show ?thesis by auto
qed

section \<open>Cluster Autoscaler's scale-down\<close>

lemma atRisk_total:
  assumes "\<forall>call. \<not> fails call"
  shows "\<exists>risks. atRisk fails c nd = Inr risks"
proof -
  have "\<exists>risks. atRiskFrom fails c nd seen ps = Inr risks" for seen ps
  proof (induction ps arbitrary: seen)
    case (Cons p ps)
    from Cons.IH obtain f where f: "\<And>s. atRiskFrom fails c nd s ps = Inr (f s)" by metis
    have no: "fails = (\<lambda>call. False)" using assms by auto
    note f' = f [unfolded no]
    show ?case unfolding no by (auto simp: f' Let_def split: option.split)
  qed simp
  then show ?thesis using assms by (simp add: atRisk_def)
qed

text \<open>The mark the evacuation leaves on a Deployment.\<close>

definition marked :: "string \<Rightarrow> deploy \<Rightarrow> deploy" where
  "marked nd d = (if rolledOut d then d\<lparr>dp_evacuatedFrom := Some nd\<rparr> else d)"

lemma marked_same: "dp_evacuatedFrom d = Some nd \<Longrightarrow> marked nd d = d"
  by (cases d) (simp add: marked_def)

lemma evacuate_total:
  assumes "\<forall>call. \<not> fails call" "\<forall>x \<in> set risks. cl_deploys c (fst x) = Some (snd x)" "distinct (map fst risks)"
  shows "\<exists>c'. evacuate fails nd risks c = (c', None)
    \<and> cl_deploys c' = (\<lambda>key. if key \<in> fst ` set risks then map_option (marked nd) (cl_deploys c key) else cl_deploys c key)"
  using assms
proof (induction risks arbitrary: c)
  case (Cons x rest)
  obtain key d where x: "x = (key, d)" by (cases x)
  have d: "cl_deploys c key = Some d" using Cons.prems(2) by (simp add: x)
  have fresh: "key \<notin> fst ` set rest" using Cons.prems(3) by (simp add: x)
  let ?c1 = "if dp_evacuatedFrom d = Some nd \<or> \<not> rolledOut d then c
    else c\<lparr>cl_deploys := (cl_deploys c)(key \<mapsto> d\<lparr>dp_evacuatedFrom := Some nd\<rparr>)\<rparr>"
  have step: "evacuate fails nd (x # rest) c = evacuate fails nd rest ?c1"
    using Cons.prems(1) by (simp add: x)
  have c1: "cl_deploys ?c1 = (cl_deploys c)(key \<mapsto> marked nd d)"
    using d marked_same [of d nd] by (auto simp: marked_def fun_upd_idem)
  have "\<forall>y \<in> set rest. cl_deploys ?c1 (fst y) = Some (snd y)"
    using Cons.prems(2) fresh unfolding c1 by force
  from Cons.IH [OF assms(1) this] Cons.prems(3) obtain c' where c': "evacuate fails nd rest ?c1 = (c', None)"
    "cl_deploys c' = (\<lambda>k. if k \<in> fst ` set rest then map_option (marked nd) (cl_deploys ?c1 k) else cl_deploys ?c1 k)"
    by auto
  have "cl_deploys c' = (\<lambda>k. if k \<in> fst ` set (x # rest) then map_option (marked nd) (cl_deploys c k) else cl_deploys c k)"
    unfolding c'(2) c1 using fresh d by (auto simp: x fun_eq_iff)
  then show ?case using c'(1) step by auto
qed auto

text \<open>Whether the node is one the hand-over acts on.\<close>

definition leaving :: "cluster \<Rightarrow> string \<Rightarrow> bool" where
  "leaving c nd \<longleftrightarrow> (\<exists>n. cl_nodes c nd = Some n \<and> markedForScaleDown n \<and> nodeReady n)
     \<and> (\<exists>mc \<in> set (cl_machineNames c). \<exists>m. cl_machines c mc = Some m \<and> mc_guarded m \<and> mc_node m = nd)"

lemma guardsNode_iff:
  "\<not> fails ListMachines \<Longrightarrow> guardsNode fails nd c = Inr (\<exists>mc \<in> set (cl_machineNames c). \<exists>m. cl_machines c mc = Some m \<and> mc_guarded m \<and> mc_node m = nd)"
  by (force simp: guardsNode_def list_ex_iff split: option.splits)

lemma handOver_exact:
  assumes ok: "\<forall>call. \<not> fails call"
  shows "\<exists>c'. reconcileNode fails nd c = (c', if leaving c nd \<and> (\<exists>key. taken_down c nd key) then RequeueAfter recheck else Finished)
    \<and> cl_deploys c' = (\<lambda>key. if leaving c nd \<and> taken_down c nd key then map_option (marked nd) (cl_deploys c key) else cl_deploys c key)"
proof (cases "leaving c nd")
  case False
  then have "handOver fails nd c = (c, Finished)"
    using ok by (auto simp: handOver_def leaving_def guardsNode_iff split: option.split)
  then show ?thesis using False by (simp add: reconcileNode_def paced_def)
next
  case True
  obtain risks where r: "atRisk fails c nd = Inr risks" using atRisk_total [OF ok] by blast
  note exact = atRisk_exact [OF r]
  have step: "handOver fails nd c = (if risks = [] then (c, Finished) else handOff fails nd risks c)"
  proof -
    obtain n where n: "cl_nodes c nd = Some n" "markedForScaleDown n" "nodeReady n" using True by (auto simp: leaving_def)
    have "guardsNode fails nd c = Inr True" using True ok guardsNode_iff [of fails nd c] by (simp add: leaving_def)
    then show ?thesis using n ok r by (simp add: handOver_def)
  qed
  obtain c' where c': "evacuate fails nd risks c = (c', None)"
    "cl_deploys c' = (\<lambda>key. if key \<in> fst ` set risks then map_option (marked nd) (cl_deploys c key) else cl_deploys c key)"
    using evacuate_total [OF ok exact(2,3)] by blast
  have "handOver fails nd c = (c', if risks = [] then Finished else RequeueAfter recheck)"
    using step c'(1) by (auto simp: handOff_def)
  moreover have "risks = [] \<longleftrightarrow> \<not> (\<exists>key. taken_down c nd key)"
    using exact(1) by (metis empty_iff image_is_empty list.set(1) mem_Collect_eq set_empty equals0I)
  ultimately show ?thesis using c'(2) True unfolding exact(1) by (auto simp: reconcileNode_def paced_def)
qed

text \<open>A scale-down starts exactly the replacements it needs. With the API answering, a pass over a node
  Cluster Autoscaler has marked, that is Ready and runs a guarded Machine, marks every Deployment
  the drain would take down and whose rollout has finished, changes no other, and comes back while
  any App is at risk; on any other node it does nothing.\<close>

theorem scale_down_hand_over:
  assumes "\<forall>call. \<not> fails call"
  shows "\<exists>c'. reconcileNode fails nd c = (c', if leaving c nd \<and> (\<exists>key. taken_down c nd key) then RequeueAfter recheck else Finished)
    \<and> cl_deploys c' = (\<lambda>key. if leaving c nd \<and> taken_down c nd key then map_option (marked nd) (cl_deploys c key) else cl_deploys c key)"
  using assms by (rule handOver_exact)

definition ex_leaving :: cluster where
  "ex_leaving = (ex_cluster [ex_pod])\<lparr>cl_nodes := [''n1'' \<mapsto> \<lparr>nd_unschedulable = False, nd_taints = [ScaleDownTaint], nd_conds = [PodReadyTrue]\<rparr>]\<rparr>"

theorem scale_down_hand_over_witness:
  "\<exists>c'. reconcileNode (\<lambda>call. False) ''n1'' ex_leaving = (c', RequeueAfter recheck)
    \<and> cl_deploys c' (''t'', ''web'') = Some (ex_deploy\<lparr>dp_evacuatedFrom := Some ''n1''\<rparr>)"
proof -
  have l: "leaving ex_leaving ''n1''"
    by (auto simp: leaving_def ex_leaving_def ex_cluster_def ex_machine_def markedForScaleDown_def nodeReady_def)
  have t: "taken_down ex_leaving ''n1'' (''t'', ''web'')"
    by (simp add: taken_down_def ex_leaving_def ex_drain)
  have d: "\<exists>key. taken_down ex_leaving ''n1'' key" "cl_deploys ex_leaving (''t'', ''web'') = Some ex_deploy" "rolledOut ex_deploy"
    by (rule exI [where x = "(''t'', ''web'')"], rule t) (simp_all add: ex_leaving_def ex_drain)
  have "\<forall>call::api_call. \<not> (\<lambda>call. False) call" by simp
  from scale_down_hand_over [OF this, where nd = "''n1''" and c = ex_leaving] obtain c' where
    "reconcileNode (\<lambda>call. False) ''n1'' ex_leaving = (c', RequeueAfter recheck)"
    "cl_deploys c' = (\<lambda>key. if taken_down ex_leaving ''n1'' key then map_option (marked ''n1'') (cl_deploys ex_leaving key)
      else cl_deploys ex_leaving key)"
    by (simp only: l d(1) if_True simp_thms) blast
  then show ?thesis using t d by (intro exI [of _ c']) (simp add: marked_def)
qed

end
