(* ===== verification/DiskAutoscale.thy ===== *)
theory DiskAutoscale
  imports GoText Complex_Main
begin

text \<open>
  Grow-only disk autoscaling of a managed PostgreSQL database
  (\<open>operator/internal/controller/database_autoscale.go\<close>, with \<open>database_instances.go\<close>, \<open>storage.go\<close> and the
  storage rules of \<open>types/tiers/tiers.go\<close> it uses). The state is what the API server holds; a pass that
  meets a failed write ends there. A \<open>float64\<close> is a rational with the rounding \<open>rnd\<close> after every operation.
  Times are nanoseconds; the annotation keeps whole seconds. Sizes stay far below \<open>2^31\<close>: the cap is 16384.
\<close>

section \<open>State\<close>

record pg_tier =
  pt_id :: string
  pt_storageGB :: int
  pt_instances :: int
  pt_maxReaders :: int

text \<open>\<open>pt_maxReaders\<close> is \<open>MaxReadReplicas\<close>, computed from the plan's CPU quantity.\<close>

datatype resize_time = NoTime | BadTime string | TimeAt int

record resize =
  rz_at :: resize_time
  rz_from :: int
  rz_to :: int
  rz_used :: int
  rz_capacity :: int

record disk_db =
  dd_storageGB :: int
  dd_autoscaling :: bool
  dd_suspended :: bool
  dd_plan :: pg_tier
  dd_ha :: bool
  dd_readReplicas :: int
  dd_at :: resize_time
  dd_from :: string
  dd_to :: string
  dd_used :: string
  dd_capacity :: string
  dd_failures :: string
  dd_allocatedGB :: int
  dd_history :: "resize list"
  dd_blocked :: "bool option"
  dd_ready :: bool

text \<open>The writes of a pass, and what it reads.\<close>

datatype disk_write = PatchStatusSync | PatchFailures | PatchReset | PatchBlock | PatchUnblock | PatchIntent | PatchStatusEnd

datatype sample = NoUsageReader | SampleError | Usage int int

datatype cluster_read = ClusterError | ClusterMissing | ClusterRead int int int

record quota =
  q_statusHard :: "int option"
  q_specHard :: "int option"
  q_used :: int

record disk_env =
  e_now :: int
  e_sample :: sample
  e_cluster :: cluster_read
  e_quotas :: "quota list option"
  e_fails :: "disk_write \<Rightarrow> bool"

datatype disk_end = Off | Interval | WriteFailed disk_write | ClusterUnreadable

section \<open>The decision\<close>

definition diskCooldown :: int where "diskCooldown = 12 * 3600 * 1000000000"
definition historyLimit :: nat where "historyLimit = 20"
definition sampleFailureLimit :: int where "sampleFailureLimit = 3"

definition ratio :: "(rat \<Rightarrow> rat) \<Rightarrow> int \<Rightarrow> int \<Rightarrow> rat" where
  "ratio rnd used capacity =
     (if used < 0 \<or> capacity \<le> 0 then 0 else rnd (rnd (of_int used) / rnd (of_int capacity)))"

definition nextDatabaseDiskSize :: "int \<Rightarrow> int \<Rightarrow> int" where
  "nextDatabaseDiskSize capGB currentGB =
     (if currentGB \<le> 0 \<or> capGB \<le> currentGB then currentGB
      else
        let target = (currentGB * 3 + 1) div 2;
            target' = ((target + 4) div 5) * 5
        in if capGB < target' then capGB else target')"

definition databaseDiskAutoscaleDecision :: "(rat \<Rightarrow> rat) \<Rightarrow> int \<Rightarrow> int \<Rightarrow> int \<Rightarrow> int \<Rightarrow> int option \<Rightarrow> int
    \<Rightarrow> int \<times> bool" where
  "databaseDiskAutoscaleDecision rnd capGB currentGB used capacity lastResize now =
     (if ratio rnd used capacity < rnd (90 / 100) then (currentGB, False)
      else if (case lastResize of None \<Rightarrow> False | Some t \<Rightarrow> now - t < diskCooldown) then (currentGB, False)
      else let n = nextDatabaseDiskSize capGB currentGB in (n, currentGB < n))"

definition paid :: "pg_tier \<Rightarrow> bool" where
  "paid t \<longleftrightarrow> pt_id t \<noteq> [] \<and> pt_id t \<noteq> ''free''"

definition maxStorageGB :: "int \<Rightarrow> pg_tier \<Rightarrow> int" where
  "maxStorageGB capGB t = (if \<not> paid t then pt_storageGB t else capGB)"

definition growOnlyStorage :: "int \<Rightarrow> int \<Rightarrow> int" where
  "growOnlyStorage requested smallest = max requested smallest"

definition databaseInstanceCount :: "int \<Rightarrow> pg_tier \<Rightarrow> int \<Rightarrow> bool \<Rightarrow> int \<Rightarrow> int \<Rightarrow> int" where
  "databaseInstanceCount capGB plan storageGB ha readReplicas currentInstances =
     (let base0 = max 1 (pt_instances plan);
          base = (if ha then max base0 2 else base0)
      in if readReplicas = 0 then base
         else if readReplicas \<le> pt_maxReaders plan \<and> 10 \<le> storageGB \<and> storageGB \<le> maxStorageGB capGB plan
         then base + readReplicas
         else max base currentInstances)"

fun cnpgObservedInstanceCount :: "cluster_read \<Rightarrow> int" where
  "cnpgObservedInstanceCount (ClusterRead declared observed ready) = max observed ready"
| "cnpgObservedInstanceCount ClusterMissing = 0"
| "cnpgObservedInstanceCount ClusterError = 0"

fun cnpgInstanceCount :: "cluster_read \<Rightarrow> int" where
  "cnpgInstanceCount (ClusterRead declared observed ready) = max declared (max observed ready)"
| "cnpgInstanceCount ClusterMissing = 0"
| "cnpgInstanceCount ClusterError = 0"

text \<open>Does any storage quota of the namespace refuse \<open>deltaGi\<close> more? \<open>None\<close>: the quotas cannot be read.\<close>

fun quota_refuses :: "int \<Rightarrow> quota list \<Rightarrow> bool" where
  "quota_refuses delta [] \<longleftrightarrow> False"
| "quota_refuses delta (q # qs) \<longleftrightarrow>
     (case (case q_statusHard q of Some h \<Rightarrow> Some h | None \<Rightarrow> q_specHard q) of
        None \<Rightarrow> quota_refuses delta qs
      | Some hard \<Rightarrow> if hard < q_used q + delta then True else quota_refuses delta qs)"

definition diskGrowthQuotaBlocks :: "disk_env \<Rightarrow> int \<Rightarrow> bool option" where
  "diskGrowthQuotaBlocks e deltaGi =
     (if deltaGi \<le> 0 then Some False
      else case e_quotas e of None \<Rightarrow> None | Some qs \<Rightarrow> Some (quota_refuses (deltaGi * 2 ^ 30) qs))"

section \<open>Status and annotations\<close>

definition clearDiskGrowthBlocked :: "disk_env \<Rightarrow> disk_db \<Rightarrow> disk_end \<Rightarrow> disk_db \<times> disk_end" where
  "clearDiskGrowthBlocked e db fin =
     (if dd_blocked db = None then (db, fin)
      else if e_fails e PatchUnblock then (db, WriteFailed PatchUnblock)
      else (db\<lparr>dd_blocked := None\<rparr>, fin))"

definition setDiskGrowthBlocked :: "disk_env \<Rightarrow> disk_db \<Rightarrow> disk_db \<times> disk_end" where
  "setDiskGrowthBlocked e db =
     (if e_fails e PatchBlock then (db, WriteFailed PatchBlock) else (db\<lparr>dd_blocked := Some True\<rparr>, Interval))"

text \<open>\<open>n, _ := strconv.Atoi(s)\<close>: 0 for text that is no number, and the nearest \<open>int\<close> out of range.\<close>

definition atoi :: "string \<Rightarrow> int" where
  "atoi s =
     (let neg = (s \<noteq> [] \<and> hd s = CHR ''-'');
          body = (if s \<noteq> [] \<and> (hd s = CHR ''-'' \<or> hd s = CHR ''+'') then tl s else s)
      in if body = [] \<or> \<not> list_all is_digit body then 0
         else if neg then max (- (2 ^ 63)) (- int (digits_val 0 body))
         else min (2 ^ 63 - 1) (int (digits_val 0 body)))"

definition recordDiskSampleFailure :: "disk_env \<Rightarrow> disk_db \<Rightarrow> disk_db \<times> disk_end" where
  "recordDiskSampleFailure e db =
     (if \<not> dd_ready db then (db, Interval)
      else
        let failures = atoi (dd_failures db)
        in if sampleFailureLimit \<le> failures then (db, Interval)
           else if e_fails e PatchFailures then (db, WriteFailed PatchFailures)
           else (db\<lparr>dd_failures := show_int (failures + 1)\<rparr>, Interval))"

text \<open>The next state, or the failed write.\<close>

definition resetDiskSampleFailures :: "disk_env \<Rightarrow> disk_db \<Rightarrow> disk_write + disk_db" where
  "resetDiskSampleFailures e db =
     (if dd_failures db = [] then Inr db
      else if e_fails e PatchReset then Inl PatchReset
      else Inr (db\<lparr>dd_failures := []\<rparr>))"

definition syncLastDiskResizeStatus :: "disk_db \<Rightarrow> disk_db \<times> bool" where
  "syncLastDiskResizeStatus db =
     (if dd_at db = NoTime then (db, False)
      else
        (case (parse_int 32 (dd_from db), parse_int 32 (dd_to db), parse_int 64 (dd_used db), parse_int 64 (dd_capacity db)) of
           (Some from, Some tto, Some used, Some capacity) \<Rightarrow>
             if tto \<le> from then (db, False)
             else
               let entry = \<lparr>rz_at = dd_at db, rz_from = from, rz_to = tto, rz_used = used, rz_capacity = capacity\<rparr>
               in if list_ex (\<lambda>x. rz_at x = rz_at entry \<and> rz_to x = rz_to entry) (dd_history db) then (db, False)
                  else
                    let history = dd_history db @ [entry]
                    in (db\<lparr>dd_history := drop (length history - historyLimit) history\<rparr>, True)
         | _ \<Rightarrow> (db, False)))"

definition sync :: "disk_env \<Rightarrow> disk_write \<Rightarrow> disk_db \<Rightarrow> disk_write + disk_db" where
  "sync e w db =
     (case syncLastDiskResizeStatus db of
        (db', changed) \<Rightarrow> if changed then (if e_fails e w then Inl w else Inr db') else Inr db)"

section \<open>One pass\<close>

definition last_resize :: "disk_db \<Rightarrow> int option" where
  "last_resize db = (case dd_at db of TimeAt sec \<Rightarrow> Some (sec * 1000000000) | _ \<Rightarrow> None)"

definition resolved_storage :: "disk_db \<Rightarrow> int" where
  "resolved_storage db = growOnlyStorage (dd_storageGB db) (pt_storageGB (dd_plan db))"

definition intend :: "disk_env \<Rightarrow> int \<Rightarrow> int \<Rightarrow> int \<Rightarrow> int \<Rightarrow> disk_db \<Rightarrow> disk_db" where
  "intend e currentGB nextGB used capacity db =
     db\<lparr>dd_storageGB := nextGB, dd_at := TimeAt (e_now e div 1000000000), dd_from := show_int currentGB,
        dd_to := show_int nextGB, dd_used := show_int used, dd_capacity := show_int capacity\<rparr>"

definition growDisk :: "int \<Rightarrow> disk_env \<Rightarrow> int \<Rightarrow> int \<Rightarrow> int \<Rightarrow> int \<Rightarrow> disk_db \<Rightarrow> disk_db \<times> disk_end" where
  "growDisk capGB e currentGB nextGB used capacity db =
     (if e_cluster e = ClusterError then (db, ClusterUnreadable)
      else
        let currentInstances = max 1 (cnpgObservedInstanceCount (e_cluster e));
            nextInstances = max (databaseInstanceCount capGB (dd_plan db) nextGB (dd_ha db) (dd_readReplicas db)
              (cnpgInstanceCount (e_cluster e))) currentInstances;
            deltaGB = nextGB * nextInstances - currentGB * currentInstances
        in (case diskGrowthQuotaBlocks e deltaGB of
              None \<Rightarrow> (db, Interval)
            | Some True \<Rightarrow> setDiskGrowthBlocked e db
            | Some False \<Rightarrow>
                if e_fails e PatchIntent then (db, WriteFailed PatchIntent)
                else
                  (case sync e PatchStatusEnd (intend e currentGB nextGB used capacity db) of
                     Inl w \<Rightarrow> (intend e currentGB nextGB used capacity db, WriteFailed w)
                   | Inr db' \<Rightarrow> clearDiskGrowthBlocked e db' Interval)))"

definition applyDiskAutoscaling :: "(rat \<Rightarrow> rat) \<Rightarrow> int \<Rightarrow> disk_env \<Rightarrow> disk_db \<Rightarrow> disk_db \<times> disk_end" where
  "applyDiskAutoscaling rnd capGB e db0 =
     (case sync e PatchStatusSync db0 of
        Inl w \<Rightarrow> (db0, WriteFailed w)
      | Inr db \<Rightarrow>
          if \<not> dd_autoscaling db \<or> dd_suspended db \<or> \<not> paid (dd_plan db) then
            (case resetDiskSampleFailures e db of
               Inl w \<Rightarrow> (db, WriteFailed w)
             | Inr db1 \<Rightarrow> clearDiskGrowthBlocked e db1 Off)
          else
            (case e_sample e of
               NoUsageReader \<Rightarrow> (db, Interval)
             | SampleError \<Rightarrow> recordDiskSampleFailure e db
             | Usage used capacity \<Rightarrow>
                 (case resetDiskSampleFailures e db of
                    Inl w \<Rightarrow> (db, WriteFailed w)
                  | Inr db1 \<Rightarrow>
                      let currentGB = max (resolved_storage db1) (dd_allocatedGB db1)
                      in (case databaseDiskAutoscaleDecision rnd capGB currentGB used capacity (last_resize db1) (e_now e) of
                            (nextGB, False) \<Rightarrow> clearDiskGrowthBlocked e db1 Interval
                          | (nextGB, True) \<Rightarrow> growDisk capGB e currentGB nextGB used capacity db1))))"

section \<open>Sizes\<close>

lemma nextDatabaseDiskSize_grows:
  assumes "0 < c" "c < capGB"
  shows "c < nextDatabaseDiskSize capGB c" "nextDatabaseDiskSize capGB c \<le> capGB"
    and "nextDatabaseDiskSize capGB c = capGB \<or> (5 dvd nextDatabaseDiskSize capGB c
      \<and> c * 3 \<le> nextDatabaseDiskSize capGB c * 2 \<and> nextDatabaseDiskSize capGB c * 2 \<le> c * 3 + 9)"
  using assms by (auto simp: nextDatabaseDiskSize_def Let_def)

text \<open>The size rule. A grown disk is at least half as large again, by less than five gigabytes more
  than that, and a multiple of five, unless it is the cap; it never exceeds the cap, and a disk at the
  cap is left as it is.\<close>

theorem disk_size_rule:
  "(if 0 < c \<and> c < capGB
    then c < nextDatabaseDiskSize capGB c \<and> nextDatabaseDiskSize capGB c \<le> capGB
      \<and> (nextDatabaseDiskSize capGB c = capGB \<or> (5 dvd nextDatabaseDiskSize capGB c
          \<and> c * 3 \<le> nextDatabaseDiskSize capGB c * 2 \<and> nextDatabaseDiskSize capGB c * 2 < c * 3 + 10))
    else nextDatabaseDiskSize capGB c = c)"
proof (cases "0 < c \<and> c < capGB")
  case True
  then show ?thesis using nextDatabaseDiskSize_grows [of c capGB] by auto
qed (auto simp: nextDatabaseDiskSize_def)

section \<open>What a pass may change\<close>

lemma syncLast_fields:
  assumes "syncLastDiskResizeStatus db = (db', changed)"
  shows "db' = db \<or> db' = db\<lparr>dd_history := dd_history db'\<rparr>"
  using assms by (auto simp: syncLastDiskResizeStatus_def Let_def split: if_split_asm option.splits)

lemma sync_fields:
  assumes "sync e w db = Inr db'"
  shows "\<exists>h. db' = db\<lparr>dd_history := h\<rparr>"
proof -
  obtain d c where s: "syncLastDiskResizeStatus db = (d, c)" by (cases "syncLastDiskResizeStatus db")
  have "db' = d \<or> db' = db" using assms s by (auto simp: sync_def split: if_split_asm)
  then have "db' = db \<or> db' = db\<lparr>dd_history := dd_history db'\<rparr>" using syncLast_fields [OF s] by auto
  moreover have "db = db\<lparr>dd_history := dd_history db\<rparr>" by simp
  ultimately show ?thesis by blast
qed

definition same_disk :: "disk_db \<Rightarrow> disk_db \<Rightarrow> bool" where
  "same_disk a b \<longleftrightarrow> dd_storageGB a = dd_storageGB b \<and> dd_at a = dd_at b"

lemma small_steps:
  "clearDiskGrowthBlocked e db fin = (db', out) \<Longrightarrow> same_disk db' db"
  "setDiskGrowthBlocked e db = (db', out) \<Longrightarrow> same_disk db' db"
  "recordDiskSampleFailure e db = (db', out) \<Longrightarrow> same_disk db' db"
  "resetDiskSampleFailures e db = Inr db'' \<Longrightarrow> same_disk db'' db"
  by (auto simp: same_disk_def clearDiskGrowthBlocked_def setDiskGrowthBlocked_def recordDiskSampleFailure_def
      resetDiskSampleFailures_def Let_def split: if_split_asm)

lemma growDisk_result:
  assumes "growDisk capGB e currentGB nextGB used capacity db = (db', out)" "\<not> same_disk db' db"
  shows "dd_storageGB db' = nextGB \<and> dd_at db' = TimeAt (e_now e div 1000000000)
    \<and> (\<exists>d. diskGrowthQuotaBlocks e d = Some False)"
proof -
  have same: "same_disk db db" by (simp add: same_disk_def)
  have quiet: "diskGrowthQuotaBlocks e d = Some False" if "diskGrowthQuotaBlocks e d \<noteq> None" "diskGrowthQuotaBlocks e d \<noteq> Some True" for d
    using that by (cases "diskGrowthQuotaBlocks e d") auto
  have "\<exists>d. diskGrowthQuotaBlocks e d = Some False \<and> \<not> e_fails e PatchIntent
      \<and> same_disk db' (intend e currentGB nextGB used capacity db)"
    using assms same small_steps(2) [of e db db' out]
    unfolding growDisk_def Let_def
    by (auto split: if_split_asm option.splits bool.splits sum.splits dest!: sync_fields dest: small_steps(1)
        simp: same_disk_def)
  then show ?thesis by (auto simp: same_disk_def intend_def)
qed

text \<open>When a pass grows the disk, and that it changes neither size nor stamp otherwise.\<close>

lemma applyDiskAutoscaling_grows:
  assumes "applyDiskAutoscaling rnd capGB e db = (db', out)" "\<not> same_disk db' db"
  shows "dd_autoscaling db \<and> \<not> dd_suspended db \<and> paid (dd_plan db)
    \<and> (\<exists>used capacity. e_sample e = Usage used capacity \<and> rnd (90 / 100) \<le> ratio rnd used capacity)
    \<and> (\<forall>t. last_resize db = Some t \<longrightarrow> diskCooldown \<le> e_now e - t)
    \<and> (\<exists>d. diskGrowthQuotaBlocks e d = Some False)
    \<and> dd_at db' = TimeAt (e_now e div 1000000000)
    \<and> dd_storageGB db' = nextDatabaseDiskSize capGB (max (resolved_storage db) (dd_allocatedGB db))
    \<and> max (resolved_storage db) (dd_allocatedGB db) < dd_storageGB db'"
proof -
  obtain h where h: "sync e PatchStatusSync db = Inr (db\<lparr>dd_history := h\<rparr>)"
    using assms by (cases "sync e PatchStatusSync db")
      (auto simp: applyDiskAutoscaling_def same_disk_def dest!: sync_fields)
  let ?db = "db\<lparr>dd_history := h\<rparr>"
  have eq: "same_disk x ?db = same_disk x db" for x by (simp add: same_disk_def)
  have not_eq: "\<not> same_disk db' ?db" using assms(2) eq by simp
  note run = assms(1) [unfolded applyDiskAutoscaling_def h sum.case]
  have keep: "same_disk db' db" if "clearDiskGrowthBlocked e x fin = (db', out)" "same_disk x db" for x fin
    using small_steps(1) [OF that(1)] that(2) by (simp add: same_disk_def)
  have self: "same_disk ?db db" by (simp add: same_disk_def)
  have on: "dd_autoscaling db \<and> \<not> dd_suspended db \<and> paid (dd_plan db)"
  proof (rule ccontr)
    assume "\<not> ?thesis"
    then have off: "(case resetDiskSampleFailures e ?db of Inl w \<Rightarrow> (?db, WriteFailed w)
        | Inr db1 \<Rightarrow> clearDiskGrowthBlocked e db1 Off) = (db', out)" using run by simp
    show False
    proof (cases "resetDiskSampleFailures e ?db")
      case (Inl w)
      then show False using off assms(2) self by auto
    next
      case (Inr x)
      then show False using off keep [of x Off] assms(2) small_steps(4) [OF Inr] eq by simp
    qed
  qed
  have "(\<not> dd_autoscaling ?db \<or> dd_suspended ?db \<or> \<not> paid (dd_plan ?db)) = False" using on by simp
  note run2 = run [unfolded this if_False]
  obtain used capacity where s: "e_sample e = Usage used capacity"
  proof (cases "e_sample e")
    case NoUsageReader
    then show thesis using run2 assms(2) self by auto
  next
    case SampleError
    then have "same_disk db' ?db" using run2 small_steps(3) [of e ?db db' out] by simp
    then show thesis using not_eq by simp
  qed
  obtain db1 where r: "resetDiskSampleFailures e ?db = Inr db1"
  proof (cases "resetDiskSampleFailures e ?db")
    case (Inl w)
    then show thesis using run2 s assms(2) self by auto
  qed
  have "db1 = ?db \<or> db1 = ?db\<lparr>dd_failures := []\<rparr>"
    using r by (auto simp: resetDiskSampleFailures_def split: if_split_asm)
  then have same1: "resolved_storage db1 = resolved_storage db" "dd_allocatedGB db1 = dd_allocatedGB db"
      "last_resize db1 = last_resize db" "same_disk x db1 = same_disk x db" for x
    by (auto simp: resolved_storage_def last_resize_def same_disk_def)
  let ?cur = "max (resolved_storage db) (dd_allocatedGB db)"
  obtain nextGB grow where dec: "databaseDiskAutoscaleDecision rnd capGB ?cur used capacity (last_resize db) (e_now e) = (nextGB, grow)"
    by (cases "databaseDiskAutoscaleDecision rnd capGB ?cur used capacity (last_resize db) (e_now e)")
  have body: "(if grow then growDisk capGB e ?cur nextGB used capacity db1 else clearDiskGrowthBlocked e db1 Interval) = (db', out)"
    using run2 s r dec by (cases grow) (simp_all add: Let_def same1)
  have "\<not> same_disk db' db1" using assms(2) same1(4) by simp
  then have grow: grow and g: "growDisk capGB e ?cur nextGB used capacity db1 = (db', out)"
    using body small_steps(1) [of e db1 Interval db' out] by (auto split: if_split_asm)
  note res = growDisk_result [OF g \<open>\<not> same_disk db' db1\<close>]
  show ?thesis
    using dec grow res on s
    by (auto simp: databaseDiskAutoscaleDecision_def Let_def not_less split: if_split_asm option.splits)
qed

text \<open>A disk grows only for cause. A pass changes the size of a database's disk only when autoscaling
  is on for a paid, running database, a sample shows it at least 90 percent full, twelve hours passed
  since the recorded resize, and the storage quotas of the namespace admit the growth. The new size
  follows the size rule from the largest of the requested, planned and allocated sizes, and is larger.\<close>

theorem disk_grows_only_for_cause:
  assumes "applyDiskAutoscaling rnd capGB e db = (db', out)" "dd_storageGB db' \<noteq> dd_storageGB db"
  shows "dd_autoscaling db \<and> \<not> dd_suspended db \<and> paid (dd_plan db)
    \<and> (\<exists>used capacity. e_sample e = Usage used capacity \<and> rnd (90 / 100) \<le> ratio rnd used capacity)
    \<and> (\<forall>t. last_resize db = Some t \<longrightarrow> diskCooldown \<le> e_now e - t)
    \<and> (\<exists>d. diskGrowthQuotaBlocks e d = Some False)
    \<and> dd_storageGB db' = nextDatabaseDiskSize capGB (max (resolved_storage db) (dd_allocatedGB db))
    \<and> dd_storageGB db < dd_storageGB db'"
proof -
  have "\<not> same_disk db' db" using assms(2) by (simp add: same_disk_def)
  from applyDiskAutoscaling_grows [OF assms(1) this] show ?thesis
    by (auto simp: resolved_storage_def growOnlyStorage_def)
qed

text \<open>The times at which a run of passes grows the disk.\<close>

fun growth_times :: "(rat \<Rightarrow> rat) \<Rightarrow> int \<Rightarrow> disk_db \<Rightarrow> disk_env list \<Rightarrow> int list" where
  "growth_times rnd capGB db [] = []"
| "growth_times rnd capGB db (e # es) =
     (let db' = fst (applyDiskAutoscaling rnd capGB e db)
      in (if dd_storageGB db' \<noteq> dd_storageGB db then [e_now e] else []) @ growth_times rnd capGB db' es)"

definition cooled :: "int \<Rightarrow> int \<Rightarrow> bool" where
  "cooled t t' \<longleftrightarrow> diskCooldown \<le> t' - t div 1000000000 * 1000000000"

lemma growth_times_cooled:
  "successively cooled (growth_times rnd capGB db es)
    \<and> (case growth_times rnd capGB db es of [] \<Rightarrow> True
       | g # gs \<Rightarrow> \<forall>t. last_resize db = Some t \<longrightarrow> diskCooldown \<le> g - t)"
proof (induction es arbitrary: db)
  case Nil
  then show ?case by simp
next
  case (Cons e es)
  obtain db' out where run: "applyDiskAutoscaling rnd capGB e db = (db', out)"
    by (cases "applyDiskAutoscaling rnd capGB e db")
  note ih = Cons.IH [of db']
  show ?case
  proof (cases "same_disk db' db")
    case True
    then have "growth_times rnd capGB db (e # es) = growth_times rnd capGB db' es" "last_resize db' = last_resize db"
      using run by (simp_all add: same_disk_def last_resize_def)
    then show ?thesis using ih by (simp only:)
  next
    case False
    note g = applyDiskAutoscaling_grows [OF run False]
    then have "dd_storageGB db' \<noteq> dd_storageGB db" by (auto simp: resolved_storage_def growOnlyStorage_def)
    then have times: "growth_times rnd capGB db (e # es) = e_now e # growth_times rnd capGB db' es" using run by simp
    have "last_resize db' = Some (e_now e div 1000000000 * 1000000000)" using g by (simp add: last_resize_def)
    then have "growth_times rnd capGB db' es = [] \<or> cooled (e_now e) (hd (growth_times rnd capGB db' es))"
      using ih by (auto simp: cooled_def split: list.splits)
    then show ?thesis unfolding times using ih g by (auto simp: successively_Cons)
  qed
qed

text \<open>No flapping. In any run of passes, with any samples, clocks, quotas and failed writes, two
  successive growths of a disk are at least twelve hours apart (from the second the stamp keeps).\<close>

theorem disk_growths_spaced: "successively cooled (growth_times rnd capGB db es)"
  using growth_times_cooled [of rnd capGB db es] by (rule conjunct1)

text \<open>The resize history is a bounded set rebuilt from the annotations. After a resize is intended, one
  synchronisation records it, the history keeps at most twenty entries, and doing it again, as after an
  interrupted status write, changes nothing.\<close>

theorem disk_history_rebuilt:
  assumes "currentGB < nextGB" "- (2 ^ 31) \<le> currentGB" "nextGB < 2 ^ 31"
    and "- (2 ^ 63) \<le> used" "used < 2 ^ 63" "- (2 ^ 63) \<le> capacity" "capacity < 2 ^ 63"
    and "length (dd_history db) \<le> historyLimit" "syncLastDiskResizeStatus (intend e currentGB nextGB used capacity db) = (db', changed)"
  shows "list_ex (\<lambda>x. rz_at x = TimeAt (e_now e div 1000000000) \<and> rz_to x = nextGB) (dd_history db')
    \<and> length (dd_history db') \<le> historyLimit \<and> syncLastDiskResizeStatus db' = (db', False)"
proof -
  let ?i = "intend e currentGB nextGB used capacity db"
  let ?p = "\<lambda>x. rz_at x = TimeAt (e_now e div 1000000000) \<and> rz_to x = nextGB"
  have parsed: "parse_int 32 (show_int currentGB) = Some currentGB" "parse_int 32 (show_int nextGB) = Some nextGB"
    "parse_int 64 (show_int used) = Some used" "parse_int 64 (show_int capacity) = Some capacity"
    using assms(1-7) by (simp_all add: parse_int_show)
  have step: "syncLastDiskResizeStatus (?i\<lparr>dd_history := h\<rparr>) =
      (if list_ex ?p h then (?i\<lparr>dd_history := h\<rparr>, False)
       else (?i\<lparr>dd_history := drop (length h + 1 - historyLimit)
         (h @ [\<lparr>rz_at = TimeAt (e_now e div 1000000000), rz_from = currentGB, rz_to = nextGB, rz_used = used, rz_capacity = capacity\<rparr>])\<rparr>, True))" for h
    using assms(1) by (simp add: syncLastDiskResizeStatus_def intend_def parsed Let_def)
  have self: "?i\<lparr>dd_history := dd_history db\<rparr> = ?i" by (simp add: intend_def)
  show ?thesis
  proof (cases "list_ex ?p (dd_history db)")
    case True
    then have "db' = ?i" using assms(9) step [of "dd_history db"] by (simp add: self)
    moreover have "dd_history ?i = dd_history db" by (simp add: intend_def)
    ultimately show ?thesis using True assms(8) step [of "dd_history db"] by (simp add: self)
  next
    case False
    let ?e = "\<lparr>rz_at = TimeAt (e_now e div 1000000000), rz_from = currentGB, rz_to = nextGB, rz_used = used, rz_capacity = capacity\<rparr>"
    let ?h = "drop (length (dd_history db) + 1 - historyLimit) (dd_history db @ [?e])"
    have db': "db' = ?i\<lparr>dd_history := ?h\<rparr>" using assms(9) step [of "dd_history db"] False by (simp add: self)
    have "?e \<in> set ?h" using assms(8) by (auto simp: historyLimit_def drop_append intro: list.set_intros)
    then have ex: "list_ex ?p ?h" by (auto simp: list_ex_iff intro!: bexI [of _ ?e])
    have "length ?h \<le> historyLimit" using assms(8) by (simp add: historyLimit_def)
    then show ?thesis using ex step [of ?h] unfolding db' by simp
  qed
qed

subsection \<open>A concrete database\<close>

definition ex_disk :: disk_db where
  "ex_disk = \<lparr>dd_storageGB = 10, dd_autoscaling = True, dd_suspended = False,
     dd_plan = \<lparr>pt_id = ''pro'', pt_storageGB = 10, pt_instances = 1, pt_maxReaders = 0\<rparr>, dd_ha = False,
     dd_readReplicas = 0, dd_at = NoTime, dd_from = [], dd_to = [], dd_used = [], dd_capacity = [], dd_failures = [],
     dd_allocatedGB = 10, dd_history = [], dd_blocked = None, dd_ready = True\<rparr>"

definition ex_env :: disk_env where
  "ex_env = \<lparr>e_now = 0, e_sample = Usage 95 100, e_cluster = ClusterRead 1 1 1, e_quotas = Some [], e_fails = (\<lambda>w. w = PatchStatusEnd)\<rparr>"

theorem disk_grows_only_for_cause_witness:
  "\<exists>db' out. applyDiskAutoscaling id 16384 ex_env ex_disk = (db', out) \<and> dd_storageGB db' = 15
    \<and> dd_storageGB ex_disk < dd_storageGB db'"
proof -
  obtain db' out where run: "applyDiskAutoscaling id 16384 ex_env ex_disk = (db', out)" "dd_storageGB db' = 15"
    by (simp add: applyDiskAutoscaling_def sync_def syncLastDiskResizeStatus_def ex_disk_def ex_env_def paid_def
        resetDiskSampleFailures_def resolved_storage_def growOnlyStorage_def databaseDiskAutoscaleDecision_def ratio_def
        last_resize_def nextDatabaseDiskSize_def growDisk_def diskGrowthQuotaBlocks_def databaseInstanceCount_def
        intend_def parse_int_show Let_def split: prod.split)
  have "dd_storageGB db' \<noteq> dd_storageGB ex_disk" using run(2) by (simp add: ex_disk_def)
  from disk_grows_only_for_cause [OF run(1) this] run show ?thesis by blast
qed

theorem disk_history_rebuilt_witness:
  "\<exists>db'. syncLastDiskResizeStatus (intend ex_env 10 15 95 100 ex_disk) = (db', True) \<and> syncLastDiskResizeStatus db' = (db', False)"
proof -
  obtain db' where run: "syncLastDiskResizeStatus (intend ex_env 10 15 95 100 ex_disk) = (db', True)"
    by (simp add: syncLastDiskResizeStatus_def intend_def ex_disk_def ex_env_def parse_int_show Let_def historyLimit_def)
  have "length (dd_history ex_disk) \<le> historyLimit" by (simp add: ex_disk_def)
  from disk_history_rebuilt [OF _ _ _ _ _ _ _ this run] run show ?thesis by auto
qed

end
