(* ===== verification/StaticCache.thy ===== *)
theory StaticCache
  imports Admission "HOL-Library.Char_ord" "HOL-Library.List_Lexorder"
begin

text \<open>
  The object cache and the fetch gate of the static-site server
  (\<open>operator/internal/staticserver/cache.go\<close> and \<open>fetchgate.go\<close>). Each operation runs under its mutex, so it is
  one step here. Go randomises the iteration order of a map: \<open>ord\<close> gives the order in which \<open>evictOne\<close>
  ranges over the entries of a cache, any order at all. The gate's byte budget is a semaphore of a
  third-party package, of which only the answer of \<open>TryAcquire\<close> is used.
\<close>

section \<open>The cache\<close>

text \<open>\<open>ob_spare\<close> is the capacity of the body's slice beyond its length.\<close>

record object =
  ob_body :: string
  ob_spare :: nat
  ob_contentType :: string
  ob_etag :: string
  ob_negative :: bool

record cache =
  ca_budget :: int
  ca_perSite :: int
  ca_used :: int
  ca_siteUsed :: "string counts"
  ca_entrySites :: "string \<Rightarrow> string option"
  ca_entries :: "string \<Rightarrow> object option"

definition entryOverhead :: int where "entryOverhead = 256"

definition entryCharge :: "string \<Rightarrow> object \<Rightarrow> int" where
  "entryCharge key obj =
     int (length (ob_body obj) + ob_spare obj) + int (length key) + int (length (ob_contentType obj))
       + int (length (ob_etag obj)) + entryOverhead"

definition newCache :: "int \<Rightarrow> cache" where
  "newCache budget = \<lparr>ca_budget = budget, ca_perSite = min budget (32 * 2 ^ 20), ca_used = 0,
     ca_siteUsed = Map.empty, ca_entrySites = Map.empty, ca_entries = Map.empty\<rparr>"

definition cacheGet :: "cache \<Rightarrow> string \<Rightarrow> object option" where
  "cacheGet c key = (if ca_budget c \<le> 0 then None else ca_entries c key)"

text \<open>Reading an absent key of a Go \<open>map[string]string\<close> gives the empty string.\<close>

definition site_of :: "cache \<Rightarrow> string \<Rightarrow> string" where
  "site_of c key = (case ca_entrySites c key of None \<Rightarrow> [] | Some s \<Rightarrow> s)"

fun evict_from :: "string \<Rightarrow> cache \<Rightarrow> string list \<Rightarrow> cache option" where
  "evict_from site c [] = None"
| "evict_from site c (key # keys) =
     (case ca_entries c key of
        None \<Rightarrow> evict_from site c keys
      | Some obj \<Rightarrow>
          let entrySite = site_of c key;
              sz = entryCharge key obj;
              u = ca_siteUsed c
          in if site \<noteq> [] \<and> entrySite \<noteq> site then evict_from site c keys
             else Some (c\<lparr>ca_entries := (ca_entries c)(key := None), ca_entrySites := (ca_entrySites c)(key := None),
               ca_used := ca_used c - sz,
               ca_siteUsed := (if count_of u entrySite \<le> sz then u(entrySite := None)
                 else u(entrySite \<mapsto> count_of u entrySite - sz))\<rparr>))"

definition evictOne :: "(cache \<Rightarrow> string list) \<Rightarrow> string \<Rightarrow> cache \<Rightarrow> cache option" where
  "evictOne ord site c = evict_from site c (ord c)"

text \<open>The two loops of \<open>put\<close>: the cache they leave, and whether they made room.\<close>

partial_function (option) evict_site :: "(cache \<Rightarrow> string list) \<Rightarrow> string \<Rightarrow> int \<Rightarrow> cache \<Rightarrow> (cache \<times> bool) option" where
  "evict_site ord site sz c =
     (if ca_perSite c < count_of (ca_siteUsed c) site + sz then
        (case evictOne ord site c of None \<Rightarrow> Some (c, False) | Some c' \<Rightarrow> evict_site ord site sz c')
      else Some (c, True))"

partial_function (option) evict_any :: "(cache \<Rightarrow> string list) \<Rightarrow> int \<Rightarrow> cache \<Rightarrow> (cache \<times> bool) option" where
  "evict_any ord sz c =
     (if ca_budget c < ca_used c + sz then
        (case evictOne ord [] c of None \<Rightarrow> Some (c, False) | Some c' \<Rightarrow> evict_any ord sz c')
      else Some (c, True))"

definition store :: "string \<Rightarrow> string \<Rightarrow> object \<Rightarrow> int \<Rightarrow> cache \<Rightarrow> cache" where
  "store site key obj sz c =
     c\<lparr>ca_entries := (ca_entries c)(key \<mapsto> obj), ca_used := ca_used c + sz,
       ca_siteUsed := (ca_siteUsed c)(site \<mapsto> count_of (ca_siteUsed c) site + sz),
       ca_entrySites := (ca_entrySites c)(key \<mapsto> site)\<rparr>"

definition cachePut :: "(cache \<Rightarrow> string list) \<Rightarrow> string \<Rightarrow> string \<Rightarrow> object \<Rightarrow> cache \<Rightarrow> cache option" where
  "cachePut ord site key obj c =
     (let sz = entryCharge key obj
      in if ca_budget c \<le> 0 then Some c
         else if ca_budget c < sz \<or> ca_perSite c < sz then Some c
         else if ca_entries c key \<noteq> None then Some c
         else
           (case evict_site ord site sz c of
              None \<Rightarrow> None
            | Some (c1, False) \<Rightarrow> Some c1
            | Some (c1, True) \<Rightarrow>
                (case evict_any ord sz c1 of
                   None \<Rightarrow> None
                 | Some (c2, False) \<Rightarrow> Some c2
                 | Some (c2, True) \<Rightarrow> Some (store site key obj sz c2))))"

section \<open>Accounting\<close>

definition charge_at :: "cache \<Rightarrow> string \<Rightarrow> int" where
  "charge_at c key = (case ca_entries c key of None \<Rightarrow> 0 | Some obj \<Rightarrow> entryCharge key obj)"

text \<open>The books of the cache balance: what it charges, in all and by site, is what its entries cost.\<close>

definition balanced :: "cache \<Rightarrow> bool" where
  "balanced c \<longleftrightarrow> finite (dom (ca_entries c)) \<and> dom (ca_entrySites c) = dom (ca_entries c)
     \<and> ca_used c = (\<Sum>k \<in> dom (ca_entries c). charge_at c k)
     \<and> (\<forall>s. count_of (ca_siteUsed c) s = (\<Sum>k | ca_entrySites c k = Some s. charge_at c k))
     \<and> tidy (ca_siteUsed c)"

definition bounded :: "cache \<Rightarrow> bool" where
  "bounded c \<longleftrightarrow> ca_used c \<le> max 0 (ca_budget c) \<and> (\<forall>s. count_of (ca_siteUsed c) s \<le> max 0 (ca_perSite c))"

lemma entryCharge_pos: "0 < entryCharge key obj"
  by (simp add: entryCharge_def entryOverhead_def)

lemma charge_at_nonneg: "0 \<le> charge_at c k"
  using entryCharge_pos by (auto simp: charge_at_def less_imp_le split: option.split)

lemma balanced_site_finite: "balanced c \<Longrightarrow> finite {k. ca_entrySites c k = Some s}"
  by (rule finite_subset [of _ "dom (ca_entries c)"]) (auto simp: balanced_def)

lemma site_of_eq: "ca_entrySites c k = Some s \<Longrightarrow> site_of c k = s"
  by (simp add: site_of_def)

text \<open>What one eviction does.\<close>

definition evicted :: "cache \<Rightarrow> string \<Rightarrow> cache" where
  "evicted c key =
     (let sz = charge_at c key; s = site_of c key; u = ca_siteUsed c
      in c\<lparr>ca_entries := (ca_entries c)(key := None), ca_entrySites := (ca_entrySites c)(key := None),
           ca_used := ca_used c - sz,
           ca_siteUsed := (if count_of u s \<le> sz then u(s := None) else u(s \<mapsto> count_of u s - sz))\<rparr>)"

lemma evict_from_Some:
  "evict_from site c keys = Some c' \<Longrightarrow>
     \<exists>key \<in> set keys. ca_entries c key \<noteq> None \<and> (site = [] \<or> site_of c key = site) \<and> c' = evicted c key"
  by (induction keys) (auto simp: Let_def evicted_def charge_at_def split: option.splits if_split_asm)

lemma evict_from_None:
  "evict_from site c keys = None \<Longrightarrow> key \<in> set keys \<Longrightarrow> ca_entries c key \<noteq> None \<Longrightarrow> site \<noteq> [] \<and> site_of c key \<noteq> site"
  by (induction keys) (auto simp: Let_def split: option.splits if_split_asm)

lemma evicted_balanced:
  assumes bal: "balanced c" and key: "ca_entries c key \<noteq> None"
  shows "balanced (evicted c key)"
proof -
  let ?c = "evicted c key" and ?s = "site_of c key" and ?sz = "charge_at c key"
  obtain s where s: "ca_entrySites c key = Some s" using bal key by (auto simp: balanced_def dom_def)
  then have ss: "?s = s" by (rule site_of_eq)
  have fin: "finite (dom (ca_entries c))" using bal by (simp add: balanced_def)
  have fins: "finite {k. ca_entrySites c k = Some t}" for t by (rule balanced_site_finite [OF bal])
  have charge: "charge_at ?c k = (if k = key then 0 else charge_at c k)" for k
    by (simp add: charge_at_def evicted_def Let_def)
  have removed: "sum (charge_at ?c) (A - {key}) = sum (charge_at c) A - (if key \<in> A then charge_at c key else 0)"
    if "finite A" for A
  proof -
    have "sum (charge_at ?c) (A - {key}) = sum (charge_at c) (A - {key})" by (rule sum.cong) (simp_all add: charge)
    then show ?thesis using that by (simp add: sum_diff1)
  qed
  have doms: "dom (ca_entries ?c) = dom (ca_entries c) - {key}" "dom (ca_entrySites ?c) = dom (ca_entries ?c)"
    using bal by (auto simp: evicted_def Let_def balanced_def)
  have "ca_used ?c = (\<Sum>k \<in> dom (ca_entries ?c). charge_at ?c k)"
    using bal key removed [OF fin] unfolding doms(1) by (auto simp: evicted_def Let_def balanced_def)
  moreover have site: "count_of (ca_siteUsed ?c) t = (\<Sum>k | ca_entrySites ?c k = Some t. charge_at ?c k)" for t
  proof -
    have ks: "{k. ca_entrySites ?c k = Some t} = {k. ca_entrySites c k = Some t} - {key}"
      by (auto simp: evicted_def Let_def)
    have rest: "(\<Sum>k | ca_entrySites ?c k = Some t. charge_at ?c k)
        = (\<Sum>k | ca_entrySites c k = Some t. charge_at c k) - (if t = s then ?sz else 0)"
      using s unfolding ks removed [OF fins [of t]] by simp
    have "0 \<le> (\<Sum>k | ca_entrySites ?c k = Some t. charge_at ?c k)" by (rule sum_nonneg) (rule charge_at_nonneg)
    then have le: "t = s \<Longrightarrow> ?sz \<le> count_of (ca_siteUsed c) t" using rest bal by (simp add: balanced_def)
    have now: "count_of (ca_siteUsed ?c) t = count_of (ca_siteUsed c) t - (if t = s then ?sz else 0)"
      using le by (auto simp: evicted_def Let_def ss count_of_def)
    then show ?thesis using bal rest by (simp add: balanced_def)
  qed
  moreover have "tidy (ca_siteUsed ?c)"
    using bal by (auto simp: balanced_def tidy_def evicted_def Let_def)
  ultimately show ?thesis using fin doms unfolding balanced_def by auto
qed


text \<open>What a run of evictions leaves.\<close>

definition shrunk :: "cache \<Rightarrow> cache \<Rightarrow> bool" where
  "shrunk c c' \<longleftrightarrow> balanced c' \<and> ca_budget c' = ca_budget c \<and> ca_perSite c' = ca_perSite c
     \<and> ca_entries c' \<subseteq>\<^sub>m ca_entries c \<and> ca_entrySites c' \<subseteq>\<^sub>m ca_entrySites c
     \<and> ca_used c' \<le> ca_used c \<and> (\<forall>s. count_of (ca_siteUsed c') s \<le> count_of (ca_siteUsed c) s)"

lemma shrunk_refl: "balanced c \<Longrightarrow> shrunk c c"
  by (simp add: shrunk_def)

lemma shrunk_trans: "shrunk a b \<Longrightarrow> shrunk b c \<Longrightarrow> shrunk a c"
  unfolding shrunk_def by (auto intro: map_le_trans order_trans)

lemma evicted_shrunk:
  assumes "balanced c" "ca_entries c key \<noteq> None"
  shows "shrunk c (evicted c key)" "card (dom (ca_entries (evicted c key))) < card (dom (ca_entries c))"
proof -
  have "0 \<le> count_of (ca_siteUsed c) (site_of c key)"
    using assms(1) by (intro tidy_nonneg) (simp add: balanced_def)
  then have "count_of (ca_siteUsed (evicted c key)) s \<le> count_of (ca_siteUsed c) s" for s
    using charge_at_nonneg [of c key] by (auto simp: evicted_def Let_def count_of_def)
  then show "shrunk c (evicted c key)"
    using evicted_balanced [OF assms] charge_at_nonneg [of c key]
    by (auto simp: shrunk_def evicted_def Let_def map_le_def)
  have "dom (ca_entries (evicted c key)) = dom (ca_entries c) - {key}" by (auto simp: evicted_def Let_def)
  moreover have "key \<in> dom (ca_entries c)" using assms(2) by auto
  moreover have "finite (dom (ca_entries c))" using assms(1) by (simp add: balanced_def)
  ultimately show "card (dom (ca_entries (evicted c key))) < card (dom (ca_entries c))"
    by (metis card_Diff1_less)
qed

text \<open>An iteration order visits every entry.\<close>

definition visits_all :: "(cache \<Rightarrow> string list) \<Rightarrow> bool" where
  "visits_all ord \<longleftrightarrow> (\<forall>c. finite (dom (ca_entries c)) \<longrightarrow> dom (ca_entries c) \<subseteq> set (ord c))"

lemma evictOne_site:
  assumes "visits_all ord" "balanced c" "0 < count_of (ca_siteUsed c) site"
  shows "\<exists>key. ca_entries c key \<noteq> None \<and> (site = [] \<or> site_of c key = site) \<and> evictOne ord site c = Some (evicted c key)"
proof -
  have "{k. ca_entrySites c k = Some site} \<noteq> {}" using assms(2,3) by (force simp: balanced_def)
  then obtain key where key: "ca_entrySites c key = Some site" by blast
  then have e: "ca_entries c key \<noteq> None" using assms(2) by (auto simp: balanced_def)
  then have "key \<in> set (ord c)" using assms(1,2) by (auto simp: visits_all_def balanced_def)
  then have "evictOne ord site c \<noteq> None"
    using evict_from_None [of site c "ord c" key] e site_of_eq [OF key] by (auto simp: evictOne_def)
  then obtain c' where "evictOne ord site c = Some c'" by blast
  with evict_from_Some [of site c "ord c" c'] show ?thesis unfolding evictOne_def by blast
qed

lemma evictOne_any:
  assumes "visits_all ord" "balanced c" "0 < ca_used c"
  shows "\<exists>key. ca_entries c key \<noteq> None \<and> evictOne ord [] c = Some (evicted c key)"
proof -
  have "dom (ca_entries c) \<noteq> {}" using assms(2,3) by (force simp: balanced_def)
  then obtain key where e: "ca_entries c key \<noteq> None" by blast
  then have "key \<in> set (ord c)" using assms(1,2) by (auto simp: visits_all_def balanced_def)
  then have "evictOne ord [] c \<noteq> None"
    using evict_from_None [of "[]" c "ord c" key] e by (auto simp: evictOne_def)
  then obtain c' where "evictOne ord [] c = Some c'" by blast
  with evict_from_Some [of "[]" c "ord c" c'] show ?thesis unfolding evictOne_def by blast
qed

definition others_kept :: "string \<Rightarrow> cache \<Rightarrow> cache \<Rightarrow> bool" where
  "others_kept site c c' \<longleftrightarrow> (\<forall>k s. ca_entrySites c k = Some s \<longrightarrow> s \<noteq> site
     \<longrightarrow> ca_entries c' k = ca_entries c k \<and> ca_entrySites c' k = Some s)"

lemma others_kept_refl: "others_kept site c c"
  by (simp add: others_kept_def)

lemma others_kept_trans: "others_kept site a b \<Longrightarrow> others_kept site b c \<Longrightarrow> others_kept site a c"
  by (simp add: others_kept_def)

lemma others_kept_evicted: "site_of c key = site \<Longrightarrow> others_kept site c (evicted c key)"
  by (auto simp: others_kept_def evicted_def Let_def site_of_def)

lemma evict_site_ends:
  assumes "visits_all ord" "balanced c" "sz \<le> ca_perSite c"
  shows "\<exists>c'. evict_site ord site sz c = Some (c', True) \<and> shrunk c c'
    \<and> count_of (ca_siteUsed c') site + sz \<le> ca_perSite c' \<and> (site \<noteq> [] \<longrightarrow> others_kept site c c')"
  using assms(2,3)
proof (induction "card (dom (ca_entries c))" arbitrary: c rule: less_induct)
  case less
  show ?case
  proof (cases "ca_perSite c < count_of (ca_siteUsed c) site + sz")
    case False
    then have "evict_site ord site sz c = Some (c, True)" by (simp add: evict_site.simps)
    then show ?thesis using False less.prems by (simp add: shrunk_refl others_kept_refl)
  next
    case True
    then have "0 < count_of (ca_siteUsed c) site" using less.prems(2) by simp
    from evictOne_site [OF assms(1) less.prems(1) this] obtain key where
      key: "ca_entries c key \<noteq> None" "site = [] \<or> site_of c key = site" "evictOne ord site c = Some (evicted c key)"
      by blast
    note sh = evicted_shrunk [OF less.prems(1) key(1)]
    have "balanced (evicted c key)" "sz \<le> ca_perSite (evicted c key)"
      using sh(1) less.prems(2) by (simp_all add: shrunk_def)
    from less.hyps [OF sh(2) this] obtain c' where c': "evict_site ord site sz (evicted c key) = Some (c', True)"
      "shrunk (evicted c key) c'" "count_of (ca_siteUsed c') site + sz \<le> ca_perSite c'"
      "site \<noteq> [] \<longrightarrow> others_kept site (evicted c key) c'" by blast
    have "evict_site ord site sz c = Some (c', True)" using True key(3) c'(1) by (simp add: evict_site.simps [of ord site sz c])
    moreover have "site \<noteq> [] \<longrightarrow> others_kept site c c'"
      using key(2) c'(4) others_kept_evicted [of c key site] others_kept_trans by blast
    ultimately show ?thesis using c'(3) shrunk_trans [OF sh(1) c'(2)] by blast
  qed
qed

lemma evict_any_ends:
  assumes "visits_all ord" "balanced c" "sz \<le> ca_budget c"
  shows "\<exists>c'. evict_any ord sz c = Some (c', True) \<and> shrunk c c' \<and> ca_used c' + sz \<le> ca_budget c'
    \<and> (ca_used c + sz \<le> ca_budget c \<longrightarrow> c' = c)"
  using assms(2,3)
proof (induction "card (dom (ca_entries c))" arbitrary: c rule: less_induct)
  case less
  show ?case
  proof (cases "ca_budget c < ca_used c + sz")
    case False
    then have "evict_any ord sz c = Some (c, True)" by (simp add: evict_any.simps)
    then show ?thesis using False less.prems by (simp add: shrunk_refl)
  next
    case True
    then have "0 < ca_used c" using less.prems(2) by simp
    from evictOne_any [OF assms(1) less.prems(1) this] obtain key where
      key: "ca_entries c key \<noteq> None" "evictOne ord [] c = Some (evicted c key)" by blast
    note sh = evicted_shrunk [OF less.prems(1) key(1)]
    have "balanced (evicted c key)" "sz \<le> ca_budget (evicted c key)"
      using sh(1) less.prems(2) by (simp_all add: shrunk_def)
    from less.hyps [OF sh(2) this] obtain c' where c': "evict_any ord sz (evicted c key) = Some (c', True)"
      "shrunk (evicted c key) c'" "ca_used c' + sz \<le> ca_budget c'" by blast
    have "evict_any ord sz c = Some (c', True)" using True key(2) c'(1) by (simp add: evict_any.simps [of ord sz c])
    then show ?thesis using True c'(3) shrunk_trans [OF sh(1) c'(2)] by auto
  qed
qed


lemma store_balanced:
  assumes bal: "balanced c" and key: "ca_entries c key = None" and sz: "sz = entryCharge key obj"
  shows "balanced (store site key obj sz c)"
proof -
  let ?c = "store site key obj sz c"
  have fin: "finite (dom (ca_entries c))" using bal by (simp add: balanced_def)
  have nosite: "ca_entrySites c key = None" using bal key by (auto simp: balanced_def)
  have charge: "charge_at ?c k = (if k = key then sz else charge_at c k)" for k
    by (simp add: charge_at_def store_def sz)
  have added: "sum (charge_at ?c) (insert key A) = sz + sum (charge_at c) A" if "finite A" "key \<notin> A" for A
  proof -
    have "sum (charge_at ?c) A = sum (charge_at c) A" using that(2) by (intro sum.cong) (auto simp: charge)
    then show ?thesis using that by (simp add: charge)
  qed
  have same: "sum (charge_at ?c) A = sum (charge_at c) A" if "key \<notin> A" for A
    using that by (intro sum.cong) (auto simp: charge)
  have "ca_used ?c = (\<Sum>k \<in> dom (ca_entries ?c). charge_at ?c k)"
  proof -
    have d: "dom (ca_entries ?c) = insert key (dom (ca_entries c))" by (auto simp: store_def)
    have "key \<notin> dom (ca_entries c)" using key by auto
    from added [OF fin this] show ?thesis using bal unfolding d by (simp add: store_def balanced_def)
  qed
  moreover have "count_of (ca_siteUsed ?c) s = (\<Sum>k | ca_entrySites ?c k = Some s. charge_at ?c k)" for s
  proof (cases "s = site")
    case True
    have "{k. ca_entrySites ?c k = Some s} = insert key {k. ca_entrySites c k = Some s}"
      using True by (auto simp: store_def)
    moreover have "key \<notin> {k. ca_entrySites c k = Some s}" using nosite by simp
    moreover have "finite {k. ca_entrySites c k = Some s}" by (rule balanced_site_finite [OF bal])
    moreover have "count_of (ca_siteUsed ?c) s = sz + (\<Sum>k | ca_entrySites c k = Some s. charge_at c k)"
      using bal True by (simp add: store_def count_of_def balanced_def)
    ultimately show ?thesis using added by simp
  next
    case False
    then have "{k. ca_entrySites ?c k = Some s} = {k. ca_entrySites c k = Some s}"
      using nosite by (auto simp: store_def)
    moreover have "key \<notin> {k. ca_entrySites c k = Some s}" using nosite by simp
    moreover have "count_of (ca_siteUsed ?c) s = (\<Sum>k | ca_entrySites c k = Some s. charge_at c k)"
      using bal False by (simp add: store_def count_of_def balanced_def)
    ultimately show ?thesis using same by simp
  qed
  moreover have "tidy (ca_siteUsed ?c)"
  proof -
    have "0 \<le> count_of (ca_siteUsed c) site" using bal by (intro tidy_nonneg) (simp add: balanced_def)
    then show ?thesis using bal entryCharge_pos [of key obj] by (auto simp: balanced_def tidy_def store_def sz)
  qed
  moreover have "finite (dom (ca_entries ?c))" "dom (ca_entrySites ?c) = dom (ca_entries ?c)"
    using bal by (auto simp: store_def balanced_def)
  ultimately show ?thesis unfolding balanced_def by blast
qed

text \<open>The whole of \<open>put\<close>: it returns, keeps the books, stores what fits, and touches nothing else.\<close>

lemma cachePut_result:
  assumes ord: "visits_all ord" and bal: "balanced c" and bound: "bounded c"
  shows "\<exists>c'. cachePut ord site key obj c = Some c' \<and> balanced c' \<and> bounded c'
    \<and> ca_budget c' = ca_budget c \<and> ca_perSite c' = ca_perSite c
    \<and> ca_entries c' \<subseteq>\<^sub>m (if ca_entries c key = None then (ca_entries c)(key \<mapsto> obj) else ca_entries c)
    \<and> (0 < ca_budget c \<and> entryCharge key obj \<le> min (ca_budget c) (ca_perSite c) \<longrightarrow>
         ca_entries c' key = Some (case ca_entries c key of None \<Rightarrow> obj | Some old \<Rightarrow> old))
    \<and> (site \<noteq> [] \<and> ca_used c + entryCharge key obj \<le> ca_budget c \<longrightarrow> others_kept site c c')"
proof (cases "ca_budget c \<le> 0 \<or> ca_budget c < entryCharge key obj \<or> ca_perSite c < entryCharge key obj
    \<or> ca_entries c key \<noteq> None")
  case True
  then have "cachePut ord site key obj c = Some c" by (auto simp: cachePut_def Let_def)
  moreover have "ca_entries c \<subseteq>\<^sub>m (ca_entries c)(key \<mapsto> obj)" if "ca_entries c key = None"
    using that by (auto simp: map_le_def)
  ultimately show ?thesis using True bal bound by (auto simp: others_kept_refl split: option.split)
next
  case False
  let ?sz = "entryCharge key obj"
  from False have fits: "0 < ca_budget c" "?sz \<le> ca_budget c" "?sz \<le> ca_perSite c" "ca_entries c key = None" by auto
  obtain c1 where c1: "evict_site ord site ?sz c = Some (c1, True)" "shrunk c c1"
      "count_of (ca_siteUsed c1) site + ?sz \<le> ca_perSite c1" "site \<noteq> [] \<longrightarrow> others_kept site c c1"
    using evict_site_ends [OF ord bal fits(3), of site] by blast
  have b1: "balanced c1" "?sz \<le> ca_budget c1" using c1(2) fits(2) by (simp_all add: shrunk_def)
  obtain c2 where c2: "evict_any ord ?sz c1 = Some (c2, True)" "shrunk c1 c2" "ca_used c2 + ?sz \<le> ca_budget c2"
      "ca_used c1 + ?sz \<le> ca_budget c1 \<longrightarrow> c2 = c1"
    using evict_any_ends [OF ord b1] by blast
  let ?c = "store site key obj ?sz c2"
  have run: "cachePut ord site key obj c = Some ?c"
    using fits c1(1) c2(1) by (simp add: cachePut_def Let_def)
  have sh: "shrunk c c2" by (rule shrunk_trans [OF c1(2) c2(2)])
  have none: "ca_entries c2 key = None" using sh fits(4) by (auto simp: shrunk_def map_le_def dom_def)
  have bal2: "balanced ?c" using store_balanced [of c2 key ?sz obj site] c2(2) none by (simp add: shrunk_def)
  have conf: "ca_budget ?c = ca_budget c" "ca_perSite ?c = ca_perSite c" using sh by (simp_all add: store_def shrunk_def)
  have site1: "count_of (ca_siteUsed c2) site + ?sz \<le> ca_perSite c"
  proof -
    have "count_of (ca_siteUsed c2) site \<le> count_of (ca_siteUsed c1) site" "ca_perSite c1 = ca_perSite c"
      using c1(2) c2(2) by (simp_all add: shrunk_def)
    then show ?thesis using c1(3) by linarith
  qed
  have site_le: "count_of (ca_siteUsed c2) s \<le> max 0 (ca_perSite c)" for s
    using sh bound unfolding shrunk_def bounded_def by (meson order_trans)
  have "ca_used ?c \<le> max 0 (ca_budget ?c)" using c2(3) sh by (simp add: store_def shrunk_def)
  moreover have "count_of (ca_siteUsed ?c) s \<le> max 0 (ca_perSite ?c)" for s
    using site1 site_le [of s] conf by (auto simp: store_def count_of_def)
  ultimately have "bounded ?c" by (simp add: bounded_def)
  moreover have "ca_entries ?c \<subseteq>\<^sub>m (ca_entries c)(key \<mapsto> obj)"
    using sh by (auto simp: store_def shrunk_def map_le_def)
  moreover have "ca_entries ?c key = Some obj" by (simp add: store_def)
  moreover have "others_kept site c ?c" if "site \<noteq> []" "ca_used c + ?sz \<le> ca_budget c"
  proof -
    have "ca_used c1 + ?sz \<le> ca_budget c1" using c1(2) that(2) by (simp add: shrunk_def)
    then have "c2 = c1" using c2(4) by simp
    then have "others_kept site c c2" using c1(4) that(1) by simp
    moreover have "ca_entrySites c2 key = None"
      using none c2(2) unfolding shrunk_def balanced_def by (metis domIff)
    then have "others_kept site c2 ?c" by (auto simp: others_kept_def store_def)
    ultimately show ?thesis by (rule others_kept_trans)
  qed
  ultimately show ?thesis using run bal2 conf fits(4) by (intro exI [of _ ?c]) simp
qed

text \<open>Whatever the iteration order, an insertion that returns made nothing up.\<close>

lemma evicted_sub: "ca_entries (evicted c key) \<subseteq>\<^sub>m ca_entries c"
  by (auto simp: evicted_def Let_def map_le_def split: if_split_asm)

lemma evictOne_sub: "evictOne ord site c = Some c' \<Longrightarrow> ca_entries c' \<subseteq>\<^sub>m ca_entries c"
  using evict_from_Some [of site c "ord c" c'] evicted_sub by (auto simp: evictOne_def)

lemma evict_site_sub: "evict_site ord site sz c = Some out \<Longrightarrow> ca_entries (fst out) \<subseteq>\<^sub>m ca_entries c"
proof (erule evict_site.raw_induct [where P = "\<lambda>ord site sz c out. ca_entries (fst out) \<subseteq>\<^sub>m ca_entries c", rotated], goal_cases)
  case (1 f ord site sz c out)
  show ?case
  proof (cases "ca_perSite c < count_of (ca_siteUsed c) site + sz \<and> evictOne ord site c \<noteq> None")
    case True
    then obtain d where d: "evictOne ord site c = Some d" by blast
    then have "f ord site sz d = Some out" using 1(2) True by simp
    from 1(1) [OF this] evictOne_sub [OF d] show ?thesis by (rule map_le_trans)
  next
    case False
    then show ?thesis using 1(2) by (auto split: if_split_asm)
  qed
qed

lemma evict_any_sub: "evict_any ord sz c = Some out \<Longrightarrow> ca_entries (fst out) \<subseteq>\<^sub>m ca_entries c"
proof (erule evict_any.raw_induct [where P = "\<lambda>ord sz c out. ca_entries (fst out) \<subseteq>\<^sub>m ca_entries c", rotated], goal_cases)
  case (1 f ord sz c out)
  show ?case
  proof (cases "ca_budget c < ca_used c + sz \<and> evictOne ord [] c \<noteq> None")
    case True
    then obtain d where d: "evictOne ord [] c = Some d" by blast
    then have "f ord sz d = Some out" using 1(2) True by simp
    from 1(1) [OF this] evictOne_sub [OF d] show ?thesis by (rule map_le_trans)
  next
    case False
    then show ?thesis using 1(2) by (auto split: if_split_asm)
  qed
qed

lemma cachePut_sub:
  assumes "cachePut ord site key obj c = Some c'" "ca_entries c' k = Some x"
  shows "ca_entries c k = Some x \<or> (k = key \<and> x = obj)"
proof -
  have two: "ca_entries c2 \<subseteq>\<^sub>m ca_entries c" if "evict_site ord site sz c = Some (c1, b1)" "evict_any ord sz c1 = Some (c2, b2)"
    for sz c1 b1 c2 b2
    using evict_any_sub [OF that(2)] evict_site_sub [OF that(1)] by (auto intro: map_le_trans)
  consider "c' = c" | b where "evict_site ord site (entryCharge key obj) c = Some (c', b)"
    | c1 b1 c2 b2 where "evict_site ord site (entryCharge key obj) c = Some (c1, b1)"
        "evict_any ord (entryCharge key obj) c1 = Some (c2, b2)" "c' = c2 \<or> c' = store site key obj (entryCharge key obj) c2"
    using assms(1) by (auto simp: cachePut_def Let_def split: if_split_asm option.splits bool.splits)
  then show ?thesis
  proof cases
    case 1
    then show ?thesis using assms(2) by simp
  next
    case 2
    then show ?thesis using evict_site_sub [OF 2] assms(2) by (auto simp: map_le_def dom_def)
  next
    case (3 c1 b1 c2 b2)
    have "ca_entries c2 k = Some x \<Longrightarrow> ca_entries c k = Some x" using two [OF 3(1,2)] by (auto simp: map_le_def dom_def)
    then show ?thesis using 3(3) assms(2) by (auto simp: store_def split: if_split_asm)
  qed
qed

lemma newCache_ok: "balanced (newCache budget)" "bounded (newCache budget)"
  by (simp_all add: newCache_def balanced_def bounded_def counter_simps count_of_def)

section \<open>The fetch gate\<close>

record gate =
  gt_slots :: int
  gt_max :: int
  gt_perSite :: "string counts"
  gt_maxPerSite :: int
  gt_bytes :: bool

text \<open>\<open>None\<close> is the disabled gate; \<open>gt_bytes\<close> says whether it has a byte budget.\<close>

definition newFetchGate :: "int \<Rightarrow> int \<Rightarrow> int list \<Rightarrow> gate option" where
  "newFetchGate maxConcurrent maxInflightBytes perSite =
     (if maxConcurrent \<le> 0 then None
      else Some \<lparr>gt_slots = 0, gt_max = maxConcurrent, gt_perSite = Map.empty,
        gt_maxPerSite = (case perSite of [] \<Rightarrow> maxConcurrent | m # _ \<Rightarrow> m), gt_bytes = (0 < maxInflightBytes)\<rparr>)"

definition releaseSite :: "gate \<Rightarrow> string \<Rightarrow> gate" where
  "releaseSite g site = g\<lparr>gt_perSite := drop_count (gt_perSite g) site\<rparr>"

text \<open>\<open>bytes\<close> is the answer of the byte semaphore.\<close>

definition acquireGate :: "gate option \<Rightarrow> string \<Rightarrow> bool \<Rightarrow> gate option \<times> bool" where
  "acquireGate mg site bytes =
     (case mg of
        None \<Rightarrow> (None, True)
      | Some g \<Rightarrow>
          if 0 < gt_maxPerSite g \<and> gt_maxPerSite g \<le> count_of (gt_perSite g) site then (Some g, False)
          else
            let g1 = g\<lparr>gt_perSite := bump (gt_perSite g) site\<rparr>
            in if \<not> gt_slots g1 < gt_max g1 then (Some (releaseSite g1 site), False)
               else
                 let g2 = g1\<lparr>gt_slots := gt_slots g1 + 1\<rparr>
                 in if gt_bytes g2 \<and> \<not> bytes
                    then (Some (releaseSite (g2\<lparr>gt_slots := gt_slots g2 - 1\<rparr>) site), False)
                    else (Some g2, True))"

definition releaseGate :: "gate option \<Rightarrow> string \<Rightarrow> gate option" where
  "releaseGate mg site =
     (case mg of None \<Rightarrow> None | Some g \<Rightarrow> Some (releaseSite (g\<lparr>gt_slots := gt_slots g - 1\<rparr>) site))"


datatype gate_key = Slots | OfSite string

fun gate_held :: "gate \<Rightarrow> gate_key \<Rightarrow> int" where
  "gate_held g Slots = gt_slots g"
| "gate_held g (OfSite s) = count_of (gt_perSite g) s"

fun gate_cap :: "gate \<Rightarrow> gate_key \<Rightarrow> int option" where
  "gate_cap g Slots = Some (gt_max g)"
| "gate_cap g (OfSite s) = (if 0 < gt_maxPerSite g then Some (gt_maxPerSite g) else None)"

fun gate_charges :: "gate \<Rightarrow> string \<times> bool \<Rightarrow> gate_key \<Rightarrow> bool" where
  "gate_charges g l Slots \<longleftrightarrow> True"
| "gate_charges g l (OfSite s) \<longleftrightarrow> fst l = s"

definition gate_acq :: "gate \<Rightarrow> string \<times> bool \<Rightarrow> gate option" where
  "gate_acq g l = (case acquireGate (Some g) (fst l) (snd l) of (Some g', True) \<Rightarrow> Some g' | _ \<Rightarrow> None)"

definition gate_rel :: "gate \<Rightarrow> string \<times> bool \<Rightarrow> gate" where
  "gate_rel g l = the (releaseGate (Some g) (fst l))"

lemma gate_rel_eq: "gate_rel g l = releaseSite (g\<lparr>gt_slots := gt_slots g - 1\<rparr>) (fst l)"
  by (simp add: gate_rel_def releaseGate_def)

lemma gate_acq_Some:
  "gate_acq g l = Some g' \<Longrightarrow>
     g' = g\<lparr>gt_perSite := bump (gt_perSite g) (fst l), gt_slots := gt_slots g + 1\<rparr> \<and> gt_slots g < gt_max g
     \<and> (0 < gt_maxPerSite g \<longrightarrow> count_of (gt_perSite g) (fst l) < gt_maxPerSite g)"
  by (auto simp: gate_acq_def acquireGate_def Let_def split: if_split_asm)

lemma gate_cap_iff: "gate_cap g k =
    (case k of Slots \<Rightarrow> Some (gt_max g) | OfSite s \<Rightarrow> if 0 < gt_maxPerSite g then Some (gt_maxPerSite g) else None)"
  by (cases k) simp_all

lemma gate_charges_iff: "gate_charges g l k \<longleftrightarrow> (case k of Slots \<Rightarrow> True | OfSite s \<Rightarrow> fst l = s)"
  by (cases k) simp_all

text \<open>A refusal leaves the gate as it was.\<close>

lemma refused_unchanged:
  assumes "tidy (gt_perSite g)" "acquireGate (Some g) site bytes = (g', False)"
  shows "g' = Some g"
  using assms drop_bump [OF assms(1), of site]
  by (auto simp: acquireGate_def Let_def releaseSite_def split: if_split_asm)

interpretation fetch: leasing gate_acq gate_rel gate_held gate_cap gate_charges "\<lambda>g. tidy (gt_perSite g)"
proof (unfold_locales, goal_cases)
  case (2 g l g' k)
  then show ?case using gate_acq_Some [OF 2(2)] by (cases k) (auto simp: counter_simps)
next
  case (3 g l g' k c)
  then show ?case using gate_acq_Some [OF 3(2)] by (cases k) (auto split: if_split_asm)
next
  case (4 g l g')
  then show ?case using gate_acq_Some [OF 4(2)] by (auto simp: fun_eq_iff gate_cap_iff gate_charges_iff split: gate_key.split)
next
  case (6 g l k)
  have "0 < count_of (gt_perSite g) (fst l)" using 6(2) [of "OfSite (fst l)"] by simp
  then show ?case by (cases k) (auto simp: gate_rel_eq releaseSite_def counter_simps)
qed (auto simp: gate_rel_eq releaseSite_def counter_simps fun_eq_iff gate_cap_iff gate_charges_iff
    split: gate_key.split dest!: gate_acq_Some)


section \<open>Properties\<close>

text \<open>A history of insertions, each with its own iteration order, site, key and object.\<close>

fun run_puts :: "((cache \<Rightarrow> string list) \<times> string \<times> string \<times> object) list \<Rightarrow> cache \<Rightarrow> cache option" where
  "run_puts [] c = Some c"
| "run_puts ((ord, site, key, obj) # ps) c =
     (case cachePut ord site key obj c of None \<Rightarrow> None | Some c' \<Rightarrow> run_puts ps c')"

lemma run_puts_ok:
  assumes "\<forall>p \<in> set ps. visits_all (fst p)" "balanced c" "bounded c"
  shows "\<exists>c'. run_puts ps c = Some c' \<and> balanced c' \<and> bounded c'
    \<and> ca_budget c' = ca_budget c \<and> ca_perSite c' = ca_perSite c
    \<and> (\<forall>k obj. ca_entries c' k = Some obj \<longrightarrow> ca_entries c k = Some obj \<or> (k, obj) \<in> (snd \<circ> snd) ` set ps)"
  using assms
proof (induction ps arbitrary: c)
  case Nil
  then show ?case by simp
next
  case (Cons p ps)
  obtain ord site key obj where p: "p = (ord, site, key, obj)" by (metis prod_cases4)
  have ord: "visits_all ord" using Cons.prems(1) by (simp add: p)
  from cachePut_result [OF ord Cons.prems(2,3), of site key obj] obtain c1 where c1:
    "cachePut ord site key obj c = Some c1" "balanced c1" "bounded c1"
    "ca_budget c1 = ca_budget c" "ca_perSite c1 = ca_perSite c"
    "ca_entries c1 \<subseteq>\<^sub>m (if ca_entries c key = None then (ca_entries c)(key \<mapsto> obj) else ca_entries c)" by blast
  have step: "ca_entries c1 k = Some x \<Longrightarrow> ca_entries c k = Some x \<or> (k = key \<and> x = obj)" for k x
  proof -
    assume "ca_entries c1 k = Some x"
    then have "(if ca_entries c key = None then (ca_entries c)(key \<mapsto> obj) else ca_entries c) k = Some x"
      using c1(6) by (metis domI map_le_def)
    then show ?thesis by (simp split: if_split_asm)
  qed
  have rest: "\<forall>p \<in> set ps. visits_all (fst p)" using Cons.prems(1) by simp
  from Cons.IH [OF rest c1(2,3)] obtain c' where c': "run_puts ps c1 = Some c'" "balanced c'" "bounded c'"
    "ca_budget c' = ca_budget c1" "ca_perSite c' = ca_perSite c1"
    "\<forall>k obj. ca_entries c' k = Some obj \<longrightarrow> ca_entries c1 k = Some obj \<or> (k, obj) \<in> (snd \<circ> snd) ` set ps" by blast
  have "\<forall>k x. ca_entries c' k = Some x \<longrightarrow> ca_entries c k = Some x \<or> (k, x) \<in> (snd \<circ> snd) ` set (p # ps)"
    using c'(6) step by (auto simp: p image_iff)
  then show ?case using c' c1(1,4,5) by (simp add: p)
qed

text \<open>C26: the object cache keeps its books and its budget. After any history of insertions, with the
  entries visited in any order by each eviction, every insertion has returned, the bytes charged, in
  all and by site, are exactly the cost of the entries held, they never exceed the budget and the
  per-site share of it, and every object held is one that was put under that key.\<close>

theorem cache_within_budget:
  assumes "\<forall>p \<in> set ps. visits_all (fst p)" "0 \<le> budget"
  shows "\<exists>c. run_puts ps (newCache budget) = Some c
    \<and> ca_used c = (\<Sum>k \<in> dom (ca_entries c). charge_at c k) \<and> ca_used c \<le> budget
    \<and> (\<forall>s. count_of (ca_siteUsed c) s = (\<Sum>k | ca_entrySites c k = Some s. charge_at c k)
         \<and> count_of (ca_siteUsed c) s \<le> min budget (32 * 2 ^ 20))
    \<and> (\<forall>k obj. ca_entries c k = Some obj \<longrightarrow> (k, obj) \<in> (snd \<circ> snd) ` set ps)"
proof -
  obtain c where c: "run_puts ps (newCache budget) = Some c"
    "balanced c" "bounded c" "ca_budget c = budget" "ca_perSite c = min budget (32 * 2 ^ 20)"
    "\<forall>k obj. ca_entries c k = Some obj \<longrightarrow> (k, obj) \<in> (snd \<circ> snd) ` set ps"
  proof -
    have n: "ca_entries (newCache budget) = Map.empty" "ca_budget (newCache budget) = budget"
      "ca_perSite (newCache budget) = min budget (32 * 2 ^ 20)" by (simp_all add: newCache_def)
    show thesis using run_puts_ok [OF assms(1) newCache_ok(1,2) [of budget]] that unfolding n by auto
  qed
  have "ca_used c \<le> budget" "count_of (ca_siteUsed c) s \<le> min budget (32 * 2 ^ 20)" for s
    using c(3) assms(2) by (simp_all add: bounded_def c(4,5))
  then show ?thesis using c(1,2,6) by (auto simp: balanced_def)
qed

text \<open>An insertion stores what fits and is fair. It always returns; an object that fits both budgets is
  then found under its key, unless an earlier one is kept; no entry is made up; and while the cache
  has room, an insertion evicts no entry of another site.\<close>

theorem cache_put_effect:
  assumes "visits_all ord" "balanced c" "bounded c"
  shows "\<exists>c'. cachePut ord site key obj c = Some c' \<and> balanced c' \<and> bounded c'
    \<and> (0 < ca_budget c \<and> entryCharge key obj \<le> min (ca_budget c) (ca_perSite c) \<longrightarrow>
         cacheGet c' key = Some (case cacheGet c key of None \<Rightarrow> obj | Some old \<Rightarrow> old))
    \<and> (\<forall>k. k \<noteq> key \<longrightarrow> cacheGet c' k = None \<or> cacheGet c' k = cacheGet c k)
    \<and> (site \<noteq> [] \<and> ca_used c + entryCharge key obj \<le> ca_budget c \<longrightarrow> others_kept site c c')"
proof -
  from cachePut_result [OF assms, of site key obj] obtain c' where c':
    "cachePut ord site key obj c = Some c'" "balanced c'" "bounded c'" "ca_budget c' = ca_budget c"
    "ca_entries c' \<subseteq>\<^sub>m (if ca_entries c key = None then (ca_entries c)(key \<mapsto> obj) else ca_entries c)"
    "0 < ca_budget c \<and> entryCharge key obj \<le> min (ca_budget c) (ca_perSite c) \<longrightarrow>
       ca_entries c' key = Some (case ca_entries c key of None \<Rightarrow> obj | Some old \<Rightarrow> old)"
    "site \<noteq> [] \<and> ca_used c + entryCharge key obj \<le> ca_budget c \<longrightarrow> others_kept site c c'" by blast
  have "cacheGet c' k = None \<or> cacheGet c' k = cacheGet c k" if "k \<noteq> key" for k
  proof (cases "ca_entries c' k")
    case (Some x)
    then have "ca_entries c k = Some x" using c'(5) that by (auto simp: map_le_def dom_def split: if_split_asm)
    then show ?thesis using Some c'(4) by (simp add: cacheGet_def)
  qed (simp add: cacheGet_def)
  moreover have "0 < ca_budget c \<and> entryCharge key obj \<le> min (ca_budget c) (ca_perSite c) \<longrightarrow>
      cacheGet c' key = Some (case cacheGet c key of None \<Rightarrow> obj | Some old \<Rightarrow> old)"
    using c'(4,6) by (simp add: cacheGet_def)
  ultimately show ?thesis using c'(1,2,3,7) by blast
qed

text \<open>The fetch gate is exact. After any run of acquisitions (with any answers of the byte semaphore) and
  releases, the slots taken and each site's count are those of the fetches in flight, neither exceeds
  its limit, a refused acquisition changes nothing, and when all are released the gate is empty.\<close>

theorem fetch_gate_fair:
  assumes "newFetchGate maxConcurrent maxInflightBytes [m] = Some g0" "0 < m"
    and "lease_run gate_acq gate_rel (g0, []) es = (g, ls)"
  shows "gt_slots g = int (length (filter snd ls)) \<and> gt_slots g \<le> maxConcurrent
    \<and> count_of (gt_perSite g) s = int (length (filter (\<lambda>x. snd x \<and> fst (fst x) = s) ls))
    \<and> count_of (gt_perSite g) s \<le> m
    \<and> (\<forall>site bytes g'. acquireGate (Some g) site bytes = (g', False) \<longrightarrow> g' = Some g)
    \<and> ((\<forall>x \<in> set ls. \<not> snd x) \<longrightarrow> gt_perSite g = Map.empty \<and> gt_slots g = 0)"
proof -
  from assms(1) have g0: "g0 = \<lparr>gt_slots = 0, gt_max = maxConcurrent, gt_perSite = Map.empty, gt_maxPerSite = m,
      gt_bytes = (0 < maxInflightBytes)\<rparr>" and pos: "0 < maxConcurrent"
    by (simp_all add: newFetchGate_def split: if_split_asm)
  have inv: "tidy (gt_perSite g0)" by (simp add: g0 counter_simps)
  have zero: "gate_held g0 k = 0" for k by (cases k) (simp_all add: g0 counter_simps)
  note run = inv zero assms(3)
  have tidy: "tidy (gt_perSite g)" by (rule fetch.run_inv [OF run])
  have "gt_perSite g = Map.empty \<and> gt_slots g = 0" if "\<forall>x \<in> set ls. \<not> snd x"
    using fetch.run_drained [OF run that, of Slots] fetch.run_drained [OF run that, of "OfSite _"] tidy
    by (auto intro!: tidy_zero_empty)
  moreover have "gt_slots g \<le> maxConcurrent" "count_of (gt_perSite g) s \<le> m"
    using fetch.run_capped [OF run, of Slots maxConcurrent] fetch.run_capped [OF run, of "OfSite s" m] assms(2) pos
    by (simp_all add: g0)
  moreover have "gt_slots g = int (length (filter snd ls))"
      "count_of (gt_perSite g) s = int (length (filter (\<lambda>x. snd x \<and> fst (fst x) = s) ls))"
    using fetch.run_exact [OF run, of Slots] fetch.run_exact [OF run, of "OfSite s"] by simp_all
  ultimately show ?thesis using refused_unchanged [OF tidy] by blast
qed

subsection \<open>Concrete caches\<close>

definition ex_object :: "string \<Rightarrow> object" where
  "ex_object body = \<lparr>ob_body = body, ob_spare = 0, ob_contentType = [], ob_etag = [], ob_negative = False\<rparr>"

text \<open>The entries in the order of their keys.\<close>

definition by_key :: "cache \<Rightarrow> string list" where
  "by_key c = sorted_list_of_set (dom (ca_entries c))"

lemma by_key_visits_all: "visits_all by_key"
  by (simp add: visits_all_def by_key_def)

text \<open>A budget of 600 holds two objects of charge 259; the third evicts the first in key order.\<close>

definition ex_puts :: "((cache \<Rightarrow> string list) \<times> string \<times> string \<times> object) list" where
  "ex_puts = [(by_key, ''s'', ''a'', ex_object ''xy''), (by_key, ''t'', ''b'', ex_object ''xy''), (by_key, ''t'', ''c'', ex_object ''xy'')]"

theorem cache_within_budget_witness:
  "\<exists>c. run_puts ex_puts (newCache 600) = Some c \<and> ca_used c \<le> 600
    \<and> (\<forall>k obj. ca_entries c k = Some obj \<longrightarrow> k \<in> {''a'', ''b'', ''c''})"
proof -
  have "\<forall>p \<in> set ex_puts. visits_all (fst p)" by (simp add: ex_puts_def by_key_visits_all)
  from cache_within_budget [OF this, of 600] obtain c where c: "run_puts ex_puts (newCache 600) = Some c" "ca_used c \<le> 600"
    "\<forall>k obj. ca_entries c k = Some obj \<longrightarrow> (k, obj) \<in> (snd \<circ> snd) ` set ex_puts" by auto
  have "\<forall>k obj. ca_entries c k = Some obj \<longrightarrow> k \<in> {''a'', ''b'', ''c''}" using c(3) by (force simp: ex_puts_def)
  then show ?thesis using c(1,2) by blast
qed

theorem cache_put_effect_witness:
  "\<exists>c'. cachePut by_key ''s'' ''a'' (ex_object ''xy'') (newCache 600) = Some c' \<and> cacheGet c' ''a'' = Some (ex_object ''xy'')"
proof -
  have c: "ca_budget (newCache 600) = 600" "ca_perSite (newCache 600) = 600" "ca_entries (newCache 600) = Map.empty"
    by (simp_all add: newCache_def)
  have fits: "entryCharge ''a'' (ex_object ''xy'') = 259" by (simp add: entryCharge_def entryOverhead_def ex_object_def)
  from cache_put_effect [OF by_key_visits_all newCache_ok, of "''s''" "''a''" "ex_object ''xy''" 600]
  obtain c' where "cachePut by_key ''s'' ''a'' (ex_object ''xy'') (newCache 600) = Some c'"
    "cacheGet c' ''a'' = Some (case cacheGet (newCache 600) ''a'' of None \<Rightarrow> ex_object ''xy'' | Some old \<Rightarrow> old)"
    unfolding c fits by auto
  moreover have "cacheGet (newCache 600) ''a'' = None" by (simp add: cacheGet_def c)
  ultimately show ?thesis by simp
qed

theorem fetch_gate_fair_witness:
  "\<exists>g0 g ls. newFetchGate 2 0 [1] = Some g0
    \<and> lease_run gate_acq gate_rel (g0, []) [Ask (''s'', True), Ask (''s'', True), Ask (''t'', True), Release 0] = (g, ls)
    \<and> gt_slots g = 1 \<and> count_of (gt_perSite g) ''t'' = 1"
proof -
  obtain g0 where g0: "newFetchGate 2 0 [1] = Some g0" by (simp add: newFetchGate_def)
  obtain g ls where run: "lease_run gate_acq gate_rel (g0, []) [Ask (''s'', True), Ask (''s'', True), Ask (''t'', True), Release 0] = (g, ls)"
    by (metis surj_pair)
  have "ls = [((''s'', True), False), ((''t'', True), True)]"
    using run g0 by (auto simp: newFetchGate_def gate_acq_def gate_rel_def acquireGate_def releaseGate_def releaseSite_def
        bump_def drop_count_def count_of_def Let_def)
  then show ?thesis using fetch_gate_fair [OF g0 _ run, of "''t''"] g0 run by auto
qed

end
