(* ===== verification/StaticRules.thy ===== *)
theory StaticRules
  imports GoText
begin

text \<open>
  Paths, object keys and edge rules of the static-site server
  (\<open>operator/internal/staticserver/staticserver.go\<close>): request-path normalisation, the object and cache
  keys of a site, redirect and rewrite rules with captures, and custom header rules. Of Go's library
  the model has \<open>path.Clean\<close> and \<open>path.Ext\<close>, the header-key canonicalisation, and \<open>url.Parse\<close> on the two shapes
  a rule may have, a rooted local path and an \<open>http(s)://\<close> address. An authority with user information,
  brackets or escapes is kept as written by the model's parser: Go's parser or \<open>safeAbsoluteHost\<close> refuses it,
  and so does the model's \<open>safeAbsoluteHost\<close>.
\<close>

section \<open>Paths\<close>

fun join :: "string \<Rightarrow> string list \<Rightarrow> string" where
  "join sep [] = []"
| "join sep [x] = x"
| "join sep (x # y # ys) = x @ sep @ join sep (y # ys)"

text \<open>\<open>path.Clean\<close> of a rooted path: the segments kept so far are a stack.\<close>

fun clean_segs :: "string list \<Rightarrow> string list \<Rightarrow> string list" where
  "clean_segs st [] = rev st"
| "clean_segs st (x # xs) =
     (if x = [] \<or> x = ''.'' then clean_segs st xs
      else if x = ''..'' then clean_segs (tl st) xs
      else clean_segs (x # st) xs)"

definition path_clean :: "string \<Rightarrow> string" where
  "path_clean p = CHR ''/'' # join ''/'' (clean_segs [] (split_on CHR ''/'' p))"

definition path_ext :: "string \<Rightarrow> string" where
  "path_ext p =
     (let base = takeWhile (\<lambda>c. c \<noteq> CHR ''/'') (rev p)
      in if CHR ''.'' \<in> set base then CHR ''.'' # rev (takeWhile (\<lambda>c. c \<noteq> CHR ''.'') base) else [])"

definition normalizePath :: "string \<Rightarrow> string" where
  "normalizePath p =
     (if p = [] then ''/''
      else
        let trailing = (ends_with ''/'' p \<and> p \<noteq> ''/'');
            c = path_clean (CHR ''/'' # trim_prefix ''/'' p)
        in if trailing \<and> \<not> ends_with ''/'' c then c @ ''/'' else c)"

definition lookupPath :: "string \<Rightarrow> string" where
  "lookupPath reqPath =
     (if reqPath = ''/'' \<or> ends_with ''/'' reqPath then trim_suffix ''/'' reqPath @ ''/index.html'' else reqPath)"

definition hostOnly :: "string \<Rightarrow> string" where
  "hostOnly host = fst (cut_at CHR '':'' host)"

section \<open>Sites and keys\<close>

datatype rule_type = Redirect | Rewrite | OtherType

record static_route =
  rt_type :: rule_type
  rt_source :: string
  rt_destination :: string

record static_header =
  sh_path :: string
  sh_name :: string
  sh_value :: string

record site =
  st_appID :: string
  st_revision :: string
  st_prefix :: string
  st_routes :: "static_route list"
  st_headers :: "static_header list"
  st_incarnation :: string
  st_unavailable :: bool
  st_noSPAFallback :: bool

definition maxObjectKeyBytes :: nat where "maxObjectKeyBytes = 1024"

definition key_prefix :: "site \<Rightarrow> string" where
  "key_prefix s =
     (let p = (if st_prefix s = [] then st_appID s @ ''/'' @ st_revision s @ ''/'' else st_prefix s)
      in if ends_with ''/'' p then p else p @ ''/'')"

definition keyFor :: "site \<Rightarrow> string \<Rightarrow> string" where
  "keyFor s reqPath = key_prefix s @ trim_prefix ''/'' reqPath"

definition cacheKey :: "site \<Rightarrow> string \<Rightarrow> string" where
  "cacheKey s reqPath = st_incarnation s @ CHR 0x00 # keyFor s reqPath"

definition overlongKey :: "site \<Rightarrow> string \<Rightarrow> bool" where
  "overlongKey s p \<longleftrightarrow> maxObjectKeyBytes < length (keyFor s (lookupPath p))"

section \<open>Patterns\<close>

definition matchPattern :: "string \<Rightarrow> string \<Rightarrow> string option" where
  "matchPattern pattern reqPath =
     (if pattern = ''/*'' then Some (trim_prefix ''/'' reqPath)
      else
        (case cut_suffix ''/*'' pattern of
           Some prefix \<Rightarrow>
             if reqPath = prefix then Some []
             else cut_prefix (prefix @ ''/'') reqPath
         | None \<Rightarrow> if pattern = reqPath then Some [] else None))"

definition is_alpha :: "char \<Rightarrow> bool" where
  "is_alpha c \<longleftrightarrow> (CHR ''a'' \<le> c \<and> c \<le> CHR ''z'') \<or> (CHR ''A'' \<le> c \<and> c \<le> CHR ''Z'')"

definition name_char :: "char \<Rightarrow> bool" where
  "name_char c \<longleftrightarrow> c = CHR ''_'' \<or> is_alpha c \<or> is_digit c"

definition placeholderName :: "string \<Rightarrow> string option" where
  "placeholderName segment =
     (case segment of
        c # n # name \<Rightarrow>
          if c = CHR '':'' \<and> (n = CHR ''_'' \<or> is_alpha n) \<and> list_all name_char name then Some (n # name) else None
      | _ \<Rightarrow> None)"

fun match_segs :: "string list \<Rightarrow> string list \<Rightarrow> (string \<Rightarrow> string option) \<Rightarrow> (string \<Rightarrow> string option) option" where
  "match_segs [] reqs caps = Some caps"
| "match_segs (seg # segs) [] caps = None"
| "match_segs (seg # segs) (r # reqs) caps =
     (case placeholderName seg of
        Some name \<Rightarrow> if r = [] then None else match_segs segs reqs (caps(name \<mapsto> r))
      | None \<Rightarrow> if seg \<noteq> r then None else match_segs segs reqs caps)"

text \<open>The splat and the captures of a match.\<close>

definition matchRoutePattern :: "string \<Rightarrow> string \<Rightarrow> (string \<times> (string \<Rightarrow> string option)) option" where
  "matchRoutePattern pattern reqPath =
     (let hasSplat = (cut_suffix ''/*'' pattern \<noteq> None);
          base = (case cut_suffix ''/*'' pattern of Some b \<Rightarrow> b | None \<Rightarrow> pattern);
          patSegs = split_on CHR ''/'' base;
          reqSegs = split_on CHR ''/'' reqPath
      in if \<not> list_ex (\<lambda>s. placeholderName s \<noteq> None) patSegs then
           map_option (\<lambda>splat. (splat, Map.empty)) (matchPattern pattern reqPath)
         else if length reqSegs < length patSegs \<or> (\<not> hasSplat \<and> length reqSegs \<noteq> length patSegs) then None
         else
           (case match_segs patSegs reqSegs Map.empty of
              None \<Rightarrow> None
            | Some caps \<Rightarrow>
                if \<not> hasSplat then Some ([], caps)
                else Some (join ''/'' (drop (length patSegs) reqSegs), caps)))"

section \<open>Destinations\<close>

definition maxRouteDestinationBytes :: nat where "maxRouteDestinationBytes = 2048"
definition maxExpandedRoutePathBytes :: nat where "maxExpandedRoutePathBytes = 8 * 1024"

definition control_byte :: "char \<Rightarrow> bool" where
  "control_byte c \<longleftrightarrow> (of_char c :: nat) < 0x20 \<or> c = CHR 0x7F"

definition hasControlByte :: "string \<Rightarrow> bool" where
  "hasControlByte s \<longleftrightarrow> list_ex control_byte s"

definition safeRedirectTarget :: "string \<Rightarrow> bool" where
  "safeRedirectTarget t \<longleftrightarrow> starts_with ''/'' t \<and> \<not> starts_with ''//'' t \<and> \<not> starts_with [CHR ''/'', CHR 0x5C] t
     \<and> CHR 0x5C \<notin> set t \<and> \<not> hasControlByte t"

definition hasHTTPScheme :: "string \<Rightarrow> bool" where
  "hasHTTPScheme dest \<longleftrightarrow>
     (let lower = map ascii_lower dest in starts_with ''http://'' lower \<or> starts_with ''https://'' lower)"

text \<open>A token of a destination path, and the text between the tokens.\<close>

definition token_value :: "string \<Rightarrow> (string \<Rightarrow> string option) \<Rightarrow> string \<Rightarrow> string option" where
  "token_value splat caps name = (if name = ''splat'' then Some splat else caps name)"

function expand_tokens :: "string \<Rightarrow> (string \<Rightarrow> string option) \<Rightarrow> string \<Rightarrow> string" where
  "expand_tokens splat caps [] = []"
| "expand_tokens splat caps (c # s) =
     (if c \<noteq> CHR '':'' then c # expand_tokens splat caps s
      else
        let name = takeWhile name_char s;
            rest = dropWhile name_char s
        in (if placeholderName (CHR '':'' # name) = None then c # expand_tokens splat caps s
            else
              (case token_value splat caps name of
                 Some v \<Rightarrow> v @ expand_tokens splat caps rest
               | None \<Rightarrow> (c # name) @ expand_tokens splat caps rest)))"
  by pat_completeness auto
termination
  by (relation "measure (\<lambda>(splat, caps, s). length s)") (auto simp: length_dropWhile_le less_Suc_eq_le)

fun contains :: "string \<Rightarrow> string \<Rightarrow> bool" where
  "contains p [] \<longleftrightarrow> p = []"
| "contains p (c # s) \<longleftrightarrow> starts_with p (c # s) \<or> contains p s"

text \<open>\<open>expandedLen\<close> is the length of the result.\<close>

definition substituteCaptures :: "string \<Rightarrow> string \<Rightarrow> (string \<Rightarrow> string option) \<Rightarrow> string option" where
  "substituteCaptures destPath splat caps =
     (let trailing = (\<not> contains '':splat'' destPath \<and> ends_with ''/*'' destPath);
          out = (if trailing then expand_tokens splat caps (butlast destPath) @ splat
                 else expand_tokens splat caps destPath)
      in if maxExpandedRoutePathBytes < length out then None else Some out)"

section \<open>URLs\<close>

record url =
  u_scheme :: string
  u_host :: string
  u_path :: string
  u_forceQuery :: bool
  u_query :: string
  u_fragment :: string

text \<open>\<open>u_fragment\<close> is the fragment as written, already known to unescape.\<close>

definition hex_val :: "char \<Rightarrow> nat option" where
  "hex_val c =
     (if is_digit c then Some (of_char c - 48)
      else if CHR ''a'' \<le> c \<and> c \<le> CHR ''f'' then Some (of_char c - 87)
      else if CHR ''A'' \<le> c \<and> c \<le> CHR ''F'' then Some (of_char c - 55)
      else None)"

text \<open>\<open>unescape\<close> in path mode; the query mode differs only in reading \<open>+\<close>, and fails on the same inputs.\<close>

fun unescape :: "string \<Rightarrow> string option" where
  "unescape [] = Some []"
| "unescape [c] = (if c = CHR ''%'' then None else Some [c])"
| "unescape [c, d] = (if c = CHR ''%'' then None else map_option ((#) c) (unescape [d]))"
| "unescape (c # d # e # s) =
     (if c = CHR ''%'' then
        (case (hex_val d, hex_val e) of
           (Some x, Some y) \<Rightarrow> map_option ((#) (char_of (x * 16 + y))) (unescape s)
         | _ \<Rightarrow> None)
      else map_option ((#) c) (unescape (d # e # s)))"

definition count_char :: "char \<Rightarrow> string \<Rightarrow> nat" where
  "count_char c s = length (filter (\<lambda>x. x = c) s)"

definition url_parse :: "string \<Rightarrow> url option" where
  "url_parse dest =
     (let (u, frag, _) = cut_at CHR ''#'' dest;
          absolute = hasHTTPScheme dest;
          scheme = (if absolute then map ascii_lower (takeWhile (\<lambda>c. c \<noteq> CHR '':'') u) else []);
          rest = (if absolute then drop (length scheme + 3) u else u);
          force = (ends_with ''?'' rest \<and> count_char CHR ''?'' rest = 1);
          (rest, query, _) = cut_at CHR ''?'' rest;
          host = (if absolute then takeWhile (\<lambda>c. c \<noteq> CHR ''/'') rest else []);
          rawPath = (if absolute then dropWhile (\<lambda>c. c \<noteq> CHR ''/'') rest else rest)
      in if hasControlByte u then None
         else
           (case (unescape rawPath, unescape frag) of
              (Some path, Some _) \<Rightarrow>
                Some \<lparr>u_scheme = scheme, u_host = host, u_path = path, u_forceQuery = force, u_query = query, u_fragment = frag\<rparr>
            | _ \<Rightarrow> None))"

definition hex_digit :: "nat \<Rightarrow> char" where
  "hex_digit n = (''0123456789ABCDEF'' ! n)"

definition escape_with :: "(char \<Rightarrow> bool) \<Rightarrow> string \<Rightarrow> string" where
  "escape_with keep s =
     concat (map (\<lambda>c. if keep c then [c] else [CHR ''%'', hex_digit (of_char c div 16), hex_digit (of_char c mod 16)]) s)"

definition unreserved :: "char \<Rightarrow> bool" where
  "unreserved c \<longleftrightarrow> is_alpha c \<or> is_digit c \<or> c \<in> set ''-_.~''"

definition path_keep :: "char \<Rightarrow> bool" where
  "path_keep c \<longleftrightarrow> unreserved c \<or> c \<in> set ''$&+,/:;=@''"

definition frag_keep :: "char \<Rightarrow> bool" where
  "frag_keep c \<longleftrightarrow> unreserved c \<or> c \<in> set ''$&+,/:;=?@!()*''"

definition valid_encoded :: "string \<Rightarrow> bool" where
  "valid_encoded s \<longleftrightarrow> list_all (\<lambda>c. frag_keep c \<or> c \<in> set ''[]%'' \<or> c = CHR 0x27) s"

definition fragment_string :: "string \<Rightarrow> string" where
  "fragment_string raw =
     (if valid_encoded raw then raw
      else (case unescape raw of None \<Rightarrow> raw | Some f \<Rightarrow> escape_with frag_keep f))"

text \<open>\<open>URL.String\<close>, with \<open>RawPath\<close> empty and a path that is empty or rooted.\<close>

definition url_string :: "url \<Rightarrow> string" where
  "url_string u =
     (if u_scheme u \<noteq> [] then u_scheme u @ ''://'' @ u_host u else [])
     @ (if u_path u = ''*'' then ''*'' else escape_with path_keep (u_path u))
     @ (if u_forceQuery u \<or> u_query u \<noteq> [] then CHR ''?'' # u_query u else [])
     @ (if u_fragment u \<noteq> [] then CHR ''#'' # fragment_string (u_fragment u) else [])"

definition split_host_port :: "string \<Rightarrow> string \<times> string" where
  "split_host_port h =
     (let port = takeWhile (\<lambda>c. c \<noteq> CHR '':'') (rev h)
      in if CHR '':'' \<in> set h \<and> list_all is_digit port
         then (take (length h - length port - 1) h, rev port) else (h, []))"

definition host_char :: "char \<Rightarrow> bool" where
  "host_char c \<longleftrightarrow> is_alpha c \<or> is_digit c \<or> c = CHR ''-'' \<or> c = CHR ''.''"

definition safeAbsoluteHost :: "url \<Rightarrow> bool" where
  "safeAbsoluteHost u \<longleftrightarrow> CHR ''@'' \<notin> set (u_host u) \<and> (u_scheme u = ''http'' \<or> u_scheme u = ''https'')
     \<and> fst (split_host_port (u_host u)) \<noteq> [] \<and> list_all host_char (fst (split_host_port (u_host u)))
     \<and> list_all is_digit (snd (split_host_port (u_host u)))"

definition safeRedirectLocation :: "string \<Rightarrow> url \<Rightarrow> bool" where
  "safeRedirectLocation location target \<longleftrightarrow>
     safeRedirectTarget location
     \<or> (hasHTTPScheme location \<and> safeAbsoluteHost target \<and> CHR 0x5C \<notin> set location \<and> \<not> hasControlByte location
        \<and> (u_path target = [] \<or> safeRedirectTarget (u_path target)))"

definition expandDestCaptures :: "string \<Rightarrow> string \<Rightarrow> (string \<Rightarrow> string option) \<Rightarrow> bool \<Rightarrow> url option" where
  "expandDestCaptures dest splat caps allowAbsolute =
     (if maxRouteDestinationBytes < length dest then None
      else
        let absolute = (allowAbsolute \<and> hasHTTPScheme dest)
        in if \<not> absolute \<and> \<not> safeRedirectTarget dest then None
           else
             (case url_parse dest of
                None \<Rightarrow> None
              | Some target \<Rightarrow>
                  if unescape (u_query target) = None then None
                  else if absolute \<and> (\<not> safeAbsoluteHost target \<or> CHR 0x5C \<in> set dest \<or> hasControlByte dest
                    \<or> (u_path target \<noteq> [] \<and> \<not> safeRedirectTarget (u_path target))) then None
                  else if \<not> absolute \<and> (u_host target \<noteq> [] \<or> u_scheme target \<noteq> [] \<or> \<not> safeRedirectTarget (u_path target)) then None
                  else
                    (case substituteCaptures (u_path target) splat caps of
                       None \<Rightarrow> None
                     | Some expanded \<Rightarrow>
                         if (\<not> absolute \<or> expanded \<noteq> []) \<and> \<not> safeRedirectTarget expanded then None
                         else Some (target\<lparr>u_path := expanded\<rparr>))))"

datatype route_action = ActNone | ActRedirect | ActRewrite

text \<open>The action and its target; \<open>Inl\<close> when the destination of the matching rule is refused.\<close>

fun matchRoutes :: "static_route list \<Rightarrow> string \<Rightarrow> route_action \<times> (unit + url option)" where
  "matchRoutes [] reqPath = (ActNone, Inr None)"
| "matchRoutes (rt # rts) reqPath =
     (case matchRoutePattern (rt_source rt) reqPath of
        None \<Rightarrow> matchRoutes rts reqPath
      | Some (splat, caps) \<Rightarrow>
          if rt_type rt = OtherType then matchRoutes rts reqPath
          else
            let action = (if rt_type rt = Redirect then ActRedirect else ActRewrite)
            in (case expandDestCaptures (rt_destination rt) splat caps True of
                  None \<Rightarrow> (action, Inl ())
                | Some u \<Rightarrow> (action, Inr (Some u))))"

section \<open>Header rules\<close>

definition matchHeaderPattern :: "string \<Rightarrow> string \<Rightarrow> bool" where
  "matchHeaderPattern pattern reqPath =
     (let plain = (matchPattern pattern reqPath \<noteq> None);
          glob = (case cut_at CHR ''*'' pattern of (prefix, suffix, ok) \<Rightarrow>
            if ok \<and> suffix \<noteq> [] \<and> ends_with ''/'' prefix \<and> CHR ''/'' \<notin> set suffix \<and> CHR ''*'' \<notin> set suffix then
              (case cut_prefix prefix reqPath of
                 None \<Rightarrow> False
               | Some file \<Rightarrow> CHR ''/'' \<notin> set file \<and> ends_with suffix file)
            else plain)
      in (case cut_prefix ''/**/*'' pattern of
            Some suffix \<Rightarrow>
              if CHR ''/'' \<notin> set suffix \<and> CHR ''*'' \<notin> set suffix then
                (let base = rev (takeWhile (\<lambda>c. c \<noteq> CHR ''/'') (rev reqPath))
                 in CHR ''/'' \<in> set reqPath \<and> length base + 1 < length reqPath \<and> ends_with suffix base)
              else glob
          | None \<Rightarrow> glob))"

definition token_char :: "char \<Rightarrow> bool" where
  "token_char c \<longleftrightarrow> is_alpha c \<or> is_digit c \<or> c \<in> set ''!#$%&*+-.^_`|~'' \<or> c = CHR 0x27"

fun canon_from :: "bool \<Rightarrow> string \<Rightarrow> string" where
  "canon_from upper [] = []"
| "canon_from upper (c # s) =
     (if upper then (if CHR ''a'' \<le> c \<and> c \<le> CHR ''z'' then char_of (of_char c - 32 :: nat) else c) else ascii_lower c)
       # canon_from (c = CHR ''-'') s"

definition canonicalKey :: "string \<Rightarrow> string" where
  "canonicalKey name = (if list_all token_char name then canon_from True name else name)"

definition reservedStaticHeaders :: "string list" where
  "reservedStaticHeaders =
     [''Content-Length'', ''Transfer-Encoding'', ''Connection'', ''Keep-Alive'', ''Upgrade'', ''Te'', ''Trailer'', ''Proxy-Connection'']"

definition reservedStaticHeader :: "string \<Rightarrow> bool" where
  "reservedStaticHeader name \<longleftrightarrow> canonicalKey (trim_space name) \<in> set reservedStaticHeaders"

type_synonym header = "string \<Rightarrow> string list option"

definition setHeader :: "string \<Rightarrow> string \<Rightarrow> header \<Rightarrow> header" where
  "setHeader name v h = h(canonicalKey name \<mapsto> [v])"

fun applyHeaders :: "static_header list \<Rightarrow> string \<Rightarrow> header \<Rightarrow> header" where
  "applyHeaders [] reqPath h = h"
| "applyHeaders (r # rs) reqPath h =
     applyHeaders rs reqPath
       (if reservedStaticHeader (sh_name r) then h
        else if matchHeaderPattern (sh_path r) reqPath then setHeader (sh_name r) (sh_value r) h else h)"

definition errorBodyHeaderNames :: "string list" where
  "errorBodyHeaderNames = [''Content-Type'', ''Content-Length'', ''Transfer-Encoding'']"

fun applyErrorHeaders :: "static_header list \<Rightarrow> string \<Rightarrow> header \<Rightarrow> header" where
  "applyErrorHeaders [] reqPath h = h"
| "applyErrorHeaders (r # rs) reqPath h =
     applyErrorHeaders rs reqPath
       (if canonicalKey (sh_name r) \<in> set errorBodyHeaderNames then h
        else if matchHeaderPattern (sh_path r) reqPath then setHeader (sh_name r) (sh_value r) h else h)"

section \<open>Paths are clean\<close>

definition plain_seg :: "string \<Rightarrow> bool" where
  "plain_seg x \<longleftrightarrow> x \<noteq> [] \<and> x \<noteq> ''.'' \<and> x \<noteq> ''..'' \<and> CHR ''/'' \<notin> set x"

lemma split_on_no_sep: "x \<in> set (split_on sep s) \<Longrightarrow> sep \<notin> set x"
  by (induction s arbitrary: x) (auto split: if_split_asm list.splits)

lemma split_on_nonempty: "split_on sep s \<noteq> []"
  by (induction s) (auto split: list.splits)

lemma split_on_append: "sep \<notin> set x \<Longrightarrow> split_on sep (x @ sep # s) = x # split_on sep s"
  by (induction x) (auto split: list.splits)

lemma split_on_single: "sep \<notin> set x \<Longrightarrow> split_on sep x = [x]"
  by (induction x) auto

lemma split_on_join:
  "xs \<noteq> [] \<Longrightarrow> list_all (\<lambda>x. sep \<notin> set x) xs \<Longrightarrow> split_on sep (join [sep] xs) = xs"
proof (induction xs)
  case (Cons x xs)
  then show ?case by (cases xs) (simp_all add: split_on_single split_on_append)
qed simp

lemma clean_segs_plain:
  "list_all plain_seg st \<Longrightarrow> list_all (\<lambda>x. CHR ''/'' \<notin> set x) xs \<Longrightarrow> list_all plain_seg (clean_segs st xs)"
proof (induction st xs rule: clean_segs.induct)
  case (2 st x xs)
  have "list_all plain_seg (tl st)" using 2(4) by (cases st) simp_all
  moreover have "plain_seg x" if "x \<noteq> []" "x \<noteq> ''.''" "x \<noteq> ''..''"
    using that 2(5) by (simp add: plain_seg_def)
  ultimately show ?case using 2 by simp
qed (simp add: list_all_iff)

lemma clean_segs_id: "list_all plain_seg xs \<Longrightarrow> clean_segs st xs = rev st @ xs"
  by (induction st xs rule: clean_segs.induct) (auto simp: plain_seg_def)

lemma clean_segs_last_empty: "clean_segs st (xs @ [[]]) = clean_segs st xs"
  by (induction st xs rule: clean_segs.induct) auto

lemma path_clean_form: "\<exists>segs. list_all plain_seg segs \<and> path_clean p = CHR ''/'' # join ''/'' segs"
proof -
  have "list_all (\<lambda>x. CHR ''/'' \<notin> set x) (split_on CHR ''/'' p)" by (auto simp: list_all_iff dest: split_on_no_sep)
  then have "list_all plain_seg (clean_segs [] (split_on CHR ''/'' p))" by (intro clean_segs_plain) simp_all
  then show ?thesis by (auto simp: path_clean_def)
qed

lemma join_snoc: "xs \<noteq> [] \<Longrightarrow> join sep xs @ sep @ y = join sep (xs @ [y])"
  by (induction sep xs rule: join.induct) auto

lemma path_clean_id:
  assumes "list_all plain_seg segs"
  shows "path_clean (CHR ''/'' # join ''/'' segs) = CHR ''/'' # join ''/'' segs"
    and "segs \<noteq> [] \<Longrightarrow> path_clean (CHR ''/'' # join ''/'' segs @ ''/'') = CHR ''/'' # join ''/'' segs"
proof -
  have noslash: "list_all (\<lambda>x. CHR ''/'' \<notin> set x) segs" using assms by (auto simp: list_all_iff plain_seg_def)
  show "path_clean (CHR ''/'' # join ''/'' segs) = CHR ''/'' # join ''/'' segs"
  proof (cases "segs = []")
    case False
    then show ?thesis using split_on_join [OF False noslash] clean_segs_id [OF assms, of "[]"] by (simp add: path_clean_def)
  qed (simp add: path_clean_def)
  assume ne: "segs \<noteq> []"
  have "split_on CHR ''/'' (join ''/'' segs @ ''/'') = segs @ [[]]"
    using join_snoc [OF ne, of "''/''" "[]"] split_on_join [of "segs @ [[]]" "CHR ''/''"] noslash by simp
  then show "path_clean (CHR ''/'' # join ''/'' segs @ ''/'') = CHR ''/'' # join ''/'' segs"
    using clean_segs_id [OF assms, of "[]"] by (simp add: path_clean_def clean_segs_last_empty)
qed

lemma join_ends:
  assumes "list_all plain_seg segs" "segs \<noteq> []"
  shows "join ''/'' segs \<noteq> []" "last (join ''/'' segs) \<noteq> CHR ''/''"
proof -
  have "join ''/'' segs \<noteq> [] \<and> last (join ''/'' segs) \<noteq> CHR ''/''"
    using assms
  proof (induction "''/''" segs rule: join.induct)
    case (2 x)
    then have x: "x \<noteq> []" "CHR ''/'' \<notin> set x" by (simp_all add: plain_seg_def)
    then have "last x \<noteq> CHR ''/''" using last_in_set [OF x(1)] by metis
    then show ?case using x by simp
  qed auto
  then show "join ''/'' segs \<noteq> []" "last (join ''/'' segs) \<noteq> CHR ''/''" by simp_all
qed

lemma ends_with_single: "ends_with [c] s \<longleftrightarrow> s \<noteq> [] \<and> last s = c"
  by (cases s rule: rev_cases) (simp_all add: ends_with_def)

text \<open>A normalised path: rooted, of plain segments, with or without a final slash.\<close>

definition clean_path :: "string \<Rightarrow> bool" where
  "clean_path p \<longleftrightarrow> (\<exists>segs. list_all plain_seg segs \<and>
     (p = CHR ''/'' # join ''/'' segs \<or> (segs \<noteq> [] \<and> p = CHR ''/'' # join ''/'' segs @ ''/'')))"

lemma normalizePath_clean: "clean_path (normalizePath p)"
proof (cases "p = []")
  case True
  then show ?thesis by (auto simp: normalizePath_def clean_path_def intro: exI [of _ "[]"])
next
  case False
  let ?q = "CHR ''/'' # trim_prefix ''/'' p"
  obtain segs where s: "list_all plain_seg segs" "path_clean ?q = CHR ''/'' # join ''/'' segs"
    using path_clean_form [of ?q] by blast
  have "segs = [] \<Longrightarrow> ends_with ''/'' (path_clean ?q)" by (simp add: s(2) ends_with_single)
  then show ?thesis using s False by (auto simp: normalizePath_def clean_path_def Let_def)
qed

lemma clean_path_fixed:
  assumes "clean_path p"
  shows "normalizePath p = p"
proof -
  obtain segs where s: "list_all plain_seg segs"
    "p = CHR ''/'' # join ''/'' segs \<or> (segs \<noteq> [] \<and> p = CHR ''/'' # join ''/'' segs @ ''/'')"
    using assms by (auto simp: clean_path_def)
  have trim: "CHR ''/'' # trim_prefix ''/'' (CHR ''/'' # t) = CHR ''/'' # t" for t
    by (simp add: trim_prefix_def starts_with_def)
  show ?thesis
  proof (cases "segs = []")
    case True
    then have "p = ''/''" using s(2) by auto
    then show ?thesis using path_clean_id(1) [of "[]"] by (simp add: normalizePath_def trim_prefix_def starts_with_def)
  next
    case False
    note j = join_ends [OF s(1) False] and id = path_clean_id [OF s(1)]
    from s(2) show ?thesis
    proof
      assume p: "p = CHR ''/'' # join ''/'' segs"
      have "\<not> ends_with ''/'' p" using j by (simp add: p ends_with_single)
      then show ?thesis using id(1) by (simp add: normalizePath_def p trim)
    next
      assume p: "segs \<noteq> [] \<and> p = CHR ''/'' # join ''/'' segs @ ''/''"
      have "\<not> ends_with ''/'' (CHR ''/'' # join ''/'' segs)" using j by (simp add: ends_with_single)
      moreover have "ends_with ''/'' p" using p by (simp add: ends_with_single)
      moreover have "p \<noteq> ''/''" using p j by simp
      ultimately show ?thesis using id(2) p by (simp add: normalizePath_def trim Let_def)
    qed
  qed
qed

text \<open>C27: request paths are normalised. Whatever a client sends, the path used for lookups and rules is
  rooted, has no empty, dot or dot-dot segment, and normalising it again changes nothing.\<close>

theorem request_path_clean: "clean_path (normalizePath p) \<and> normalizePath (normalizePath p) = normalizePath p"
  using normalizePath_clean clean_path_fixed by blast

section \<open>Keys\<close>

lemma nul_split:
  assumes "CHR 0x00 \<notin> set a" "CHR 0x00 \<notin> set b" "a @ CHR 0x00 # x = b @ CHR 0x00 # y"
  shows "a = b \<and> x = y"
proof -
  have "(a, x, True) = cut_at (CHR 0x00) (a @ CHR 0x00 # x)" by (rule cut_at_append [OF assms(1), symmetric])
  also have "\<dots> = cut_at (CHR 0x00) (b @ CHR 0x00 # y)" by (rule arg_cong [OF assms(3)])
  also have "\<dots> = (b, y, True)" by (rule cut_at_append [OF assms(2)])
  finally show ?thesis by (simp only: prod.inject)
qed

lemma cacheKey_inj:
  assumes "CHR 0x00 \<notin> set (st_incarnation s)" "CHR 0x00 \<notin> set (st_incarnation t)" "cacheKey s p = cacheKey t q"
  shows "st_incarnation s = st_incarnation t \<and> keyFor s p = keyFor t q"
  by (rule nul_split [OF assms(1,2)]) (use assms(3) in \<open>simp only: cacheKey_def\<close>)

lemma keyFor_inj: "keyFor s (CHR ''/'' # p) = keyFor s (CHR ''/'' # q) \<Longrightarrow> p = q"
  by (simp add: keyFor_def trim_prefix_def starts_with_def)

lemma keyFor_prefix: "\<exists>r. keyFor s p = key_prefix s @ r"
  by (simp add: keyFor_def)

section \<open>Redirects stay on the rule's host\<close>

text \<open>What a refused destination never gives: the target keeps the scheme and host its rule was written with.\<close>

lemma expandDest_host:
  assumes "expandDestCaptures dest splat caps True = Some u"
  shows "\<exists>t. url_parse dest = Some t \<and> u_scheme u = u_scheme t \<and> u_host u = u_host t
    \<and> (if hasHTTPScheme dest then safeAbsoluteHost u \<and> (u_path u = [] \<or> safeRedirectTarget (u_path u))
       else u_scheme u = [] \<and> u_host u = [] \<and> safeRedirectTarget (u_path u))"
  using assms
  by (auto simp: expandDestCaptures_def Let_def safeAbsoluteHost_def split: if_split_asm option.splits)

lemma matchRoutes_rule:
  assumes "matchRoutes rts p = (act, Inr (Some u))"
  shows "\<exists>rt \<in> set rts. \<exists>splat caps. matchRoutePattern (rt_source rt) p = Some (splat, caps)
    \<and> act = (if rt_type rt = Redirect then ActRedirect else ActRewrite) \<and> rt_type rt \<noteq> OtherType
    \<and> expandDestCaptures (rt_destination rt) splat caps True = Some u"
  using assms
proof (induction rts)
  case Nil
  then show ?case by simp
next
  case (Cons rt rts)
  show ?case
  proof (cases "matchRoutePattern (rt_source rt) p")
    case None
    then show ?thesis using Cons by auto
  next
    case (Some sc)
    obtain splat caps where sc: "sc = (splat, caps)" by (cases sc)
    show ?thesis
    proof (cases "rt_type rt = OtherType")
      case True
      then show ?thesis using Cons Some sc by auto
    next
      case False
      then have "expandDestCaptures (rt_destination rt) splat caps True = Some u
          \<and> act = (if rt_type rt = Redirect then ActRedirect else ActRewrite)"
        using Cons.prems Some sc by (auto simp: Let_def split: option.splits)
      then show ?thesis using Some sc False by auto
    qed
  qed
qed

lemma escape_path_start:
  "safeRedirectTarget p \<Longrightarrow> \<exists>s. escape_with path_keep p = CHR ''/'' # s"
  by (cases p) (auto simp: safeRedirectTarget_def starts_with_def escape_with_def path_keep_def)

text \<open>What follows the authority in a location.\<close>

definition after_host :: "string \<Rightarrow> bool" where
  "after_host r \<longleftrightarrow> r = [] \<or> hd r \<in> {CHR ''/'', CHR ''?'', CHR ''#''}"

lemma url_string_absolute:
  assumes "u_scheme u \<noteq> []" "u_path u = [] \<or> safeRedirectTarget (u_path u)"
  shows "\<exists>r. url_string u = u_scheme u @ ''://'' @ u_host u @ r \<and> after_host r"
proof -
  let ?q = "(if u_forceQuery u \<or> u_query u \<noteq> [] then CHR ''?'' # u_query u else [])
     @ (if u_fragment u \<noteq> [] then CHR ''#'' # fragment_string (u_fragment u) else [])"
  have q: "after_host ?q" by (simp add: after_host_def)
  from assms(2) show ?thesis
  proof
    assume "u_path u = []"
    then have "url_string u = u_scheme u @ ''://'' @ u_host u @ ?q" using assms(1) by (simp add: url_string_def escape_with_def)
    then show ?thesis using q by blast
  next
    assume p: "safeRedirectTarget (u_path u)"
    then obtain s where s: "escape_with path_keep (u_path u) = CHR ''/'' # s" using escape_path_start by blast
    have "u_path u \<noteq> ''*''" using p by (auto simp: safeRedirectTarget_def starts_with_def)
    then have "url_string u = u_scheme u @ ''://'' @ u_host u @ (CHR ''/'' # s @ ?q)"
      using assms(1) s by (simp add: url_string_def)
    then show ?thesis by (intro exI [of _ "CHR ''/'' # s @ ?q"]) (simp add: after_host_def)
  qed
qed

lemma url_string_local: "u_scheme u = [] \<Longrightarrow> safeRedirectTarget (u_path u) \<Longrightarrow> \<not> hasHTTPScheme (url_string u)"
  using escape_path_start [of "u_path u"]
  by (auto simp: url_string_def hasHTTPScheme_def starts_with_def ascii_lower_def safeRedirectTarget_def Let_def)

lemma redirect_location:
  assumes "matchRoutes rts p = (ActRedirect, Inr (Some u))" "safeRedirectLocation (url_string u) u"
  shows "safeRedirectTarget (url_string u)
    \<or> (\<exists>rt \<in> set rts. \<exists>t r. rt_type rt = Redirect \<and> hasHTTPScheme (rt_destination rt) \<and> url_parse (rt_destination rt) = Some t
         \<and> safeAbsoluteHost t \<and> url_string u = u_scheme t @ ''://'' @ u_host t @ r \<and> after_host r)"
proof (cases "safeRedirectTarget (url_string u)")
  case False
  obtain rt splat caps where rt: "rt \<in> set rts" "rt_type rt = Redirect"
      "expandDestCaptures (rt_destination rt) splat caps True = Some u"
    using matchRoutes_rule [OF assms(1)] by (auto split: if_split_asm)
  from expandDest_host [OF rt(3)] obtain t where t: "url_parse (rt_destination rt) = Some t"
      "u_scheme u = u_scheme t" "u_host u = u_host t"
      "if hasHTTPScheme (rt_destination rt) then safeAbsoluteHost u \<and> (u_path u = [] \<or> safeRedirectTarget (u_path u))
       else u_scheme u = [] \<and> u_host u = [] \<and> safeRedirectTarget (u_path u)" by blast
  have http: "hasHTTPScheme (url_string u)" using assms(2) False by (simp add: safeRedirectLocation_def)
  then have abs: "hasHTTPScheme (rt_destination rt)" using t(4) url_string_local [of u] by (auto split: if_split_asm)
  then have safe: "safeAbsoluteHost u" "u_path u = [] \<or> safeRedirectTarget (u_path u)" using t(4) by simp_all
  then have "u_scheme u \<noteq> []" by (auto simp: safeAbsoluteHost_def)
  from url_string_absolute [OF this safe(2)] obtain r where "url_string u = u_scheme t @ ''://'' @ u_host t @ r" "after_host r"
    using t(2,3) by auto
  moreover have "safeAbsoluteHost t" using safe(1) t(2,3) by (simp add: safeAbsoluteHost_def)
  ultimately show ?thesis using rt(1,2) abs t(1) by blast
qed simp

text \<open>A redirect never leaves for a host the client names. A location the server sends is a local path that
  browsers cannot read as another host, or it is the scheme and literal host its rule was written
  with, followed by a path, query or fragment: no captured part of the request reaches the authority.\<close>

theorem redirect_stays_on_host:
  assumes "matchRoutes rts (normalizePath reqPath) = (ActRedirect, Inr (Some u))" "safeRedirectLocation (url_string u) u"
  shows "safeRedirectTarget (url_string u)
    \<or> (\<exists>rt \<in> set rts. \<exists>t r. rt_type rt = Redirect \<and> hasHTTPScheme (rt_destination rt) \<and> url_parse (rt_destination rt) = Some t
         \<and> safeAbsoluteHost t \<and> url_string u = u_scheme t @ ''://'' @ u_host t @ r \<and> after_host r)"
  using redirect_location [OF assms] .

definition ex_redirect :: static_route where
  "ex_redirect = \<lparr>rt_type = Redirect, rt_source = ''/old/*'', rt_destination = ''/new/:splat''\<rparr>"

theorem redirect_stays_on_host_witness:
  "\<exists>u. matchRoutes [ex_redirect] (normalizePath ''/old/a'') = (ActRedirect, Inr (Some u)) \<and> url_string u = ''/new/a''
    \<and> safeRedirectTarget (url_string u)"
proof -
  have n: "normalizePath ''/old/a'' = ''/old/a''"
    by (simp add: normalizePath_def path_clean_def ends_with_def trim_prefix_def starts_with_def)
  have m: "matchRoutePattern ''/old/*'' ''/old/a'' = Some (''a'', Map.empty)"
    by (simp add: matchRoutePattern_def cut_suffix_def ends_with_def placeholderName_def matchPattern_def cut_prefix_def starts_with_def)
  obtain u where u: "matchRoutes [ex_redirect] (normalizePath ''/old/a'') = (ActRedirect, Inr (Some u))" "url_string u = ''/new/a''"
    unfolding n
    by (simp add: ex_redirect_def m expandDestCaptures_def maxRouteDestinationBytes_def hasHTTPScheme_def starts_with_def
        ascii_lower_def safeRedirectTarget_def hasControlByte_def control_byte_def url_parse_def cut_at_def ends_with_def
        count_char_def substituteCaptures_def token_value_def placeholderName_def is_alpha_def is_digit_def name_char_def
        maxExpandedRoutePathBytes_def url_string_def escape_with_def path_keep_def unreserved_def Let_def)
  have safe: "safeRedirectLocation (url_string u) u"
    unfolding u(2) by (simp add: safeRedirectLocation_def safeRedirectTarget_def starts_with_def hasControlByte_def control_byte_def)
  have "\<not> hasHTTPScheme (rt_destination ex_redirect)" by (simp add: ex_redirect_def hasHTTPScheme_def starts_with_def ascii_lower_def)
  then show ?thesis using redirect_stays_on_host [OF u(1) safe] u by auto
qed

section \<open>What header rules may set\<close>

text \<open>The rules that decide a header: the last one wins.\<close>

definition deciding :: "static_header list \<Rightarrow> string \<Rightarrow> string \<Rightarrow> static_header list" where
  "deciding rs reqPath k =
     filter (\<lambda>r. \<not> reservedStaticHeader (sh_name r) \<and> matchHeaderPattern (sh_path r) reqPath \<and> canonicalKey (sh_name r) = k) rs"

lemma deciding_Cons: "deciding (r # rs) p k =
    (if \<not> reservedStaticHeader (sh_name r) \<and> matchHeaderPattern (sh_path r) p \<and> canonicalKey (sh_name r) = k
     then r # deciding rs p k else deciding rs p k)"
  by (simp add: deciding_def)

lemma applyHeaders_deciding:
  "applyHeaders rs p h k = (if deciding rs p k = [] then h k else Some [sh_value (last (deciding rs p k))])"
proof (induction rs arbitrary: h)
  case (Cons r rs)
  show ?case by (simp add: Cons.IH deciding_Cons setHeader_def)
qed (simp add: deciding_def)

lemma spaces_no_token: "u \<in> set unicode_spaces \<Longrightarrow> u \<noteq> [] \<and> \<not> token_char (hd u) \<and> \<not> token_char (last u)"
  by (auto simp: unicode_spaces_def token_char_def is_alpha_def is_digit_def)

lemma token_no_ascii_space: "token_char c \<Longrightarrow> \<not> ascii_space c"
  by (auto simp: token_char_def ascii_space_def is_alpha_def is_digit_def)

lemma token_not_space:
  assumes "list_all token_char s" "s \<noteq> []"
  shows "space_width s = 0" "space_width_end s = 0"
proof -
  have t: "token_char (hd s)" "token_char (last s)" using assms by (simp_all add: list_all_iff)
  have "\<not> starts_with u s" "\<not> ends_with u s" if "u \<in> set unicode_spaces" for u
  proof -
    note u = spaces_no_token [OF that]
    show "\<not> starts_with u s"
    proof
      assume "starts_with u s"
      then obtain r where "s = u @ r" by (auto simp: starts_with_iff)
      then show False using u t(1) by simp
    qed
    show "\<not> ends_with u s"
    proof
      assume "ends_with u s"
      then have "s = take (length s - length u) s @ u" unfolding ends_with_def by (metis append_take_drop_id)
      then show False using u t(2) by (metis last_appendR)
    qed
  qed
  then have n: "find (\<lambda>u. starts_with u s) unicode_spaces = None" "find (\<lambda>u. ends_with u s) unicode_spaces = None"
    by (auto simp: find_None_iff)
  obtain c r where "s = c # r" using assms(2) by (cases s) auto
  then show "space_width s = 0" using n(1) token_no_ascii_space [OF t(1)] by (simp add: space_width_def)
  show "space_width_end s = 0" using n(2) token_no_ascii_space [OF t(2)] assms(2) by (simp add: space_width_end_def)
qed

lemma trim_space_token: "list_all token_char s \<Longrightarrow> trim_space s = s"
  using token_not_space [of s]
  by (cases "s = []") (simp_all add: trim_space_def trim_left.simps [of s] trim_right.simps [of s] trim_left.simps [of "[]"] trim_right.simps [of "[]"])

lemma reserved_is_reserved:
  assumes "canonicalKey name \<in> set reservedStaticHeaders"
  shows "reservedStaticHeader name"
proof -
  have "list_all token_char k" if "k \<in> set reservedStaticHeaders" for k
    using that by (auto simp: reservedStaticHeaders_def token_char_def is_alpha_def is_digit_def)
  then have "list_all token_char name" using assms by (auto simp: canonicalKey_def split: if_split_asm)
  then show ?thesis using assms by (simp add: reservedStaticHeader_def trim_space_token)
qed

lemma deciding_reserved: "k \<in> set reservedStaticHeaders \<Longrightarrow> deciding rs p k = []"
  using reserved_is_reserved by (auto simp: deciding_def filter_empty_conv)

text \<open>Header rules decide exactly the headers they match, the last one winning, and never a body-framing or
  hop-by-hop header.\<close>

theorem header_rules_effect:
  "applyHeaders rs p h k = (if deciding rs p k = [] then h k else Some [sh_value (last (deciding rs p k))])
   \<and> (if k \<in> set reservedStaticHeaders then applyHeaders rs p h k = h k else True)"
  using applyHeaders_deciding [of rs p h k] deciding_reserved [of k rs p] by simp

text \<open>The error path does not skip the hop-by-hop names: a rule setting \<open>Connection\<close> is applied there, and skipped
  everywhere else.\<close>

definition ex_rule :: static_header where
  "ex_rule = \<lparr>sh_path = ''/*'', sh_name = ''Connection'', sh_value = ''close''\<rparr>"

theorem error_path_sets_reserved:
  "applyErrorHeaders [ex_rule] ''/x'' Map.empty ''Connection'' = Some [''close'']
   \<and> applyHeaders [ex_rule] ''/x'' Map.empty ''Connection'' = None"
proof -
  have t: "list_all token_char ''Connection''" by (simp add: token_char_def is_alpha_def is_digit_def)
  have c: "canonicalKey ''Connection'' = ''Connection''"
    unfolding canonicalKey_def using t by (simp add: ascii_lower_def)
  have "matchHeaderPattern ''/*'' ''/x''"
    by (simp add: matchHeaderPattern_def cut_prefix_def starts_with_def cut_at_def matchPattern_def Let_def)
  moreover have "reservedStaticHeader ''Connection''"
    by (rule reserved_is_reserved) (simp add: c reservedStaticHeaders_def)
  ultimately show ?thesis by (simp add: ex_rule_def setHeader_def c errorBodyHeaderNames_def)
qed

end
