(* ===== verification/StaticSite.thy ===== *)
theory StaticSite
  imports StaticCache StaticRules
begin

text \<open>
  The request handler of the static-site server (\<open>operator/internal/staticserver/staticserver.go\<close>): object
  lookups through the cache, the collapsing of concurrent misses and the fetch gate, and the order in
  which a request tries the published object, the edge rules, the directory form, the single-page
  fallback and the not-found page. Other requests run between the steps of this one: \<open>fe_others\<close> is what
  they do to the cache before the \<open>n\<close>th lookup reaches the origin, \<open>fe_gate\<close> the gate they leave, \<open>fe_shared\<close>
  the flight of theirs it joins. The content coding of a body (\<open>encoding.go\<close>), conditional requests and
  ranges (\<open>http.ServeContent\<close>) and the proxy of external rewrites (\<open>proxy.go\<close>) are not modelled: the response
  names the object, or the external address.
\<close>

section \<open>Lookups\<close>

datatype fetch_error = NotFound | TooLarge | Overloaded | OriginFailed

text \<open>\<open>Found\<close> carries the body, its spare capacity and the content type.\<close>

datatype origin_result = Found string nat string | Missing | Oversize | Broken

record fetch_env =
  fe_origin :: "nat \<Rightarrow> string \<Rightarrow> origin_result"
  fe_gate :: "nat \<Rightarrow> gate option"
  fe_bytes :: "nat \<Rightarrow> bool"
  fe_shared :: "nat \<Rightarrow> string \<Rightarrow> (fetch_error + object) option"
  fe_others :: "nat \<Rightarrow> cache \<Rightarrow> cache"
  fe_order :: "nat \<Rightarrow> cache \<Rightarrow> string list"
  fe_etag :: "string \<Rightarrow> string"

text \<open>The cache and the number of lookups that have gone past it.\<close>

record world =
  wo_cache :: cache
  wo_calls :: nat

definition negativeErr :: "object \<Rightarrow> fetch_error + object" where
  "negativeErr obj = (if ob_negative obj then Inl NotFound else Inr obj)"

text \<open>\<open>put\<close> always returns (\<open>cache_put_effect\<close>).\<close>

definition put_in :: "fetch_env \<Rightarrow> site \<Rightarrow> string \<Rightarrow> object \<Rightarrow> world \<Rightarrow> world" where
  "put_in env s ck obj w =
     (case cachePut (fe_order env (wo_calls w)) (st_appID s) ck obj (wo_cache w) of
        None \<Rightarrow> w | Some c \<Rightarrow> w\<lparr>wo_cache := c\<rparr>)"

definition missObject :: object where
  "missObject = \<lparr>ob_body = [], ob_spare = 0, ob_contentType = [], ob_etag = [], ob_negative = True\<rparr>"

text \<open>The function the flight runs.\<close>

definition fetchMiss :: "fetch_env \<Rightarrow> site \<Rightarrow> string \<Rightarrow> world \<Rightarrow> world \<times> (fetch_error + object)" where
  "fetchMiss env s reqPath w =
     (let n = wo_calls w; ck = cacheKey s reqPath
      in case cacheGet (wo_cache w) ck of
           Some obj \<Rightarrow> (w, Inr obj)
         | None \<Rightarrow>
             if \<not> snd (acquireGate (fe_gate env n) (st_appID s) (fe_bytes env n)) then (w, Inl Overloaded)
             else
               (case fe_origin env n (keyFor s reqPath) of
                  Missing \<Rightarrow> (put_in env s ck missObject w, Inr missObject)
                | Oversize \<Rightarrow> (w, Inl TooLarge)
                | Broken \<Rightarrow> (w, Inl OriginFailed)
                | Found body spare ct \<Rightarrow>
                    let obj = \<lparr>ob_body = body, ob_spare = spare, ob_contentType = ct, ob_etag = fe_etag env body, ob_negative = False\<rparr>
                    in (put_in env s ck obj w, Inr obj)))"

definition getObject :: "fetch_env \<Rightarrow> site \<Rightarrow> string \<Rightarrow> world \<Rightarrow> world \<times> (fetch_error + object)" where
  "getObject env s reqPath w =
     (let ck = cacheKey s reqPath; n = wo_calls w
      in case cacheGet (wo_cache w) ck of
           Some obj \<Rightarrow> (w, negativeErr obj)
         | None \<Rightarrow>
             let w1 = w\<lparr>wo_cache := fe_others env n (wo_cache w)\<rparr>;
                 (w2, r) = (case fe_shared env n ck of Some r \<Rightarrow> (w1, r) | None \<Rightarrow> fetchMiss env s reqPath w1)
             in (w2\<lparr>wo_calls := n + 1\<rparr>, rbind r negativeErr))"

section \<open>Responses\<close>

text \<open>An object with its served path, the site's own not-found page, a redirect, an error with its status and
  message, or an external rewrite.\<close>

datatype response =
    Served object string header
  | NotFoundPage object header
  | RedirectTo string header
  | Error nat string header
  | External url
  | NoSite
  | MethodNotAllowed

text \<open>What else the handler reads: the table of media types and the answers of the live-body semaphore.\<close>

record serve_env =
  se_mime :: "string \<Rightarrow> string"
  se_live :: "int \<Rightarrow> bool"

definition octet :: string where "octet = ''application/octet-stream''"

definition contentType :: "serve_env \<Rightarrow> string \<Rightarrow> string \<Rightarrow> string" where
  "contentType env servedPath originType =
     (if originType \<noteq> [] \<and> originType \<noteq> octet then originType
      else if se_mime env (path_ext servedPath) \<noteq> [] then se_mime env (path_ext servedPath)
      else if originType \<noteq> [] then originType
      else octet)"

definition defaultCacheControl :: string where
  "defaultCacheControl = ''public, max-age=0, must-revalidate''"

definition defaultStrictTransportSecurity :: string where
  "defaultStrictTransportSecurity = ''max-age=315360000; includeSubdomains; preload''"

text \<open>\<open>http.Error\<close> replaces the body headers.\<close>

definition httpError :: "header \<Rightarrow> header" where
  "httpError h = setHeader ''X-Content-Type-Options'' ''nosniff''
     (setHeader ''Content-Type'' ''text/plain; charset=utf-8'' (h(''Content-Length'' := None)))"

definition serveSiteError :: "site \<Rightarrow> string \<Rightarrow> nat \<Rightarrow> string \<Rightarrow> response" where
  "serveSiteError s requestPath code msg =
     Error code msg (httpError (applyErrorHeaders (st_headers s) requestPath Map.empty))"

definition serveSiteBusy :: "site \<Rightarrow> string \<Rightarrow> response" where
  "serveSiteBusy s requestPath =
     Error 503 ''server busy''
       (httpError (setHeader ''Retry-After'' ''1'' (applyErrorHeaders (st_headers s) requestPath Map.empty)))"

definition serveSiteUnavailable :: "site \<Rightarrow> string \<Rightarrow> response" where
  "serveSiteUnavailable s requestPath =
     Error 503 ''static site temporarily unavailable''
       (httpError (setHeader ''Retry-After'' ''5'' (setHeader ''Cache-Control'' ''no-store''
         (applyErrorHeaders (st_headers s) requestPath Map.empty))))"

fun serveOriginError :: "site \<Rightarrow> string \<Rightarrow> fetch_error \<Rightarrow> response" where
  "serveOriginError s requestPath TooLarge = serveSiteError s requestPath 413 ''object too large''"
| "serveOriginError s requestPath Overloaded = serveSiteBusy s requestPath"
| "serveOriginError s requestPath OriginFailed = serveSiteError s requestPath 502 ''origin error''"
| "serveOriginError s requestPath NotFound = serveSiteError s requestPath 502 ''origin error''"

definition serveObject :: "serve_env \<Rightarrow> bool \<Rightarrow> site \<Rightarrow> object \<Rightarrow> string \<Rightarrow> string \<Rightarrow> response" where
  "serveObject env isHead s obj servedPath requestPath =
     (if \<not> isHead \<and> \<not> se_live env (int (length (ob_body obj))) then serveSiteBusy s requestPath
      else
        let h1 = setHeader ''Content-Type'' (contentType env servedPath (ob_contentType obj)) Map.empty;
            h2 = setHeader ''Cache-Control'' defaultCacheControl h1;
            h3 = setHeader ''Strict-Transport-Security'' defaultStrictTransportSecurity h2;
            h4 = setHeader ''X-Content-Type-Options'' ''nosniff'' h3;
            h5 = (if ob_etag obj \<noteq> [] then setHeader ''Etag'' (ob_etag obj) h4 else h4)
        in Served obj servedPath (applyHeaders (st_headers s) requestPath h5))"

section \<open>The handler\<close>

text \<open>A reader of the site's objects: \<open>getObject\<close> in the server.\<close>

type_synonym 'w reader = "string \<Rightarrow> 'w \<Rightarrow> 'w \<times> (fetch_error + object)"

definition fetchPath :: "'w reader \<Rightarrow> string \<Rightarrow> 'w \<Rightarrow> 'w \<times> (fetch_error + object)" where
  "fetchPath rd reqPath w = rd (lookupPath reqPath) w"

definition hasDirectoryIndex :: "'w reader \<Rightarrow> site \<Rightarrow> string \<Rightarrow> 'w \<Rightarrow> 'w \<times> bool" where
  "hasDirectoryIndex rd s reqPath w =
     (if reqPath = ''/'' \<or> ends_with ''/'' reqPath \<or> path_ext reqPath \<noteq> [] then (w, False)
      else if overlongKey s (reqPath @ ''/'') then (w, False)
      else (case rd (lookupPath (reqPath @ ''/'')) w of (w', r) \<Rightarrow> (w', is_ok r)))"

definition spaFallback :: "'w reader \<Rightarrow> string \<Rightarrow> 'w \<Rightarrow> 'w \<times> object option" where
  "spaFallback rd reqPath w =
     (if path_ext reqPath \<noteq> [] then (w, None)
      else (case rd ''/index.html'' w of (w', Inl e) \<Rightarrow> (w', None) | (w', Inr obj) \<Rightarrow> (w', Some obj)))"

definition serveNotFound :: "serve_env \<Rightarrow> bool \<Rightarrow> 'w reader \<Rightarrow> site \<Rightarrow> string \<Rightarrow> 'w \<Rightarrow> 'w \<times> response" where
  "serveNotFound env isHead rd s requestPath w =
     (if \<not> st_noSPAFallback s then (w, serveSiteError s requestPath 404 ''not found'')
      else
        (case rd ''/404.html'' w of
           (w', Inl e) \<Rightarrow> (w', serveSiteError s requestPath 404 ''not found'')
         | (w', Inr obj) \<Rightarrow>
             if \<not> isHead \<and> \<not> se_live env (int (length (ob_body obj))) then (w', serveSiteBusy s requestPath)
             else (w', NotFoundPage obj
               (setHeader ''X-Content-Type-Options'' ''nosniff''
                 (setHeader ''Content-Length'' (show_nat (length (ob_body obj)))
                   (setHeader ''Content-Type'' (contentType env ''/404.html'' (ob_contentType obj))
                     (applyErrorHeaders (st_headers s) requestPath Map.empty)))))))"

text \<open>The answer to a directory asked for without its slash, if it is one.\<close>

definition redirectToDirectory :: "'w reader \<Rightarrow> site \<Rightarrow> string \<Rightarrow> string \<Rightarrow> 'w \<Rightarrow> 'w \<times> response option" where
  "redirectToDirectory rd s requestPath rawQuery w =
     (case hasDirectoryIndex rd s requestPath w of
        (w', False) \<Rightarrow> (w', None)
      | (w', True) \<Rightarrow>
          let location = url_string \<lparr>u_scheme = [], u_host = [], u_path = requestPath @ ''/'', u_forceQuery = False,
                u_query = rawQuery, u_fragment = []\<rparr>
          in if \<not> safeRedirectTarget location then (w', None)
             else (w', Some (RedirectTo location (applyHeaders (st_headers s) requestPath Map.empty))))"

text \<open>The last resorts: the single-page fallback of older sites, then the not-found answer.\<close>

definition serveFallback :: "serve_env \<Rightarrow> bool \<Rightarrow> 'w reader \<Rightarrow> site \<Rightarrow> string \<Rightarrow> string \<Rightarrow> 'w \<Rightarrow> 'w \<times> response" where
  "serveFallback env isHead rd s requestPath fallbackPath w =
     (if \<not> st_noSPAFallback s then
        (case spaFallback rd fallbackPath w of
           (w', Some obj) \<Rightarrow> (w', serveObject env isHead s obj ''/index.html'' requestPath)
         | (w', None) \<Rightarrow> serveNotFound env isHead rd s requestPath w')
      else serveNotFound env isHead rd s requestPath w)"

definition serveRewrite :: "serve_env \<Rightarrow> bool \<Rightarrow> 'w reader \<Rightarrow> site \<Rightarrow> string \<Rightarrow> string \<Rightarrow> 'w \<Rightarrow> 'w \<times> response" where
  "serveRewrite env isHead rd s requestPath fallbackPath w =
     (if overlongKey s fallbackPath then serveNotFound env isHead rd s requestPath w
      else
        (case fetchPath rd fallbackPath w of
           (w1, Inr obj) \<Rightarrow> (w1, serveObject env isHead s obj (lookupPath fallbackPath) requestPath)
         | (w1, Inl e) \<Rightarrow>
             if e \<noteq> NotFound then (w1, serveOriginError s requestPath e)
             else
               (case hasDirectoryIndex rd s fallbackPath w1 of
                  (w2, False) \<Rightarrow> serveFallback env isHead rd s requestPath fallbackPath w2
                | (w2, True) \<Rightarrow>
                    let dir = lookupPath (trim_suffix ''/'' fallbackPath @ ''/'')
                    in (case rd dir w2 of
                          (w3, Inr obj) \<Rightarrow> (w3, serveObject env isHead s obj dir requestPath)
                        | (w3, Inl e) \<Rightarrow> serveFallback env isHead rd s requestPath fallbackPath w3))))"

text \<open>What a rule, or its absence, leads to.\<close>

definition serveRule :: "serve_env \<Rightarrow> bool \<Rightarrow> 'w reader \<Rightarrow> site \<Rightarrow> string \<Rightarrow> bool \<Rightarrow> route_action \<Rightarrow> url option \<Rightarrow> 'w
    \<Rightarrow> 'w \<times> response" where
  "serveRule env isHead rd s requestPath overlong act target w =
     (case (act, target) of
        (ActRedirect, Some u) \<Rightarrow>
          if \<not> safeRedirectLocation (url_string u) u then (w, serveSiteError s requestPath 400 ''invalid redirect target'')
          else (w, RedirectTo (url_string u) (applyHeaders (st_headers s) requestPath Map.empty))
      | (ActRewrite, Some u) \<Rightarrow>
          if u_host u \<noteq> [] then
            (if requestPath = ''/'' then serveNotFound env isHead rd s requestPath w else (w, External u))
          else serveRewrite env isHead rd s requestPath (normalizePath (u_path u)) w
      | _ \<Rightarrow>
          if overlong then serveNotFound env isHead rd s requestPath w
          else serveFallback env isHead rd s requestPath requestPath w)"

definition serveMiss :: "serve_env \<Rightarrow> bool \<Rightarrow> 'w reader \<Rightarrow> site \<Rightarrow> string \<Rightarrow> string \<Rightarrow> bool \<Rightarrow> 'w \<Rightarrow> 'w \<times> response" where
  "serveMiss env isHead rd s requestPath rawQuery overlong w =
     (case matchRoutes (st_routes s) requestPath of
        (act, Inl _) \<Rightarrow>
          (w, serveSiteError s requestPath 400
            (if act = ActRedirect then ''invalid redirect target'' else ''invalid rewrite target''))
      | (act, Inr target) \<Rightarrow>
          (case (if overlong then (w, None) else redirectToDirectory rd s requestPath rawQuery w) of
             (w1, Some resp) \<Rightarrow> (w1, resp)
           | (w1, None) \<Rightarrow> serveRule env isHead rd s requestPath overlong act target w1))"

definition serveSite :: "serve_env \<Rightarrow> bool \<Rightarrow> 'w reader \<Rightarrow> site \<Rightarrow> string \<Rightarrow> string \<Rightarrow> 'w \<Rightarrow> 'w \<times> response" where
  "serveSite env isHead rd s requestPath rawQuery w =
     (if st_unavailable s then (w, serveSiteUnavailable s requestPath)
      else
        let overlong = overlongKey s requestPath
        in (case (if overlong then (w, Inl NotFound) else fetchPath rd requestPath w) of
              (w1, Inr obj) \<Rightarrow> (w1, serveObject env isHead s obj (lookupPath requestPath) requestPath)
            | (w1, Inl e) \<Rightarrow>
                if e \<noteq> NotFound then (w1, serveOriginError s requestPath e)
                else serveMiss env isHead rd s requestPath rawQuery overlong w1))"

definition serveExternalRewriteForMethod :: "(string \<Rightarrow> site option) \<Rightarrow> string \<Rightarrow> string \<Rightarrow> url option" where
  "serveExternalRewriteForMethod resolve host path =
     (case resolve (hostOnly host) of
        None \<Rightarrow> None
      | Some s \<Rightarrow>
          if st_unavailable s then None
          else
            (case matchRoutes (st_routes s) (normalizePath path) of
               (ActRewrite, Inr (Some u)) \<Rightarrow> if u_host u = [] \<or> normalizePath path = ''/'' then None else Some u
             | _ \<Rightarrow> None))"

definition serveHTTP :: "fetch_env \<Rightarrow> serve_env \<Rightarrow> (string \<Rightarrow> site option) \<Rightarrow> string \<Rightarrow> string \<Rightarrow> string \<Rightarrow> string \<Rightarrow> world
    \<Rightarrow> world \<times> response" where
  "serveHTTP fenv env resolve verb host path rawQuery w =
     (if verb \<noteq> ''GET'' \<and> verb \<noteq> ''HEAD'' then
        (case serveExternalRewriteForMethod resolve host path of
           Some u \<Rightarrow> (w, External u)
         | None \<Rightarrow> (w, MethodNotAllowed))
      else
        (case resolve (hostOnly host) of
           None \<Rightarrow> (w, NoSite)
         | Some s \<Rightarrow> serveSite env (verb = ''HEAD'') (getObject fenv s) s (normalizePath path) rawQuery w))"

section \<open>What a reader promises\<close>

text \<open>A reader answers with the objects a site holds; it may fail, but it neither makes one up nor denies one.\<close>

locale object_reader =
  fixes rd :: "'w reader" and inv :: "'w \<Rightarrow> bool" and held :: "string \<Rightarrow> object option"
  assumes rd_inv: "inv w \<Longrightarrow> rd p w = (w', r) \<Longrightarrow> inv w'"
    and rd_found: "inv w \<Longrightarrow> rd p w = (w', Inr obj) \<Longrightarrow> held p = Some obj"
    and rd_missing: "inv w \<Longrightarrow> rd p w = (w', Inl NotFound) \<Longrightarrow> held p = None"
begin

text \<open>A served path stands for a clean path of the site.\<close>

definition answers :: "response \<Rightarrow> bool" where
  "answers resp \<longleftrightarrow> (case resp of
      Served obj path h \<Rightarrow> held path = Some obj \<and> (\<exists>q. clean_path q \<and> path = lookupPath q)
    | NotFoundPage obj h \<Rightarrow> held ''/404.html'' = Some obj
    | _ \<Rightarrow> True)"

lemma serveSiteError_answers: "answers (serveSiteError s p code msg)"
  by (simp add: answers_def serveSiteError_def)

lemma serveSiteBusy_answers: "answers (serveSiteBusy s p)"
  by (simp add: answers_def serveSiteBusy_def)

lemma serveOriginError_answers: "answers (serveOriginError s p e)"
  by (cases e) (simp_all add: serveSiteError_answers serveSiteBusy_answers)

lemma serveObject_answers:
  "held path = Some obj \<Longrightarrow> clean_path q \<Longrightarrow> path = lookupPath q \<Longrightarrow> answers (serveObject env isHead s obj path p)"
  by (auto simp: serveObject_def answers_def serveSiteBusy_def Let_def)

lemmas other_answers = serveSiteError_answers serveSiteBusy_answers serveOriginError_answers

lemma clean_root: "clean_path ''/''"
  by (auto simp: clean_path_def intro: exI [of _ "[]"])

lemma lookup_root: "lookupPath ''/'' = ''/index.html''"
  by (simp add: lookupPath_def trim_suffix_def ends_with_def)

lemma hasDirectoryIndex_inv: "inv w \<Longrightarrow> hasDirectoryIndex rd s p w = (w', b) \<Longrightarrow> inv w'"
  using rd_inv by (auto simp: hasDirectoryIndex_def split: if_split_asm prod.splits)

lemma hasDirectoryIndex_dir:
  assumes "hasDirectoryIndex rd s p w = (w', True)" "clean_path p"
  shows "clean_path (p @ ''/'')" "trim_suffix ''/'' p = p"
proof -
  have p: "p \<noteq> ''/''" "\<not> ends_with ''/'' p" using assms(1) by (auto simp: hasDirectoryIndex_def split: if_split_asm)
  then show "trim_suffix ''/'' p = p" by (simp add: trim_suffix_def)
  obtain segs where s: "list_all plain_seg segs"
      "p = CHR ''/'' # join ''/'' segs \<or> (segs \<noteq> [] \<and> p = CHR ''/'' # join ''/'' segs @ ''/'')"
    using assms(2) by (auto simp: clean_path_def)
  then have "p = CHR ''/'' # join ''/'' segs" "segs \<noteq> []" using p by (auto simp: ends_with_single)
  then show "clean_path (p @ ''/'')" using s(1) by (auto simp: clean_path_def)
qed

lemma serveNotFound_answers:
  assumes "inv w" "serveNotFound env isHead rd s p w = (w', resp)"
  shows "inv w' \<and> answers resp"
proof (cases "st_noSPAFallback s")
  case False
  then show ?thesis using assms by (auto simp: serveNotFound_def other_answers)
next
  case True
  obtain w1 r where r: "rd ''/404.html'' w = (w1, r)" by (cases "rd ''/404.html'' w")
  show ?thesis
  proof (cases r)
    case (Inl e)
    then show ?thesis using assms True r rd_inv [OF assms(1) r] by (auto simp: serveNotFound_def other_answers)
  next
    case (Inr obj)
    then have "held ''/404.html'' = Some obj" using rd_found [OF assms(1)] r by simp
    then show ?thesis using assms True r Inr rd_inv [OF assms(1) r]
      by (auto simp: serveNotFound_def other_answers answers_def serveSiteBusy_def split: if_split_asm)
  qed
qed

lemma serveFallback_answers:
  assumes "inv w" "serveFallback env isHead rd s p q w = (w', resp)"
  shows "inv w' \<and> answers resp"
proof -
  obtain w1 r where sp: "spaFallback rd q w = (w1, r)" by (cases "spaFallback rd q w")
  have inv1: "inv w1" and found: "\<And>obj. r = Some obj \<Longrightarrow> held ''/index.html'' = Some obj"
    using sp assms(1) rd_inv rd_found by (auto simp: spaFallback_def split: if_split_asm prod.splits sum.splits)
  show ?thesis
  proof (cases "st_noSPAFallback s")
    case True
    then show ?thesis using serveNotFound_answers [OF assms(1)] assms(2) by (simp add: serveFallback_def)
  next
    case False
    show ?thesis
    proof (cases r)
      case None
      then show ?thesis using serveNotFound_answers [OF inv1] assms(2) False sp by (simp add: serveFallback_def)
    next
      case (Some obj)
      then show ?thesis
        using assms(2) False sp inv1 serveObject_answers [OF found [OF Some] clean_root] lookup_root
        by (auto simp: serveFallback_def)
    qed
  qed
qed

lemma serveRewrite_answers:
  assumes "inv w" "clean_path q" "serveRewrite env isHead rd s p q w = (w', resp)"
  shows "inv w' \<and> answers resp"
proof (cases "overlongKey s q")
  case True
  then show ?thesis using serveNotFound_answers [OF assms(1)] assms(3) by (simp add: serveRewrite_def)
next
  case False
  obtain w1 r where r: "fetchPath rd q w = (w1, r)" by (cases "fetchPath rd q w")
  have inv1: "inv w1" using rd_inv [OF assms(1)] r by (simp add: fetchPath_def)
  show ?thesis
  proof (cases r)
    case (Inr obj)
    then have "held (lookupPath q) = Some obj" using rd_found [OF assms(1)] r by (simp add: fetchPath_def)
    then show ?thesis using assms(2,3) False r Inr inv1 serveObject_answers by (auto simp: serveRewrite_def)
  next
    case (Inl e)
    show ?thesis
    proof (cases "e = NotFound")
      case False
      then show ?thesis using assms(3) \<open>\<not> overlongKey s q\<close> r Inl inv1 by (auto simp: serveRewrite_def other_answers)
    next
      case True
      obtain w2 b where d: "hasDirectoryIndex rd s q w1 = (w2, b)" by (cases "hasDirectoryIndex rd s q w1")
      have inv2: "inv w2" by (rule hasDirectoryIndex_inv [OF inv1 d])
      show ?thesis
      proof (cases b)
        case no: False
        then show ?thesis using serveFallback_answers [OF inv2] assms(3) False r Inl True d by (simp add: serveRewrite_def)
      next
        case yes: True
        have dyes: "hasDirectoryIndex rd s q w1 = (w2, True)" using d yes by simp
        note dir = hasDirectoryIndex_dir [OF dyes assms(2)]
        let ?dir = "lookupPath (trim_suffix ''/'' q @ ''/'')"
        obtain w3 r3 where r3: "rd ?dir w2 = (w3, r3)" by (cases "rd ?dir w2")
        have inv3: "inv w3" by (rule rd_inv [OF inv2 r3])
        show ?thesis
        proof (cases r3)
          case (Inl e3)
          then show ?thesis
            using serveFallback_answers [OF inv3] assms(3) False r \<open>r = Inl e\<close> True d yes r3 by (simp add: serveRewrite_def)
        next
          case (Inr obj)
          then have "held ?dir = Some obj" using rd_found [OF inv2] r3 by simp
          from serveObject_answers [OF this dir(1)] dir(2) show ?thesis
            using assms(3) False r \<open>r = Inl e\<close> True d yes r3 Inr inv3 by (auto simp: serveRewrite_def)
        qed
      qed
    qed
  qed
qed

lemma serveRule_answers:
  assumes "inv w" "serveRule env isHead rd s p overlong act target w = (w', resp)"
  shows "inv w' \<and> answers resp"
proof -
  note nf = serveNotFound_answers [OF assms(1)] and fb = serveFallback_answers [OF assms(1)]
    and rw = serveRewrite_answers [OF assms(1) normalizePath_clean]
  show ?thesis
    using assms nf fb rw other_answers
    by (cases act; cases target)
      (auto simp: serveRule_def answers_def split: if_split_asm)
qed

lemma redirectToDirectory_answers:
  "inv w \<Longrightarrow> redirectToDirectory rd s p rq w = (w', r) \<Longrightarrow> inv w' \<and> (\<forall>resp. r = Some resp \<longrightarrow> answers resp)"
  using hasDirectoryIndex_inv
  by (auto simp: redirectToDirectory_def answers_def Let_def split: if_split_asm prod.splits bool.splits)

lemma serveSite_answers:
  assumes "inv w" "clean_path p" "serveSite env isHead rd s p rq w = (w', resp)"
  shows "inv w' \<and> answers resp"
proof (cases "st_unavailable s")
  case True
  then show ?thesis using assms by (auto simp: serveSite_def answers_def serveSiteUnavailable_def)
next
  case False
  let ?o = "overlongKey s p"
  obtain w1 r where r: "(if ?o then (w, Inl NotFound) else fetchPath rd p w) = (w1, r)"
    by (cases "if ?o then (w, Inl NotFound) else fetchPath rd p w")
  have inv1: "inv w1" and found: "\<And>obj. r = Inr obj \<Longrightarrow> held (lookupPath p) = Some obj"
    using r assms(1) rd_inv rd_found by (auto simp: fetchPath_def split: if_split_asm)
  show ?thesis
  proof (cases r)
    case (Inr obj)
    then show ?thesis using assms(2,3) False r inv1 serveObject_answers [OF found [OF Inr]] by (auto simp: serveSite_def)
  next
    case (Inl e)
    show ?thesis
    proof (cases "e = NotFound")
      case False
      then show ?thesis using assms(3) \<open>\<not> st_unavailable s\<close> r Inl inv1 by (auto simp: serveSite_def Let_def other_answers)
    next
      case True
      have miss: "serveMiss env isHead rd s p rq ?o w1 = (w', resp)"
        using assms(3) False r Inl True by (simp add: serveSite_def)
      obtain act t where mr: "matchRoutes (st_routes s) p = (act, t)" by (cases "matchRoutes (st_routes s) p")
      show ?thesis
      proof (cases t)
        case (Inl u)
        then show ?thesis using miss mr inv1 by (auto simp: serveMiss_def other_answers)
      next
        case (Inr target)
        obtain w2 d where d: "(if ?o then (w1, None) else redirectToDirectory rd s p rq w1) = (w2, d)"
          by (cases "if ?o then (w1, None) else redirectToDirectory rd s p rq w1")
        have inv2: "inv w2 \<and> (\<forall>resp. d = Some resp \<longrightarrow> answers resp)"
          using d inv1 redirectToDirectory_answers [OF inv1] by (auto split: if_split_asm)
        show ?thesis
        proof (cases d)
          case None
          then have "serveRule env isHead rd s p ?o act target w2 = (w', resp)" using miss mr Inr d by (simp add: serveMiss_def)
          then show ?thesis using serveRule_answers inv2 by blast
        next
          case (Some x)
          then show ?thesis using miss mr Inr d inv2 by (auto simp: serveMiss_def)
        qed
      qed
    qed
  qed
qed

end

text \<open>Reading the published objects directly.\<close>

definition direct :: "(string \<Rightarrow> object option) \<Rightarrow> unit reader" where
  "direct held p u = (u, case held p of None \<Rightarrow> Inl NotFound | Some obj \<Rightarrow> Inr obj)"

text \<open>A reader that also never fails.\<close>

locale reliable_reader = object_reader rd inv held
  for rd :: "'w reader" and inv :: "'w \<Rightarrow> bool" and held :: "string \<Rightarrow> object option" +
  assumes rd_reliable: "inv w \<Longrightarrow> rd p w = (w', Inl e) \<Longrightarrow> e = NotFound"
begin

text \<open>Both readers answer alike, and the invariant carries on.\<close>

definition like :: "'w \<times> 'r \<Rightarrow> unit \<times> 'r \<Rightarrow> bool" where
  "like a b \<longleftrightarrow> inv (fst a) \<and> snd a = snd b"

lemma like_pair: "inv w \<Longrightarrow> like (w, r) (u, r)"
  by (simp add: like_def)

lemma rd_like: "inv w \<Longrightarrow> like (rd p w) (direct held p ())"
proof -
  assume i: "inv w"
  obtain w' r where r: "rd p w = (w', r)" by (cases "rd p w")
  show ?thesis
  proof (cases r)
    case (Inl e)
    then have e: "e = NotFound" using rd_reliable [OF i] r by simp
    then have "held p = None" using rd_missing [OF i] r Inl by simp
    then show ?thesis using r Inl e rd_inv [OF i r] by (simp add: like_def direct_def)
  next
    case (Inr obj)
    then have "held p = Some obj" using rd_found [OF i] r by simp
    then show ?thesis using r Inr rd_inv [OF i r] by (simp add: like_def direct_def)
  qed
qed

text \<open>Sequencing keeps the likeness.\<close>

lemma like_bind:
  assumes "like a b" "\<And>w r. inv w \<Longrightarrow> like (f w r) (g () r)"
  shows "like (case a of (w, r) \<Rightarrow> f w r) (case b of (u, r) \<Rightarrow> g u r)"
  using assms by (cases a; cases b) (simp add: like_def)

lemma like_cases:
  assumes "like a b"
  obtains w r where "a = (w, r)" "b = ((), r)" "inv w"
  using assms by (cases a; cases b) (auto simp: like_def)

lemma fetchPath_like: "inv w \<Longrightarrow> like (fetchPath rd p w) (fetchPath (direct held) p ())"
  by (simp add: fetchPath_def rd_like)

lemma hasDirectoryIndex_like: "inv w \<Longrightarrow> like (hasDirectoryIndex rd s p w) (hasDirectoryIndex (direct held) s p ())"
  by (rule like_cases [OF rd_like [of w "lookupPath (p @ ''/'')"]])
    (simp_all add: hasDirectoryIndex_def like_def)

lemma spaFallback_like: "inv w \<Longrightarrow> like (spaFallback rd p w) (spaFallback (direct held) p ())"
  by (rule like_cases [OF rd_like [of w "''/index.html''"]])
    (simp_all add: spaFallback_def like_def split: sum.split)

lemma serveNotFound_like:
  "inv w \<Longrightarrow> like (serveNotFound env isHead rd s p w) (serveNotFound env isHead (direct held) s p ())"
  by (rule like_cases [OF rd_like [of w "''/404.html''"]])
    (simp_all add: serveNotFound_def like_def split: sum.split)

lemma redirectToDirectory_like:
  "inv w \<Longrightarrow> like (redirectToDirectory rd s p rq w) (redirectToDirectory (direct held) s p rq ())"
  by (rule like_cases [OF hasDirectoryIndex_like [of w s p]])
    (simp_all add: redirectToDirectory_def like_def Let_def split: bool.split)

lemma serveFallback_like:
  assumes "inv w"
  shows "like (serveFallback env isHead rd s p q w) (serveFallback env isHead (direct held) s p q ())"
proof (cases "st_noSPAFallback s")
  case False
  show ?thesis
    by (rule like_cases [OF spaFallback_like [OF assms, of q]])
      (simp add: serveFallback_def False serveNotFound_like like_pair split: option.split)
qed (simp add: serveFallback_def serveNotFound_like assms)

lemma serveRewrite_like:
  assumes "inv w"
  shows "like (serveRewrite env isHead rd s p q w) (serveRewrite env isHead (direct held) s p q ())"
proof (cases "overlongKey s q")
  case False
  let ?dir = "lookupPath (trim_suffix ''/'' q @ ''/'')"
  obtain w1 r where r: "fetchPath rd q w = (w1, r)" "fetchPath (direct held) q () = ((), r)" "inv w1"
    by (rule like_cases [OF fetchPath_like [OF assms, of q]])
  obtain w2 b where b: "hasDirectoryIndex rd s q w1 = (w2, b)" "hasDirectoryIndex (direct held) s q () = ((), b)" "inv w2"
    by (rule like_cases [OF hasDirectoryIndex_like [OF r(3), of s q]])
  obtain w3 d where d: "rd ?dir w2 = (w3, d)" "direct held ?dir () = ((), d)" "inv w3"
    by (rule like_cases [OF rd_like [OF b(3), of ?dir]])
  show ?thesis
    by (simp add: serveRewrite_def False r b d like_pair serveFallback_like Let_def split: sum.split bool.split)
qed (simp add: serveRewrite_def serveNotFound_like assms)

lemma serveRule_like:
  assumes "inv w"
  shows "like (serveRule env isHead rd s p overlong act target w) (serveRule env isHead (direct held) s p overlong act target ())"
  by (cases act; cases target)
    (simp_all add: serveRule_def like_pair assms serveNotFound_like serveFallback_like serveRewrite_like)

lemma serveMiss_like:
  assumes "inv w"
  shows "like (serveMiss env isHead rd s p rq overlong w) (serveMiss env isHead (direct held) s p rq overlong ())"
proof -
  obtain act t where mr: "matchRoutes (st_routes s) p = (act, t)" by (cases "matchRoutes (st_routes s) p")
  obtain w1 d where d: "redirectToDirectory rd s p rq w = (w1, d)" "redirectToDirectory (direct held) s p rq () = ((), d)" "inv w1"
    by (rule like_cases [OF redirectToDirectory_like [OF assms, of s p rq]])
  show ?thesis
    by (simp add: serveMiss_def mr d like_pair assms serveRule_like split: sum.split option.split)
qed

lemma serveSite_like:
  assumes "inv w"
  shows "like (serveSite env isHead rd s p rq w) (serveSite env isHead (direct held) s p rq ())"
proof -
  obtain w1 r where r: "fetchPath rd p w = (w1, r)" "fetchPath (direct held) p () = ((), r)" "inv w1"
    by (rule like_cases [OF fetchPath_like [OF assms, of p]])
  show ?thesis
    by (simp add: serveSite_def r like_pair assms serveMiss_like Let_def split: sum.split)
qed

lemma serveSite_same:
  "inv w \<Longrightarrow> snd (serveSite env isHead rd s p rq w) = snd (serveSite env isHead (direct held) s p rq ())"
  using serveSite_like by (simp add: like_def)

end

section \<open>The server's reader\<close>

text \<open>\<open>pub\<close> is what each incarnation of a site has published, by object key. A cached object, a flight's result and an
  answer of the origin agree with it.\<close>

type_synonym published = "string \<Rightarrow> string \<Rightarrow> object option"

definition agrees :: "published \<Rightarrow> string \<Rightarrow> string \<Rightarrow> object \<Rightarrow> bool" where
  "agrees pub inc key obj \<longleftrightarrow> (if ob_negative obj then pub inc key = None else pub inc key = Some obj)"

definition proper :: "string \<Rightarrow> bool" where
  "proper inc \<longleftrightarrow> inc \<noteq> [] \<and> CHR 0x00 \<notin> set inc"

definition coherent :: "published \<Rightarrow> cache \<Rightarrow> bool" where
  "coherent pub c \<longleftrightarrow> (\<forall>inc key obj. proper inc \<longrightarrow> ca_entries c (inc @ CHR 0x00 # key) = Some obj \<longrightarrow> agrees pub inc key obj)"

definition origin_agrees :: "published \<Rightarrow> fetch_env \<Rightarrow> string \<Rightarrow> bool" where
  "origin_agrees pub env inc \<longleftrightarrow> (\<forall>n key. case fe_origin env n key of
      Found body spare ct \<Rightarrow> pub inc key = Some \<lparr>ob_body = body, ob_spare = spare, ob_contentType = ct,
        ob_etag = fe_etag env body, ob_negative = False\<rparr>
    | Missing \<Rightarrow> pub inc key = None
    | _ \<Rightarrow> True)"

definition flights_agree :: "published \<Rightarrow> fetch_env \<Rightarrow> string \<Rightarrow> bool" where
  "flights_agree pub env inc \<longleftrightarrow> (\<forall>n key r. fe_shared env n (inc @ CHR 0x00 # key) = Some r \<longrightarrow>
      (case r of Inl e \<Rightarrow> e \<noteq> NotFound | Inr obj \<Rightarrow> agrees pub inc key obj))"

text \<open>The world of a site: its objects are immutable, and other requests keep the cache coherent.\<close>

definition env_ok :: "published \<Rightarrow> fetch_env \<Rightarrow> site \<Rightarrow> bool" where
  "env_ok pub env s \<longleftrightarrow> proper (st_incarnation s) \<and> origin_agrees pub env (st_incarnation s)
     \<and> flights_agree pub env (st_incarnation s) \<and> (\<forall>n c. coherent pub c \<longrightarrow> coherent pub (fe_others env n c))"

definition published_at :: "published \<Rightarrow> site \<Rightarrow> string \<Rightarrow> object option" where
  "published_at pub s p = pub (st_incarnation s) (keyFor s p)"

lemma coherent_cached:
  assumes "coherent pub c" "proper (st_incarnation s)" "cacheGet c (cacheKey s p) = Some obj"
  shows "agrees pub (st_incarnation s) (keyFor s p) obj"
  using assms by (simp add: coherent_def cacheGet_def cacheKey_def split: if_split_asm)

lemma put_in_coherent:
  assumes "coherent pub (wo_cache w)" "proper (st_incarnation s)" "agrees pub (st_incarnation s) (keyFor s p) obj"
  shows "coherent pub (wo_cache (put_in env s (cacheKey s p) obj w))"
proof (cases "cachePut (fe_order env (wo_calls w)) (st_appID s) (cacheKey s p) obj (wo_cache w)")
  case None
  then show ?thesis using assms(1) by (simp add: put_in_def)
next
  case (Some c)
  have "agrees pub inc key x" if "proper inc" "ca_entries c (inc @ CHR 0x00 # key) = Some x" for inc key x
  proof -
    from cachePut_sub [OF Some that(2)] show ?thesis
    proof
      assume "ca_entries (wo_cache w) (inc @ CHR 0x00 # key) = Some x"
      then show ?thesis using assms(1) that(1) by (simp add: coherent_def)
    next
      assume eq: "inc @ CHR 0x00 # key = cacheKey s p \<and> x = obj"
      have "inc = st_incarnation s \<and> key = keyFor s p"
      proof (rule nul_split)
        show "inc @ CHR 0x00 # key = st_incarnation s @ CHR 0x00 # keyFor s p" using eq by (simp only: cacheKey_def)
      qed (use that(1) assms(2) in \<open>simp_all add: proper_def\<close>)
      then show ?thesis using eq assms(3) by simp
    qed
  qed
  then show ?thesis using Some by (simp add: put_in_def coherent_def)
qed

lemma fetchMiss_ok:
  assumes "env_ok pub env s" "coherent pub (wo_cache w)" "fetchMiss env s p w = (w', r)"
  shows "coherent pub (wo_cache w')
    \<and> (case r of Inl e \<Rightarrow> e \<noteq> NotFound | Inr obj \<Rightarrow> agrees pub (st_incarnation s) (keyFor s p) obj)"
proof -
  have proper: "proper (st_incarnation s)" and origin: "origin_agrees pub env (st_incarnation s)"
    using assms(1) by (simp_all add: env_ok_def)
  show ?thesis
  proof (cases "cacheGet (wo_cache w) (cacheKey s p)")
    case (Some obj)
    then show ?thesis using assms(2,3) coherent_cached [OF assms(2) proper Some] by (auto simp: fetchMiss_def)
  next
    case None
    show ?thesis
    proof (cases "snd (acquireGate (fe_gate env (wo_calls w)) (st_appID s) (fe_bytes env (wo_calls w)))")
      case False
      then show ?thesis using assms(2,3) None by (auto simp: fetchMiss_def)
    next
      case True
      have o: "case fe_origin env (wo_calls w) (keyFor s p) of
            Found body spare ct \<Rightarrow> pub (st_incarnation s) (keyFor s p) = Some \<lparr>ob_body = body, ob_spare = spare,
              ob_contentType = ct, ob_etag = fe_etag env body, ob_negative = False\<rparr>
          | Missing \<Rightarrow> pub (st_incarnation s) (keyFor s p) = None | _ \<Rightarrow> True"
        using origin by (simp add: origin_agrees_def)
      show ?thesis
        using assms(2,3) None True o put_in_coherent [OF assms(2) proper]
        by (cases "fe_origin env (wo_calls w) (keyFor s p)")
          (auto simp: fetchMiss_def Let_def agrees_def missObject_def)
    qed
  qed
qed

lemma getObject_ok:
  assumes "env_ok pub env s" "coherent pub (wo_cache w)" "getObject env s p w = (w', r)"
  shows "coherent pub (wo_cache w')"
    and "r = Inr obj \<Longrightarrow> published_at pub s p = Some obj"
    and "r = Inl NotFound \<Longrightarrow> published_at pub s p = None"
proof -
  have proper: "proper (st_incarnation s)" and flights: "flights_agree pub env (st_incarnation s)"
    using assms(1) by (simp_all add: env_ok_def)
  have "coherent pub (wo_cache w') \<and> (\<exists>x. r = rbind x negativeErr \<and>
      (case x of Inl e \<Rightarrow> e \<noteq> NotFound | Inr obj \<Rightarrow> agrees pub (st_incarnation s) (keyFor s p) obj))"
  proof (cases "cacheGet (wo_cache w) (cacheKey s p)")
    case (Some obj)
    have "w' = w" "r = rbind (Inr obj) negativeErr" using assms(3) Some by (simp_all add: getObject_def)
    then show ?thesis using assms(2) coherent_cached [OF assms(2) proper Some] by (intro conjI exI [of _ "Inr obj"]) simp_all
  next
    case None
    let ?w1 = "w\<lparr>wo_cache := fe_others env (wo_calls w) (wo_cache w)\<rparr>"
    have c1: "coherent pub (wo_cache ?w1)" using assms(1,2) by (simp add: env_ok_def)
    obtain w2 x where x: "(case fe_shared env (wo_calls w) (cacheKey s p) of Some r \<Rightarrow> (?w1, r) | None \<Rightarrow> fetchMiss env s p ?w1) = (w2, x)"
      by (metis surj_pair)
    have res: "w' = w2\<lparr>wo_calls := wo_calls w + 1\<rparr>" "r = rbind x negativeErr"
      using assms(3) None x by (simp_all add: getObject_def Let_def)
    have "coherent pub (wo_cache w2) \<and> (case x of Inl e \<Rightarrow> e \<noteq> NotFound | Inr obj \<Rightarrow> agrees pub (st_incarnation s) (keyFor s p) obj)"
    proof (cases "fe_shared env (wo_calls w) (cacheKey s p)")
      case None
      then show ?thesis using fetchMiss_ok [OF assms(1) c1] x by simp
    next
      case (Some y)
      then have "w2 = ?w1" "x = y" using x by simp_all
      then show ?thesis using c1 flights Some unfolding flights_agree_def cacheKey_def by simp
    qed
    then show ?thesis using res by auto
  qed
  then obtain x where x: "coherent pub (wo_cache w')" "r = rbind x negativeErr"
      "case x of Inl e \<Rightarrow> e \<noteq> NotFound | Inr obj \<Rightarrow> agrees pub (st_incarnation s) (keyFor s p) obj" by blast
  then show "coherent pub (wo_cache w')" "r = Inr obj \<Longrightarrow> published_at pub s p = Some obj"
    "r = Inl NotFound \<Longrightarrow> published_at pub s p = None"
    by (cases x; auto simp: negativeErr_def agrees_def published_at_def split: if_split_asm)+
qed

interpretation server: object_reader "getObject env s" "\<lambda>w. env_ok pub env s \<and> coherent pub (wo_cache w)" "published_at pub s"
  for env s pub
proof (unfold_locales, goal_cases)
  case (1 w p w' r)
  then show ?case using getObject_ok(1) by blast
next
  case (2 w p w' obj)
  then show ?case using getObject_ok(2) by blast
next
  case (3 w p w')
  then show ?case using getObject_ok(3) by blast
qed

text \<open>A world in which no lookup fails: there is a slot, the origin answers, and so do the flights of others.\<close>

definition smooth :: "fetch_env \<Rightarrow> site \<Rightarrow> bool" where
  "smooth env s \<longleftrightarrow> (\<forall>n. snd (acquireGate (fe_gate env n) (st_appID s) (fe_bytes env n)))
     \<and> (\<forall>n key. fe_origin env n key \<noteq> Oversize \<and> fe_origin env n key \<noteq> Broken)
     \<and> (\<forall>n ck e. fe_shared env n ck \<noteq> Some (Inl e))"

lemma getObject_smooth:
  assumes "smooth env s" "getObject env s p w = (w', Inl e)"
  shows "e = NotFound"
proof -
  have miss: "e = NotFound" if "fetchMiss env s p w1 = (w2, x)" "rbind x negativeErr = Inl e" for w1 w2 x
    using that assms(1)
    by (cases "fe_origin env (wo_calls w1) (keyFor s p)")
      (auto simp: fetchMiss_def smooth_def Let_def negativeErr_def split: option.splits if_split_asm)
  show ?thesis
  proof (cases "cacheGet (wo_cache w) (cacheKey s p)")
    case (Some obj)
    then show ?thesis using assms(2) by (simp add: getObject_def negativeErr_def split: if_split_asm)
  next
    case None
    let ?w1 = "w\<lparr>wo_cache := fe_others env (wo_calls w) (wo_cache w)\<rparr>"
    show ?thesis
    proof (cases "fe_shared env (wo_calls w) (cacheKey s p)")
      case (Some r)
      then obtain obj where "r = Inr obj" using assms(1) by (cases r) (auto simp: smooth_def)
      then show ?thesis using assms(2) None Some by (simp add: getObject_def negativeErr_def Let_def split: if_split_asm)
    next
      case none: None
      obtain w2 x where x: "fetchMiss env s p ?w1 = (w2, x)" by (cases "fetchMiss env s p ?w1")
      then have "rbind x negativeErr = Inl e" using assms(2) None none by (simp add: getObject_def Let_def)
      then show ?thesis using miss [OF x] by simp
    qed
  qed
qed

interpretation smooth_server: reliable_reader "getObject env s"
  "\<lambda>w. (env_ok pub env s \<and> smooth env s) \<and> coherent pub (wo_cache w)" "published_at pub s"
  for env s pub
proof (unfold_locales, goal_cases)
  case (1 w p w' r)
  then show ?case using getObject_ok(1) by blast
next
  case (2 w p w' obj)
  then show ?case using getObject_ok(2) by blast
next
  case (3 w p w')
  then show ?case using getObject_ok(3) by blast
next
  case (4 w p w' e)
  then show ?case using getObject_smooth by blast
qed

section \<open>Properties\<close>

text \<open>C10: a site's visitors are served that site's objects. Take a cache that is coherent, as an empty one is, and an
  origin that may fail at any time but, when it answers, answers what the current incarnation of the App that owns the host
  has published, with other requests that keep the cache coherent. Whatever else the cache holds and however the reads fail, the object of
  a successful answer is then one that this App has published, in that incarnation, under its own key prefix at a path without
  empty, dot or dot-dot segments; a not-found page is that App's \<open>/404.html\<close>; and the cache stays coherent.\<close>

theorem static_serves_own_site:
  assumes "\<forall>s. resolve (hostOnly host) = Some s \<longrightarrow> env_ok pub fenv s" "coherent pub (wo_cache w)"
    and "serveHTTP fenv env resolve verb host path rawQuery w = (w', resp)"
  shows "coherent pub (wo_cache w')
    \<and> (case resp of
         Served obj served h \<Rightarrow> \<exists>s q. resolve (hostOnly host) = Some s \<and> clean_path q \<and> served = lookupPath q
           \<and> pub (st_incarnation s) (key_prefix s @ trim_prefix ''/'' served) = Some obj
       | NotFoundPage obj h \<Rightarrow> \<exists>s. resolve (hostOnly host) = Some s
           \<and> pub (st_incarnation s) (key_prefix s @ ''404.html'') = Some obj
       | _ \<Rightarrow> True)"
proof (cases "verb \<noteq> ''GET'' \<and> verb \<noteq> ''HEAD'' \<or> resolve (hostOnly host) = None")
  case True
  then show ?thesis using assms(2,3) by (auto simp: serveHTTP_def split: option.splits if_split_asm)
next
  case False
  then obtain s where s: "resolve (hostOnly host) = Some s" by auto
  have run: "serveSite env (verb = ''HEAD'') (getObject fenv s) s (normalizePath path) rawQuery w = (w', resp)"
    using assms(3) False s by (auto simp: serveHTTP_def)
  have "env_ok pub fenv s \<and> coherent pub (wo_cache w)" using assms(1,2) s by simp
  note ans = server.serveSite_answers [OF this normalizePath_clean run]
  have page: "keyFor s ''/404.html'' = key_prefix s @ ''404.html''" by (simp add: keyFor_def trim_prefix_def starts_with_def)
  show ?thesis
    using ans s page
    by (cases resp) (auto simp: server.answers_def published_at_def keyFor_def)
qed

text \<open>C21: caching, gating and collapsing change no answer. While no lookup fails, a request is answered exactly as
  if every object were read directly from what the App has published.\<close>

theorem static_equals_direct_read:
  assumes "resolve (hostOnly host) = Some s" "env_ok pub fenv s" "smooth fenv s" "coherent pub (wo_cache w)"
    and "verb = ''GET'' \<or> verb = ''HEAD''"
  shows "snd (serveHTTP fenv env resolve verb host path rawQuery w)
    = snd (serveSite env (verb = ''HEAD'') (direct (published_at pub s)) s (normalizePath path) rawQuery ())"
proof -
  have "serveHTTP fenv env resolve verb host path rawQuery w
      = serveSite env (verb = ''HEAD'') (getObject fenv s) s (normalizePath path) rawQuery w"
    using assms(1,5) by (auto simp: serveHTTP_def)
  moreover have "(env_ok pub fenv s \<and> smooth fenv s) \<and> coherent pub (wo_cache w)" using assms(2-4) by simp
  ultimately show ?thesis using smooth_server.serveSite_same by simp
qed

subsection \<open>A concrete site\<close>

definition ex_site :: site where
  "ex_site = \<lparr>st_appID = ''a'', st_revision = ''r'', st_prefix = [], st_routes = [], st_headers = [], st_incarnation = ''u'',
     st_unavailable = False, st_noSPAFallback = True\<rparr>"

definition ex_page :: object where
  "ex_page = \<lparr>ob_body = ''hi'', ob_spare = 0, ob_contentType = ''text/html'', ob_etag = ''t'', ob_negative = False\<rparr>"

definition ex_pub :: published where
  "ex_pub inc key = (if key = ''a/r/index.html'' then Some ex_page else None)"

definition ex_fenv :: fetch_env where
  "ex_fenv = \<lparr>fe_origin = (\<lambda>n key. if key = ''a/r/index.html'' then Found ''hi'' 0 ''text/html'' else Missing),
     fe_gate = (\<lambda>n. None), fe_bytes = (\<lambda>n. True), fe_shared = (\<lambda>n ck. None), fe_others = (\<lambda>n c. c),
     fe_order = (\<lambda>n. by_key), fe_etag = (\<lambda>b. ''t'')\<rparr>"

definition ex_senv :: serve_env where
  "ex_senv = \<lparr>se_mime = (\<lambda>e. []), se_live = (\<lambda>n. True)\<rparr>"

text \<open>A server whose cache is off.\<close>

definition ex_world :: world where
  "ex_world = \<lparr>wo_cache = newCache 0, wo_calls = 0\<rparr>"

definition ex_resolve :: "string \<Rightarrow> site option" where
  "ex_resolve h = (if h = ''web.x'' then Some ex_site else None)"

lemma ex_static_ok:
  "env_ok ex_pub ex_fenv ex_site" "smooth ex_fenv ex_site" "coherent ex_pub (wo_cache ex_world)"
  "ex_resolve (hostOnly ''web.x:80'') = Some ex_site"
  by (auto simp: env_ok_def origin_agrees_def flights_agree_def proper_def smooth_def ex_site_def ex_fenv_def ex_pub_def
      ex_page_def ex_world_def coherent_def newCache_def acquireGate_def ex_resolve_def hostOnly_def cut_at_def)

lemma ex_served:
  "\<exists>w' h. serveHTTP ex_fenv ex_senv ex_resolve ''GET'' ''web.x:80'' ''/'' [] ex_world = (w', Served ex_page ''/index.html'' h)"
proof -
  have n: "normalizePath ''/'' = ''/''" by (simp add: normalizePath_def path_clean_def ends_with_def trim_prefix_def starts_with_def)
  have l: "lookupPath ''/'' = ''/index.html''" by (simp add: lookupPath_def trim_suffix_def ends_with_def)
  have k: "keyFor ex_site ''/index.html'' = ''a/r/index.html''"
    by (simp add: keyFor_def key_prefix_def ex_site_def trim_prefix_def starts_with_def ends_with_def)
  have o: "\<not> overlongKey ex_site ''/''" by (simp add: overlongKey_def l k maxObjectKeyBytes_def)
  have g: "\<exists>w'. getObject ex_fenv ex_site ''/index.html'' ex_world = (w', Inr ex_page)"
    by (simp add: getObject_def fetchMiss_def cacheGet_def ex_world_def newCache_def ex_fenv_def k acquireGate_def
        negativeErr_def ex_page_def Let_def)
  have "\<not> st_unavailable ex_site" by (simp add: ex_site_def)
  then show ?thesis
    using g by (auto simp: serveHTTP_def ex_static_ok(4) n serveSite_def o fetchPath_def l serveObject_def ex_senv_def Let_def)
qed

theorem static_serves_own_site_witness:
  "\<exists>w' h. serveHTTP ex_fenv ex_senv ex_resolve ''GET'' ''web.x:80'' ''/'' [] ex_world = (w', Served ex_page ''/index.html'' h)
    \<and> (\<exists>s. ex_resolve ''web.x'' = Some s \<and> ex_pub (st_incarnation s) (key_prefix s @ ''index.html'') = Some ex_page)"
proof -
  obtain w' h where run: "serveHTTP ex_fenv ex_senv ex_resolve ''GET'' ''web.x:80'' ''/'' [] ex_world = (w', Served ex_page ''/index.html'' h)"
    using ex_served by blast
  have host: "hostOnly ''web.x:80'' = ''web.x''" by (simp add: hostOnly_def cut_at_def)
  have "\<forall>s. ex_resolve (hostOnly ''web.x:80'') = Some s \<longrightarrow> env_ok ex_pub ex_fenv s" using ex_static_ok by simp
  from static_serves_own_site [OF this ex_static_ok(3) run] run show ?thesis
    by (auto simp: host trim_prefix_def starts_with_def)
qed

theorem static_equals_direct_read_witness:
  "\<exists>h. snd (serveSite ex_senv False (direct (published_at ex_pub ex_site)) ex_site (normalizePath ''/'') [] ())
    = Served ex_page ''/index.html'' h"
proof -
  from static_equals_direct_read [where resolve = ex_resolve and host = "''web.x:80''" and verb = "''GET''" and env = ex_senv and path = "''/''" and rawQuery = "[]",
      OF ex_static_ok(4,1,2,3)] ex_served
  have "\<exists>w' h. (w', Served ex_page ''/index.html'' h) = serveHTTP ex_fenv ex_senv ex_resolve ''GET'' ''web.x:80'' ''/'' [] ex_world
      \<and> snd (serveHTTP ex_fenv ex_senv ex_resolve ''GET'' ''web.x:80'' ''/'' [] ex_world)
        = snd (serveSite ex_senv False (direct (published_at ex_pub ex_site)) ex_site (normalizePath ''/'') [] ())" by auto
  then show ?thesis by (metis snd_conv)
qed

end
