(* ===== verification/Tickets.thy ===== *)
theory Tickets
  imports StaticRules
begin

text \<open>
  The signed tickets of the gateway: the envelope of \<open>backend/internal/hmacticket/hmacticket.go\<close> and the
  flavours over it, \<open>shellticket\<close>, \<open>sandboxexec\<close>, \<open>agentsessionticket\<close>, \<open>sandboxfiles\<close> and the connect
  tokens of \<open>backend/internal/sandbox\<close>.

  A Go string is a list of bytes, here characters. The unpadded URL-safe base64 of the wire format is
  written out. HMAC-SHA256 is an argument \<open>hmac\<close> of the definitions and JSON a pair of functions; no
  theorem needs more of them than the round trip of JSON on the claims at hand. \<open>json.Unmarshal\<close>
  answers the value as far as it was filled and whether it succeeded.

  Instants are nanoseconds since the Unix epoch. A claim of seconds is a signed 64-bit word and
  \<open>time.Unix\<close> wraps as Go's does. Adding the skew saturates in Go only within thirty seconds of the
  last instant of \<open>time.Time\<close>; the model does not saturate.
\<close>

section \<open>Unpadded URL-safe base64\<close>

definition b64_digits :: string where
  "b64_digits = ''ABCDEFGHIJKLMNOPQRSTUVWXYZabcdefghijklmnopqrstuvwxyz0123456789-_''"

definition b64_digit :: "nat \<Rightarrow> char" where
  "b64_digit n = b64_digits ! n"

definition b64_value :: "char \<Rightarrow> nat option" where
  "b64_value c = (if c \<in> set b64_digits then Some (length (takeWhile (\<lambda>d. d \<noteq> c) b64_digits)) else None)"

fun b64_codes :: "string \<Rightarrow> nat list" where
  "b64_codes [] = []"
| "b64_codes [a] = (let x = of_char a in [x div 4, x mod 4 * 16])"
| "b64_codes [a, b] =
     (let x = of_char a; y = of_char b in [x div 4, x mod 4 * 16 + y div 16, y mod 16 * 4])"
| "b64_codes (a # b # c # s) =
     (let x = of_char a; y = of_char b; z = of_char c
      in [x div 4, x mod 4 * 16 + y div 16, y mod 16 * 4 + z div 64, z mod 64] @ b64_codes s)"

definition b64_encode :: "string \<Rightarrow> string" where
  "b64_encode s = map b64_digit (b64_codes s)"

text \<open>Bits that do not fill a byte are dropped, and a lone digit at the end is an error.\<close>

fun b64_join :: "nat list \<Rightarrow> string option" where
  "b64_join [] = Some []"
| "b64_join [a] = None"
| "b64_join [a, b] = Some [char_of (a * 4 + b div 16)]"
| "b64_join [a, b, c] = Some [char_of (a * 4 + b div 16), char_of (b mod 16 * 16 + c div 4)]"
| "b64_join (a # b # c # d # r) =
     map_option (\<lambda>s. char_of (a * 4 + b div 16) # char_of (b mod 16 * 16 + c div 4) # char_of (c mod 4 * 64 + d) # s)
       (b64_join r)"

fun b64_values :: "string \<Rightarrow> nat list option" where
  "b64_values [] = Some []"
| "b64_values (c # s) =
     (case b64_value c of None \<Rightarrow> None | Some n \<Rightarrow> map_option ((#) n) (b64_values s))"

text \<open>Go's decoder skips line ends.\<close>

definition b64_decode :: "string \<Rightarrow> string option" where
  "b64_decode s = Option.bind (b64_values (filter (\<lambda>c. c \<notin> {CHR 0x0A, CHR 0x0D}) s)) b64_join"

lemma b64_value_digit [simp]: "n < 64 \<Longrightarrow> b64_value (b64_digit n) = Some n"
proof -
  have "\<forall>n \<in> set [0..<64]. b64_value (b64_digit n) = Some n" by code_simp
  then show "n < 64 \<Longrightarrow> b64_value (b64_digit n) = Some n" by simp
qed

lemma b64_digit_plain: "n < 64 \<Longrightarrow> b64_digit n \<notin> {CHR 0x0A, CHR 0x0D, CHR ''.''}"
proof -
  have "\<forall>n \<in> set [0..<64]. b64_digit n \<notin> {CHR 0x0A, CHR 0x0D, CHR ''.''}" by code_simp
  then show "n < 64 \<Longrightarrow> b64_digit n \<notin> {CHR 0x0A, CHR 0x0D, CHR ''.''}" by simp
qed

lemma codes_bounded: "\<forall>n \<in> set (b64_codes s). n < 64"
proof -
  have c: "(of_char c :: nat) < 256" for c by (rule nat_of_char_less_256)
  have "(of_char c :: nat) div 4 < 64" for c using c [of c] by linarith
  moreover have "(of_char c :: nat) mod 4 * 16 + of_char d div 16 < 64" for c d
  proof -
    have "(of_char c :: nat) mod 4 < 4" "(of_char d :: nat) div 16 < 16" using c [of d] by (simp, linarith)
    then show ?thesis by linarith
  qed
  moreover have "(of_char c :: nat) mod 16 * 4 + of_char d div 64 < 64" for c d
  proof -
    have "(of_char c :: nat) mod 16 < 16" "(of_char d :: nat) div 64 < 4" using c [of d] by (simp, linarith)
    then show ?thesis by linarith
  qed
  moreover have "(of_char c :: nat) mod 4 * 16 < 64" "(of_char c :: nat) mod 16 * 4 < 64" for c
    using mod_less_divisor [of 4 "of_char c :: nat"] mod_less_divisor [of 16 "of_char c :: nat"] by linarith+
  ultimately show ?thesis by (induction s rule: b64_codes.induct) (simp_all add: Let_def)
qed

lemma values_digits: "\<forall>n \<in> set ns. n < 64 \<Longrightarrow> b64_values (map b64_digit ns) = Some ns"
  by (induction ns) simp_all

lemma join_codes: "b64_join (b64_codes s) = Some s"
proof -
  have c: "(of_char c :: nat) < 256" for c by (rule nat_of_char_less_256)
  have high: "(of_char c :: nat) div 16 div 16 = 0" "(of_char c :: nat) div 64 div 4 = 0" for c
    using c [of c] by (simp_all flip: div_mult2_eq)
  then have "(of_char c :: nat) div 16 mod 16 = of_char c div 16" "(of_char c :: nat) div 64 mod 4 = of_char c div 64" for c
    by (metis div_eq_0_iff mod_less zero_neq_numeral)+
  with high show ?thesis
    by (induction s rule: b64_codes.induct) (simp_all add: Let_def)
qed

lemma b64_roundtrip [simp]: "b64_decode (b64_encode s) = Some s"
proof -
  have "filter (\<lambda>c. c \<notin> {CHR 0x0A, CHR 0x0D}) (b64_encode s) = b64_encode s"
    unfolding b64_encode_def using codes_bounded [of s] b64_digit_plain by (auto simp: filter_id_conv)
  then show ?thesis
    by (simp add: b64_decode_def b64_encode_def values_digits [OF codes_bounded] join_codes)
qed

lemma b64_no_dot: "CHR ''.'' \<notin> set (b64_encode s)"
proof
  assume "CHR ''.'' \<in> set (b64_encode s)"
  then obtain n where "n \<in> set (b64_codes s)" "CHR ''.'' = b64_digit n" by (auto simp: b64_encode_def)
  then show False using codes_bounded [of s] b64_digit_plain [of n] by auto
qed

lemma b64_encode_Nil [simp]: "b64_encode s = [] \<longleftrightarrow> s = []"
  by (cases s rule: b64_codes.cases) (simp_all add: b64_encode_def Let_def)

section \<open>The envelope\<close>

type_synonym instant = int

definition second :: instant where "second = 1000000000"

definition ClockSkew :: instant where "ClockSkew = 30 * second"

definition unixToInternal :: int where "unixToInternal = 62135596800"

definition unix :: "64 word \<Rightarrow> instant" where
  "unix s = (sint (s + word_of_int unixToInternal) - unixToInternal) * second"

datatype ticket_error =
  TicketMalformed | TicketSignature | TicketExpired | TicketNoSecret | TicketInvalidAction | TicketEncoding | TicketEntropy

definition mac :: "(string \<Rightarrow> string \<Rightarrow> string) \<Rightarrow> string \<Rightarrow> string \<Rightarrow> string" where
  "mac hmac secret body = b64_encode (hmac secret body)"

definition sign :: "(string \<Rightarrow> string \<Rightarrow> string) \<Rightarrow> ('c \<Rightarrow> string option) \<Rightarrow> string \<Rightarrow> 'c \<Rightarrow> ticket_error + string" where
  "sign hmac marshal secret claims =
     (if secret = [] then Inl TicketNoSecret
      else
        (case marshal claims of
           None \<Rightarrow> Inl TicketEncoding
         | Some payload \<Rightarrow>
             let body = b64_encode payload in Inr (body @ CHR ''.'' # mac hmac secret body)))"

text \<open>\<open>claims\<close> is the value the caller's pointer refers to; the result holds it afterwards.\<close>

definition openToken :: "(string \<Rightarrow> string \<Rightarrow> string) \<Rightarrow> (string \<Rightarrow> 'c \<Rightarrow> 'c \<times> bool) \<Rightarrow> 'c \<Rightarrow> string \<Rightarrow> string \<Rightarrow> 'c
    \<Rightarrow> 'c \<times> ticket_error option" where
  "openToken hmac unmarshal zero secret token claims =
     (if secret = [] then (claims, Some TicketNoSecret)
      else
        (case cut_at (CHR ''.'') token of
           (body, signature, ok) \<Rightarrow>
             if \<not> ok \<or> body = [] \<or> signature = [] then (claims, Some TicketMalformed)
             else if signature \<noteq> mac hmac secret body then (claims, Some TicketSignature)
             else
               (case b64_decode body of
                  None \<Rightarrow> (claims, Some TicketMalformed)
                | Some payload \<Rightarrow>
                    (case unmarshal payload claims of
                       (c, True) \<Rightarrow> (c, None)
                     | (c, False) \<Rightarrow> (zero, Some TicketMalformed)))))"

definition checkBounds :: "instant \<Rightarrow> 64 word \<Rightarrow> 64 word \<Rightarrow> ticket_error option" where
  "checkBounds now issuedAt expiresAt =
     (if unix expiresAt < now - ClockSkew then Some TicketExpired
      else if issuedAt \<noteq> 0 \<and> now + ClockSkew < unix issuedAt then Some TicketMalformed
      else None)"

definition nonceExpiry :: "64 word \<Rightarrow> instant" where
  "nonceExpiry expiresAt = unix expiresAt + ClockSkew"

text \<open>\<open>random\<close> is what \<open>crypto/rand\<close> gave: sixteen bytes, or nothing when it failed.\<close>

definition nonce_of :: "string option \<Rightarrow> ticket_error + string" where
  "nonce_of random = (case random of None \<Rightarrow> Inl TicketEntropy | Some b \<Rightarrow> Inr (b64_encode b))"

definition ensureNonce :: "string option \<Rightarrow> string \<Rightarrow> ticket_error + string" where
  "ensureNonce random n = (if n \<noteq> [] then Inr n else nonce_of random)"

text \<open>The key of a feature that derives its own from the configured secret.\<close>

definition derivedKey :: "(string \<Rightarrow> string \<Rightarrow> string) \<Rightarrow> string \<Rightarrow> string \<Rightarrow> string" where
  "derivedKey hmac label secret = (if secret = [] then [] else hmac secret label)"

section \<open>The flavours\<close>

text \<open>A flavour: how to read and replace the nonce of its claims, JSON on them, and the zero value.\<close>

record 'c flavour =
  fl_nonce :: "'c \<Rightarrow> string"
  fl_setNonce :: "string \<Rightarrow> 'c \<Rightarrow> 'c"
  fl_marshal :: "'c \<Rightarrow> string option"
  fl_unmarshal :: "string \<Rightarrow> 'c \<Rightarrow> 'c \<times> bool"
  fl_zero :: 'c

definition mint :: "(string \<Rightarrow> string \<Rightarrow> string) \<Rightarrow> 'c flavour \<Rightarrow> string option \<Rightarrow> string \<Rightarrow> 'c \<Rightarrow> ticket_error + string" where
  "mint hmac fl random secret claims =
     rbind (ensureNonce random (fl_nonce fl claims))
       (\<lambda>n. sign hmac (fl_marshal fl) secret (fl_setNonce fl n claims))"

definition openInto :: "(string \<Rightarrow> string \<Rightarrow> string) \<Rightarrow> 'c flavour \<Rightarrow> string \<Rightarrow> string \<Rightarrow> ticket_error + 'c" where
  "openInto hmac fl secret token =
     (case openToken hmac (fl_unmarshal fl) (fl_zero fl) secret token (fl_zero fl) of
        (c, Some e) \<Rightarrow> Inl e
      | (c, None) \<Rightarrow> Inr c)"

definition withinBounds :: "instant \<Rightarrow> 64 word \<Rightarrow> 64 word \<Rightarrow> 'c \<Rightarrow> ticket_error + 'c" where
  "withinBounds now issuedAt expiresAt c =
     (case checkBounds now issuedAt expiresAt of Some e \<Rightarrow> Inl e | None \<Rightarrow> Inr c)"

record shell_claims =
  sc_subject :: string
  sc_serviceID :: string
  sc_instanceID :: string
  sc_issuedAt :: "64 word"
  sc_expiresAt :: "64 word"
  sc_nonce :: string

definition verifyShell :: "(string \<Rightarrow> string \<Rightarrow> string) \<Rightarrow> shell_claims flavour \<Rightarrow> string \<Rightarrow> string \<Rightarrow> instant
    \<Rightarrow> ticket_error + shell_claims" where
  "verifyShell hmac fl secret token now =
     rbind (openInto hmac fl secret token)
       (\<lambda>c. if sc_subject c = [] \<or> sc_serviceID c = [] \<or> sc_nonce c = [] \<or> sc_expiresAt c = 0
          then Inl TicketMalformed else withinBounds now (sc_issuedAt c) (sc_expiresAt c) c)"

definition shellUsername :: "shell_claims \<Rightarrow> string" where
  "shellUsername c = (if sc_instanceID c \<noteq> [] then sc_instanceID c else sc_serviceID c)"

record exec_claims =
  xc_subject :: string
  xc_sandboxID :: string
  xc_namespace :: string
  xc_command :: "string list"
  xc_workspace :: string
  xc_agentSessionID :: string
  xc_issuedAt :: "64 word"
  xc_expiresAt :: "64 word"
  xc_nonce :: string

definition verifyExec :: "(string \<Rightarrow> string \<Rightarrow> string) \<Rightarrow> exec_claims flavour \<Rightarrow> string \<Rightarrow> string \<Rightarrow> instant
    \<Rightarrow> ticket_error + exec_claims" where
  "verifyExec hmac fl secret token now =
     rbind (openInto hmac fl secret token)
       (\<lambda>c. if xc_subject c = [] \<or> xc_sandboxID c = [] \<or> xc_namespace c = [] \<or> length (xc_command c) = 0
            \<or> xc_nonce c = [] \<or> xc_expiresAt c = 0
          then Inl TicketMalformed else withinBounds now (xc_issuedAt c) (xc_expiresAt c) c)"

text \<open>The agent session ticket: an omitted action reads, and the pod triple is all or nothing.\<close>

record session_claims =
  ac_subject :: string
  ac_sessionID :: string
  ac_sandboxID :: string
  ac_pod :: string
  ac_workspace :: string
  ac_namespace :: string
  ac_action :: string
  ac_turn :: int
  ac_issuedAt :: "64 word"
  ac_expiresAt :: "64 word"
  ac_nonce :: string

definition defaultAction :: "session_claims \<Rightarrow> ticket_error + session_claims" where
  "defaultAction c =
     (if ac_action c = [] then Inr (c\<lparr>ac_action := ''read''\<rparr>)
      else if ac_action c = ''read'' \<or> ac_action c = ''turn'' then Inr c
      else Inl TicketInvalidAction)"

definition podClaims :: "session_claims \<Rightarrow> nat" where
  "podClaims c = length (filter (\<lambda>x. x \<noteq> []) [ac_sandboxID c, ac_pod c, ac_namespace c])"

definition podTriple :: "session_claims \<Rightarrow> ticket_error + session_claims" where
  "podTriple c =
     (if podClaims c = 3 then Inr c
      else if podClaims c = 0 then (if ac_action c = ''turn'' then Inl TicketMalformed else Inr c)
      else Inl TicketMalformed)"

definition verifySession :: "(string \<Rightarrow> string \<Rightarrow> string) \<Rightarrow> session_claims flavour \<Rightarrow> string \<Rightarrow> string \<Rightarrow> instant
    \<Rightarrow> ticket_error + session_claims" where
  "verifySession hmac fl secret token now =
     rbind (openInto hmac fl secret token)
       (\<lambda>c. if ac_expiresAt c = 0 then Inl TicketMalformed
          else if [] \<in> set [ac_subject c, ac_sessionID c, ac_workspace c, ac_nonce c] then Inl TicketMalformed
          else rbind (defaultAction c) (\<lambda>c. rbind (podTriple c)
            (\<lambda>c. withinBounds now (ac_issuedAt c) (ac_expiresAt c) c)))"

text \<open>The file ticket, bound to one path.\<close>

record file_claims =
  fc_subject :: string
  fc_workspace :: string
  fc_sandboxID :: string
  fc_namespace :: string
  fc_agentSessionID :: string
  fc_operation :: string
  fc_path :: string
  fc_issuedAt :: "64 word"
  fc_expiresAt :: "64 word"
  fc_nonce :: string

definition MaxPathBytes :: nat where "MaxPathBytes = 4096"
definition MaxPathDepth :: nat where "MaxPathDepth = 64"

text \<open>\<open>unicode.IsControl\<close>: the C0 and C1 control characters, the latter two bytes in UTF-8.\<close>

fun has_control :: "string \<Rightarrow> bool" where
  "has_control [] \<longleftrightarrow> False"
| "has_control (c # s) \<longleftrightarrow>
     (of_char c :: nat) < 32 \<or> (of_char c :: nat) = 127
     \<or> ((of_char c :: nat) = 0xC2 \<and> s \<noteq> [] \<and> 0x80 \<le> (of_char (hd s) :: nat) \<and> (of_char (hd s) :: nat) \<le> 0x9F)
     \<or> has_control s"

definition validatePath :: "string \<Rightarrow> bool" where
  "validatePath value \<longleftrightarrow>
     \<not> (value = ''/'' \<or> \<not> starts_with ''/'' value \<or> MaxPathBytes < length value \<or> path_clean value \<noteq> value
        \<or> CHR 0x5C \<in> set value \<or> has_control value
        \<or> MaxPathDepth < length (filter (\<lambda>c. c = CHR ''/'') value))"

definition fileKeyLabel :: string where "fileKeyLabel = ''bex sandbox file gateway ticket v1''"

definition verifyFile :: "(string \<Rightarrow> string \<Rightarrow> string) \<Rightarrow> file_claims flavour \<Rightarrow> string \<Rightarrow> string \<Rightarrow> instant
    \<Rightarrow> ticket_error + file_claims" where
  "verifyFile hmac fl secret token now =
     rbind (openInto hmac fl (derivedKey hmac fileKeyLabel secret) token)
       (\<lambda>c. if fc_subject c = [] \<or> fc_workspace c = [] \<or> fc_sandboxID c = []
            \<or> fc_namespace c \<noteq> fc_workspace c @ ''-sandbox''
            \<or> CHR ''/'' \<in> set (fc_sandboxID c) \<or> CHR 0x5C \<in> set (fc_sandboxID c)
            \<or> fc_nonce c = [] \<or> fc_expiresAt c = 0
            \<or> (fc_operation c \<noteq> ''upload'' \<and> fc_operation c \<noteq> ''download'') \<or> \<not> validatePath (fc_path c)
          then Inl TicketMalformed else withinBounds now (fc_issuedAt c) (fc_expiresAt c) c)"

definition AgentAttachmentsPath :: string where "AgentAttachmentsPath = ''/var/lib/bex-agent/attachments''"
definition AgentSkillsPath :: string where "AgentSkillsPath = ''/var/lib/bex-agent/skills''"

definition platformUploadAllowed :: "string \<Rightarrow> file_claims \<Rightarrow> bool" where
  "platformUploadAllowed platformSubject c \<longleftrightarrow>
     fc_subject c \<noteq> platformSubject
     \<or> (fc_operation c = ''upload'' \<and> fc_agentSessionID c \<noteq> []
        \<and> (fc_path c = AgentAttachmentsPath \<or> fc_path c = AgentSkillsPath))"

definition limitKey :: "string \<Rightarrow> file_claims \<Rightarrow> string" where
  "limitKey platformSubject c =
     (if fc_subject c = platformSubject then fc_subject c @ ''/'' @ fc_agentSessionID c else fc_subject c)"

section \<open>What an accepted token is\<close>

lemma openInto_Inr:
  assumes "openInto hmac fl secret token = Inr c"
  obtains body payload where "secret \<noteq> []" "token = body @ CHR ''.'' # mac hmac secret body" "CHR ''.'' \<notin> set body"
    "b64_decode body = Some payload" "fl_unmarshal fl payload (fl_zero fl) = (c, True)"
proof -
  obtain body sig ok where cut: "cut_at (CHR ''.'') token = (body, sig, ok)" by (cases "cut_at (CHR ''.'') token")
  have h: "secret \<noteq> []" "ok" "sig = mac hmac secret body"
    using assms by (auto simp: openInto_def openToken_def cut split: if_splits)
  from h(1,2) h(3) assms obtain payload where "b64_decode body = Some payload" "fl_unmarshal fl payload (fl_zero fl) = (c, True)"
    by (auto simp: openInto_def openToken_def cut split: if_splits option.splits prod.splits bool.splits)
  with h cut_at_found [of "CHR ''.''" token body sig] cut show thesis
    by (intro that [of body payload]) auto
qed

lemma openToken_no_residue:
  assumes "openToken hmac unmarshal zero secret token zero = (c, Some e)"
  shows "c = zero"
  using assms by (auto simp: openToken_def split: if_splits prod.splits option.splits bool.splits)

lemma openInto_mint:
  assumes "secret \<noteq> []" "fl_marshal fl c = Some payload" "payload \<noteq> []" "\<And>b m. hmac b m \<noteq> []"
    and "fl_unmarshal fl payload (fl_zero fl) = (c, True)"
  shows "rbind (sign hmac (fl_marshal fl) secret c) (openInto hmac fl secret) = Inr c"
proof -
  let ?body = "b64_encode payload"
  have "cut_at (CHR ''.'') (?body @ CHR ''.'' # mac hmac secret ?body) = (?body, mac hmac secret ?body, True)"
    using b64_no_dot [of payload] by (intro cut_at_append) simp
  then show ?thesis using assms by (simp add: sign_def openInto_def openToken_def mac_def Let_def)
qed

lemma checkBounds_None:
  "checkBounds now iat exp = None \<longleftrightarrow> now \<le> nonceExpiry exp \<and> (iat = 0 \<or> unix iat \<le> now + ClockSkew)"
  by (auto simp: checkBounds_def nonceExpiry_def)

lemma withinBounds_Inr:
  "withinBounds now iat exp c = Inr d \<longleftrightarrow> d = c \<and> now \<le> nonceExpiry exp \<and> (iat = 0 \<or> unix iat \<le> now + ClockSkew)"
  using checkBounds_None [of now iat exp] by (cases "checkBounds now iat exp") (auto simp: withinBounds_def)

lemma defaultAction_Inr:
  "defaultAction c = Inr d \<Longrightarrow> d = c\<lparr>ac_action := ac_action d\<rparr> \<and> ac_action d \<in> {''read'', ''turn''}"
  by (auto simp: defaultAction_def split: if_splits)

lemma podTriple_Inr:
  "podTriple c = Inr d \<Longrightarrow> d = c \<and> (ac_action c = ''turn'' \<longrightarrow> ac_sandboxID c \<noteq> [] \<and> ac_pod c \<noteq> [] \<and> ac_namespace c \<noteq> [])"
  by (auto simp: podTriple_def podClaims_def split: if_splits)

text \<open>\<open>signed hmac fl secret token c\<close>: the token carries the secret's MAC over the body that holds \<open>c\<close>.\<close>

definition signed :: "(string \<Rightarrow> string \<Rightarrow> string) \<Rightarrow> 'c flavour \<Rightarrow> string \<Rightarrow> string \<Rightarrow> 'c \<Rightarrow> bool" where
  "signed hmac fl secret token c \<longleftrightarrow>
     secret \<noteq> [] \<and> (\<exists>body payload. token = body @ CHR ''.'' # b64_encode (hmac secret body) \<and> CHR ''.'' \<notin> set body
       \<and> b64_decode body = Some payload \<and> fl_unmarshal fl payload (fl_zero fl) = (c, True))"

lemma openInto_signed: "openInto hmac fl secret token = Inr c \<Longrightarrow> signed hmac fl secret token c"
  by (erule openInto_Inr) (auto simp: signed_def mac_def)

lemma verifySession_Inr:
  assumes "verifySession hmac fl secret token now = Inr c"
  obtains c0 where "signed hmac fl secret token c0" "c = c0\<lparr>ac_action := ac_action c\<rparr>"
    "ac_action c \<in> {''read'', ''turn''}" "[] \<notin> {ac_subject c, ac_sessionID c, ac_workspace c, ac_nonce c}"
    "ac_action c = ''turn'' \<longrightarrow> ac_sandboxID c \<noteq> [] \<and> ac_pod c \<noteq> [] \<and> ac_namespace c \<noteq> []"
    "now \<le> nonceExpiry (ac_expiresAt c)"
proof -
  obtain c0 c1 c2 where h: "openInto hmac fl secret token = Inr c0"
      "[] \<notin> set [ac_subject c0, ac_sessionID c0, ac_workspace c0, ac_nonce c0]"
      "defaultAction c0 = Inr c1" "podTriple c1 = Inr c2"
      "withinBounds now (ac_issuedAt c2) (ac_expiresAt c2) c2 = Inr c"
    using assms unfolding verifySession_def rbind_Inr_iff by (auto simp: rbind_Inr_iff split: if_splits)
  from podTriple_Inr [OF h(4)] h(5) have eq: "c = c1" "c2 = c1" by (simp_all add: withinBounds_Inr)
  have c1: "c1 = c0\<lparr>ac_action := ac_action c1\<rparr>" using defaultAction_Inr [OF h(3)] by blast
  then have same: "ac_subject c1 = ac_subject c0" "ac_sessionID c1 = ac_sessionID c0" "ac_workspace c1 = ac_workspace c0"
    "ac_nonce c1 = ac_nonce c0"
    by (metis session_claims.select_convs session_claims.surjective session_claims.update_convs(7))+
  show thesis
  proof (rule that)
    show "signed hmac fl secret token c0" using h(1) by (rule openInto_signed)
    show "c = c0\<lparr>ac_action := ac_action c\<rparr>" using c1 eq(1) by simp
    show "ac_action c \<in> {''read'', ''turn''}" using defaultAction_Inr [OF h(3)] eq by simp
    show "[] \<notin> {ac_subject c, ac_sessionID c, ac_workspace c, ac_nonce c}" using h(2) same eq by auto
    show "ac_action c = ''turn'' \<longrightarrow> ac_sandboxID c \<noteq> [] \<and> ac_pod c \<noteq> [] \<and> ac_namespace c \<noteq> []"
      using podTriple_Inr [OF h(4)] eq by simp
    show "now \<le> nonceExpiry (ac_expiresAt c)" using h(5) eq by (simp add: withinBounds_Inr)
  qed
qed

lemma validatePath_segments:
  assumes "validatePath p"
  obtains segs where "p = CHR ''/'' # join ''/'' segs" "segs \<noteq> []" "list_all plain_seg segs"
proof -
  have "path_clean p = p" "p \<noteq> ''/''" using assms by (auto simp: validatePath_def)
  with path_clean_form [of p] that show thesis by (metis join.simps(1))
qed

section \<open>Properties\<close>

text \<open>Tickets round trip. A ticket minted for well-formed session claims, with a configured secret,
  is accepted by the verifier at any instant of its window, and yields the claims it was minted for
  with the single-use nonce filled in. JSON is relied on for these claims only.\<close>

theorem session_ticket_roundtrip:
  assumes "fl_nonce fl = ac_nonce" "fl_setNonce fl = (\<lambda>n. ac_nonce_update (\<lambda>_. n))"
    and "\<And>n. \<exists>payload. payload \<noteq> [] \<and> fl_marshal fl (c\<lparr>ac_nonce := n\<rparr>) = Some payload
        \<and> fl_unmarshal fl payload (fl_zero fl) = (c\<lparr>ac_nonce := n\<rparr>, True)"
    and "\<And>k m. hmac k m \<noteq> []" "secret \<noteq> []" "random = Some b" "b \<noteq> []"
    and "[] \<notin> {ac_subject c, ac_sessionID c, ac_workspace c, ac_sandboxID c, ac_pod c, ac_namespace c}"
    and "ac_action c \<in> {''read'', ''turn''}" "ac_expiresAt c \<noteq> 0"
    and "unix (ac_issuedAt c) \<le> now + ClockSkew" "now \<le> unix (ac_expiresAt c) + ClockSkew"
  shows "\<exists>n token. mint hmac fl random secret c = Inr token \<and> n \<noteq> [] \<and> (ac_nonce c \<noteq> [] \<longrightarrow> n = ac_nonce c)
     \<and> verifySession hmac fl secret token now = Inr (c\<lparr>ac_nonce := n\<rparr>)"
proof -
  define n where "n = (if ac_nonce c \<noteq> [] then ac_nonce c else b64_encode b)"
  have n: "ensureNonce random (ac_nonce c) = Inr n" "n \<noteq> []" "ac_nonce c \<noteq> [] \<Longrightarrow> n = ac_nonce c"
    using assms(6,7) by (simp_all add: n_def ensureNonce_def nonce_of_def)
  obtain payload where p: "payload \<noteq> []" "fl_marshal fl (c\<lparr>ac_nonce := n\<rparr>) = Some payload"
    "fl_unmarshal fl payload (fl_zero fl) = (c\<lparr>ac_nonce := n\<rparr>, True)" using assms(3) by blast
  from openInto_mint [where hmac = hmac, OF assms(5) p(2,1) assms(4) p(3)] obtain token where
    token: "sign hmac (fl_marshal fl) secret (c\<lparr>ac_nonce := n\<rparr>) = Inr token"
      "openInto hmac fl secret token = Inr (c\<lparr>ac_nonce := n\<rparr>)" by (auto simp: rbind_Inr_iff)
  have "mint hmac fl random secret c = Inr token"
    by (simp add: mint_def assms(1,2) n(1) token(1))
  moreover have "verifySession hmac fl secret token now = Inr (c\<lparr>ac_nonce := n\<rparr>)"
    using assms(8-12) n(2)
    by (auto simp: verifySession_def token(2) defaultAction_def podTriple_def podClaims_def withinBounds_Inr
        nonceExpiry_def)
  ultimately show ?thesis using n by blast
qed

definition ex_claims :: session_claims where
  "ex_claims = \<lparr>ac_subject = ''u'', ac_sessionID = ''s'', ac_sandboxID = ''b'', ac_pod = ''b-0'', ac_workspace = ''w'',
     ac_namespace = ''w-sandbox'', ac_action = ''turn'', ac_turn = 1, ac_issuedAt = 100, ac_expiresAt = 160, ac_nonce = ''n''\<rparr>"

text \<open>An encoding of these claims that keeps the nonce.\<close>

definition ex_flavour :: "session_claims flavour" where
  "ex_flavour = \<lparr>fl_nonce = ac_nonce, fl_setNonce = (\<lambda>n. ac_nonce_update (\<lambda>_. n)),
     fl_marshal = (\<lambda>c. Some (CHR ''#'' # ac_nonce c)),
     fl_unmarshal = (\<lambda>p z. if p = [] then (z, False) else (ex_claims\<lparr>ac_nonce := tl p\<rparr>, True)),
     fl_zero = ex_claims\<rparr>"

theorem session_ticket_roundtrip_witness:
  "\<exists>n token. mint (\<lambda>k m. ''mac'') ex_flavour (Some ''r'') ''key'' ex_claims = Inr token
     \<and> verifySession (\<lambda>k m. ''mac'') ex_flavour ''key'' token (120 * second) = Inr (ex_claims\<lparr>ac_nonce := n\<rparr>)"
proof -
  have "\<exists>n token. mint (\<lambda>k m. ''mac'') ex_flavour (Some ''r'') ''key'' ex_claims = Inr token \<and> n \<noteq> []
     \<and> (ac_nonce ex_claims \<noteq> [] \<longrightarrow> n = ac_nonce ex_claims)
     \<and> verifySession (\<lambda>k m. ''mac'') ex_flavour ''key'' token (120 * second) = Inr (ex_claims\<lparr>ac_nonce := n\<rparr>)"
    by (rule session_ticket_roundtrip [where b = "''r''"])
      (simp_all add: ex_flavour_def ex_claims_def unix_def unixToInternal_def ClockSkew_def second_def)
  then show ?thesis by blast
qed

text \<open>No ticket without the secret. What the agent-session verifier accepts is a body followed by the
  secret's own MAC of that body; the claims it returns are the ones the body carries, an omitted action
  read as \<open>read\<close>; they name a subject, a session, a workspace and a nonce, a turn ticket names its pod,
  and the instant is within the window for which the replay guard keeps the nonce.\<close>

theorem session_ticket_authentic:
  assumes "verifySession hmac fl secret token now = Inr c"
  shows "(\<exists>c0. signed hmac fl secret token c0 \<and> c = c0\<lparr>ac_action := ac_action c\<rparr>)
     \<and> ac_action c \<in> {''read'', ''turn''} \<and> [] \<notin> {ac_subject c, ac_sessionID c, ac_workspace c, ac_nonce c}
     \<and> (ac_action c = ''turn'' \<longrightarrow> [] \<notin> {ac_sandboxID c, ac_pod c, ac_namespace c})
     \<and> now \<le> nonceExpiry (ac_expiresAt c)"
  using assms by (rule verifySession_Inr) auto

theorem session_ticket_authentic_witness:
  "\<exists>token c0. signed (\<lambda>k m. ''mac'') ex_flavour ''key'' token c0
     \<and> ex_claims = c0\<lparr>ac_action := ac_action ex_claims\<rparr> \<and> 120 * second \<le> nonceExpiry (ac_expiresAt ex_claims)"
proof -
  let ?token = "b64_encode ''#n'' @ CHR ''.'' # b64_encode ''mac''"
  have "cut_at (CHR ''.'') ?token = (b64_encode ''#n'', b64_encode ''mac'', True)"
    using b64_no_dot by (intro cut_at_append) simp
  then have "verifySession (\<lambda>k m. ''mac'') ex_flavour ''key'' ?token (120 * second) = Inr ex_claims"
    by (simp add: verifySession_def openInto_def openToken_def mac_def ex_flavour_def ex_claims_def defaultAction_def
        podTriple_def podClaims_def withinBounds_def checkBounds_def unix_def unixToInternal_def ClockSkew_def second_def)
  from session_ticket_authentic [OF this] show ?thesis by blast
qed

text \<open>C22: a file ticket is confined. What the file verifier accepts was signed under the key derived for
  file transfers, for the sandbox namespace of its own workspace and a sandbox id that is one path
  component, and names a rooted path of plain segments: none is empty, \<open>.\<close> or \<open>..\<close>.\<close>

theorem file_ticket_confined:
  assumes "verifyFile hmac fl secret token now = Inr c"
  shows "signed hmac fl (hmac secret fileKeyLabel) token c \<and> fc_namespace c = fc_workspace c @ ''-sandbox''
     \<and> {CHR ''/'', CHR 0x5C} \<inter> set (fc_sandboxID c) = {} \<and> fc_operation c \<in> {''upload'', ''download''}
     \<and> (\<exists>segs. fc_path c = CHR ''/'' # join ''/'' segs \<and> segs \<noteq> [] \<and> list_all plain_seg segs)
     \<and> length (fc_path c) \<le> 4096 \<and> now \<le> nonceExpiry (fc_expiresAt c)"
proof -
  obtain d where d: "openInto hmac fl (derivedKey hmac fileKeyLabel secret) token = Inr d" "d = c" "validatePath (fc_path c)"
    "fc_namespace c = fc_workspace c @ ''-sandbox''" "CHR ''/'' \<notin> set (fc_sandboxID c)" "CHR 0x5C \<notin> set (fc_sandboxID c)"
    "fc_operation c \<in> {''upload'', ''download''}" "now \<le> nonceExpiry (fc_expiresAt c)"
    using assms unfolding verifyFile_def rbind_Inr_iff by (auto simp: withinBounds_Inr split: if_splits)
  have "signed hmac fl (derivedKey hmac fileKeyLabel secret) token c" using openInto_signed [OF d(1)] d(2) by simp
  moreover have "derivedKey hmac fileKeyLabel secret = hmac secret fileKeyLabel"
    using calculation by (auto simp: derivedKey_def signed_def split: if_splits)
  moreover have "length (fc_path c) \<le> 4096" using d(3) by (simp add: validatePath_def MaxPathBytes_def)
  ultimately show ?thesis using d validatePath_segments [OF d(3)] by (metis Int_insert_left_if0 Int_empty_left)
qed

definition ex_file :: file_claims where
  "ex_file = \<lparr>fc_subject = ''u'', fc_workspace = ''w'', fc_sandboxID = ''b'', fc_namespace = ''w-sandbox'',
     fc_agentSessionID = [], fc_operation = ''upload'', fc_path = ''/a/b'', fc_issuedAt = 100, fc_expiresAt = 160, fc_nonce = ''n''\<rparr>"

definition ex_file_flavour :: "file_claims flavour" where
  "ex_file_flavour = \<lparr>fl_nonce = fc_nonce, fl_setNonce = (\<lambda>n. fc_nonce_update (\<lambda>_. n)), fl_marshal = (\<lambda>c. Some ''#''),
     fl_unmarshal = (\<lambda>p z. (ex_file, True)), fl_zero = ex_file\<rparr>"

theorem file_ticket_confined_witness:
  "\<exists>token segs. signed (\<lambda>k m. ''mac'') ex_file_flavour ''mac'' token ex_file
     \<and> ''/a/b'' = CHR ''/'' # join ''/'' segs \<and> segs \<noteq> [] \<and> list_all plain_seg segs"
proof -
  let ?token = "b64_encode ''#'' @ CHR ''.'' # b64_encode ''mac''"
  have "cut_at (CHR ''.'') ?token = (b64_encode ''#'', b64_encode ''mac'', True)"
    using b64_no_dot by (intro cut_at_append) simp
  moreover have "validatePath ''/a/b''" by code_simp
  ultimately have "verifyFile (\<lambda>k m. ''mac'') ex_file_flavour ''key'' ?token (120 * second) = Inr ex_file"
    by (simp add: verifyFile_def openInto_def openToken_def mac_def derivedKey_def ex_file_flavour_def ex_file_def
        withinBounds_def checkBounds_def unix_def unixToInternal_def ClockSkew_def second_def)
  from file_ticket_confined [OF this] show ?thesis by (auto simp: ex_file_def)
qed

end
