(* ===== verification/NonceGuard.thy ===== *)
theory NonceGuard
  imports Tickets
begin

text \<open>
  The single-use guard of ticket nonces: \<open>NonceGuard.Consume\<close> of \<open>backend/internal/sshgateway/nonce.go\<close>
  over the shared table of \<open>PGStore.ClaimShellNonce\<close> (\<open>backend/internal/store/sshsessions.go\<close>).

  The pieces of a \<open>Consume\<close> are functions; \<open>consume\<close> composes them for a call that meets no other.
  Calls do meet: any number of gateway replicas, each with its own map behind a mutex, share one
  table, and a call is interrupted between the mark in the map, the \<open>DELETE\<close>, the \<open>INSERT\<close> and its
  return. \<open>guard_step\<close> interleaves the pieces of all calls; every statement may fail, with or
  without its effect on the table.
\<close>

section \<open>The pieces of a call\<close>

type_synonym nonce_map = "string \<Rightarrow> instant option"

definition keep_from :: "instant \<Rightarrow> nonce_map \<Rightarrow> nonce_map" where
  "keep_from now m = (\<lambda>n. case m n of None \<Rightarrow> None | Some e \<Rightarrow> if e < now then None else Some e)"

definition consumeMark :: "nonce_map \<Rightarrow> string \<Rightarrow> instant \<Rightarrow> instant \<Rightarrow> nonce_map \<times> bool" where
  "consumeMark used nonce exp now =
     (if nonce = [] then (used, False)
      else
        let kept = keep_from now used
        in if kept nonce \<noteq> None then (kept, False) else (kept(nonce \<mapsto> exp), True))"

text \<open>\<open>DELETE FROM shell_ticket_nonces WHERE expires_at < now()\<close>, by the clock of the database.\<close>

datatype fault = NoFault | NotDone | ReplyLost

definition claimPrune :: "nonce_map \<Rightarrow> instant \<Rightarrow> fault \<Rightarrow> nonce_map \<times> bool" where
  "claimPrune rows dbnow f = (if f = NotDone then rows else keep_from dbnow rows, f = NoFault)"

text \<open>\<open>INSERT \<dots> ON CONFLICT DO NOTHING\<close>: whether the row was new, or no answer.\<close>

definition claimInsert :: "nonce_map \<Rightarrow> string \<Rightarrow> instant \<Rightarrow> fault \<Rightarrow> nonce_map \<times> bool option" where
  "claimInsert rows nonce exp f =
     (if f = NotDone then (rows, None)
      else
        (case rows nonce of
           None \<Rightarrow> (rows(nonce \<mapsto> exp), if f = NoFault then Some True else None)
         | Some e \<Rightarrow> (rows, if f = NoFault then Some False else None)))"

definition claimShellNonce :: "nonce_map \<Rightarrow> string \<Rightarrow> instant \<Rightarrow> instant \<Rightarrow> fault \<Rightarrow> fault \<Rightarrow> nonce_map \<times> bool option" where
  "claimShellNonce rows nonce exp dbnow f g =
     (case claimPrune rows dbnow f of
        (rows1, False) \<Rightarrow> (rows1, None)
      | (rows1, True) \<Rightarrow> claimInsert rows1 nonce exp g)"

text \<open>A claim without an answer takes the mark back; a conflict keeps it.\<close>

definition consumeFinish :: "nonce_map \<Rightarrow> string \<Rightarrow> bool option \<Rightarrow> nonce_map \<times> bool" where
  "consumeFinish used nonce answer =
     (case answer of None \<Rightarrow> (used(nonce := None), False) | Some claimed \<Rightarrow> (used, claimed))"

text \<open>A whole call; \<open>store\<close> is whether a shared table is wired.\<close>

definition consume :: "bool \<Rightarrow> nonce_map \<Rightarrow> nonce_map \<Rightarrow> string \<Rightarrow> instant \<Rightarrow> instant \<Rightarrow> instant \<Rightarrow> fault \<Rightarrow> fault
    \<Rightarrow> nonce_map \<times> nonce_map \<times> bool" where
  "consume store used rows nonce exp now dbnow f g =
     (case consumeMark used nonce exp now of
        (used1, False) \<Rightarrow> (used1, rows, False)
      | (used1, True) \<Rightarrow>
          if \<not> store then (used1, rows, True)
          else
            (case claimShellNonce rows nonce exp dbnow f g of
               (rows1, answer) \<Rightarrow>
                 (case consumeFinish used1 nonce answer of (used2, ok) \<Rightarrow> (used2, rows1, ok))))"

section \<open>Replicas that share the table\<close>

text \<open>Where a call is, with its replica and nonce.\<close>

datatype call = Marked nat string | Pruned nat string | Answered nat string "bool option"

record guards =
  gd_used :: "nat \<Rightarrow> nonce_map"
  gd_rows :: nonce_map
  gd_clock :: instant
  gd_calls :: "nat \<Rightarrow> call option"
  gd_granted :: "string list"

definition no_guards :: guards where
  "no_guards = \<lparr>gd_used = (\<lambda>r. Map.empty), gd_rows = Map.empty, gd_clock = 0, gd_calls = Map.empty, gd_granted = []\<rparr>"

text \<open>
  \<open>expiry\<close> gives the nonce of a ticket its \<open>NonceExpiry\<close>; \<open>gd_clock\<close> is the clock of the database and never
  goes back. With \<open>prompt\<close> every \<open>INSERT\<close> runs by the expiry of its nonce.
\<close>

inductive guard_step :: "(string \<Rightarrow> instant) \<Rightarrow> bool \<Rightarrow> guards \<Rightarrow> guards \<Rightarrow> bool"
  for expiry :: "string \<Rightarrow> instant" and prompt :: bool where
  Refuse: "consumeMark (gd_used s r) n (expiry n) now = (u, False) \<Longrightarrow>
     guard_step expiry prompt s (s\<lparr>gd_used := (gd_used s)(r := u)\<rparr>)"
| Mark: "gd_calls s t = None \<Longrightarrow> consumeMark (gd_used s r) n (expiry n) now = (u, True) \<Longrightarrow>
     guard_step expiry prompt s (s\<lparr>gd_used := (gd_used s)(r := u), gd_calls := (gd_calls s)(t \<mapsto> Marked r n)\<rparr>)"
| Prune: "gd_calls s t = Some (Marked r n) \<Longrightarrow> gd_clock s \<le> clock \<Longrightarrow> claimPrune (gd_rows s) clock f = (rows, ok) \<Longrightarrow>
     guard_step expiry prompt s (s\<lparr>gd_rows := rows, gd_clock := clock,
       gd_calls := (gd_calls s)(t \<mapsto> (if ok then Pruned r n else Answered r n None))\<rparr>)"
| Insert: "gd_calls s t = Some (Pruned r n) \<Longrightarrow> gd_clock s \<le> clock \<Longrightarrow> (prompt \<longrightarrow> clock \<le> expiry n) \<Longrightarrow>
     claimInsert (gd_rows s) n (expiry n) f = (rows, answer) \<Longrightarrow>
     guard_step expiry prompt s (s\<lparr>gd_rows := rows, gd_clock := clock, gd_calls := (gd_calls s)(t \<mapsto> Answered r n answer)\<rparr>)"
| Finish: "gd_calls s t = Some (Answered r n answer) \<Longrightarrow> consumeFinish (gd_used s r) n answer = (u, ok) \<Longrightarrow>
     guard_step expiry prompt s (s\<lparr>gd_used := (gd_used s)(r := u), gd_calls := (gd_calls s)(t := None),
       gd_granted := (if ok then n # gd_granted s else gd_granted s)\<rparr>)"

inductive guard_run :: "(string \<Rightarrow> instant) \<Rightarrow> bool \<Rightarrow> guards \<Rightarrow> bool"
  for expiry :: "string \<Rightarrow> instant" and prompt :: bool where
  Start: "guard_run expiry prompt no_guards"
| Step: "guard_run expiry prompt s \<Longrightarrow> guard_step expiry prompt s s' \<Longrightarrow> guard_run expiry prompt s'"

section \<open>A nonce is granted once\<close>

text \<open>A nonce is spent while its row stands and, for good, once the database is past its expiry.\<close>

definition spent :: "(string \<Rightarrow> instant) \<Rightarrow> guards \<Rightarrow> string \<Rightarrow> bool" where
  "spent expiry s n \<longleftrightarrow> gd_rows s n \<noteq> None \<or> expiry n < gd_clock s"

definition won :: "guards \<Rightarrow> nat \<Rightarrow> string \<Rightarrow> bool" where
  "won s t n \<longleftrightarrow> (\<exists>r. gd_calls s t = Some (Answered r n (Some True)))"

definition guard_inv :: "(string \<Rightarrow> instant) \<Rightarrow> guards \<Rightarrow> bool" where
  "guard_inv expiry s \<longleftrightarrow>
     (\<forall>n e. gd_rows s n = Some e \<longrightarrow> e = expiry n)
     \<and> (\<forall>n \<in> set (gd_granted s). spent expiry s n) \<and> distinct (gd_granted s)
     \<and> (\<forall>t n. won s t n \<longrightarrow> spent expiry s n \<and> n \<notin> set (gd_granted s))
     \<and> (\<forall>t t' n. won s t n \<longrightarrow> won s t' n \<longrightarrow> t = t')"

lemma keep_from_Some: "keep_from now m n = Some e \<longleftrightarrow> m n = Some e \<and> now \<le> e"
  by (auto simp: keep_from_def split: option.splits)

lemma keep_from_None: "keep_from now m n = None \<longleftrightarrow> m n = None \<or> (\<exists>e. m n = Some e \<and> e < now)"
  by (auto simp: keep_from_def split: option.splits)

text \<open>Steps of the database keep what is spent.\<close>

lemma prune_spent:
  assumes "claimPrune (gd_rows s) clock f = (rows, ok)" "gd_clock s \<le> clock" "guard_inv expiry s"
  shows "spent expiry s n \<Longrightarrow> spent expiry (s\<lparr>gd_rows := rows, gd_clock := clock, gd_calls := cs\<rparr>) n"
    and "rows n = Some e \<Longrightarrow> e = expiry n"
proof -
  have inv: "gd_rows s n = Some e \<Longrightarrow> e = expiry n" for n e using assms(3) by (simp add: guard_inv_def)
  have rows: "rows = gd_rows s \<or> rows = keep_from clock (gd_rows s)"
    using assms(1) by (auto simp: claimPrune_def split: if_splits)
  show "rows n = Some e \<Longrightarrow> e = expiry n" using rows inv by (auto simp: keep_from_Some)
  assume "spent expiry s n"
  then consider e where "gd_rows s n = Some e" | "expiry n < gd_clock s" by (auto simp: spent_def)
  then show "spent expiry (s\<lparr>gd_rows := rows, gd_clock := clock, gd_calls := cs\<rparr>) n"
  proof cases
    case 1
    then have "e = expiry n" by (rule inv)
    then show ?thesis using 1 rows by (auto simp: spent_def keep_from_None simp flip: not_None_eq)
  next
    case 2
    then show ?thesis using assms(2) by (simp add: spent_def)
  qed
qed

lemma insert_spent:
  assumes "claimInsert (gd_rows s) m exp f = (rows, answer)" "gd_clock s \<le> clock" "spent expiry s n"
  shows "spent expiry (s\<lparr>gd_rows := rows, gd_clock := clock, gd_calls := cs\<rparr>) n"
  using assms by (auto simp: spent_def claimInsert_def split: if_splits option.splits)

text \<open>A prompt insert that wins finds its nonce unspent.\<close>

lemma insert_wins:
  assumes "claimInsert (gd_rows s) n (expiry n) f = (rows, Some True)" "gd_clock s \<le> clock" "clock \<le> expiry n"
  shows "\<not> spent expiry s n" and "rows n = Some (expiry n)"
  using assms by (auto simp: spent_def claimInsert_def split: if_splits option.splits)

text \<open>A step that grants nothing and makes no call win.\<close>

lemma guard_inv_quiet:
  assumes "guard_inv expiry s" "gd_granted s' = gd_granted s" "\<And>n e. gd_rows s' n = Some e \<Longrightarrow> e = expiry n"
    and "\<And>n. spent expiry s n \<Longrightarrow> spent expiry s' n" "\<And>t n. won s' t n \<Longrightarrow> won s t n"
  shows "guard_inv expiry s'"
  unfolding guard_inv_def
proof (intro conjI allI ballI impI)
  show "distinct (gd_granted s')" using assms(1,2) by (simp add: guard_inv_def)
qed (use assms in \<open>auto simp: guard_inv_def dest!: assms(5)\<close>)

lemma guard_inv_step:
  assumes "guard_step expiry True s s'" "guard_inv expiry s"
  shows "guard_inv expiry s'"
  using assms
proof (induction rule: guard_step.induct)
  case (Refuse s r n now u)
  then show ?case by (simp add: guard_inv_def spent_def won_def)
next
  case (Mark s t r n now u)
  then show ?case by (auto simp: guard_inv_def spent_def won_def split: if_splits)
next
  case (Prune s t r n clock f rows ok)
  note keep = prune_spent [OF Prune(3,2,4)]
  show ?case
    by (rule guard_inv_quiet [OF Prune(4)]) (auto simp: won_def intro: keep split: if_splits)
next
  case (Insert s t r n clock f rows answer)
  let ?s' = "s\<lparr>gd_rows := rows, gd_clock := clock, gd_calls := (gd_calls s)(t \<mapsto> Answered r n answer)\<rparr>"
  have keep: "spent expiry s m \<Longrightarrow> spent expiry ?s' m" for m
    by (rule insert_spent [OF Insert(4,2)])
  have rows: "rows m = Some e \<Longrightarrow> e = expiry m" for m e
    using Insert(4,5) by (auto simp: guard_inv_def claimInsert_def split: if_splits option.splits)
  have won: "won ?s' t' m \<Longrightarrow> (t' = t \<and> m = n \<and> answer = Some True) \<or> (t' \<noteq> t \<and> won s t' m)" for t' m
    by (auto simp: won_def split: if_splits)
  have new: "\<not> spent expiry s n \<and> spent expiry ?s' n" if "answer = Some True"
  proof -
    have i: "claimInsert (gd_rows s) n (expiry n) f = (rows, Some True)" using Insert(4) that by simp
    show ?thesis using insert_wins [where expiry = expiry, OF i Insert(2)] Insert(3) by (simp add: spent_def)
  qed
  have old: "won s t' m \<Longrightarrow> spent expiry s m \<and> m \<notin> set (gd_granted s)" "m \<in> set (gd_granted s) \<Longrightarrow> spent expiry s m"
    "won s t' m \<Longrightarrow> won s t'' m \<Longrightarrow> t' = t''" for t' t'' m
    using Insert(5) unfolding guard_inv_def by blast+
  have "won ?s' t' m \<Longrightarrow> spent expiry ?s' m \<and> m \<notin> set (gd_granted s)" for t' m
    using won [of t' m] new old(1) [of t' m] old(2) [of m] keep by blast
  moreover have "won ?s' t' m \<Longrightarrow> won ?s' t'' m \<Longrightarrow> t' = t''" for t' t'' m
    using won [of t' m] won [of t'' m] new old(1) [of t' m] old(1) [of t'' m] old(3) [of t' m t''] by blast
  ultimately show ?case
    using rows keep old(2) Insert(5) unfolding guard_inv_def by auto
next
  case (Finish s t r n answer u ok)
  let ?s' = "s\<lparr>gd_used := (gd_used s)(r := u), gd_calls := (gd_calls s)(t := None),
    gd_granted := (if ok then n # gd_granted s else gd_granted s)\<rparr>"
  have won: "won ?s' t' m \<Longrightarrow> t' \<noteq> t \<and> won s t' m" for t' m by (auto simp: won_def split: if_splits)
  have ok: "ok \<Longrightarrow> won s t n" using Finish(1,2) by (auto simp: consumeFinish_def won_def split: option.splits)
  have spent: "spent expiry ?s' m \<longleftrightarrow> spent expiry s m" for m by (simp add: spent_def)
  have old: "won s t' m \<Longrightarrow> spent expiry s m \<and> m \<notin> set (gd_granted s)" "won s t' m \<Longrightarrow> won s t'' m \<Longrightarrow> t' = t''" for t' t'' m
    using Finish(3) unfolding guard_inv_def by blast+
  have "won ?s' t' m \<Longrightarrow> spent expiry ?s' m \<and> m \<notin> set (gd_granted ?s')" for t' m
    using won [of t' m] old(1) [of t' m] old(2) [of t' m t] ok spent by auto
  moreover have "distinct (gd_granted ?s')" "\<forall>m \<in> set (gd_granted ?s'). spent expiry ?s' m"
    using ok old(1) [of t n] Finish(3) spent by (auto simp: guard_inv_def)
  moreover have "won ?s' t' m \<Longrightarrow> won ?s' t'' m \<Longrightarrow> t' = t''" for t' t'' m
    using won [of t' m] won [of t'' m] old(2) [of t' m t''] by blast
  ultimately show ?case using Finish(3) unfolding guard_inv_def by auto
qed

lemma guard_run_inv: "guard_run expiry True s \<Longrightarrow> guard_inv expiry s"
  by (induction rule: guard_run.induct) (simp add: guard_inv_def no_guards_def won_def, rule guard_inv_step)

section \<open>Properties\<close>

text \<open>C11: a ticket is redeemed once, on whichever replica. However the calls of any number of replicas
  interleave, whichever statements fail or lose their reply, no nonce is granted twice, as long as
  every insert reaches the table by the expiry of its nonce.\<close>

theorem nonce_granted_once:
  assumes "guard_run expiry True s"
  shows "distinct (gd_granted s)"
  using guard_run_inv [OF assms] by (simp add: guard_inv_def)

text \<open>A call that meets no other, from the mark to the return.\<close>

lemma guard_call:
  assumes "guard_run expiry prompt s" "gd_calls s t = None" "n \<noteq> []" "keep_from now (gd_used s r) n = None"
    and "gd_clock s \<le> c" "prompt \<longrightarrow> c \<le> expiry n" "keep_from c (gd_rows s) n = None"
  shows "guard_run expiry prompt (s\<lparr>gd_used := (gd_used s)(r := (keep_from now (gd_used s r))(n \<mapsto> expiry n)),
    gd_rows := (keep_from c (gd_rows s))(n \<mapsto> expiry n), gd_clock := c, gd_granted := n # gd_granted s\<rparr>)"
proof -
  let ?u = "(keep_from now (gd_used s r))(n \<mapsto> expiry n)" and ?k = "keep_from c (gd_rows s)"
  let ?s1 = "s\<lparr>gd_used := (gd_used s)(r := ?u), gd_calls := (gd_calls s)(t \<mapsto> Marked r n)\<rparr>"
  let ?s2 = "?s1\<lparr>gd_rows := ?k, gd_clock := c, gd_calls := (gd_calls s)(t \<mapsto> Pruned r n)\<rparr>"
  let ?s3 = "?s2\<lparr>gd_rows := ?k(n \<mapsto> expiry n), gd_clock := c, gd_calls := (gd_calls s)(t \<mapsto> Answered r n (Some True))\<rparr>"
  have "guard_step expiry prompt s ?s1"
    using assms(2-4) by (intro guard_step.Mark [where now = now]) (simp_all add: consumeMark_def)
  moreover have "guard_step expiry prompt ?s1 ?s2"
    using assms(5) guard_step.Prune [of ?s1 t r n c NoFault ?k True expiry prompt] by (simp add: claimPrune_def)
  moreover have "guard_step expiry prompt ?s2 ?s3"
    using assms(6,7) guard_step.Insert [of ?s2 t r n c prompt expiry NoFault "?k(n \<mapsto> expiry n)" "Some True"]
    by (simp add: claimInsert_def)
  moreover have "guard_step expiry prompt ?s3 (?s3\<lparr>gd_used := (gd_used ?s3)(r := ?u),
      gd_calls := (gd_calls ?s3)(t := None), gd_granted := n # gd_granted ?s3\<rparr>)" (is "guard_step expiry prompt ?s3 ?s4")
    using guard_step.Finish [of ?s3 t r n "Some True" ?u True expiry prompt] by (simp add: consumeFinish_def)
  ultimately have "guard_run expiry prompt ?s4"
    using assms(1) by (meson guard_run.Step)
  moreover have "?s4 = s\<lparr>gd_used := (gd_used s)(r := ?u), gd_rows := ?k(n \<mapsto> expiry n), gd_clock := c,
      gd_granted := n # gd_granted s\<rparr>"
    using assms(2) by (cases s) (simp add: fun_upd_idem)
  ultimately show ?thesis by simp
qed

theorem nonce_granted_once_witness:
  "\<exists>s. guard_run (\<lambda>n. 30) True s \<and> gd_granted s = [''n''] \<and> distinct (gd_granted s)"
proof -
  have "\<exists>s. guard_run (\<lambda>n. 30) True s \<and> gd_granted s = [''n'']"
    using guard_call [OF guard_run.Start, of 0 "''n''" 5 0 10 True "\<lambda>n. 30"]
    by (force simp: no_guards_def keep_from_def)
  then show ?thesis using nonce_granted_once [of "\<lambda>n. 30"] by metis
qed

text \<open>
  The condition on the insert matters. The verifier accepts a ticket up to the very instant at which
  the database may prune its row, so a claim that reaches the table later than that (in the two
  seconds it may take, or because the database's clock runs ahead of the gateway's) finds the row of
  an earlier redemption gone, and the ticket is redeemed again on another replica.
\<close>

theorem nonce_granted_twice_when_late:
  "\<exists>s. guard_run (\<lambda>n. 30) False s \<and> gd_granted s = [''n'', ''n'']"
proof -
  let ?s1 = "no_guards\<lparr>gd_used := (gd_used no_guards)(0 := (keep_from 30 (gd_used no_guards 0))(''n'' \<mapsto> 30)),
    gd_rows := (keep_from 30 (gd_rows no_guards))(''n'' \<mapsto> 30), gd_clock := 30, gd_granted := ''n'' # gd_granted no_guards\<rparr>"
  have "guard_run (\<lambda>n. 30) False ?s1"
    by (rule guard_call [where t = 0 and expiry = "\<lambda>n. 30", OF guard_run.Start]) (simp_all add: no_guards_def keep_from_def)
  then have "guard_run (\<lambda>n. 30) False (?s1\<lparr>gd_used := (gd_used ?s1)(1 := (keep_from 30 (gd_used ?s1 1))(''n'' \<mapsto> 30)),
    gd_rows := (keep_from 31 (gd_rows ?s1))(''n'' \<mapsto> 30), gd_clock := 31, gd_granted := ''n'' # gd_granted ?s1\<rparr>)"
    by (rule guard_call [where t = 0 and expiry = "\<lambda>n. 30"]) (simp_all add: no_guards_def keep_from_def)
  then show ?thesis by (auto simp: no_guards_def)
qed

text \<open>C28: a failed claim is refused and burns nothing. A call for a nonce the replica does not hold as used, whose claim
  on the shared table fails (a statement is not done, or its answer is lost), is refused, and the
  replica is left as if it had only pruned its map; so when the table still has no row of the nonce, the same ticket
  presented again before it expires, to a table that answers, is granted.\<close>

theorem failed_claim_can_be_retried:
  assumes "consume True used rows n exp now dbnow f g = (used', rows', granted)" "n \<noteq> []"
    and "keep_from now used n = None" "f \<noteq> NoFault \<or> g \<noteq> NoFault"
  shows "\<not> granted \<and> used' = keep_from now used \<and>
    (\<forall>now' dbnow'. now' \<le> exp \<and> keep_from dbnow' rows' n = None \<longrightarrow>
       snd (snd (consume True used' rows' n exp now' dbnow' NoFault NoFault)))"
proof -
  have u: "\<not> granted \<and> used' = keep_from now used"
    using assms
    by (auto simp: consume_def consumeMark_def claimShellNonce_def claimPrune_def claimInsert_def consumeFinish_def
        fun_upd_idem split: if_splits option.splits bool.splits prod.splits)
  have "snd (snd (consume True used' rows' n exp now' dbnow' NoFault NoFault))" if "keep_from dbnow' rows' n = None" for now' dbnow'
  proof -
    have "keep_from now' used' n = None" using assms(3) u by (auto simp: keep_from_None)
    then show ?thesis using assms(2) that
      by (simp add: consume_def consumeMark_def claimShellNonce_def claimPrune_def claimInsert_def consumeFinish_def)
  qed
  with u show ?thesis by blast
qed

theorem failed_claim_can_be_retried_witness:
  "\<not> snd (snd (consume True Map.empty Map.empty ''n'' 30 5 6 NoFault NotDone)) \<and>
   snd (snd (consume True (keep_from 5 Map.empty) (keep_from 6 Map.empty) ''n'' 30 7 8 NoFault NoFault))"
proof -
  have run: "consume True Map.empty Map.empty ''n'' 30 5 6 NoFault NotDone =
      (keep_from 5 Map.empty, keep_from 6 Map.empty, snd (snd (consume True Map.empty Map.empty ''n'' 30 5 6 NoFault NotDone)))"
    by (simp add: consume_def consumeMark_def claimShellNonce_def claimPrune_def claimInsert_def consumeFinish_def
        keep_from_def fun_upd_idem)
  from failed_claim_can_be_retried [OF run] show ?thesis by (simp add: keep_from_def)
qed

end
