(* ===== verification/Redeem.thy ===== *)
theory Redeem
  imports NonceGuard Limiters
begin

text \<open>
  Redeeming a ticket: what each transport of the gateway does up to its stream. \<open>serveWebSocket\<close> and
  \<open>runWebSocketSession\<close> (\<open>sshgateway/webshell\<close>), \<open>serveSandboxExec\<close> (\<open>sandboxsse\<close>), \<open>serve\<close> (\<open>sandboxfiles\<close>),
  \<open>serveAgentAttach\<close> (\<open>agentattach\<close>), and the verifiers of connect tokens of \<open>backend/internal/sandbox\<close>.

  A transport reads and writes the nonce guard and the session limiter it shares with the others.
  What it asks of the outside is the record \<open>visit\<close>: the instants, the faults of the claim, whether the
  fresh authorization holds, whether the audit row could be written. A result that serves holds the
  session slot; every other result has run the deferred releases. Metrics, logs and CORS are left out.
\<close>

section \<open>The shared state\<close>

record desk =
  dk_used :: nonce_map
  dk_rows :: nonce_map
  dk_store :: bool
  dk_limits :: session_limiter

record visit =
  vt_verifyAt :: instant
  vt_consumeAt :: instant
  vt_dbnow :: instant
  vt_prune :: fault
  vt_insert :: fault
  vt_flusher :: bool
  vt_upgrades :: bool
  vt_resolves :: bool
  vt_authorized :: bool
  vt_audited :: bool

datatype 'c served = Refused nat | Closed | Serving 'c

fun is_served :: "'c served \<Rightarrow> bool" where
  "is_served (Serving c) \<longleftrightarrow> True"
| "is_served (Refused status) \<longleftrightarrow> False"
| "is_served Closed \<longleftrightarrow> False"

definition takeNonce :: "visit \<Rightarrow> string \<Rightarrow> 64 word \<Rightarrow> desk \<Rightarrow> desk \<times> bool" where
  "takeNonce v nonce expiresAt d =
     (case consume (dk_store d) (dk_used d) (dk_rows d) nonce (nonceExpiry expiresAt) (vt_consumeAt v) (vt_dbnow v)
             (vt_prune v) (vt_insert v) of
        (used, rows, ok) \<Rightarrow> (d\<lparr>dk_used := used, dk_rows := rows\<rparr>, ok))"

text \<open>A session slot around the rest of the handler, given back unless it serves.\<close>

definition withSlot :: "string \<Rightarrow> 'c served \<Rightarrow> 'c served \<Rightarrow> desk \<Rightarrow> desk \<times> 'c served" where
  "withSlot key full rest d =
     (case acquireSession (dk_limits d) key of
        (l, False, scope) \<Rightarrow> (d, full)
      | (l, True, scope) \<Rightarrow>
          (d\<lparr>dk_limits := (if is_served rest then l else releaseSession l key)\<rparr>, rest))"

section \<open>The transports\<close>

text \<open>\<open>wsTicket\<close>: the first offered subprotocol that carries a ticket.\<close>

fun wsTicket :: "string list \<Rightarrow> string" where
  "wsTicket [] = []"
| "wsTicket (proto # protos) =
     (case cut_prefix ''bex.ticket.'' proto of Some t \<Rightarrow> t | None \<Rightarrow> wsTicket protos)"

definition runWebSocketSession :: "visit \<Rightarrow> shell_claims \<Rightarrow> desk \<Rightarrow> desk \<times> shell_claims served" where
  "runWebSocketSession v c d =
     (if \<not> vt_resolves v then (d, Closed)
      else withSlot (sc_subject c) Closed (if vt_audited v then Serving c else Closed) d)"

definition serveShell :: "(string \<Rightarrow> string \<Rightarrow> string) \<Rightarrow> shell_claims flavour \<Rightarrow> string \<Rightarrow> visit \<Rightarrow> string list \<Rightarrow> desk
    \<Rightarrow> desk \<times> shell_claims served" where
  "serveShell hmac fl secret v protos d =
     (let token = wsTicket protos
      in if secret = [] then (d, Refused 503)
         else if token = [] then (d, Refused 401)
         else
           (case verifyShell hmac fl secret token (vt_verifyAt v) of
              Inl e \<Rightarrow> (d, Refused 401)
            | Inr c \<Rightarrow>
                (case takeNonce v (sc_nonce c) (sc_expiresAt c) d of
                   (d1, False) \<Rightarrow> (d1, Refused 401)
                 | (d1, True) \<Rightarrow> if \<not> vt_upgrades v then (d1, Closed) else runWebSocketSession v c d1)))"

definition serveExec :: "(string \<Rightarrow> string \<Rightarrow> string) \<Rightarrow> exec_claims flavour \<Rightarrow> string \<Rightarrow> visit \<Rightarrow> string \<Rightarrow> desk
    \<Rightarrow> desk \<times> exec_claims served" where
  "serveExec hmac fl secret v token d =
     (if secret = [] then (d, Refused 503)
      else if \<not> vt_flusher v then (d, Refused 500)
      else
        (case verifyExec hmac fl secret token (vt_verifyAt v) of
           Inl e \<Rightarrow> (d, Refused 401)
         | Inr c \<Rightarrow>
             (case takeNonce v (xc_nonce c) (xc_expiresAt c) d of
                (d1, False) \<Rightarrow> (d1, Refused 401)
              | (d1, True) \<Rightarrow>
                  withSlot (xc_subject c) (Refused 429) (if vt_authorized v then Serving c else Refused 403) d1)))"

definition SystemSubject :: string where "SystemSubject = ''system:agent-session-completer''"

definition serveFiles :: "(string \<Rightarrow> string \<Rightarrow> string) \<Rightarrow> file_claims flavour \<Rightarrow> string \<Rightarrow> visit \<Rightarrow> string \<Rightarrow> string \<Rightarrow> desk
    \<Rightarrow> desk \<times> file_claims served" where
  "serveFiles hmac fl secret v meth token d =
     (if secret = [] \<or> \<not> dk_store d then (d, Refused 503)
      else
        (case verifyFile hmac fl secret token (vt_verifyAt v) of
           Inl e \<Rightarrow> (d, Refused 401)
         | Inr c \<Rightarrow>
             if (fc_operation c = ''upload'' \<and> meth \<noteq> ''PUT'') \<or> (fc_operation c = ''download'' \<and> meth \<noteq> ''GET'')
             then (d, Refused 403)
             else if \<not> platformUploadAllowed SystemSubject c then (d, Refused 403)
             else
               (case takeNonce v (fc_nonce c) (fc_expiresAt c) d of
                  (d1, False) \<Rightarrow> (d1, Refused 409)
                | (d1, True) \<Rightarrow>
                    withSlot (limitKey SystemSubject c) (Refused 429)
                      (if vt_authorized v then Serving c else Refused 403) d1)))"

text \<open>\<open>pathID\<close> is the session named by the path, empty when the route has none.\<close>

definition serveAttach :: "(string \<Rightarrow> string \<Rightarrow> string) \<Rightarrow> session_claims flavour \<Rightarrow> string \<Rightarrow> visit \<Rightarrow> string \<Rightarrow> string \<Rightarrow> string
    \<Rightarrow> desk \<Rightarrow> desk \<times> session_claims served" where
  "serveAttach hmac fl secret v meth pathID token d =
     (if secret = [] then (d, Refused 503)
      else if meth = ''OPTIONS'' then (d, Refused 204)
      else if meth \<noteq> ''GET'' \<and> meth \<noteq> ''POST'' then (d, Refused 405)
      else if \<not> vt_flusher v then (d, Refused 500)
      else
        (case verifySession hmac fl secret token (vt_verifyAt v) of
           Inl e \<Rightarrow> (d, Refused 401)
         | Inr c \<Rightarrow>
             if meth = ''GET'' \<and> ac_action c \<noteq> ''read'' then (d, Refused 403)
             else if meth = ''POST'' \<and> ac_action c \<noteq> ''turn'' then (d, Refused 403)
             else if pathID \<noteq> [] \<and> pathID \<noteq> ac_sessionID c then (d, Refused 403)
             else
               (case takeNonce v (ac_nonce c) (ac_expiresAt c) d of
                  (d1, False) \<Rightarrow> (d1, Refused 401)
                | (d1, True) \<Rightarrow>
                    if \<not> vt_authorized v then (d1, Refused 403)
                    else withSlot (ac_subject c) (Refused 429)
                      (if vt_audited v then Serving c else Refused 500) d1)))"

section \<open>Connect tokens\<close>

record connect_claims =
  cc_subject :: string
  cc_workspace :: string
  cc_sandboxID :: string
  cc_executionID :: string
  cc_operation :: string
  cc_command :: string
  cc_issuedAt :: "64 word"
  cc_expiresAt :: "64 word"
  cc_nonce :: string

definition connectKeyLabel :: string where "connectKeyLabel = ''bex sandbox run connect token v1''"

definition verifyConnectToken :: "(string \<Rightarrow> string \<Rightarrow> string) \<Rightarrow> connect_claims flavour \<Rightarrow> string \<Rightarrow> visit
    \<Rightarrow> string \<Rightarrow> string \<Rightarrow> string \<Rightarrow> string \<Rightarrow> desk \<Rightarrow> desk \<times> connect_claims served" where
  "verifyConnectToken hmac fl secret v token sandboxID executionID command d =
     (if token = [] then (d, Refused 401)
      else
        (case openInto hmac fl (derivedKey hmac connectKeyLabel secret) token of
           Inl e \<Rightarrow> (d, Refused 401)
         | Inr c \<Rightarrow>
             (case checkBounds (vt_consumeAt v) (cc_issuedAt c) (cc_expiresAt c) of
                Some e \<Rightarrow> (d, Refused (if e = TicketExpired then 410 else 401))
              | None \<Rightarrow>
                  if cc_subject c = [] \<or> cc_workspace c = [] \<or> cc_sandboxID c = [] \<or> cc_executionID c = [] \<or> cc_nonce c = []
                  then (d, Refused 401)
                  else if cc_operation c \<noteq> ''stream'' \<or> cc_sandboxID c \<noteq> sandboxID \<or> cc_executionID c \<noteq> executionID
                  then (d, Refused 403)
                  else if cc_command c \<noteq> command then (d, Refused 403)
                  else
                    (case takeNonce v (cc_nonce c) (cc_expiresAt c) d of
                       (d1, False) \<Rightarrow> (d1, Refused 409)
                     | (d1, True) \<Rightarrow> (d1, Serving c)))))"

record file_connect_claims = connect_claims +
  lc_path :: string

definition fileConnectKeyLabel :: string where "fileConnectKeyLabel = ''bex sandbox file connect token v1''"

definition connectTokenMaxTTL :: int where "connectTokenMaxTTL = 60"

definition fileOperationMethod :: "string \<Rightarrow> string" where
  "fileOperationMethod operation =
     (if operation = ''upload'' then ''PUT'' else if operation = ''download'' then ''GET'' else [])"

text \<open>\<open>paths\<close> are the values of the query's \<open>path\<close>; the lifetime is a difference of 64-bit words.\<close>

definition verifyFileConnectToken :: "(string \<Rightarrow> string \<Rightarrow> string) \<Rightarrow> file_connect_claims flavour \<Rightarrow> string \<Rightarrow> visit
    \<Rightarrow> string \<Rightarrow> string \<Rightarrow> string \<Rightarrow> string \<Rightarrow> string list \<Rightarrow> desk \<Rightarrow> desk \<times> file_connect_claims served" where
  "verifyFileConnectToken hmac fl secret v token sandboxID executionID meth paths d =
     (case openInto hmac fl (derivedKey hmac fileConnectKeyLabel secret) token of
        Inl e \<Rightarrow> (d, Refused 401)
      | Inr c \<Rightarrow>
          (case checkBounds (vt_consumeAt v) (cc_issuedAt c) (cc_expiresAt c) of
             Some e \<Rightarrow> (d, Refused (if e = TicketExpired then 410 else 401))
           | None \<Rightarrow>
               if cc_subject c = [] \<or> cc_workspace c = [] \<or> cc_sandboxID c = [] \<or> cc_executionID c = [] \<or> cc_nonce c = []
                 \<or> \<not> validatePath (lc_path c) \<or> fileOperationMethod (cc_operation c) = []
                 \<or> connectTokenMaxTTL < sint (cc_expiresAt c - cc_issuedAt c)
               then (d, Refused 401)
               else if cc_sandboxID c \<noteq> sandboxID \<or> cc_executionID c \<noteq> executionID
                 \<or> fileOperationMethod (cc_operation c) \<noteq> meth \<or> length paths \<noteq> 1 \<or> lc_path c \<noteq> paths ! 0
               then (d, Refused 403)
               else
                 (case takeNonce v (cc_nonce c) (cc_expiresAt c) d of
                    (d1, False) \<Rightarrow> (d1, Refused 409)
                  | (d1, True) \<Rightarrow> (d1, Serving c))))"

section \<open>Facts about the shared state\<close>

lemma takeNonce_keeps: "takeNonce v n e d = (d', ok) \<Longrightarrow> dk_limits d' = dk_limits d \<and> dk_store d' = dk_store d"
  by (auto simp: takeNonce_def split: prod.splits)

lemma dec_del0_bump: "tidy m \<Longrightarrow> dec_del0 (bump m k) k = m"
proof -
  assume t: "tidy m"
  show ?thesis
  proof (cases "m k")
    case None
    then show ?thesis by (auto simp: dec_del0_def bump_def count_of_def)
  next
    case (Some n)
    with t have "0 < n" by (auto simp: tidy_def)
    with Some show ?thesis by (auto simp: dec_del0_def bump_def count_of_def)
  qed
qed

lemma session_slot_back:
  "acquireSession l key = (l', True, scope) \<Longrightarrow> tidy (ss_per l) \<Longrightarrow> releaseSession l' key = l"
  by (cases l) (auto simp: acquireSession_def releaseSession_def dec_del0_bump split: if_splits)

lemma acquireSession_refuses: "acquireSession l key = (l', False, scope) \<Longrightarrow> l' = l"
  by (auto simp: acquireSession_def split: if_splits)

lemma withSlot_result:
  assumes "withSlot key full rest d = (d', out)" "tidy (ss_per (dk_limits d))"
  shows "\<not> is_served out \<Longrightarrow> d' = d \<or> is_served full"
    and "is_served out \<Longrightarrow> \<not> is_served full \<Longrightarrow>
      out = rest \<and> (\<exists>l scope. acquireSession (dk_limits d) key = (l, True, scope) \<and> d' = d\<lparr>dk_limits := l\<rparr>)"
  using assms by (auto simp: withSlot_def session_slot_back split: prod.splits bool.splits if_splits)

text \<open>What a transport shares: a nonce taken, then perhaps a slot around the rest.\<close>

lemma slot_after_nonce:
  assumes "takeNonce v n e d = (d1, True)" "withSlot key full rest d1 = (d', out)" "tidy (ss_per (dk_limits d))"
    and "\<not> is_served full"
  shows "\<not> is_served out \<Longrightarrow> dk_limits d' = dk_limits d"
    and "is_served out \<Longrightarrow> out = rest
      \<and> (\<exists>l scope. acquireSession (dk_limits d) key = (l, True, scope) \<and> dk_limits d' = l)"
  using withSlot_result [OF assms(2)] takeNonce_keeps [OF assms(1)] assms(3,4) by auto

text \<open>The stages of each transport: refused as it came, refused past the guard, or in the slot.\<close>

lemma serveShell_stages:
  assumes "serveShell hmac fl secret v protos d = (d', out)"
  shows "verifyShell hmac fl secret (wsTicket protos) (vt_verifyAt v) = Inl e \<Longrightarrow> d' = d \<and> \<not> is_served out"
    and "verifyShell hmac fl secret (wsTicket protos) (vt_verifyAt v) = Inr c \<Longrightarrow>
      takeNonce v (sc_nonce c) (sc_expiresAt c) d = (d1, ok) \<Longrightarrow>
      (d' = d \<or> d' = d1) \<and> \<not> is_served out \<or> (ok
      \<and> withSlot (sc_subject c) Closed (if vt_audited v then Serving c else Closed) d1 = (d', out))"
  using assms by (auto simp: serveShell_def runWebSocketSession_def Let_def split: if_split_asm bool.splits)

lemma serveExec_stages:
  assumes "serveExec hmac fl secret v token d = (d', out)"
  shows "verifyExec hmac fl secret token (vt_verifyAt v) = Inl e \<Longrightarrow> d' = d \<and> \<not> is_served out"
    and "verifyExec hmac fl secret token (vt_verifyAt v) = Inr c \<Longrightarrow>
      takeNonce v (xc_nonce c) (xc_expiresAt c) d = (d1, ok) \<Longrightarrow>
      (d' = d \<or> d' = d1) \<and> \<not> is_served out \<or> (ok
      \<and> withSlot (xc_subject c) (Refused 429) (if vt_authorized v then Serving c else Refused 403) d1 = (d', out))"
  using assms by (auto simp: serveExec_def split: if_split_asm bool.splits)

lemma serveFiles_stages:
  assumes "serveFiles hmac fl secret v meth token d = (d', out)"
  shows "verifyFile hmac fl secret token (vt_verifyAt v) = Inl e \<Longrightarrow> d' = d \<and> \<not> is_served out"
    and "verifyFile hmac fl secret token (vt_verifyAt v) = Inr c \<Longrightarrow>
      takeNonce v (fc_nonce c) (fc_expiresAt c) d = (d1, ok) \<Longrightarrow>
      (d' = d \<or> d' = d1) \<and> \<not> is_served out \<or> (ok \<and> dk_store d
      \<and> platformUploadAllowed SystemSubject c \<and> (fc_operation c = ''upload'' \<longrightarrow> meth = ''PUT'')
      \<and> (fc_operation c = ''download'' \<longrightarrow> meth = ''GET'')
      \<and> withSlot (limitKey SystemSubject c) (Refused 429) (if vt_authorized v then Serving c else Refused 403) d1 = (d', out))"
  using assms by (auto simp: serveFiles_def split: if_split_asm bool.splits)

lemma serveAttach_stages:
  assumes "serveAttach hmac fl secret v meth pathID token d = (d', out)"
  shows "verifySession hmac fl secret token (vt_verifyAt v) = Inl e \<Longrightarrow> d' = d \<and> \<not> is_served out"
    and "verifySession hmac fl secret token (vt_verifyAt v) = Inr c \<Longrightarrow>
      takeNonce v (ac_nonce c) (ac_expiresAt c) d = (d1, ok) \<Longrightarrow>
      (d' = d \<or> d' = d1) \<and> \<not> is_served out \<or> (ok
      \<and> ((meth = ''GET'' \<and> ac_action c = ''read'') \<or> (meth = ''POST'' \<and> ac_action c = ''turn''))
      \<and> (pathID = [] \<or> pathID = ac_sessionID c) \<and> vt_authorized v
      \<and> withSlot (ac_subject c) (Refused 429) (if vt_audited v then Serving c else Refused 500) d1 = (d', out))"
proof -
  show "d' = d \<and> \<not> is_served out" if "verifySession hmac fl secret token (vt_verifyAt v) = Inl e"
    using assms that unfolding serveAttach_def by (auto split: if_split_asm)
  assume v: "verifySession hmac fl secret token (vt_verifyAt v) = Inr c"
    and t: "takeNonce v (ac_nonce c) (ac_expiresAt c) d = (d1, ok)"
  show "(d' = d \<or> d' = d1) \<and> \<not> is_served out \<or> (ok
      \<and> ((meth = ''GET'' \<and> ac_action c = ''read'') \<or> (meth = ''POST'' \<and> ac_action c = ''turn''))
      \<and> (pathID = [] \<or> pathID = ac_sessionID c) \<and> vt_authorized v
      \<and> withSlot (ac_subject c) (Refused 429) (if vt_audited v then Serving c else Refused 500) d1 = (d', out))"
  proof (cases "\<not> ((meth = ''GET'' \<and> ac_action c = ''read'') \<or> (meth = ''POST'' \<and> ac_action c = ''turn''))
      \<or> \<not> (pathID = [] \<or> pathID = ac_sessionID c)")
    case True
    then have "d' = d \<and> \<not> is_served out"
      using assms v unfolding serveAttach_def by (elim disjE) (auto split: if_split_asm)
    then show ?thesis by simp
  next
    case False
    then have f: "\<not> (meth = ''GET'' \<and> ac_action c \<noteq> ''read'')" "\<not> (meth = ''POST'' \<and> ac_action c \<noteq> ''turn'')"
      "\<not> (pathID \<noteq> [] \<and> pathID \<noteq> ac_sessionID c)" "\<not> (meth \<noteq> ''GET'' \<and> meth \<noteq> ''POST'')" "meth \<noteq> ''OPTIONS''" by auto
    have "serveAttach hmac fl secret v meth pathID token d =
        (if secret = [] then (d, Refused 503)
         else if \<not> vt_flusher v then (d, Refused 500)
         else if \<not> ok then (d1, Refused 401)
         else if \<not> vt_authorized v then (d1, Refused 403)
         else withSlot (ac_subject c) (Refused 429) (if vt_audited v then Serving c else Refused 500) d1)"
      unfolding serveAttach_def by (cases ok) (simp_all only: f v t if_False sum.case prod.case bool.case simp_thms if_True)
    then show ?thesis using assms False by (auto split: if_split_asm)
  qed
qed

lemma stages_keep_limits:
  assumes "takeNonce v n e d = (d1, ok)" "tidy (ss_per (dk_limits d))" "\<not> is_served out" "\<not> is_served full"
    and "(d' = d \<or> d' = d1) \<and> \<not> is_served out \<or> (ok \<and> withSlot key full rest d1 = (d', out))"
  shows "dk_limits d' = dk_limits d"
  using assms takeNonce_keeps [OF assms(1)] slot_after_nonce(1) [of v n e d d1 key full rest d' out] by auto

section \<open>Properties\<close>

text \<open>C12: admission to an agent session. The attach transport serves a request only when the ticket
  verifies, its action is the one the method needs and its session the one the path names, its nonce
  was granted to this very request, the fresh authorization holds, the audit row is written, and a
  session slot of the subject is held.\<close>

theorem attach_admission_safe:
  assumes "serveAttach hmac fl secret v meth pathID token d = (d', Serving c)" "tidy (ss_per (dk_limits d))"
  shows "verifySession hmac fl secret token (vt_verifyAt v) = Inr c
     \<and> ((meth = ''GET'' \<and> ac_action c = ''read'') \<or> (meth = ''POST'' \<and> ac_action c = ''turn''))
     \<and> (pathID = [] \<or> pathID = ac_sessionID c) \<and> snd (takeNonce v (ac_nonce c) (ac_expiresAt c) d)
     \<and> vt_authorized v \<and> vt_audited v
     \<and> (\<exists>l scope. acquireSession (dk_limits d) (ac_subject c) = (l, True, scope) \<and> dk_limits d' = l)"
proof (cases "verifySession hmac fl secret token (vt_verifyAt v)")
  case (Inr c0)
  obtain d1 ok where t: "takeNonce v (ac_nonce c0) (ac_expiresAt c0) d = (d1, ok)" by fastforce
  from serveAttach_stages(2) [OF assms(1) Inr t]
  have h: "ok" "(meth = ''GET'' \<and> ac_action c0 = ''read'') \<or> (meth = ''POST'' \<and> ac_action c0 = ''turn'')"
    "pathID = [] \<or> pathID = ac_sessionID c0" "vt_authorized v"
    "withSlot (ac_subject c0) (Refused 429) (if vt_audited v then Serving c0 else Refused 500) d1 = (d', Serving c)" by simp_all
  from t h(1) have t': "takeNonce v (ac_nonce c0) (ac_expiresAt c0) d = (d1, True)" by simp
  have "Serving c = (if vt_audited v then Serving c0 else Refused 500)"
    "\<exists>l scope. acquireSession (dk_limits d) (ac_subject c0) = (l, True, scope) \<and> dk_limits d' = l"
    using slot_after_nonce(2) [OF t' h(5) assms(2)] by simp_all
  then show ?thesis using Inr t' h by (auto split: if_splits)
qed (use serveAttach_stages(1) [OF assms(1)] in simp)

text \<open>A gateway with a shared table and one session to give, and a visit that meets no fault.\<close>

definition ex_desk :: desk where
  "ex_desk = \<lparr>dk_used = Map.empty, dk_rows = Map.empty, dk_store = True, dk_limits = newSessionLimiter 1 1\<rparr>"

definition ex_visit :: visit where
  "ex_visit = \<lparr>vt_verifyAt = 120 * second, vt_consumeAt = 120 * second, vt_dbnow = 120 * second, vt_prune = NoFault,
     vt_insert = NoFault, vt_flusher = True, vt_upgrades = True, vt_resolves = True, vt_authorized = True, vt_audited = True\<rparr>"

definition ex_token :: string where
  "ex_token = b64_encode ''#n'' @ CHR ''.'' # b64_encode ''mac''"

lemma ex_verify: "verifySession (\<lambda>k m. ''mac'') ex_flavour ''key'' ex_token (120 * second) = Inr ex_claims"
proof -
  have "cut_at (CHR ''.'') ex_token = (b64_encode ''#n'', b64_encode ''mac'', True)"
    unfolding ex_token_def using b64_no_dot by (intro cut_at_append) simp
  then show ?thesis
    by (simp add: verifySession_def openInto_def openToken_def mac_def ex_flavour_def ex_claims_def defaultAction_def
        podTriple_def podClaims_def withinBounds_def checkBounds_def unix_def unixToInternal_def ClockSkew_def second_def)
qed

lemma ex_take: "snd (takeNonce ex_visit ''n'' e ex_desk)"
  by (simp add: takeNonce_def consume_def consumeMark_def claimShellNonce_def claimPrune_def claimInsert_def
      consumeFinish_def keep_from_def ex_visit_def ex_desk_def)

lemma ex_acquire: "acquireSession (newSessionLimiter 1 1) key = ((newSessionLimiter 1 1)\<lparr>ss_global := 1, ss_per := bump Map.empty key\<rparr>, True, [])"
  by (simp add: acquireSession_def newSessionLimiter_def count_of_def)

lemma ex_attach:
  "\<exists>d'. serveAttach (\<lambda>k m. ''mac'') ex_flavour ''key'' ex_visit ''POST'' ''s'' ex_token ex_desk = (d', Serving ex_claims)"
proof -
  obtain d1 where t: "takeNonce ex_visit ''n'' 160 ex_desk = (d1, True)"
    using ex_take [of 160] by (cases "takeNonce ex_visit ''n'' 160 ex_desk") simp
  then have "dk_limits d1 = newSessionLimiter 1 1" using takeNonce_keeps [OF t] by (simp add: ex_desk_def)
  then have "\<exists>d'. withSlot ''u'' (Refused 429) (Serving ex_claims) d1 = (d', Serving ex_claims)"
    by (simp add: withSlot_def ex_acquire)
  then show ?thesis
    using t by (simp add: serveAttach_def ex_visit_def [THEN arg_cong, of vt_verifyAt] ex_verify ex_claims_def
        ex_visit_def [THEN arg_cong, of vt_flusher] ex_visit_def [THEN arg_cong, of vt_authorized]
        ex_visit_def [THEN arg_cong, of vt_audited])
qed

theorem attach_admission_safe_witness:
  "snd (takeNonce ex_visit (ac_nonce ex_claims) (ac_expiresAt ex_claims) ex_desk)
   \<and> (\<exists>l scope. acquireSession (dk_limits ex_desk) (ac_subject ex_claims) = (l, True, scope))"
proof -
  obtain d' where run: "serveAttach (\<lambda>k m. ''mac'') ex_flavour ''key'' ex_visit ''POST'' ''s'' ex_token ex_desk = (d', Serving ex_claims)"
    using ex_attach by blast
  have "tidy (ss_per (dk_limits ex_desk))" by (simp add: ex_desk_def newSessionLimiter_def tidy_def)
  from attach_admission_safe [OF run this] show ?thesis by blast
qed

text \<open>A refusal keeps no session slot. Whatever a shell, exec, file or attach request ends in, unless
  it is served the session limiter is as it was.\<close>

theorem refused_redemption_keeps_no_session:
  assumes "tidy (ss_per (dk_limits d))" "\<not> is_served out1" "\<not> is_served out2" "\<not> is_served out3" "\<not> is_served out4"
    and "serveShell hmac fl1 secret v protos d = (d1, out1)" "serveExec hmac fl2 secret v token d = (d2, out2)"
    and "serveFiles hmac fl3 secret v meth token d = (d3, out3)" "serveAttach hmac fl4 secret v meth pathID token d = (d4, out4)"
  shows "dk_limits d1 = dk_limits d \<and> dk_limits d2 = dk_limits d \<and> dk_limits d3 = dk_limits d \<and> dk_limits d4 = dk_limits d"
proof (intro conjI)
  show "dk_limits d1 = dk_limits d"
  proof (cases "verifyShell hmac fl1 secret (wsTicket protos) (vt_verifyAt v)")
    case (Inr c)
    obtain da ok where t: "takeNonce v (sc_nonce c) (sc_expiresAt c) d = (da, ok)" by fastforce
    have "(d1 = d \<or> d1 = da) \<and> \<not> is_served out1
        \<or> (ok \<and> withSlot (sc_subject c) Closed (if vt_audited v then Serving c else Closed) da = (d1, out1))"
      using serveShell_stages(2) [OF assms(6) Inr t] by blast
    then show ?thesis by (rule stages_keep_limits [OF t assms(1,2), rotated]) simp
  qed (use serveShell_stages(1) [OF assms(6)] in simp)
  show "dk_limits d2 = dk_limits d"
  proof (cases "verifyExec hmac fl2 secret token (vt_verifyAt v)")
    case (Inr c)
    obtain da ok where t: "takeNonce v (xc_nonce c) (xc_expiresAt c) d = (da, ok)" by fastforce
    have "(d2 = d \<or> d2 = da) \<and> \<not> is_served out2
        \<or> (ok \<and> withSlot (xc_subject c) (Refused 429) (if vt_authorized v then Serving c else Refused 403) da = (d2, out2))"
      using serveExec_stages(2) [OF assms(7) Inr t] by blast
    then show ?thesis by (rule stages_keep_limits [OF t assms(1,3), rotated]) simp
  qed (use serveExec_stages(1) [OF assms(7)] in simp)
  show "dk_limits d3 = dk_limits d"
  proof (cases "verifyFile hmac fl3 secret token (vt_verifyAt v)")
    case (Inr c)
    obtain da ok where t: "takeNonce v (fc_nonce c) (fc_expiresAt c) d = (da, ok)" by fastforce
    have "(d3 = d \<or> d3 = da) \<and> \<not> is_served out3
        \<or> (ok \<and> withSlot (limitKey SystemSubject c) (Refused 429) (if vt_authorized v then Serving c else Refused 403) da = (d3, out3))"
      using serveFiles_stages(2) [OF assms(8) Inr t] by blast
    then show ?thesis by (rule stages_keep_limits [OF t assms(1,4), rotated]) simp
  qed (use serveFiles_stages(1) [OF assms(8)] in simp)
  show "dk_limits d4 = dk_limits d"
  proof (cases "verifySession hmac fl4 secret token (vt_verifyAt v)")
    case (Inr c)
    obtain da ok where t: "takeNonce v (ac_nonce c) (ac_expiresAt c) d = (da, ok)" by fastforce
    have "(d4 = d \<or> d4 = da) \<and> \<not> is_served out4
        \<or> (ok \<and> withSlot (ac_subject c) (Refused 429) (if vt_audited v then Serving c else Refused 500) da = (d4, out4))"
      using serveAttach_stages(2) [OF assms(9) Inr t] by blast
    then show ?thesis by (rule stages_keep_limits [OF t assms(1,5), rotated]) simp
  qed (use serveAttach_stages(1) [OF assms(9)] in simp)
qed

theorem refused_redemption_keeps_no_session_witness:
  "dk_limits (fst (serveAttach (\<lambda>k m. ''mac'') ex_flavour ''key'' ex_visit ''GET'' ''s'' ex_token ex_desk)) = dk_limits ex_desk"
proof -
  have t: "tidy (ss_per (dk_limits ex_desk))" by (simp add: ex_desk_def newSessionLimiter_def tidy_def)
  have "serveAttach (\<lambda>k m. ''mac'') ex_flavour ''key'' ex_visit ''GET'' ''s'' ex_token ex_desk = (ex_desk, Refused 403)"
    by (simp add: serveAttach_def ex_visit_def [THEN arg_cong, of vt_verifyAt] ex_verify ex_claims_def
        ex_visit_def [THEN arg_cong, of vt_flusher])
  moreover have "serveShell hmac fl ''key'' ex_visit [] ex_desk = (ex_desk, Refused 401)"
    "serveExec hmac fl2 [] ex_visit [] ex_desk = (ex_desk, Refused 503)" for hmac fl fl2
    by (simp_all add: serveShell_def serveExec_def)
  ultimately show ?thesis
    using refused_redemption_keeps_no_session [OF t, of "Refused 401" _ _ "Refused 403" "\<lambda>k m. ''mac''"] by simp
qed

text \<open>A connect token is bound to its use. A run token is accepted only for the sandbox, the
  execution and the exact command it was minted for, once; a token presented for anything else, or
  outside its time, is refused with the nonce guard untouched, so misuse does not burn it.\<close>

theorem connect_token_bound:
  assumes "verifyConnectToken hmac fl secret v token sandboxID executionID command d = (d', out)"
  shows "(\<exists>c. out = Serving c \<and> signed hmac fl (derivedKey hmac connectKeyLabel secret) token c
       \<and> cc_sandboxID c = sandboxID \<and> cc_executionID c = executionID \<and> cc_command c = command
       \<and> vt_consumeAt v \<le> nonceExpiry (cc_expiresAt c) \<and> takeNonce v (cc_nonce c) (cc_expiresAt c) d = (d', True))
     \<or> out = Refused 409 \<or> (\<exists>status \<in> {401, 403, 410}. out = Refused status \<and> d' = d)"
proof (cases "token = [] \<or> (\<exists>e. openInto hmac fl (derivedKey hmac connectKeyLabel secret) token = Inl e)")
  case True
  then show ?thesis using assms by (auto simp: verifyConnectToken_def split: if_split_asm)
next
  case False
  then obtain c where c: "token \<noteq> []" "openInto hmac fl (derivedKey hmac connectKeyLabel secret) token = Inr c"
    by (cases "openInto hmac fl (derivedKey hmac connectKeyLabel secret) token") auto
  obtain d1 ok where t: "takeNonce v (cc_nonce c) (cc_expiresAt c) d = (d1, ok)" by fastforce
  show ?thesis
  proof (cases "checkBounds (vt_consumeAt v) (cc_issuedAt c) (cc_expiresAt c)")
    case None
    then have "vt_consumeAt v \<le> nonceExpiry (cc_expiresAt c)" by (simp add: checkBounds_None)
    then show ?thesis
      using assms c t None openInto_signed [OF c(2)]
      by (cases ok) (auto simp: verifyConnectToken_def split: if_split_asm)
  next
    case (Some e)
    then show ?thesis using assms c by (auto simp: verifyConnectToken_def split: if_split_asm)
  qed
qed

definition ex_connect :: connect_claims where
  "ex_connect = \<lparr>cc_subject = ''u'', cc_workspace = ''w'', cc_sandboxID = ''b'', cc_executionID = ''e'',
     cc_operation = ''stream'', cc_command = ''ls'', cc_issuedAt = 100, cc_expiresAt = 160, cc_nonce = ''n''\<rparr>"

definition ex_connect_flavour :: "connect_claims flavour" where
  "ex_connect_flavour = \<lparr>fl_nonce = cc_nonce, fl_setNonce = (\<lambda>n. cc_nonce_update (\<lambda>_. n)), fl_marshal = (\<lambda>c. Some ''#n''),
     fl_unmarshal = (\<lambda>p z. (ex_connect, True)), fl_zero = ex_connect\<rparr>"

theorem connect_token_bound_witness:
  "\<exists>d'. takeNonce ex_visit ''n'' 160 ex_desk = (d', True)
     \<and> fst (verifyConnectToken (\<lambda>k m. ''mac'') ex_connect_flavour ''key'' ex_visit ex_token ''b'' ''e'' ''rm'' ex_desk) = ex_desk"
proof -
  have "cut_at (CHR ''.'') ex_token = (b64_encode ''#n'', b64_encode ''mac'', True)"
    unfolding ex_token_def using b64_no_dot by (intro cut_at_append) simp
  then have o: "openInto (\<lambda>k m. ''mac'') ex_connect_flavour (derivedKey (\<lambda>k m. ''mac'') connectKeyLabel ''key'') ex_token = Inr ex_connect"
    by (simp add: openInto_def openToken_def mac_def derivedKey_def ex_connect_flavour_def)
  have b: "checkBounds (vt_consumeAt ex_visit) 100 160 = None"
    by (simp add: checkBounds_def ex_visit_def unix_def unixToInternal_def ClockSkew_def second_def)
  obtain d1 where t: "takeNonce ex_visit ''n'' 160 ex_desk = (d1, True)"
    using ex_take [of 160] by (cases "takeNonce ex_visit ''n'' 160 ex_desk") simp
  have ne: "ex_token \<noteq> []" by (simp add: ex_token_def)
  have run: "verifyConnectToken (\<lambda>k m. ''mac'') ex_connect_flavour ''key'' ex_visit ex_token ''b'' ''e'' ''ls'' ex_desk = (d1, Serving ex_connect)"
    using ne o b t by (simp add: verifyConnectToken_def ex_connect_def)
  have bad: "verifyConnectToken (\<lambda>k m. ''mac'') ex_connect_flavour ''key'' ex_visit ex_token ''b'' ''e'' ''rm'' ex_desk = (ex_desk, Refused 403)"
    using ne o b by (simp add: verifyConnectToken_def ex_connect_def)
  show ?thesis using connect_token_bound [OF run] connect_token_bound [OF bad] bad
    by (auto simp: ex_connect_def)
qed

end
