(* ===== verification/DrainBuffer.thy ===== *)
theory DrainBuffer
  imports Bex_Prelude "HOL-Library.Sublist"
begin

text \<open>
  The bounded output buffer of the SSH gateway (\<open>backend/internal/sshgateway/drain.go\<close>): writers queue
  chunks, a goroutine per writer forwards them, a per-channel and a process-wide budget bound what is
  held, and a writer that finds the process-wide budget spent writes straight through.

  The state has all writers of the process, those of one channel (stdout and stderr) sharing its cap,
  and a step is one turn of one goroutine: of the caller of \<open>Write\<close> between its locks and semaphores, of
  \<open>run\<close> between its locks, or of \<open>close\<close>. The weighted semaphores are a library: \<open>grants sz held n\<close> is
  their answer, for which the theorems rely on what is documented, that no more than the size is ever
  granted. The counters \<open>dr_total\<close> and \<open>dr_own\<close> are what the code's calls have acquired and not released.

  As \<open>DrainingExecutor\<close> uses it, \<open>Close\<close> comes after the executor returned, so that no \<open>Write\<close> is under
  way or comes later, and the executor does not write again once a \<open>Write\<close> failed.
\<close>

section \<open>State\<close>

definition maxDrainChunk :: nat where "maxDrainChunk = 262144"

text \<open>\<open>NewDrainBudget\<close>: non-positive values disable buffering.\<close>

definition newDrainBudget :: "int \<Rightarrow> int \<Rightarrow> (int \<times> int) option" where
  "newDrainBudget perChannel cap =
     (if perChannel \<le> 0 \<or> cap \<le> 0 then None else Some (cap, min perChannel cap))"

text \<open>Where the caller of \<open>Write\<close> is, with the bytes it still has to hand over.\<close>

datatype stage = Idle | Head bytes | Checked bytes | Held bytes | Direct bytes | Cleared bytes

text \<open>Where \<open>run\<close> is: a popped chunk with the failure it read, or one it has dealt with.\<close>

datatype forward = Resting | Popped bytes bool | Delivered bytes | Done

text \<open>The last three fields are history: the bytes handed to \<open>Write\<close>, those it took, those the destination got.\<close>

record writer =
  dw_chan :: nat
  dw_stage :: stage
  dw_queue :: "bytes list"
  dw_forward :: forward
  dw_closed :: bool
  dw_err :: bool
  dw_refused :: bool
  dw_offered :: bytes
  dw_taken :: bytes
  dw_sent :: bytes

record drain =
  dr_total :: nat
  dr_own :: "nat \<Rightarrow> nat"
  dr_writers :: "writer list"

definition new_writer :: "nat \<Rightarrow> writer" where
  "new_writer c = \<lparr>dw_chan = c, dw_stage = Idle, dw_queue = [], dw_forward = Resting, dw_closed = False, dw_err = False,
     dw_refused = False, dw_offered = [], dw_taken = [], dw_sent = []\<rparr>"

definition new_drain :: "nat list \<Rightarrow> drain" where
  "new_drain chans = \<lparr>dr_total = 0, dr_own = (\<lambda>c. 0), dr_writers = map new_writer chans\<rparr>"

definition chunk_size :: "nat \<Rightarrow> bytes \<Rightarrow> nat" where
  "chunk_size perChannel p = min (length p) (min maxDrainChunk perChannel)"

definition chunk :: "nat \<Rightarrow> bytes \<Rightarrow> bytes" where
  "chunk perChannel p = take (chunk_size perChannel p) p"

definition beyond :: "nat \<Rightarrow> bytes \<Rightarrow> bytes" where
  "beyond perChannel p = drop (chunk_size perChannel p) p"

section \<open>Turns of one writer\<close>

text \<open>
  \<open>writer_step per w w'\<close>: a turn that touches no budget. A failed write of the destination may have
  written part of its chunk.
\<close>

inductive writer_step :: "nat \<Rightarrow> writer \<Rightarrow> writer \<Rightarrow> bool" for per :: nat where
  Write: "dw_stage w = Idle \<Longrightarrow> \<not> dw_closed w \<Longrightarrow> \<not> dw_refused w \<Longrightarrow>
     writer_step per w (w\<lparr>dw_stage := Head p, dw_offered := dw_offered w @ p\<rparr>)"
| Return: "dw_stage w = Head [] \<Longrightarrow> writer_step per w (w\<lparr>dw_stage := Idle\<rparr>)"
| Check: "dw_stage w = Head p \<Longrightarrow> p \<noteq> [] \<Longrightarrow> \<not> dw_err w \<Longrightarrow> writer_step per w (w\<lparr>dw_stage := Checked p\<rparr>)"
| Failed: "dw_stage w = Head p \<Longrightarrow> p \<noteq> [] \<Longrightarrow> dw_err w \<Longrightarrow>
     writer_step per w (w\<lparr>dw_stage := Idle, dw_refused := True\<rparr>)"
| Cancelled: "dw_stage w = Checked p \<Longrightarrow> writer_step per w (w\<lparr>dw_stage := Idle, dw_refused := True\<rparr>)"
| Clear: "dw_stage w = Direct p \<Longrightarrow> dw_queue w = [] \<Longrightarrow> dw_forward w \<in> {Resting, Done} \<Longrightarrow> \<not> dw_err w \<Longrightarrow>
     writer_step per w (w\<lparr>dw_stage := Cleared p\<rparr>)"
| DirectFailed: "dw_stage w = Direct p \<Longrightarrow> dw_err w \<Longrightarrow>
     writer_step per w (w\<lparr>dw_stage := Idle, dw_refused := True\<rparr>)"
| DirectWrite: "dw_stage w = Cleared p \<Longrightarrow>
     writer_step per w (w\<lparr>dw_stage := Head (beyond per p), dw_taken := dw_taken w @ chunk per p,
       dw_sent := dw_sent w @ chunk per p\<rparr>)"
| DirectBroken: "dw_stage w = Cleared p \<Longrightarrow>
     writer_step per w (w\<lparr>dw_stage := Idle, dw_refused := True, dw_err := True, dw_sent := dw_sent w @ take k (chunk per p)\<rparr>)"
| Pop: "dw_forward w = Resting \<Longrightarrow> dw_queue w = c # q \<Longrightarrow>
     writer_step per w (w\<lparr>dw_queue := q, dw_forward := Popped c (dw_err w)\<rparr>)"
| Send: "dw_forward w = Popped c False \<Longrightarrow>
     writer_step per w (w\<lparr>dw_forward := Delivered c, dw_sent := dw_sent w @ c\<rparr>)"
| SendBroken: "dw_forward w = Popped c False \<Longrightarrow>
     writer_step per w (w\<lparr>dw_forward := Delivered c, dw_err := True, dw_sent := dw_sent w @ take k c\<rparr>)"
| Skip: "dw_forward w = Popped c True \<Longrightarrow> writer_step per w (w\<lparr>dw_forward := Delivered c\<rparr>)"
| Close: "dw_stage w = Idle \<Longrightarrow> writer_step per w (w\<lparr>dw_closed := True\<rparr>)"
| CloseCancelled: "dw_closed w \<Longrightarrow> writer_step per w (w\<lparr>dw_err := True\<rparr>)"
| Finish: "dw_forward w = Resting \<Longrightarrow> dw_queue w = [] \<Longrightarrow> dw_closed w \<Longrightarrow> writer_step per w (w\<lparr>dw_forward := Done\<rparr>)"

section \<open>Turns with the budgets\<close>

inductive drain_step :: "(nat \<Rightarrow> nat \<Rightarrow> nat \<Rightarrow> bool) \<Rightarrow> nat \<Rightarrow> nat \<Rightarrow> drain \<Rightarrow> drain \<Rightarrow> bool"
  for grants :: "nat \<Rightarrow> nat \<Rightarrow> nat \<Rightarrow> bool" and cap :: nat and per :: nat where
  Local: "i < length (dr_writers s) \<Longrightarrow> writer_step per (dr_writers s ! i) w' \<Longrightarrow>
     drain_step grants cap per s (s\<lparr>dr_writers := (dr_writers s)[i := w']\<rparr>)"
| TakeOwn: "i < length (dr_writers s) \<Longrightarrow> w = dr_writers s ! i \<Longrightarrow> dw_stage w = Checked p \<Longrightarrow>
     n = chunk_size per p \<Longrightarrow> grants per (dr_own s (dw_chan w)) n \<Longrightarrow>
     drain_step grants cap per s (s\<lparr>dr_writers := (dr_writers s)[i := w\<lparr>dw_stage := Held p\<rparr>],
       dr_own := (dr_own s)(dw_chan w := dr_own s (dw_chan w) + n)\<rparr>)"
| Enqueue: "i < length (dr_writers s) \<Longrightarrow> w = dr_writers s ! i \<Longrightarrow> dw_stage w = Held p \<Longrightarrow>
     n = chunk_size per p \<Longrightarrow> grants cap (dr_total s) n \<Longrightarrow>
     drain_step grants cap per s (s\<lparr>dr_writers := (dr_writers s)[i := w\<lparr>dw_stage := Head (beyond per p),
       dw_queue := dw_queue w @ [chunk per p], dw_taken := dw_taken w @ chunk per p\<rparr>], dr_total := dr_total s + n\<rparr>)"
| Fallback: "i < length (dr_writers s) \<Longrightarrow> w = dr_writers s ! i \<Longrightarrow> dw_stage w = Held p \<Longrightarrow>
     n = chunk_size per p \<Longrightarrow>
     drain_step grants cap per s (s\<lparr>dr_writers := (dr_writers s)[i := w\<lparr>dw_stage := Direct p\<rparr>],
       dr_own := (dr_own s)(dw_chan w := dr_own s (dw_chan w) - n)\<rparr>)"
| Free: "i < length (dr_writers s) \<Longrightarrow> w = dr_writers s ! i \<Longrightarrow> dw_forward w = Delivered c \<Longrightarrow>
     drain_step grants cap per s (s\<lparr>dr_writers := (dr_writers s)[i := w\<lparr>dw_forward := Resting\<rparr>],
       dr_total := dr_total s - length c, dr_own := (dr_own s)(dw_chan w := dr_own s (dw_chan w) - length c)\<rparr>)"

inductive drain_run :: "(nat \<Rightarrow> nat \<Rightarrow> nat \<Rightarrow> bool) \<Rightarrow> nat \<Rightarrow> nat \<Rightarrow> drain \<Rightarrow> bool"
  for grants :: "nat \<Rightarrow> nat \<Rightarrow> nat \<Rightarrow> bool" and cap :: nat and per :: nat where
  Start: "drain_run grants cap per (new_drain chans)"
| Step: "drain_run grants cap per s \<Longrightarrow> drain_step grants cap per s s' \<Longrightarrow> drain_run grants cap per s'"

section \<open>Order and loss\<close>

fun rest_of :: "stage \<Rightarrow> bytes" where
  "rest_of Idle = []" | "rest_of (Head p) = p" | "rest_of (Checked p) = p" | "rest_of (Held p) = p"
| "rest_of (Direct p) = p" | "rest_of (Cleared p) = p"

fun inflight :: "forward \<Rightarrow> bytes" where
  "inflight (Popped c f) = c" | "inflight (Delivered c) = []" | "inflight Resting = []" | "inflight Done = []"

definition writer_inv :: "writer \<Rightarrow> bool" where
  "writer_inv w \<longleftrightarrow>
     prefix (dw_taken w @ rest_of (dw_stage w)) (dw_offered w)
     \<and> (\<not> dw_refused w \<longrightarrow> dw_offered w = dw_taken w @ rest_of (dw_stage w))
     \<and> (\<not> dw_err w \<longrightarrow> dw_taken w = dw_sent w @ inflight (dw_forward w) @ concat (dw_queue w)
          \<and> (\<forall>c. dw_forward w \<noteq> Popped c True))
     \<and> (\<forall>c. dw_forward w = Popped c False \<longrightarrow> dw_taken w = dw_sent w @ c @ concat (dw_queue w))
     \<and> (\<forall>p. dw_stage w = Cleared p \<longrightarrow> dw_taken w = dw_sent w \<and> dw_queue w = [] \<and> dw_forward w \<in> {Resting, Done})
     \<and> prefix (dw_sent w) (dw_offered w)
     \<and> (dw_closed w \<longrightarrow> dw_stage w = Idle) \<and> (dw_forward w = Done \<longrightarrow> dw_closed w \<and> dw_queue w = [])"

lemma chunk_beyond [simp]: "chunk per p @ beyond per p = p"
  by (simp add: chunk_def beyond_def)

lemma chunk_beyond_assoc [simp]: "xs @ chunk per p @ beyond per p = xs @ p"
  by simp

lemma prefix_take_append: "prefix (xs @ ys @ zs) os \<Longrightarrow> prefix (xs @ take k ys) os"
  by (metis append.assoc append_take_drop_id prefix_def)

lemma prefix_shorter: "prefix (xs @ ys) os \<Longrightarrow> prefix xs os"
  by (metis append.assoc prefix_def)

lemma writer_inv_new: "writer_inv (new_writer c)"
  by (simp add: writer_inv_def new_writer_def)

lemma writer_inv_step:
  assumes "writer_step per w w'" "writer_inv w"
  shows "writer_inv w'"
  using assms
proof (induction rule: writer_step.induct)
  case (Write w p)
  then show ?case by (auto simp: writer_inv_def intro: prefix_prefix)
next
  case (DirectWrite w p)
  then have eq: "dw_taken w = dw_sent w" "dw_queue w = []" "inflight (dw_forward w) = []" "dw_forward w \<in> {Resting, Done}"
    "prefix (dw_sent w @ p) (dw_offered w)" by (auto simp: writer_inv_def)
  from eq(5) have "prefix (dw_sent w @ chunk per p) (dw_offered w)"
    using prefix_take_append [of "dw_sent w" p "[]"] by (simp add: chunk_def)
  with DirectWrite eq show ?case by (auto simp: writer_inv_def)
next
  case (DirectBroken w p k)
  then have eq: "dw_taken w = dw_sent w" "dw_forward w \<in> {Resting, Done}" "prefix (dw_sent w @ chunk per p @ beyond per p) (dw_offered w)"
    by (auto simp: writer_inv_def)
  from eq(3) have "prefix (dw_sent w @ take k (chunk per p)) (dw_offered w)" by (rule prefix_take_append)
  with DirectBroken eq show ?case by (auto simp: writer_inv_def dest: prefix_shorter)
next
  case (Send w c)
  then have eq: "dw_taken w = dw_sent w @ c @ concat (dw_queue w)" by (simp add: writer_inv_def)
  have "prefix (dw_taken w) (dw_offered w)" using Send(2) by (auto simp: writer_inv_def dest: prefix_shorter)
  then have "prefix (dw_sent w @ c) (dw_offered w)" unfolding eq using prefix_shorter [of "dw_sent w @ c"] by simp
  with Send eq show ?case by (auto simp: writer_inv_def)
next
  case (SendBroken w c k)
  then have eq: "dw_taken w = dw_sent w @ c @ concat (dw_queue w)" by (simp add: writer_inv_def)
  have "prefix (dw_taken w) (dw_offered w)" using SendBroken(2) by (auto simp: writer_inv_def dest: prefix_shorter)
  then have "prefix (dw_sent w @ take k c) (dw_offered w)" unfolding eq by (rule prefix_take_append)
  with SendBroken eq show ?case by (auto simp: writer_inv_def)
qed (auto simp: writer_inv_def prefix_def)

lemma writer_inv_take: "writer_inv w \<Longrightarrow> dw_stage w = Checked p \<Longrightarrow> writer_inv (w\<lparr>dw_stage := Held p\<rparr>)"
  by (auto simp: writer_inv_def)

lemma writer_inv_fall: "writer_inv w \<Longrightarrow> dw_stage w = Held p \<Longrightarrow> writer_inv (w\<lparr>dw_stage := Direct p\<rparr>)"
  by (auto simp: writer_inv_def)

lemma writer_inv_free: "writer_inv w \<Longrightarrow> dw_forward w = Delivered c \<Longrightarrow> writer_inv (w\<lparr>dw_forward := Resting\<rparr>)"
  by (auto simp: writer_inv_def)

lemma writer_inv_enqueue:
  assumes "writer_inv w" "dw_stage w = Held p"
  shows "writer_inv (w\<lparr>dw_stage := Head (beyond per p), dw_queue := dw_queue w @ [chunk per p],
    dw_taken := dw_taken w @ chunk per p\<rparr>)"
  using assms by (auto simp: writer_inv_def)

lemma run_writer_inv:
  assumes "drain_run grants cap per s"
  shows "\<forall>w \<in> set (dr_writers s). writer_inv w"
  using assms
proof (induction rule: drain_run.induct)
  case (Start chans)
  show ?case by (auto simp: new_drain_def writer_inv_new)
next
  case (Step s s')
  from Step(2,3) show ?case
  proof (induction rule: drain_step.induct)
    case (Local i s w')
    then show ?case using writer_inv_step [OF Local(2)] by (auto dest!: set_update_subset_insert [THEN subsetD])
  qed (auto dest!: set_update_subset_insert [THEN subsetD]
      intro: writer_inv_take writer_inv_fall writer_inv_free writer_inv_enqueue nth_mem)
qed

section \<open>Budgets\<close>

fun unfreed :: "forward \<Rightarrow> nat" where
  "unfreed (Popped c f) = length c" | "unfreed (Delivered c) = length c" | "unfreed Resting = 0" | "unfreed Done = 0"

definition held_total :: "writer \<Rightarrow> nat" where
  "held_total w = length (concat (dw_queue w)) + unfreed (dw_forward w)"

definition held_own :: "nat \<Rightarrow> nat \<Rightarrow> writer \<Rightarrow> nat" where
  "held_own per c w =
     (if dw_chan w = c then held_total w + (case dw_stage w of Held p \<Rightarrow> chunk_size per p | _ \<Rightarrow> 0) else 0)"

definition budget_inv :: "nat \<Rightarrow> nat \<Rightarrow> drain \<Rightarrow> bool" where
  "budget_inv cap per s \<longleftrightarrow>
     dr_total s = sum_list (map held_total (dr_writers s)) \<and> dr_total s \<le> cap
     \<and> (\<forall>c. dr_own s c = sum_list (map (held_own per c) (dr_writers s)) \<and> dr_own s c \<le> per)"

lemma length_chunk [simp]: "length (chunk per p) = chunk_size per p"
  by (simp add: chunk_def chunk_size_def)

lemma writer_step_held:
  assumes "writer_step per w w'"
  shows "dw_chan w' = dw_chan w \<and> held_total w' = held_total w \<and> held_own per c w' = held_own per c w"
  using assms by (induction rule: writer_step.induct) (auto simp: held_total_def held_own_def)

lemma sum_list_swap:
  "i < length ws \<Longrightarrow> sum_list (map f (ws[i := w])) + f (ws ! i) = sum_list (map f ws) + f w" for f :: "'a \<Rightarrow> nat"
  using member_le_sum_list [of "f (ws ! i)" "map f ws"] by (simp add: map_update sum_list_update)

lemma budget_le: "budget_inv cap per s \<Longrightarrow> dr_total s \<le> cap" "budget_inv cap per s \<Longrightarrow> dr_own s c \<le> per"
  unfolding budget_inv_def by blast+

text \<open>A turn that changes one writer moves the sums by what that writer holds.\<close>

lemma budget_inv_update:
  assumes "budget_inv cap per s" "i < length (dr_writers s)" "dw_chan w' = dw_chan (dr_writers s ! i)"
    and "t + held_total (dr_writers s ! i) = dr_total s + held_total w'" "t \<le> cap"
    and "o' + held_own per (dw_chan w') (dr_writers s ! i) = dr_own s (dw_chan w') + held_own per (dw_chan w') w'" "o' \<le> per"
  shows "budget_inv cap per (s\<lparr>dr_writers := (dr_writers s)[i := w'], dr_total := t, dr_own := (dr_own s)(dw_chan w' := o')\<rparr>)"
proof -
  have "t = sum_list (map held_total ((dr_writers s)[i := w']))"
    using sum_list_swap [OF assms(2), of held_total w'] assms(1,4) by (simp add: budget_inv_def)
  moreover have "((dr_own s)(dw_chan w' := o')) c = sum_list (map (held_own per c) ((dr_writers s)[i := w']))" for c
  proof (cases "c = dw_chan w'")
    case True
    then show ?thesis
      using sum_list_swap [OF assms(2), of "held_own per c" w'] assms(1,6) by (simp add: budget_inv_def)
  next
    case False
    then have "held_own per c w' = 0" "held_own per c (dr_writers s ! i) = 0" using assms(3) by (simp_all add: held_own_def)
    then show ?thesis
      using sum_list_swap [OF assms(2), of "held_own per c" w'] assms(1) False by (simp add: budget_inv_def)
  qed
  moreover have "((dr_own s)(dw_chan w' := o')) c \<le> per" for c
    using assms(7) budget_le(2) [OF assms(1)] by simp
  ultimately show ?thesis using assms(5) unfolding budget_inv_def by simp
qed

lemma budget_of_writer:
  assumes "budget_inv cap per s" "i < length (dr_writers s)"
  shows "held_total (dr_writers s ! i) \<le> dr_total s" and "held_own per c (dr_writers s ! i) \<le> dr_own s c"
  using assms member_le_sum_list [of _ "map held_total (dr_writers s)"] member_le_sum_list [of _ "map (held_own per c) (dr_writers s)"]
  by (auto simp: budget_inv_def)

lemma budget_inv_step:
  assumes "drain_step grants cap per s s'" "budget_inv cap per s" and sem: "\<And>sz h n. grants sz h n \<Longrightarrow> h + n \<le> sz"
  shows "budget_inv cap per s'"
  using assms(1,2)
proof (induction rule: drain_step.induct)
  case (Local i s w')
  note k = writer_step_held [OF Local(2)]
  have "budget_inv cap per (s\<lparr>dr_writers := (dr_writers s)[i := w'], dr_total := dr_total s,
      dr_own := (dr_own s)(dw_chan w' := dr_own s (dw_chan w'))\<rparr>)"
    using k Local(1,3) by (intro budget_inv_update) (auto simp: budget_le)
  then show ?case by simp
next
  case (TakeOwn i s w p n)
  let ?w' = "w\<lparr>dw_stage := Held p\<rparr>"
  have "budget_inv cap per (s\<lparr>dr_writers := (dr_writers s)[i := ?w'], dr_total := dr_total s,
      dr_own := (dr_own s)(dw_chan ?w' := dr_own s (dw_chan w) + n)\<rparr>)"
    using TakeOwn sem by (intro budget_inv_update) (auto simp: budget_le held_total_def held_own_def)
  then show ?case by simp
next
  case (Enqueue i s w p n)
  let ?w' = "w\<lparr>dw_stage := Head (beyond per p), dw_queue := dw_queue w @ [chunk per p], dw_taken := dw_taken w @ chunk per p\<rparr>"
  have "budget_inv cap per (s\<lparr>dr_writers := (dr_writers s)[i := ?w'], dr_total := dr_total s + n,
      dr_own := (dr_own s)(dw_chan ?w' := dr_own s (dw_chan ?w'))\<rparr>)"
    using Enqueue sem by (intro budget_inv_update) (auto simp: budget_le held_total_def held_own_def)
  then show ?case by simp
next
  case (Fallback i s w p n)
  let ?w' = "w\<lparr>dw_stage := Direct p\<rparr>"
  have "n \<le> dr_own s (dw_chan w)"
    using budget_of_writer(2) [OF Fallback(5,1), of "dw_chan w"] Fallback(2-4) by (simp add: held_own_def)
  then have "budget_inv cap per (s\<lparr>dr_writers := (dr_writers s)[i := ?w'], dr_total := dr_total s,
      dr_own := (dr_own s)(dw_chan ?w' := dr_own s (dw_chan w) - n)\<rparr>)"
    using Fallback by (intro budget_inv_update) (auto simp: budget_le held_total_def held_own_def intro: le_trans [OF diff_le_self])
  then show ?case by simp
next
  case (Free i s w c)
  let ?w' = "w\<lparr>dw_forward := Resting\<rparr>"
  have le: "length c \<le> dr_total s" "length c \<le> dr_own s (dw_chan w)"
    using budget_of_writer(1) [OF Free(4,1)] budget_of_writer(2) [OF Free(4,1), of "dw_chan w"] Free(2,3)
    by (simp_all add: held_total_def held_own_def)
  then have "budget_inv cap per (s\<lparr>dr_writers := (dr_writers s)[i := ?w'], dr_total := dr_total s - length c,
      dr_own := (dr_own s)(dw_chan ?w' := dr_own s (dw_chan ?w') - length c)\<rparr>)"
    using Free by (intro budget_inv_update) (auto simp: budget_le held_total_def held_own_def intro: le_trans [OF diff_le_self])
  then show ?case by simp
qed

lemma run_budget_inv:
  assumes "drain_run grants cap per s" "\<And>sz h n. grants sz h n \<Longrightarrow> h + n \<le> sz"
  shows "budget_inv cap per s"
  using assms(1)
proof (induction rule: drain_run.induct)
  case (Start chans)
  have "map held_total (map new_writer chans) = map (\<lambda>c. 0) chans" "map (held_own per d) (map new_writer chans) = map (\<lambda>c. 0) chans" for d
    by (simp_all add: held_total_def held_own_def new_writer_def)
  then show ?case by (simp add: budget_inv_def new_drain_def sum_list_triv del: map_map)
next
  case (Step s s')
  then show ?case using budget_inv_step assms(2) by blast
qed

section \<open>Closing drains\<close>

text \<open>Turns of the forwarding goroutine of one writer, its destination accepting what it gets.\<close>

lemma drain_forward:
  assumes "i < length (dr_writers s)" "dw_closed (dr_writers s ! i)" "writer_inv (dr_writers s ! i)"
  shows "\<exists>s'. (drain_step grants cap per)\<^sup>*\<^sup>* s s' \<and> length (dr_writers s') = length (dr_writers s)
     \<and> dw_forward (dr_writers s' ! i) = Done \<and> dw_err (dr_writers s' ! i) = dw_err (dr_writers s ! i)"
  using assms
proof (induction "2 * length (dw_queue (dr_writers s ! i)) * 2
      + (case dw_forward (dr_writers s ! i) of Popped c f \<Rightarrow> 3 | Delivered c \<Rightarrow> 2 | Resting \<Rightarrow> 1 | Done \<Rightarrow> 0)"
    arbitrary: s rule: less_induct)
  case less
  let ?w = "dr_writers s ! i"
  have onward: ?case
    if step: "drain_step grants cap per s s1" "dr_writers s1 = (dr_writers s)[i := w']"
      and w': "dw_closed w'" "writer_inv w'" "dw_err w' = dw_err ?w"
      and small: "2 * length (dw_queue w') * 2 + (case dw_forward w' of Popped c f \<Rightarrow> 3 | Delivered c \<Rightarrow> 2 | Resting \<Rightarrow> 1 | Done \<Rightarrow> 0)
        < 2 * length (dw_queue ?w) * 2 + (case dw_forward ?w of Popped c f \<Rightarrow> 3 | Delivered c \<Rightarrow> 2 | Resting \<Rightarrow> 1 | Done \<Rightarrow> 0)"
    for s1 w'
  proof -
    have at: "dr_writers s1 ! i = w'" "i < length (dr_writers s1)" using step(2) less(2) by simp_all
    obtain s' where s': "(drain_step grants cap per)\<^sup>*\<^sup>* s1 s'" "length (dr_writers s') = length (dr_writers s1)"
      "dw_forward (dr_writers s' ! i) = Done" "dw_err (dr_writers s' ! i) = dw_err (dr_writers s1 ! i)"
      using less(1) [of s1] small w' at by auto
    have "(drain_step grants cap per)\<^sup>*\<^sup>* s s'" using step(1) s'(1) by (rule converse_rtranclp_into_rtranclp)
    then show ?thesis using s' at step(2) w'(3) by (intro exI [of _ s']) simp
  qed
  show ?case
  proof (cases "dw_forward ?w")
    case (Popped c f)
    let ?w' = "if f then ?w\<lparr>dw_forward := Delivered c\<rparr> else ?w\<lparr>dw_forward := Delivered c, dw_sent := dw_sent ?w @ c\<rparr>"
    have ws: "writer_step per ?w ?w'"
      using Popped writer_step.Skip [of ?w c per] writer_step.Send [of ?w c per] by (cases f) auto
    show ?thesis
      by (rule onward [where w' = ?w', OF drain_step.Local [OF less(2) ws]])
        (use less(3,4) Popped writer_inv_step [OF ws] in auto)
  next
    case (Delivered c)
    show ?thesis
      by (rule onward [where w' = "?w\<lparr>dw_forward := Resting\<rparr>", OF drain_step.Free [OF less(2) refl Delivered]])
        (use less(3,4) Delivered writer_inv_free [OF less(4) Delivered] in auto)
  next
    case Resting
    show ?thesis
    proof (cases "dw_queue ?w")
      case Nil
      from Resting Nil less(3) have ws: "writer_step per ?w (?w\<lparr>dw_forward := Done\<rparr>)" by (rule writer_step.Finish)
      show ?thesis
        by (rule onward [where w' = "?w\<lparr>dw_forward := Done\<rparr>", OF drain_step.Local [OF less(2) ws]])
          (use less(3,4) Resting Nil writer_inv_step [OF ws] in auto)
    next
      case (Cons c q)
      from Resting Cons have ws: "writer_step per ?w (?w\<lparr>dw_queue := q, dw_forward := Popped c (dw_err ?w)\<rparr>)"
        by (rule writer_step.Pop)
      show ?thesis
        by (rule onward [where w' = "?w\<lparr>dw_queue := q, dw_forward := Popped c (dw_err ?w)\<rparr>", OF drain_step.Local [OF less(2) ws]])
          (use less(3,4) Resting Cons writer_inv_step [OF ws] in auto)
    qed
  next
    case Done
    then show ?thesis by blast
  qed
qed

section \<open>Properties\<close>

text \<open>C14: buffered output is neither lost, reordered nor doubled. Whatever the interleaving, what a
  destination has received is a prefix of what was handed to \<open>Write\<close>; and once the forwarding of a
  closed writer is done, with no error to report, it has received exactly that.\<close>

theorem drain_loses_nothing:
  assumes "drain_run grants cap per s" "w \<in> set (dr_writers s)"
  shows "prefix (dw_sent w) (dw_offered w)
     \<and> (dw_forward w = Done \<and> \<not> dw_err w \<and> \<not> dw_refused w \<longrightarrow> dw_sent w = dw_offered w)"
proof -
  have "writer_inv w" using run_writer_inv [OF assms(1)] assms(2) by blast
  then show ?thesis by (auto simp: writer_inv_def)
qed

text \<open>C29: the budgets are kept and their books exact. What all writers hold in memory, queued or being
  forwarded, is what the process-wide budget has given out, and never exceeds it; likewise the writers
  of a channel and the channel's own cap.\<close>

theorem drain_within_budget:
  assumes "drain_run grants cap per s" "\<And>sz h n. grants sz h n \<Longrightarrow> h + n \<le> sz"
  shows "sum_list (map held_total (dr_writers s)) \<le> cap \<and> dr_total s = sum_list (map held_total (dr_writers s))
     \<and> sum_list (map (held_own per c) (dr_writers s)) \<le> per"
  using run_budget_inv [OF assms] budget_le(2) [OF run_budget_inv [OF assms], of c]
  by (simp add: budget_inv_def)

text \<open>Closing ends. From any reachable state the forwarding goroutine of a closed writer, by turns
  of its own alone and with a destination that accepts what it is given, reaches its end, reporting no
  error that was not there.\<close>

theorem drain_close_ends:
  assumes "drain_run grants cap per s" "i < length (dr_writers s)" "dw_closed (dr_writers s ! i)"
  shows "\<exists>s'. (drain_step grants cap per)\<^sup>*\<^sup>* s s' \<and> dw_forward (dr_writers s' ! i) = Done
     \<and> dw_err (dr_writers s' ! i) = dw_err (dr_writers s ! i)"
proof -
  have "writer_inv (dr_writers s ! i)" using run_writer_inv [OF assms(1)] assms(2) by simp
  from drain_forward [OF assms(2,3) this] show ?thesis by blast
qed

text \<open>One writer that takes a byte, is closed and forwards it.\<close>

definition ex_writer :: "stage \<Rightarrow> bytes list \<Rightarrow> forward \<Rightarrow> bool \<Rightarrow> bytes \<Rightarrow> bytes \<Rightarrow> writer" where
  "ex_writer st q f cl taken sent = \<lparr>dw_chan = 0, dw_stage = st, dw_queue = q, dw_forward = f, dw_closed = cl, dw_err = False,
     dw_refused = False, dw_offered = [7], dw_taken = taken, dw_sent = sent\<rparr>"

definition ex_drain :: "nat \<Rightarrow> writer \<Rightarrow> drain" where
  "ex_drain n w = \<lparr>dr_total = n, dr_own = (\<lambda>c. 0)(0 := n), dr_writers = [w]\<rparr>"

abbreviation ex_grants :: "nat \<Rightarrow> nat \<Rightarrow> nat \<Rightarrow> bool" where
  "ex_grants \<equiv> \<lambda>sz h n. h + n \<le> sz"

lemma ex_local:
  assumes "drain_run ex_grants 8 4 (ex_drain n w)" "writer_step 4 w w'"
  shows "drain_run ex_grants 8 4 (ex_drain n w')"
  using drain_run.Step [OF assms(1) drain_step.Local [of 0 "ex_drain n w" 4 w' ex_grants 8]] assms(2)
  by (simp add: ex_drain_def)

lemma ex_queued: "drain_run ex_grants 8 4 (ex_drain 1 (ex_writer Idle [[7]] Resting True [7] []))"
proof -
  have size: "chunk_size 4 [7] = 1" "chunk 4 [7] = [7]" "beyond 4 [7] = []"
    by (simp_all add: chunk_size_def chunk_def beyond_def maxDrainChunk_def)
  have start: "new_drain [0] = ex_drain 0 (new_writer 0)" by (auto simp: new_drain_def ex_drain_def)
  have r0: "drain_run ex_grants 8 4 (ex_drain 0 (new_writer 0))"
    using drain_run.Start [of ex_grants 8 4 "[0]"] by (simp only: start)
  have s1: "writer_step 4 (new_writer 0) (ex_writer (Head [7]) [] Resting False [] [])"
    using writer_step.Write [of "new_writer 0" 4 "[7]"] by (simp add: new_writer_def ex_writer_def)
  have s2: "writer_step 4 (ex_writer (Head [7]) [] Resting False [] []) (ex_writer (Checked [7]) [] Resting False [] [])"
    using writer_step.Check [of "ex_writer (Head [7]) [] Resting False [] []" "[7]" 4] by (simp add: ex_writer_def)
  note r2 = ex_local [OF ex_local [OF r0 s1] s2]
  let ?held = "(ex_drain 0 (ex_writer (Held [7]) [] Resting False [] []))\<lparr>dr_own := (\<lambda>c. 0)(0 := 1)\<rparr>"
  have "drain_step ex_grants 8 4 (ex_drain 0 (ex_writer (Checked [7]) [] Resting False [] [])) ?held"
    using drain_step.TakeOwn [of 0 "ex_drain 0 (ex_writer (Checked [7]) [] Resting False [] [])" _ "[7]" 1 4 ex_grants 8] size
    by (simp add: ex_drain_def ex_writer_def)
  then have r3: "drain_run ex_grants 8 4 ?held" by (rule drain_run.Step [OF r2])
  have "drain_step ex_grants 8 4 ?held (ex_drain 1 (ex_writer (Head []) [[7]] Resting False [7] []))"
    using drain_step.Enqueue [of 0 ?held _ "[7]" 1 4 ex_grants 8] size by (simp add: ex_drain_def ex_writer_def)
  then have r4: "drain_run ex_grants 8 4 (ex_drain 1 (ex_writer (Head []) [[7]] Resting False [7] []))"
    by (rule drain_run.Step [OF r3])
  have s5: "writer_step 4 (ex_writer (Head []) [[7]] Resting False [7] []) (ex_writer Idle [[7]] Resting False [7] [])"
    using writer_step.Return [of "ex_writer (Head []) [[7]] Resting False [7] []" 4] by (simp add: ex_writer_def)
  have s6: "writer_step 4 (ex_writer Idle [[7]] Resting False [7] []) (ex_writer Idle [[7]] Resting True [7] [])"
    using writer_step.Close [of "ex_writer Idle [[7]] Resting False [7] []" 4] by (simp add: ex_writer_def)
  show ?thesis by (rule ex_local [OF ex_local [OF r4 s5] s6])
qed

theorem drain_within_budget_witness:
  "sum_list (map held_total (dr_writers (ex_drain 1 (ex_writer Idle [[7]] Resting True [7] [])))) \<le> 8"
  using drain_within_budget [OF ex_queued] by blast

theorem drain_close_ends_witness:
  "\<exists>s'. (drain_step ex_grants 8 4)\<^sup>*\<^sup>* (ex_drain 1 (ex_writer Idle [[7]] Resting True [7] [])) s'
     \<and> dw_forward (dr_writers s' ! 0) = Done"
  using drain_close_ends [OF ex_queued, of 0] by (auto simp: ex_drain_def ex_writer_def)

lemma ex_done:
  "\<exists>o'. drain_run ex_grants 8 4 \<lparr>dr_total = 0, dr_own = o', dr_writers = [ex_writer Idle [] Done True [7] [7]]\<rparr>"
proof -
  have s1: "writer_step 4 (ex_writer Idle [[7]] Resting True [7] []) (ex_writer Idle [] (Popped [7] False) True [7] [])"
    using writer_step.Pop [of "ex_writer Idle [[7]] Resting True [7] []" "[7]" "[]" 4] by (simp add: ex_writer_def)
  have s2: "writer_step 4 (ex_writer Idle [] (Popped [7] False) True [7] []) (ex_writer Idle [] (Delivered [7]) True [7] [7])"
    using writer_step.Send [of "ex_writer Idle [] (Popped [7] False) True [7] []" "[7]" 4] by (simp add: ex_writer_def)
  note r2 = ex_local [OF ex_local [OF ex_queued s1] s2]
  have "drain_step ex_grants 8 4 (ex_drain 1 (ex_writer Idle [] (Delivered [7]) True [7] [7])) (ex_drain 0 (ex_writer Idle [] Resting True [7] [7]))"
    using drain_step.Free [of 0 "ex_drain 1 (ex_writer Idle [] (Delivered [7]) True [7] [7])" _ "[7]" ex_grants 8 4]
    by (simp add: ex_drain_def ex_writer_def)
  then have r3: "drain_run ex_grants 8 4 (ex_drain 0 (ex_writer Idle [] Resting True [7] [7]))"
    by (rule drain_run.Step [OF r2])
  have "writer_step 4 (ex_writer Idle [] Resting True [7] [7]) (ex_writer Idle [] Done True [7] [7])"
    using writer_step.Finish [of "ex_writer Idle [] Resting True [7] [7]" 4] by (simp add: ex_writer_def)
  from ex_local [OF r3 this] show ?thesis unfolding ex_drain_def by blast
qed

theorem drain_loses_nothing_witness:
  "dw_sent (ex_writer Idle [] Done True [7] [7]) = dw_offered (ex_writer Idle [] Done True [7] [7])"
proof -
  obtain o' where run: "drain_run ex_grants 8 4 \<lparr>dr_total = 0, dr_own = o', dr_writers = [ex_writer Idle [] Done True [7] [7]]\<rparr>"
    using ex_done by blast
  show ?thesis using drain_loses_nothing [OF run, of "ex_writer Idle [] Done True [7] [7]"] by (simp add: ex_writer_def)
qed

end
