(* ===== verification/Activator.thy ===== *)
theory Activator
  imports Limiters ReleasePlan
begin

text \<open>
  The activator, the shared server behind the public route of an App that cannot answer itself:
  \<open>operator/cmd/activator/main.go\<close> and \<open>hold.go\<close>. The host index, the decision of the handler, the wake of a
  sleeping App, the requests held through a cold start and the custom maintenance pages.

  Times are nanoseconds. An annotation that holds a time is its parsed value, \<open>None\<close> when it is absent,
  malformed or zero; it is written in whole seconds. The cluster is what the API server holds. Parsing
  of URLs and media types and Unicode's case tables are the record \<open>codec\<close>; bodies are not modelled.
\<close>

section \<open>Apps and requests\<close>

record maintenance =
  mm_enabled :: bool
  mm_uri :: string

record pub_app = app +
  p_namespace :: string
  p_name :: string
  p_tier :: string
  p_idleTTL :: int
  p_replicas :: int
  p_maintenance :: "maintenance option"
  p_host :: string
  p_hosts :: "string list"
  p_expose :: bool
  p_subdomain :: string
  p_subdomainPolicy :: string
  p_url :: string
  p_urls :: "string list"
  p_phase :: string
  p_lastActive :: "int option"
  p_wakeStarted :: "int option"
  p_deleted :: bool

definition typePubliclyRoutable :: "string \<Rightarrow> bool" where
  "typePubliclyRoutable t \<longleftrightarrow> t = [] \<or> t = ''web_service'' \<or> t = ''static_site''"

definition publiclyRoutable :: "pub_app \<Rightarrow> bool" where
  "publiclyRoutable a \<longleftrightarrow> typePubliclyRoutable (a_type a)"

definition maintenanceEnabled :: "pub_app \<Rightarrow> bool" where
  "maintenanceEnabled a \<longleftrightarrow> (case p_maintenance a of None \<Rightarrow> False | Some m \<Rightarrow> mm_enabled m)"

definition platformSubdomain :: "pub_app \<Rightarrow> string" where
  "platformSubdomain a = (if p_subdomain a \<noteq> [] then p_subdomain a else p_name a)"

definition usesPlatformHost :: "pub_app \<Rightarrow> string \<Rightarrow> bool" where
  "usesPlatformHost a baseDomain \<longleftrightarrow> p_expose a \<and> baseDomain \<noteq> [] \<and> p_subdomainPolicy a \<noteq> ''disabled''"

text \<open>The closure \<open>add\<close> keeps the first occurrence of every host that is not empty.\<close>

definition addHost :: "string \<Rightarrow> string list \<Rightarrow> string list" where
  "addHost h hs = (if h \<noteq> [] \<and> h \<notin> set hs then hs @ [h] else hs)"

definition effectiveHosts :: "pub_app \<Rightarrow> string \<Rightarrow> string list" where
  "effectiveHosts a baseDomain =
     (if \<not> publiclyRoutable a then []
      else
        let h0 = addHost (p_host a) [];
            h1 = (if usesPlatformHost a baseDomain then addHost (platformSubdomain a @ ''.'' @ baseDomain) h0 else h0)
        in fold addHost (p_hosts a) h1)"

record url =
  u_scheme :: string
  u_host :: string
  u_user :: bool
  u_text :: string

record codec =
  cd_url :: "string \<Rightarrow> url option"
  cd_media :: "string \<Rightarrow> (string \<times> (string \<Rightarrow> string option)) option"
  cd_positive :: "string \<Rightarrow> bool"
  cd_lower :: "string \<Rightarrow> string"
  cd_fold :: "string \<Rightarrow> string \<Rightarrow> bool"

record request =
  rq_method :: string
  rq_host :: string
  rq_path :: string
  rq_accept :: "string list"

definition requestHost :: "codec \<Rightarrow> string \<Rightarrow> string" where
  "requestHost cd v = to_lower (cd_lower cd) (trim_suffix ''.'' (case split_host v of None \<Rightarrow> v | Some h \<Rightarrow> h))"

text \<open>The value of a media range counts when it has no \<open>q\<close> or one above zero.\<close>

definition acceptsItem :: "codec \<Rightarrow> string \<Rightarrow> string \<Rightarrow> bool" where
  "acceptsItem cd want item \<longleftrightarrow>
     (case cd_media cd (trim_space item) of
        None \<Rightarrow> False
      | Some (t, params) \<Rightarrow>
          equal_fold (cd_fold cd) t want \<and> (case params ''q'' of None \<Rightarrow> True | Some q \<Rightarrow> cd_positive cd q))"

definition acceptsMedia :: "codec \<Rightarrow> string list \<Rightarrow> string \<Rightarrow> bool" where
  "acceptsMedia cd values want \<longleftrightarrow> list_ex (\<lambda>v. list_ex (acceptsItem cd want) (split_on CHR '','' v)) values"

definition acceptsHTML :: "codec \<Rightarrow> string list \<Rightarrow> bool" where
  "acceptsHTML cd values \<longleftrightarrow> acceptsMedia cd values ''text/html''"

definition isRobotsRequest :: "request \<Rightarrow> bool" where
  "isRobotsRequest r \<longleftrightarrow> (rq_method r = ''GET'' \<or> rq_method r = ''HEAD'') \<and> rq_path r = ''/robots.txt''"

section \<open>The host index\<close>

definition addOwned :: "codec \<Rightarrow> string \<Rightarrow> string list \<Rightarrow> string list" where
  "addOwned cd value hs =
     (case cd_url cd value of
        Some u \<Rightarrow>
          if u_host u \<noteq> [] then to_lower (cd_lower cd) (trim_suffix ''.'' (u_host u)) # hs
          else if requestHost cd value \<noteq> [] then requestHost cd value # hs else hs
      | None \<Rightarrow> if requestHost cd value \<noteq> [] then requestHost cd value # hs else hs)"

definition appHosts :: "codec \<Rightarrow> pub_app \<Rightarrow> string list" where
  "appHosts cd a = fold (addOwned cd) ([p_host a] @ p_hosts a @ [p_url a] @ p_urls a) []"

type_synonym host_index = "string \<Rightarrow> pub_app option"

definition indexApp :: "codec \<Rightarrow> string \<Rightarrow> pub_app \<Rightarrow> host_index \<Rightarrow> host_index" where
  "indexApp cd baseDomain a next =
     (if p_deleted a then next
      else
        let owned = appHosts cd a;
            platform = (if baseDomain \<noteq> [] then map (requestHost cd) (effectiveHosts a baseDomain) else [])
        in (\<lambda>h. if h \<in> set owned \<or> h \<in> set platform then Some a else next h))"

text \<open>\<open>None\<close> is a list that failed.\<close>

definition refreshOnce :: "codec \<Rightarrow> string \<Rightarrow> pub_app list option \<Rightarrow> host_index \<Rightarrow> host_index" where
  "refreshOnce cd baseDomain listed index =
     (case listed of None \<Rightarrow> index | Some apps \<Rightarrow> fold (indexApp cd baseDomain) apps Map.empty)"

definition lookupHost :: "codec \<Rightarrow> host_index \<Rightarrow> string \<Rightarrow> pub_app option" where
  "lookupHost cd index host = index (requestHost cd host)"

definition claims :: "codec \<Rightarrow> host_index \<Rightarrow> string \<Rightarrow> bool" where
  "claims cd index host \<longleftrightarrow> index (requestHost cd host) \<noteq> None"

section \<open>Requests held through a cold start\<close>

definition sec :: int where "sec = 1000000000"
definition holdBound :: int where "holdBound = 90 * sec"
definition maxHeldRequests :: int where "maxHeldRequests = 256"
definition maxHeldPerApp :: int where "maxHeldPerApp = 64"
definition wakeWindow :: int where "wakeWindow = holdBound + 30 * sec"

record holder =
  hd_total :: int
  hd_perApp :: "string counts"
  hd_waking :: "string \<Rightarrow> int option"

definition newHolder :: holder where
  "newHolder = \<lparr>hd_total = 0, hd_perApp = Map.empty, hd_waking = Map.empty\<rparr>"

definition admit :: "holder \<Rightarrow> string \<Rightarrow> holder option" where
  "admit h key =
     (if maxHeldRequests \<le> hd_total h then None
      else if maxHeldPerApp \<le> count_of (hd_perApp h) key then None
      else Some (h\<lparr>hd_total := hd_total h + 1, hd_perApp := bump (hd_perApp h) key\<rparr>))"

text \<open>The release decrements first and deletes an entry that is no longer positive.\<close>

definition releaseHeld :: "holder \<Rightarrow> string \<Rightarrow> holder" where
  "releaseHeld h key =
     (let n = count_of (hd_perApp h) key - 1;
          per = (hd_perApp h)(key \<mapsto> n)
      in h\<lparr>hd_total := hd_total h - 1, hd_perApp := (if n \<le> 0 then per(key := None) else per)\<rparr>)"

definition wakingHere :: "holder \<Rightarrow> string \<Rightarrow> int \<Rightarrow> holder \<times> bool" where
  "wakingHere h key now =
     (case hd_waking h key of
        None \<Rightarrow> (h, False)
      | Some until \<Rightarrow>
          if until < now then (h\<lparr>hd_waking := (hd_waking h)(key := None)\<rparr>, False) else (h, True))"

definition markWaking :: "holder \<Rightarrow> string \<Rightarrow> int \<Rightarrow> holder" where
  "markWaking h key now = h\<lparr>hd_waking := (hd_waking h)(key \<mapsto> now + wakeWindow)\<rparr>"

text \<open>The poller of a wake ends, ready or not.\<close>

definition pollEnd :: "holder \<Rightarrow> string \<Rightarrow> holder" where
  "pollEnd h key = h\<lparr>hd_waking := (hd_waking h)(key := None)\<rparr>"

section \<open>The wake\<close>

type_synonym app_key = "string \<times> string"

text \<open>The Apps, and the \<open>spec.replicas\<close> of the Deployments, \<open>Some None\<close> where it is unset.\<close>

record cluster =
  cl_apps :: "app_key \<Rightarrow> pub_app option"
  cl_deps :: "app_key \<Rightarrow> int option option"

definition objectKey :: "pub_app \<Rightarrow> app_key" where
  "objectKey a = (p_namespace a, p_name a)"

definition appKey :: "pub_app \<Rightarrow> string" where
  "appKey a = p_namespace a @ ''/'' @ p_name a"

definition wholeSeconds :: "int \<Rightarrow> int" where
  "wholeSeconds t = t - t mod sec"

text \<open>A merge patch carries the annotations that differ from the cached App.\<close>

definition stampAnnotations :: "int \<Rightarrow> pub_app \<Rightarrow> pub_app \<Rightarrow> pub_app" where
  "stampAnnotations now cached live =
     (let t = wholeSeconds now;
          l1 = (if p_lastActive cached \<noteq> Some t then live\<lparr>p_lastActive := Some t\<rparr> else live)
      in if p_phase cached = ''Hibernated'' \<and> p_wakeStarted cached \<noteq> Some t then l1\<lparr>p_wakeStarted := Some t\<rparr> else l1)"

text \<open>What a wake meets: the flight is led by another request, the calls of the API server fail.\<close>

record wake_faults =
  wf_joined :: bool
  wf_stampFails :: bool
  wf_getFails :: bool
  wf_scaleFails :: bool

text \<open>The patch writes the answer of the server into the request's own copy of the App.\<close>

definition wakeApp :: "int \<Rightarrow> wake_faults \<Rightarrow> pub_app \<Rightarrow> cluster \<Rightarrow> cluster \<times> pub_app" where
  "wakeApp now f a c =
     (let k = objectKey a;
          (c1, a1) = (case cl_apps c k of
             None \<Rightarrow> (c, stampAnnotations now a a)
           | Some live \<Rightarrow>
               if wf_stampFails f then (c, stampAnnotations now a a)
               else let live' = stampAnnotations now a live
                    in (c\<lparr>cl_apps := (cl_apps c)(k \<mapsto> live')\<rparr>, live'));
          c2 = (case cl_deps c1 k of
             None \<Rightarrow> c1
           | Some r \<Rightarrow>
               if wf_getFails f then c1
               else if (case r of None \<Rightarrow> True | Some n \<Rightarrow> n < 1) \<and> \<not> wf_scaleFails f
                    then c1\<lparr>cl_deps := (cl_deps c1)(k \<mapsto> Some 1)\<rparr>
               else c1)
      in (c2, a1))"

definition wakeInFlight :: "pub_app \<Rightarrow> int \<Rightarrow> bool" where
  "wakeInFlight a now \<longleftrightarrow>
     p_phase a = ''Hibernated'' \<or> (case p_wakeStarted a of None \<Rightarrow> False | Some t \<Rightarrow> now - t < wakeWindow)"

section \<open>Custom maintenance pages\<close>

definition customPageTTL :: int where "customPageTTL = 30 * sec"
definition customPageMaxStale :: int where "customPageMaxStale = 600 * sec"
definition customPageMaxEntries :: nat where "customPageMaxEntries = 256"
definition customPageMaxSize :: nat where "customPageMaxSize = 1048576"
definition maxRedirects :: nat where "maxRedirects = 5"

definition validateCustomPageURL :: "codec \<Rightarrow> (string \<Rightarrow> bool) \<Rightarrow> pub_app \<Rightarrow> string \<Rightarrow> url option" where
  "validateCustomPageURL cd platformHost a raw =
     (case cd_url cd raw of
        None \<Rightarrow> None
      | Some u \<Rightarrow>
          if u_host u = [] \<or> (u_scheme u \<noteq> ''http'' \<and> u_scheme u \<noteq> ''https'') then None
          else if u_user u then None
          else
            let host = to_lower (cd_lower cd) (trim_suffix ''.'' (u_host u))
            in if host \<in> set (appHosts cd a) then None
               else if platformHost host then None
               else Some u)"

text \<open>What the origin answers to a request for a URL; the target of a redirect is resolved.\<close>

datatype hop = Down | Redirect string | Reply nat string string | Unreadable

text \<open>The client follows at most \<open>n\<close> redirects. The list is every URL that is requested.\<close>

fun fetchOrigin :: "codec \<Rightarrow> (string \<Rightarrow> bool) \<Rightarrow> pub_app \<Rightarrow> (string \<Rightarrow> hop) \<Rightarrow> nat \<Rightarrow> url
    \<Rightarrow> url list \<times> (nat \<times> string \<times> string) option" where
  "fetchOrigin cd platformHost a web n u =
     (case web (u_text u) of
        Down \<Rightarrow> ([u], None)
      | Unreadable \<Rightarrow> ([u], None)
      | Reply status ctype body \<Rightarrow>
          ([u], if customPageMaxSize < length body then None else Some (status, ctype, body))
      | Redirect target \<Rightarrow>
          (case n of
             0 \<Rightarrow> ([u], None)
           | Suc m \<Rightarrow>
               (case validateCustomPageURL cd platformHost a target of
                  None \<Rightarrow> ([u], None)
                | Some u' \<Rightarrow>
                    (case fetchOrigin cd platformHost a web m u' of (urls, page) \<Rightarrow> (u # urls, page)))))"

record page_entry =
  pe_status :: nat
  pe_type :: string
  pe_body :: string
  pe_at :: int

type_synonym pages = "(string \<times> page_entry) list"

definition freshPage :: "int \<Rightarrow> pages \<Rightarrow> string \<Rightarrow> page_entry option" where
  "freshPage now ps key =
     (case map_of ps key of None \<Rightarrow> None | Some e \<Rightarrow> if customPageTTL < now - pe_at e then None else Some e)"

definition stalePage :: "int \<Rightarrow> pages \<Rightarrow> string \<Rightarrow> page_entry option" where
  "stalePage now ps key =
     (case map_of ps key of
        None \<Rightarrow> None
      | Some e \<Rightarrow> if customPageTTL + customPageMaxStale < now - pe_at e then None else Some e)"

text \<open>The list is in the order of the iteration, which Go leaves open.\<close>

fun oldestPage :: "pages \<Rightarrow> (string \<times> int) option \<Rightarrow> (string \<times> int) option" where
  "oldestPage [] best = best"
| "oldestPage ((k, e) # ps) best =
     oldestPage ps (case best of None \<Rightarrow> Some (k, pe_at e)
       | Some (k0, t0) \<Rightarrow> if pe_at e < t0 then Some (k, pe_at e) else Some (k0, t0))"

definition dropPage :: "string \<Rightarrow> pages \<Rightarrow> pages" where
  "dropPage key ps = filter (\<lambda>x. fst x \<noteq> key) ps"

definition storePage :: "pages \<Rightarrow> string \<Rightarrow> page_entry \<Rightarrow> pages" where
  "storePage ps key e =
     (let ps1 = (if customPageMaxEntries \<le> length ps
                 then case oldestPage ps None of None \<Rightarrow> ps | Some (k, t) \<Rightarrow> dropPage k ps
                 else ps)
      in (key, e) # dropPage key ps1)"

text \<open>
  \<open>slot\<close> is whether a fetch slot came free before the request ended; \<open>doneAt\<close> is when the origin had answered.
\<close>

definition fetchPage :: "codec \<Rightarrow> (string \<Rightarrow> bool) \<Rightarrow> (string \<Rightarrow> hop) \<Rightarrow> bool \<Rightarrow> int \<Rightarrow> int \<Rightarrow> pub_app \<Rightarrow> string \<Rightarrow> pages
    \<Rightarrow> pages \<times> url list \<times> page_entry option" where
  "fetchPage cd platformHost web slot now doneAt a raw ps =
     (case validateCustomPageURL cd platformHost a raw of
        None \<Rightarrow> (ps, [], None)
      | Some u \<Rightarrow>
          (case freshPage now ps (u_text u) of
             Some e \<Rightarrow> (ps, [], Some e)
           | None \<Rightarrow>
               if \<not> slot then (ps, [], stalePage doneAt ps (u_text u))
               else
                 (case fetchOrigin cd platformHost a web maxRedirects u of
                    (urls, None) \<Rightarrow> (ps, urls, stalePage doneAt ps (u_text u))
                  | (urls, Some (status, ctype, body)) \<Rightarrow>
                      let e = \<lparr>pe_status = status, pe_type = ctype, pe_body = body, pe_at = doneAt\<rparr>
                      in (storePage ps (u_text u) e, urls, Some e))))"

datatype maintenance_page = BuiltIn | CustomUnavailable | Custom nat string string

definition maintenanceAnswer :: "page_entry option \<Rightarrow> maintenance_page" where
  "maintenanceAnswer got =
     (case got of
        None \<Rightarrow> CustomUnavailable
      | Some e \<Rightarrow>
          if customPageMaxSize < length (pe_body e) then CustomUnavailable
          else Custom (if 200 \<le> pe_status e \<and> pe_status e < 400 then 503 else pe_status e) (pe_type e) (pe_body e))"

definition serveMaintenance :: "codec \<Rightarrow> (string \<Rightarrow> bool) \<Rightarrow> (string \<Rightarrow> hop) \<Rightarrow> bool \<Rightarrow> int \<Rightarrow> int \<Rightarrow> pub_app \<Rightarrow> pages
    \<Rightarrow> pages \<times> url list \<times> maintenance_page" where
  "serveMaintenance cd platformHost web slot now doneAt a ps =
     (case p_maintenance a of
        None \<Rightarrow> (ps, [], BuiltIn)
      | Some m \<Rightarrow>
          if mm_uri m = [] then (ps, [], BuiltIn)
          else
            (case fetchPage cd platformHost web slot now doneAt a (mm_uri m) ps of
               (ps', urls, got) \<Rightarrow> (ps', urls, maintenanceAnswer got)))"

section \<open>The handler\<close>

datatype body = Page | Json | Plain

datatype routing = NoServer | Suspend | WakePending

datatype answer =
    UnknownHost body
  | Maintained maintenance_page
  | SuspendedHost body
  | NoRelease
  | FirstDeploy body
  | Robots
  | NotReady routing bool
  | WakeTimeout
  | ClientGone
  | FromApp
  | BadGateway

definition negotiated :: "codec \<Rightarrow> request \<Rightarrow> body" where
  "negotiated cd r =
     (if acceptsMedia cd (rq_accept r) ''text/html'' then Page
      else if acceptsMedia cd (rq_accept r) ''application/json'' then Json
      else Plain)"

record edge =
  eg_index :: host_index
  eg_hold :: holder
  eg_pages :: pages
  eg_cluster :: cluster

record moment =
  mo_now :: int
  mo_wake :: wake_faults
  mo_web :: "string \<Rightarrow> hop"
  mo_slot :: bool
  mo_doneAt :: int

datatype outcome = Done answer | Held string

definition startWake :: "moment \<Rightarrow> pub_app \<Rightarrow> edge \<Rightarrow> edge \<times> bool" where
  "startWake m a e =
     (let key = appKey a;
          joins = (if wakeInFlight a (mo_now m) then (eg_hold e, True) else wakingHere (eg_hold e) key (mo_now m));
          done = (if wf_joined (mo_wake m) then (eg_cluster e, a) else wakeApp (mo_now m) (mo_wake m) a (eg_cluster e));
          cold = (\<not> wf_joined (mo_wake m) \<and> p_phase (snd done) = ''Hibernated'')
      in (e\<lparr>eg_hold := (if cold then markWaking (fst joins) key (mo_now m) else fst joins), eg_cluster := fst done\<rparr>,
          snd joins))"

definition handleWake :: "codec \<Rightarrow> moment \<Rightarrow> request \<Rightarrow> pub_app \<Rightarrow> edge \<Rightarrow> edge \<times> outcome" where
  "handleWake cd m r a e =
     (let e1 = fst (startWake m a e);
          waking = snd (startWake m a e);
          html = acceptsHTML cd (rq_accept r);
          immediate = Done (NotReady (if waking then WakePending else NoServer) html)
      in if waking \<and> \<not> html
         then (case admit (eg_hold e1) (appKey a) of
                 None \<Rightarrow> (e1, immediate)
               | Some h \<Rightarrow> (e1\<lparr>eg_hold := h\<rparr>, Held (appKey a)))
         else (e1, immediate))"

definition handle :: "codec \<Rightarrow> moment \<Rightarrow> request \<Rightarrow> edge \<Rightarrow> edge \<times> outcome" where
  "handle cd m r e =
     (case lookupHost cd (eg_index e) (requestHost cd (rq_host r)) of
        None \<Rightarrow> (e, Done (UnknownHost (negotiated cd r)))
      | Some a \<Rightarrow>
          if \<not> publiclyRoutable a then (e, Done (UnknownHost (negotiated cd r)))
          else if maintenanceEnabled a then
            (case serveMaintenance cd (claims cd (eg_index e)) (mo_web m) (mo_slot m) (mo_now m) (mo_doneAt m) a (eg_pages e) of
               (ps, urls, page) \<Rightarrow> (e\<lparr>eg_pages := ps\<rparr>, Done (Maintained page)))
          else if a_suspended a then (e, Done (SuspendedHost (negotiated cd r)))
          else if a_activeRevision a = [] \<and> (p_phase a = ''Failed'' \<or> p_phase a = ''Canceled'') then (e, Done NoRelease)
          else if a_activeRevision a = [] \<and> p_phase a \<noteq> ''Hibernated'' then (e, Done (FirstDeploy (negotiated cd r)))
          else if a_type a = ''static_site'' then (e, Done (FirstDeploy (negotiated cd r)))
          else if p_phase a = ''Hibernated'' \<and> isRobotsRequest r then (e, Done Robots)
          else handleWake cd m r a e)"

text \<open>A held request: the wake came, the bound passed, or the client left; then the proxy ran.\<close>

datatype wait_end = WokeUp | BoundPassed | ClientLeft

datatype proxy_end = Answered | DialFailed | ProxyFailed

definition resolveHeld :: "string \<Rightarrow> wait_end \<Rightarrow> proxy_end \<Rightarrow> edge \<Rightarrow> edge \<times> answer" where
  "resolveHeld key w p e =
     (e\<lparr>eg_hold := releaseHeld (eg_hold e) key\<rparr>,
      case w of
        BoundPassed \<Rightarrow> WakeTimeout
      | ClientLeft \<Rightarrow> ClientGone
      | WokeUp \<Rightarrow> (case p of Answered \<Rightarrow> FromApp | DialFailed \<Rightarrow> WakeTimeout | ProxyFailed \<Rightarrow> BadGateway))"

text \<open>The status, the routing header and \<open>Retry-After\<close> of an answer the activator writes.\<close>

fun answerHead :: "answer \<Rightarrow> (nat \<times> routing option \<times> nat option) option" where
  "answerHead (UnknownHost b) = Some (404, Some NoServer, None)"
| "answerHead (Maintained BuiltIn) = Some (503, Some NoServer, None)"
| "answerHead (Maintained CustomUnavailable) = Some (502, Some NoServer, None)"
| "answerHead (Maintained (Custom status ctype body)) = Some (status, Some NoServer, None)"
| "answerHead (SuspendedHost b) = Some (503, Some Suspend, Some 3600)"
| "answerHead NoRelease = Some (503, Some NoServer, None)"
| "answerHead (FirstDeploy b) = Some (503, Some NoServer, Some 10)"
| "answerHead Robots = Some (200, None, None)"
| "answerHead (NotReady tag html) = Some (503, Some tag, Some 5)"
| "answerHead WakeTimeout = Some (504, Some WakePending, None)"
| "answerHead BadGateway = Some (502, Some NoServer, None)"
| "answerHead FromApp = None"
| "answerHead ClientGone = None"

declare fetchOrigin.simps [simp del]

section \<open>Runs\<close>

text \<open>
  What happens to an activator: requests arrive, held ones end, pollers end, the index is rebuilt, others
  write to the cluster. The second component lists the requests that were held and whether they still are.
\<close>

inductive edge_run :: "codec \<Rightarrow> string \<Rightarrow> edge \<Rightarrow> (string \<times> bool) list \<Rightarrow> bool"
  for cd :: codec and baseDomain :: string where
  Start: "edge_run cd baseDomain \<lparr>eg_index = Map.empty, eg_hold = newHolder, eg_pages = [], eg_cluster = c\<rparr> []"
| Answer: "edge_run cd baseDomain e ls \<Longrightarrow> handle cd m r e = (e', Done ans) \<Longrightarrow> edge_run cd baseDomain e' ls"
| Hold: "edge_run cd baseDomain e ls \<Longrightarrow> handle cd m r e = (e', Held key) \<Longrightarrow>
     edge_run cd baseDomain e' (ls @ [(key, True)])"
| Resolve: "edge_run cd baseDomain e ls \<Longrightarrow> i < length ls \<Longrightarrow> ls ! i = (key, True) \<Longrightarrow>
     resolveHeld key w p e = (e', ans) \<Longrightarrow> edge_run cd baseDomain e' (ls[i := (key, False)])"
| Poll: "edge_run cd baseDomain e ls \<Longrightarrow> edge_run cd baseDomain (e\<lparr>eg_hold := pollEnd (eg_hold e) key\<rparr>) ls"
| Refresh: "edge_run cd baseDomain e ls \<Longrightarrow>
     edge_run cd baseDomain (e\<lparr>eg_index := refreshOnce cd baseDomain listed (eg_index e)\<rparr>) ls"
| Others: "edge_run cd baseDomain e ls \<Longrightarrow> edge_run cd baseDomain (e\<lparr>eg_cluster := c\<rparr>) ls"

section \<open>The held requests are a limiter\<close>

fun held_count :: "holder \<Rightarrow> session_key \<Rightarrow> int" where
  "held_count h Everyone = hd_total h"
| "held_count h (Identity k) = count_of (hd_perApp h) k"

fun held_cap :: "holder \<Rightarrow> session_key \<Rightarrow> int option" where
  "held_cap h Everyone = Some maxHeldRequests"
| "held_cap h (Identity k) = Some maxHeldPerApp"

lemma held_cap_iff: "held_cap h k = Some (case k of Everyone \<Rightarrow> maxHeldRequests | Identity t \<Rightarrow> maxHeldPerApp)"
  by (cases k) auto

lemma releaseHeld_drop: "releaseHeld h key = h\<lparr>hd_total := hd_total h - 1, hd_perApp := drop_count (hd_perApp h) key\<rparr>"
  by (simp add: releaseHeld_def drop_count_def Let_def fun_upd_idem)

interpretation holds: total_admission admit releaseHeld held_count held_cap
  "\<lambda>h. keyed_charges" "\<lambda>h. tidy (hd_perApp h)" Everyone
proof (unfold_locales, goal_cases)
  case (2 s l s' k) then show ?case
    by (cases k) (auto simp: admit_def counter_simps split: if_splits)
next
  case (3 s l s' k c) then show ?case
    by (cases k) (auto simp: admit_def split: if_splits)
next
  case (8 s l)
  have "keyed_charges l Everyone" "keyed_charges l (Identity l)" by simp_all
  moreover from 8 have "maxHeldRequests \<le> held_count s Everyone \<or> maxHeldPerApp \<le> held_count s (Identity l)"
    by (auto simp: admit_def split: if_splits)
  moreover have "held_cap s Everyone = Some maxHeldRequests" "held_cap s (Identity l) = Some maxHeldPerApp"
    by simp_all
  ultimately show ?case by blast
next
  case (6 s l k)
  have "0 < count_of (hd_perApp s) l" using 6(2) [of "Identity l"] by simp
  with 6 show ?case by (cases k) (auto simp: releaseHeld_drop counter_simps)
qed (auto simp: admit_def releaseHeld_drop counter_simps fun_eq_iff held_cap_iff split: if_splits session_key.splits)

text \<open>The caps count requests, not wakes.\<close>

lemma accounted_waking [simp]: "holds.accounted (h\<lparr>hd_waking := w\<rparr>, ls) = holds.accounted (h, ls)"
proof -
  have "held_count (h\<lparr>hd_waking := w\<rparr>) k = held_count h k" for k by (cases k) simp_all
  moreover have "held_cap (h\<lparr>hd_waking := w\<rparr>) k = held_cap h k" for k by (cases k) simp_all
  ultimately show ?thesis by (simp add: holds.accounted_def holds.live_def)
qed

lemma wakingHere_accounted [simp]:
  "holds.accounted (fst (wakingHere h key now), ls) = holds.accounted (h, ls)"
  by (simp add: wakingHere_def split: option.split)

lemma markWaking_accounted [simp]: "holds.accounted (markWaking h key now, ls) = holds.accounted (h, ls)"
  by (simp add: markWaking_def)

lemma pollEnd_accounted [simp]: "holds.accounted (pollEnd h key, ls) = holds.accounted (h, ls)"
  by (simp add: pollEnd_def)

text \<open>What a request leaves of the parts of the activator.\<close>

lemma startWake_hold [simp]:
  "holds.accounted (eg_hold (fst (startWake m a e)), ls) = holds.accounted (eg_hold e, ls)"
  by (simp add: startWake_def Let_def)

lemma handleWake_hold:
  assumes "handleWake cd m r a e = (e', out)" "holds.accounted (eg_hold e, ls)"
  shows "case out of Done ans \<Rightarrow> holds.accounted (eg_hold e', ls)
    | Held key \<Rightarrow> holds.accounted (eg_hold e', ls @ [(key, True)])"
proof (cases "admit (eg_hold (fst (startWake m a e))) (appKey a)")
  case None
  with assms show ?thesis by (auto simp: handleWake_def Let_def split: if_splits)
next
  case (Some h)
  have "holds.accounted (h, ls @ [(appKey a, True)])"
    using holds.ask_accounted [of "eg_hold (fst (startWake m a e))" ls "appKey a"] assms(2) Some by simp
  with assms Some show ?thesis by (auto simp: handleWake_def Let_def split: if_splits)
qed

lemma handle_hold:
  assumes "handle cd m r e = (e', out)" "holds.accounted (eg_hold e, ls)"
  shows "case out of Done ans \<Rightarrow> holds.accounted (eg_hold e', ls)
    | Held key \<Rightarrow> holds.accounted (eg_hold e', ls @ [(key, True)])"
  using assms handleWake_hold [of cd m r _ e e' out ls]
  by (auto simp: handle_def split: option.splits if_splits prod.splits)

lemma edge_run_accounted: "edge_run cd baseDomain e ls \<Longrightarrow> holds.accounted (eg_hold e, ls)"
proof (induction rule: edge_run.induct)
  case (Start c)
  have "held_count newHolder k = 0" for k by (cases k) (simp_all add: newHolder_def counter_simps)
  then show ?case using holds.fresh_accounted [of newHolder] by (simp add: newHolder_def counter_simps)
next
  case (Answer e ls m r e' ans)
  then show ?case using handle_hold [of cd m r e e' "Done ans" ls] by simp
next
  case (Hold e ls m r e' key)
  then show ?case using handle_hold [of cd m r e e' "Held key" ls] by simp
next
  case (Resolve e ls i key w p e' ans)
  then show ?case using holds.release_accounted [of "eg_hold e" ls i] by (auto simp: resolveHeld_def)
qed simp_all

section \<open>The pages\<close>

lemma oldestPage_member:
  "oldestPage ps best = Some (k, t) \<Longrightarrow> k \<in> fst ` set ps \<or> best = Some (k, t)"
proof (induction ps best rule: oldestPage.induct)
  case (2 k' e ps best)
  then show ?case by (cases best) (auto split: if_splits)
qed simp

lemma oldestPage_None: "oldestPage ps best = None \<Longrightarrow> ps = [] \<and> best = None"
proof (induction ps best rule: oldestPage.induct)
  case (2 k' e ps best)
  then show ?case by (cases best) (auto split: if_splits)
qed simp

lemma dropPage_shrinks: "k \<in> fst ` set ps \<Longrightarrow> length (dropPage k ps) < length ps"
  by (auto simp: dropPage_def intro!: length_filter_less)

lemma dropPage_length: "length (dropPage k ps) \<le> length ps"
  by (simp add: dropPage_def)

lemma dropPage_distinct: "distinct (map fst ps) \<Longrightarrow> distinct (map fst (dropPage k ps)) \<and> k \<notin> fst ` set (dropPage k ps)"
  by (auto simp: dropPage_def distinct_map_filter)

lemma storePage_bounded:
  assumes "length ps \<le> customPageMaxEntries" "distinct (map fst ps)"
  shows "length (storePage ps key e) \<le> customPageMaxEntries \<and> distinct (map fst (storePage ps key e))"
proof (cases "customPageMaxEntries \<le> length ps")
  case True
  have pos: "0 < customPageMaxEntries" by (simp add: customPageMaxEntries_def)
  obtain k t where old: "oldestPage ps None = Some (k, t)"
    using oldestPage_None [of ps None] True pos by (cases "oldestPage ps None") auto
  then have "k \<in> fst ` set ps" using oldestPage_member [OF old] by simp
  then have "length (dropPage k ps) < length ps" by (rule dropPage_shrinks)
  then show ?thesis
    using True old assms dropPage_length [of key "dropPage k ps"] dropPage_distinct [of ps k]
      dropPage_distinct [of "dropPage k ps" key]
    by (auto simp: storePage_def)
next
  case False
  then show ?thesis
    using assms dropPage_length [of key ps] dropPage_distinct [of ps key] by (auto simp: storePage_def)
qed

definition pages_ok :: "pages \<Rightarrow> bool" where
  "pages_ok ps \<longleftrightarrow> length ps \<le> customPageMaxEntries \<and> distinct (map fst ps)"

lemma serveMaintenance_pages:
  assumes "serveMaintenance cd platformHost web slot now doneAt a ps = (ps', urls, page)" "pages_ok ps"
  shows "pages_ok ps'"
proof -
  have "pages_ok (storePage ps key e)" for key e
    using assms(2) storePage_bounded [of ps key e] by (simp add: pages_ok_def)
  with assms show ?thesis
    by (auto simp: serveMaintenance_def fetchPage_def Let_def split: option.splits if_splits prod.splits)
qed

lemma startWake_pages [simp]: "eg_pages (fst (startWake m a e)) = eg_pages e"
  by (simp add: startWake_def Let_def)

lemma startWake_index [simp]: "eg_index (fst (startWake m a e)) = eg_index e"
  by (simp add: startWake_def Let_def)

lemma handleWake_keeps:
  assumes "handleWake cd m r a e = (e', out)"
  shows "eg_pages e' = eg_pages e" "eg_index e' = eg_index e" "eg_cluster e' = eg_cluster (fst (startWake m a e))"
  using assms by (auto simp: handleWake_def Let_def split: option.splits if_splits)

lemma handle_pages:
  assumes "handle cd m r e = (e', out)" "pages_ok (eg_pages e)"
  shows "pages_ok (eg_pages e')"
  using assms handleWake_keeps(1) [of cd m r _ e e' out]
    serveMaintenance_pages [of cd "claims cd (eg_index e)" "mo_web m" "mo_slot m" "mo_now m" "mo_doneAt m" _ "eg_pages e"]
  by (auto simp: handle_def split: option.splits if_splits prod.splits)

lemma handle_index:
  assumes "handle cd m r e = (e', out)"
  shows "eg_index e' = eg_index e"
  using assms handleWake_keeps(2) [of cd m r _ e e' out]
  by (auto simp: handle_def split: option.splits if_splits prod.splits)

lemma edge_run_pages: "edge_run cd baseDomain e ls \<Longrightarrow> pages_ok (eg_pages e)"
  by (induction rule: edge_run.induct) (auto simp: pages_ok_def [of "[]"] resolveHeld_def intro: handle_pages)

section \<open>The index\<close>

definition owns :: "codec \<Rightarrow> string \<Rightarrow> pub_app \<Rightarrow> string \<Rightarrow> bool" where
  "owns cd baseDomain a h \<longleftrightarrow> \<not> p_deleted a
     \<and> (h \<in> set (appHosts cd a) \<or> baseDomain \<noteq> [] \<and> h \<in> requestHost cd ` set (effectiveHosts a baseDomain))"

lemma indexApp_owns:
  "indexApp cd baseDomain a next h = (if owns cd baseDomain a h then Some a else next h)"
  by (auto simp: indexApp_def owns_def Let_def)

lemma fold_indexApp:
  "fold (indexApp cd baseDomain) apps next h =
     (case filter (\<lambda>a. owns cd baseDomain a h) (rev apps) of [] \<Rightarrow> next h | a # _ \<Rightarrow> Some a)"
  by (induction apps arbitrary: "next") (auto simp: indexApp_owns split: list.splits if_splits)

lemma refresh_owns:
  assumes "refreshOnce cd baseDomain (Some apps) index h = Some a"
  shows "a \<in> set apps \<and> owns cd baseDomain a h"
  using assms by (auto simp: refreshOnce_def fold_indexApp split: list.splits dest: filter_eq_ConsD)
    (auto dest!: arg_cong [where f = set])

lemma edge_run_index:
  "edge_run cd baseDomain e ls \<Longrightarrow> eg_index e h = Some a \<Longrightarrow> owns cd baseDomain a h"
proof (induction rule: edge_run.induct)
  case (Answer e ls m r e' ans)
  then show ?case using handle_index by metis
next
  case (Hold e ls m r e' key)
  then show ?case using handle_index by metis
next
  case (Refresh e ls listed)
  then show ?case
    by (cases listed) (auto simp: refreshOnce_def dest: refresh_owns [unfolded refreshOnce_def, simplified])
qed (auto simp: resolveHeld_def)

section \<open>The fetches of custom pages\<close>

definition canonicalHost :: "codec \<Rightarrow> url \<Rightarrow> string" where
  "canonicalHost cd u = to_lower (cd_lower cd) (trim_suffix ''.'' (u_host u))"

definition confined :: "codec \<Rightarrow> (string \<Rightarrow> bool) \<Rightarrow> pub_app \<Rightarrow> url \<Rightarrow> bool" where
  "confined cd platformHost a u \<longleftrightarrow> u_host u \<noteq> [] \<and> u_scheme u \<in> {''http'', ''https''} \<and> \<not> u_user u
     \<and> canonicalHost cd u \<notin> set (appHosts cd a) \<and> \<not> platformHost (canonicalHost cd u)"

lemma validate_confined: "validateCustomPageURL cd platformHost a raw = Some u \<Longrightarrow> confined cd platformHost a u"
  by (auto simp: validateCustomPageURL_def confined_def canonicalHost_def Let_def split: option.splits if_splits)

lemma fetchOrigin_confined:
  "fetchOrigin cd platformHost a web n u = (urls, page) \<Longrightarrow> confined cd platformHost a u
     \<Longrightarrow> length urls \<le> Suc n \<and> (\<forall>v \<in> set urls. confined cd platformHost a v)"
proof (induction n arbitrary: u urls page)
  case 0
  then show ?case by (subst (asm) fetchOrigin.simps) (auto split: hop.splits)
next
  case (Suc n)
  show ?case
  proof (cases "web (u_text u)")
    case (Redirect target)
    show ?thesis
    proof (cases "validateCustomPageURL cd platformHost a target")
      case None
      with Suc.prems Redirect show ?thesis by (subst (asm) fetchOrigin.simps) auto
    next
      case (Some u')
      obtain urls' page' where rest: "fetchOrigin cd platformHost a web n u' = (urls', page')" by fastforce
      have "urls = u # urls'" using Suc.prems(1) Redirect Some rest by (subst (asm) fetchOrigin.simps) simp
      then show ?thesis using Suc.IH [OF rest validate_confined [OF Some]] Suc.prems(2) by simp
    qed
  qed (use Suc.prems in \<open>auto simp: fetchOrigin.simps [of _ _ _ _ "Suc n"]\<close>)
qed

text \<open>Whatever the origin redirects to, the activator requests at most six URLs for a maintenance page,
  each an absolute URL without credentials whose host is none of the App's own hosts and is not routed to
  any App of the index.\<close>

theorem maintenance_fetch_confined:
  assumes "serveMaintenance cd (claims cd index) web slot now doneAt a ps = (ps', urls, page)" "u \<in> set urls"
  shows "length urls \<le> 6 \<and> u_scheme u \<in> {''http'', ''https''} \<and> \<not> u_user u
    \<and> canonicalHost cd u \<notin> set (appHosts cd a) \<and> lookupHost cd index (canonicalHost cd u) = None"
proof -
  obtain u0 raw where u0: "validateCustomPageURL cd (claims cd index) a raw = Some u0"
    and run: "urls = fst (fetchOrigin cd (claims cd index) a web maxRedirects u0)"
    using assms by (auto simp: serveMaintenance_def fetchPage_def Let_def split: option.splits if_splits prod.splits)
  have "length urls \<le> Suc maxRedirects \<and> (\<forall>v \<in> set urls. confined cd (claims cd index) a v)"
    using fetchOrigin_confined [OF _ validate_confined [OF u0], of web maxRedirects urls] run by (simp add: prod_eq_iff)
  then show ?thesis
    using assms(2) by (auto simp: confined_def maxRedirects_def claims_def lookupHost_def)
qed

section \<open>Whom a request wakes\<close>

definition wakeable :: "request \<Rightarrow> pub_app \<Rightarrow> bool" where
  "wakeable r a \<longleftrightarrow> publiclyRoutable a \<and> \<not> maintenanceEnabled a \<and> \<not> a_suspended a \<and> a_type a \<noteq> ''static_site''
     \<and> (a_activeRevision a \<noteq> [] \<or> p_phase a = ''Hibernated'') \<and> \<not> (p_phase a = ''Hibernated'' \<and> isRobotsRequest r)"

text \<open>A request leaves every other App and Deployment alone and, of its own, writes the two stamps and
  raises a Deployment at zero to one.\<close>

definition only_woken :: "app_key \<Rightarrow> cluster \<Rightarrow> cluster \<Rightarrow> bool" where
  "only_woken k c c' \<longleftrightarrow>
     (\<forall>k'. k' \<noteq> k \<longrightarrow> cl_apps c' k' = cl_apps c k' \<and> cl_deps c' k' = cl_deps c k')
     \<and> (case cl_apps c k of None \<Rightarrow> cl_apps c' k = None
        | Some live \<Rightarrow> \<exists>t t'. cl_apps c' k = Some (live\<lparr>p_lastActive := t, p_wakeStarted := t'\<rparr>))
     \<and> (cl_deps c' k = cl_deps c k
        \<or> cl_deps c' k = Some (Some 1) \<and> (cl_deps c k = Some None \<or> (\<exists>n < 1. cl_deps c k = Some (Some n))))"

lemma stampAnnotations_shape:
  "\<exists>t t'. stampAnnotations now cached live = live\<lparr>p_lastActive := t, p_wakeStarted := t'\<rparr>"
  by (cases live) (auto simp: stampAnnotations_def Let_def)

lemma same_annotations: "\<exists>t t'. live = live\<lparr>p_lastActive := t, p_wakeStarted := t'\<rparr>"
  by (rule exI [of _ "p_lastActive live"], rule exI [of _ "p_wakeStarted live"]) simp

lemma only_woken_refl: "only_woken k c c"
  using same_annotations by (auto simp: only_woken_def split: option.splits)

text \<open>The two writes of a wake, one by one.\<close>

definition wakeStamp :: "int \<Rightarrow> wake_faults \<Rightarrow> pub_app \<Rightarrow> cluster \<Rightarrow> cluster" where
  "wakeStamp now f a c =
     (case cl_apps c (objectKey a) of
        None \<Rightarrow> c
      | Some live \<Rightarrow> if wf_stampFails f then c
          else c\<lparr>cl_apps := (cl_apps c)(objectKey a \<mapsto> stampAnnotations now a live)\<rparr>)"

definition wakeScale :: "wake_faults \<Rightarrow> pub_app \<Rightarrow> cluster \<Rightarrow> cluster" where
  "wakeScale f a c =
     (case cl_deps c (objectKey a) of
        None \<Rightarrow> c
      | Some r \<Rightarrow> if \<not> wf_getFails f \<and> (case r of None \<Rightarrow> True | Some n \<Rightarrow> n < 1) \<and> \<not> wf_scaleFails f
          then c\<lparr>cl_deps := (cl_deps c)(objectKey a \<mapsto> Some 1)\<rparr> else c)"

lemma wakeApp_cluster: "fst (wakeApp now f a c) = wakeScale f a (wakeStamp now f a c)"
  by (auto simp: wakeApp_def wakeStamp_def wakeScale_def Let_def split: option.splits)

lemma wakeApp_only_woken: "only_woken (objectKey a) c (fst (wakeApp now f a c))"
proof -
  let ?k = "objectKey a"
  have stamp: "cl_deps (wakeStamp now f a c) = cl_deps c"
    "\<And>k'. k' \<noteq> ?k \<Longrightarrow> cl_apps (wakeStamp now f a c) k' = cl_apps c k'"
    "cl_apps c ?k = None \<Longrightarrow> cl_apps (wakeStamp now f a c) ?k = None"
    by (auto simp: wakeStamp_def split: option.splits)
  have live: "\<exists>t t'. cl_apps (wakeStamp now f a c) ?k = Some (l\<lparr>p_lastActive := t, p_wakeStarted := t'\<rparr>)"
    if "cl_apps c ?k = Some l" for l
    using that stampAnnotations_shape [of now a l] same_annotations [of l] by (auto simp: wakeStamp_def)
  have scale: "cl_apps (wakeScale f a d) = cl_apps d"
    "\<And>k'. k' \<noteq> ?k \<Longrightarrow> cl_deps (wakeScale f a d) k' = cl_deps d k'"
    "cl_deps (wakeScale f a d) ?k = cl_deps d ?k
       \<or> cl_deps (wakeScale f a d) ?k = Some (Some 1) \<and> (cl_deps d ?k = Some None \<or> (\<exists>n < 1. cl_deps d ?k = Some (Some n)))"
    for d
    by (auto simp: wakeScale_def split: option.splits)
  show ?thesis
    unfolding only_woken_def wakeApp_cluster
    using stamp live scale(1,2) scale(3) [of "wakeStamp now f a c"] by (auto split: option.splits)
qed

lemma startWake_cluster:
  "eg_cluster (fst (startWake m a e)) =
     (if wf_joined (mo_wake m) then eg_cluster e else fst (wakeApp (mo_now m) (mo_wake m) a (eg_cluster e)))"
  by (simp add: startWake_def Let_def)

lemma handle_cluster:
  assumes "handle cd m r e = (e', out)" "eg_cluster e' \<noteq> eg_cluster e"
  obtains a where "lookupHost cd (eg_index e) (requestHost cd (rq_host r)) = Some a" "wakeable r a"
    "handleWake cd m r a e = (e', out)"
  using assms by (auto simp: handle_def wakeable_def split: option.splits if_splits prod.splits)

lemma handle_only_woken:
  assumes "handle cd m r e = (e', out)" "eg_cluster e' \<noteq> eg_cluster e"
  shows "\<exists>a. lookupHost cd (eg_index e) (requestHost cd (rq_host r)) = Some a \<and> wakeable r a
    \<and> only_woken (objectKey a) (eg_cluster e) (eg_cluster e')"
proof -
  obtain a where a: "lookupHost cd (eg_index e) (requestHost cd (rq_host r)) = Some a" "wakeable r a"
    "handleWake cd m r a e = (e', out)"
    using handle_cluster [OF assms] .
  have "only_woken (objectKey a) (eg_cluster e) (eg_cluster e')"
    using handleWake_keeps(3) [OF a(3)] wakeApp_only_woken only_woken_refl by (simp add: startWake_cluster)
  with a show ?thesis by blast
qed

text \<open>C30: a request changes the cluster only when its host belongs to a live App of the index that is public,
  not in maintenance, not suspended, not a static site, has served or sleeps, and is not asked for its
  robots file while it sleeps. Then it writes that App's two stamps and raises its Deployment from zero
  to one; nothing else is touched.\<close>

theorem wakes_only_its_sleeper:
  assumes "edge_run cd baseDomain e ls" "handle cd m r e = (e', out)" "eg_cluster e' \<noteq> eg_cluster e"
  shows "\<exists>a. owns cd baseDomain a (requestHost cd (requestHost cd (rq_host r))) \<and> wakeable r a
    \<and> only_woken (objectKey a) (eg_cluster e) (eg_cluster e')"
  using handle_only_woken [OF assms(2,3)] edge_run_index [OF assms(1)] by (auto simp: lookupHost_def)

text \<open>C31: in any run of the activator the requests it holds number at most 256, those for one App at most 64,
  its counters are exactly these numbers and keep no entry for an App without one, and it caches at most
  256 maintenance pages.\<close>

theorem activator_bounded:
  assumes "edge_run cd baseDomain e ls"
  shows "hd_total (eg_hold e) = int (length (filter snd ls)) \<and> hd_total (eg_hold e) \<le> 256
    \<and> count_of (hd_perApp (eg_hold e)) key = int (length (filter (\<lambda>x. snd x \<and> fst x = key) ls))
    \<and> count_of (hd_perApp (eg_hold e)) key \<le> 64
    \<and> ((\<forall>x \<in> set ls. \<not> snd x) \<longrightarrow> hd_perApp (eg_hold e) = Map.empty)
    \<and> length (eg_pages e) \<le> 256"
proof -
  have acc: "holds.accounted (eg_hold e, ls)" using edge_run_accounted [OF assms] .
  have count: "held_count (eg_hold e) k = int (holds.live (eg_hold e) ls k)" for k
    using acc by (simp add: holds.accounted_def)
  have cap: "held_count (eg_hold e) k \<le> c" if "held_cap (eg_hold e) k = Some c" "0 \<le> c" for k c
    using acc that unfolding holds.accounted_def fst_conv by blast
  have "hd_perApp (eg_hold e) = Map.empty" if "\<forall>x \<in> set ls. \<not> snd x"
  proof (rule tidy_zero_empty)
    show "tidy (hd_perApp (eg_hold e))" using acc by (simp add: holds.accounted_def)
    fix k
    have "filter (\<lambda>x. snd x \<and> fst x = k) ls = []" using that by (simp add: filter_empty_conv)
    then show "count_of (hd_perApp (eg_hold e)) k = 0"
      using count [of "Identity k"] by (simp add: holds.live_def)
  qed
  moreover have "length (eg_pages e) \<le> 256"
    using edge_run_pages [OF assms] by (simp add: pages_ok_def customPageMaxEntries_def)
  moreover have "hd_total (eg_hold e) \<le> 256" "count_of (hd_perApp (eg_hold e)) key \<le> 64"
    using cap [of Everyone 256] cap [of "Identity key" 64] by (simp_all add: maxHeldRequests_def maxHeldPerApp_def)
  ultimately show ?thesis
    using count [of Everyone] count [of "Identity key"] by (simp add: holds.live_def)
qed

section \<open>Witnesses\<close>

definition ex_codec :: codec where
  "ex_codec = \<lparr>cd_url = (\<lambda>s. if s = ''http://p.q'' then Some \<lparr>u_scheme = ''http'', u_host = ''p.q'', u_user = False, u_text = s\<rparr>
       else None),
     cd_media = (\<lambda>s. None), cd_positive = (\<lambda>q. False), cd_lower = id, cd_fold = (=)\<rparr>"

definition ex_sleeper :: pub_app where
  "ex_sleeper = \<lparr>a_suspended = False, a_type = [], a_generation = 1, a_wakeGeneration = [], a_activeRevision = ''rev-1'',
     a_releaseGeneration = 1, a_observedGeneration = 1, a_fingerprints = True, a_conditions = [], a_preDeploy = None,
     a_hasPreDeployStep = False, p_namespace = ''ws'', p_name = ''web'', p_tier = ''free'', p_idleTTL = 0, p_replicas = 1,
     p_maintenance = None, p_host = ''a.x'', p_hosts = [], p_expose = False, p_subdomain = [], p_subdomainPolicy = [],
     p_url = [], p_urls = [], p_phase = ''Hibernated'', p_lastActive = Some 0, p_wakeStarted = None, p_deleted = False\<rparr>"

definition ex_cluster :: cluster where
  "ex_cluster = \<lparr>cl_apps = [objectKey ex_sleeper \<mapsto> ex_sleeper], cl_deps = [objectKey ex_sleeper \<mapsto> Some 0]\<rparr>"

definition ex_edge :: edge where
  "ex_edge = \<lparr>eg_index = refreshOnce ex_codec [] (Some [ex_sleeper]) Map.empty, eg_hold = newHolder, eg_pages = [],
     eg_cluster = ex_cluster\<rparr>"

definition ex_moment :: moment where
  "ex_moment = \<lparr>mo_now = 5000 * sec, mo_wake = \<lparr>wf_joined = False, wf_stampFails = False, wf_getFails = False, wf_scaleFails = False\<rparr>,
     mo_web = (\<lambda>u. Redirect ''http://p.q''), mo_slot = True, mo_doneAt = 5000 * sec\<rparr>"

definition ex_request :: request where
  "ex_request = \<lparr>rq_method = ''GET'', rq_host = ''A.x:80'', rq_path = ''/'', rq_accept = []\<rparr>"

lemma ex_edge_run: "edge_run ex_codec [] ex_edge []"
  using edge_run.Refresh [OF edge_run.Start [where c = ex_cluster], of ex_codec "[]" "Some [ex_sleeper]"]
  by (simp add: ex_edge_def)

lemma ex_hosts: "requestHost ex_codec ''A.x:80'' = ''a.x''" "requestHost ex_codec ''a.x'' = ''a.x''"
    "requestHost ex_codec [] = []" "cd_url ex_codec ''a.x'' = None" "cd_url ex_codec [] = None"
  by code_simp+

lemma ex_index: "eg_index ex_edge ''a.x'' = Some ex_sleeper"
proof -
  have "''a.x'' \<in> set (appHosts ex_codec ex_sleeper)"
    by (simp add: appHosts_def addOwned_def ex_sleeper_def ex_hosts)
  then have "owns ex_codec [] ex_sleeper ''a.x''" by (simp add: owns_def ex_sleeper_def)
  then show ?thesis by (simp add: ex_edge_def refreshOnce_def indexApp_owns)
qed

lemma ex_wake:
  "snd (handle ex_codec ex_moment ex_request ex_edge) = Held ''ws/web''"
  "cl_deps (eg_cluster (fst (handle ex_codec ex_moment ex_request ex_edge))) (objectKey ex_sleeper) = Some (Some 1)"
  using ex_index
  by (simp_all add: handle_def lookupHost_def ex_request_def ex_hosts publiclyRoutable_def typePubliclyRoutable_def
      maintenanceEnabled_def isRobotsRequest_def handleWake_def startWake_def wakeInFlight_def wakeApp_def
      stampAnnotations_def markWaking_def admit_def acceptsHTML_def acceptsMedia_def appKey_def objectKey_def
      ex_sleeper_def ex_edge_def ex_moment_def ex_cluster_def newHolder_def maxHeldRequests_def maxHeldPerApp_def
      count_of_def Let_def)

theorem wakes_only_its_sleeper_witness:
  "\<exists>a. owns ex_codec [] a ''a.x'' \<and> wakeable ex_request a
     \<and> only_woken (objectKey a) ex_cluster (eg_cluster (fst (handle ex_codec ex_moment ex_request ex_edge)))"
proof -
  have "eg_cluster (fst (handle ex_codec ex_moment ex_request ex_edge)) \<noteq> eg_cluster ex_edge"
    using ex_wake(2) by (auto simp: ex_edge_def ex_cluster_def)
  from wakes_only_its_sleeper [OF ex_edge_run prod.collapse [symmetric] this]
  show ?thesis by (simp add: ex_hosts ex_request_def ex_edge_def)
qed

theorem activator_bounded_witness:
  "hd_total (eg_hold (fst (handle ex_codec ex_moment ex_request ex_edge))) = 1
   \<and> hd_total (eg_hold (fst (handle ex_codec ex_moment ex_request ex_edge))) \<le> 256"
proof -
  have "handle ex_codec ex_moment ex_request ex_edge
      = (fst (handle ex_codec ex_moment ex_request ex_edge), Held ''ws/web'')"
    using ex_wake(1) by (simp add: prod_eq_iff)
  from activator_bounded [OF edge_run.Hold [OF ex_edge_run this]] show ?thesis by simp
qed

text \<open>An origin that redirects to itself is asked six times.\<close>

theorem maintenance_fetch_confined_witness:
  "map u_text (fst (snd (serveMaintenance ex_codec (claims ex_codec (eg_index ex_edge)) (\<lambda>u. Redirect ''http://p.q'')
      True 0 1 (ex_sleeper\<lparr>p_maintenance := Some \<lparr>mm_enabled = True, mm_uri = ''http://p.q''\<rparr>\<rparr>) [])))
    = replicate 6 ''http://p.q''
   \<and> eg_index ex_edge ''p.q'' = None"
proof -
  let ?a = "ex_sleeper\<lparr>p_maintenance := Some \<lparr>mm_enabled = True, mm_uri = ''http://p.q''\<rparr>\<rparr>"
  let ?u = "\<lparr>u_scheme = ''http'', u_host = ''p.q'', u_user = False, u_text = ''http://p.q''\<rparr>"
  let ?run = "serveMaintenance ex_codec (claims ex_codec (eg_index ex_edge)) (\<lambda>u. Redirect ''http://p.q'') True 0 1 ?a []"
  have canon: "canonicalHost ex_codec ?u = ''p.q''" "requestHost ex_codec ''p.q'' = ''p.q''" by code_simp+
  have out: "eg_index ex_edge ''p.q'' = None" by code_simp
  have own: "''p.q'' \<notin> set (appHosts ex_codec ?a)" by code_simp
  have valid: "validateCustomPageURL ex_codec (claims ex_codec (eg_index ex_edge)) ?a ''http://p.q'' = Some ?u"
    using canon own out
    by (simp add: validateCustomPageURL_def ex_codec_def canonicalHost_def claims_def Let_def)
  have trace: "fst (snd ?run) = replicate 6 ?u"
    by (simp add: serveMaintenance_def fetchPage_def valid freshPage_def maxRedirects_def fetchOrigin.simps eval_nat_numeral)
  have "?u \<in> set (fst (snd ?run))" by (simp add: trace)
  moreover have "?run = (fst ?run, fst (snd ?run), snd (snd ?run))" by simp
  ultimately have "\<not> u_user ?u \<and> lookupHost ex_codec (eg_index ex_edge) (canonicalHost ex_codec ?u) = None"
    using maintenance_fetch_confined by blast
  then
  have "lookupHost ex_codec (eg_index ex_edge) (canonicalHost ex_codec ?u) = None" by simp
  then have "eg_index ex_edge ''p.q'' = None" by (simp only: canon lookupHost_def)
  then show ?thesis by (simp add: trace)
qed

end
