(* ===== verification/SleepWake.thy ===== *)
theory SleepWake
  imports Activator Autoscale
begin

text \<open>
  How a free web service sleeps and wakes: the operator's side (\<open>operator/internal/controller/app_controller.go\<close>
  and \<open>activity.go\<close>) and its interplay with the activator. A pass of the operator plans, writes the
  Deployment, then the Ingress, then the status; each is a call of its own, so a pass can end between any
  two, and requests, pods, owners and clocks move on in between.

  The Ingress is the list of the backends of its paths. What is left of a pass (images, Services,
  middlewares, certificates) is here only as the places where it can end early.
\<close>

section \<open>Decisions of the operator\<close>

definition isFreeApp :: "pub_app \<Rightarrow> bool" where
  "isFreeApp a \<longleftrightarrow> p_tier a = [] \<or> p_tier a = ''free''"

definition defaultIdleTTL :: int where "defaultIdleTTL = 15 * 60 * sec"

definition autoSleepWindow :: "pub_app \<Rightarrow> int" where
  "autoSleepWindow a =
     (if \<not> isFreeApp a then 0 else if 0 < p_idleTTL a then p_idleTTL a * sec else defaultIdleTTL)"

definition isWebService :: "pub_app \<Rightarrow> bool" where
  "isWebService a \<longleftrightarrow> a_type a = [] \<or> a_type a = ''web_service''"

definition autoSleepEligible :: "pub_app \<Rightarrow> bool" where
  "autoSleepEligible a \<longleftrightarrow> isWebService a \<and> \<not> a_suspended a \<and> 0 < autoSleepWindow a"

definition shouldAutoHibernate :: "pub_app \<Rightarrow> int \<Rightarrow> bool" where
  "shouldAutoHibernate a now \<longleftrightarrow>
     autoSleepEligible a \<and> (case p_lastActive a of None \<Rightarrow> False | Some t \<Rightarrow> autoSleepWindow a \<le> now - t)"

definition idleRequeueAfter :: "pub_app \<Rightarrow> int \<Rightarrow> int" where
  "idleRequeueAfter a now =
     (case p_lastActive a of
        None \<Rightarrow> autoSleepWindow a
      | Some t \<Rightarrow> let remaining = t + autoSleepWindow a - now in if remaining < 5 * sec then 5 * sec else remaining)"

definition effectiveReplicas :: "pub_app \<Rightarrow> int" where
  "effectiveReplicas a = (if a_suspended a then 0 else if p_replicas a = 0 then 1 else p_replicas a)"

text \<open>\<open>activator\<close> is whether an activator is configured; \<open>maxInstances\<close> reads the tier catalog.\<close>

record operator =
  op_activator :: bool
  op_maxInstances :: "string \<Rightarrow> int option"
  op_baseDomain :: string

definition instanceCap :: "operator \<Rightarrow> string \<Rightarrow> int option" where
  "instanceCap op tier =
     (case op_maxInstances op tier of None \<Rightarrow> None | Some n \<Rightarrow> if n \<le> 0 then None else Some n)"

definition clampReplicas :: "operator \<Rightarrow> pub_app \<Rightarrow> int \<Rightarrow> int" where
  "clampReplicas op a n =
     (if n \<le> 0 then 0
      else
        let limit = (case instanceCap op (p_tier a) of
              None \<Rightarrow> MaxReplicas | Some c \<Rightarrow> if c < MaxReplicas then c else MaxReplicas)
        in if limit < n then limit else n)"

definition suspendedRoutable :: "operator \<Rightarrow> pub_app \<Rightarrow> bool" where
  "suspendedRoutable op a \<longleftrightarrow> a_suspended a \<and> op_activator op \<and> (isWebService a \<or> a_type a = ''static_site'')"

definition awaitingFirstServe :: "pub_app \<Rightarrow> bool" where
  "awaitingFirstServe a \<longleftrightarrow> a_activeRevision a = [] \<and> publiclyRoutable a"

text \<open>The answer of the metrics reader: there is none, it failed, or the last traffic it saw.\<close>

datatype activity = NoActivityReader | ActivityFailed | LastSeen "int option"

text \<open>The App as the pass goes on with it, and whether it counts as active. \<open>ok\<close> is whether the stamp is written.\<close>

definition recentlyActive :: "activity \<Rightarrow> bool \<Rightarrow> int \<Rightarrow> pub_app \<Rightarrow> pub_app \<times> bool" where
  "recentlyActive ac ok now a =
     (if p_phase a = ''Hibernated'' then (a, False)
      else
        (case ac of
           NoActivityReader \<Rightarrow> (a, False)
         | ActivityFailed \<Rightarrow> (a, True)
         | LastSeen None \<Rightarrow> (a, False)
         | LastSeen (Some t) \<Rightarrow>
             let seen = wholeSeconds t
             in if \<not> (case p_lastActive a of None \<Rightarrow> True | Some l \<Rightarrow> l < seen) then (a, False)
                else if \<not> ok then (a, True)
                else let a' = a\<lparr>p_lastActive := Some seen\<rparr> in (a', \<not> shouldAutoHibernate a' now)))"

text \<open>
  \<open>count\<close> is the replica count the release is configured with or the autoscaler picked. A plan that stops
  a failed first release runs at zero whatever its traffic.
\<close>

definition desiredReplicas :: "operator \<Rightarrow> int \<Rightarrow> activity \<Rightarrow> bool \<Rightarrow> int \<Rightarrow> observation \<Rightarrow> pub_app
    \<Rightarrow> pub_app \<times> int \<times> release_plan" where
  "desiredReplicas op now ac ok count obs a =
     (let f = factsOf obs (app.truncate a) now
      in if firstReleaseFailed f \<and> \<not> suspended f then (a, 0, planRelease f now)
         else
           let maybe = (op_activator op \<and> shouldAutoHibernate a now);
               asked = (maybe \<and> \<not> awaitingVerdict f now);
               read = (if asked then recentlyActive ac ok now a else (a, False));
               f1 = f\<lparr>idle := (if asked then \<not> snd read else maybe), replicas := clampReplicas op a count\<rparr>;
               plan = planRelease f1 now
           in (fst read, if autoHibernating plan then 0 else clampReplicas op a count, plan))"

datatype backend = ToMaintenance | ToActivator | ToOwn

type_synonym ingress = "backend list option"

definition ingressRoutesToActivator :: "ingress \<Rightarrow> bool" where
  "ingressRoutesToActivator ing =
     (case ing of None \<Rightarrow> True | Some bs \<Rightarrow> bs \<noteq> [] \<and> list_all (\<lambda>b. b = ToActivator) bs)"

definition holdHibernateForRouting :: "operator \<Rightarrow> pub_app \<Rightarrow> ingress \<Rightarrow> bool \<Rightarrow> int \<Rightarrow> int \<times> bool" where
  "holdHibernateForRouting op a ing hibernating n =
     (if \<not> hibernating \<or> maintenanceEnabled a then (n, False)
      else if ingressRoutesToActivator ing then (n, False)
      else (clampReplicas op a (effectiveReplicas a), True))"

definition ingressBackend :: "operator \<Rightarrow> pub_app \<Rightarrow> bool \<Rightarrow> bool \<Rightarrow> backend" where
  "ingressBackend op a hibernating serving =
     (if maintenanceEnabled a then ToMaintenance
      else if suspendedRoutable op a then ToActivator
      else if hibernating \<or> (\<not> serving \<and> op_activator op \<and> (autoSleepEligible a \<or> awaitingFirstServe a)) then ToActivator
      else ToOwn)"

text \<open>A host that redirects has no rule in the App's own Ingress.\<close>

definition applyAppIngress :: "operator \<Rightarrow> (string \<Rightarrow> bool) \<Rightarrow> pub_app \<Rightarrow> backend \<Rightarrow> ingress" where
  "applyAppIngress op redirects a b =
     (case effectiveHosts a (op_baseDomain op) of
        [] \<Rightarrow> None
      | hosts \<Rightarrow> Some (map (\<lambda>h. b) (filter (\<lambda>h. \<not> redirects h) hosts)))"

definition activityRecheck :: int where "activityRecheck = 60 * sec"
definition autoscaleInterval :: int where "autoscaleInterval = 30 * sec"
definition childHealthRequeue :: int where "childHealthRequeue = 30 * sec"

text \<open>The App after the first stamp and when the next pass is due; \<open>None\<close> when the stamp fails.\<close>

definition runningRequeue :: "operator \<Rightarrow> bool \<Rightarrow> int \<Rightarrow> bool \<Rightarrow> pub_app \<Rightarrow> (pub_app \<times> int) option" where
  "runningRequeue op ok now scaling a =
     (if op_activator op \<and> autoSleepEligible a then
        if p_lastActive a = None \<and> \<not> ok then None
        else
          let a' = (if p_lastActive a = None then a\<lparr>p_lastActive := Some (wholeSeconds now)\<rparr> else a);
              next = idleRequeueAfter a' now
          in Some (a', if shouldAutoHibernate a' now \<and> next < activityRecheck then activityRecheck else next)
      else Some (a, if scaling then autoscaleInterval else childHealthRequeue))"

text \<open>An awake service is looked at again by the end of its window, or within a minute once it is over.\<close>

lemma runningRequeue_in_time:
  assumes "runningRequeue op ok now scaling a = Some (a', d)" "op_activator op" "autoSleepEligible a"
  obtains t where "p_lastActive a' = Some t" "0 < d" "now + d \<le> max (t + autoSleepWindow a) (now + activityRecheck)"
  using assms
  by (auto simp: runningRequeue_def idleRequeueAfter_def activityRecheck_def sec_def autoSleepWindow_def isFreeApp_def
      Let_def split: if_splits option.splits)

section \<open>Passes and what runs beside them\<close>

text \<open>
  Where a pass is: between passes, after planning, after the Deployment was written (with the readiness
  that call read), after the Ingress was written. It keeps the App it read.
\<close>

datatype pass_stage =
    Idle
  | Planned pub_app release_plan int bool
  | Scaled pub_app release_plan bool bool
  | Routed pub_app release_plan bool

record platform =
  pf_cluster :: cluster
  pf_ready :: bool
  pf_ingress :: ingress
  pf_stage :: pass_stage

definition planStep :: "operator \<Rightarrow> int \<Rightarrow> activity \<Rightarrow> bool \<Rightarrow> int \<Rightarrow> observation \<Rightarrow> ingress \<Rightarrow> pub_app \<Rightarrow> pub_app \<times> pass_stage" where
  "planStep op now ac ok count obs ing a =
     (case desiredReplicas op now ac ok count obs a of
        (a', n, plan) \<Rightarrow>
          (case holdHibernateForRouting op a' ing (autoHibernating plan) n of
             (n', held) \<Rightarrow> (a', Planned a' plan n' held)))"

text \<open>The terminal status of a parked pass; a pass that holds the sleep for the route does not park.\<close>

definition hibernate :: "pub_app \<Rightarrow> pub_app" where
  "hibernate a = a\<lparr>p_phase := ''Hibernated''\<rparr>"

text \<open>
  \<open>k\<close> is the App. \<open>mm\<close> says whether its owner may switch maintenance; suspension and the type stay as they
  are. A stamp or a status write lands only on the App the pass read (\<open>patchAppMeta\<close>, \<open>updateStatus\<close>); the
  plan may be made from an older copy.
\<close>

definition sleepy :: "bool \<Rightarrow> pub_app \<Rightarrow> bool" where
  "sleepy mm a \<longleftrightarrow> isWebService a \<and> \<not> a_suspended a \<and> a_activeRevision a \<noteq> [] \<and> 0 \<le> p_replicas a
     \<and> (mm \<or> \<not> maintenanceEnabled a)"

inductive platform_step :: "operator \<Rightarrow> app_key \<Rightarrow> bool \<Rightarrow> platform \<Rightarrow> platform \<Rightarrow> bool"
  for op :: operator and k :: app_key and mm :: bool where
  Plan: "pf_stage s = Idle \<Longrightarrow> sleepy mm a \<Longrightarrow> 0 < count \<Longrightarrow>
     planStep op now ac ok count obs (pf_ingress s) a = (a', st) \<Longrightarrow>
     a' = a \<and> c = pf_cluster s \<or> cl_apps (pf_cluster s) k = Some a \<and>
       c = (pf_cluster s)\<lparr>cl_apps := (cl_apps (pf_cluster s))(k \<mapsto> a')\<rparr> \<Longrightarrow>
     platform_step op k mm s (s\<lparr>pf_cluster := c, pf_stage := st\<rparr>)"
| WakeForRelease: "pf_stage s = Planned a plan n held \<Longrightarrow> act plan = ActWake \<Longrightarrow> cl_apps (pf_cluster s) k = Some a \<Longrightarrow>
     platform_step op k mm s (s\<lparr>pf_stage := Idle,
       pf_cluster := (pf_cluster s)\<lparr>cl_apps := (cl_apps (pf_cluster s))
         (k \<mapsto> a\<lparr>p_lastActive := Some (wholeSeconds now), a_wakeGeneration := show_int (releaseGeneration (app.truncate a))\<rparr>)\<rparr>\<rparr>)"
| Scale: "pf_stage s = Planned a plan n held \<Longrightarrow> act plan \<noteq> ActWake \<Longrightarrow>
     platform_step op k mm s (s\<lparr>pf_stage := Scaled a plan held (pf_ready s),
       pf_cluster := (pf_cluster s)\<lparr>cl_deps := (cl_deps (pf_cluster s))(k \<mapsto> Some n)\<rparr>\<rparr>)"
| Route: "pf_stage s = Scaled a plan held serving \<Longrightarrow>
     platform_step op k mm s (s\<lparr>pf_stage := Routed a plan held,
       pf_ingress := applyAppIngress op redirects a (ingressBackend op a (autoHibernating plan) serving)\<rparr>)"
| Park: "pf_stage s = Routed a plan held \<Longrightarrow> parked plan \<Longrightarrow> \<not> held \<Longrightarrow> cl_apps (pf_cluster s) k = Some a \<Longrightarrow>
     platform_step op k mm s (s\<lparr>pf_stage := Idle,
       pf_cluster := (pf_cluster s)\<lparr>cl_apps := (cl_apps (pf_cluster s))(k \<mapsto> hibernate a)\<rparr>\<rparr>)"
| End: "platform_step op k mm s (s\<lparr>pf_stage := Idle\<rparr>)"
| Stamp: "platform_step op k mm s (s\<lparr>pf_cluster := wakeStamp now f a (pf_cluster s)\<rparr>)"
| ScaleUp: "platform_step op k mm s (s\<lparr>pf_cluster := wakeScale f a (pf_cluster s)\<rparr>)"
| Ready: "platform_step op k mm s (s\<lparr>pf_ready := b\<rparr>)"
| Edit: "sleepy mm a \<Longrightarrow>
     platform_step op k mm s (s\<lparr>pf_cluster := (pf_cluster s)\<lparr>cl_apps := (cl_apps (pf_cluster s))(k \<mapsto> a)\<rparr>\<rparr>)"

inductive platform_run :: "operator \<Rightarrow> app_key \<Rightarrow> bool \<Rightarrow> platform \<Rightarrow> platform \<Rightarrow> bool"
  for op :: operator and k :: app_key and mm :: bool and s0 :: platform where
  Start: "platform_run op k mm s0 s0"
| Step: "platform_run op k mm s0 s \<Longrightarrow> platform_step op k mm s s' \<Longrightarrow> platform_run op k mm s0 s'"

section \<open>The route of a sleeping service\<close>

definition runs_pods :: "int option option \<Rightarrow> bool" where
  "runs_pods d \<longleftrightarrow> (case d of None \<Rightarrow> True | Some None \<Rightarrow> True | Some (Some n) \<Rightarrow> 0 < n)"

definition names_own :: "ingress \<Rightarrow> bool" where
  "names_own ing \<longleftrightarrow> (case ing of None \<Rightarrow> False | Some bs \<Rightarrow> ToOwn \<in> set bs)"

definition backed :: "app_key \<Rightarrow> platform \<Rightarrow> bool" where
  "backed k s \<longleftrightarrow> (names_own (pf_ingress s) \<longrightarrow> runs_pods (cl_deps (pf_cluster s) k))"

fun stage_ok :: "app_key \<Rightarrow> platform \<Rightarrow> pass_stage \<Rightarrow> bool" where
  "stage_ok k s Idle \<longleftrightarrow> True"
| "stage_ok k s (Planned a plan n held) \<longleftrightarrow> sleepy False a
     \<and> (n \<le> 0 \<longrightarrow> autoHibernating plan \<and> \<not> names_own (pf_ingress s))"
| "stage_ok k s (Scaled a plan held serving) \<longleftrightarrow> sleepy False a
     \<and> (\<not> autoHibernating plan \<longrightarrow> runs_pods (cl_deps (pf_cluster s) k))"
| "stage_ok k s (Routed a plan held) \<longleftrightarrow> True"

definition platform_ok :: "app_key \<Rightarrow> platform \<Rightarrow> bool" where
  "platform_ok k s \<longleftrightarrow> backed k s \<and> stage_ok k s (pf_stage s)"

lemma clampReplicas_pos: "0 < n \<Longrightarrow> 0 < clampReplicas op a n"
  by (auto simp: clampReplicas_def instanceCap_def MaxReplicas_def Let_def split: option.splits if_splits)

lemma effectiveReplicas_pos: "sleepy mm a \<Longrightarrow> 0 < effectiveReplicas a"
  by (auto simp: sleepy_def effectiveReplicas_def)

lemma served_not_stopped: "a_activeRevision a \<noteq> [] \<Longrightarrow> \<not> firstReleaseFailed (factsOf obs (app.truncate a) now)"
proof -
  assume "a_activeRevision a \<noteq> []"
  then show ?thesis by (simp add: failedFirstRelease_def releaseHasServed_def app.truncate_def)
qed

lemma sleepy_lastActive [simp]: "sleepy mm (a\<lparr>p_lastActive := t\<rparr>) = sleepy mm a"
  by (simp add: sleepy_def isWebService_def maintenanceEnabled_def)

lemma sleepy_recentlyActive: "sleepy mm (fst (recentlyActive ac ok now a)) = sleepy mm a"
  by (simp add: recentlyActive_def Let_def split: activity.split option.split)

lemma desiredReplicas_served:
  assumes "desiredReplicas op now ac ok count obs a = (a', n, plan)" "sleepy mm a" "0 < count"
  shows "sleepy mm a'" "autoHibernating plan \<and> n = 0 \<or> \<not> autoHibernating plan \<and> 0 < n"
proof -
  have "a_activeRevision a \<noteq> []" using assms(2) by (simp add: sleepy_def)
  note go = served_not_stopped [OF this]
  show "sleepy mm a'"
    using assms(1,2) go sleepy_recentlyActive by (auto simp: desiredReplicas_def Let_def)
  show "autoHibernating plan \<and> n = 0 \<or> \<not> autoHibernating plan \<and> 0 < n"
    using assms(1) go clampReplicas_pos [OF assms(3)] by (auto simp: desiredReplicas_def Let_def split: if_splits)
qed

lemma routes_not_own: "ingressRoutesToActivator ing \<Longrightarrow> \<not> names_own ing"
  by (auto simp: ingressRoutesToActivator_def names_own_def list_all_iff split: option.splits)

lemma planStep_served:
  assumes "planStep op now ac ok count obs ing a = (a', st)" "sleepy mm a" "0 < count"
  obtains plan n held where "st = Planned a' plan n held" "sleepy mm a'"
    "n \<le> 0 \<longrightarrow> autoHibernating plan \<and> (maintenanceEnabled a' \<or> \<not> names_own ing)"
proof -
  obtain a1 n1 plan where d: "desiredReplicas op now ac ok count obs a = (a1, n1, plan)" by (cases "desiredReplicas op now ac ok count obs a")
  obtain n held where h: "holdHibernateForRouting op a1 ing (autoHibernating plan) n1 = (n, held)" by fastforce
  have a1: "a1 = a'" "st = Planned a' plan n held" using assms(1) d h by (auto simp: planStep_def)
  note ds = desiredReplicas_served [OF d assms(2,3)]
  have "autoHibernating plan \<and> (maintenanceEnabled a' \<or> \<not> names_own ing)" if "n \<le> 0"
    using that h ds clampReplicas_pos [OF effectiveReplicas_pos [OF ds(1)], of op a1] routes_not_own [of ing] a1(1)
    by (auto simp: holdHibernateForRouting_def split: if_splits)
  then show thesis using that a1 ds(1) by blast
qed

lemma wakeScale_pods: "runs_pods (cl_deps c k) \<Longrightarrow> runs_pods (cl_deps (wakeScale f a c) k)"
  by (auto simp: wakeScale_def runs_pods_def split: option.splits)

lemma wakeStamp_deps [simp]: "cl_deps (wakeStamp now f a c) = cl_deps c"
  by (simp add: wakeStamp_def split: option.split)

lemma stage_ok_mono:
  assumes "stage_ok k s st" "pf_ingress s' = pf_ingress s"
    "runs_pods (cl_deps (pf_cluster s) k) \<Longrightarrow> runs_pods (cl_deps (pf_cluster s') k)"
  shows "stage_ok k s' st"
  using assms by (cases st) auto

lemma own_route:
  "names_own (applyAppIngress op redirects a (ingressBackend op a hib serving)) \<Longrightarrow> \<not> hib"
  by (auto simp: names_own_def applyAppIngress_def ingressBackend_def split: list.splits option.splits if_splits)

lemma platform_step_ok:
  assumes "platform_step op k False s s'" "platform_ok k s"
  shows "platform_ok k s'"
  using assms
proof (cases rule: platform_step.cases)
  case (Plan a count now ac ok obs a' st c)
  obtain plan n held where st: "st = Planned a' plan n held" "sleepy False a'"
    "n \<le> 0 \<longrightarrow> autoHibernating plan \<and> (maintenanceEnabled a' \<or> \<not> names_own (pf_ingress s))"
    using planStep_served [OF Plan(5,3,4)] .
  have "cl_deps c = cl_deps (pf_cluster s)" using Plan(6) by auto
  with st assms(2) Plan(1) show ?thesis by (auto simp: platform_ok_def backed_def sleepy_def)
next
  case (Scale a plan n held)
  have "runs_pods (Some (Some n)) \<longleftrightarrow> 0 < n" by (simp add: runs_pods_def)
  with Scale assms(2) show ?thesis by (auto simp: platform_ok_def backed_def not_less)
next
  case (Route a plan held serving redirects)
  with assms(2) own_route [of op redirects a "autoHibernating plan" serving] show ?thesis
    by (auto simp: platform_ok_def backed_def)
next
  case (ScaleUp f a)
  with assms(2) wakeScale_pods [of "pf_cluster s" k f a] stage_ok_mono [of k s "pf_stage s" s'] show ?thesis
    by (auto simp: platform_ok_def backed_def)
qed (use assms(2) in \<open>auto simp: platform_ok_def backed_def elim: stage_ok_mono\<close>)

text \<open>C32: take a web service that has served, is asked for a positive count of replicas and that its owner neither suspends nor
  puts under maintenance, in a state where no pass is under way and the route, if it names the service's own Service, is
  backed. Then the public route names the service's own Service only while its Deployment asks for at least one pod.
  This holds after every single API call of the operator and of any activator, however passes, wakes, the other edits,
  failures and readiness interleave. (With maintenance switched on it fails: \<open>maintenance_drains_routed_service\<close>.)\<close>

theorem own_route_is_backed:
  assumes "platform_run op k False s0 s" "pf_stage s0 = Idle" "backed k s0"
  shows "names_own (pf_ingress s) \<longrightarrow> runs_pods (cl_deps (pf_cluster s) k)"
proof -
  have "platform_ok k s"
    using assms
  proof (induction rule: platform_run.induct)
    case Start
    then show ?case by (simp add: platform_ok_def)
  next
    case (Step s s')
    then show ?case using platform_step_ok by blast
  qed
  then show ?thesis by (simp add: platform_ok_def backed_def)
qed

section \<open>A wake lasts\<close>

lemma awake_stays_up:
  assumes "a_activeRevision a \<noteq> []" "\<not> shouldAutoHibernate a now" "0 < count"
    and "desiredReplicas op now ac ok count obs a = (a', n, plan)"
  shows "0 < n \<and> \<not> autoHibernating plan"
  using assms(4) served_not_stopped [OF assms(1)] assms(2) clampReplicas_pos [OF assms(3)]
  by (auto simp: desiredReplicas_def planRelease_def Let_def)

lemma wakeApp_stamps:
  assumes "cl_apps c (objectKey a) = Some a" "cl_deps c (objectKey a) = Some d"
    and "\<not> wf_stampFails f" "\<not> wf_getFails f" "\<not> wf_scaleFails f"
  shows "\<exists>live. cl_apps (fst (wakeApp now f a c)) (objectKey a) = Some live \<and> p_lastActive live = Some (wholeSeconds now)
      \<and> a_activeRevision live = a_activeRevision a \<and> autoSleepWindow live = autoSleepWindow a"
    and "runs_pods (cl_deps (fst (wakeApp now f a c)) (objectKey a))"
  using assms
  by (auto simp: wakeApp_cluster wakeStamp_def wakeScale_def stampAnnotations_def runs_pods_def autoSleepWindow_def
      isFreeApp_def Let_def split: option.splits)

text \<open>C33: a request that wakes a service is honoured. The service may be woken (\<open>wakeable\<close>) and has served, its Deployment exists, the activator's copy of
  its App is the current one, and the request starts the wake itself, rather than joining one, with each of its calls
  succeeding. Then it leaves a Deployment that asks for a pod, and whatever the metrics, the release and the autoscaler
  say, no pass made from the App it stamped before the idle window is over again, and asking for a positive count of
  replicas, plans fewer than one.\<close>

theorem wake_is_honoured:
  assumes "handle cd m r e = (e', out)" "lookupHost cd (eg_index e) (requestHost cd (rq_host r)) = Some a"
    and "wakeable r a" "a_activeRevision a \<noteq> []"
    and "cl_apps (eg_cluster e) (objectKey a) = Some a" "cl_deps (eg_cluster e) (objectKey a) = Some d"
    and "\<not> wf_joined (mo_wake m)" "\<not> wf_stampFails (mo_wake m)" "\<not> wf_getFails (mo_wake m)" "\<not> wf_scaleFails (mo_wake m)"
  shows "\<exists>live. cl_apps (eg_cluster e') (objectKey a) = Some live \<and> runs_pods (cl_deps (eg_cluster e') (objectKey a))
    \<and> (\<forall>op later ac ok count obs a' n plan.
         later < wholeSeconds (mo_now m) + autoSleepWindow a \<longrightarrow> 0 < count
         \<longrightarrow> desiredReplicas op later ac ok count obs live = (a', n, plan) \<longrightarrow> 0 < n)"
proof -
  have "handleWake cd m r a e = (e', out)"
    using assms(1-3) by (auto simp: handle_def wakeable_def)
  then have c: "eg_cluster e' = fst (wakeApp (mo_now m) (mo_wake m) a (eg_cluster e))"
    using handleWake_keeps(3) assms(7) by (simp add: startWake_cluster)
  obtain live where live: "cl_apps (eg_cluster e') (objectKey a) = Some live"
    "p_lastActive live = Some (wholeSeconds (mo_now m))" "a_activeRevision live = a_activeRevision a"
    "autoSleepWindow live = autoSleepWindow a"
    using wakeApp_stamps(1) [OF assms(5,6,8-10), of "mo_now m"] c by auto
  have "0 < n" if "later < wholeSeconds (mo_now m) + autoSleepWindow a" "0 < count"
    "desiredReplicas op later ac ok count obs live = (a', n, plan)" for op later ac ok count obs a' n plan
    using awake_stays_up [OF _ _ that(2,3)] live that(1) assms(4) by (auto simp: shouldAutoHibernate_def)
  then show ?thesis using live(1) wakeApp_stamps(2) [OF assms(5,6,8-10), of "mo_now m"] c by auto
qed

section \<open>An idle service sleeps\<close>

text \<open>A pass that is not interrupted and whose calls succeed.\<close>

definition fullPass :: "operator \<Rightarrow> app_key \<Rightarrow> (string \<Rightarrow> bool) \<Rightarrow> int \<Rightarrow> activity \<Rightarrow> int \<Rightarrow> observation \<Rightarrow> platform \<Rightarrow> platform" where
  "fullPass op k redirects now ac count obs s =
     (case cl_apps (pf_cluster s) k of
        None \<Rightarrow> s
      | Some a \<Rightarrow>
          (case planStep op now ac True count obs (pf_ingress s) a of
             (a', Planned a1 plan n held) \<Rightarrow>
               let apps = (cl_apps (pf_cluster s))(k \<mapsto> a')
               in if act plan = ActWake
                  then s\<lparr>pf_cluster := (pf_cluster s)\<lparr>cl_apps := apps(k \<mapsto> a'\<lparr>p_lastActive := Some (wholeSeconds now),
                         a_wakeGeneration := show_int (releaseGeneration (app.truncate a'))\<rparr>)\<rparr>\<rparr>
                  else s\<lparr>pf_cluster := (pf_cluster s)\<lparr>
                         cl_apps := (if parked plan \<and> \<not> held then apps(k \<mapsto> hibernate a') else apps),
                         cl_deps := (cl_deps (pf_cluster s))(k \<mapsto> Some n)\<rparr>,
                       pf_ingress := applyAppIngress op redirects a' (ingressBackend op a' (autoHibernating plan) (pf_ready s))\<rparr>
           | (a', st) \<Rightarrow> s))"

definition quiet :: "activity \<Rightarrow> int \<Rightarrow> bool" where
  "quiet ac t \<longleftrightarrow> (case ac of NoActivityReader \<Rightarrow> True | ActivityFailed \<Rightarrow> False | LastSeen None \<Rightarrow> True
     | LastSeen (Some seen) \<Rightarrow> wholeSeconds seen \<le> t)"

lemma recentlyActive_quiet:
  "p_lastActive a = Some t \<Longrightarrow> quiet ac t \<Longrightarrow> recentlyActive ac ok now a = (a, False)"
  by (auto simp: recentlyActive_def quiet_def Let_def split: activity.splits option.splits)

lemma truncate_fields [simp]:
  "a_suspended (app.truncate a) = a_suspended a" "a_activeRevision (app.truncate a) = a_activeRevision a"
  by (simp_all add: app.truncate_def)

lemma idle_plan:
  assumes "sleepy mm a" "autoSleepEligible a" "op_activator op" "\<not> newerReleaseUnserved (app.truncate a)"
    and "p_lastActive a = Some t" "autoSleepWindow a \<le> now - t" "quiet ac t"
  obtains plan where "desiredReplicas op now ac ok count obs a = (a, 0, plan)" "autoHibernating plan" "parked plan"
    "act plan \<noteq> ActWake"
proof -
  let ?f = "factsOf obs (app.truncate a) now"
  let ?plan = "planRelease (?f\<lparr>idle := True, replicas := clampReplicas op a count\<rparr>) now"
  have served: "\<not> firstReleaseFailed ?f" using assms(1) by (intro served_not_stopped) (simp add: sleepy_def)
  have hib: "shouldAutoHibernate a now" using assms(2,5,6) by (simp add: shouldAutoHibernate_def)
  have await: "\<not> awaitingVerdict (?f\<lparr>idle := b, replicas := n\<rparr>) now" "\<not> awaitingVerdict ?f now" for b n
    using assms(4) by (simp_all add: awaitingVerdict_def)
  have sus: "\<not> a_suspended a" using assms(1) by (simp add: sleepy_def)
  have auto: "autoHibernating ?plan" using served sus await by (simp add: planRelease_def Let_def)
  have "act ?plan \<noteq> ActWake"
    unfolding act_planRelease using assms(4) by (simp add: nextAct_def Let_def)
  moreover have "desiredReplicas op now ac ok count obs a = (a, 0, ?plan)"
    using served hib await(2) assms(3) auto recentlyActive_quiet [OF assms(5,7)] sus
    by (simp add: desiredReplicas_def Let_def)
  ultimately show thesis using auto by (intro that [of ?plan]) simp_all
qed

lemma planStep_own: "planStep op now ac ok count obs ing a = (a', st) \<Longrightarrow> \<exists>plan n held. st = Planned a' plan n held"
  by (auto simp: planStep_def split: prod.splits)

text \<open>An uninterrupted pass is a run of steps.\<close>

lemma fullPass_run:
  assumes "pf_stage s = Idle" "cl_apps (pf_cluster s) k = Some a" "sleepy mm a" "0 < count"
  shows "platform_run op k mm s (fullPass op k redirects now ac count obs s)
    \<and> pf_stage (fullPass op k redirects now ac count obs s) = Idle"
proof -
  obtain a' plan n held where p: "planStep op now ac True count obs (pf_ingress s) a = (a', Planned a' plan n held)"
    using planStep_own by (metis surj_pair)
  obtain ap dp where cl: "pf_cluster s = \<lparr>cl_apps = ap, cl_deps = dp\<rparr>" by (cases "pf_cluster s")
  define s1 where "s1 = s\<lparr>pf_cluster := (pf_cluster s)\<lparr>cl_apps := (cl_apps (pf_cluster s))(k \<mapsto> a')\<rparr>,
    pf_stage := Planned a' plan n held\<rparr>"
  have r1: "platform_run op k mm s s1"
    unfolding s1_def using platform_step.Plan [OF assms(1,3,4) p] assms(2)
    by (intro platform_run.Step [OF platform_run.Start]) simp
  show ?thesis
  proof (cases "act plan = ActWake")
    case True
    have "platform_step op k mm s1 (fullPass op k redirects now ac count obs s)"
      using platform_step.WakeForRelease [where s = s1 and k = k and op = op and mm = mm and now = now] True assms(1,2) p
      by (cases s) (simp add: s1_def fullPass_def Let_def)
    then show ?thesis using platform_run.Step [OF r1] True assms(1,2) p by (simp add: fullPass_def Let_def)
  next
    case False
    define s2 where "s2 = s1\<lparr>pf_stage := Scaled a' plan held (pf_ready s1),
      pf_cluster := (pf_cluster s1)\<lparr>cl_deps := (cl_deps (pf_cluster s1))(k \<mapsto> Some n)\<rparr>\<rparr>"
    define s3 where "s3 = s2\<lparr>pf_stage := Routed a' plan held,
      pf_ingress := applyAppIngress op redirects a' (ingressBackend op a' (autoHibernating plan) (pf_ready s1))\<rparr>"
    have r2: "platform_run op k mm s s2"
      using platform_run.Step [OF r1 platform_step.Scale [where s = s1]] False by (simp add: s1_def s2_def)
    have r3: "platform_run op k mm s s3"
      using platform_run.Step [OF r2 platform_step.Route [where s = s2]] by (simp add: s2_def s3_def)
    have "platform_step op k mm s3 (fullPass op k redirects now ac count obs s)"
    proof (cases "parked plan \<and> \<not> held")
      case True
      have "cl_apps (pf_cluster s3) k = Some a'" by (simp add: s3_def s2_def s1_def)
      then show ?thesis
        using platform_step.Park [where s = s3 and k = k and op = op and mm = mm] True False assms(1,2) p cl
        by (cases s) (simp add: s3_def s2_def s1_def fullPass_def Let_def)
    next
      case no: False
      then show ?thesis
        using platform_step.End [where s = s3 and k = k and op = op and mm = mm] False assms(1,2) p cl
        by (cases s) (auto simp: s3_def s2_def s1_def fullPass_def Let_def)
    qed
    then show ?thesis using platform_run.Step [OF r3] False assms(1,2) p by (simp add: fullPass_def Let_def)
  qed
qed

lemma idle_pass:
  fixes redirects :: "string \<Rightarrow> bool" and count :: int and obs :: observation
  assumes "cl_apps (pf_cluster s) k = Some a" "sleepy False a" "autoSleepEligible a" "op_activator op"
    and "\<not> newerReleaseUnserved (app.truncate a)" "p_lastActive a = Some t" "autoSleepWindow a \<le> now - t" "quiet ac t"
  defines "s' \<equiv> fullPass op k redirects now ac count obs s"
  shows "pf_ingress s' = applyAppIngress op redirects a ToActivator"
    and "cl_deps (pf_cluster s') k = Some (Some (if ingressRoutesToActivator (pf_ingress s) then 0
           else clampReplicas op a (effectiveReplicas a)))"
    and "cl_apps (pf_cluster s') k = Some (if ingressRoutesToActivator (pf_ingress s) then hibernate a else a)"
proof -
  obtain plan where plan: "desiredReplicas op now ac True count obs a = (a, 0, plan)" "autoHibernating plan" "parked plan"
    "act plan \<noteq> ActWake"
    using idle_plan [OF assms(2-8)] .
  have route: "ingressBackend op a True serving = ToActivator" for serving
    using assms(2) by (simp add: ingressBackend_def sleepy_def)
  have mm: "\<not> maintenanceEnabled a" using assms(2) by (simp add: sleepy_def)
  show "pf_ingress s' = applyAppIngress op redirects a ToActivator"
    and "cl_deps (pf_cluster s') k = Some (Some (if ingressRoutesToActivator (pf_ingress s) then 0
           else clampReplicas op a (effectiveReplicas a)))"
    and "cl_apps (pf_cluster s') k = Some (if ingressRoutesToActivator (pf_ingress s) then hibernate a else a)"
    using assms(1) plan mm by (simp_all add: s'_def fullPass_def planStep_def holdHibernateForRouting_def route Let_def)
qed

text \<open>A pass over a service that is awake and ready gives it its route back.\<close>

lemma awake_pass:
  fixes op :: operator and redirects :: "string \<Rightarrow> bool" and ac :: activity and obs :: observation
  assumes "cl_apps (pf_cluster s) k = Some a" "sleepy False a" "\<not> shouldAutoHibernate a now" "0 < count" "pf_ready s"
  defines "s' \<equiv> fullPass op k redirects now ac count obs s"
  shows "pf_ingress s' = applyAppIngress op redirects a ToOwn"
    and "cl_deps (pf_cluster s') k = Some (Some (clampReplicas op a count))"
proof -
  have served: "a_activeRevision a \<noteq> []" and mm: "\<not> maintenanceEnabled a" "\<not> suspendedRoutable op a"
    using assms(2) by (simp_all add: sleepy_def suspendedRoutable_def)
  let ?f = "(factsOf obs (app.truncate a) now)\<lparr>idle := False, replicas := clampReplicas op a count\<rparr>"
  have d: "desiredReplicas op now ac True count obs a = (a, clampReplicas op a count, planRelease ?f now)"
    "\<not> autoHibernating (planRelease ?f now)"
    using served_not_stopped [OF served] assms(3) by (auto simp: desiredReplicas_def planRelease_def Let_def)
  have "act (planRelease ?f now) \<noteq> ActWake"
    unfolding act_planRelease using d(2) by (simp add: nextAct_def Let_def)
  then show "pf_ingress s' = applyAppIngress op redirects a ToOwn"
    and "cl_deps (pf_cluster s') k = Some (Some (clampReplicas op a count))"
    using d assms(1,5) mm
    by (simp_all add: s'_def fullPass_def planStep_def holdHibernateForRouting_def ingressBackend_def Let_def)
qed

text \<open>A service whose window is over and that saw no traffic is asleep after two passes that are not
  interrupted, and it leaves its public route first: after the first pass the route names only the
  activator while the Deployment still runs, after the second the Deployment is at zero, the App is
  reported hibernated and the route still names the activator.\<close>

theorem idle_service_sleeps:
  fixes count' :: int and obs obs' :: observation
  assumes "pf_stage s = Idle" "cl_apps (pf_cluster s) k = Some a" "sleepy False a" "autoSleepEligible a" "op_activator op"
    and "\<not> newerReleaseUnserved (app.truncate a)" "p_lastActive a = Some t" "autoSleepWindow a \<le> now - t" "now \<le> later"
    and "quiet ac t" "quiet ac' t" "0 < count" "h \<in> set (effectiveHosts a (op_baseDomain op))" "\<not> redirects h"
    and "\<not> ingressRoutesToActivator (pf_ingress s)"
  defines "s1 \<equiv> fullPass op k redirects now ac count obs s"
  defines "s2 \<equiv> fullPass op k redirects later ac' count' obs' s1"
  shows "platform_run op k False s s1 \<and> ingressRoutesToActivator (pf_ingress s1) \<and> pf_ingress s1 \<noteq> None
    \<and> runs_pods (cl_deps (pf_cluster s1) k)
    \<and> (0 < count' \<longrightarrow> platform_run op k False s1 s2)
    \<and> pf_ingress s2 = pf_ingress s1 \<and> cl_deps (pf_cluster s2) k = Some (Some 0)
    \<and> cl_apps (pf_cluster s2) k = Some (hibernate a)"
proof -
  note one = idle_pass [OF assms(2-8,10), where redirects = redirects and count = count and obs = obs, folded s1_def]
  have route: "ingressRoutesToActivator (applyAppIngress op redirects a ToActivator)"
    "applyAppIngress op redirects a ToActivator \<noteq> None"
    using assms(13,14)
    by (auto simp: applyAppIngress_def ingressRoutesToActivator_def filter_empty_conv list_all_iff split: list.splits)
  have "autoSleepWindow a \<le> later - t" using assms(8,9) by linarith
  note two = idle_pass [OF _ assms(3-7) this assms(11), of s1 k redirects count' obs', folded s2_def]
  have app1: "cl_apps (pf_cluster s1) k = Some a" using one(3) assms(15) by simp
  have "runs_pods (cl_deps (pf_cluster s1) k)"
    using one(2) assms(15) clampReplicas_pos [OF effectiveReplicas_pos [OF assms(3)], of op a] by (simp add: runs_pods_def)
  moreover have run1: "platform_run op k False s s1" "pf_stage s1 = Idle"
    using fullPass_run [OF assms(1-3,12)] by (simp_all add: s1_def)
  moreover have "0 < count' \<longrightarrow> platform_run op k False s1 s2"
    using fullPass_run [OF run1(2) app1 assms(3)] by (simp add: s2_def)
  ultimately show ?thesis using one(1) route two [OF app1] by simp
qed

section \<open>Witnesses\<close>

definition ex_op :: operator where
  "ex_op = \<lparr>op_activator = True, op_maxInstances = (\<lambda>t. if t = ''free'' then Some 1 else None), op_baseDomain = []\<rparr>"

definition ex_awake :: pub_app where
  "ex_awake = ex_sleeper\<lparr>p_phase := ''Running''\<rparr>"

definition ex_obs :: observation where
  "ex_obs = \<lparr>o_dep = None, o_prior = None\<rparr>"

definition ex_platform :: "pub_app \<Rightarrow> platform" where
  "ex_platform a = \<lparr>pf_cluster = \<lparr>cl_apps = [objectKey a \<mapsto> a], cl_deps = [objectKey a \<mapsto> Some 1]\<rparr>, pf_ready = True,
     pf_ingress = Some [ToOwn], pf_stage = Idle\<rparr>"

lemma ex_settled: "a_activeRevision a = ''rev-1'' \<Longrightarrow> a_releaseGeneration a = 1 \<Longrightarrow> \<not> newerReleaseUnserved a"
  by (simp add: newerReleaseUnserved_def releaseHasServed_def successfulReleaseGeneration_def releaseGeneration_def
      revisionGeneration_def cut_prefix_def starts_with_def parse_int_def is_digit_def less_eq_char_def Let_def)

lemma ex_awake_facts:
  "sleepy False ex_awake" "autoSleepEligible ex_awake" "op_activator ex_op"
  "p_lastActive ex_awake = Some 0" "autoSleepWindow ex_awake \<le> 1000 * sec - 0" "quiet NoActivityReader 0"
  "''a.x'' \<in> set (effectiveHosts ex_awake (op_baseDomain ex_op))"
  by code_simp+

lemma ex_awake_settled: "\<not> newerReleaseUnserved (app.truncate ex_awake)"
  by (rule ex_settled) (simp_all add: app.truncate_def ex_awake_def ex_sleeper_def)

lemmas ex_idle = ex_awake_facts(1-3) ex_awake_settled ex_awake_facts(4-7)

theorem idle_service_sleeps_witness:
  "let s1 = fullPass ex_op (objectKey ex_awake) (\<lambda>h. False) (1000 * sec) NoActivityReader 1 ex_obs (ex_platform ex_awake);
       s2 = fullPass ex_op (objectKey ex_awake) (\<lambda>h. False) (1010 * sec) NoActivityReader 1 ex_obs s1
   in pf_ingress s1 = Some [ToActivator] \<and> runs_pods (cl_deps (pf_cluster s1) (objectKey ex_awake))
      \<and> cl_deps (pf_cluster s2) (objectKey ex_awake) = Some (Some 0)"
proof -
  let ?k = "objectKey ex_awake"
  define s1 where "s1 = fullPass ex_op ?k (\<lambda>h. False) (1000 * sec) NoActivityReader 1 ex_obs (ex_platform ex_awake)"
  have "1000 * sec \<le> 1010 * sec" "(0::int) < 1" by (simp_all add: sec_def)
  note hyps = ex_idle this
  have "pf_ingress s1 = applyAppIngress ex_op (\<lambda>h. False) ex_awake ToActivator"
    unfolding s1_def by (rule idle_pass(1) [OF _ hyps(1-7)]) (simp add: ex_platform_def)
  moreover have "applyAppIngress ex_op (\<lambda>h. False) ex_awake ToActivator = Some [ToActivator]" by code_simp
  moreover have "runs_pods (cl_deps (pf_cluster s1) ?k)
      \<and> cl_deps (pf_cluster (fullPass ex_op ?k (\<lambda>h. False) (1010 * sec) NoActivityReader 1 ex_obs s1)) ?k = Some (Some 0)"
    using idle_service_sleeps [where s = "ex_platform ex_awake" and k = ?k and redirects = "\<lambda>h. False" and count = 1
        and obs = ex_obs and count' = 1 and obs' = ex_obs and now = "1000 * sec" and later = "1010 * sec",
        OF _ _ hyps(1-6) hyps(9) hyps(7) hyps(7) hyps(10) hyps(8), folded s1_def]
    by (simp add: ex_platform_def ingressRoutesToActivator_def)
  ultimately show ?thesis by (simp add: Let_def s1_def)
qed

theorem own_route_is_backed_witness:
  "let s1 = fullPass ex_op (objectKey ex_awake) (\<lambda>h. False) 0 NoActivityReader 1 ex_obs (ex_platform ex_awake)
   in pf_ingress s1 = Some [ToOwn] \<and> runs_pods (cl_deps (pf_cluster s1) (objectKey ex_awake))"
proof -
  define s1 where "s1 = fullPass ex_op (objectKey ex_awake) (\<lambda>h. False) 0 NoActivityReader 1 ex_obs (ex_platform ex_awake)"
  have "platform_run ex_op (objectKey ex_awake) False (ex_platform ex_awake) s1"
    unfolding s1_def by (rule fullPass_run [where a = ex_awake, THEN conjunct1]) (simp_all add: ex_platform_def ex_awake_facts)
  moreover have "pf_ingress s1 = Some [ToOwn]"
  proof -
    have "\<not> shouldAutoHibernate ex_awake 0" by code_simp
    then have "pf_ingress s1 = applyAppIngress ex_op (\<lambda>h. False) ex_awake ToOwn"
      unfolding s1_def by (intro awake_pass(1)) (simp_all add: ex_platform_def ex_awake_facts)
    also have "\<dots> = Some [ToOwn]" by code_simp
    finally show ?thesis .
  qed
  moreover have "pf_stage (ex_platform ex_awake) = Idle" "backed (objectKey ex_awake) (ex_platform ex_awake)"
    by (simp_all add: ex_platform_def backed_def runs_pods_def)
  ultimately show ?thesis
    using own_route_is_backed [of ex_op "objectKey ex_awake" "ex_platform ex_awake" s1]
    by (simp add: s1_def [symmetric] names_own_def)
qed

theorem wake_is_honoured_witness:
  "\<exists>live. cl_apps (eg_cluster (fst (handle ex_codec ex_moment ex_request ex_edge))) (objectKey ex_sleeper) = Some live
     \<and> fst (snd (desiredReplicas ex_op (5800 * sec) NoActivityReader True 1 ex_obs live)) > 0"
proof -
  have "lookupHost ex_codec (eg_index ex_edge) (requestHost ex_codec (rq_host ex_request)) = Some ex_sleeper"
    using ex_index by (simp add: lookupHost_def ex_request_def ex_hosts)
  moreover have "wakeable ex_request ex_sleeper" by code_simp
  moreover have "a_activeRevision ex_sleeper \<noteq> []" by (simp add: ex_sleeper_def)
  moreover have "cl_apps (eg_cluster ex_edge) (objectKey ex_sleeper) = Some ex_sleeper"
    "cl_deps (eg_cluster ex_edge) (objectKey ex_sleeper) = Some (Some 0)"
    by (simp_all add: ex_edge_def ex_cluster_def)
  moreover have "\<not> wf_joined (mo_wake ex_moment)" "\<not> wf_stampFails (mo_wake ex_moment)"
    "\<not> wf_getFails (mo_wake ex_moment)" "\<not> wf_scaleFails (mo_wake ex_moment)"
    by (simp_all add: ex_moment_def)
  moreover have "5800 * sec < wholeSeconds (mo_now ex_moment) + autoSleepWindow ex_sleeper" by code_simp
  ultimately show ?thesis
    using wake_is_honoured [OF prod.collapse [symmetric], where a = ex_sleeper and d = "Some 0" and cd = ex_codec
        and m = ex_moment and r = ex_request and e = ex_edge]
    by (metis prod.collapse zero_less_one)
qed

text \<open>
  The exemption of \<open>holdHibernateForRouting\<close> for maintenance rests on the route being the maintenance
  alias already. A pass that finds the service idle when maintenance was just switched on drains the
  Deployment while the Ingress still names its Service.
\<close>

definition ex_maintained :: pub_app where
  "ex_maintained = ex_awake\<lparr>p_maintenance := Some \<lparr>mm_enabled = True, mm_uri = []\<rparr>\<rparr>"

lemma maintenance_drains_routed_service:
  "\<exists>s. platform_run ex_op (objectKey ex_awake) True (ex_platform ex_awake) s
     \<and> names_own (pf_ingress s) \<and> cl_deps (pf_cluster s) (objectKey ex_awake) = Some (Some 0)"
proof -
  let ?k = "objectKey ex_awake" and ?s0 = "ex_platform ex_awake"
  define s1 where "s1 = ?s0\<lparr>pf_cluster := (pf_cluster ?s0)\<lparr>cl_apps := (cl_apps (pf_cluster ?s0))(?k \<mapsto> ex_maintained)\<rparr>\<rparr>"
  have good: "sleepy True ex_maintained" by code_simp
  have r1: "platform_run ex_op ?k True ?s0 s1"
    unfolding s1_def using platform_step.Edit [OF good] by (intro platform_run.Step [OF platform_run.Start])
  obtain plan where plan: "planStep ex_op (1000 * sec) NoActivityReader True 1 ex_obs (Some [ToOwn]) ex_maintained
      = (ex_maintained, Planned ex_maintained plan 0 False)" "act plan \<noteq> ActWake"
  proof -
    obtain plan where d: "desiredReplicas ex_op (1000 * sec) NoActivityReader True 1 ex_obs ex_maintained
        = (ex_maintained, 0, plan)" "act plan \<noteq> ActWake"
    proof (rule idle_plan [OF good, of ex_op])
      show "\<not> newerReleaseUnserved (app.truncate ex_maintained)"
        by (rule ex_settled) (simp_all add: app.truncate_def ex_maintained_def ex_awake_def ex_sleeper_def)
      show "autoSleepEligible ex_maintained" "op_activator ex_op" "p_lastActive ex_maintained = Some 0" "autoSleepWindow ex_maintained \<le> 1000 * sec - 0" "quiet NoActivityReader 0"
        by code_simp+
    qed blast
    then show thesis using that [of plan] by (auto simp: planStep_def holdHibernateForRouting_def ex_maintained_def maintenanceEnabled_def)
  qed
  define s2 where "s2 = s1\<lparr>pf_stage := Planned ex_maintained plan 0 False\<rparr>"
  have p1: "planStep ex_op (1000 * sec) NoActivityReader True 1 ex_obs (pf_ingress s1) ex_maintained
      = (ex_maintained, Planned ex_maintained plan 0 False)"
    using plan(1) by (simp add: s1_def ex_platform_def)
  have "platform_step ex_op ?k True s1 s2"
    using platform_step.Plan [OF _ good _ p1, where c = "pf_cluster s1" and k = ?k]
    by (simp add: s2_def s1_def ex_platform_def)
  with r1 have r2: "platform_run ex_op ?k True ?s0 s2" by (rule platform_run.Step)
  define s3 where "s3 = s2\<lparr>pf_stage := Scaled ex_maintained plan False (pf_ready s2),
     pf_cluster := (pf_cluster s2)\<lparr>cl_deps := (cl_deps (pf_cluster s2))(?k \<mapsto> Some 0)\<rparr>\<rparr>"
  have "platform_step ex_op ?k True s2 s3"
    using platform_step.Scale [where s = s2 and k = ?k] plan(2) by (simp add: s3_def s2_def)
  with r2 have "platform_run ex_op ?k True ?s0 s3" by (rule platform_run.Step)
  moreover have "names_own (pf_ingress s3)" "cl_deps (pf_cluster s3) ?k = Some (Some 0)"
    by (simp_all add: s3_def s2_def s1_def ex_platform_def names_own_def)
  ultimately show ?thesis by blast
qed

end
