(* ===== verification/DeployRows.thy ===== *)
theory DeployRows
  imports GoText
begin

text \<open>
  The deploy rows of the control plane (\<open>backend/internal/store/deploy_lifecycle.go\<close> and the deploy
  part of \<open>store.go\<close>): the transition table, and every statement that creates or changes a row.

  A table is the list of its rows. A statement is a function on it that Postgres may refuse, by the
  primary key, the foreign key, the two partial unique indexes of migration 0080 (one active and one
  waiting deploy per service) or the checks of migrations 0080 and 0142; a refused statement rolls its
  transaction back. Times are microseconds, and \<open>now\<close> is what \<open>clock_timestamp()\<close> returns. The table of
  apps is the list of its ids. The columns that no statement changes after the insert are the row's origin, but for
  one: the deletion of an account replaces \<open>triggered_by\<close> (\<open>accounts.go\<close>). A row goes only with its App.
\<close>

section \<open>Statuses and the transition table\<close>

datatype deploy_status =
    DeployCreated | DeployQueued | DeployBuildInProgress | DeployBuildFailed
  | DeployPreDeployInProgress | DeployPreDeployFailed | DeployUpdateInProgress | DeployUpdateFailed
  | DeployLive | DeployDeactivated | DeployCanceled

definition deployStatusVocabulary :: "deploy_status list" where
  "deployStatusVocabulary =
     [DeployCreated, DeployQueued, DeployBuildInProgress, DeployBuildFailed, DeployPreDeployInProgress,
      DeployPreDeployFailed, DeployUpdateInProgress, DeployUpdateFailed, DeployLive, DeployDeactivated,
      DeployCanceled]"

definition openDeployStatuses :: "deploy_status list" where
  "openDeployStatuses =
     [DeployCreated, DeployQueued, DeployBuildInProgress, DeployPreDeployInProgress, DeployUpdateInProgress]"

definition IsOpenDeployStatus :: "deploy_status \<Rightarrow> bool" where
  "IsOpenDeployStatus s \<longleftrightarrow> s \<in> set openDeployStatuses"

definition IsTerminalDeployStatus :: "deploy_status \<Rightarrow> bool" where
  "IsTerminalDeployStatus s \<longleftrightarrow> s \<in> set deployStatusVocabulary \<and> \<not> IsOpenDeployStatus s"

definition DeployStatusStartsExecution :: "deploy_status \<Rightarrow> bool" where
  "DeployStatusStartsExecution s \<longleftrightarrow> s \<noteq> DeployQueued \<and> s \<noteq> DeployCanceled \<and> s \<noteq> DeployDeactivated"

fun DeployFailureStatus :: "deploy_status \<Rightarrow> bool" where
  "DeployFailureStatus DeployBuildFailed = True"
| "DeployFailureStatus DeployPreDeployFailed = True"
| "DeployFailureStatus DeployUpdateFailed = True"
| "DeployFailureStatus _ = False"

fun DeployStatusStampsDispatch :: "deploy_status \<Rightarrow> bool" where
  "DeployStatusStampsDispatch DeployBuildInProgress = True"
| "DeployStatusStampsDispatch DeployPreDeployInProgress = True"
| "DeployStatusStampsDispatch DeployUpdateInProgress = True"
| "DeployStatusStampsDispatch _ = False"

text \<open>A status that is no key of the table has no predecessor.\<close>

fun deployTransitionPredecessors :: "deploy_status \<Rightarrow> deploy_status list" where
  "deployTransitionPredecessors DeployQueued = [DeployCreated]"
| "deployTransitionPredecessors DeployBuildInProgress = [DeployCreated, DeployQueued]"
| "deployTransitionPredecessors DeployBuildFailed =
     [DeployCreated, DeployQueued, DeployBuildInProgress, DeployUpdateInProgress]"
| "deployTransitionPredecessors DeployPreDeployInProgress = [DeployCreated, DeployQueued, DeployBuildInProgress]"
| "deployTransitionPredecessors DeployPreDeployFailed =
     [DeployCreated, DeployQueued, DeployBuildInProgress, DeployPreDeployInProgress]"
| "deployTransitionPredecessors DeployUpdateInProgress = openDeployStatuses"
| "deployTransitionPredecessors DeployUpdateFailed = openDeployStatuses"
| "deployTransitionPredecessors DeployLive = openDeployStatuses"
| "deployTransitionPredecessors DeployCanceled = openDeployStatuses"
| "deployTransitionPredecessors DeployDeactivated = [DeployLive]"
| "deployTransitionPredecessors _ = []"

definition CanTransitionDeploy :: "deploy_status \<Rightarrow> deploy_status \<Rightarrow> bool" where
  "CanTransitionDeploy from to \<longleftrightarrow> from \<noteq> to \<and> from \<in> set (deployTransitionPredecessors to)"

fun RenderDeployStatus :: "deploy_status \<Rightarrow> string" where
  "RenderDeployStatus DeployLive = ''succeeded''"
| "RenderDeployStatus DeployDeactivated = ''succeeded''"
| "RenderDeployStatus DeployCanceled = ''canceled''"
| "RenderDeployStatus _ = ''failed''"

definition BuildRunStatus :: "deploy_status \<Rightarrow> string" where
  "BuildRunStatus s =
     (if s = DeployCreated \<or> s = DeployQueued then ''created''
      else if IsOpenDeployStatus s then ''inProgress'' else RenderDeployStatus s)"

lemmas status_defs = IsOpenDeployStatus_def IsTerminalDeployStatus_def openDeployStatuses_def
  deployStatusVocabulary_def

lemma open_statuses [simp]:
  "IsOpenDeployStatus DeployCreated" "IsOpenDeployStatus DeployQueued" "IsOpenDeployStatus DeployBuildInProgress"
  "IsOpenDeployStatus DeployPreDeployInProgress" "IsOpenDeployStatus DeployUpdateInProgress"
  "\<not> IsOpenDeployStatus DeployBuildFailed" "\<not> IsOpenDeployStatus DeployPreDeployFailed"
  "\<not> IsOpenDeployStatus DeployUpdateFailed" "\<not> IsOpenDeployStatus DeployLive"
  "\<not> IsOpenDeployStatus DeployDeactivated" "\<not> IsOpenDeployStatus DeployCanceled"
  by (simp_all add: status_defs)

lemma terminal_iff_not_open [simp]: "IsTerminalDeployStatus s \<longleftrightarrow> \<not> IsOpenDeployStatus s"
  by (cases s) (simp_all add: status_defs)

text \<open>How far along its life a deploy is; a terminal row can only be superseded.\<close>

fun phase :: "deploy_status \<Rightarrow> nat" where
  "phase DeployCreated = 0"
| "phase DeployQueued = 1"
| "phase DeployBuildInProgress = 2"
| "phase DeployPreDeployInProgress = 3"
| "phase DeployUpdateInProgress = 4"
| "phase DeployDeactivated = 6"
| "phase _ = 5"

lemma transition_advances: "CanTransitionDeploy s t \<Longrightarrow> phase s < phase t"
  by (cases s; cases t) (simp_all add: CanTransitionDeploy_def openDeployStatuses_def)

lemma transition_leaves_open_row:
  "CanTransitionDeploy s t \<Longrightarrow> t \<noteq> DeployDeactivated \<Longrightarrow> IsOpenDeployStatus s"
  by (cases s; cases t) (simp_all add: CanTransitionDeploy_def openDeployStatuses_def)

lemma transition_deactivates_live: "CanTransitionDeploy s DeployDeactivated \<longleftrightarrow> s = DeployLive"
  by (auto simp: CanTransitionDeploy_def)

section \<open>Rows\<close>

datatype pre_status = PreDeployNone | PreDeployRunning | PreDeploySucceeded | PreDeployFailed | PreDeployCanceled

record deploy_origin =
  o_trigger :: string
  o_image :: string
  o_rollbackOf :: string
  o_generation :: int
  o_commitMessage :: string
  o_commitAuthorAt :: "int option"
  o_triggeredBy :: string
  o_clearCache :: bool
  o_buildId :: string

record deploy_row =
  r_id :: string
  r_app :: string
  r_origin :: deploy_origin
  r_status :: deploy_status
  r_overlap :: bool
  r_resolvedImage :: string
  r_imageSha :: string
  r_port :: int
  r_commit :: string
  r_preDeploy :: pre_status
  r_failure :: string
  r_cancel :: string
  r_stall :: string
  r_exit :: "int option"
  r_oom :: bool
  r_timedOutSeconds :: int
  r_created :: int
  r_updated :: int
  r_started :: "int option"
  r_finished :: "int option"

abbreviation r_generation :: "deploy_row \<Rightarrow> int" where
  "r_generation r \<equiv> o_generation (r_origin r)"

abbreviation r_image :: "deploy_row \<Rightarrow> string" where
  "r_image r \<equiv> o_image (r_origin r)"

text \<open>Facts of the timeline: a fact is inserted once per source key.\<close>

record event_fact =
  f_key :: string
  f_app :: string
  f_type :: string
  f_at :: int
  f_deploy :: string
  f_image :: string
  f_status :: string
  f_reason :: string

record deploy_db =
  db_apps :: "string list"
  db_rows :: "deploy_row list"
  db_facts :: "event_fact list"

definition deploy_key :: "string \<Rightarrow> string \<Rightarrow> string" where
  "deploy_key rid beat = ''deploy:'' @ rid @ '':'' @ beat"

definition insertFact :: "event_fact \<Rightarrow> event_fact list \<Rightarrow> event_fact list" where
  "insertFact f fs = (if f_key f \<in> set (map f_key fs) then fs else fs @ [f])"

definition isActive :: "deploy_row \<Rightarrow> bool" where
  "isActive r \<longleftrightarrow> IsOpenDeployStatus (r_status r) \<and> \<not> r_overlap r"

definition isPending :: "deploy_row \<Rightarrow> bool" where
  "isPending r \<longleftrightarrow> r_status r = DeployQueued \<and> r_overlap r"

datatype pg_error = NoRows | UniqueViolation | ForeignKeyViolation | CheckViolation

datatype store_error = ErrNotFound | ErrConflict | ErrInvalid

fun classify :: "pg_error \<Rightarrow> store_error" where
  "classify NoRows = ErrNotFound"
| "classify UniqueViolation = ErrConflict"
| "classify ForeignKeyViolation = ErrNotFound"
| "classify CheckViolation = ErrInvalid"

definition row_checks :: "deploy_row \<Rightarrow> bool" where
  "row_checks r \<longleftrightarrow>
     (r_overlap r \<longrightarrow> r_status r = DeployQueued) \<and>
     (r_finished r = None \<or> r_preDeploy r \<noteq> PreDeployRunning)"

definition unique_rows :: "deploy_row list \<Rightarrow> bool" where
  "unique_rows rs \<longleftrightarrow>
     distinct (map r_id rs) \<and> distinct (map r_app (filter isActive rs)) \<and>
     distinct (map r_app (filter isPending rs))"

definition commit_rows :: "deploy_db \<Rightarrow> deploy_row list \<Rightarrow> pg_error + deploy_db" where
  "commit_rows d rs =
     (if \<not> list_all row_checks rs then Inl CheckViolation
      else if \<not> unique_rows rs then Inl UniqueViolation
      else if \<not> list_all (\<lambda>r. r_app r \<in> set (db_apps d)) rs then Inl ForeignKeyViolation
      else Inr (d\<lparr>db_rows := rs\<rparr>))"

definition update_where :: "(deploy_row \<Rightarrow> bool) \<Rightarrow> (deploy_row \<Rightarrow> deploy_row) \<Rightarrow> deploy_row list \<Rightarrow> deploy_row list" where
  "update_where p f rs = map (\<lambda>r. if p r then f r else r) rs"

fun row_by_id :: "deploy_row list \<Rightarrow> string \<Rightarrow> deploy_row option" where
  "row_by_id [] i = None"
| "row_by_id (r # rs) i = (if r_id r = i then Some r else row_by_id rs i)"

text \<open>\<open>updated_at = GREATEST(updated_at + interval '1 microsecond', clock_timestamp())\<close>.\<close>

definition touched :: "int \<Rightarrow> int \<Rightarrow> int" where
  "touched now old = max (old + 1) now"

section \<open>Moving a row\<close>

definition coalesce :: "'a option \<Rightarrow> 'a option \<Rightarrow> 'a option" where
  "coalesce a b = (case a of Some x \<Rightarrow> Some x | None \<Rightarrow> b)"

definition or_text :: "string \<Rightarrow> string \<Rightarrow> string" where
  "or_text new old = (if new = [] then old else new)"

record ran_image =
  im_ref :: string
  im_sha :: string
  im_port :: int
  im_commit :: string

record deploy_end =
  en_exit :: "int option"
  en_oom :: bool
  en_timedOut :: int

record transition_args =
  ta_status :: deploy_status
  ta_ran :: ran_image
  ta_failure :: string
  ta_code :: string
  ta_cancel :: string
  ta_started :: "int option"
  ta_end :: deploy_end

definition no_image :: ran_image where
  "no_image = \<lparr>im_ref = [], im_sha = [], im_port = 0, im_commit = []\<rparr>"

definition no_end :: deploy_end where
  "no_end = \<lparr>en_exit = None, en_oom = False, en_timedOut = 0\<rparr>"

definition settled_pre_deploy :: "deploy_status \<Rightarrow> pre_status \<Rightarrow> pre_status" where
  "settled_pre_deploy st p =
     (if IsTerminalDeployStatus st \<and> p = PreDeployRunning then
        (if st = DeployLive then PreDeploySucceeded
         else if st = DeployPreDeployFailed then PreDeployFailed else PreDeployCanceled)
      else p)"

definition transitioned :: "transition_args \<Rightarrow> int \<Rightarrow> deploy_row \<Rightarrow> deploy_row" where
  "transitioned t now r =
     (let st = ta_status t; im = ta_ran t; en = ta_end t; terminal = IsTerminalDeployStatus st in
      r\<lparr>r_status := st,
        r_overlap := (if st = DeployQueued then r_overlap r else False),
        r_resolvedImage := or_text (im_ref im) (r_resolvedImage r),
        r_imageSha := or_text (im_sha im) (r_imageSha r),
        r_port := (if st = DeployLive \<and> 0 < im_port im then im_port im else r_port r),
        r_commit := (if st = DeployLive \<and> r_commit r = [] then im_commit im else r_commit r),
        r_preDeploy := settled_pre_deploy st (r_preDeploy r),
        r_failure := or_text (ta_failure t) (r_failure r),
        r_cancel := or_text (ta_cancel t) (r_cancel r),
        r_stall := (if terminal then [] else r_stall r),
        r_exit := coalesce (en_exit en) (r_exit r),
        r_oom := (r_oom r \<or> en_oom en),
        r_timedOutSeconds := max (r_timedOutSeconds r) (en_timedOut en),
        r_updated := touched now (r_updated r),
        r_started := (if DeployStatusStampsDispatch st then coalesce (r_started r) (Some now)
                      else coalesce (r_started r) (ta_started t)),
        r_finished := (if terminal then coalesce (r_finished r) (Some now) else r_finished r)\<rparr>)"

definition deactivated :: "int \<Rightarrow> deploy_row \<Rightarrow> deploy_row" where
  "deactivated now r = r\<lparr>r_status := DeployDeactivated, r_updated := touched now (r_updated r)\<rparr>"

definition image_pull_fact :: "int \<Rightarrow> deploy_row \<Rightarrow> event_fact" where
  "image_pull_fact now r =
     \<lparr>f_key = deploy_key (r_id r) ''image_pull_failed'', f_app = r_app r, f_type = ''image_pull_failed'',
      f_at = (case r_finished r of Some t \<Rightarrow> t | None \<Rightarrow> now), f_deploy = r_id r, f_image = r_image r,
      f_status = [], f_reason = ''image_pull_backoff''\<rparr>"

definition TransitionDeploy :: "deploy_db \<Rightarrow> string \<Rightarrow> transition_args \<Rightarrow> int \<Rightarrow> pg_error + (bool \<times> deploy_db)" where
  "TransitionDeploy d rid t now =
     (case row_by_id (db_rows d) rid of
        None \<Rightarrow> Inr (False, d)
      | Some r \<Rightarrow>
          if r_status r = ta_status t \<and> r_status r = DeployQueued \<and> r_overlap r then
            rbind (commit_rows d (update_where (\<lambda>q. r_id q = rid \<and> r_overlap q) (\<lambda>q. q\<lparr>r_overlap := False\<rparr>) (db_rows d)))
              (\<lambda>d1. Inr (True, d1))
          else if \<not> CanTransitionDeploy (r_status r) (ta_status t) then Inr (False, d)
          else
            rbind (commit_rows d (update_where (\<lambda>q. r_id q = rid) (transitioned t now) (db_rows d)))
              (\<lambda>d1. rbind
                 (if ta_status t = DeployLive then
                    commit_rows d1 (update_where (\<lambda>q. r_app q = r_app r \<and> r_id q \<noteq> rid \<and> r_status q = DeployLive)
                                      (deactivated now) (db_rows d1))
                  else Inr d1)
                 (\<lambda>d2. Inr (True,
                    if ta_code t = ''image_pull_backoff'' then
                      (case row_by_id (db_rows d2) rid of
                         None \<Rightarrow> d2
                       | Some q \<Rightarrow> d2\<lparr>db_facts := insertFact (image_pull_fact now q) (db_facts d2)\<rparr>)
                    else d2))))"

definition CloseDeploy :: "deploy_db \<Rightarrow> string \<Rightarrow> deploy_status \<Rightarrow> string \<Rightarrow> int \<Rightarrow> pg_error + (bool \<times> deploy_db)" where
  "CloseDeploy d rid st img now =
     (if \<not> IsTerminalDeployStatus st \<or> st = DeployDeactivated then Inr (False, d)
      else TransitionDeploy d rid
             \<lparr>ta_status = st, ta_ran = no_image\<lparr>im_ref := img\<rparr>, ta_failure = [], ta_code = [], ta_cancel = [],
              ta_started = None, ta_end = no_end\<rparr> now)"

definition SetDeployPreDeployStatus :: "deploy_db \<Rightarrow> string \<Rightarrow> pre_status \<Rightarrow> int \<Rightarrow> pg_error + (bool \<times> deploy_db)" where
  "SetDeployPreDeployStatus d rid p now =
     (let hit = (\<lambda>r. r_id r = rid \<and> IsOpenDeployStatus (r_status r) \<and> r_preDeploy r \<noteq> p) in
      rbind (commit_rows d (update_where hit (\<lambda>r. r\<lparr>r_preDeploy := p, r_updated := touched now (r_updated r)\<rparr>) (db_rows d)))
        (\<lambda>d1. Inr (list_ex hit (db_rows d), d1)))"

definition SetDeployStallReason :: "deploy_db \<Rightarrow> string \<Rightarrow> string \<Rightarrow> pg_error + deploy_db" where
  "SetDeployStallReason d rid reason =
     commit_rows d (update_where (\<lambda>r. r_id r = rid \<and> r_finished r = None \<and> r_stall r \<noteq> reason)
                      (\<lambda>r. r\<lparr>r_stall := reason\<rparr>) (db_rows d))"

fun preDeployEndedStatus :: "pre_status \<Rightarrow> string option" where
  "preDeployEndedStatus PreDeploySucceeded = Some ''succeeded''"
| "preDeployEndedStatus PreDeployFailed = Some ''failed''"
| "preDeployEndedStatus _ = None"

definition preDeployEndedFact :: "deploy_row \<Rightarrow> int \<Rightarrow> string \<Rightarrow> event_fact" where
  "preDeployEndedFact r at st =
     \<lparr>f_key = deploy_key (r_id r) ''pre_deploy_ended'', f_app = r_app r, f_type = ''pre_deploy_ended'', f_at = at,
      f_deploy = r_id r, f_image = [], f_status = st, f_reason = []\<rparr>"

definition SettleCanceledPreDeploy ::
  "deploy_db \<Rightarrow> string \<Rightarrow> int \<Rightarrow> pre_status \<Rightarrow> int \<Rightarrow> int \<Rightarrow> (pg_error option) + (bool \<times> deploy_db)" where
  "SettleCanceledPreDeploy d app gen p finishedAt now =
     (case preDeployEndedStatus p of
        None \<Rightarrow> Inl None
      | Some ended \<Rightarrow>
          let hit = (\<lambda>r. r_app r = app \<and> r_generation r = gen \<and> r_status r = DeployCanceled \<and> r_preDeploy r = PreDeployCanceled);
              settled = filter hit (db_rows d) in
          (case commit_rows d (update_where hit (\<lambda>r. r\<lparr>r_preDeploy := p, r_updated := touched now (r_updated r)\<rparr>) (db_rows d)) of
             Inl e \<Rightarrow> Inl (Some e)
           | Inr d1 \<Rightarrow>
               Inr (settled \<noteq> [],
                    d1\<lparr>db_facts := fold (\<lambda>r. insertFact (preDeployEndedFact r finishedAt ended)) settled (db_facts d1)\<rparr>)))"

section \<open>Opening a row\<close>

definition supersededByReason :: "string \<Rightarrow> string" where
  "supersededByReason i = ''Superseded by '' @ i"

definition restartCanceledReason :: "string \<Rightarrow> string" where
  "restartCanceledReason i =
     ''Canceled by restart '' @ i @
     '', which kept the running release: what this deploy was applying was not deployed''"

definition SupersedingDeployID :: "string \<Rightarrow> string" where
  "SupersedingDeployID reason =
     (let found =
        (case cut_prefix ''Superseded by '' reason of
           Some rest \<Rightarrow> Some rest
         | None \<Rightarrow>
             (case cut_prefix ''Canceled by restart '' reason of
                None \<Rightarrow> None
              | Some rest \<Rightarrow> (case cut_at (CHR '','') rest of (before, _, ok) \<Rightarrow> if ok then Some before else None)))
      in (case found of
            None \<Rightarrow> []
          | Some rest \<Rightarrow>
              if \<not> starts_with ''dep-'' rest \<or> CHR '' '' \<in> set rest \<or> CHR '','' \<in> set rest then [] else rest))"

text \<open>
  \<open>ORDER BY generation DESC, created_at DESC LIMIT 1\<close>: the newest of the rows; between equals SQL
  leaves the choice open, and the model takes the first.
\<close>

definition newer_row :: "deploy_row \<Rightarrow> deploy_row \<Rightarrow> bool" where
  "newer_row a b \<longleftrightarrow>
     r_generation b < r_generation a \<or> (r_generation a = r_generation b \<and> r_created b < r_created a)"

fun newest_row :: "deploy_row list \<Rightarrow> deploy_row option" where
  "newest_row [] = None"
| "newest_row (r # rs) =
     (case newest_row rs of None \<Rightarrow> Some r | Some q \<Rightarrow> if newer_row q r then Some q else Some r)"

definition pending_canceled :: "string \<Rightarrow> int \<Rightarrow> deploy_row \<Rightarrow> deploy_row" where
  "pending_canceled reason now r =
     r\<lparr>r_status := DeployCanceled, r_cancel := reason,
       r_preDeploy := (if r_preDeploy r = PreDeployRunning then PreDeployCanceled else r_preDeploy r),
       r_updated := touched now (r_updated r), r_finished := Some now, r_overlap := False\<rparr>"

definition cancelPendingDeploys :: "deploy_db \<Rightarrow> string \<Rightarrow> string \<Rightarrow> int \<Rightarrow> pg_error + deploy_db" where
  "cancelPendingDeploys d app reason now =
     commit_rows d
       (update_where (\<lambda>r. r_app r = app \<and> r_status r = DeployQueued \<and> r_overlap r) (pending_canceled reason now) (db_rows d))"

definition prepareDeployCreate ::
  "deploy_db \<Rightarrow> string \<Rightarrow> int \<Rightarrow> string \<Rightarrow> int \<Rightarrow> pg_error + (deploy_status \<times> string \<times> deploy_db)" where
  "prepareDeployCreate d app gen replacedReason now =
     (if app \<notin> set (db_apps d) then Inl NoRows
      else (case newest_row (filter (\<lambda>r. r_app r = app \<and> IsOpenDeployStatus (r_status r) \<and> gen \<le> r_generation r) (db_rows d)) of
              Some newer \<Rightarrow> Inr (DeployCanceled, supersededByReason (r_id newer), d)
            | None \<Rightarrow>
                rbind (cancelPendingDeploys d app replacedReason now)
                  (\<lambda>d1. if list_ex (\<lambda>r. r_app r = app \<and> IsOpenDeployStatus (r_status r) \<and> \<not> r_overlap r) (db_rows d1)
                        then Inr (DeployQueued, [], d1) else Inr (DeployCreated, [], d1))))"

text \<open>The row an insert writes; the columns it does not name take the defaults of the schema.\<close>

definition fresh_row ::
  "string \<Rightarrow> string \<Rightarrow> deploy_origin \<Rightarrow> string \<Rightarrow> string \<Rightarrow> deploy_status \<Rightarrow> string \<Rightarrow> int \<Rightarrow> deploy_row" where
  "fresh_row rid app org resolved commit st cancelReason now =
     \<lparr>r_id = rid, r_app = app, r_origin = org, r_status = st, r_overlap = (st = DeployQueued),
      r_resolvedImage = resolved, r_imageSha = [], r_port = 0, r_commit = commit, r_preDeploy = PreDeployNone,
      r_failure = [], r_cancel = cancelReason, r_stall = [], r_exit = None, r_oom = False, r_timedOutSeconds = 0,
      r_created = now, r_updated = now, r_started = None,
      r_finished = (if st = DeployCanceled then Some now else None)\<rparr>"

definition insertDeploy ::
  "deploy_db \<Rightarrow> string \<Rightarrow> string \<Rightarrow> deploy_origin \<Rightarrow> string \<Rightarrow> string \<Rightarrow> string \<Rightarrow> int \<Rightarrow> pg_error + (deploy_row \<times> deploy_db)" where
  "insertDeploy d rid app org resolved commit replacedReason now =
     rbind (prepareDeployCreate d app (o_generation org) replacedReason now)
       (\<lambda>(st, cancelReason, d1).
          let r = fresh_row rid app org resolved commit st cancelReason now in
          rbind (commit_rows d1 (db_rows d1 @ [r])) (\<lambda>d2. Inr (r, d2)))"

text \<open>\<open>rid\<close> is what \<open>ids.New(ids.Deploy)\<close> returns.\<close>

record commit_info =
  ci_hash :: string
  ci_message :: string
  ci_authorAt :: "int option"
  ci_buildId :: string

definition createDeploy ::
  "(string \<Rightarrow> string) \<Rightarrow> deploy_db \<Rightarrow> string \<Rightarrow> string \<Rightarrow> string \<Rightarrow> string \<Rightarrow> int \<Rightarrow> commit_info \<Rightarrow> string \<Rightarrow> bool \<Rightarrow> int
     \<Rightarrow> store_error + (deploy_row \<times> deploy_db)" where
  "createDeploy replaced d rid app trigger img gen ci triggeredBy clearCache now =
     (case insertDeploy d rid app
             \<lparr>o_trigger = trigger, o_image = img, o_rollbackOf = [], o_generation = gen,
              o_commitMessage = ci_message ci, o_commitAuthorAt = ci_authorAt ci, o_triggeredBy = triggeredBy,
              o_clearCache = clearCache, o_buildId = ci_buildId ci\<rparr> [] (ci_hash ci) (replaced rid) now of
        Inl e \<Rightarrow> Inl (classify e)
      | Inr r \<Rightarrow> Inr r)"

definition CreateDeploy where
  "CreateDeploy = createDeploy supersededByReason"

definition CreateRestartDeploy where
  "CreateRestartDeploy d rid app img gen ci triggeredBy now =
     createDeploy restartCanceledReason d rid app ''restart'' img gen ci triggeredBy False now"

definition CreateRollbackDeploy ::
  "deploy_db \<Rightarrow> string \<Rightarrow> string \<Rightarrow> string \<Rightarrow> string \<Rightarrow> int \<Rightarrow> commit_info \<Rightarrow> string \<Rightarrow> int \<Rightarrow> store_error + (deploy_row \<times> deploy_db)" where
  "CreateRollbackDeploy d rid app img rollbackOf gen ci triggeredBy now =
     (case insertDeploy d rid app
             \<lparr>o_trigger = ''rollback'', o_image = img, o_rollbackOf = rollbackOf, o_generation = gen,
              o_commitMessage = ci_message ci, o_commitAuthorAt = ci_authorAt ci, o_triggeredBy = triggeredBy,
              o_clearCache = False, o_buildId = ci_buildId ci\<rparr> img (ci_hash ci) (supersededByReason rid) now of
        Inl e \<Rightarrow> Inl (classify e)
      | Inr r \<Rightarrow> Inr r)"

text \<open>\<open>ORDER BY created_at, id LIMIT 1\<close>; ids are compared as SQL compares them, by \<open>id_less\<close>.\<close>

fun oldest_row :: "(string \<Rightarrow> string \<Rightarrow> bool) \<Rightarrow> deploy_row list \<Rightarrow> deploy_row option" where
  "oldest_row id_less [] = None"
| "oldest_row id_less (r # rs) =
     (case oldest_row id_less rs of
        None \<Rightarrow> Some r
      | Some q \<Rightarrow> if r_created q < r_created r \<or> (r_created q = r_created r \<and> id_less (r_id q) (r_id r)) then Some q else Some r)"

definition EnsureCheckedDeploy ::
  "(string \<Rightarrow> string \<Rightarrow> bool) \<Rightarrow> deploy_db \<Rightarrow> string \<Rightarrow> string \<Rightarrow> int \<Rightarrow> commit_info \<Rightarrow> int \<Rightarrow> store_error + (deploy_row \<times> deploy_db)" where
  "EnsureCheckedDeploy id_less d rid app gen ci now =
     (if app \<notin> set (db_apps d) then Inl ErrNotFound
      else (case oldest_row id_less (filter (\<lambda>r. r_app r = app \<and> r_generation r = gen) (db_rows d)) of
              Some existing \<Rightarrow>
                if o_trigger (r_origin existing) \<noteq> ''new_commit'' \<or> r_commit existing \<noteq> ci_hash ci
                   \<or> r_image existing \<noteq> [] \<or> o_triggeredBy (r_origin existing) \<noteq> []
                then Inl ErrConflict else Inr (existing, d)
            | None \<Rightarrow>
                (case insertDeploy d rid app
                        \<lparr>o_trigger = ''new_commit'', o_image = [], o_rollbackOf = [], o_generation = gen,
                         o_commitMessage = ci_message ci, o_commitAuthorAt = ci_authorAt ci, o_triggeredBy = [],
                         o_clearCache = False, o_buildId = []\<rparr> [] (ci_hash ci) (supersededByReason rid) now of
                   Inl e \<Rightarrow> Inl (classify e)
                 | Inr r \<Rightarrow> Inr r)))"

section \<open>Rows that come and go with their App\<close>

text \<open>
  \<open>CreateApp\<close> mints the id of the App, unless it is a build source that brings its own, and inserts the App with its
  first deploy row. A conflict of names refuses the transaction; the names are not in the model, so such an
  attempt is no step. The disk and the display name it also writes are outside these tables.
\<close>

definition FirstDeployGeneration :: int where "FirstDeployGeneration = 1"

definition CreateApp :: "deploy_db \<Rightarrow> string \<Rightarrow> string \<Rightarrow> string \<Rightarrow> commit_info \<Rightarrow> string \<Rightarrow> int \<Rightarrow> store_error + (deploy_row \<times> deploy_db)" where
  "CreateApp d rid app img ci by now =
     (if app \<in> set (db_apps d) then Inl ErrConflict
      else
        let d1 = d\<lparr>db_apps := db_apps d @ [app]\<rparr>;
            r = fresh_row rid app
                  \<lparr>o_trigger = ''create'', o_image = img, o_rollbackOf = [], o_generation = FirstDeployGeneration,
                   o_commitMessage = ci_message ci, o_commitAuthorAt = None, o_triggeredBy = by,
                   o_clearCache = False, o_buildId = []\<rparr> [] (ci_hash ci) DeployCreated [] now in
        (case commit_rows d1 (db_rows d1 @ [r]) of
           Inl e \<Rightarrow> Inl (classify e)
         | Inr d2 \<Rightarrow> Inr (r, d2)))"

text \<open>\<open>linked\<close>: the App is a build source that a service still links. The rows and facts of the App cascade.\<close>

definition DeleteApp :: "deploy_db \<Rightarrow> string \<Rightarrow> bool \<Rightarrow> store_error + deploy_db" where
  "DeleteApp d app linked =
     (if app \<notin> set (db_apps d) then Inl ErrNotFound
      else if linked then Inl ErrConflict
      else Inr (d\<lparr>db_apps := filter (\<lambda>a. a \<noteq> app) (db_apps d), db_rows := filter (\<lambda>r. r_app r \<noteq> app) (db_rows d),
                  db_facts := filter (\<lambda>f. f_app f \<noteq> app) (db_facts d)\<rparr>))"

text \<open>What \<open>CleanupAccountSubject\<close> does to the deploys of a deleted account.\<close>

definition attributed :: "string \<Rightarrow> deploy_row \<Rightarrow> deploy_row" where
  "attributed by r = r\<lparr>r_origin := (r_origin r)\<lparr>o_triggeredBy := by\<rparr>\<rparr>"

definition CleanupAccountSubject :: "deploy_db \<Rightarrow> string \<Rightarrow> string \<Rightarrow> store_error + deploy_db" where
  "CleanupAccountSubject d subject marker =
     (if marker = [] then Inl ErrInvalid
      else Inr (d\<lparr>db_rows := update_where (\<lambda>r. o_triggeredBy (r_origin r) = subject) (attributed marker) (db_rows d)\<rparr>))"

section \<open>Runs\<close>

text \<open>
  Every statement of the program that touches a deploy row, with the clock it reads. A statement that is
  refused leaves the tables as they were; statements of several callers interleave in any order.
\<close>

datatype deploy_op =
    OpCreate string string string string int commit_info string bool
  | OpRestart string string string int commit_info string
  | OpRollback string string string string int commit_info string
  | OpChecked string string int commit_info
  | OpTransition string transition_args
  | OpClose string deploy_status string
  | OpPreDeploy string pre_status
  | OpStall string string
  | OpSettle string int pre_status int
  | OpCreateApp string string string commit_info string
  | OpDeleteApp string bool
  | OpForget string string

definition settle :: "'d \<Rightarrow> ('a \<Rightarrow> 'd) \<Rightarrow> 'e + 'a \<Rightarrow> 'd" where
  "settle d f res = (case res of Inl _ \<Rightarrow> d | Inr x \<Rightarrow> f x)"

fun deploy_step :: "(string \<Rightarrow> string \<Rightarrow> bool) \<Rightarrow> int \<times> deploy_op \<Rightarrow> deploy_db \<Rightarrow> deploy_db" where
  "deploy_step idl (now, OpCreate rid app trigger img gen ci by cc) d =
     settle d snd (CreateDeploy d rid app trigger img gen ci by cc now)"
| "deploy_step idl (now, OpRestart rid app img gen ci by) d =
     settle d snd (CreateRestartDeploy d rid app img gen ci by now)"
| "deploy_step idl (now, OpRollback rid app img target gen ci by) d =
     settle d snd (CreateRollbackDeploy d rid app img target gen ci by now)"
| "deploy_step idl (now, OpChecked rid app gen ci) d = settle d snd (EnsureCheckedDeploy idl d rid app gen ci now)"
| "deploy_step idl (now, OpTransition rid t) d = settle d snd (TransitionDeploy d rid t now)"
| "deploy_step idl (now, OpClose rid st img) d = settle d snd (CloseDeploy d rid st img now)"
| "deploy_step idl (now, OpPreDeploy rid p) d = settle d snd (SetDeployPreDeployStatus d rid p now)"
| "deploy_step idl (now, OpStall rid reason) d = settle d id (SetDeployStallReason d rid reason)"
| "deploy_step idl (now, OpSettle app gen p fin) d = settle d snd (SettleCanceledPreDeploy d app gen p fin now)"
| "deploy_step idl (now, OpCreateApp rid app img ci by) d = settle d snd (CreateApp d rid app img ci by now)"
| "deploy_step idl (now, OpDeleteApp app linked) d = settle d id (DeleteApp d app linked)"
| "deploy_step idl (now, OpForget subject marker) d = settle d id (CleanupAccountSubject d subject marker)"

text \<open>The statements that end an App, and what the deletion of an account leaves of \<open>triggered_by\<close>.\<close>

fun deletes_app :: "string \<Rightarrow> deploy_op \<Rightarrow> bool" where
  "deletes_app app (OpDeleteApp a linked) \<longleftrightarrow> a = app \<and> \<not> linked"
| "deletes_app app _ \<longleftrightarrow> False"

fun renamed :: "deploy_op \<Rightarrow> string \<Rightarrow> string" where
  "renamed (OpForget subject marker) by = (if by = subject \<and> marker \<noteq> [] then marker else by)"
| "renamed _ by = by"

definition empty_db :: "string list \<Rightarrow> deploy_db" where
  "empty_db apps = \<lparr>db_apps = apps, db_rows = [], db_facts = []\<rparr>"

section \<open>The invariant of the table\<close>

definition isLive :: "deploy_row \<Rightarrow> bool" where
  "isLive r \<longleftrightarrow> r_status r = DeployLive"

definition row_ok :: "deploy_row \<Rightarrow> bool" where
  "row_ok r \<longleftrightarrow>
     (r_overlap r \<longrightarrow> r_status r = DeployQueued) \<and>
     (r_finished r \<noteq> None \<longleftrightarrow> \<not> IsOpenDeployStatus (r_status r)) \<and>
     (r_preDeploy r = PreDeployRunning \<longrightarrow> IsOpenDeployStatus (r_status r))"

definition one_per_app :: "(deploy_row \<Rightarrow> bool) \<Rightarrow> deploy_row list \<Rightarrow> bool" where
  "one_per_app P rs \<longleftrightarrow> (\<forall>a\<in>set rs. \<forall>b\<in>set rs. P a \<and> P b \<and> r_app a = r_app b \<longrightarrow> a = b)"

definition pending_newer :: "deploy_row list \<Rightarrow> bool" where
  "pending_newer rs \<longleftrightarrow>
     (\<forall>a\<in>set rs. \<forall>p\<in>set rs. isActive a \<and> isPending p \<and> r_app a = r_app p \<longrightarrow> r_generation a < r_generation p)"

definition db_ok :: "deploy_db \<Rightarrow> bool" where
  "db_ok d \<longleftrightarrow>
     distinct (map r_id (db_rows d)) \<and> one_per_app isActive (db_rows d) \<and> one_per_app isPending (db_rows d) \<and>
     one_per_app isLive (db_rows d) \<and> pending_newer (db_rows d) \<and> (\<forall>r\<in>set (db_rows d). row_ok r) \<and>
     (\<forall>r\<in>set (db_rows d). r_app r \<in> set (db_apps d)) \<and> distinct (map f_key (db_facts d))"

lemma distinct_filter_app:
  assumes "distinct (map r_id rs)"
  shows "distinct (map r_app (filter P rs)) \<longleftrightarrow> one_per_app P rs"
  using assms by (auto simp: distinct_map inj_on_def one_per_app_def)

lemma commit_rows_Inr:
  "commit_rows d rs = Inr d' \<longleftrightarrow>
     d' = d\<lparr>db_rows := rs\<rparr> \<and> (\<forall>r\<in>set rs. row_checks r) \<and> distinct (map r_id rs) \<and> one_per_app isActive rs \<and>
     one_per_app isPending rs \<and> (\<forall>r\<in>set rs. r_app r \<in> set (db_apps d))"
  using distinct_filter_app by (auto simp: commit_rows_def unique_rows_def list_all_iff)

lemma set_update_where: "set (update_where p f rs) = (\<lambda>r. if p r then f r else r) ` set rs"
  by (auto simp: update_where_def)

lemma row_by_id_Some: "row_by_id rs i = Some r \<Longrightarrow> r \<in> set rs \<and> r_id r = i"
  by (induction rs) (auto split: if_splits)

lemma row_by_id_unique:
  "distinct (map r_id rs) \<Longrightarrow> r \<in> set rs \<Longrightarrow> row_by_id rs (r_id r) = Some r"
  by (induction rs) (auto split: if_splits)

lemma insertFact_distinct: "distinct (map f_key fs) \<Longrightarrow> distinct (map f_key (insertFact f fs))"
  by (auto simp: insertFact_def)

lemma insertFacts_distinct: "distinct (map f_key fs) \<Longrightarrow> distinct (map f_key (fold (\<lambda>x. insertFact (g x)) xs fs))"
  by (induction xs arbitrary: fs) (auto simp: insertFact_distinct)

text \<open>How a row may change in its life.\<close>

definition evolves :: "deploy_row \<Rightarrow> deploy_row \<Rightarrow> bool" where
  "evolves r q \<longleftrightarrow>
     r_id q = r_id r \<and> r_app q = r_app r \<and> r_origin q = r_origin r \<and> r_created q = r_created r \<and>
     (r_overlap q \<longrightarrow> r_overlap r) \<and> phase (r_status r) \<le> phase (r_status q) \<and>
     r_updated r \<le> r_updated q \<and> (r_status q \<noteq> r_status r \<longrightarrow> r_updated r < r_updated q) \<and>
     (IsOpenDeployStatus (r_status r) \<or> r_status q = r_status r \<or> (r_status r = DeployLive \<and> r_status q = DeployDeactivated)) \<and>
     (r_finished r = None \<or> r_finished q = r_finished r) \<and> (r_started r = None \<or> r_started q = r_started r) \<and>
     (r_commit r = [] \<or> r_commit q = r_commit r)"

lemma evolves_refl [simp]: "evolves r r"
  by (simp add: evolves_def)

lemma evolves_trans: "evolves a b \<Longrightarrow> evolves b c \<Longrightarrow> evolves a c"
  unfolding evolves_def by (elim conjE; intro conjI; (linarith | (cases "r_status b = r_status a"; force)))

lemma one_per_app_map:
  assumes one: "one_per_app P rs" and keep: "\<forall>r\<in>set rs. r_app (g r) = r_app r \<and> (P (g r) \<longrightarrow> P r)"
  shows "one_per_app P (map g rs)"
proof -
  have "g a = g b" if "a \<in> set rs" "b \<in> set rs" "P (g a)" "P (g b)" "r_app (g a) = r_app (g b)" for a b
  proof -
    from that keep have "P a" "P b" "r_app a = r_app b" by auto
    with one that have "a = b" by (simp add: one_per_app_def)
    then show ?thesis by simp
  qed
  then show ?thesis by (auto simp: one_per_app_def)
qed

lemma open_row_slot: "row_ok r \<Longrightarrow> IsOpenDeployStatus (r_status r) \<Longrightarrow> isActive r \<or> isPending r"
  by (auto simp: row_ok_def isActive_def isPending_def)

lemma evolves_slots:
  assumes "evolves r q" "row_ok r" "row_ok q"
  shows "isPending q \<Longrightarrow> isPending r" and "isActive q \<Longrightarrow> isActive r \<or> isPending r"
proof -
  have opens: "IsOpenDeployStatus (r_status q) \<Longrightarrow> IsOpenDeployStatus (r_status r)"
    using assms(1) by (auto simp: evolves_def)
  show "isPending r" if "isPending q"
    using that assms by (auto simp: evolves_def isPending_def row_ok_def)
  show "isActive r \<or> isPending r" if "isActive q"
    using that opens open_row_slot [OF assms(2)] by (auto simp: isActive_def)
qed

lemma pending_newer_map:
  assumes ev: "\<forall>r\<in>set rs. evolves r (g r) \<and> row_ok r \<and> row_ok (g r)"
    and pn: "pending_newer rs" and one: "one_per_app isPending rs"
  shows "pending_newer (map g rs)"
proof -
  have "r_generation (g a) < r_generation (g p)"
    if in_rs: "a \<in> set rs" "p \<in> set rs" and act: "isActive (g a)" and pend: "isPending (g p)" and app: "r_app (g a) = r_app (g p)" for a p
  proof -
    have same: "r_app a = r_app p" "r_origin (g a) = r_origin a" "r_origin (g p) = r_origin p"
      using in_rs app ev by (auto simp: evolves_def)
    have p: "isPending p" using evolves_slots(1) [of p "g p"] in_rs ev pend by blast
    have "isActive a \<or> isPending a" using evolves_slots(2) [of a "g a"] in_rs ev act by blast
    then show ?thesis
    proof
      assume "isActive a"
      with pn p in_rs same show ?thesis by (simp add: pending_newer_def)
    next
      assume "isPending a"
      with one p in_rs same have "a = p" by (simp add: one_per_app_def)
      with act pend show ?thesis by (simp add: isActive_def isPending_def)
    qed
  qed
  then show ?thesis by (auto simp: pending_newer_def)
qed

text \<open>A statement that rewrites rows one by one keeps the invariant, if it keeps the live row unique.\<close>

lemma remap_ok:
  assumes ok: "db_ok d" and cm: "commit_rows d (map g (db_rows d)) = Inr d'"
    and ev: "\<forall>r\<in>set (db_rows d). evolves r (g r) \<and> row_ok (g r)"
    and live: "one_per_app isLive (map g (db_rows d))"
  shows "db_ok d'"
proof -
  have "pending_newer (map g (db_rows d))"
    using pending_newer_map [of "db_rows d" g] ok ev by (simp add: db_ok_def)
  with ok cm ev live show ?thesis by (auto simp: commit_rows_Inr db_ok_def)
qed

lemma remap_quiet:
  assumes ok: "db_ok d" and cm: "commit_rows d (map g (db_rows d)) = Inr d'"
    and ev: "\<forall>r\<in>set (db_rows d). evolves r (g r) \<and> row_ok (g r) \<and> (isLive (g r) \<longrightarrow> isLive r)"
  shows "db_ok d'"
proof (rule remap_ok [OF ok cm])
  show "\<forall>r\<in>set (db_rows d). evolves r (g r) \<and> row_ok (g r)" using ev by blast
  show "one_per_app isLive (map g (db_rows d))"
    using ok ev by (intro one_per_app_map) (auto simp: db_ok_def evolves_def)
qed

lemma db_ok_facts: "db_ok d \<Longrightarrow> distinct (map f_key fs) \<Longrightarrow> db_ok (d\<lparr>db_facts := fs\<rparr>)"
  by (simp add: db_ok_def)

section \<open>Each statement keeps the invariant\<close>

lemma transitioned_fields [simp]:
  "r_id (transitioned t now r) = r_id r" "r_app (transitioned t now r) = r_app r"
  "r_origin (transitioned t now r) = r_origin r" "r_status (transitioned t now r) = ta_status t"
  "r_created (transitioned t now r) = r_created r"
  "r_cancel (transitioned t now r) = or_text (ta_cancel t) (r_cancel r)"
  "r_failure (transitioned t now r) = or_text (ta_failure t) (r_failure r)"
  "r_overlap (transitioned t now r) \<longleftrightarrow> ta_status t = DeployQueued \<and> r_overlap r"
  "r_updated (transitioned t now r) = touched now (r_updated r)"
  "r_preDeploy (transitioned t now r) = settled_pre_deploy (ta_status t) (r_preDeploy r)"
  "r_finished (transitioned t now r) =
     (if IsOpenDeployStatus (ta_status t) then r_finished r else coalesce (r_finished r) (Some now))"
  "r_started (transitioned t now r) =
     coalesce (r_started r) (if DeployStatusStampsDispatch (ta_status t) then Some now else ta_started t)"
  by (simp_all add: transitioned_def Let_def)

lemma transitioned_commit: "r_commit r \<noteq> [] \<Longrightarrow> r_commit (transitioned t now r) = r_commit r"
  by (simp add: transitioned_def Let_def)

lemma coalesce_Some [simp]: "coalesce (Some x) y = Some x" "coalesce None y = y" "coalesce z (Some w) \<noteq> None"
  by (simp_all add: coalesce_def split: option.splits)

lemma touched_less [simp]: "u < touched now u" "u \<le> touched now u"
  by (simp_all add: touched_def)

lemma transitioned_evolves:
  assumes "CanTransitionDeploy (r_status r) (ta_status t)" and "row_ok r"
  shows "evolves r (transitioned t now r)" and "row_ok (transitioned t now r)"
proof -
  have adv: "phase (r_status r) \<le> phase (ta_status t)" using transition_advances [OF assms(1)] by simp
  have ends: "IsOpenDeployStatus (r_status r) \<or> (r_status r = DeployLive \<and> ta_status t = DeployDeactivated)"
    using assms(1) transition_leaves_open_row [OF assms(1)]
    by (cases "ta_status t = DeployDeactivated") (simp_all add: transition_deactivates_live)
  have fin: "r_finished r = None \<or> r_finished (transitioned t now r) = r_finished r"
    by (cases "r_finished r") simp_all
  have start: "r_started r = None \<or> r_started (transitioned t now r) = r_started r"
    by (cases "r_started r") simp_all
  have com: "r_commit r = [] \<or> r_commit (transitioned t now r) = r_commit r"
    using transitioned_commit by blast
  show "evolves r (transitioned t now r)"
    unfolding evolves_def using adv ends fin start com by (simp; blast)
  show "row_ok (transitioned t now r)"
    using assms(2) ends by (cases "ta_status t"; cases "r_finished r"; simp add: row_ok_def settled_pre_deploy_def)
qed

lemma deactivated_evolves:
  assumes "r_status r = DeployLive" and "row_ok r"
  shows "evolves r (deactivated now r)" and "row_ok (deactivated now r)"
  using assms by (auto simp: deactivated_def evolves_def row_ok_def touched_def)

text \<open>The statements that rewrite the rows they hit and leave the live one alone.\<close>

lemma update_quiet:
  assumes ok: "db_ok d" and cm: "commit_rows d (update_where p f (db_rows d)) = Inr d'"
    and hit: "\<And>r. r \<in> set (db_rows d) \<Longrightarrow> p r \<Longrightarrow> row_ok r \<Longrightarrow>
                evolves r (f r) \<and> row_ok (f r) \<and> (isLive (f r) \<longrightarrow> isLive r)"
  shows "db_ok d'" and "\<forall>r\<in>set (db_rows d). \<exists>q\<in>set (db_rows d'). evolves r q"
proof -
  let ?g = "\<lambda>r. if p r then f r else r"
  have ev: "\<forall>r\<in>set (db_rows d). evolves r (?g r) \<and> row_ok (?g r) \<and> (isLive (?g r) \<longrightarrow> isLive r)"
    using hit ok by (simp add: db_ok_def)
  show "db_ok d'" by (rule remap_quiet [OF ok _ ev]) (use cm in \<open>simp add: update_where_def\<close>)
  have "db_rows d' = map ?g (db_rows d)"
    using cm by (simp add: commit_rows_Inr update_where_def)
  then have "?g r \<in> set (db_rows d')" if "r \<in> set (db_rows d)" for r using that by simp
  with ev show "\<forall>r\<in>set (db_rows d). \<exists>q\<in>set (db_rows d'). evolves r q" by blast
qed

definition moves :: "deploy_db \<Rightarrow> deploy_db \<Rightarrow> bool" where
  "moves d d' \<longleftrightarrow> db_ok d' \<and> db_apps d' = db_apps d \<and> (\<forall>r\<in>set (db_rows d). \<exists>q\<in>set (db_rows d'). evolves r q)"

lemma moves_refl: "db_ok d \<Longrightarrow> moves d d"
  by (auto simp: moves_def intro: evolves_refl)

lemma moves_trans: "moves a b \<Longrightarrow> moves b c \<Longrightarrow> moves a c"
  unfolding moves_def using evolves_trans by metis

lemma moves_facts: "moves d e \<Longrightarrow> distinct (map f_key fs) \<Longrightarrow> moves d (e\<lparr>db_facts := fs\<rparr>)"
  by (auto simp: moves_def db_ok_def)

lemma update_moves:
  assumes "db_ok d" and "commit_rows d (update_where p f (db_rows d)) = Inr d'"
    and "\<And>r. r \<in> set (db_rows d) \<Longrightarrow> p r \<Longrightarrow> row_ok r \<Longrightarrow> evolves r (f r) \<and> row_ok (f r) \<and> (isLive (f r) \<longrightarrow> isLive r)"
  shows "moves d d'"
  unfolding moves_def using update_quiet [OF assms] assms(2) by (simp add: commit_rows_Inr)

text \<open>Going live is one transaction: the row moves, and the row that was live becomes history.\<close>

lemma go_live_moves:
  assumes ok: "db_ok d" and r0: "r0 \<in> set (db_rows d)" "r_id r0 = rid"
    and can: "CanTransitionDeploy (r_status r0) (ta_status t)" and live: "ta_status t = DeployLive"
    and c1: "commit_rows d (update_where (\<lambda>q. r_id q = rid) (transitioned t now) (db_rows d)) = Inr d1"
    and c2: "commit_rows d1 (update_where (\<lambda>q. r_app q = r_app r0 \<and> r_id q \<noteq> rid \<and> r_status q = DeployLive)
               (deactivated now) (db_rows d1)) = Inr d2"
  shows "moves d d2"
proof -
  define g where "g = (\<lambda>q. if r_id q = rid then transitioned t now q
                      else if r_app q = r_app r0 \<and> r_status q = DeployLive then deactivated now q else q)"
  have uniq: "\<forall>q\<in>set (db_rows d). r_id q = rid \<longrightarrow> q = r0"
    using ok r0 by (auto simp: db_ok_def distinct_map inj_on_def)
  have rows: "db_rows d2 = map g (db_rows d)" "db_apps d2 = db_apps d"
    using c1 c2 by (auto simp: commit_rows_Inr update_where_def g_def)
  have cm: "commit_rows d (map g (db_rows d)) = Inr d2"
    using c1 c2 rows by (auto simp: commit_rows_Inr)
  have ev: "\<forall>q\<in>set (db_rows d). evolves q (g q) \<and> row_ok (g q)"
  proof
    fix q assume q: "q \<in> set (db_rows d)"
    with ok have "row_ok q" by (simp add: db_ok_def)
    then show "evolves q (g q) \<and> row_ok (g q)"
      using uniq q can deactivated_evolves transitioned_evolves by (auto simp: g_def)
  qed
  have once: "one_per_app isLive (map g (db_rows d))"
  proof -
    have src: "x = r0 \<or> (isLive x \<and> r_app x \<noteq> r_app r0)" if "x \<in> set (db_rows d)" "isLive (g x)" for x
      using that uniq by (auto simp: g_def isLive_def deactivated_def split: if_splits)
    have app: "r_app (g x) = r_app x" for x by (simp add: g_def deactivated_def)
    have "one_per_app isLive (db_rows d)" using ok by (simp add: db_ok_def)
    then have "g a = g b" if "a \<in> set (db_rows d)" "b \<in> set (db_rows d)" "isLive (g a)" "isLive (g b)" "r_app a = r_app b" for a b
      using src [OF that(1,3)] src [OF that(2,4)] that unfolding one_per_app_def by metis
    then show ?thesis by (auto simp: one_per_app_def app)
  qed
  have "db_ok d2" by (rule remap_ok [OF ok cm ev once])
  then show ?thesis using rows ev by (auto simp: moves_def)
qed

text \<open>The ways a transition ends that is not refused.\<close>

lemma TransitionDeploy_cases:
  assumes res: "TransitionDeploy d rid t now = Inr (moved, d')"
  obtains (stays) "\<not> moved" "d' = d"
    | (frees) r0 where "row_by_id (db_rows d) rid = Some r0"
        "r_status r0 = ta_status t" "r_status r0 = DeployQueued" "r_overlap r0"
        "commit_rows d (update_where (\<lambda>q. r_id q = rid \<and> r_overlap q) (\<lambda>q. q\<lparr>r_overlap := False\<rparr>) (db_rows d)) = Inr d'"
    | (goes) r0 d1 d2 where "row_by_id (db_rows d) rid = Some r0" "CanTransitionDeploy (r_status r0) (ta_status t)"
        "commit_rows d (update_where (\<lambda>q. r_id q = rid) (transitioned t now) (db_rows d)) = Inr d1"
        "(if ta_status t = DeployLive then
            commit_rows d1 (update_where (\<lambda>q. r_app q = r_app r0 \<and> r_id q \<noteq> rid \<and> r_status q = DeployLive)
                              (deactivated now) (db_rows d1))
          else Inr d1) = Inr d2"
        "d' = (if ta_code t = ''image_pull_backoff'' then
                 (case row_by_id (db_rows d2) rid of None \<Rightarrow> d2
                  | Some q \<Rightarrow> d2\<lparr>db_facts := insertFact (image_pull_fact now q) (db_facts d2)\<rparr>) else d2)"
proof (cases "row_by_id (db_rows d) rid")
  case None
  with res stays show thesis by (auto simp: TransitionDeploy_def)
next
  case (Some r0)
  consider (free) "r_status r0 = ta_status t \<and> r_status r0 = DeployQueued \<and> r_overlap r0"
    | (no) "\<not> (r_status r0 = ta_status t \<and> r_status r0 = DeployQueued \<and> r_overlap r0)"
           "\<not> CanTransitionDeploy (r_status r0) (ta_status t)"
    | (go) "CanTransitionDeploy (r_status r0) (ta_status t)"
           "\<not> (r_status r0 = ta_status t \<and> r_status r0 = DeployQueued \<and> r_overlap r0)"
    by blast
  then show thesis
  proof cases
    case free
    with res Some frees show thesis by (auto simp: TransitionDeploy_def rbind_Inr_iff)
  next
    case no
    with res Some have "\<not> moved \<and> d' = d" by (auto simp: TransitionDeploy_def split: if_splits)
    with stays show thesis by blast
  next
    case go
    let ?upd = "\<lambda>rs. update_where (\<lambda>q. r_id q = rid) (transitioned t now) rs"
    let ?dea = "\<lambda>rs. update_where (\<lambda>q. r_app q = r_app r0 \<and> r_id q \<noteq> rid \<and> r_status q = DeployLive) (deactivated now) rs"
    let ?log = "\<lambda>d2. if ta_code t = ''image_pull_backoff'' then
                   (case row_by_id (db_rows d2) rid of None \<Rightarrow> d2
                    | Some q \<Rightarrow> d2\<lparr>db_facts := insertFact (image_pull_fact now q) (db_facts d2)\<rparr>) else d2"
    have "rbind (commit_rows d (?upd (db_rows d)))
            (\<lambda>d1. rbind (if ta_status t = DeployLive then commit_rows d1 (?dea (db_rows d1)) else Inr d1)
               (\<lambda>d2. Inr (True, ?log d2))) = Inr (moved, d')"
      using res Some go unfolding TransitionDeploy_def by (simp split del: if_split)
    then obtain d1 d2 where "commit_rows d (?upd (db_rows d)) = Inr d1"
      "(if ta_status t = DeployLive then commit_rows d1 (?dea (db_rows d1)) else Inr d1) = Inr d2" "d' = ?log d2"
      unfolding rbind_Inr_iff by blast
    with goes [OF Some go(1)] show thesis by blast
  qed
qed

lemma id_unique: "db_ok d \<Longrightarrow> row_by_id (db_rows d) rid = Some r0 \<Longrightarrow> \<forall>q\<in>set (db_rows d). r_id q = rid \<longrightarrow> q = r0"
  by (auto simp: db_ok_def distinct_map inj_on_def dest!: row_by_id_Some)

lemma TransitionDeploy_moves:
  assumes ok: "db_ok d" and res: "TransitionDeploy d rid t now = Inr (moved, d')"
  shows "moves d d'"
  using res
proof (cases rule: TransitionDeploy_cases)
  case stays
  with ok show ?thesis by (simp add: moves_refl)
next
  case (frees r0)
  from update_moves [OF ok frees(5)] show ?thesis by (auto simp: evolves_def row_ok_def isLive_def)
next
  case (goes r0 d1 d2)
  have uniq: "\<forall>q\<in>set (db_rows d). r_id q = rid \<longrightarrow> q = r0" by (rule id_unique [OF ok goes(1)])
  have m: "moves d d2"
  proof (cases "ta_status t = DeployLive")
    case True
    with goes row_by_id_Some [OF goes(1)] show ?thesis
      by (intro go_live_moves [OF ok _ _ goes(2) True goes(3)]) simp_all
  next
    case False
    then have "d2 = d1" using goes(4) by simp
    have "moves d d1"
      by (rule update_moves [OF ok goes(3)])
         (use uniq goes(2) transitioned_evolves False in \<open>auto simp: isLive_def\<close>)
    with \<open>d2 = d1\<close> show ?thesis by simp
  qed
  then have "distinct (map f_key (db_facts d2))" by (simp add: moves_def db_ok_def)
  with m goes(5) show ?thesis by (auto intro: moves_facts insertFact_distinct split: if_splits option.splits)
qed

text \<open>Where a row after the transition comes from.\<close>

lemma TransitionDeploy_frame:
  assumes ok: "db_ok d" and res: "TransitionDeploy d rid t now = Inr (moved, d')" and q: "q \<in> set (db_rows d')"
  shows "\<exists>p\<in>set (db_rows d).
           q = p \<or> (r_id p = rid \<and> q = p\<lparr>r_overlap := False\<rparr>) \<or>
           (r_id p = rid \<and> CanTransitionDeploy (r_status p) (ta_status t) \<and> q = transitioned t now p) \<or>
           (r_id p \<noteq> rid \<and> r_status p = DeployLive \<and> ta_status t = DeployLive \<and> q = deactivated now p)"
  using res
proof (cases rule: TransitionDeploy_cases)
  case stays
  with q show ?thesis by blast
next
  case (frees r0)
  with q show ?thesis by (auto simp: commit_rows_Inr set_update_where split: if_splits)
next
  case (goes r0 d1 d2)
  have uniq: "\<forall>p\<in>set (db_rows d). r_id p = rid \<longrightarrow> p = r0" by (rule id_unique [OF ok goes(1)])
  have rows: "db_rows d' = db_rows d2" using goes(5) by (auto split: if_splits option.splits)
  let ?upd = "\<lambda>p. if r_id p = rid then transitioned t now p else p"
  have "db_rows d1 = map ?upd (db_rows d)" using goes(3) by (simp add: commit_rows_Inr update_where_def)
  moreover have "q \<in> set (db_rows d1) \<or> (\<exists>p\<in>set (db_rows d1). ta_status t = DeployLive \<and> r_id p \<noteq> rid \<and>
      r_status p = DeployLive \<and> q = deactivated now p)"
    using goes(4) q rows by (auto simp: commit_rows_Inr set_update_where split: if_splits)
  ultimately consider (upd) p where "p \<in> set (db_rows d)" "q = ?upd p"
    | (old) p where "p \<in> set (db_rows d)" "ta_status t = DeployLive" "r_id (?upd p) \<noteq> rid"
        "r_status (?upd p) = DeployLive" "q = deactivated now (?upd p)"
    by (auto simp: image_iff)
  then show ?thesis
  proof cases
    case (upd p)
    then show ?thesis using uniq goes(2) by (intro bexI [of _ p]) (cases "r_id p = rid"; simp)+
  next
    case (old p)
    then have "r_id p \<noteq> rid" by (cases "r_id p = rid") simp_all
    with old show ?thesis by (intro bexI [of _ p]) simp_all
  qed
qed

text \<open>A table that satisfies the invariant is one Postgres accepts.\<close>

lemma commit_rows_ok:
  assumes "db_ok (d\<lparr>db_rows := rs\<rparr>)"
  shows "commit_rows d rs = Inr (d\<lparr>db_rows := rs\<rparr>)"
  using assms by (auto simp: commit_rows_Inr db_ok_def row_ok_def row_checks_def)

lemma remap_safe:
  assumes ok: "db_ok d"
    and ev: "\<forall>r\<in>set (db_rows d). evolves r (g r) \<and> row_ok (g r) \<and> (isLive (g r) \<longrightarrow> isLive r) \<and> (isActive (g r) \<longrightarrow> isActive r)"
  shows "commit_rows d (map g (db_rows d)) = Inr (d\<lparr>db_rows := map g (db_rows d)\<rparr>)"
    and "moves d (d\<lparr>db_rows := map g (db_rows d)\<rparr>)"
proof -
  let ?rs = "db_rows d"
  have rok: "\<forall>r\<in>set ?rs. row_ok r" using ok by (simp add: db_ok_def)
  have keep: "\<forall>r\<in>set ?rs. r_app (g r) = r_app r" "map r_id (map g ?rs) = map r_id ?rs"
    using ev by (auto simp: evolves_def)
  have pend: "\<forall>r\<in>set ?rs. isPending (g r) \<longrightarrow> isPending r"
    using ev rok evolves_slots(1) by blast
  have "one_per_app isActive (map g ?rs)" "one_per_app isPending (map g ?rs)" "one_per_app isLive (map g ?rs)"
    by (rule one_per_app_map, use ok in \<open>simp add: db_ok_def\<close>, use ev keep pend in blast)+
  moreover have "pending_newer (map g ?rs)"
    using pending_newer_map [of ?rs g] ok ev rok by (simp add: db_ok_def)
  moreover have "distinct (map r_id (map g ?rs))" using ok keep(2) by (simp add: db_ok_def del: map_map)
  ultimately have ok': "db_ok (d\<lparr>db_rows := map g ?rs\<rparr>)"
    using ok ev keep(1) by (auto simp: db_ok_def)
  then show "commit_rows d (map g ?rs) = Inr (d\<lparr>db_rows := map g ?rs\<rparr>)" by (rule commit_rows_ok)
  show "moves d (d\<lparr>db_rows := map g ?rs\<rparr>)" using ok' ev by (auto simp: moves_def)
qed

lemma newest_row_None: "newest_row rs = None \<longleftrightarrow> rs = []"
  by (cases rs) (auto split: option.splits)

lemma newest_row_in: "newest_row rs = Some r \<Longrightarrow> r \<in> set rs"
  by (induction rs arbitrary: r) (auto split: option.splits if_splits)

lemma pending_canceled_fields [simp]:
  "r_id (pending_canceled reason now r) = r_id r" "r_app (pending_canceled reason now r) = r_app r"
  "r_origin (pending_canceled reason now r) = r_origin r" "r_status (pending_canceled reason now r) = DeployCanceled"
  "\<not> r_overlap (pending_canceled reason now r)"
  by (simp_all add: pending_canceled_def)

lemma pending_canceled_evolves:
  assumes "r_status r = DeployQueued" and "row_ok r"
  shows "evolves r (pending_canceled reason now r)" and "row_ok (pending_canceled reason now r)"
  using assms by (auto simp: pending_canceled_def evolves_def row_ok_def)

definition freed :: "string \<Rightarrow> string \<Rightarrow> int \<Rightarrow> deploy_row \<Rightarrow> deploy_row" where
  "freed app reason now r = (if r_app r = app \<and> isPending r then pending_canceled reason now r else r)"

lemma freed_fields [simp]:
  "r_id (freed app reason now r) = r_id r" "r_app (freed app reason now r) = r_app r"
  "r_origin (freed app reason now r) = r_origin r" "isLive (freed app reason now r) \<longleftrightarrow> isLive r"
  "isActive (freed app reason now r) \<longleftrightarrow> isActive r" "isPending (freed app reason now r) \<longleftrightarrow> isPending r \<and> r_app r \<noteq> app"
  "IsOpenDeployStatus (r_status (freed app reason now r)) \<longleftrightarrow>
     IsOpenDeployStatus (r_status r) \<and> \<not> (r_app r = app \<and> isPending r)"
  by (auto simp: freed_def isLive_def isActive_def isPending_def)

lemma cancelPendingDeploys_freed:
  "cancelPendingDeploys d app reason now = commit_rows d (map (freed app reason now) (db_rows d))"
  by (simp add: cancelPendingDeploys_def update_where_def freed_def [abs_def] isPending_def)

text \<open>Freeing the waiting slot is never refused.\<close>

lemma cancelPendingDeploys_moves:
  assumes ok: "db_ok d"
  shows "cancelPendingDeploys d app reason now = Inr (d\<lparr>db_rows := map (freed app reason now) (db_rows d)\<rparr>)"
    and "moves d (d\<lparr>db_rows := map (freed app reason now) (db_rows d)\<rparr>)"
proof -
  have "evolves r (freed app reason now r) \<and> row_ok (freed app reason now r)" if "r \<in> set (db_rows d)" for r
    using that ok pending_canceled_evolves by (auto simp: freed_def isPending_def db_ok_def)
  then have ev: "\<forall>r\<in>set (db_rows d). evolves r (freed app reason now r) \<and> row_ok (freed app reason now r) \<and>
      (isLive (freed app reason now r) \<longrightarrow> isLive r) \<and> (isActive (freed app reason now r) \<longrightarrow> isActive r)"
    by simp
  show "cancelPendingDeploys d app reason now = Inr (d\<lparr>db_rows := map (freed app reason now) (db_rows d)\<rparr>)"
    using remap_safe(1) [OF ok ev] by (simp add: cancelPendingDeploys_freed)
  show "moves d (d\<lparr>db_rows := map (freed app reason now) (db_rows d)\<rparr>)"
    by (rule remap_safe(2) [OF ok ev])
qed

text \<open>What the choice of the initial status guarantees.\<close>

definition seat :: "deploy_db \<Rightarrow> string \<Rightarrow> int \<Rightarrow> deploy_status \<Rightarrow> bool" where
  "seat d app gen st \<longleftrightarrow>
     st = DeployCanceled \<or>
     ((\<forall>r\<in>set (db_rows d). r_app r = app \<and> IsOpenDeployStatus (r_status r) \<longrightarrow> r_generation r < gen) \<and>
      (\<forall>r\<in>set (db_rows d). r_app r = app \<longrightarrow> \<not> isPending r) \<and>
      (if \<exists>r\<in>set (db_rows d). r_app r = app \<and> isActive r then st = DeployQueued else st = DeployCreated))"

lemma prepareDeployCreate_spec:
  assumes ok: "db_ok d" and app: "app \<in> set (db_apps d)"
  obtains st reason d1 where "prepareDeployCreate d app gen replaced now = Inr (st, reason, d1)"
    and "moves d d1" and "seat d1 app gen st" and "map r_id (db_rows d1) = map r_id (db_rows d)"
proof (cases "newest_row (filter (\<lambda>r. r_app r = app \<and> IsOpenDeployStatus (r_status r) \<and> gen \<le> r_generation r) (db_rows d))")
  case (Some newer)
  with app that [of DeployCanceled "supersededByReason (r_id newer)" d] ok show ?thesis
    by (simp add: prepareDeployCreate_def seat_def moves_refl)
next
  case None
  then have older: "\<forall>r\<in>set (db_rows d). r_app r = app \<and> IsOpenDeployStatus (r_status r) \<longrightarrow> r_generation r < gen"
    by (auto simp: newest_row_None filter_empty_conv)
  define d1 where "d1 = d\<lparr>db_rows := map (freed app replaced now) (db_rows d)\<rparr>"
  have d1: "cancelPendingDeploys d app replaced now = Inr d1" "moves d d1"
    unfolding d1_def using cancelPendingDeploys_moves [OF ok] by simp_all
  have free: "\<forall>r\<in>set (db_rows d1). r_app r = app \<longrightarrow> \<not> isPending r" by (auto simp: d1_def)
  have older1: "\<forall>r\<in>set (db_rows d1). r_app r = app \<and> IsOpenDeployStatus (r_status r) \<longrightarrow> r_generation r < gen"
    using older by (auto simp: d1_def)
  have ids: "map r_id (db_rows d1) = map r_id (db_rows d)" by (simp add: d1_def)
  have act: "list_ex (\<lambda>r. r_app r = app \<and> IsOpenDeployStatus (r_status r) \<and> \<not> r_overlap r) (db_rows d1) \<longleftrightarrow>
    (\<exists>r\<in>set (db_rows d1). r_app r = app \<and> isActive r)"
    by (simp add: list_ex_iff isActive_def)
  have seat1: "seat d1 app gen (if \<exists>r\<in>set (db_rows d1). r_app r = app \<and> isActive r then DeployQueued else DeployCreated)"
    using free older1 by (simp add: seat_def)
  have "prepareDeployCreate d app gen replaced now =
    Inr (if \<exists>r\<in>set (db_rows d1). r_app r = app \<and> isActive r then DeployQueued else DeployCreated, [], d1)"
    using app None act by (simp add: prepareDeployCreate_def d1(1))
  from that [OF this d1(2) seat1 ids] show ?thesis .
qed

lemma fresh_row_ok: "st \<in> {DeployCanceled, DeployQueued, DeployCreated} \<Longrightarrow> row_ok (fresh_row rid app org res c st reason now)"
  by (auto simp: row_ok_def fresh_row_def)

lemma seat_status: "seat d app gen st \<Longrightarrow> st \<in> {DeployCanceled, DeployQueued, DeployCreated}"
  by (auto simp: seat_def split: if_splits)

lemma one_per_app_snoc:
  assumes "one_per_app P rs" and "P r \<longrightarrow> (\<forall>q\<in>set rs. r_app q = r_app r \<longrightarrow> \<not> P q)"
  shows "one_per_app P (rs @ [r])"
  using assms by (auto simp: one_per_app_def)

lemma seated_row_ok:
  assumes ok: "db_ok d" and app: "app \<in> set (db_apps d)" and s: "seat d app (o_generation org) st"
    and new: "rid \<notin> set (map r_id (db_rows d))"
  shows "db_ok (d\<lparr>db_rows := db_rows d @ [fresh_row rid app org res c st reason now]\<rparr>)"
proof -
  let ?r = "fresh_row rid app org res c st reason now"
  let ?rs = "db_rows d"
  have st: "st \<in> {DeployCanceled, DeployQueued, DeployCreated}" using s by (rule seat_status)
  have fld: "r_app ?r = app" "r_origin ?r = org" "isLive ?r = (st = DeployLive)" "isPending ?r = (st = DeployQueued)"
    "isActive ?r = (st = DeployCreated)" "r_id ?r = rid"
    using st by (auto simp: fresh_row_def isLive_def isPending_def isActive_def)
  have "one_per_app isActive (?rs @ [?r])"
    by (rule one_per_app_snoc) (use ok s fld in \<open>auto simp: db_ok_def seat_def split: if_splits\<close>)
  moreover have "one_per_app isPending (?rs @ [?r])"
    by (rule one_per_app_snoc) (use ok s fld in \<open>auto simp: db_ok_def seat_def\<close>)
  moreover have "one_per_app isLive (?rs @ [?r])"
    by (rule one_per_app_snoc) (use ok st fld in \<open>auto simp: db_ok_def\<close>)
  moreover have "pending_newer (?rs @ [?r])"
  proof -
    have "r_generation a < r_generation p"
      if inr: "a \<in> set (?rs @ [?r])" "p \<in> set (?rs @ [?r])" and sl: "isActive a" "isPending p" "r_app a = r_app p" for a p
    proof -
      consider "a \<in> set ?rs" "p \<in> set ?rs" | "a = ?r" "p \<in> set ?rs" | "p = ?r" "a \<in> set ?rs" | "a = ?r" "p = ?r"
        using inr by auto
      then show ?thesis
      proof cases
        case 1
        with ok sl show ?thesis by (simp add: db_ok_def pending_newer_def)
      next
        case 2
        with sl fld s show ?thesis by (auto simp: seat_def split: if_splits)
      next
        case 3
        with sl fld s show ?thesis by (auto simp: seat_def isActive_def)
      next
        case 4
        with sl fld show ?thesis by auto
      qed
    qed
    then show ?thesis by (simp add: pending_newer_def)
  qed
  moreover have "row_ok ?r" using st by (rule fresh_row_ok)
  ultimately show ?thesis using ok app new fld by (auto simp: db_ok_def)
qed

text \<open>Opening a deploy is never refused: the service exists and the id is new, and then the row is there.\<close>

lemma insertDeploy_succeeds:
  assumes ok: "db_ok d" and app: "app \<in> set (db_apps d)" and new: "rid \<notin> set (map r_id (db_rows d))"
  obtains r d2 where "insertDeploy d rid app org res c replaced now = Inr (r, d2)" and "moves d d2"
proof -
  obtain st reason d1 where p: "prepareDeployCreate d app (o_generation org) replaced now = Inr (st, reason, d1)"
    "moves d d1" "seat d1 app (o_generation org) st" "map r_id (db_rows d1) = map r_id (db_rows d)"
    using prepareDeployCreate_spec [OF ok app] by metis
  let ?r = "fresh_row rid app org res c st reason now"
  have ok1: "db_ok d1" "db_apps d1 = db_apps d" using p(2) by (simp_all add: moves_def)
  have ok2: "db_ok (d1\<lparr>db_rows := db_rows d1 @ [?r]\<rparr>)"
    by (rule seated_row_ok [OF ok1(1) _ p(3)]) (use app new p(4) ok1(2) in simp_all)
  have m: "moves d1 (d1\<lparr>db_rows := db_rows d1 @ [?r]\<rparr>)"
    using ok2 by (auto simp: moves_def intro: evolves_refl)
  show thesis
    by (rule that [of ?r "d1\<lparr>db_rows := db_rows d1 @ [?r]\<rparr>"])
       (use moves_trans [OF p(2) m] commit_rows_ok [OF ok2] in \<open>simp_all add: insertDeploy_def p(1) Let_def\<close>)
qed

lemma insertDeploy_moves:
  assumes ok: "db_ok d" and res: "insertDeploy d rid app org rsv c replaced now = Inr (r, d2)"
  shows "moves d d2"
proof -
  have app: "app \<in> set (db_apps d)"
    using res by (auto simp: insertDeploy_def prepareDeployCreate_def split: if_splits)
  obtain st reason d1 where p: "prepareDeployCreate d app (o_generation org) replaced now = Inr (st, reason, d1)"
    "moves d d1" "seat d1 app (o_generation org) st" "map r_id (db_rows d1) = map r_id (db_rows d)"
    using prepareDeployCreate_spec [OF ok app] by metis
  from res have "commit_rows d1 (db_rows d1 @ [fresh_row rid app org rsv c st reason now]) = Inr d2"
    by (auto simp: insertDeploy_def p(1) Let_def rbind_Inr_iff)
  then have "rid \<notin> set (map r_id (db_rows d))"
    using p(4) by (auto simp: commit_rows_Inr fresh_row_def)
  from insertDeploy_succeeds [OF ok app this] res show ?thesis by (metis Inr_inject prod.inject)
qed

lemma createDeploy_moves:
  "db_ok d \<Longrightarrow> createDeploy f d rid app trigger img gen ci by cc now = Inr (r, d2) \<Longrightarrow> moves d d2"
  by (auto simp: createDeploy_def split: sum.splits dest: insertDeploy_moves)

lemma CreateRollbackDeploy_moves:
  "db_ok d \<Longrightarrow> CreateRollbackDeploy d rid app img target gen ci by now = Inr (r, d2) \<Longrightarrow> moves d d2"
  by (auto simp: CreateRollbackDeploy_def split: sum.splits dest: insertDeploy_moves)

lemma EnsureCheckedDeploy_moves:
  "db_ok d \<Longrightarrow> EnsureCheckedDeploy idl d rid app gen ci now = Inr (r, d2) \<Longrightarrow> moves d d2"
  by (auto simp: EnsureCheckedDeploy_def moves_refl split: sum.splits option.splits if_splits dest: insertDeploy_moves)

lemma SetDeployPreDeployStatus_moves:
  assumes ok: "db_ok d" and res: "SetDeployPreDeployStatus d rid p now = Inr (b, d')"
  shows "moves d d'"
proof -
  from res have "commit_rows d (update_where (\<lambda>r. r_id r = rid \<and> IsOpenDeployStatus (r_status r) \<and> r_preDeploy r \<noteq> p)
      (\<lambda>r. r\<lparr>r_preDeploy := p, r_updated := touched now (r_updated r)\<rparr>) (db_rows d)) = Inr d'"
    by (auto simp: SetDeployPreDeployStatus_def Let_def rbind_Inr_iff)
  from update_moves [OF ok this] show ?thesis by (auto simp: evolves_def row_ok_def isLive_def less_imp_le)
qed

lemma SetDeployStallReason_moves:
  assumes ok: "db_ok d" and res: "SetDeployStallReason d rid reason = Inr d'"
  shows "moves d d'"
  using update_moves [OF ok res [unfolded SetDeployStallReason_def]] by (auto simp: evolves_def row_ok_def isLive_def)

lemma SettleCanceledPreDeploy_moves:
  assumes ok: "db_ok d" and res: "SettleCanceledPreDeploy d app gen p fin now = Inr (b, d')"
  shows "moves d d'"
proof -
  from res have verdict: "p = PreDeploySucceeded \<or> p = PreDeployFailed"
    by (cases p) (auto simp: SettleCanceledPreDeploy_def)
  let ?hit = "\<lambda>r. r_app r = app \<and> r_generation r = gen \<and> r_status r = DeployCanceled \<and> r_preDeploy r = PreDeployCanceled"
  obtain ended where "preDeployEndedStatus p = Some ended" using verdict by auto
  with res obtain d1 where c: "commit_rows d (update_where ?hit
      (\<lambda>r. r\<lparr>r_preDeploy := p, r_updated := touched now (r_updated r)\<rparr>) (db_rows d)) = Inr d1"
    and d': "d' = d1\<lparr>db_facts := fold (\<lambda>r. insertFact (preDeployEndedFact r fin ended)) (filter ?hit (db_rows d)) (db_facts d1)\<rparr>"
    unfolding SettleCanceledPreDeploy_def Let_def by (simp split: sum.splits)
  have m: "moves d d1"
    by (rule update_moves [OF ok c]) (use verdict in \<open>auto simp: evolves_def row_ok_def isLive_def less_imp_le\<close>)
  then have "distinct (map f_key (db_facts d1))" by (simp add: moves_def db_ok_def)
  with m d' show ?thesis by (simp add: moves_facts insertFacts_distinct)
qed

lemma CloseDeploy_moves: "db_ok d \<Longrightarrow> CloseDeploy d rid st img now = Inr (b, d') \<Longrightarrow> moves d d'"
  by (auto simp: CloseDeploy_def moves_refl split: if_splits dest: TransitionDeploy_moves)

lemma settle_moves:
  "db_ok d \<Longrightarrow> (\<And>x. res = Inr x \<Longrightarrow> moves d (f x)) \<Longrightarrow> moves d (settle d f res)"
  by (cases res) (simp_all add: settle_def moves_refl)

text \<open>The statements that are not about an App or an account.\<close>

fun on_deploys :: "deploy_op \<Rightarrow> bool" where
  "on_deploys (OpCreateApp _ _ _ _ _) = False"
| "on_deploys (OpDeleteApp _ _) = False"
| "on_deploys (OpForget _ _) = False"
| "on_deploys _ = True"

lemma deploy_step_moves:
  assumes "db_ok d" and "on_deploys (snd op)"
  shows "moves d (deploy_step idl op d)"
  using assms
  by (cases "(idl, op, d)" rule: deploy_step.cases)
     (auto intro!: settle_moves simp: CreateDeploy_def CreateRestartDeploy_def
       dest: createDeploy_moves CreateRollbackDeploy_moves EnsureCheckedDeploy_moves TransitionDeploy_moves
         CloseDeploy_moves SetDeployPreDeployStatus_moves SetDeployStallReason_moves SettleCanceledPreDeploy_moves)

lemma CreateApp_ok:
  assumes ok: "db_ok d" and res: "CreateApp d rid app img ci by now = Inr (r, d2)"
  shows "db_ok d2 \<and> set (db_rows d) \<subseteq> set (db_rows d2)"
proof -
  let ?d = "d\<lparr>db_apps := db_apps d @ [app]\<rparr>"
  from res obtain org c where new: "app \<notin> set (db_apps d)" and gen: "r = fresh_row rid app org [] c DeployCreated [] now"
    and cm: "commit_rows ?d (db_rows d @ [r]) = Inr d2"
    by (auto simp: CreateApp_def Let_def split: if_splits sum.splits)
  have ok1: "db_ok ?d" using ok by (auto simp: db_ok_def)
  have none: "\<forall>q\<in>set (db_rows ?d). r_app q \<noteq> app" using ok new by (auto simp: db_ok_def)
  then have s: "seat ?d app (o_generation org) DeployCreated" by (auto simp: seat_def)
  have "rid \<notin> set (map r_id (db_rows ?d))" using cm by (auto simp: commit_rows_Inr gen fresh_row_def)
  from seated_row_ok [OF ok1 _ s this] cm show ?thesis by (auto simp: commit_rows_Inr gen)
qed

lemma one_per_app_subset: "one_per_app P rs \<Longrightarrow> set qs \<subseteq> set rs \<Longrightarrow> one_per_app P qs"
  unfolding one_per_app_def by blast

lemma DeleteApp_ok:
  assumes ok: "db_ok d" and res: "DeleteApp d app linked = Inr d'"
  shows "db_ok d' \<and> (\<forall>r\<in>set (db_rows d). r_app r \<noteq> app \<longrightarrow> r \<in> set (db_rows d')) \<and> \<not> linked"
proof -
  from res have d': "db_apps d' = filter (\<lambda>a. a \<noteq> app) (db_apps d)" "db_rows d' = filter (\<lambda>r. r_app r \<noteq> app) (db_rows d)"
    "db_facts d' = filter (\<lambda>f. f_app f \<noteq> app) (db_facts d)" "\<not> linked"
    by (auto simp: DeleteApp_def split: if_splits)
  have one: "one_per_app P (db_rows d) \<Longrightarrow> one_per_app P (db_rows d')" for P
    by (rule one_per_app_subset) (auto simp: d')
  show ?thesis
    using ok one [of isActive] one [of isPending] one [of isLive]
    by (auto simp: db_ok_def d' pending_newer_def distinct_map_filter)
qed

lemma attributed_fields [simp]:
  "r_id (attributed by r) = r_id r" "r_app (attributed by r) = r_app r" "r_status (attributed by r) = r_status r"
  "r_generation (attributed by r) = r_generation r" "isActive (attributed by r) = isActive r"
  "isPending (attributed by r) = isPending r" "isLive (attributed by r) = isLive r" "row_ok (attributed by r) = row_ok r"
  by (simp_all add: attributed_def isActive_def isPending_def isLive_def row_ok_def)

lemma CleanupAccountSubject_ok:
  assumes ok: "db_ok d" and res: "CleanupAccountSubject d subject marker = Inr d'"
  shows "db_ok d' \<and> db_rows d' = map (\<lambda>r. if o_triggeredBy (r_origin r) = subject then attributed marker r else r) (db_rows d)"
proof -
  let ?g = "\<lambda>r. if o_triggeredBy (r_origin r) = subject then attributed marker r else r"
  from res have d': "db_apps d' = db_apps d" "db_rows d' = map ?g (db_rows d)" "db_facts d' = db_facts d"
    by (auto simp: CleanupAccountSubject_def update_where_def split: if_splits)
  have same: "r_id (?g r) = r_id r" "r_app (?g r) = r_app r" "r_generation (?g r) = r_generation r" "isActive (?g r) = isActive r"
    "isPending (?g r) = isPending r" "isLive (?g r) = isLive r" "row_ok (?g r) = row_ok r" for r by simp_all
  have one: "one_per_app P (map ?g (db_rows d))" if "one_per_app P (db_rows d)" "\<And>r. P (?g r) = P r" for P
    using that by (intro one_per_app_map) (simp_all only: same, simp)
  have ids: "map r_id (map ?g (db_rows d)) = map r_id (db_rows d)" by (simp add: comp_def)
  have "pending_newer (map ?g (db_rows d))"
    using ok unfolding db_ok_def pending_newer_def set_map ball_simps(9) same by blast
  moreover have "one_per_app isActive (map ?g (db_rows d))" "one_per_app isPending (map ?g (db_rows d))" "one_per_app isLive (map ?g (db_rows d))"
    using ok by (auto intro!: one simp: db_ok_def same split del: if_split)
  ultimately have "db_ok d'" using ok ids by (auto simp: db_ok_def d' simp del: map_map)
  with d'(2) show ?thesis by blast
qed

definition edited :: "int \<times> deploy_op \<Rightarrow> deploy_row \<Rightarrow> deploy_row" where
  "edited op r = attributed (renamed (snd op) (o_triggeredBy (r_origin r))) r"

definition spared :: "int \<times> deploy_op \<Rightarrow> deploy_row \<Rightarrow> bool" where
  "spared op r \<longleftrightarrow> \<not> deletes_app (r_app r) (snd op)"

lemma attributed_same [simp]: "attributed (o_triggeredBy (r_origin r)) r = r"
  by (simp add: attributed_def)

lemma edited_quiet: "on_deploys (snd op) \<Longrightarrow> edited op r = r"
  by (cases "snd op") (simp_all add: edited_def)

lemma evolves_edited: "evolves r q \<Longrightarrow> evolves (edited op r) (edited op q)"
  by (auto simp: evolves_def edited_def attributed_def)

lemma deploy_step_ok:
  assumes "db_ok d"
  shows "db_ok (deploy_step idl op d)"
    and "r \<in> set (db_rows d) \<Longrightarrow> spared op r \<Longrightarrow> \<exists>q\<in>set (db_rows (deploy_step idl op d)). evolves (edited op r) q"
proof -
  obtain now o1 where op: "op = (now, o1)" by fastforce
  have "db_ok (deploy_step idl op d) \<and>
      (\<forall>r\<in>set (db_rows d). spared op r \<longrightarrow> (\<exists>q\<in>set (db_rows (deploy_step idl op d)). evolves (edited op r) q))"
  proof (cases "on_deploys o1")
    case True
    with deploy_step_moves [OF assms, of op idl] edited_quiet [of op] show ?thesis by (auto simp: op moves_def)
  next
    case False
    then consider (new) rid app img ci by' where "o1 = OpCreateApp rid app img ci by'"
      | (gone) app linked where "o1 = OpDeleteApp app linked" | (forgotten) subject marker where "o1 = OpForget subject marker"
      by (cases o1) auto
    then show ?thesis
    proof cases
      case new
      have "edited op r = r" for r by (simp add: edited_def op new)
      moreover have "db_ok (deploy_step idl op d) \<and> set (db_rows d) \<subseteq> set (db_rows (deploy_step idl op d))"
        using CreateApp_ok [OF assms] assms by (auto simp: op new settle_def split: sum.split)
      ultimately show ?thesis by (auto intro!: evolves_refl)
    next
      case gone
      have "edited op r = r" for r by (simp add: edited_def op gone)
      moreover have "db_ok (deploy_step idl op d) \<and>
          (\<forall>r\<in>set (db_rows d). spared op r \<longrightarrow> r \<in> set (db_rows (deploy_step idl op d)))"
        using DeleteApp_ok [OF assms, of app linked] assms by (auto simp: op gone spared_def settle_def split: sum.split)
      ultimately show ?thesis by (auto intro!: evolves_refl)
    next
      case forgotten
      have "db_ok (deploy_step idl op d) \<and> db_rows (deploy_step idl op d) = map (edited op) (db_rows d)"
      proof (cases "marker = []")
        case True
        then have "edited op = (\<lambda>r. r)" by (auto simp: edited_def op forgotten fun_eq_iff)
        with True assms show ?thesis by (simp add: op forgotten settle_def CleanupAccountSubject_def)
      next
        case False
        then have "edited op = (\<lambda>r. if o_triggeredBy (r_origin r) = subject then attributed marker r else r)"
          by (auto simp: edited_def op forgotten fun_eq_iff)
        moreover obtain d' where "CleanupAccountSubject d subject marker = Inr d'"
          using False by (simp add: CleanupAccountSubject_def)
        ultimately show ?thesis
          using CleanupAccountSubject_ok [OF assms] by (auto simp: op forgotten settle_def)
      qed
      then show ?thesis by (auto intro!: evolves_refl)
    qed
  qed
  then show "db_ok (deploy_step idl op d)"
    and "r \<in> set (db_rows d) \<Longrightarrow> spared op r \<Longrightarrow> \<exists>q\<in>set (db_rows (deploy_step idl op d)). evolves (edited op r) q"
    by blast+
qed

interpretation deploys: history "deploy_step idl" db_ok "\<lambda>d. set (db_rows d)" evolves spared edited
proof
  fix s :: deploy_db and r q p :: deploy_row and a b :: "int \<times> deploy_op"
  show "db_ok s \<Longrightarrow> db_ok (deploy_step idl a s)" by (rule deploy_step_ok(1))
  show "db_ok s \<Longrightarrow> r \<in> set (db_rows s) \<Longrightarrow> spared a r \<Longrightarrow> \<exists>q\<in>set (db_rows (deploy_step idl a s)). evolves (edited a r) q"
    by (rule deploy_step_ok(2))
  show "evolves r r" by simp
  show "evolves r q \<Longrightarrow> evolves q p \<Longrightarrow> evolves r p" by (rule evolves_trans)
  show "evolves r q \<Longrightarrow> evolves (edited a r) (edited a q)" by (rule evolves_edited)
  show "evolves r q \<Longrightarrow> spared a r \<Longrightarrow> spared a q" by (simp add: evolves_def spared_def)
  show "spared a r \<Longrightarrow> spared a (edited b r)" by (simp add: spared_def edited_def)
qed

text \<open>What the statements of a history make of \<open>triggered_by\<close>.\<close>

lemma edits_attribute: "fold edited ops r = attributed (fold (\<lambda>(now, op). renamed op) ops (o_triggeredBy (r_origin r))) r"
  by (induction ops arbitrary: r) (simp_all add: edited_def attributed_def case_prod_beta)

section \<open>Slots: the contract of opening a deploy\<close>

text \<open>
  A service has two slots: the release being executed and the latest one waiting behind it, each known
  by its generation. A request for a generation that is not newer than both is refused; otherwise it
  takes the free active slot, or replaces what waits.
\<close>

definition slot_of :: "(deploy_row \<Rightarrow> bool) \<Rightarrow> deploy_db \<Rightarrow> string \<Rightarrow> int option" where
  "slot_of P d app = map_option r_generation (find (\<lambda>r. r_app r = app \<and> P r) (db_rows d))"

definition slots :: "deploy_db \<Rightarrow> string \<Rightarrow> int option \<times> int option" where
  "slots d app = (slot_of isActive d app, slot_of isPending d app)"

definition reaches :: "int \<Rightarrow> int option \<Rightarrow> bool" where
  "reaches g s = (case s of None \<Rightarrow> False | Some x \<Rightarrow> g \<le> x)"

definition outdated :: "int \<Rightarrow> int option \<times> int option \<Rightarrow> bool" where
  "outdated g s \<longleftrightarrow> reaches g (fst s) \<or> reaches g (snd s)"

definition request :: "int \<Rightarrow> int option \<times> int option \<Rightarrow> int option \<times> int option" where
  "request g s = (if outdated g s then s else if fst s = None then (Some g, None) else (fst s, Some g))"

lemma find_in: "find p xs = Some x \<Longrightarrow> x \<in> set xs \<and> p x"
  by (auto simp: find_Some_iff)

lemma slot_of_iff:
  assumes "one_per_app P (db_rows d)"
  shows "slot_of P d app = Some g \<longleftrightarrow> (\<exists>r\<in>set (db_rows d). r_app r = app \<and> P r \<and> r_generation r = g)"
proof
  assume "slot_of P d app = Some g"
  then show "\<exists>r\<in>set (db_rows d). r_app r = app \<and> P r \<and> r_generation r = g"
    by (auto simp: slot_of_def dest: find_in)
next
  assume "\<exists>r\<in>set (db_rows d). r_app r = app \<and> P r \<and> r_generation r = g"
  then obtain r where r: "r \<in> set (db_rows d)" "r_app r = app" "P r" "r_generation r = g" by blast
  then obtain q where q: "find (\<lambda>r. r_app r = app \<and> P r) (db_rows d) = Some q"
    by (cases "find (\<lambda>r. r_app r = app \<and> P r) (db_rows d)") (auto simp: find_None_iff)
  with assms r have "q = r" by (auto simp: one_per_app_def dest!: find_in)
  with q r show "slot_of P d app = Some g" by (simp add: slot_of_def)
qed

lemma slot_of_None: "slot_of P d app = None \<longleftrightarrow> (\<forall>r\<in>set (db_rows d). r_app r = app \<longrightarrow> \<not> P r)"
  by (auto simp: slot_of_def find_None_iff)

lemma slots_outdated:
  assumes "db_ok d"
  shows "outdated g (slots d app) \<longleftrightarrow>
    (\<exists>r\<in>set (db_rows d). r_app r = app \<and> IsOpenDeployStatus (r_status r) \<and> g \<le> r_generation r)" (is "?l \<longleftrightarrow> ?r")
proof
  assume ?l
  then consider x where "slot_of isActive d app = Some x" "g \<le> x" | x where "slot_of isPending d app = Some x" "g \<le> x"
    by (auto simp: outdated_def slots_def reaches_def split: option.splits)
  then show ?r
    using assms by cases (auto simp: slot_of_iff db_ok_def isActive_def isPending_def)
next
  assume ?r
  then obtain r where r: "r \<in> set (db_rows d)" "r_app r = app" "IsOpenDeployStatus (r_status r)" "g \<le> r_generation r" by blast
  with assms have "isActive r \<or> isPending r" using open_row_slot by (auto simp: db_ok_def)
  then have "slot_of isActive d app = Some (r_generation r) \<or> slot_of isPending d app = Some (r_generation r)"
    using assms r slot_of_iff [of isActive d app] slot_of_iff [of isPending d app] by (auto simp: db_ok_def)
  with r(4) show ?l by (auto simp: outdated_def slots_def reaches_def)
qed

lemma find_append: "find p (xs @ ys) = (case find p xs of Some x \<Rightarrow> Some x | None \<Rightarrow> find p ys)"
  by (induction xs) simp_all

lemma slot_of_snoc:
  "slot_of P (d\<lparr>db_rows := db_rows d @ [r]\<rparr>) app =
     (case slot_of P d app of Some g \<Rightarrow> Some g | None \<Rightarrow> if r_app r = app \<and> P r then Some (r_generation r) else None)"
  by (simp add: slot_of_def find_append split: option.splits)

lemma find_map_same:
  "(\<And>r. p (f r) \<longleftrightarrow> p r) \<Longrightarrow> find p (map f rs) = map_option f (find p rs)"
  by (induction rs) auto

lemma slot_of_freed:
  "slot_of isActive (d\<lparr>db_rows := map (freed app reason now) (db_rows d)\<rparr>) app = slot_of isActive d app"
  "slot_of isPending (d\<lparr>db_rows := map (freed app reason now) (db_rows d)\<rparr>) app = None"
  by (simp_all add: slot_of_def find_map_same option.map_comp comp_def find_None_iff)

lemma isSlot_fresh:
  "isActive (fresh_row rid app org rsv c st reason now) \<longleftrightarrow> IsOpenDeployStatus st \<and> st \<noteq> DeployQueued"
  "isPending (fresh_row rid app org rsv c st reason now) \<longleftrightarrow> st = DeployQueued"
  "r_app (fresh_row rid app org rsv c st reason now) = app" "r_origin (fresh_row rid app org rsv c st reason now) = org"
  "r_status (fresh_row rid app org rsv c st reason now) = st"
  by (auto simp: isActive_def isPending_def fresh_row_def)

text \<open>The three creators share one insert, and its effect on the slots is \<open>request\<close>.\<close>

lemma insertDeploy_slots:
  assumes ok: "db_ok d" and app: "app \<in> set (db_apps d)" and new: "rid \<notin> set (map r_id (db_rows d))"
  obtains r d2 where "insertDeploy d rid app org rsv c replaced now = Inr (r, d2)"
    and "db_ok d2" and "slots d2 app = request (o_generation org) (slots d app)"
    and "r_status r = DeployCanceled \<longleftrightarrow> outdated (o_generation org) (slots d app)"
    and "\<forall>q\<in>set (db_rows d). r_app q \<noteq> app \<longrightarrow> q \<in> set (db_rows d2)" and "r \<in> set (db_rows d2)" and "r_id r = rid"
proof -
  let ?g = "o_generation org"
  let ?open = "filter (\<lambda>r. r_app r = app \<and> IsOpenDeployStatus (r_status r) \<and> ?g \<le> r_generation r) (db_rows d)"
  define d1 where "d1 = (if newest_row ?open = None then d\<lparr>db_rows := map (freed app replaced now) (db_rows d)\<rparr> else d)"
  obtain st reason where p: "prepareDeployCreate d app ?g replaced now = Inr (st, reason, d1)" and
    st: "st = (if newest_row ?open \<noteq> None then DeployCanceled
               else if slot_of isActive d1 app \<noteq> None then DeployQueued else DeployCreated)"
  proof (cases "newest_row ?open")
    case (Some newer)
    with that app show ?thesis by (simp add: prepareDeployCreate_def d1_def)
  next
    case None
    have "list_ex (\<lambda>r. r_app r = app \<and> IsOpenDeployStatus (r_status r) \<and> \<not> r_overlap r) (db_rows d1) \<longleftrightarrow>
      slot_of isActive d1 app \<noteq> None"
      by (auto simp: slot_of_None list_ex_iff isActive_def)
    with None that app cancelPendingDeploys_moves(1) [OF ok, of app replaced now] show ?thesis
      by (cases "slot_of isActive d1 app") (simp_all add: prepareDeployCreate_def d1_def)
  qed
  have out: "newest_row ?open \<noteq> None \<longleftrightarrow> outdated ?g (slots d app)"
    using slots_outdated [OF ok] by (auto simp: newest_row_None filter_empty_conv)
  let ?r = "fresh_row rid app org rsv c st reason now"
  obtain r d2 where i: "insertDeploy d rid app org rsv c replaced now = Inr (r, d2)" "moves d d2"
    using insertDeploy_succeeds [OF ok app new] by metis
  then have rd: "r = ?r" "d2 = d1\<lparr>db_rows := db_rows d1 @ [?r]\<rparr>"
    by (auto simp: insertDeploy_def p Let_def rbind_Inr_iff commit_rows_Inr)
  show thesis
  proof (rule that [OF i(1)])
    show "db_ok d2" using i(2) by (simp add: moves_def)
    show "r_status r = DeployCanceled \<longleftrightarrow> outdated ?g (slots d app)"
      using st out rd(1) by (auto simp: isSlot_fresh)
    show "slots d2 app = request ?g (slots d app)"
      using st out unfolding rd(2) slots_def slot_of_snoc request_def
      by (auto simp: isSlot_fresh d1_def slot_of_freed split: option.splits)
    show "\<forall>q\<in>set (db_rows d). r_app q \<noteq> app \<longrightarrow> q \<in> set (db_rows d2)"
      by (auto simp: rd(2) d1_def freed_def image_iff)
    show "r \<in> set (db_rows d2)" "r_id r = rid" by (simp_all add: rd) (simp add: fresh_row_def)
  qed
qed

section \<open>Closing a row\<close>

lemma commit_shrinks:
  assumes ids: "distinct (map r_id (db_rows d))" and act: "one_per_app isActive (db_rows d)"
    and pend: "one_per_app isPending (db_rows d)" and apps: "\<forall>r\<in>set (db_rows d). r_app r \<in> set (db_apps d)"
    and g: "\<forall>r\<in>set (db_rows d). r_id (g r) = r_id r \<and> r_app (g r) = r_app r \<and> row_ok (g r) \<and>
              (isActive (g r) \<longrightarrow> isActive r) \<and> (isPending (g r) \<longrightarrow> isPending r)"
  shows "commit_rows d (map g (db_rows d)) = Inr (d\<lparr>db_rows := map g (db_rows d)\<rparr>)"
proof -
  have "map r_id (map g (db_rows d)) = map r_id (db_rows d)" using g by auto
  then have "distinct (map r_id (map g (db_rows d)))" using ids by (simp del: map_map)
  moreover have "one_per_app isActive (map g (db_rows d))" "one_per_app isPending (map g (db_rows d))"
    using g by (auto intro!: one_per_app_map act pend)
  ultimately show ?thesis
    using g apps by (auto simp: commit_rows_Inr row_checks_def row_ok_def)
qed

lemma TransitionDeploy_goes:
  assumes "row_by_id (db_rows d) rid = Some r" and "CanTransitionDeploy (r_status r) (ta_status t)"
    and "commit_rows d (update_where (\<lambda>q. r_id q = rid) (transitioned t now) (db_rows d)) = Inr d1"
    and "(if ta_status t = DeployLive then
            commit_rows d1 (update_where (\<lambda>q. r_app q = r_app r \<and> r_id q \<noteq> rid \<and> r_status q = DeployLive)
                              (deactivated now) (db_rows d1))
          else Inr d1) = Inr d2"
  shows "\<exists>fs. TransitionDeploy d rid t now = Inr (True, d2\<lparr>db_facts := fs\<rparr>)"
proof -
  have "r_status r \<noteq> ta_status t" using assms(2) by (simp add: CanTransitionDeploy_def)
  then have "TransitionDeploy d rid t now =
      Inr (True, if ta_code t = ''image_pull_backoff'' then
                   (case row_by_id (db_rows d2) rid of None \<Rightarrow> d2
                    | Some q \<Rightarrow> d2\<lparr>db_facts := insertFact (image_pull_fact now q) (db_facts d2)\<rparr>) else d2)"
    using assms unfolding TransitionDeploy_def by (simp split del: if_split)
  moreover have "\<exists>fs. d2 = d2\<lparr>db_facts := fs\<rparr>" by (rule exI [of _ "db_facts d2"]) simp
  ultimately show ?thesis by (auto split: option.splits)
qed

text \<open>A legal move of an open row to a terminal status is never refused by Postgres.\<close>

lemma closing_accepted:
  assumes ok: "db_ok d" and r: "r \<in> set (db_rows d)"
    and can: "CanTransitionDeploy (r_status r) (ta_status t)" and fin: "\<not> IsOpenDeployStatus (ta_status t)"
  obtains d' q where "TransitionDeploy d (r_id r) t now = Inr (True, d')" and "moves d d'"
    and "q \<in> set (db_rows d')" and "q = transitioned t now r"
proof -
  let ?upd = "\<lambda>q. if r_id q = r_id r then transitioned t now q else q"
  let ?d1 = "d\<lparr>db_rows := map ?upd (db_rows d)\<rparr>"
  let ?dea = "\<lambda>q. if r_app q = r_app r \<and> r_id q \<noteq> r_id r \<and> r_status q = DeployLive then deactivated now q else q"
  let ?d2 = "if ta_status t = DeployLive then ?d1\<lparr>db_rows := map ?dea (db_rows ?d1)\<rparr> else ?d1"
  have by_id: "row_by_id (db_rows d) (r_id r) = Some r"
    using ok r row_by_id_unique by (auto simp: db_ok_def)
  have uniq: "\<forall>q\<in>set (db_rows d). r_id q = r_id r \<longrightarrow> q = r"
    using ok r by (auto simp: db_ok_def distinct_map inj_on_def)
  have upd: "\<forall>q\<in>set (db_rows d). r_id (?upd q) = r_id q \<and> r_app (?upd q) = r_app q \<and> row_ok (?upd q) \<and>
      (isActive (?upd q) \<longrightarrow> isActive q) \<and> (isPending (?upd q) \<longrightarrow> isPending q)"
    using uniq ok can fin transitioned_evolves(2) by (auto simp: db_ok_def isActive_def isPending_def)
  have c1: "commit_rows d (update_where (\<lambda>q. r_id q = r_id r) (transitioned t now) (db_rows d)) = Inr ?d1"
    unfolding update_where_def using ok by (intro commit_shrinks upd) (auto simp: db_ok_def)
  have ids: "map r_id (db_rows ?d1) = map r_id (db_rows d)" by auto
  have c2: "commit_rows ?d1 (update_where (\<lambda>q. r_app q = r_app r \<and> r_id q \<noteq> r_id r \<and> r_status q = DeployLive)
      (deactivated now) (db_rows ?d1)) = Inr (?d1\<lparr>db_rows := map ?dea (db_rows ?d1)\<rparr>)"
    unfolding update_where_def
  proof (rule commit_shrinks)
    show "distinct (map r_id (db_rows ?d1))" using ids ok by (simp add: db_ok_def del: map_map)
    show "one_per_app isActive (db_rows ?d1)" "one_per_app isPending (db_rows ?d1)"
      using upd ok by (auto intro!: one_per_app_map simp: db_ok_def)
    show "\<forall>q\<in>set (db_rows ?d1). r_app q \<in> set (db_apps ?d1)" using ok by (auto simp: db_ok_def)
    show "\<forall>q\<in>set (db_rows ?d1). r_id (?dea q) = r_id q \<and> r_app (?dea q) = r_app q \<and> row_ok (?dea q) \<and>
        (isActive (?dea q) \<longrightarrow> isActive q) \<and> (isPending (?dea q) \<longrightarrow> isPending q)"
    proof
      fix q assume "q \<in> set (db_rows ?d1)"
      then have "row_ok q" using upd by auto
      then show "r_id (?dea q) = r_id q \<and> r_app (?dea q) = r_app q \<and> row_ok (?dea q) \<and>
        (isActive (?dea q) \<longrightarrow> isActive q) \<and> (isPending (?dea q) \<longrightarrow> isPending q)"
        using deactivated_evolves(2) by (auto simp: deactivated_def isActive_def isPending_def)
    qed
  qed
  have "(if ta_status t = DeployLive then
            commit_rows ?d1 (update_where (\<lambda>q. r_app q = r_app r \<and> r_id q \<noteq> r_id r \<and> r_status q = DeployLive)
                              (deactivated now) (db_rows ?d1))
          else Inr ?d1) = Inr ?d2"
    using c2 by (cases "ta_status t = DeployLive") simp_all
  from TransitionDeploy_goes [OF by_id can c1 this]
  obtain fs where t: "TransitionDeploy d (r_id r) t now = Inr (True, ?d2\<lparr>db_facts := fs\<rparr>)" by blast
  have q: "transitioned t now r \<in> set (db_rows (?d2\<lparr>db_facts := fs\<rparr>))"
  proof -
    have 1: "transitioned t now r \<in> set (db_rows ?d1)" using r by (auto simp: image_iff)
    moreover have "transitioned t now r \<in> set (map ?dea (db_rows ?d1))"
      unfolding set_map by (rule rev_image_eqI [OF 1]) simp
    ultimately show ?thesis by simp
  qed
  show thesis by (rule that [OF t TransitionDeploy_moves [OF ok t] q refl])
qed

section \<open>Properties\<close>

lemma empty_db_ok: "db_ok (empty_db apps)"
  by (simp add: db_ok_def empty_db_def one_per_app_def pending_newer_def)

text \<open>C1: Whatever creators, transitions, projections and settlements run, in whatever order and with
  whatever clock, starting from no deploys: a service has at most one live row, at most one release being
  executed and one waiting, the waiting one is newer, every row carries a finish time exactly when it is
  closed, and a closed row shows no pre-deploy step as running.
\<close>

theorem deploy_table_sound:
  "let d = fold (deploy_step idl) ops (empty_db apps) in
     one_per_app isLive (db_rows d) \<and> one_per_app isActive (db_rows d) \<and> one_per_app isPending (db_rows d) \<and>
     pending_newer (db_rows d) \<and> list_all row_ok (db_rows d) \<and> distinct (map r_id (db_rows d)) \<and>
     distinct (map f_key (db_facts d))"
  using deploys.run_ok [OF empty_db_ok, of idl ops apps] by (simp add: db_ok_def Let_def list_all_iff)

text \<open>C34: No deploy is rewritten. However the history goes on, as long as it does not delete the App, each row of the App is
  still there with its id, service and origin, of which only \<open>triggered_by\<close> may have changed, to the marker of each
  account deletion that met it; the row never goes back a phase, a closed row keeps its status (but a live one becomes
  historical) and its finish time, a recorded start and commit stay, and the update time grows with every
  change of status.
\<close>

theorem deploy_history_kept:
  assumes "r \<in> set (db_rows (fold (deploy_step idl) before (empty_db apps)))"
    and "list_all (\<lambda>(now, op). \<not> deletes_app (r_app r) op) after"
  shows "\<exists>q\<in>set (db_rows (fold (deploy_step idl) (before @ after) (empty_db apps))).
           r_id q = r_id r \<and> r_app q = r_app r \<and>
           r_origin q = (r_origin r)\<lparr>o_triggeredBy := fold (\<lambda>(now, op). renamed op) after (o_triggeredBy (r_origin r))\<rparr> \<and>
           phase (r_status r) \<le> phase (r_status q) \<and> r_updated r \<le> r_updated q \<and>
           (r_status q = r_status r \<or> r_updated r < r_updated q) \<and>
           (IsOpenDeployStatus (r_status r) \<or> r_status q = r_status r \<or>
              (r_status r = DeployLive \<and> r_status q = DeployDeactivated)) \<and>
           (r_finished r = None \<or> r_finished q = r_finished r) \<and> (r_started r = None \<or> r_started q = r_started r) \<and>
           (r_commit r = [] \<or> r_commit q = r_commit r)"
proof -
  have ok: "db_ok (fold (deploy_step idl) before (empty_db apps))" by (rule deploys.run_ok [OF empty_db_ok])
  have "list_all (\<lambda>a. spared a r) after" using assms(2) by (auto simp: spared_def list_all_iff)
  from deploys.run_evolves [OF ok assms(1) this]
  obtain q where "q \<in> set (db_rows (fold (deploy_step idl) (before @ after) (empty_db apps)))" "evolves (fold edited after r) q" by auto
  then show ?thesis by (intro bexI [of _ q]) (auto simp: edits_attribute evolves_def attributed_def)
qed

text \<open>C18: Opening a deploy of a service that exists, under a new id, is never refused by the database, and
  its effect on the two slots of the service is the contract: a request that is not newer than what is
  open is recorded as canceled and changes nothing, any other takes the free active slot or the waiting
  one. No other service is touched.
\<close>

theorem opening_refines_slots:
  assumes "db_ok d" and "app \<in> set (db_apps d)" and "rid \<notin> set (map r_id (db_rows d))"
  shows "\<exists>r d2. CreateDeploy d rid app trigger img gen ci by cc now = Inr (r, d2) \<and> db_ok d2 \<and>
           slots d2 app = request gen (slots d app) \<and> (r_status r = DeployCanceled \<longleftrightarrow> outdated gen (slots d app)) \<and>
           r \<in> set (db_rows d2) \<and> r_id r = rid \<and>
           set (filter (\<lambda>q. r_app q \<noteq> app) (db_rows d)) \<subseteq> set (db_rows d2)"
proof -
  let ?org = "\<lparr>o_trigger = trigger, o_image = img, o_rollbackOf = [], o_generation = gen,
      o_commitMessage = ci_message ci, o_commitAuthorAt = ci_authorAt ci, o_triggeredBy = by,
      o_clearCache = cc, o_buildId = ci_buildId ci\<rparr>"
  obtain r d2 where i: "insertDeploy d rid app ?org [] (ci_hash ci) (supersededByReason rid) now = Inr (r, d2)"
    "db_ok d2" "slots d2 app = request (o_generation ?org) (slots d app)"
    "r_status r = DeployCanceled \<longleftrightarrow> outdated (o_generation ?org) (slots d app)"
    "\<forall>q\<in>set (db_rows d). r_app q \<noteq> app \<longrightarrow> q \<in> set (db_rows d2)" "r \<in> set (db_rows d2)" "r_id r = rid"
    by (rule insertDeploy_slots [OF assms, where org = ?org and rsv = "[]" and c = "ci_hash ci"
          and replaced = "supersededByReason rid" and now = now])
  then have "CreateDeploy d rid app trigger img gen ci by cc now = Inr (r, d2)"
    by (simp add: CreateDeploy_def createDeploy_def)
  with i show ?thesis by auto
qed

definition ex_commit :: commit_info where
  "ex_commit = \<lparr>ci_hash = ''c0ffee'', ci_message = ''fix'', ci_authorAt = None, ci_buildId = []\<rparr>"

definition ex_live :: transition_args where
  "ex_live = \<lparr>ta_status = DeployLive, ta_ran = no_image, ta_failure = [], ta_code = [], ta_cancel = [],
     ta_started = None, ta_end = no_end\<rparr>"

definition ex_before :: "(int \<times> deploy_op) list" where
  "ex_before = [(10, OpCreate ''dep-1'' ''srv'' ''api'' [] 1 ex_commit ''u'' False), (20, OpTransition ''dep-1'' ex_live)]"

definition ex_after :: "(int \<times> deploy_op) list" where
  "ex_after = [(30, OpCreate ''dep-2'' ''srv'' ''api'' [] 2 ex_commit ''u'' False), (40, OpTransition ''dep-2'' ex_live),
     (50, OpForget ''u'' ''gone-1''), (60, OpDeleteApp ''web'' False)]"

definition ex_first :: deploy_row where
  "ex_first = (db_rows (fold (deploy_step (\<lambda>a b. False)) ex_before (empty_db [''srv'']))) ! 0"

lemma ex_first_live: "r_id ex_first = ''dep-1'' \<and> r_app ex_first = ''srv'' \<and> o_triggeredBy (r_origin ex_first) = ''u'' \<and>
    r_status ex_first = DeployLive \<and> r_updated ex_first = 20"
  by code_simp

lemma ex_first_in: "ex_first \<in> set (db_rows (fold (deploy_step (\<lambda>a b. False)) ex_before (empty_db [''srv''])))"
  unfolding ex_first_def by (rule nth_mem) code_simp

theorem deploy_history_kept_witness:
  "\<exists>q\<in>set (db_rows (fold (deploy_step (\<lambda>a b. False)) (ex_before @ ex_after) (empty_db [''srv'']))).
     r_id q = ''dep-1'' \<and> (r_status q = DeployLive \<or> r_status q = DeployDeactivated) \<and> 20 \<le> r_updated q \<and>
     o_triggeredBy (r_origin q) = ''gone-1''"
proof -
  have "list_all (\<lambda>(now, op). \<not> deletes_app (r_app ex_first) op) ex_after"
    by (simp add: ex_first_live ex_after_def)
  from deploy_history_kept [OF ex_first_in this] obtain q where
    "q \<in> set (db_rows (fold (deploy_step (\<lambda>a b. False)) (ex_before @ ex_after) (empty_db [''srv''])))"
    "r_id q = ''dep-1''" "r_status q = DeployLive \<or> r_status q = DeployDeactivated" "20 \<le> r_updated q"
    "r_origin q = (r_origin ex_first)\<lparr>o_triggeredBy := fold (\<lambda>(now, op). renamed op) ex_after ''u''\<rparr>"
    by (auto simp: ex_first_live)
  then show ?thesis by (intro bexI [of _ q]) (simp_all add: ex_after_def)
qed

lemma ex_superseded:
  "map r_status (db_rows (fold (deploy_step (\<lambda>a b. False)) (ex_before @ ex_after) (empty_db [''srv'']))) =
     [DeployDeactivated, DeployLive]"
  by code_simp

theorem opening_refines_slots_witness:
  "\<exists>r d2. CreateDeploy (empty_db [''srv'']) ''dep-1'' ''srv'' ''api'' [] 1 ex_commit ''u'' False 10 = Inr (r, d2) \<and>
     slots d2 ''srv'' = request 1 (slots (empty_db [''srv'']) ''srv'') \<and> request 1 (slots (empty_db [''srv'']) ''srv'') = (Some 1, None)"
  using opening_refines_slots [OF empty_db_ok, of "''srv''" "[''srv'']" "''dep-1''" "''api''" "[]" 1 ex_commit "''u''" False 10]
  by (auto simp: empty_db_def slots_def slot_of_def request_def outdated_def reaches_def)

text \<open>The cancel reasons a newer deploy leaves behind name it: reading either form back gives the id that
  was written.
\<close>

theorem superseding_id_roundtrip:
  assumes "starts_with ''dep-'' i" and "CHR '' '' \<notin> set i" and "CHR '','' \<notin> set i"
  shows "SupersedingDeployID (supersededByReason i) = i \<and> SupersedingDeployID (restartCanceledReason i) = i"
proof -
  have dep: "cut_prefix ''Superseded by '' (supersededByReason i) = Some i"
    and none: "cut_prefix ''Superseded by '' (restartCanceledReason i) = None"
    by (simp_all add: cut_prefix_Some supersededByReason_def cut_prefix_def starts_with_def restartCanceledReason_def)
  obtain rest where reason: "restartCanceledReason i = ''Canceled by restart '' @ i @ CHR '','' # rest"
    by (simp add: restartCanceledReason_def)
  then have "cut_prefix ''Canceled by restart '' (restartCanceledReason i) = Some (i @ CHR '','' # rest)"
    by (simp only: cut_prefix_Some)
  with dep none cut_at_append [OF assms(3), of rest] assms show ?thesis
    by (simp add: SupersedingDeployID_def Let_def)
qed

theorem superseding_id_roundtrip_witness:
  "SupersedingDeployID (supersededByReason ''dep-c1'') = ''dep-c1'' \<and>
   SupersedingDeployID (restartCanceledReason ''dep-c1'') = ''dep-c1''"
  by (rule superseding_id_roundtrip) (simp_all add: starts_with_def)

text \<open>
  A row that waits can carry a diagnosis when a newer deploy replaces it (the projection of a pass and the
  next trigger interleave); the close keeps it, though a terminal row's story is its cancel reason.
\<close>

definition ex_coalesced :: "(int \<times> deploy_op) list" where
  "ex_coalesced =
     [(10, OpCreate ''dep-1'' ''srv'' ''api'' [] 1 ex_commit ''u'' False),
      (20, OpCreate ''dep-2'' ''srv'' ''api'' [] 2 ex_commit ''u'' False),
      (30, OpStall ''dep-2'' ''image pull is failing''),
      (40, OpCreate ''dep-3'' ''srv'' ''api'' [] 3 ex_commit ''u'' False)]"

lemma coalesced_row_keeps_stall:
  "map (\<lambda>r. (r_status r, r_stall r, r_cancel r)) (db_rows (fold (deploy_step (\<lambda>a b. False)) ex_coalesced (empty_db [''srv'']))) =
     [(DeployCreated, [], []), (DeployCanceled, ''image pull is failing'', ''Superseded by dep-3''), (DeployQueued, [], [])]"
  by code_simp

end
