(* ===== verification/DeployRecord.thy ===== *)
theory DeployRecord
  imports DeployRows ReleasePlan
begin

text \<open>
  How the control plane writes a deploy row from what it observes (\<open>backend/internal/store/reconciler.go\<close>
  from \<open>recordDeploy\<close> on, and \<open>release_cancel.go\<close>): one pass reads the App of a service, decides the
  status of each open row, projects the operator's evidence onto it, and moves it.

  The App is the fields this code reads. A timestamp of its status, text in the object, is its parsed
  instant here, \<open>None\<close> when it is absent or does not parse. An annotation that is missing reads as the
  empty text. The clock of a pass is \<open>pe_now\<close>, for the store's clock too. What is not the rows, the facts,
  the App or the notification (metrics, logs, the fan-out to linked services) is left out.
\<close>

section \<open>The App as the control plane reads it\<close>

datatype app_phase =
    PhaseNone | PhasePending | PhaseBuilding | PhaseDeploying | PhaseRunning | PhaseHibernated | PhaseCanceled | PhaseFailed

record status_condition = condition +
  c_message :: string

record pre_deploy_step = pre_deploy +
  pd_message :: string
  pd_started :: "int option"
  pd_finished :: "int option"

record image_network =
  in_selection :: string
  in_image :: string
  in_port :: int
  in_revision :: string

record live_app =
  la_annotations :: "string \<Rightarrow> string"
  la_repo :: string
  la_specImage :: string
  la_buildCommit :: string
  la_suspended :: bool
  la_hasDisk :: bool
  la_webImagePorts :: bool
  la_releaseConfig :: "(int \<times> bool) option"
  la_generation :: int
  la_phase :: app_phase
  la_observedGeneration :: int
  la_releaseGeneration :: int
  la_activeRevision :: string
  la_image :: string
  la_conditions :: "status_condition list"
  la_preDeploy :: "pre_deploy_step option"
  la_buildRun :: "(int \<times> int option \<times> int option) option"
  la_releaseStart :: "(int \<times> int option) option"
  la_rolloutFailure :: "(int \<times> deploy_end) option"
  la_imageDigest :: "(int \<times> string) option"
  la_imageRevision :: "(string \<times> string) option"
  la_servingNetwork :: "image_network option"
  la_imageNetwork :: "image_network option"

definition releaseKey :: string where "releaseKey = ''app.bex.co/release-generation''"
definition canceledKey :: string where "canceledKey = ''app.bex.co/canceled-release-generation''"
definition survivingKey :: string where "survivingKey = ''app.bex.co/surviving-release-generation''"

text \<open>
  The number \<open>strconv.ParseInt\<close> returns beside its error: zero for text that is no number, the nearest
  representable number when it does not fit.
\<close>

definition parsed_number :: "string \<Rightarrow> int" where
  "parsed_number s =
     (let neg = (s \<noteq> [] \<and> hd s = CHR ''-'');
          body = (if s \<noteq> [] \<and> (hd s = CHR ''-'' \<or> hd s = CHR ''+'') then tl s else s)
      in if body = [] \<or> \<not> list_all is_digit body then 0
         else let n = int (digits_val 0 body) in if neg then max (- (2 ^ 63)) (- n) else min (2 ^ 63 - 1) n)"

definition generationAnnotation :: "live_app \<Rightarrow> string \<Rightarrow> int option" where
  "generationAnnotation a key =
     (case parse_int 64 (la_annotations a key) of None \<Rightarrow> None | Some g \<Rightarrow> if 0 < g then Some g else None)"

definition canceledReleaseGeneration :: "live_app \<Rightarrow> int option" where
  "canceledReleaseGeneration a = generationAnnotation a canceledKey"

definition appReleaseGeneration :: "live_app \<Rightarrow> int" where
  "appReleaseGeneration a = (if 0 < la_releaseGeneration a then la_releaseGeneration a else la_generation a)"

definition servesGeneration :: "live_app \<Rightarrow> int \<Rightarrow> bool" where
  "servesGeneration a g \<longleftrightarrow>
     (case revisionGeneration (la_activeRevision a) of None \<Rightarrow> False | Some served \<Rightarrow> g \<noteq> 0 \<and> served = g)"

definition releaseIsActive :: "deploy_row \<Rightarrow> live_app \<Rightarrow> bool" where
  "releaseIsActive r a \<longleftrightarrow>
     (if 0 < la_releaseGeneration a then la_releaseGeneration a = r_generation r \<and> servesGeneration a (r_generation r)
      else la_observedGeneration a = la_generation a)"

definition IsBuildFailureReason :: "string \<Rightarrow> bool" where
  "IsBuildFailureReason reason \<longleftrightarrow>
     reason \<in> {''BuildFailed'', ''BuildFailedUserError'', ''BuildFailedInfrastructure''}"

definition BuildIsRunningReason :: "string \<Rightarrow> bool" where
  "BuildIsRunningReason reason \<longleftrightarrow> reason = ''Building''"

definition preDeployStatusAt :: "live_app \<Rightarrow> int \<Rightarrow> pre_status" where
  "preDeployStatusAt a g =
     (case la_preDeploy a of
        None \<Rightarrow> PreDeployNone
      | Some pd \<Rightarrow>
          if pd_generation pd \<noteq> g then PreDeployNone
          else if pd_status pd = ''Running'' then PreDeployRunning
          else if pd_status pd = ''Succeeded'' then PreDeploySucceeded
          else if pd_status pd = ''Failed'' then PreDeployFailed
          else PreDeployNone)"

definition preDeployStatusFor :: "live_app \<Rightarrow> pre_status" where
  "preDeployStatusFor a = preDeployStatusAt a (appReleaseGeneration a)"

text \<open>The first Ready condition of the current generation.\<close>

fun current_ready :: "int \<Rightarrow> status_condition list \<Rightarrow> status_condition option" where
  "current_ready g [] = None"
| "current_ready g (c # cs) = (if c_type c = ''Ready'' \<and> c_observed c = g then Some c else current_ready g cs)"

definition readyReasonForGeneration :: "live_app \<Rightarrow> string option" where
  "readyReasonForGeneration a = map_option c_reason (current_ready (la_generation a) (la_conditions a))"

section \<open>The operator's durable verdicts\<close>

definition recordedBuildFailure :: "live_app \<Rightarrow> int \<Rightarrow> string option" where
  "recordedBuildFailure a g =
     (case findCondition (la_conditions a) ''Build'' of
        None \<Rightarrow> None
      | Some c \<Rightarrow> if g = 0 \<or> c_observed c \<noteq> g \<or> \<not> IsBuildFailureReason (c_reason c) then None else Some (c_message c))"

definition recordedRolloutFailure :: "live_app \<Rightarrow> int \<Rightarrow> (string \<times> string) option" where
  "recordedRolloutFailure a g =
     (case findCondition (la_conditions a) ''Rollout'' of
        None \<Rightarrow> None
      | Some c \<Rightarrow>
          if g = 0 \<or> c_observed c \<noteq> g \<or> c_status c \<noteq> CondFalse \<or> c_message c = [] then None
          else Some (c_message c, c_reason c))"

definition recordedPreDeployFailure :: "live_app \<Rightarrow> int \<Rightarrow> string" where
  "recordedPreDeployFailure a g =
     (case la_preDeploy a of
        None \<Rightarrow> []
      | Some pd \<Rightarrow> if g = 0 \<or> pd_status pd \<noteq> ''Failed'' \<or> pd_generation pd \<noteq> g then [] else pd_message pd)"

definition buildRunStart :: "live_app \<Rightarrow> deploy_row \<Rightarrow> int option" where
  "buildRunStart a r =
     (case la_buildRun a of
        None \<Rightarrow> None
      | Some (g, started, finished) \<Rightarrow>
          if r_generation r = 0 \<or> g \<noteq> r_generation r \<or> finished = None then None else started)"

definition failedPreDeployStart :: "live_app \<Rightarrow> deploy_row \<Rightarrow> int option" where
  "failedPreDeployStart a r =
     (if r_generation r \<le> 0 \<or> preDeployStatusAt a (r_generation r) \<noteq> PreDeployFailed then None
      else case la_preDeploy a of None \<Rightarrow> None | Some pd \<Rightarrow> pd_started pd)"

definition releaseDispatchStart :: "live_app \<Rightarrow> deploy_row \<Rightarrow> int option" where
  "releaseDispatchStart a r =
     (case la_releaseStart a of
        None \<Rightarrow> None
      | Some (g, started) \<Rightarrow> if r_generation r \<le> 0 \<or> g \<noteq> r_generation r then None else started)"

section \<open>Ending a release\<close>

definition releaseCanceledFor :: "deploy_row \<Rightarrow> live_app \<Rightarrow> bool" where
  "releaseCanceledFor r a \<longleftrightarrow>
     (case canceledReleaseGeneration a of None \<Rightarrow> False
      | Some g \<Rightarrow> r_generation r = g \<and> IsOpenDeployStatus (r_status r))"

definition awaitingSurvivor :: "deploy_row \<Rightarrow> live_app \<Rightarrow> bool" where
  "awaitingSurvivor r a \<longleftrightarrow>
     (case generationAnnotation a survivingKey of
        None \<Rightarrow> False
      | Some survivor \<Rightarrow>
          if r_generation r \<noteq> survivor \<or> la_releaseGeneration a = survivor then False
          else (case canceledReleaseGeneration a of
                  None \<Rightarrow> False
                | Some canceled \<Rightarrow> survivor < canceled \<and> parsed_number (la_annotations a releaseKey) = canceled))"

definition endedWithNewerCancel :: "deploy_row \<Rightarrow> live_app \<Rightarrow> bool" where
  "endedWithNewerCancel r a \<longleftrightarrow>
     (case canceledReleaseGeneration a of None \<Rightarrow> False
      | Some canceled \<Rightarrow> r_generation r \<noteq> 0 \<and> r_generation r < canceled \<and> la_releaseGeneration a < r_generation r)"

definition suspendEndsRollout :: "deploy_row \<Rightarrow> live_app \<Rightarrow> bool" where
  "suspendEndsRollout r a \<longleftrightarrow> la_suspended a \<and> IsOpenDeployStatus (r_status r) \<and> \<not> releaseIsActive r a"

text \<open>
  One attempt of \<open>markReleaseCanceled\<close> on the App it has just re-read: the patched App, or \<open>None\<close> when an
  equal or newer cancel is already in place and no survivor is to be ended.
\<close>

definition cancel_patch :: "int \<Rightarrow> deploy_row option \<Rightarrow> live_app \<Rightarrow> live_app option" where
  "cancel_patch g survivor a =
     (let stamp_moves = parsed_number (la_annotations a canceledKey) < g;
          keeps = (generationAnnotation a survivingKey = Some g);
          cleared = (la_annotations a)(survivingKey := []) in
      if \<not> stamp_moves \<and> \<not> keeps then None
      else if \<not> stamp_moves then Some (a\<lparr>la_annotations := cleared\<rparr>)
      else let stamped = cleared(canceledKey := show_int g) in
        (case survivor of
           Some s \<Rightarrow>
             if parsed_number (la_annotations a releaseKey) = g then
               Some (a\<lparr>la_annotations := stamped(survivingKey := show_int (r_generation s)),
                       la_buildCommit := (if la_repo a \<noteq> [] then r_commit s else la_buildCommit a)\<rparr>)
             else Some (a\<lparr>la_annotations := stamped\<rparr>)
         | None \<Rightarrow> Some (a\<lparr>la_annotations := stamped\<rparr>)))"

datatype patch_out = Patched | PatchConflict | PatchErr

datatype cancel_error = CancelConflict | CancelErr

text \<open>
  The API server, per attempt: what the re-read returns (\<open>None\<close> an error, an App replaced under its name
  included) and how the patch ends. A conflict is retried, in all four times (\<open>retry.DefaultBackoff\<close>).
\<close>

record cancel_api =
  ca_read :: "nat \<Rightarrow> live_app option"
  ca_patch :: "nat \<Rightarrow> patch_out"

fun mark_attempts :: "cancel_api \<Rightarrow> int \<Rightarrow> deploy_row option \<Rightarrow> nat \<Rightarrow> live_app \<Rightarrow> cancel_error option \<times> live_app" where
  "mark_attempts api g survivor 0 a = (Some CancelConflict, a)"
| "mark_attempts api g survivor (Suc left) a =
     (case ca_read api left of
        None \<Rightarrow> (Some CancelErr, a)
      | Some b \<Rightarrow>
          (case cancel_patch g survivor b of
             None \<Rightarrow> (None, b)
           | Some c \<Rightarrow>
               (case ca_patch api left of
                  Patched \<Rightarrow> (None, c)
                | PatchErr \<Rightarrow> (Some CancelErr, b)
                | PatchConflict \<Rightarrow> mark_attempts api g survivor left b)))"

definition markReleaseCanceled :: "cancel_api \<Rightarrow> live_app \<Rightarrow> int \<Rightarrow> deploy_row option \<Rightarrow> cancel_error option \<times> live_app" where
  "markReleaseCanceled api a g survivor = mark_attempts api g survivor 4 a"

section \<open>The status a pass observes\<close>

record gates =
  ga_build :: int
  ga_preDeploy :: int
  ga_deploy :: int

definition minute :: int where "minute = 60 * 1000000"

definition default_gates :: gates where
  "default_gates = \<lparr>ga_build = 125 * minute, ga_preDeploy = 12 * minute, ga_deploy = 18 * minute\<rparr>"

definition deployTimedOut :: "gates \<Rightarrow> string \<Rightarrow> int \<Rightarrow> deploy_row \<Rightarrow> bool" where
  "deployTimedOut ga repo now r =
     (let timeout =
        (if r_status r = DeployCreated then (if repo \<noteq> [] then ga_build ga else ga_deploy ga)
         else if r_status r = DeployQueued \<or> r_status r = DeployBuildInProgress then ga_build ga
         else if r_status r = DeployPreDeployInProgress then ga_preDeploy ga
         else ga_deploy ga)
      in timeout < now - r_updated r)"

definition isBuildPhase :: "deploy_status \<Rightarrow> bool" where
  "isBuildPhase s \<longleftrightarrow> s = DeployCreated \<or> s = DeployQueued \<or> s = DeployBuildInProgress"

definition timedOutDeployStatus :: "deploy_row \<Rightarrow> deploy_status" where
  "timedOutDeployStatus r =
     (if r_status r = DeployQueued \<or> r_status r = DeployBuildInProgress then DeployBuildFailed
      else if r_status r = DeployPreDeployInProgress then DeployPreDeployFailed
      else DeployUpdateFailed)"

text \<open>The outer \<open>None\<close> is "not settled"; the inner one is settled with no status.\<close>

definition supersededDeployStatus :: "deploy_row \<Rightarrow> live_app \<Rightarrow> bool \<Rightarrow> deploy_status option option" where
  "supersededDeployStatus r a timedOut =
     (let g = r_generation r; rel = la_releaseGeneration a; gen = appReleaseGeneration a in
      if isBuildPhase (r_status r) \<and> recordedBuildFailure a g \<noteq> None then Some (Some DeployBuildFailed)
      else if endedWithNewerCancel r a then Some (Some DeployCanceled)
      else if 0 < rel \<and> g \<noteq> 0 \<and> g < rel then
        Some (Some (if servesGeneration a g then DeployLive
                    else if preDeployStatusAt a g = PreDeployFailed then DeployPreDeployFailed
                    else if recordedRolloutFailure a g \<noteq> None then DeployUpdateFailed
                    else DeployCanceled))
      else if gen = 0 \<or> g = 0 \<or> gen = g then None
      else if r_overlap r \<and> r_status r = DeployQueued \<and> gen < g then Some None
      else if \<not> timedOut then Some None
      else if 0 < rel then Some (Some DeployCanceled)
      else Some (Some (timedOutDeployStatus r)))"

text \<open>What the phase of the App says, when it says anything.\<close>

definition phase_status :: "deploy_row \<Rightarrow> live_app \<Rightarrow> bool \<Rightarrow> deploy_status option" where
  "phase_status r a timedOut =
     (case la_phase a of
        PhaseBuilding \<Rightarrow>
          (case readyReasonForGeneration a of
             None \<Rightarrow> None
           | Some reason \<Rightarrow>
               if timedOut then Some DeployBuildFailed
               else if BuildIsRunningReason reason then Some DeployBuildInProgress
               else Some DeployQueued)
      | PhaseDeploying \<Rightarrow>
          (case readyReasonForGeneration a of
             None \<Rightarrow> None
           | Some reason \<Rightarrow> Some (if timedOut then DeployUpdateFailed else DeployUpdateInProgress))
      | PhaseRunning \<Rightarrow> if releaseIsActive r a then Some DeployLive else None
      | PhaseHibernated \<Rightarrow>
          if \<not> la_suspended a \<and> 0 < la_releaseGeneration a \<and> releaseIsActive r a then Some DeployLive else None
      | PhaseFailed \<Rightarrow>
          (case readyReasonForGeneration a of
             None \<Rightarrow> None
           | Some reason \<Rightarrow>
               if IsBuildFailureReason reason then Some DeployBuildFailed
               else if reason = ''PreDeployFailed'' then Some DeployPreDeployFailed
               else Some DeployUpdateFailed)
      | _ \<Rightarrow> None)"

definition observedDeployStatus :: "deploy_row \<Rightarrow> live_app \<Rightarrow> bool \<Rightarrow> deploy_status option" where
  "observedDeployStatus r a timedOut =
     (if releaseCanceledFor r a then Some DeployCanceled
      else if awaitingSurvivor r a \<and> \<not> timedOut then None
      else (case supersededDeployStatus r a timedOut of
              Some st \<Rightarrow> st
            | None \<Rightarrow>
                if preDeployStatusFor a = PreDeployRunning then
                  Some (if suspendEndsRollout r a then DeployCanceled
                        else if timedOut then DeployPreDeployFailed
                        else DeployPreDeployInProgress)
                else if preDeployStatusFor a = PreDeployFailed then Some DeployPreDeployFailed
                else if recordedRolloutFailure a (r_generation r) \<noteq> None then Some DeployUpdateFailed
                else if suspendEndsRollout r a then Some DeployCanceled
                else (case phase_status r a timedOut of
                        Some st \<Rightarrow> Some st
                      | None \<Rightarrow> if timedOut then Some (timedOutDeployStatus r) else None)))"

section \<open>What a close says\<close>

definition parkReason :: "string \<Rightarrow> bool" where
  "parkReason reason \<longleftrightarrow> reason = ''Suspended'' \<or> reason = ''AutoHibernated''"

definition stallDiagnosis :: "string \<Rightarrow> bool" where
  "stallDiagnosis reason \<longleftrightarrow>
     reason \<in> {''HealthCheckFailing'', ''HTTPPortDiscovery'', ''CrashLoopBackOff'', ''ImagePullBackOff'',
       ''CreateContainerConfigError'', ''RolloutBlockedByQuota'', ''Unschedulable'', ''ContainerCreating'',
       ''ServedReleaseCannotStart'', ''ImageRegistryRateLimited'', ''ImageRegistryUnavailable''}"

definition timedOutDeployReason :: "deploy_status \<Rightarrow> string" where
  "timedOutDeployReason s =
     (if s = DeployBuildFailed then ''the build did not finish within the build window; check the build logs''
      else if s = DeployPreDeployFailed then
        ''the pre-deploy command did not finish within its window; check the pre-deploy logs''
      else ''the deploy did not become healthy within the health-gate window; check the service logs'')"

definition abandonedDeployReason :: "deploy_status \<Rightarrow> string" where
  "abandonedDeployReason s =
     (if s = DeployBuildFailed then
        ''the build did not finish within the build window, and this service's App record could not be read to explain why''
      else ''the deploy did not finish within its window, and this service's App record could not be read to explain why'')"

text \<open>\<open>currentFailureReason\<close>: the first Ready condition of the generation that names a cause, and its event code.\<close>

definition names_failure :: "app_phase \<Rightarrow> status_condition \<Rightarrow> (string \<times> string) option" where
  "names_failure ph c =
     (let reason = c_reason c; msg = c_message c;
          raw = (if ph = PhaseFailed \<and> msg \<noteq> [] then Some (msg, []) else None) in
      if reason = ''ImagePullBackOff'' then Some (msg, ''image_pull_backoff'')
      else if stallDiagnosis reason \<or> reason = ''PreDeployFailed'' then Some (msg, [])
      else if reason = ''BuildQueued'' \<or> reason = ''RegistryCredsPending'' then
        (if msg \<noteq> [] then Some (''the build never started: '' @ msg, []) else raw)
      else if IsBuildFailureReason reason then Some (msg, [])
      else raw)"

fun first_failure :: "app_phase \<Rightarrow> int \<Rightarrow> status_condition list \<Rightarrow> (string \<times> string) option" where
  "first_failure ph g [] = None"
| "first_failure ph g (c # cs) =
     (if c_type c \<noteq> ''Ready'' \<or> c_observed c \<noteq> g then first_failure ph g cs
      else (case names_failure ph c of Some x \<Rightarrow> Some x | None \<Rightarrow> first_failure ph g cs))"

definition currentFailureReason :: "live_app \<Rightarrow> (string \<times> string) option" where
  "currentFailureReason a = first_failure (la_phase a) (la_generation a) (la_conditions a)"

definition failureReasonFor :: "live_app \<Rightarrow> deploy_status \<Rightarrow> string \<times> string" where
  "failureReasonFor a s = (case currentFailureReason a of Some x \<Rightarrow> x | None \<Rightarrow> (timedOutDeployReason s, []))"

definition deployStallReason :: "live_app \<Rightarrow> string" where
  "deployStallReason a =
     (case current_ready (la_generation a) (la_conditions a) of
        None \<Rightarrow> []
      | Some c \<Rightarrow> if c_status c \<noteq> CondFalse \<or> \<not> stallDiagnosis (c_reason c) then [] else c_message c)"

definition deployStallObservation :: "live_app \<Rightarrow> string option" where
  "deployStallObservation a =
     (case findCondition (la_conditions a) ''Ready'' of
        Some c \<Rightarrow> if c_observed c = la_generation a \<and> parkReason (c_reason c) then None else Some (deployStallReason a)
      | None \<Rightarrow> Some (deployStallReason a))"

text \<open>\<open>TerminalStallText\<close>: \<open>strings.NewReplacer\<close> over the four pairs of phrases.\<close>

definition stall_phrases :: "(string \<times> string) list" where
  "stall_phrases =
     [(''has not succeeded, so the rollout is waiting'', ''never succeeded within the rollout window, so the deploy failed''),
      (''image pull is failing'', ''image pull failed''),
      (''the instance starts as soon as capacity frees up'', ''the rollout window ended before capacity freed up; deploy again later''),
      (''the new instance starts as soon as capacity frees up'',
       ''the rollout window ended before capacity freed up, so the deploy failed; deploy again once there is room'')]"

fun first_phrase :: "(string \<times> string) list \<Rightarrow> string \<Rightarrow> (nat \<times> string) option" where
  "first_phrase [] s = None"
| "first_phrase ((old, new) # ps) s = (if starts_with old s then Some (length old, new) else first_phrase ps s)"

text \<open>The characters still covered by a replaced phrase are skipped.\<close>

fun replace_phrases :: "nat \<Rightarrow> string \<Rightarrow> string" where
  "replace_phrases skip [] = []"
| "replace_phrases (Suc skip) (c # s) = replace_phrases skip s"
| "replace_phrases 0 (c # s) =
     (case first_phrase stall_phrases (c # s) of
        Some (len, new) \<Rightarrow> new @ replace_phrases (len - 1) s
      | None \<Rightarrow> c # replace_phrases 0 s)"

definition TerminalStallText :: "string \<Rightarrow> string" where
  "TerminalStallText msg = replace_phrases 0 msg"

definition deployCloseFailureReason :: "live_app \<Rightarrow> deploy_row \<Rightarrow> deploy_status \<Rightarrow> bool \<Rightarrow> string \<times> string" where
  "deployCloseFailureReason a r s matches =
     (if s = DeployBuildFailed then
        (case recordedBuildFailure a (r_generation r) of
           Some msg \<Rightarrow> if msg \<noteq> [] then (msg, []) else if matches then failureReasonFor a s else (timedOutDeployReason s, [])
         | None \<Rightarrow> if matches then failureReasonFor a s else (timedOutDeployReason s, []))
      else if s = DeployPreDeployFailed then
        (if recordedPreDeployFailure a (r_generation r) \<noteq> [] then (recordedPreDeployFailure a (r_generation r), [])
         else if matches then failureReasonFor a s else ([], []))
      else if s = DeployUpdateFailed then
        (case recordedRolloutFailure a (r_generation r) of
           Some (msg, reason) \<Rightarrow> (msg, if reason = ''ImagePullBackOff'' then ''image_pull_backoff'' else [])
         | None \<Rightarrow>
             (case (if matches then currentFailureReason a else None) of
                Some x \<Rightarrow> x
              | None \<Rightarrow>
                  if r_stall r \<noteq> [] then (TerminalStallText (r_stall r), [])
                  else if matches then (timedOutDeployReason s, []) else ([], [])))
      else ([], []))"

definition deployCloseEnd :: "live_app \<Rightarrow> deploy_row \<Rightarrow> deploy_status \<Rightarrow> deploy_end" where
  "deployCloseEnd a r s =
     (case la_rolloutFailure a of
        Some (g, en) \<Rightarrow> if s \<noteq> DeployUpdateFailed \<or> r_generation r = 0 \<or> g \<noteq> r_generation r then no_end else en
      | None \<Rightarrow> no_end)"

section \<open>Facts of the timeline\<close>

definition evidencedStart :: "int option \<Rightarrow> int option" where
  "evidencedStart observed = observed"

definition reached :: "deploy_row \<Rightarrow> deploy_status option \<Rightarrow> deploy_status" where
  "reached r new = (case new of Some s \<Rightarrow> s | None \<Rightarrow> r_status r)"

definition buildStartedAt :: "int \<Rightarrow> deploy_row \<Rightarrow> deploy_status option \<Rightarrow> int option \<Rightarrow> int option" where
  "buildStartedAt now r new observed =
     (case r_started r of
        Some t \<Rightarrow> Some t
      | None \<Rightarrow>
          let eff = reached r new in
          if r_status r = DeployQueued then
            (if \<not> DeployStatusStartsExecution eff then None
             else if DeployStatusStampsDispatch eff then Some now
             else evidencedStart observed)
          else if eff = DeployQueued then None
          else if eff = DeployLive then evidencedStart observed
          else Some (r_created r))"

definition buildEndedStatus :: "deploy_row \<Rightarrow> deploy_status option \<Rightarrow> string option" where
  "buildEndedStatus r new =
     (case reached r new of
        DeployBuildFailed \<Rightarrow> Some ''failed''
      | DeployCanceled \<Rightarrow> Some (if isBuildPhase (r_status r) then ''canceled'' else ''succeeded'')
      | DeployCreated \<Rightarrow> None | DeployQueued \<Rightarrow> None | DeployBuildInProgress \<Rightarrow> None
      | _ \<Rightarrow> Some ''succeeded'')"

definition deploy_fact :: "deploy_row \<Rightarrow> string \<Rightarrow> int \<Rightarrow> string \<Rightarrow> string \<Rightarrow> event_fact" where
  "deploy_fact r beat at img st =
     \<lparr>f_key = deploy_key (r_id r) beat, f_app = r_app r, f_type = beat, f_at = at, f_deploy = r_id r, f_image = img,
      f_status = st, f_reason = []\<rparr>"

definition buildLifecycleFacts :: "int \<Rightarrow> deploy_row \<Rightarrow> deploy_status option \<Rightarrow> int option \<Rightarrow> event_fact list" where
  "buildLifecycleFacts now r new observed =
     (if r_image r \<noteq> [] then []
      else (case buildStartedAt now r new observed of
              None \<Rightarrow> []
            | Some at \<Rightarrow>
                deploy_fact r ''build_started'' at (r_image r) [] #
                (case buildEndedStatus r new of
                   None \<Rightarrow> []
                 | Some outcome \<Rightarrow> [deploy_fact r ''build_ended'' now (r_image r) outcome])))"

definition withholdBuildEndedWhilePublishing ::
  "event_fact list \<Rightarrow> bool \<Rightarrow> deploy_row \<Rightarrow> deploy_status option \<Rightarrow> event_fact list" where
  "withholdBuildEndedWhilePublishing fs staticSite r new =
     (if \<not> staticSite \<or> reached r new \<noteq> DeployUpdateInProgress then fs
      else filter (\<lambda>f. f_type f \<noteq> ''build_ended'') fs)"

definition CanceledBuildLifecycleFacts :: "int \<Rightarrow> deploy_row \<Rightarrow> event_fact list" where
  "CanceledBuildLifecycleFacts now r = buildLifecycleFacts now r (Some DeployCanceled) None"

definition preDeployLifecycleFacts :: "int \<Rightarrow> deploy_row \<Rightarrow> live_app \<Rightarrow> event_fact list" where
  "preDeployLifecycleFacts now r a =
     (let p = preDeployStatusFor a;
          at = (\<lambda>field. case la_preDeploy a of None \<Rightarrow> now | Some pd \<Rightarrow> (case field pd of Some t \<Rightarrow> t | None \<Rightarrow> now)) in
      if p = PreDeployNone then []
      else deploy_fact r ''pre_deploy_started'' (at pd_started) [] [] #
           (case preDeployEndedStatus p of None \<Rightarrow> [] | Some ended \<Rightarrow> [preDeployEndedFact r (at pd_finished) ended]))"

fun image_pull_condition :: "int \<Rightarrow> status_condition list \<Rightarrow> status_condition option" where
  "image_pull_condition g [] = None"
| "image_pull_condition g (c # cs) =
     (if c_type c = ''Ready'' \<and> c_observed c = g \<and> c_reason c = ''ImagePullBackOff'' then Some c
      else image_pull_condition g cs)"

definition observedImagePullFailure :: "deploy_row \<Rightarrow> live_app \<Rightarrow> event_fact option" where
  "observedImagePullFailure r a =
     (if appReleaseGeneration a \<noteq> 0 \<and> r_generation r \<noteq> 0 \<and> appReleaseGeneration a \<noteq> r_generation r then None
      else map_option
        (\<lambda>c. (deploy_fact r ''image_pull_failed'' (c_transition c) (if r_image r = [] then la_specImage a else r_image r) [])
               \<lparr>f_reason := ''image_pull_backoff''\<rparr>)
        (image_pull_condition (la_generation a) (la_conditions a)))"

definition recordLifecycleFacts :: "int \<Rightarrow> string \<Rightarrow> bool \<Rightarrow> deploy_row \<Rightarrow> live_app \<Rightarrow> deploy_status option \<Rightarrow> event_fact list" where
  "recordLifecycleFacts now repo staticSite r a new =
     (let new' = (case new of Some s \<Rightarrow> if CanTransitionDeploy (r_status r) s then Some s else None | None \<Rightarrow> None) in
      (if repo \<noteq> [] then withholdBuildEndedWhilePublishing (buildLifecycleFacts now r new' (buildRunStart a r)) staticSite r new'
       else []) @ preDeployLifecycleFacts now r a)"

section \<open>One pass over an open row\<close>

definition releaseDetectedHTTPPort :: "live_app \<Rightarrow> int \<Rightarrow> string \<Rightarrow> int" where
  "releaseDetectedHTTPPort a g img =
     (if \<not> la_webImagePorts a \<or> g \<le> 0 \<or> img = [] then 0
      else let good = (\<lambda>n. in_selection n = ''http'' \<and> in_image n = img \<and> 1 \<le> in_port n \<and> in_port n \<le> 65535 \<and>
                           revisionGeneration (in_revision n) = Some g)
           in (case la_servingNetwork a of
                 Some n \<Rightarrow> if good n then in_port n
                           else (case la_imageNetwork a of Some m \<Rightarrow> if good m then in_port m else 0 | None \<Rightarrow> 0)
               | None \<Rightarrow> (case la_imageNetwork a of Some m \<Rightarrow> if good m then in_port m else 0 | None \<Rightarrow> 0)))"

definition releaseImageDigest :: "live_app \<Rightarrow> int \<Rightarrow> string" where
  "releaseImageDigest a g =
     (case la_imageDigest a of None \<Rightarrow> [] | Some (dg, digest) \<Rightarrow> if g = 0 \<or> dg \<noteq> g then [] else digest)"

definition builtCommit :: "live_app \<Rightarrow> string \<Rightarrow> string" where
  "builtCommit a ref =
     (case la_imageRevision a of
        None \<Rightarrow> []
      | Some (img, commit) \<Rightarrow> if la_repo a = [] \<or> ref = [] \<or> img \<noteq> ref then [] else commit)"

text \<open>\<open>recorded g\<close> is the image the release record of generation \<open>g\<close> names for the app container, if it reads.\<close>

definition servedReleaseImage :: "(int \<Rightarrow> string option) \<Rightarrow> live_app \<Rightarrow> int \<Rightarrow> string" where
  "servedReleaseImage recorded a g =
     (case recorded g of Some img \<Rightarrow> img | None \<Rightarrow> if la_phase a = PhaseBuilding then la_image a else [])"

text \<open>\<open>ORDER BY created_at DESC, id DESC LIMIT 1\<close>.\<close>

fun latest_row :: "(string \<Rightarrow> string \<Rightarrow> bool) \<Rightarrow> deploy_row list \<Rightarrow> deploy_row option" where
  "latest_row id_less [] = None"
| "latest_row id_less (r # rs) =
     (case latest_row id_less rs of
        None \<Rightarrow> Some r
      | Some q \<Rightarrow> if r_created r < r_created q \<or> (r_created r = r_created q \<and> id_less (r_id r) (r_id q)) then Some q else Some r)"

definition DeployIDByGeneration :: "(string \<Rightarrow> string \<Rightarrow> bool) \<Rightarrow> deploy_db \<Rightarrow> string \<Rightarrow> int \<Rightarrow> string" where
  "DeployIDByGeneration id_less d app g =
     (case latest_row id_less (filter (\<lambda>r. r_app r = app \<and> r_generation r = g) (db_rows d)) of
        None \<Rightarrow> [] | Some r \<Rightarrow> r_id r)"

definition suspendCancelReason :: string where
  "suspendCancelReason = ''Canceled: the service was suspended''"

definition restartRelease :: "live_app \<Rightarrow> bool" where
  "restartRelease a \<longleftrightarrow>
     (case la_releaseConfig a of None \<Rightarrow> False | Some (g, preserve) \<Rightarrow> preserve \<and> g = la_releaseGeneration a)"

definition supersededCancelReason :: "(string \<Rightarrow> string \<Rightarrow> bool) \<Rightarrow> deploy_db \<Rightarrow> deploy_row \<Rightarrow> live_app \<Rightarrow> string" where
  "supersededCancelReason id_less d r a =
     (if la_releaseGeneration a \<le> r_generation r then ''Superseded by a newer release''
      else let i = DeployIDByGeneration id_less d (r_app r) (la_releaseGeneration a) in
        if i = [] then ''Superseded by a newer release''
        else if restartRelease a then restartCanceledReason i else supersededByReason i)"

definition canceledAlongReason :: "(string \<Rightarrow> string \<Rightarrow> bool) \<Rightarrow> deploy_db \<Rightarrow> deploy_row \<Rightarrow> live_app \<Rightarrow> string" where
  "canceledAlongReason id_less d r a =
     (let i = DeployIDByGeneration id_less d (r_app r)
                (case canceledReleaseGeneration a of Some g \<Rightarrow> g | None \<Rightarrow> parsed_number (la_annotations a canceledKey)) in
      if i \<noteq> [] then ''Canceled along with '' @ i else ''Canceled along with a newer deploy'')"

record pass_env =
  pe_now :: int
  pe_gates :: gates
  pe_repo :: string
  pe_static :: bool
  pe_creationPending :: bool
  pe_cancel :: cancel_api
  pe_recorded :: "int \<Rightarrow> string option"
  pe_idLess :: "string \<Rightarrow> string \<Rightarrow> bool"

definition matchesRelease :: "deploy_row \<Rightarrow> live_app \<Rightarrow> bool" where
  "matchesRelease r a \<longleftrightarrow>
     appReleaseGeneration a = 0 \<or> r_generation r = 0 \<or> appReleaseGeneration a = r_generation r"

text \<open>A fact of an App that is gone is refused by its foreign key.\<close>

definition insertFacts :: "event_fact list \<Rightarrow> deploy_db \<Rightarrow> deploy_db" where
  "insertFacts fs d = d\<lparr>db_facts := fold insertFact (filter (\<lambda>f. f_app f \<in> set (db_apps d)) fs) (db_facts d)\<rparr>"

definition project_evidence :: "pass_env \<Rightarrow> deploy_row \<Rightarrow> live_app \<Rightarrow> deploy_status option \<Rightarrow> deploy_db \<Rightarrow> deploy_db" where
  "project_evidence e r a new d =
     (if matchesRelease r a then
        let p = preDeployStatusFor a;
            d1 = (if p \<noteq> PreDeployNone then settle d snd (SetDeployPreDeployStatus d (r_id r) p (pe_now e)) else d);
            d2 = (case deployStallObservation a of Some st \<Rightarrow> settle d1 id (SetDeployStallReason d1 (r_id r) st) | None \<Rightarrow> d1);
            d3 = (case observedImagePullFailure r a of Some f \<Rightarrow> insertFacts [f] d2 | None \<Rightarrow> d2)
        in insertFacts (recordLifecycleFacts (pe_now e) (pe_repo e) (pe_static e) r a new) d3
      else if new \<noteq> None \<and> pe_repo e \<noteq> [] then
        insertFacts
          (map (\<lambda>f. if new = Some DeployCanceled \<and> f_type f = ''build_ended'' then f\<lparr>f_reason := ''superseded''\<rparr> else f)
             (buildLifecycleFacts (pe_now e) r new (buildRunStart a r))) d
      else d)"

definition close_args :: "pass_env \<Rightarrow> deploy_db \<Rightarrow> deploy_row \<Rightarrow> live_app \<Rightarrow> bool \<Rightarrow> deploy_status \<Rightarrow> transition_args" where
  "close_args e d r a suspendEnded s =
     (let matches = matchesRelease r a; g = r_generation r;
          ref = (if matches then la_image a
                 else if servesGeneration a g then servedReleaseImage (pe_recorded e) a g else []);
          ran = (if s = DeployLive then
                   \<lparr>im_ref = ref, im_sha = releaseImageDigest a g, im_port = releaseDetectedHTTPPort a g ref,
                    im_commit = builtCommit a ref\<rparr>
                 else no_image);
          why = deployCloseFailureReason a r s matches;
          cancel = (if s \<noteq> DeployCanceled then []
                    else if suspendEnded then suspendCancelReason
                    else if releaseCanceledFor r a then []
                    else if endedWithNewerCancel r a then canceledAlongReason (pe_idLess e) d r a
                    else supersededCancelReason (pe_idLess e) d r a);
          started = (if s = DeployBuildFailed then buildRunStart a r
                     else if s = DeployLive then coalesce (buildRunStart a r) (releaseDispatchStart a r)
                     else if s = DeployPreDeployFailed then coalesce (buildRunStart a r) (failedPreDeployStart a r)
                     else None)
      in \<lparr>ta_status = s, ta_ran = ran, ta_failure = fst why, ta_code = snd why, ta_cancel = cancel, ta_started = started,
          ta_end = deployCloseEnd a r s\<rparr>)"

text \<open>
  \<open>recordDeploy\<close>: the tables and the App after the pass, and the notification it sends, if any. A suspend
  that ends the rollout stamps the App first; if that fails the pass records nothing.
\<close>

definition recordDeploy ::
  "pass_env \<Rightarrow> deploy_row \<Rightarrow> live_app \<Rightarrow> deploy_db \<Rightarrow> deploy_db \<times> live_app \<times> (deploy_status \<times> string) option" where
  "recordDeploy e r cur d =
     (let new = observedDeployStatus r cur (deployTimedOut (pe_gates e) (pe_repo e) (pe_now e) r);
          suspendEnded = (new = Some DeployCanceled \<and> la_releaseGeneration cur \<le> r_generation r \<and> suspendEndsRollout r cur);
          stamp = (if suspendEnded then markReleaseCanceled (pe_cancel e) cur (r_generation r) None else (None, cur)) in
      (case stamp of
         (Some _, a) \<Rightarrow> (d, a, None)
       | (None, a) \<Rightarrow>
           let d1 = project_evidence e r a new d in
           (case new of
              None \<Rightarrow> (d1, a, None)
            | Some s \<Rightarrow>
                let t = close_args e d1 r a suspendEnded s in
                (case TransitionDeploy d1 (r_id r) t (pe_now e) of
                   Inl _ \<Rightarrow> (d1, a, None)
                 | Inr (moved, d2) \<Rightarrow>
                     (d2, a, if moved \<and> IsTerminalDeployStatus s \<and> s \<noteq> DeployCanceled then Some (s, ta_failure t) else None)))))"

definition settleAbandonedDeploy :: "pass_env \<Rightarrow> deploy_row \<Rightarrow> deploy_db \<Rightarrow> deploy_db \<times> (deploy_status \<times> string) option" where
  "settleAbandonedDeploy e r d =
     (if \<not> deployTimedOut (pe_gates e) (pe_repo e) (pe_now e) r then (d, None)
      else let s = timedOutDeployStatus r;
               reason = (if pe_creationPending e
                         then ''the initial service configuration was not committed within the deployment window''
                         else abandonedDeployReason s) in
        (case TransitionDeploy d (r_id r)
                \<lparr>ta_status = s, ta_ran = no_image, ta_failure = reason, ta_code = [], ta_cancel = [], ta_started = None,
                 ta_end = no_end\<rparr> (pe_now e) of
           Inl _ \<Rightarrow> (d, None)
         | Inr (moved, d1) \<Rightarrow> (d1, if moved then Some (s, reason) else None)))"

fun settleAbandonedDeploys :: "pass_env \<Rightarrow> deploy_row list \<Rightarrow> deploy_db \<Rightarrow> deploy_db" where
  "settleAbandonedDeploys e [] d = d"
| "settleAbandonedDeploys e (r # rs) d = settleAbandonedDeploys e rs (fst (settleAbandonedDeploy e r d))"

definition recordCanceledPreDeploy :: "pass_env \<Rightarrow> string \<Rightarrow> live_app \<Rightarrow> deploy_db \<Rightarrow> deploy_db" where
  "recordCanceledPreDeploy e app a d =
     (case canceledReleaseGeneration a of
        None \<Rightarrow> d
      | Some g \<Rightarrow>
          let p = preDeployStatusAt a g in
          if preDeployEndedStatus p = None then d
          else let finished = (case la_preDeploy a of None \<Rightarrow> pe_now e | Some pd \<Rightarrow> (case pd_finished pd of Some t \<Rightarrow> t | None \<Rightarrow> pe_now e))
               in settle d snd (SettleCanceledPreDeploy d app g p finished (pe_now e)))"

text \<open>The deploy part of \<open>recordObservations\<close>: every open row of the service, then the canceled one's step.\<close>

fun recordDeploys :: "pass_env \<Rightarrow> deploy_row list \<Rightarrow> live_app \<Rightarrow> deploy_db \<Rightarrow> deploy_db \<times> live_app" where
  "recordDeploys e [] a d = (d, a)"
| "recordDeploys e (r # rs) a d = (case recordDeploy e r a d of (d1, a1, _) \<Rightarrow> recordDeploys e rs a1 d1)"

definition observe_deploys :: "pass_env \<Rightarrow> string \<Rightarrow> deploy_row list \<Rightarrow> live_app \<Rightarrow> deploy_db \<Rightarrow> deploy_db" where
  "observe_deploys e app rs a d =
     (case recordDeploys e rs a d of (d1, a1) \<Rightarrow> recordCanceledPreDeploy e app a1 d1)"

section \<open>What a status rests on\<close>

text \<open>The evidence that a release serves: the operator names it, or, from before releases were numbered, reports the current spec.\<close>

definition serving_evidence :: "deploy_row \<Rightarrow> live_app \<Rightarrow> bool" where
  "serving_evidence r a \<longleftrightarrow>
     servesGeneration a (r_generation r) \<or>
     (la_releaseGeneration a \<le> 0 \<and> la_observedGeneration a = la_generation a \<and> la_phase a = PhaseRunning)"

lemma releaseIsActive_evidence:
  "releaseIsActive r a \<Longrightarrow> la_phase a = PhaseRunning \<or> 0 < la_releaseGeneration a \<Longrightarrow> serving_evidence r a"
  by (auto simp: releaseIsActive_def serving_evidence_def split: if_splits)

lemma superseded_live: "supersededDeployStatus r a t = Some (Some DeployLive) \<Longrightarrow> servesGeneration a (r_generation r)"
  by (auto simp: supersededDeployStatus_def timedOutDeployStatus_def Let_def split: if_splits)

lemma phase_live: "phase_status r a t = Some DeployLive \<Longrightarrow> serving_evidence r a"
  by (auto simp: phase_status_def releaseIsActive_evidence split: app_phase.splits option.splits if_splits)

lemma observed_live:
  assumes "observedDeployStatus r a t = Some DeployLive"
  shows "serving_evidence r a" and "\<not> releaseCanceledFor r a"
proof -
  show "\<not> releaseCanceledFor r a" using assms by (auto simp: observedDeployStatus_def)
  show "serving_evidence r a"
  proof (cases "supersededDeployStatus r a t")
    case (Some st)
    with assms have "st = Some DeployLive" by (auto simp: observedDeployStatus_def split: if_splits)
    with Some superseded_live show ?thesis by (simp add: serving_evidence_def)
  next
    case None
    with assms have "phase_status r a t = Some DeployLive"
      by (auto simp: observedDeployStatus_def timedOutDeployStatus_def split: if_splits option.splits)
    then show ?thesis by (rule phase_live)
  qed
qed

text \<open>
  The deadline. Past it a pass always names a terminal status, except for the row that waits in the slot
  of the latest request. The move is legal but for two: the App reports a phase the row has left behind.
\<close>

definition waits_its_turn :: "deploy_row \<Rightarrow> live_app \<Rightarrow> bool" where
  "waits_its_turn r a \<longleftrightarrow> r_overlap r \<and> r_status r = DeployQueued \<and> appReleaseGeneration a < r_generation r"

definition regressed :: "deploy_row \<Rightarrow> deploy_status \<Rightarrow> bool" where
  "regressed r s \<longleftrightarrow>
     (r_status r = DeployUpdateInProgress \<and> s = DeployPreDeployFailed) \<or>
     (r_status r = DeployPreDeployInProgress \<and> s = DeployBuildFailed)"

lemma timedOut_legal: "IsOpenDeployStatus (r_status r) \<Longrightarrow> CanTransitionDeploy (r_status r) (timedOutDeployStatus r)"
  by (cases "r_status r") (simp_all add: timedOutDeployStatus_def CanTransitionDeploy_def openDeployStatuses_def)

lemma terminal_legal:
  assumes "IsOpenDeployStatus (r_status r)" "\<not> IsOpenDeployStatus s" "s \<noteq> DeployDeactivated"
  shows "CanTransitionDeploy (r_status r) s \<longleftrightarrow> \<not> regressed r s"
  using assms by (cases "r_status r"; cases s; simp add: CanTransitionDeploy_def openDeployStatuses_def regressed_def)

definition closing :: "deploy_status \<Rightarrow> bool" where
  "closing s \<longleftrightarrow> \<not> IsOpenDeployStatus s \<and> s \<noteq> DeployDeactivated"

lemma timedOut_closing: "closing (timedOutDeployStatus r)"
  by (simp add: closing_def timedOutDeployStatus_def)

lemma superseded_closing:
  assumes "supersededDeployStatus r a True = Some st" and "\<not> waits_its_turn r a"
  shows "\<exists>s. st = Some s \<and> closing s"
  using assms timedOut_closing [of r]
  by (auto simp: supersededDeployStatus_def Let_def waits_its_turn_def split: if_splits) (auto simp: closing_def)

lemma phase_closing: "phase_status r a True = Some s \<Longrightarrow> closing s"
  by (auto simp: phase_status_def closing_def split: app_phase.splits option.splits if_splits)

lemma observed_deadline:
  assumes "\<not> waits_its_turn r a"
  shows "\<exists>s. observedDeployStatus r a True = Some s \<and> closing s"
proof (cases "releaseCanceledFor r a")
  case True
  then show ?thesis by (simp add: observedDeployStatus_def closing_def)
next
  case False
  show ?thesis
  proof (cases "supersededDeployStatus r a True")
    case (Some st)
    with False superseded_closing [OF Some assms] show ?thesis by (auto simp: observedDeployStatus_def)
  next
    case None
    have fixed: "closing DeployCanceled" "closing DeployPreDeployFailed" "closing DeployUpdateFailed"
      by (simp_all add: closing_def)
    show ?thesis
      using False None fixed timedOut_closing [of r] phase_closing [of r a]
      by (cases "phase_status r a True") (auto simp: observedDeployStatus_def)
  qed
qed

section \<open>The contract of a cancel\<close>

lemma parsed_number_show:
  assumes "0 < g" "g < 2 ^ 63"
  shows "parse_int 64 (show_int g) = Some g" and "parsed_number (show_int g) = g"
proof -
  show p: "parse_int 64 (show_int g) = Some g" using assms by (intro parse_int_show) simp_all
  have "parsed_number s = g" if "parse_int 64 s = Some g" for s
    using that assms by (auto simp: parse_int_def parsed_number_def Let_def split: if_splits)
  with p show "parsed_number (show_int g) = g" by blast
qed

lemma parsed_number_parse: "parse_int 64 s = Some g \<Longrightarrow> parsed_number s = g"
  by (auto simp: parse_int_def parsed_number_def Let_def split: if_splits)

lemma keys_differ [simp]: "canceledKey \<noteq> survivingKey" "survivingKey \<noteq> canceledKey" "releaseKey \<noteq> canceledKey"
  "releaseKey \<noteq> survivingKey" "canceledKey \<noteq> releaseKey" "survivingKey \<noteq> releaseKey"
  by (simp_all add: canceledKey_def survivingKey_def releaseKey_def)

lemma parse_int_empty [simp]: "parse_int 64 [] = None"
  by (simp add: parse_int_def)

text \<open>The stamp as it is written: the generation, and the survivor while the canceled release is the newest request.\<close>

definition stamped_annotations :: "int \<Rightarrow> deploy_row option \<Rightarrow> live_app \<Rightarrow> string \<Rightarrow> string" where
  "stamped_annotations g survivor a =
     (la_annotations a)(survivingKey :=
        (case survivor of
           Some s \<Rightarrow> if parsed_number (la_annotations a releaseKey) = g then show_int (r_generation s) else []
         | None \<Rightarrow> []), canceledKey := show_int g)"

lemma cancel_patch_moves:
  assumes "cancel_patch g survivor a = Some b" and "parsed_number (la_annotations a canceledKey) < g"
  shows "la_annotations b = stamped_annotations g survivor a" and "la_releaseGeneration b = la_releaseGeneration a"
  using assms
  by (auto simp: cancel_patch_def Let_def stamped_annotations_def fun_upd_twist split: if_splits option.splits)

lemma stamped_generation:
  "0 < g \<Longrightarrow> g < 2 ^ 63 \<Longrightarrow> la_annotations b = stamped_annotations g survivor a \<Longrightarrow> canceledReleaseGeneration b = Some g"
  by (simp add: canceledReleaseGeneration_def generationAnnotation_def stamped_annotations_def parsed_number_show)

lemma cancel_patch_quiet:
  assumes "cancel_patch g survivor a = Some b" and "\<not> parsed_number (la_annotations a canceledKey) < g"
  shows "la_annotations b canceledKey = la_annotations a canceledKey" and "generationAnnotation b survivingKey = None"
  using assms by (auto simp: cancel_patch_def Let_def generationAnnotation_def split: if_splits)

lemma mark_attempts_holds:
  assumes "mark_attempts api g survivor n a = (None, b)" and "0 < g" "g < 2 ^ 63"
  shows "g \<le> parsed_number (la_annotations b canceledKey)"
  using assms(1)
proof (induction n arbitrary: a)
  case 0
  then show ?case by simp
next
  case (Suc n)
  from Suc.prems obtain c where c: "ca_read api n = Some c" by (auto split: option.splits)
  show ?case
  proof (cases "cancel_patch g survivor c")
    case None
    with Suc.prems c have "b = c" by simp
    with None show ?thesis by (auto simp: cancel_patch_def Let_def not_less split: if_splits option.splits)
  next
    case (Some p)
    then have p: "g \<le> parsed_number (la_annotations p canceledKey)"
      using cancel_patch_moves(1) [OF Some] cancel_patch_quiet(1) [OF Some] parsed_number_show(2) [OF assms(2,3)]
      by (cases "parsed_number (la_annotations c canceledKey) < g") (simp_all add: stamped_annotations_def)
    from Suc.prems c Some p Suc.IH show ?thesis by (auto split: patch_out.splits)
  qed
qed

section \<open>What a pass does to the tables\<close>

text \<open>A projection leaves a row's identity, status and story alone.\<close>

definition same_story :: "deploy_row \<Rightarrow> deploy_row \<Rightarrow> bool" where
  "same_story p q \<longleftrightarrow>
     r_id q = r_id p \<and> r_app q = r_app p \<and> r_origin q = r_origin p \<and> r_status q = r_status p \<and>
     r_overlap q = r_overlap p \<and> r_failure q = r_failure p \<and> r_cancel q = r_cancel p \<and>
     r_finished q = r_finished p \<and> r_started q = r_started p \<and> r_exit q = r_exit p \<and> r_oom q = r_oom p \<and>
     r_timedOutSeconds q = r_timedOutSeconds p"

definition projects :: "deploy_db \<Rightarrow> deploy_db \<Rightarrow> bool" where
  "projects d e \<longleftrightarrow> moves d e \<and> (\<exists>g. db_rows e = map g (db_rows d) \<and> (\<forall>p. same_story p (g p)))"

lemma same_story_trans: "same_story a b \<Longrightarrow> same_story b c \<Longrightarrow> same_story a c"
  by (simp add: same_story_def)

lemma projects_refl: "db_ok d \<Longrightarrow> projects d d"
  unfolding projects_def by (intro conjI moves_refl exI [of _ "\<lambda>p. p"]) (simp_all add: same_story_def)

lemma projects_trans:
  assumes "projects a b" "projects b c"
  shows "projects a c"
proof -
  obtain f where f: "db_rows b = map f (db_rows a)" "\<forall>p. same_story p (f p)"
    using assms(1) unfolding projects_def by blast
  obtain g where g: "db_rows c = map g (db_rows b)" "\<forall>p. same_story p (g p)"
    using assms(2) unfolding projects_def by blast
  have "\<forall>p. same_story p ((g \<circ> f) p)" using f(2) g(2) same_story_trans by (metis comp_apply)
  moreover have "db_rows c = map (g \<circ> f) (db_rows a)" using f(1) g(1) by simp
  ultimately show ?thesis using assms moves_trans by (auto simp: projects_def)
qed

lemma projects_facts: "db_ok d \<Longrightarrow> projects d (insertFacts fs d)"
  unfolding projects_def insertFacts_def
  by (intro conjI moves_facts moves_refl exI [of _ "\<lambda>p. p"])
     (simp_all add: same_story_def db_ok_def insertFacts_distinct [where g = "\<lambda>x. x"])

lemma settle_projects:
  "db_ok d \<Longrightarrow> (\<And>x. res = Inr x \<Longrightarrow> projects d (f x)) \<Longrightarrow> projects d (settle d f res)"
  by (cases res) (simp_all add: settle_def projects_refl)

lemma update_projects:
  assumes "moves d d'" and "commit_rows d (update_where p f (db_rows d)) = Inr d'" and "\<And>r. same_story r (f r)"
  shows "projects d d'"
  unfolding projects_def
proof (intro conjI exI)
  show "db_rows d' = map (\<lambda>r. if p r then f r else r) (db_rows d)"
    using assms(2) by (simp add: commit_rows_Inr update_where_def)
  show "\<forall>r. same_story r (if p r then f r else r)" using assms(3) by (simp add: same_story_def)
qed fact

lemma SetDeployPreDeployStatus_projects:
  assumes ok: "db_ok d" and res: "SetDeployPreDeployStatus d rid p now = Inr (b, d')"
  shows "projects d d'"
proof -
  from res have "commit_rows d (update_where (\<lambda>r. r_id r = rid \<and> IsOpenDeployStatus (r_status r) \<and> r_preDeploy r \<noteq> p)
      (\<lambda>r. r\<lparr>r_preDeploy := p, r_updated := touched now (r_updated r)\<rparr>) (db_rows d)) = Inr d'"
    by (auto simp: SetDeployPreDeployStatus_def Let_def rbind_Inr_iff)
  from update_projects [OF SetDeployPreDeployStatus_moves [OF ok res] this] show ?thesis by (simp add: same_story_def)
qed

lemma SetDeployStallReason_projects:
  assumes ok: "db_ok d" and res: "SetDeployStallReason d rid reason = Inr d'"
  shows "projects d d'"
  by (rule update_projects [OF SetDeployStallReason_moves [OF ok res] res [unfolded SetDeployStallReason_def]])
     (simp add: same_story_def)

lemma projects_ok: "projects d e \<Longrightarrow> db_ok e"
  by (simp add: projects_def moves_def)

lemma project_evidence_projects:
  assumes ok: "db_ok d"
  shows "projects d (project_evidence e r a new d)"
proof (cases "matchesRelease r a")
  case True
  define d1 where "d1 = (if preDeployStatusFor a \<noteq> PreDeployNone
    then settle d snd (SetDeployPreDeployStatus d (r_id r) (preDeployStatusFor a) (pe_now e)) else d)"
  define d2 where "d2 = (case deployStallObservation a of
    Some st \<Rightarrow> settle d1 id (SetDeployStallReason d1 (r_id r) st) | None \<Rightarrow> d1)"
  define d3 where "d3 = (case observedImagePullFailure r a of Some f \<Rightarrow> insertFacts [f] d2 | None \<Rightarrow> d2)"
  have 1: "projects d d1"
    unfolding d1_def by (auto intro!: settle_projects ok projects_refl dest: SetDeployPreDeployStatus_projects [OF ok])
  have 2: "projects d1 d2"
    unfolding d2_def using projects_ok [OF 1]
    by (auto intro!: settle_projects projects_refl dest: SetDeployStallReason_projects split: option.split)
  have 3: "projects d2 d3"
    unfolding d3_def using projects_ok [OF 2] by (auto intro!: projects_refl projects_facts split: option.split)
  have "project_evidence e r a new d = insertFacts (recordLifecycleFacts (pe_now e) (pe_repo e) (pe_static e) r a new) d3"
    unfolding project_evidence_def d3_def d2_def d1_def Let_def using True by (simp only: if_True)
  then have 4: "projects d3 (project_evidence e r a new d)"
    using projects_ok [OF 3] by (simp add: projects_facts)
  from projects_trans [OF projects_trans [OF projects_trans [OF 1 2] 3] 4] show ?thesis .
next
  case False
  with ok show ?thesis by (simp add: project_evidence_def projects_refl projects_facts)
qed

text \<open>A pass returns early, or projects and then transitions.\<close>

lemma recordDeploy_cases:
  assumes "recordDeploy e r cur d = (d', a, n)"
  obtains (unstamped) "d' = d" "n = None"
    | (projected) new where "d' = project_evidence e r a new d" "n = None"
    | (moved) s t b where "observedDeployStatus r cur (deployTimedOut (pe_gates e) (pe_repo e) (pe_now e) r) = Some s"
        "t = close_args e (project_evidence e r a (Some s) d) r a
               (s = DeployCanceled \<and> la_releaseGeneration cur \<le> r_generation r \<and> suspendEndsRollout r cur) s"
        "TransitionDeploy (project_evidence e r a (Some s) d) (r_id r) t (pe_now e) = Inr (b, d')"
        "n = (if b \<and> IsTerminalDeployStatus s \<and> s \<noteq> DeployCanceled then Some (s, ta_failure t) else None)"
        "if s = DeployCanceled \<and> la_releaseGeneration cur \<le> r_generation r \<and> suspendEndsRollout r cur
           then markReleaseCanceled (pe_cancel e) cur (r_generation r) None = (None, a) else a = cur"
proof -
  let ?new = "observedDeployStatus r cur (deployTimedOut (pe_gates e) (pe_repo e) (pe_now e) r)"
  let ?sus = "?new = Some DeployCanceled \<and> la_releaseGeneration cur \<le> r_generation r \<and> suspendEndsRollout r cur"
  obtain err b where stamp: "(if ?sus then markReleaseCanceled (pe_cancel e) cur (r_generation r) None else (None, cur)) = (err, b)"
    by fastforce
  note res = assms [unfolded recordDeploy_def Let_def stamp prod.case]
  show thesis
  proof (cases err)
    case (Some x)
    with res unstamped show thesis by simp
  next
    case None
    show thesis
    proof (cases ?new)
      case no: None
      with res None projected [of None] show thesis by auto
    next
      case (Some s)
      let ?d1 = "project_evidence e r b (Some s) d"
      let ?t = "close_args e ?d1 r b (s = DeployCanceled \<and> la_releaseGeneration cur \<le> r_generation r \<and> suspendEndsRollout r cur) s"
      have sus: "?sus \<longleftrightarrow> s = DeployCanceled \<and> la_releaseGeneration cur \<le> r_generation r \<and> suspendEndsRollout r cur"
        using Some by simp
      show thesis
      proof (cases "TransitionDeploy ?d1 (r_id r) ?t (pe_now e)")
        case (Inl x)
        with res None Some sus projected [of "Some s"] show thesis by auto
      next
        case (Inr y)
        obtain moves d2 where y: "y = (moves, d2)" by fastforce
        with res None Some sus Inr have out: "d2 = d'" "b = a"
          "n = (if moves \<and> IsTerminalDeployStatus s \<and> s \<noteq> DeployCanceled then Some (s, ta_failure ?t) else None)"
          by (auto split: if_splits)
        show thesis
          by (rule moved [OF Some refl, of moves]) (use Inr y out stamp None sus in \<open>auto split: if_splits\<close>)
      qed
    qed
  qed
qed

lemma close_args_status [simp]: "ta_status (close_args e d r a b s) = s"
  by (simp add: close_args_def Let_def)

lemma recordDeploy_moves: "db_ok d \<Longrightarrow> recordDeploy e r cur d = (d', a, n) \<Longrightarrow> moves d d'"
proof (erule recordDeploy_cases)
  assume ok: "db_ok d" and "d' = d"
  then show "moves d d'" by (simp add: moves_refl)
next
  fix new assume ok: "db_ok d" and "d' = project_evidence e r a new d"
  then show "moves d d'" using project_evidence_projects [OF ok] by (simp add: projects_def)
next
  fix s t b
  assume ok: "db_ok d"
    and t: "TransitionDeploy (project_evidence e r a (Some s) d) (r_id r) t (pe_now e) = Inr (b, d')"
  have p: "projects d (project_evidence e r a (Some s) d)" by (rule project_evidence_projects [OF ok])
  from TransitionDeploy_moves [OF projects_ok [OF p] t] p show "moves d d'"
    using moves_trans by (auto simp: projects_def)
qed

section \<open>The story a row tells\<close>

text \<open>Only a failed row has a failure reason, only a canceled one a cancel reason, only a failed rollout an exit.\<close>

definition told :: "deploy_row \<Rightarrow> bool" where
  "told r \<longleftrightarrow>
     (r_failure r = [] \<or> DeployFailureStatus (r_status r)) \<and>
     (r_cancel r = [] \<or> r_status r = DeployCanceled) \<and>
     (r_status r = DeployUpdateFailed \<or> (r_exit r = None \<and> \<not> r_oom r \<and> r_timedOutSeconds r \<le> 0))"

definition fits :: "transition_args \<Rightarrow> bool" where
  "fits t \<longleftrightarrow>
     (ta_failure t = [] \<or> DeployFailureStatus (ta_status t)) \<and>
     (ta_cancel t = [] \<or> ta_status t = DeployCanceled) \<and>
     (ta_status t = DeployUpdateFailed \<or> ta_end t = no_end)"

lemma told_untold:
  assumes "told r" "IsOpenDeployStatus (r_status r) \<or> r_status r = DeployLive"
  shows "r_failure r = []" "r_cancel r = []" "r_exit r = None" "\<not> r_oom r" "r_timedOutSeconds r \<le> 0"
  using assms by (cases "r_status r"; simp add: told_def)+

lemma transitioned_end [simp]:
  "r_exit (transitioned t now r) = coalesce (en_exit (ta_end t)) (r_exit r)"
  "r_oom (transitioned t now r) \<longleftrightarrow> r_oom r \<or> en_oom (ta_end t)"
  "r_timedOutSeconds (transitioned t now r) = max (r_timedOutSeconds r) (en_timedOut (ta_end t))"
  by (simp_all add: transitioned_def Let_def)

lemma transitioned_told:
  assumes "told r" "CanTransitionDeploy (r_status r) (ta_status t)" "fits t"
  shows "told (transitioned t now r)"
proof -
  have before: "IsOpenDeployStatus (r_status r) \<or> r_status r = DeployLive"
    using transition_leaves_open_row [OF assms(2)] assms(2)
    by (cases "ta_status t = DeployDeactivated") (simp_all add: transition_deactivates_live)
  then show ?thesis
    using told_untold [OF assms(1) before] assms(3)
    by (auto simp: told_def fits_def or_text_def no_end_def)
qed

lemma deactivated_told:
  assumes "told r" "r_status r = DeployLive"
  shows "told (deactivated now r)"
proof -
  have "IsOpenDeployStatus (r_status r) \<or> r_status r = DeployLive" using assms(2) by simp
  from told_untold [OF assms(1) this] show ?thesis by (simp add: told_def deactivated_def)
qed

lemma pending_canceled_told:
  assumes "told r" "r_status r = DeployQueued"
  shows "told (pending_canceled reason now r)"
proof -
  have "IsOpenDeployStatus (r_status r) \<or> r_status r = DeployLive" using assms(2) by simp
  from told_untold [OF assms(1) this] show ?thesis by (simp add: told_def pending_canceled_def)
qed

lemma overlap_told: "told r \<Longrightarrow> told (r\<lparr>r_overlap := b\<rparr>)"
  by (simp add: told_def)

definition all_told :: "deploy_db \<Rightarrow> bool" where
  "all_told d \<longleftrightarrow> (\<forall>r\<in>set (db_rows d). told r)"

lemma TransitionDeploy_told:
  assumes ok: "db_ok d" and all: "all_told d" and res: "TransitionDeploy d rid t now = Inr (b, d')" and t: "fits t"
  shows "all_told d'"
  unfolding all_told_def
proof
  fix q assume "q \<in> set (db_rows d')"
  from TransitionDeploy_frame [OF ok res this]
  obtain p where p: "p \<in> set (db_rows d)" and
    q: "q = p \<or> (r_id p = rid \<and> q = p\<lparr>r_overlap := False\<rparr>) \<or>
        (r_id p = rid \<and> CanTransitionDeploy (r_status p) (ta_status t) \<and> q = transitioned t now p) \<or>
        (r_id p \<noteq> rid \<and> r_status p = DeployLive \<and> ta_status t = DeployLive \<and> q = deactivated now p)" by blast
  from all p have "told p" by (simp add: all_told_def)
  with q t show "told q" using transitioned_told deactivated_told overlap_told by blast
qed

lemma same_story_told: "same_story p q \<Longrightarrow> told p \<Longrightarrow> told q"
  by (simp add: same_story_def told_def)

lemma projects_told: "projects d e \<Longrightarrow> all_told d \<Longrightarrow> all_told e"
  unfolding projects_def all_told_def by (elim conjE exE) (simp, blast intro: same_story_told)

lemma deployCloseFailureReason_quiet: "\<not> DeployFailureStatus s \<Longrightarrow> deployCloseFailureReason a r s m = ([], [])"
  by (cases s) (simp_all add: deployCloseFailureReason_def)

lemma close_args_fits: "fits (close_args e d r a b s)"
proof -
  have "ta_failure (close_args e d r a b s) = [] \<or> DeployFailureStatus s"
    using deployCloseFailureReason_quiet [of s] by (auto simp: close_args_def Let_def)
  moreover have "ta_cancel (close_args e d r a b s) = [] \<or> s = DeployCanceled"
    by (auto simp: close_args_def Let_def)
  moreover have "s = DeployUpdateFailed \<or> ta_end (close_args e d r a b s) = no_end"
    by (auto simp: close_args_def Let_def deployCloseEnd_def split: option.splits)
  ultimately show ?thesis by (simp add: fits_def)
qed

lemma recordDeploy_told:
  assumes ok: "db_ok d" and all: "all_told d" and res: "recordDeploy e r cur d = (d', a, n)"
  shows "all_told d'"
  using res
proof (cases rule: recordDeploy_cases)
  case unstamped
  with all show ?thesis by simp
next
  case (projected new)
  with projects_told [OF project_evidence_projects [OF ok] all] show ?thesis by simp
next
  case (moved s t b)
  note p = project_evidence_projects [OF ok, of e r a "Some s"]
  have "fits t" using moved(2) close_args_fits by simp
  then show ?thesis by (rule TransitionDeploy_told [OF projects_ok [OF p] projects_told [OF p all] moved(3)])
qed

lemma timedOut_failure: "DeployFailureStatus (timedOutDeployStatus r)"
  by (simp add: timedOutDeployStatus_def)

lemma settleAbandonedDeploy_moves:
  assumes ok: "db_ok d" and all: "all_told d"
  shows "moves d (fst (settleAbandonedDeploy e r d))" and "all_told (fst (settleAbandonedDeploy e r d))"
  unfolding settleAbandonedDeploy_def Let_def using ok all
  by (auto simp: moves_refl fits_def timedOut_failure intro: TransitionDeploy_told
      dest: TransitionDeploy_moves split: sum.split)

lemma insertDeploy_told:
  assumes ok: "db_ok d" and all: "all_told d" and res: "insertDeploy d rid app org rsv c replaced now = Inr (r, d2)"
  shows "all_told d2"
proof -
  from res obtain st reason d1 where p: "prepareDeployCreate d app (o_generation org) replaced now = Inr (st, reason, d1)"
    and d2: "db_rows d2 = db_rows d1 @ [fresh_row rid app org rsv c st reason now]"
    by (auto simp: insertDeploy_def rbind_Inr_iff Let_def commit_rows_Inr)
  have "told (fresh_row rid app org rsv c st reason now)"
    using p by (auto simp: prepareDeployCreate_def rbind_Inr_iff told_def fresh_row_def split: if_splits option.splits)
  moreover have "all_told d1"
    using p all cancelPendingDeploys_moves(1) [OF ok, of app replaced now] pending_canceled_told
    by (auto simp: prepareDeployCreate_def all_told_def freed_def isPending_def split: if_splits option.splits)
  ultimately show ?thesis using d2 by (simp add: all_told_def)
qed

section \<open>The Cancel verb\<close>

text \<open>
  \<open>backend/internal/deploys/service.go\<close>, \<open>Cancel\<close> after its authorization. At most one row executes ahead
  of the waiting one, so the order \<open>ListDeploys\<close> returns does not matter to \<open>cancelSurvivor\<close>.
\<close>

definition sourceOnlyTriggers :: "string list" where
  "sourceOnlyTriggers = [''api'', ''deploy_hook'', ''new_commit'', ''deployed_by_render'']"

definition sourceOnly :: "deploy_row \<Rightarrow> bool" where
  "sourceOnly r \<longleftrightarrow> o_trigger (r_origin r) \<in> set sourceOnlyTriggers"

definition selectsImage :: "live_app \<Rightarrow> deploy_row \<Rightarrow> bool" where
  "selectsImage a r \<longleftrightarrow> r_image r \<noteq> [] \<and> r_image r \<noteq> la_specImage a"

definition cancelSurvivor :: "live_app \<Rightarrow> deploy_db \<Rightarrow> deploy_row \<Rightarrow> deploy_row option" where
  "cancelSurvivor a d r =
     (if (la_repo a = [] \<and> la_specImage a = []) \<or> \<not> r_overlap r \<or> selectsImage a r \<or> \<not> sourceOnly r then None
      else (case find (\<lambda>q. r_app q = r_app r \<and> IsOpenDeployStatus (r_status q) \<and> \<not> r_overlap q \<and>
                           0 < r_generation q \<and> r_generation q < r_generation r) (db_rows d) of
              None \<Rightarrow> None
            | Some q \<Rightarrow> if selectsImage a q then None else Some q))"

datatype verb_error = VerbNotFound | VerbConflict | VerbCancel cancel_error | VerbStore pg_error

definition Cancel :: "cancel_api \<Rightarrow> live_app \<Rightarrow> deploy_db \<Rightarrow> string \<Rightarrow> string \<Rightarrow> int \<Rightarrow> verb_error + (deploy_db \<times> live_app)" where
  "Cancel api a d app rid now =
     (case row_by_id (filter (\<lambda>r. r_app r = app) (db_rows d)) rid of
        None \<Rightarrow> Inl VerbNotFound
      | Some r \<Rightarrow>
          if r_finished r \<noteq> None then Inl VerbConflict
          else (case markReleaseCanceled api a (r_generation r) (cancelSurvivor a d r) of
                  (Some e, b) \<Rightarrow> Inl (VerbCancel e)
                | (None, b) \<Rightarrow>
                    (case CloseDeploy d rid DeployCanceled [] now of
                       Inl e \<Rightarrow> Inl (VerbStore e)
                     | Inr (won, d1) \<Rightarrow>
                         if \<not> won then Inl VerbConflict
                         else Inr (if la_repo b \<noteq> [] then insertFacts (CanceledBuildLifecycleFacts now r) d1 else d1, b))))"

section \<open>The control plane as a whole\<close>

text \<open>
  Everything the control plane does to the deploys, with snapshots as old as they happen to be: a pass and
  a verb act on a row and an App they read some time ago.
\<close>

datatype cp_op =
    CpOpen int deploy_op
  | CpPass pass_env deploy_row live_app
  | CpAbandon pass_env deploy_row
  | CpSettle pass_env string live_app
  | CpCancel cancel_api live_app string string int
  | CpDelete string bool
  | CpForget string string

fun opens :: "deploy_op \<Rightarrow> bool" where
  "opens (OpCreate _ _ _ _ _ _ _ _) = True"
| "opens (OpRestart _ _ _ _ _ _) = True"
| "opens (OpRollback _ _ _ _ _ _ _) = True"
| "opens (OpChecked _ _ _ _) = True"
| "opens (OpCreateApp _ _ _ _ _) = True"
| "opens _ = False"

fun cp_step :: "(string \<Rightarrow> string \<Rightarrow> bool) \<Rightarrow> cp_op \<Rightarrow> deploy_db \<Rightarrow> deploy_db" where
  "cp_step idl (CpOpen now op) d = (if opens op then deploy_step idl (now, op) d else d)"
| "cp_step idl (CpPass e r cur) d = fst (recordDeploy e r cur d)"
| "cp_step idl (CpAbandon e r) d = fst (settleAbandonedDeploy e r d)"
| "cp_step idl (CpSettle e app cur) d = recordCanceledPreDeploy e app cur d"
| "cp_step idl (CpCancel api cur app rid now) d = settle d fst (Cancel api cur d app rid now)"
| "cp_step idl (CpDelete app linked) d = deploy_step idl (0, OpDeleteApp app linked) d"
| "cp_step idl (CpForget subject marker) d = deploy_step idl (0, OpForget subject marker) d"

definition sound :: "deploy_db \<Rightarrow> bool" where
  "sound d \<longleftrightarrow> db_ok d \<and> all_told d"

lemma CreateApp_told: "CreateApp d rid app img ci by now = Inr (r, d2) \<Longrightarrow> all_told d \<Longrightarrow> all_told d2"
  by (auto simp: CreateApp_def Let_def commit_rows_Inr all_told_def told_def fresh_row_def split: if_splits sum.splits)

lemma opens_told:
  assumes ok: "db_ok d" and all: "all_told d" and op: "opens op"
  shows "all_told (deploy_step idl (now, op) d)"
proof -
  note told = insertDeploy_told [OF ok all]
  show ?thesis
    using op all
    by (cases op) (auto simp: settle_def CreateDeploy_def CreateRestartDeploy_def createDeploy_def CreateRollbackDeploy_def
        EnsureCheckedDeploy_def dest: told CreateApp_told split: sum.splits option.splits if_splits)
qed

lemma retires_told:
  "all_told d \<Longrightarrow> all_told (deploy_step idl (now, OpDeleteApp app linked) d)"
  "all_told d \<Longrightarrow> all_told (deploy_step idl (now, OpForget subject marker) d)"
  by (auto simp: settle_def DeleteApp_def CleanupAccountSubject_def all_told_def set_update_where attributed_def told_def)

lemma CloseDeploy_canceled_told:
  "db_ok d \<Longrightarrow> all_told d \<Longrightarrow> CloseDeploy d rid DeployCanceled img now = Inr (b, d') \<Longrightarrow> all_told d'"
  by (auto simp: CloseDeploy_def fits_def elim: TransitionDeploy_told)

lemma pre_deploy_told: "told (r\<lparr>r_preDeploy := p, r_updated := u\<rparr>) \<longleftrightarrow> told r"
  by (simp add: told_def)

lemma SettleCanceled_told:
  assumes "all_told d" and "SettleCanceledPreDeploy d app g p fin now = Inr (b, d')"
  shows "all_told d'"
proof -
  let ?hit = "\<lambda>r. r_app r = app \<and> r_generation r = g \<and> r_status r = DeployCanceled \<and> r_preDeploy r = PreDeployCanceled"
  have "db_rows d' = update_where ?hit (\<lambda>r. r\<lparr>r_preDeploy := p, r_updated := touched now (r_updated r)\<rparr>) (db_rows d)"
    using assms(2) by (auto simp: SettleCanceledPreDeploy_def Let_def commit_rows_Inr split: option.splits sum.splits)
  with assms(1) show ?thesis by (auto simp: all_told_def set_update_where pre_deploy_told)
qed

lemma insertFacts_sound: "sound d \<Longrightarrow> sound (insertFacts fs d)"
  by (auto simp: sound_def insertFacts_def db_ok_def all_told_def insertFacts_distinct [where g = "\<lambda>x. x"])

lemma insertFacts_moves:
  assumes "moves d e"
  shows "moves d (insertFacts fs e)"
proof -
  have "distinct (map f_key (db_facts e))" using assms by (simp add: moves_def db_ok_def)
  then show ?thesis
    unfolding insertFacts_def using insertFacts_distinct [where g = "\<lambda>x. x"] by (intro moves_facts [OF assms]) simp
qed

lemma Cancel_sound:
  assumes "sound d" and "Cancel api a d app rid now = Inr (d', b)"
  shows "moves d d' \<and> sound d'"
proof -
  from assms(2) obtain r d1 where c: "CloseDeploy d rid DeployCanceled [] now = Inr (True, d1)"
    and d': "d' = (if la_repo b \<noteq> [] then insertFacts (CanceledBuildLifecycleFacts now r) d1 else d1)"
    by (auto simp: Cancel_def split: option.splits prod.splits sum.splits if_splits)
  have "moves d d1" "sound d1"
    using assms(1) c CloseDeploy_moves CloseDeploy_canceled_told by (auto simp: sound_def moves_def)
  with d' show ?thesis by (simp add: insertFacts_moves insertFacts_sound)
qed

lemma sound_refl: "sound d \<Longrightarrow> moves d d \<and> sound d"
  by (simp add: sound_def moves_refl)

lemma settle_sound:
  "sound d \<Longrightarrow> (\<And>x. res = Inr x \<Longrightarrow> moves d (f x) \<and> sound (f x)) \<Longrightarrow> moves d (settle d f res) \<and> sound (settle d f res)"
  by (cases res) (simp_all add: settle_def sound_refl)

lemma SettleCanceled_sound:
  "sound d \<Longrightarrow> SettleCanceledPreDeploy d app g p fin now = Inr (b, d') \<Longrightarrow> moves d d' \<and> sound d'"
  using SettleCanceledPreDeploy_moves SettleCanceled_told by (fastforce simp: sound_def moves_def)

lemma recordCanceledPreDeploy_sound:
  assumes "sound d"
  shows "moves d (recordCanceledPreDeploy e app a d) \<and> sound (recordCanceledPreDeploy e app a d)"
proof (cases "canceledReleaseGeneration a")
  case None
  then show ?thesis using sound_refl [OF assms] by (simp add: recordCanceledPreDeploy_def)
next
  case (Some g)
  show ?thesis
    unfolding recordCanceledPreDeploy_def Let_def Some option.case
    using sound_refl [OF assms] SettleCanceled_sound [OF assms] by (auto intro!: settle_sound assms)
qed

lemma cp_deploy_step:
  assumes "sound d" and "opens o1"
  shows "sound (deploy_step idl (now, o1) d)"
    and "r \<in> set (db_rows d) \<Longrightarrow> \<exists>q\<in>set (db_rows (deploy_step idl (now, o1) d)). evolves r q"
proof -
  have d: "db_ok d" "all_told d" using assms(1) by (simp_all add: sound_def)
  have quiet: "edited (now, o1) r = r" "spared (now, o1) r" for r
    using assms(2) by (cases o1; simp add: edited_def spared_def)+
  show "sound (deploy_step idl (now, o1) d)"
    using deploy_step_ok(1) [OF d(1)] opens_told [OF d assms(2)] by (simp add: sound_def)
  show "r \<in> set (db_rows d) \<Longrightarrow> \<exists>q\<in>set (db_rows (deploy_step idl (now, o1) d)). evolves r q"
    using deploy_step_ok(2) [OF d(1), of r "(now, o1)" idl] quiet [of r] by simp
qed

fun cp_spares :: "cp_op \<Rightarrow> deploy_row \<Rightarrow> bool" where
  "cp_spares (CpDelete app linked) r \<longleftrightarrow> \<not> deletes_app (r_app r) (OpDeleteApp app linked)"
| "cp_spares _ r \<longleftrightarrow> True"

fun cp_edits :: "cp_op \<Rightarrow> deploy_row \<Rightarrow> deploy_row" where
  "cp_edits (CpForget subject marker) r = edited (0, OpForget subject marker) r"
| "cp_edits _ r = r"

lemma cp_step_sound:
  assumes "sound d"
  shows "sound (cp_step idl op d) \<and>
    (\<forall>r\<in>set (db_rows d). cp_spares op r \<longrightarrow> (\<exists>q\<in>set (db_rows (cp_step idl op d)). evolves (cp_edits op r) q))"
proof -
  have d: "db_ok d" "all_told d" using assms by (simp_all add: sound_def)
  have by_moves: "sound d' \<and> (\<forall>r\<in>set (db_rows d). True \<longrightarrow> (\<exists>q\<in>set (db_rows d'). evolves r q))"
    if "moves d d' \<and> sound d'" for d'
    using that by (simp add: moves_def)
  show ?thesis
  proof (cases op)
    case (CpOpen now o1)
    show ?thesis
    proof (cases "opens o1")
      case True
      with cp_deploy_step [OF assms True, where idl = idl and now = now] CpOpen show ?thesis by simp
    next
      case False
      with assms CpOpen show ?thesis by (auto intro!: evolves_refl)
    qed
  next
    case (CpPass e r cur)
    obtain d' a n where res: "recordDeploy e r cur d = (d', a, n)" by (metis prod_cases3)
    have m: "moves d d'" by (rule recordDeploy_moves [OF d(1) res])
    with recordDeploy_told [OF d res] by_moves [of d'] CpPass res show ?thesis
      by (simp add: sound_def moves_def)
  next
    case (CpAbandon e r)
    from settleAbandonedDeploy_moves [OF d, of e r] by_moves [of "fst (settleAbandonedDeploy e r d)"] CpAbandon
    show ?thesis by (simp add: sound_def moves_def)
  next
    case (CpSettle e app cur)
    with by_moves [OF recordCanceledPreDeploy_sound [OF assms]] show ?thesis by simp
  next
    case (CpCancel api cur app rid now)
    have "moves d (fst x) \<and> sound (fst x)" if "Cancel api cur d app rid now = Inr x" for x
      using Cancel_sound [OF assms, of api cur app rid now "fst x" "snd x"] that by simp
    from by_moves [OF settle_sound [OF assms this]] CpCancel show ?thesis by simp
  next
    case (CpDelete app linked)
    have "edited (0, OpDeleteApp app linked) r = r" for r by (simp add: edited_def)
    with deploy_step_ok [OF d(1), where op = "(0, OpDeleteApp app linked)" and idl = idl] retires_told(1) [OF d(2)] CpDelete
    show ?thesis by (simp add: sound_def spared_def)
  next
    case (CpForget subject marker)
    with deploy_step_ok [OF d(1), where op = "(0, OpForget subject marker)" and idl = idl] retires_told(2) [OF d(2)]
    show ?thesis by (simp add: sound_def spared_def)
  qed
qed

interpretation control: history "cp_step idl" sound "\<lambda>d. set (db_rows d)" evolves cp_spares cp_edits
proof
  fix s :: deploy_db and r q p :: deploy_row and a b :: cp_op
  show "sound s \<Longrightarrow> sound (cp_step idl a s)" using cp_step_sound by blast
  show "sound s \<Longrightarrow> r \<in> set (db_rows s) \<Longrightarrow> cp_spares a r \<Longrightarrow> \<exists>q\<in>set (db_rows (cp_step idl a s)). evolves (cp_edits a r) q"
    using cp_step_sound by blast
  show "evolves r r" by simp
  show "evolves r q \<Longrightarrow> evolves q p \<Longrightarrow> evolves r p" by (rule evolves_trans)
  show "evolves r q \<Longrightarrow> evolves (cp_edits a r) (cp_edits a q)" by (cases a) (simp_all add: evolves_edited)
  show "evolves r q \<Longrightarrow> cp_spares a r \<Longrightarrow> cp_spares a q" by (cases a) (simp_all add: evolves_def)
  show "cp_spares a r \<Longrightarrow> cp_spares a (cp_edits b r)" by (cases a; cases b) (simp_all add: edited_def)
qed

section \<open>Properties\<close>

lemma TransitionDeploy_others:
  assumes res: "TransitionDeploy d rid t now = Inr (b, d')" and p: "p \<in> set (db_rows d)" "r_id p \<noteq> rid"
    and st: "ta_status t \<noteq> DeployLive"
  shows "p \<in> set (db_rows d')"
  using res
proof (cases rule: TransitionDeploy_cases)
  case stays
  with p show ?thesis by simp
next
  case (frees r0)
  then have "db_rows d' = map (\<lambda>q. if r_id q = rid \<and> r_overlap q then q\<lparr>r_overlap := False\<rparr> else q) (db_rows d)"
    by (simp add: commit_rows_Inr update_where_def)
  with p show ?thesis by (auto simp: image_iff)
next
  case (goes r0 d1 d2)
  then have "db_rows d' = map (\<lambda>q. if r_id q = rid then transitioned t now q else q) (db_rows d)"
    using st by (auto simp: commit_rows_Inr update_where_def split: if_splits option.splits)
  with p show ?thesis by (auto simp: image_iff)
qed

lemma TransitionDeploy_hit:
  assumes ok: "db_ok d" and res: "TransitionDeploy d rid t now = Inr (True, d')" and st: "\<not> IsOpenDeployStatus (ta_status t)" "ta_status t \<noteq> DeployLive"
  shows "\<exists>q\<in>set (db_rows d'). r_id q = rid \<and> r_status q = ta_status t \<and> row_ok q"
  using res
proof (cases rule: TransitionDeploy_cases)
  case stays
  then show ?thesis by simp
next
  case (frees r0)
  then have "ta_status t = DeployQueued" by simp
  with st show ?thesis by simp
next
  case (goes r0 d1 d2)
  have r0: "r0 \<in> set (db_rows d)" "r_id r0 = rid" using row_by_id_Some [OF goes(1)] by simp_all
  have "db_rows d' = map (\<lambda>q. if r_id q = rid then transitioned t now q else q) (db_rows d)"
    using goes st by (auto simp: commit_rows_Inr update_where_def split: if_splits option.splits)
  then have "transitioned t now r0 \<in> set (db_rows d')" using r0 by (auto simp: image_iff)
  moreover have "row_ok r0" using ok r0 by (simp add: db_ok_def)
  ultimately show ?thesis using r0 transitioned_evolves(2) [OF goes(2)] by (intro bexI [of _ "transitioned t now r0"]) simp_all
qed

text \<open>C20: The rows tell one story. Whatever deploys are opened or canceled, passes and late settlements run, deploys given
  up on, and Apps or accounts come and go, in whatever order and on snapshots however old: only a failed row carries a failure reason, only a canceled one a cancel reason,
  only a failed rollout an exit, and the table stays as the store promises, one live row per service included.
\<close>

theorem deploy_story_told:
  "let d = fold (cp_step idl) ops (empty_db apps) in
     list_all told (db_rows d) \<and> one_per_app isLive (db_rows d) \<and> one_per_app isActive (db_rows d) \<and>
     one_per_app isPending (db_rows d) \<and> list_all row_ok (db_rows d)"
proof -
  have "sound (empty_db apps)" using empty_db_ok by (simp add: sound_def all_told_def empty_db_def)
  from control.run_ok [OF this, of idl ops] show ?thesis
    by (simp add: sound_def all_told_def db_ok_def Let_def list_all_iff)
qed

text \<open>C8: A pass makes a row live only on evidence that its own release serves: the operator names that
  release as the one serving, or, before releases were numbered, the running App reports the current spec;
  and never a release whose cancel is stamped. No other row goes live in the pass.
\<close>

theorem live_needs_evidence:
  assumes ok: "db_ok d" and res: "recordDeploy e r cur d = (d', a, n)"
    and q: "q \<in> set (db_rows d')" "r_status q = DeployLive"
    and before: "\<forall>p\<in>set (db_rows d). r_id p = r_id q \<longrightarrow> r_status p \<noteq> DeployLive"
  shows "r_id q = r_id r \<and> serving_evidence r cur \<and> \<not> releaseCanceledFor r cur"
proof -
  have fresh: False if "projects d f" "p \<in> set (db_rows f)" "r_id p = r_id q" "r_status p = DeployLive" for f p
    using that before by (auto simp: projects_def same_story_def)
  show ?thesis
    using res
  proof (cases rule: recordDeploy_cases)
    case unstamped
    with q before show ?thesis by blast
  next
    case (projected new)
    with fresh [OF project_evidence_projects [OF ok]] q show ?thesis by blast
  next
    case (moved s t b)
    note p = project_evidence_projects [OF ok, of e r a "Some s"]
    from TransitionDeploy_frame [OF projects_ok [OF p] moved(3) q(1)] obtain x where
      x: "x \<in> set (db_rows (project_evidence e r a (Some s) d))" and
      from_x: "q = x \<or> (r_id x = r_id r \<and> q = x\<lparr>r_overlap := False\<rparr>) \<or>
        (r_id x = r_id r \<and> CanTransitionDeploy (r_status x) (ta_status t) \<and> q = transitioned t (pe_now e) x) \<or>
        (r_id x \<noteq> r_id r \<and> r_status x = DeployLive \<and> ta_status t = DeployLive \<and> q = deactivated (pe_now e) x)" by blast
    have "r_status x \<noteq> DeployLive \<or> r_id x \<noteq> r_id q" using fresh [OF p x] by blast
    with from_x q(2) have hit: "r_id q = r_id r \<and> ta_status t = DeployLive" by (auto simp: deactivated_def)
    then have "s = DeployLive" using moved(2) by simp
    with moved(1) observed_live hit show ?thesis by blast
  qed
qed

lemma settleAbandonedDeploy_others:
  assumes p: "p \<in> set (db_rows d)" "r_id p \<noteq> r_id r"
  shows "p \<in> set (db_rows (fst (settleAbandonedDeploy e r d)))"
proof -
  have "p \<in> set (db_rows d')" if "TransitionDeploy d (r_id r) t now = Inr (b, d')" "ta_status t = timedOutDeployStatus r" for t now b d'
    by (rule TransitionDeploy_others [OF that(1) p]) (use that(2) in \<open>simp add: timedOutDeployStatus_def\<close>)
  with p show ?thesis
    unfolding settleAbandonedDeploy_def Let_def by (auto split: sum.split)
qed

lemma settleAbandonedDeploy_closes:
  assumes ok: "db_ok d" and r: "r \<in> set (db_rows d)" "IsOpenDeployStatus (r_status r)"
    and late: "deployTimedOut (pe_gates e) (pe_repo e) (pe_now e) r"
  shows "\<exists>q\<in>set (db_rows (fst (settleAbandonedDeploy e r d))).
           r_id q = r_id r \<and> DeployFailureStatus (r_status q) \<and> r_failure q \<noteq> [] \<and> r_finished q \<noteq> None"
proof -
  define reason where "reason = (if pe_creationPending e
    then ''the initial service configuration was not committed within the deployment window''
    else abandonedDeployReason (timedOutDeployStatus r))"
  define t where "t = \<lparr>ta_status = timedOutDeployStatus r, ta_ran = no_image, ta_failure = reason, ta_code = [],
    ta_cancel = [], ta_started = None, ta_end = no_end\<rparr>"
  have st: "ta_status t = timedOutDeployStatus r" "ta_failure t \<noteq> []"
    by (simp_all add: t_def reason_def abandonedDeployReason_def)
  have legal: "CanTransitionDeploy (r_status r) (ta_status t)" using timedOut_legal [OF r(2)] st by simp
  have closed: "\<not> IsOpenDeployStatus (ta_status t)" using timedOut_closing st by (simp add: closing_def)
  obtain d' q where "TransitionDeploy d (r_id r) t (pe_now e) = Inr (True, d')" "q \<in> set (db_rows d')"
    "q = transitioned t (pe_now e) r"
    using closing_accepted [OF ok r(1) legal closed] by metis
  then show ?thesis
    using late closed st timedOut_failure [of r]
    by (intro bexI [of _ q]) (simp_all add: settleAbandonedDeploy_def Let_def t_def reason_def or_text_def)
qed

lemma settleAbandonedDeploys_keeps:
  "p \<in> set (db_rows d) \<Longrightarrow> r_id p \<notin> r_id ` set rs \<Longrightarrow> p \<in> set (db_rows (settleAbandonedDeploys e rs d))"
  by (induction rs arbitrary: d) (auto intro: settleAbandonedDeploy_others)

text \<open>No deploy is stranded by an App that cannot be read. A pass that could not observe the App closes
  every open row of the service whose phase ran out of its budget: as failed, with a reason and a finish time.
\<close>

theorem abandoned_deploys_close:
  assumes "sound d" and "set rs \<subseteq> set (db_rows d)" and "distinct (map r_id rs)"
    and "r \<in> set rs" and "IsOpenDeployStatus (r_status r)" and "deployTimedOut (pe_gates e) (pe_repo e) (pe_now e) r"
  shows "\<exists>q\<in>set (db_rows (settleAbandonedDeploys e rs d)).
           r_id q = r_id r \<and> DeployFailureStatus (r_status q) \<and> r_failure q \<noteq> [] \<and> r_finished q \<noteq> None"
  using assms
proof (induction rs arbitrary: d)
  case Nil
  then show ?case by simp
next
  case (Cons x rs)
  let ?d = "fst (settleAbandonedDeploy e x d)"
  have s: "sound ?d" using Cons.prems(1) settleAbandonedDeploy_moves by (simp add: sound_def moves_def)
  show ?case
  proof (cases "r = x")
    case True
    with Cons.prems settleAbandonedDeploy_closes [of d r e] obtain q where
      q: "q \<in> set (db_rows ?d)" "r_id q = r_id r" "DeployFailureStatus (r_status q)" "r_failure q \<noteq> []" "r_finished q \<noteq> None"
      by (auto simp: sound_def)
    moreover have "r_id q \<notin> r_id ` set rs" using Cons.prems(3) True q(2) by auto
    ultimately show ?thesis using settleAbandonedDeploys_keeps [of q ?d rs e] by auto
  next
    case False
    have "set rs \<subseteq> set (db_rows ?d)"
    proof
      fix p assume p: "p \<in> set rs"
      then have "r_id p \<in> r_id ` set rs" by simp
      with Cons.prems(3) have "r_id p \<noteq> r_id x" by auto
      with p Cons.prems(2) show "p \<in> set (db_rows ?d)" by (intro settleAbandonedDeploy_others) auto
    qed
    with Cons.IH [OF s this] Cons.prems False show ?thesis by simp
  qed
qed

lemma project_keeps:
  assumes "projects d f" "p \<in> set (db_rows d)"
  obtains x where "x \<in> set (db_rows f)" "same_story p x"
proof -
  from assms(1) obtain g where "db_rows f = map g (db_rows d)" "\<forall>p. same_story p (g p)" by (auto simp: projects_def)
  with that [of "g p"] assms(2) show thesis by simp
qed

text \<open>The deadline closes a row. Once the phase of an open row has used up its budget, one pass over the
  App of a service that is not suspended closes it, whatever the App reports, unless the row waits in the
  slot of the latest request, or the App fails in a phase the row has already left.
\<close>

theorem deadline_closes_row:
  assumes ok: "db_ok d" and r: "r \<in> set (db_rows d)" "IsOpenDeployStatus (r_status r)"
    and late: "deployTimedOut (pe_gates e) (pe_repo e) (pe_now e) r"
    and turn: "\<not> waits_its_turn r cur" and awake: "\<not> la_suspended cur"
    and onward: "observedDeployStatus r cur True \<notin> Some ` {s. regressed r s}"
    and res: "recordDeploy e r cur d = (d', a, n)"
  shows "\<exists>q\<in>set (db_rows d'). r_id q = r_id r \<and> \<not> IsOpenDeployStatus (r_status q) \<and> r_finished q \<noteq> None"
proof -
  obtain s where s: "observedDeployStatus r cur True = Some s" "closing s" using observed_deadline [OF turn] by blast
  have nosus: "\<not> suspendEndsRollout r cur" using awake by (simp add: suspendEndsRollout_def)
  let ?d1 = "project_evidence e r cur (Some s) d"
  let ?t = "close_args e ?d1 r cur False s"
  note p = project_evidence_projects [OF ok, of e r cur "Some s"]
  obtain x where x: "x \<in> set (db_rows ?d1)" "same_story r x" using project_keeps [OF p r(1)] by blast
  have same: "r_status x = r_status r" "r_id x = r_id r" using x(2) by (simp_all add: same_story_def)
  have "\<not> regressed r s" using onward s(1) by auto
  then have legal: "CanTransitionDeploy (r_status x) (ta_status ?t)"
    using terminal_legal [of r s] r(2) s(2) same by (simp add: closing_def)
  have closed: "\<not> IsOpenDeployStatus (ta_status ?t)" using s(2) by (simp add: closing_def)
  obtain d2 q where t: "TransitionDeploy ?d1 (r_id x) ?t (pe_now e) = Inr (True, d2)"
    and q: "q \<in> set (db_rows d2)" "q = transitioned ?t (pe_now e) x"
    using closing_accepted [OF projects_ok [OF p] x(1) legal closed] by metis
  have "d' = d2" using res late s(1) nosus t same(2) by (simp add: recordDeploy_def Let_def)
  with q closed same show ?thesis by (intro bexI [of _ q]) simp_all
qed

text \<open>A cancel ends one deploy. When the verb returns, its row is canceled and closed and no other row of
  any service has moved, and the App carries a stamp of that release or of a newer one.
\<close>

theorem canceled_deploy_ends_alone:
  assumes ok: "db_ok d" and r: "row_by_id (filter (\<lambda>r. r_app r = app) (db_rows d)) rid = Some r"
    and g: "0 < r_generation r" "r_generation r < 2 ^ 63"
    and res: "Cancel api cur d app rid now = Inr (d', b)"
  shows "(\<exists>q\<in>set (db_rows d'). r_id q = rid \<and> r_status q = DeployCanceled \<and> r_finished q \<noteq> None \<and>
             r_preDeploy q \<noteq> PreDeployRunning) \<and>
         set (filter (\<lambda>p. r_id p \<noteq> rid) (db_rows d)) \<subseteq> set (db_rows d') \<and>
         r_generation r \<le> parsed_number (la_annotations b canceledKey)"
proof -
  from res r obtain d1 where m: "markReleaseCanceled api cur (r_generation r) (cancelSurvivor cur d r) = (None, b)"
    and c: "CloseDeploy d rid DeployCanceled [] now = Inr (True, d1)" and d': "db_rows d' = db_rows d1"
    by (auto simp: Cancel_def insertFacts_def split: prod.splits option.splits sum.splits if_splits)
  have stamp: "r_generation r \<le> parsed_number (la_annotations b canceledKey)"
    using mark_attempts_holds [OF m [unfolded markReleaseCanceled_def] g] .
  from c obtain t where t: "TransitionDeploy d rid t now = Inr (True, d1)" "ta_status t = DeployCanceled"
    by (auto simp: CloseDeploy_def)
  obtain q where "q \<in> set (db_rows d1)" "r_id q = rid" "r_status q = DeployCanceled" "row_ok q"
    using TransitionDeploy_hit [OF ok t(1)] t(2) by auto
  moreover from this have "r_finished q \<noteq> None" "r_preDeploy q \<noteq> PreDeployRunning" by (auto simp: row_ok_def)
  moreover have "set (filter (\<lambda>p. r_id p \<noteq> rid) (db_rows d)) \<subseteq> set (db_rows d1)"
    using TransitionDeploy_others [OF t(1)] t(2) by auto
  ultimately show ?thesis using stamp d' by auto
qed

text \<open>What a stamp says holds from the first pass on. The row of the stamped release is canceled by any
  pass over the stamped App, timed out or not; and the deploy the cancel leaves running, ahead of it, is
  waited for: until the operator makes it the reported release a pass within the budget leaves its row alone.
\<close>

theorem stamp_decides:
  assumes p: "cancel_patch g survivor a = Some b" "parsed_number (la_annotations a canceledKey) < g"
    and g: "0 < g" "g < 2 ^ 63"
    and r: "r_generation r = g" "IsOpenDeployStatus (r_status r)"
    and s: "survivor = Some q" "0 < r_generation q" "r_generation q < g"
    and newest: "parsed_number (la_annotations a releaseKey) = g" and ahead: "la_releaseGeneration a \<noteq> r_generation q"
  shows "observedDeployStatus r b timedOut = Some DeployCanceled \<and> observedDeployStatus q b False = None"
proof -
  have ann: "la_annotations b = stamped_annotations g survivor a" "la_releaseGeneration b = la_releaseGeneration a"
    using cancel_patch_moves [OF p] by simp_all
  have stamped: "canceledReleaseGeneration b = Some g" by (rule stamped_generation [OF g ann(1)])
  have "generationAnnotation b survivingKey = Some (r_generation q)"
    using s newest g parsed_number_show(1) [of "r_generation q"]
    by (simp add: generationAnnotation_def ann(1) stamped_annotations_def)
  moreover have "parsed_number (la_annotations b releaseKey) = g"
    using newest by (simp add: ann(1) stamped_annotations_def)
  ultimately have "awaitingSurvivor q b" using stamped s ahead ann(2) by (simp add: awaitingSurvivor_def)
  moreover have "\<not> releaseCanceledFor q b" using stamped s(3) by (simp add: releaseCanceledFor_def)
  moreover have "releaseCanceledFor r b" using stamped r by (simp add: releaseCanceledFor_def)
  ultimately show ?thesis by (simp add: observedDeployStatus_def)
qed

section \<open>Witnesses\<close>

definition ex_origin :: "int \<Rightarrow> deploy_origin" where
  "ex_origin g = \<lparr>o_trigger = ''api'', o_image = [], o_rollbackOf = [], o_generation = g, o_commitMessage = [],
     o_commitAuthorAt = None, o_triggeredBy = [], o_clearCache = False, o_buildId = []\<rparr>"

definition ex_row :: "string \<Rightarrow> int \<Rightarrow> deploy_status \<Rightarrow> deploy_row" where
  "ex_row i g st = (fresh_row i ''srv'' (ex_origin g) [] ''c0ffee'' st [] 0)"

definition ex_db :: "deploy_row list \<Rightarrow> deploy_db" where
  "ex_db rs = \<lparr>db_apps = [''srv''], db_rows = rs, db_facts = []\<rparr>"

definition ex_cr :: "app_phase \<Rightarrow> live_app" where
  "ex_cr ph =
     \<lparr>la_annotations = (\<lambda>_. []), la_repo = ''r'', la_specImage = [], la_buildCommit = [], la_suspended = False,
      la_hasDisk = False, la_webImagePorts = False, la_releaseConfig = None, la_generation = 2, la_phase = ph,
      la_observedGeneration = 2, la_releaseGeneration = 0, la_activeRevision = [], la_image = ''img'',
      la_conditions = [], la_preDeploy = None, la_buildRun = None, la_releaseStart = None, la_rolloutFailure = None,
      la_imageDigest = None, la_imageRevision = None, la_servingNetwork = None, la_imageNetwork = None\<rparr>"

definition ex_env :: "int \<Rightarrow> pass_env" where
  "ex_env now =
     \<lparr>pe_now = now, pe_gates = default_gates, pe_repo = ''r'', pe_static = False, pe_creationPending = False,
      pe_cancel = \<lparr>ca_read = (\<lambda>_. Some (ex_cr PhaseRunning)), ca_patch = (\<lambda>_. Patched)\<rparr>, pe_recorded = (\<lambda>_. None),
      pe_idLess = (\<lambda>_ _. False)\<rparr>"

definition ex_open :: deploy_row where "ex_open = ex_row ''dep-1'' 2 DeployUpdateInProgress"

lemma ex_db_ok: "sound (ex_db [ex_open])"
  by (simp add: sound_def db_ok_def all_told_def told_def ex_db_def ex_open_def ex_row_def fresh_row_def
      one_per_app_def pending_newer_def row_ok_def isPending_def)

lemma ex_db_ok': "db_ok (ex_db [ex_open])"
  using ex_db_ok by (simp add: sound_def)

definition ex_pass :: "deploy_db \<times> live_app \<times> (deploy_status \<times> string) option" where
  "ex_pass = recordDeploy (ex_env 5) ex_open (ex_cr PhaseRunning) (ex_db [ex_open])"

lemma ex_pass_live: "map (\<lambda>r. (r_id r, r_status r, r_resolvedImage r)) (db_rows (fst ex_pass)) = [(''dep-1'', DeployLive, ''img'')]"
  by code_simp

lemma ex_pass_split: "recordDeploy (ex_env 5) ex_open (ex_cr PhaseRunning) (ex_db [ex_open]) = (fst ex_pass, fst (snd ex_pass), snd (snd ex_pass))"
  by (simp add: ex_pass_def)

theorem live_needs_evidence_witness:
  "\<exists>q\<in>set (db_rows (fst ex_pass)). r_id q = r_id ex_open \<and> r_status q = DeployLive \<and> serving_evidence ex_open (ex_cr PhaseRunning)"
proof -
  obtain q where q: "db_rows (fst ex_pass) = [q]" "r_id q = ''dep-1''" "r_status q = DeployLive"
    using ex_pass_live by (cases "db_rows (fst ex_pass)") auto
  have before: "\<forall>p\<in>set (db_rows (ex_db [ex_open])). r_id p = r_id q \<longrightarrow> r_status p \<noteq> DeployLive"
    by (simp add: ex_db_def ex_open_def ex_row_def fresh_row_def)
  have "q \<in> set (db_rows (fst ex_pass))" using q(1) by simp
  from live_needs_evidence [OF ex_db_ok' ex_pass_split this q(3) before] q show ?thesis by auto
qed

lemma ex_open_late: "IsOpenDeployStatus (r_status ex_open) \<and> deployTimedOut (pe_gates (ex_env 2000000000)) (pe_repo (ex_env 2000000000)) (pe_now (ex_env 2000000000)) ex_open"
  by (simp add: ex_open_def ex_row_def fresh_row_def deployTimedOut_def ex_env_def default_gates_def minute_def)

theorem abandoned_deploys_close_witness:
  "\<exists>q\<in>set (db_rows (settleAbandonedDeploys (ex_env 2000000000) [ex_open] (ex_db [ex_open]))).
     r_id q = r_id ex_open \<and> DeployFailureStatus (r_status q) \<and> r_failure q \<noteq> [] \<and> r_finished q \<noteq> None"
  by (rule abandoned_deploys_close [OF ex_db_ok]) (use ex_open_late in \<open>simp_all add: ex_db_def\<close>)

definition ex_stuck :: "deploy_db \<times> live_app \<times> (deploy_status \<times> string) option" where
  "ex_stuck = recordDeploy (ex_env 2000000000) ex_open (ex_cr PhasePending) (ex_db [ex_open])"

lemma ex_stuck_status: "observedDeployStatus ex_open (ex_cr PhasePending) True = Some DeployUpdateFailed"
  by code_simp

theorem deadline_closes_row_witness:
  "\<exists>q\<in>set (db_rows (fst ex_stuck)). r_id q = r_id ex_open \<and> \<not> IsOpenDeployStatus (r_status q) \<and> r_finished q \<noteq> None"
proof (rule deadline_closes_row [OF ex_db_ok'])
  show "recordDeploy (ex_env 2000000000) ex_open (ex_cr PhasePending) (ex_db [ex_open]) =
      (fst ex_stuck, fst (snd ex_stuck), snd (snd ex_stuck))" by (simp add: ex_stuck_def)
  show "observedDeployStatus ex_open (ex_cr PhasePending) True \<notin> Some ` {s. regressed ex_open s}"
    by (auto simp: ex_stuck_status regressed_def)
qed (use ex_open_late in \<open>simp_all add: ex_db_def waits_its_turn_def ex_cr_def ex_open_def ex_row_def fresh_row_def\<close>)

definition ex_api :: cancel_api where
  "ex_api = \<lparr>ca_read = (\<lambda>_. Some (ex_cr PhaseDeploying)), ca_patch = (\<lambda>n. if n = 3 then PatchConflict else Patched)\<rparr>"

definition ex_verb :: "verb_error + (deploy_db \<times> live_app)" where
  "ex_verb = Cancel ex_api (ex_cr PhaseDeploying) (ex_db [ex_open]) ''srv'' ''dep-1'' 7"

lemma ex_verb_ok: "is_ok ex_verb"
  by code_simp

theorem canceled_deploy_ends_alone_witness:
  "\<exists>d' b. ex_verb = Inr (d', b) \<and> (\<exists>q\<in>set (db_rows d'). r_id q = ''dep-1'' \<and> r_status q = DeployCanceled) \<and>
     2 \<le> parsed_number (la_annotations b canceledKey)"
proof -
  obtain d' b where v: "ex_verb = Inr (d', b)" using ex_verb_ok by (metis is_ok_simps(1) old.sum.exhaust surj_pair)
  have r: "row_by_id (filter (\<lambda>r. r_app r = ''srv'') (db_rows (ex_db [ex_open]))) ''dep-1'' = Some ex_open"
    by (simp add: ex_db_def ex_open_def ex_row_def fresh_row_def)
  have g: "r_generation ex_open = 2" by (simp add: ex_open_def ex_row_def fresh_row_def ex_origin_def)
  from canceled_deploy_ends_alone [OF ex_db_ok' r _ _ v [unfolded ex_verb_def]] g v show ?thesis by auto
qed

definition ex_survivor :: deploy_row where "ex_survivor = ex_row ''dep-1'' 1 DeployBuildInProgress"
definition ex_pending :: deploy_row where "ex_pending = ex_row ''dep-2'' 2 DeployQueued"
definition ex_requested :: live_app where
  "ex_requested = (ex_cr PhaseBuilding)\<lparr>la_annotations := (\<lambda>_. [])(releaseKey := ''2'')\<rparr>"

lemma ex_requested_numbers:
  "parsed_number (la_annotations ex_requested canceledKey) = 0" "parsed_number (la_annotations ex_requested releaseKey) = 2"
  "la_annotations ex_requested survivingKey = []" "la_releaseGeneration ex_requested = 0"
  by (simp_all add: ex_requested_def ex_cr_def parsed_number_def is_digit_def less_eq_char_def)

lemma ex_rows_shape:
  "r_generation ex_survivor = 1" "r_generation ex_pending = 2" "r_status ex_pending = DeployQueued"
  by (simp_all add: ex_survivor_def ex_pending_def ex_row_def fresh_row_def ex_origin_def)

lemma ex_patch: "\<exists>b. cancel_patch 2 (Some ex_survivor) ex_requested = Some b"
  using ex_requested_numbers by (simp add: cancel_patch_def Let_def)

theorem stamp_decides_witness:
  "\<exists>b. cancel_patch 2 (Some ex_survivor) ex_requested = Some b \<and>
     observedDeployStatus ex_pending b False = Some DeployCanceled \<and> observedDeployStatus ex_survivor b False = None"
proof -
  obtain b where b: "cancel_patch 2 (Some ex_survivor) ex_requested = Some b" using ex_patch by blast
  from stamp_decides [OF b, of ex_pending ex_survivor False] b show ?thesis
    using ex_requested_numbers ex_rows_shape by simp
qed

text \<open>
  A row past its deadline can stay open: its App is back in a phase the row has left (here the pre-deploy
  step of the same release runs again), the pass names the failure of that phase, and the transition table
  has no such move.
\<close>

definition ex_regressed :: live_app where
  "ex_regressed = (ex_cr PhaseDeploying)\<lparr>la_preDeploy :=
     Some \<lparr>pd_generation = 2, pd_status = ''Running'', pd_message = [], pd_started = None, pd_finished = None\<rparr>\<rparr>"

lemma regressed_row_stays_open:
  "map r_status (db_rows (fst (recordDeploy (ex_env 2000000000) ex_open ex_regressed (ex_db [ex_open])))) = [DeployUpdateInProgress]"
  by code_simp

end
