(* ===== verification/Availability.thy ===== *)
theory Availability
  imports DeployRecord
begin

text \<open>
  How the control plane turns what it observes of a service into events
  (\<open>backend/internal/store/reconciler.go\<close>, \<open>event_facts.go\<close>): one pass concludes a phase and an
  availability, two guards hold back a conclusion that may be stale, and the checkpoint of the service is
  advanced in one transaction with the events of the edges it crossed. Also the events of cron runs.

  One service is followed; \<open>unhealthyOnce\<close> is its entry of the map of the reconciler, lost when the
  process restarts. The zero time of Go is \<open>None\<close>.
\<close>

section \<open>Observation\<close>

datatype avail = AvNone | Healthy | Unhealthy

record service_obs =
  ob_at :: int
  ob_phase :: app_phase
  ob_suspended :: bool
  ob_avail :: avail
  ob_observed :: bool
  ob_readinessFailed :: bool
  ob_concrete :: bool
  ob_nodeLost :: bool
  ob_ready :: "int option"
  ob_suppressed :: bool

definition concreteContainerFailure :: "string \<Rightarrow> bool" where
  "concreteContainerFailure reason \<longleftrightarrow>
     reason \<in> {''ImagePullBackOff'', ''CrashLoopBackOff'', ''CreateContainerConfigError''}"

definition preRuntimeFailure :: "string \<Rightarrow> bool" where
  "preRuntimeFailure reason \<longleftrightarrow>
     reason \<in> {''ProtectedSecretReference'', ''PerAppRegistryCredsFailed'', ''RegistryPullSecretFailed''}"

definition servingRevisionDown :: "live_app \<Rightarrow> status_condition option \<Rightarrow> bool" where
  "servingRevisionDown a srv \<longleftrightarrow>
     (case srv of
        None \<Rightarrow> False
      | Some c \<Rightarrow> la_phase a = PhaseBuilding \<and> la_activeRevision a \<noteq> [] \<and> \<not> la_hasDisk a \<and>
                  c_observed c = la_generation a \<and> c_status c = CondFalse \<and> c_reason c = ''ServingRevisionUnavailable'')"

definition servingStoppedAt :: "status_condition option \<Rightarrow> int \<Rightarrow> int option" where
  "servingStoppedAt srv g =
     (case srv of
        None \<Rightarrow> None
      | Some c \<Rightarrow> if c_status c \<noteq> CondFalse \<or> c_observed c \<noteq> g then None else Some (c_transition c))"

definition later :: "int option \<Rightarrow> int option \<Rightarrow> int option" where
  "later a b =
     (case (a, b) of (Some x, Some y) \<Rightarrow> if y < x then Some x else Some y | (Some x, None) \<Rightarrow> Some x | (None, _) \<Rightarrow> b)"

definition concluded :: "service_obs \<Rightarrow> avail \<Rightarrow> int option \<Rightarrow> service_obs" where
  "concluded ob av t = ob\<lparr>ob_avail := av, ob_observed := True, ob_ready := t\<rparr>"

definition observedServiceStateFor :: "live_app \<Rightarrow> bool \<Rightarrow> int \<Rightarrow> service_obs" where
  "observedServiceStateFor a hasOpenDeploy now =
     (let ob = \<lparr>ob_at = now, ob_phase = la_phase a, ob_suspended = la_suspended a, ob_avail = AvNone, ob_observed = False,
                ob_readinessFailed = False, ob_concrete = False, ob_nodeLost = False, ob_ready = None, ob_suppressed = False\<rparr>
      in if la_phase a = PhaseHibernated then ob\<lparr>ob_observed := True\<rparr>
         else (case findCondition (la_conditions a) ''Ready'' of
                 None \<Rightarrow> ob
               | Some c \<Rightarrow>
                   (case c_status c of
                      CondTrue \<Rightarrow> if la_phase a = PhaseRunning then concluded ob Healthy (Some (c_transition c)) else ob
                    | CondUnknown \<Rightarrow> ob
                    | CondFalse \<Rightarrow>
                        let srv = findCondition (la_conditions a) ''Serving'' in
                        if la_phase a = PhaseDeploying \<and> srv \<noteq> None \<and> c_observed (the srv) = la_generation a \<and>
                           c_status (the srv) = CondTrue
                        then concluded ob Healthy (Some (c_transition (the srv)))
                        else if preRuntimeFailure (c_reason c) then ob
                        else if servingRevisionDown a srv
                        then (concluded ob Unhealthy (Some (c_transition (the srv))))\<lparr>ob_readinessFailed := True\<rparr>
                        else if hasOpenDeploy \<and> \<not> concreteContainerFailure (c_reason c) then ob
                        else if la_activeRevision a \<noteq> [] \<and> \<not> parkReason (c_reason c) \<and> c_reason c \<noteq> ''RolloutSettling''
                        then let lost = (c_reason c = ''NodeLost'') in
                          (concluded ob Unhealthy
                             (if hasOpenDeploy then later (servingStoppedAt srv (la_generation a)) (Some (c_transition c))
                              else Some (c_transition c)))
                            \<lparr>ob_concrete := concreteContainerFailure (c_reason c), ob_nodeLost := lost,
                             ob_readinessFailed := \<not> lost\<rparr>
                        else ob)))"

section \<open>Guards\<close>

definition clearAvailability :: "service_obs \<Rightarrow> service_obs" where
  "clearAvailability ob =
     ob\<lparr>ob_observed := False, ob_avail := AvNone, ob_readinessFailed := False, ob_concrete := False,
        ob_nodeLost := False, ob_ready := None\<rparr>"

definition suppressAvailability :: "service_obs \<Rightarrow> service_obs" where
  "suppressAvailability ob = (clearAvailability ob)\<lparr>ob_suppressed := True\<rparr>"

definition debounceUnhealthy :: "service_obs \<Rightarrow> bool \<Rightarrow> service_obs \<times> bool" where
  "debounceUnhealthy ob once =
     (let unhealthy = ob_observed ob \<and> ob_avail ob = Unhealthy in
      if unhealthy \<and> \<not> once then (suppressAvailability ob, True) else (ob, unhealthy))"

text \<open>\<open>healthyAt\<close> is what the lookup of the checkpoint returns: an error, or the time it holds, if any.\<close>

definition rejectStaleUnhealthy :: "int option got \<Rightarrow> service_obs \<Rightarrow> service_obs" where
  "rejectStaleUnhealthy healthyAt ob =
     (if \<not> ob_observed ob \<or> ob_avail ob \<noteq> Unhealthy \<or> ob_ready ob = None then ob
      else (case healthyAt of
              Got (Some h) \<Rightarrow> if the (ob_ready ob) < h then suppressAvailability ob else ob
            | _ \<Rightarrow> ob))"

definition guardServiceObservation :: "int option got \<Rightarrow> service_obs \<Rightarrow> bool \<Rightarrow> service_obs \<times> bool" where
  "guardServiceObservation healthyAt ob once = debounceUnhealthy (rejectStaleUnhealthy healthyAt ob) once"

section \<open>The checkpoint and its events\<close>

record checkpoint =
  ck_phase :: app_phase
  ck_avail :: avail
  ck_suspended :: bool
  ck_updated :: int
  ck_healthy :: "int option"

datatype service_event =
  ServiceSuspended | ServiceHibernated | ServiceWoken | ServiceResumed | ServerFailed | ServerHardwareFailure | ServerAvailable

definition LastHealthyTransitionAt :: "checkpoint option \<Rightarrow> int option" where
  "LastHealthyTransitionAt ck = (case ck of None \<Rightarrow> None | Some k \<Rightarrow> if ck_avail k = Healthy then ck_healthy k else None)"

definition checkpointServicePhase :: "app_phase \<Rightarrow> app_phase \<Rightarrow> app_phase" where
  "checkpointServicePhase previous observed =
     (if previous = PhaseHibernated \<and> observed \<noteq> PhaseHibernated \<and> observed \<noteq> PhaseRunning then previous else observed)"

definition heldAvailability :: "app_phase \<Rightarrow> avail \<Rightarrow> service_obs \<Rightarrow> service_obs" where
  "heldAvailability previousPhase previousAvail ob =
     (let unhealthy = ob_observed ob \<and> ob_avail ob = Unhealthy;
          waking = previousPhase = PhaseHibernated \<and> ob_phase ob \<noteq> PhaseHibernated \<and> unhealthy \<and> \<not> ob_concrete ob;
          sleepingFailed = ob_phase ob = PhaseHibernated \<and> previousAvail = Unhealthy;
          neverHealthy = previousAvail = AvNone \<and> previousPhase \<noteq> PhaseHibernated \<and> unhealthy
      in if waking \<or> sleepingFailed \<or> neverHealthy then clearAvailability ob else ob)"

definition checkpointServiceSuspended :: "app_phase \<Rightarrow> app_phase \<Rightarrow> bool \<Rightarrow> bool \<Rightarrow> bool" where
  "checkpointServiceSuspended previousPhase observedPhase previousSuspended observedSuspended =
     (if checkpointServicePhase previousPhase observedPhase \<noteq> observedPhase then previousSuspended
      else if previousPhase = PhaseHibernated \<and> observedPhase = PhaseHibernated then previousSuspended \<or> observedSuspended
      else observedSuspended)"

definition availabilityEdgeAt :: "int option \<Rightarrow> int \<Rightarrow> int \<Rightarrow> int" where
  "availabilityEdgeAt tr previousChangedAt observed =
     (case tr of None \<Rightarrow> observed
      | Some t \<Rightarrow> if t \<le> previousChangedAt \<or> observed < t then observed else t)"

definition failureFactType :: "service_obs \<Rightarrow> service_event" where
  "failureFactType ob = (if ob_nodeLost ob then ServerHardwareFailure else ServerFailed)"

definition observedStateFacts :: "service_obs \<Rightarrow> app_phase \<Rightarrow> avail \<Rightarrow> bool \<Rightarrow> int \<Rightarrow> (service_event \<times> int) list" where
  "observedStateFacts ob previousPhase previousAvail previousSuspended previousChangedAt =
     (let edge = availabilityEdgeAt (ob_ready ob) previousChangedAt (ob_at ob) in
      (if ob_phase ob = previousPhase then []
       else if ob_phase ob = PhaseHibernated
       then [(if ob_suspended ob then ServiceSuspended else ServiceHibernated, ob_at ob)]
       else if ob_phase ob = PhaseRunning \<and> previousPhase = PhaseHibernated
       then [(if previousSuspended then ServiceResumed else ServiceWoken, edge)]
       else []) @
      (if ob_avail ob = previousAvail then []
       else if previousAvail = Healthy \<and> ob_avail ob = Unhealthy then [(failureFactType ob, edge)]
       else if previousAvail = AvNone \<and> ob_avail ob = Unhealthy \<and> previousPhase = PhaseHibernated
       then [(failureFactType ob, ob_at ob)]
       else if previousAvail = Unhealthy \<and> ob_avail ob = Healthy then [(ServerAvailable, edge)]
       else []))"

text \<open>The write is guarded: a checkpoint that changes in none of phase, availability and suspension is not written.\<close>

definition RecordObservedServiceState :: "service_obs \<Rightarrow> checkpoint option \<Rightarrow> checkpoint \<times> (service_event \<times> int) list" where
  "RecordObservedServiceState ob ck =
     (let healthy = (if ob_observed ob \<and> ob_avail ob = Healthy then ob_ready ob else None) in
      (case ck of
         None \<Rightarrow>
           (\<lparr>ck_phase = ob_phase ob, ck_avail = ob_avail (heldAvailability PhaseNone AvNone ob), ck_suspended = ob_suspended ob,
             ck_updated = ob_at ob, ck_healthy = healthy\<rparr>, [])
       | Some k \<Rightarrow>
           let held = heldAvailability (ck_phase k) (ck_avail k) ob;
               av = (if ob_observed held then ob_avail held else ck_avail k);
               ph = checkpointServicePhase (ck_phase k) (ob_phase ob);
               su = checkpointServiceSuspended (ck_phase k) (ob_phase ob) (ck_suspended k) (ob_suspended ob)
           in (if (ck_phase k, ck_avail k, ck_suspended k) \<noteq> (ph, av, su) then
                 k\<lparr>ck_phase := ph, ck_avail := av, ck_suspended := su,
                   ck_updated := (if ob_suppressed ob then ck_updated k else ob_at ob),
                   ck_healthy := coalesce healthy (ck_healthy k)\<rparr>
               else k,
               observedStateFacts (held\<lparr>ob_avail := av\<rparr>) (ck_phase k) (ck_avail k) (ck_suspended k) (ck_updated k))))"

section \<open>Passes\<close>

text \<open>
  One pass over a service: observe, guard, record. \<open>ok\<close> says whether the transaction commits; if it does
  not, nothing is written and nothing reported. A restart forgets the sighting.
\<close>

record service_state =
  sv_once :: bool
  sv_ck :: "checkpoint option"

datatype service_step =
    Observe live_app bool int bool bool
  | Restart

fun service_pass :: "service_step \<Rightarrow> service_state \<Rightarrow> service_state \<times> (service_event \<times> int) list" where
  "service_pass Restart s = (s\<lparr>sv_once := False\<rparr>, [])"
| "service_pass (Observe a hasOpen now readable ok) s =
     (let healthyAt = (if readable then Got (LastHealthyTransitionAt (sv_ck s)) else GotErr);
          (ob, once) = guardServiceObservation healthyAt (observedServiceStateFor a hasOpen now) (sv_once s);
          (k, evs) = RecordObservedServiceState ob (sv_ck s)
      in if ok then (\<lparr>sv_once = once, sv_ck = Some k\<rparr>, evs) else (s\<lparr>sv_once := once\<rparr>, []))"

fun service_run :: "service_step list \<Rightarrow> service_state \<Rightarrow> service_state \<times> (service_event \<times> int) list" where
  "service_run [] s = (s, [])"
| "service_run (x # xs) s =
     (case service_pass x s of (s1, evs) \<Rightarrow> (case service_run xs s1 of (s2, evs2) \<Rightarrow> (s2, evs @ evs2)))"

definition unseen :: service_state where
  "unseen = \<lparr>sv_once = False, sv_ck = None\<rparr>"

section \<open>Outages\<close>

definition is_failure :: "service_event \<Rightarrow> bool" where
  "is_failure ev \<longleftrightarrow> ev = ServerFailed \<or> ev = ServerHardwareFailure"

text \<open>The outage after some events, if each failure opened one and each recovery closed one.\<close>

fun outage :: "bool \<Rightarrow> service_event list \<Rightarrow> bool option" where
  "outage down [] = Some down"
| "outage down (ev # evs) =
     (if is_failure ev then (if down then None else outage True evs)
      else if ev = ServerAvailable then (if down then outage False evs else None)
      else outage down evs)"

lemma outage_append: "outage down (xs @ ys) = Option.bind (outage down xs) (\<lambda>d. outage d ys)"
  by (induction xs arbitrary: down) auto

text \<open>What an observation of the code satisfies, guarded or not.\<close>

definition obs_ok :: "service_obs \<Rightarrow> bool" where
  "obs_ok ob \<longleftrightarrow>
     (ob_observed ob \<and> ob_avail ob = AvNone \<longrightarrow> ob_phase ob = PhaseHibernated) \<and>
     (\<not> ob_observed ob \<longrightarrow> ob_avail ob = AvNone)"

lemma observed_ok: "obs_ok (observedServiceStateFor a hasOpen now)"
  unfolding observedServiceStateFor_def Let_def
  by (simp add: obs_ok_def concluded_def split: option.split cond_status.split)

lemma observed_at [simp]: "ob_at (observedServiceStateFor a hasOpen now) = now"
  unfolding observedServiceStateFor_def Let_def
  by (simp add: concluded_def split: option.split cond_status.split)

lemma observed_phase [simp]: "ob_phase (observedServiceStateFor a hasOpen now) = la_phase a"
  unfolding observedServiceStateFor_def Let_def
  by (simp add: concluded_def split: option.split cond_status.split)

lemma cleared_fields [simp]:
  "ob_phase (clearAvailability ob) = ob_phase ob" "ob_at (clearAvailability ob) = ob_at ob"
  "ob_suspended (clearAvailability ob) = ob_suspended ob" "\<not> ob_observed (clearAvailability ob)"
  "ob_avail (clearAvailability ob) = AvNone" "ob_nodeLost (clearAvailability ob) = False"
  by (simp_all add: clearAvailability_def)

lemma suppressed_fields [simp]:
  "ob_phase (suppressAvailability ob) = ob_phase ob" "ob_at (suppressAvailability ob) = ob_at ob"
  "ob_suspended (suppressAvailability ob) = ob_suspended ob" "\<not> ob_observed (suppressAvailability ob)"
  "ob_avail (suppressAvailability ob) = AvNone"
  by (simp_all add: suppressAvailability_def)

lemma suppressed_ok: "obs_ok (suppressAvailability ob)"
  by (simp add: obs_ok_def)

lemma rejectStale_cases: "rejectStaleUnhealthy h ob = ob \<or> rejectStaleUnhealthy h ob = suppressAvailability ob"
  by (simp add: rejectStaleUnhealthy_def split: got.split option.split)

lemma guard_cases:
  assumes "guardServiceObservation h ob once = (g, once')"
  shows "g = ob \<or> g = suppressAvailability ob \<or> g = suppressAvailability (suppressAvailability ob)"
  using assms rejectStale_cases [of h ob]
  by (auto simp: guardServiceObservation_def debounceUnhealthy_def Let_def split: if_splits)

lemma guarded_ok: "obs_ok ob \<Longrightarrow> guardServiceObservation h ob once = (g, once') \<Longrightarrow> obs_ok g"
  using guard_cases suppressed_ok by blast

lemma guarded_fields:
  assumes "guardServiceObservation h ob once = (g, once')"
  shows "ob_phase g = ob_phase ob" and "ob_suspended g = ob_suspended ob" and "ob_at g = ob_at ob"
  using guard_cases [OF assms] by auto

definition down :: "checkpoint option \<Rightarrow> bool" where
  "down ck = (case ck of None \<Rightarrow> False | Some k \<Rightarrow> ck_avail k = Unhealthy)"

lemma held_fields [simp]:
  "ob_phase (heldAvailability ph av ob) = ob_phase ob" "ob_suspended (heldAvailability ph av ob) = ob_suspended ob"
  "ob_at (heldAvailability ph av ob) = ob_at ob"
  by (simp_all add: heldAvailability_def Let_def)

lemma held_ok: "obs_ok ob \<Longrightarrow> obs_ok (heldAvailability ph av ob)"
  by (simp add: heldAvailability_def Let_def obs_ok_def)

text \<open>The availability a recorded pass leaves, and how it may differ from the one before.\<close>

definition next_avail :: "checkpoint \<Rightarrow> service_obs \<Rightarrow> avail" where
  "next_avail k ob =
     (let held = heldAvailability (ck_phase k) (ck_avail k) ob in if ob_observed held then ob_avail held else ck_avail k)"

lemma next_avail_steps:
  assumes "obs_ok ob"
  shows "ck_avail k = Unhealthy \<Longrightarrow> next_avail k ob \<noteq> AvNone"
    and "ck_avail k = AvNone \<Longrightarrow> next_avail k ob = Unhealthy \<Longrightarrow> ck_phase k = PhaseHibernated"
  using assms by (auto simp: next_avail_def heldAvailability_def obs_ok_def Let_def split: if_splits)

lemma record_unfold:
  "RecordObservedServiceState ob (Some k) =
     (if (ck_phase k, ck_avail k, ck_suspended k) \<noteq>
         (checkpointServicePhase (ck_phase k) (ob_phase ob), next_avail k ob,
          checkpointServiceSuspended (ck_phase k) (ob_phase ob) (ck_suspended k) (ob_suspended ob)) then
        k\<lparr>ck_phase := checkpointServicePhase (ck_phase k) (ob_phase ob), ck_avail := next_avail k ob,
          ck_suspended := checkpointServiceSuspended (ck_phase k) (ob_phase ob) (ck_suspended k) (ob_suspended ob),
          ck_updated := (if ob_suppressed ob then ck_updated k else ob_at ob),
          ck_healthy := coalesce (if ob_observed ob \<and> ob_avail ob = Healthy then ob_ready ob else None) (ck_healthy k)\<rparr>
      else k,
      observedStateFacts ((heldAvailability (ck_phase k) (ck_avail k) ob)\<lparr>ob_avail := next_avail k ob\<rparr>)
        (ck_phase k) (ck_avail k) (ck_suspended k) (ck_updated k))"
  by (simp only: RecordObservedServiceState_def next_avail_def Let_def option.case)

lemma record_Some:
  assumes "RecordObservedServiceState ob (Some k) = (k', evs)"
  shows "ck_avail k' = next_avail k ob" and "ck_phase k' = checkpointServicePhase (ck_phase k) (ob_phase ob)"
    and "ck_suspended k' = checkpointServiceSuspended (ck_phase k) (ob_phase ob) (ck_suspended k) (ob_suspended ob)"
    and "evs = observedStateFacts ((heldAvailability (ck_phase k) (ck_avail k) ob)\<lparr>ob_avail := next_avail k ob\<rparr>)
             (ck_phase k) (ck_avail k) (ck_suspended k) (ck_updated k)"
  using assms unfolding record_unfold by (simp_all split: if_splits) auto

lemma record_None:
  "RecordObservedServiceState ob None = (k', evs) \<Longrightarrow>
     evs = [] \<and> ck_phase k' = ob_phase ob \<and> ck_suspended k' = ob_suspended ob \<and>
     ck_avail k' = ob_avail (heldAvailability PhaseNone AvNone ob)"
  by (auto simp: RecordObservedServiceState_def Let_def)

lemma sleep_no_outage:
  "outage d (map fst (if c1 then [] else if c2 then [(if b then ServiceSuspended else ServiceHibernated, t)]
     else if c3 then [(if b' then ServiceResumed else ServiceWoken, t')] else [])) = Some d"
  by (simp add: is_failure_def)

lemma record_outage:
  assumes "obs_ok ob" and "RecordObservedServiceState ob ck = (k', evs)"
  shows "outage (down ck) (map fst evs) = Some (down (Some k'))"
proof (cases ck)
  case None
  with record_None assms have "evs = []" "ck_avail k' = ob_avail (heldAvailability PhaseNone AvNone ob)" by auto
  with None assms(1) show ?thesis
    by (auto simp: down_def heldAvailability_def Let_def obs_ok_def)
next
  case (Some k)
  let ?ob = "(heldAvailability (ck_phase k) (ck_avail k) ob)\<lparr>ob_avail := next_avail k ob\<rparr>"
  have r: "ck_avail k' = next_avail k ob" "evs = observedStateFacts ?ob (ck_phase k) (ck_avail k) (ck_suspended k) (ck_updated k)"
    using record_Some(1,4) assms(2) Some by simp_all
  note steps = next_avail_steps [OF assms(1), of k]
  have fail: "is_failure (failureFactType x)" for x by (simp add: failureFactType_def is_failure_def)
  have avail: "is_failure ServerAvailable = False" by (simp add: is_failure_def)
  show ?thesis
    unfolding r(2) observedStateFacts_def Let_def map_append outage_append sleep_no_outage Some
    using steps fail avail r(1)
    by (cases "ck_avail k"; cases "next_avail k ob") (simp_all add: down_def)
qed

lemma pass_outage:
  assumes "service_pass x s = (s', evs)"
  shows "outage (down (sv_ck s)) (map fst evs) = Some (down (sv_ck s'))"
proof (cases x)
  case Restart
  with assms show ?thesis by auto
next
  case (Observe a hasOpen now readable ok)
  let ?h = "if readable then Got (LastHealthyTransitionAt (sv_ck s)) else GotErr"
  obtain g once where g: "guardServiceObservation ?h (observedServiceStateFor a hasOpen now) (sv_once s) = (g, once)" by fastforce
  obtain k e where r: "RecordObservedServiceState g (sv_ck s) = (k, e)" by fastforce
  from record_outage [OF guarded_ok [OF observed_ok g] r] assms Observe g r show ?thesis
    by (auto simp: Let_def split: if_splits)
qed

lemma run_outage: "service_run xs s = (s', evs) \<Longrightarrow> outage (down (sv_ck s)) (map fst evs) = Some (down (sv_ck s'))"
proof (induction xs arbitrary: s evs)
  case Nil
  then show ?case by simp
next
  case (Cons x xs)
  obtain s1 e1 where 1: "service_pass x s = (s1, e1)" by fastforce
  obtain s2 e2 where 2: "service_run xs s1 = (s2, e2)" by fastforce
  from Cons.prems 1 2 have "s' = s2" "evs = e1 @ e2" by auto
  with pass_outage [OF 1] Cons.IH [of s1 e2] 2 show ?case by (simp add: outage_append)
qed

section \<open>Sleep and wake\<close>

text \<open>
  What the events say of a service: nothing yet, awake, or asleep, and then whether a user suspended it.
  A sleep comes only to a service that is awake, a wake only to one asleep, and one that a user suspended
  is resumed, never woken.
\<close>

datatype rest = RestUnknown | Awake | Asleep bool

fun rests :: "rest \<Rightarrow> service_event list \<Rightarrow> rest option" where
  "rests z [] = Some z"
| "rests z (ev # evs) =
     (case ev of
        ServiceSuspended \<Rightarrow> (case z of Asleep _ \<Rightarrow> None | _ \<Rightarrow> rests (Asleep True) evs)
      | ServiceHibernated \<Rightarrow> (case z of Asleep _ \<Rightarrow> None | _ \<Rightarrow> rests (Asleep False) evs)
      | ServiceResumed \<Rightarrow> if z = Awake then None else rests Awake evs
      | ServiceWoken \<Rightarrow> if z = Awake \<or> z = Asleep True then None else rests Awake evs
      | _ \<Rightarrow> rests z evs)"

lemma rests_append: "rests z (xs @ ys) = Option.bind (rests z xs) (\<lambda>y. rests y ys)"
  by (induction xs arbitrary: z) (auto split: service_event.split rest.split)

definition agrees :: "rest \<Rightarrow> checkpoint option \<Rightarrow> bool" where
  "agrees z ck =
     (case z of
        RestUnknown \<Rightarrow> True
      | Awake \<Rightarrow> (case ck of None \<Rightarrow> False | Some k \<Rightarrow> ck_phase k \<noteq> PhaseHibernated)
      | Asleep b \<Rightarrow> (case ck of None \<Rightarrow> False | Some k \<Rightarrow> ck_phase k = PhaseHibernated \<and> (b \<longrightarrow> ck_suspended k)))"

lemma outage_no_rest:
  "rests z (map fst (if c1 then [] else if c2 then [(failureFactType x, t)] else if c3 then [(failureFactType y, t')]
     else if c4 then [(ServerAvailable, t'')] else [])) = Some z"
  by (simp add: failureFactType_def)

lemma record_rests:
  assumes "RecordObservedServiceState ob ck = (k', evs)" and "agrees z ck"
  shows "\<exists>y. rests z (map fst evs) = Some y \<and> agrees y (Some k')"
proof (cases ck)
  case None
  with assms(1) record_None [of ob k' evs] have "evs = []" by simp
  with assms(2) None show ?thesis by (cases z) (simp_all add: agrees_def)
next
  case (Some k)
  let ?ob = "(heldAvailability (ck_phase k) (ck_avail k) ob)\<lparr>ob_avail := next_avail k ob\<rparr>"
  let ?sleep = "if ob_phase ob = ck_phase k then []
       else if ob_phase ob = PhaseHibernated then [if ob_suspended ob then ServiceSuspended else ServiceHibernated]
       else if ob_phase ob = PhaseRunning \<and> ck_phase k = PhaseHibernated then [if ck_suspended k then ServiceResumed else ServiceWoken]
       else []"
  have r: "ck_phase k' = checkpointServicePhase (ck_phase k) (ob_phase ob)"
    "ck_suspended k' = checkpointServiceSuspended (ck_phase k) (ob_phase ob) (ck_suspended k) (ob_suspended ob)"
    "evs = observedStateFacts ?ob (ck_phase k) (ck_avail k) (ck_suspended k) (ck_updated k)"
    using record_Some(2-4) assms(1) Some by simp_all
  have "rests z (map fst evs) = rests z ?sleep"
    unfolding r(3) observedStateFacts_def Let_def map_append rests_append outage_no_rest
    by (simp split: if_splits option.split)
  moreover have "\<exists>y. rests z ?sleep = Some y \<and> agrees y (Some k')"
    using assms(2) r(1,2) Some
    by (cases z) (auto simp: agrees_def checkpointServicePhase_def checkpointServiceSuspended_def)
  ultimately show ?thesis by simp
qed

lemma pass_rests:
  assumes "service_pass x s = (s', evs)" and "agrees z (sv_ck s)"
  shows "\<exists>y. rests z (map fst evs) = Some y \<and> agrees y (sv_ck s')"
proof (cases x)
  case Restart
  with assms show ?thesis by auto
next
  case (Observe a hasOpen now readable ok)
  let ?h = "if readable then Got (LastHealthyTransitionAt (sv_ck s)) else GotErr"
  obtain g once where g: "guardServiceObservation ?h (observedServiceStateFor a hasOpen now) (sv_once s) = (g, once)" by fastforce
  obtain k e where r: "RecordObservedServiceState g (sv_ck s) = (k, e)" by fastforce
  from record_rests [OF r assms(2)] assms Observe g r show ?thesis
    by (auto simp: Let_def split: if_splits)
qed

lemma run_rests:
  "service_run xs s = (s', evs) \<Longrightarrow> agrees z (sv_ck s) \<Longrightarrow> \<exists>y. rests z (map fst evs) = Some y \<and> agrees y (sv_ck s')"
proof (induction xs arbitrary: s evs z)
  case Nil
  then show ?case by auto
next
  case (Cons x xs)
  obtain s1 e1 where 1: "service_pass x s = (s1, e1)" by fastforce
  obtain s2 e2 where 2: "service_run xs s1 = (s2, e2)" by fastforce
  from Cons.prems(1) 1 2 have e: "s' = s2" "evs = e1 @ e2" by auto
  from pass_rests [OF 1 Cons.prems(2)] obtain y where y: "rests z (map fst e1) = Some y" "agrees y (sv_ck s1)" by blast
  from Cons.IH [of s1 e2 y] 2 e y show ?case by (simp add: rests_append)
qed

section \<open>Confirmation\<close>

fun concludes_down :: "service_step \<Rightarrow> bool" where
  "concludes_down (Observe a hasOpen now readable ok) =
     (let ob = observedServiceStateFor a hasOpen now in ob_observed ob \<and> ob_avail ob = Unhealthy)"
| "concludes_down Restart = False"

text \<open>A failure in a pass: the pass concludes it, the one before left its sighting, and the conclusion is not stale.\<close>

definition not_stale :: "service_step \<Rightarrow> service_state \<Rightarrow> bool" where
  "not_stale x s =
     (case x of
        Observe a hasOpen now readable ok \<Rightarrow>
          (case (ob_ready (observedServiceStateFor a hasOpen now), LastHealthyTransitionAt (sv_ck s)) of
             (Some t, Some h) \<Rightarrow> readable \<longrightarrow> h \<le> t
           | _ \<Rightarrow> True)
      | Restart \<Rightarrow> False)"

lemma record_failure:
  assumes "RecordObservedServiceState g ck = (k', evs)" and "ev \<in> fst ` set evs" and "is_failure ev"
  shows "ob_observed g \<and> ob_avail g = Unhealthy"
proof (cases ck)
  case None
  with assms(1) record_None [of g k' evs] have "evs = []" by simp
  with assms(2) show ?thesis by simp
next
  case (Some k)
  have evs: "evs = observedStateFacts ((heldAvailability (ck_phase k) (ck_avail k) g)\<lparr>ob_avail := next_avail k g\<rparr>)
      (ck_phase k) (ck_avail k) (ck_suspended k) (ck_updated k)"
    using record_Some(4) assms(1) Some by simp
  have "next_avail k g = Unhealthy \<and> ck_avail k \<noteq> Unhealthy"
    using assms(2,3) unfolding evs observedStateFacts_def Let_def
    by (auto simp: is_failure_def split: if_splits)
  then show ?thesis by (auto simp: next_avail_def heldAvailability_def Let_def split: if_splits)
qed

lemma guard_passes_unhealthy:
  assumes "guardServiceObservation h ob once = (g, once')" and "ob_observed g" "ob_avail g = Unhealthy"
  shows "once" and "g = ob" and "rejectStaleUnhealthy h ob = ob"
  using assms rejectStale_cases [of h ob]
  by (auto simp: guardServiceObservation_def debounceUnhealthy_def Let_def split: if_splits)

lemma guard_sighting:
  assumes "guardServiceObservation h ob once = (g, True)"
  shows "ob_observed ob \<and> ob_avail ob = Unhealthy"
  using assms rejectStale_cases [of h ob]
  by (auto simp: guardServiceObservation_def debounceUnhealthy_def Let_def split: if_splits)

lemma pass_sighting: "service_pass y s = (s', evs) \<Longrightarrow> sv_once s' \<Longrightarrow> concludes_down y"
proof (cases y)
  case Restart
  assume "service_pass y s = (s', evs)" "sv_once s'"
  with Restart show ?thesis by auto
next
  case (Observe a hasOpen now readable ok)
  assume y: "service_pass y s = (s', evs)" and once: "sv_once s'"
  let ?h = "if readable then Got (LastHealthyTransitionAt (sv_ck s)) else GotErr"
  obtain g b where g: "guardServiceObservation ?h (observedServiceStateFor a hasOpen now) (sv_once s) = (g, b)" by fastforce
  with y once Observe have "b" by (auto simp: Let_def split: prod.splits if_splits)
  with g guard_sighting Observe show ?thesis by (auto simp: Let_def)
qed

lemma pass_failure:
  assumes x: "service_pass x s = (s', evs)" and ev: "ev \<in> fst ` set evs" "is_failure ev"
  shows "sv_once s" and "concludes_down x" and "not_stale x s"
proof -
  from x ev obtain a hasOpen now readable ok where o: "x = Observe a hasOpen now readable ok" by (cases x) auto
  let ?h = "if readable then Got (LastHealthyTransitionAt (sv_ck s)) else GotErr"
  let ?ob = "observedServiceStateFor a hasOpen now"
  obtain g b where g: "guardServiceObservation ?h ?ob (sv_once s) = (g, b)" by fastforce
  obtain k e where r: "RecordObservedServiceState g (sv_ck s) = (k, e)" by fastforce
  from x ev o g r have "ev \<in> fst ` set e" by (auto simp: Let_def split: if_splits)
  from record_failure [OF r this ev(2)] have down: "ob_observed g" "ob_avail g = Unhealthy" by simp_all
  note p = guard_passes_unhealthy [OF g down]
  show "sv_once s" by (rule p(1))
  show "concludes_down x" using p(2) down o by (simp add: Let_def)
  show "not_stale x s"
    using p(3) p(2) down o
    by (cases "ob_ready ?ob"; cases "LastHealthyTransitionAt (sv_ck s)"; cases readable)
       (auto simp: not_stale_def rejectStaleUnhealthy_def not_less split: if_splits dest: arg_cong [where f = ob_observed])
qed

section \<open>Cron runs\<close>

definition cronRunSourceKey :: "string \<Rightarrow> string \<Rightarrow> string \<Rightarrow> string" where
  "cronRunSourceKey app run ph = ''cron:'' @ app @ '':'' @ run @ '':'' @ ph"

text \<open>\<open>strings.LastIndexByte\<close>: what is before and after the last separator.\<close>

fun last_sep :: "char \<Rightarrow> string \<Rightarrow> (string \<times> string) option" where
  "last_sep sep [] = None"
| "last_sep sep (c # s) =
     (case last_sep sep s of
        Some (a, b) \<Rightarrow> Some (c # a, b)
      | None \<Rightarrow> if c = sep then Some ([], s) else None)"

text \<open>\<open>dns\<close> is \<open>validation.IsDNS1123Subdomain\<close> of apimachinery.\<close>

definition CronRunNameFromStartedKey :: "(string \<Rightarrow> bool) \<Rightarrow> string \<Rightarrow> string option" where
  "CronRunNameFromStartedKey dns key =
     (case cut_prefix ''fact:cron:'' key of
        None \<Rightarrow> None
      | Some r1 \<Rightarrow>
          (case cut_suffix '':started'' r1 of
             None \<Rightarrow> None
           | Some r2 \<Rightarrow>
               (case last_sep (CHR '':'') r2 of
                  None \<Rightarrow> None
                | Some (app, run) \<Rightarrow> if app = [] \<or> \<not> dns run then None else Some run)))"

record cron_run =
  cn_name :: string
  cn_started :: "int option"
  cn_finished :: "int option"
  cn_status :: string
  cn_failure :: string
  cn_exit :: "int option"

record cron_fact =
  cf_key :: string
  cf_type :: string
  cf_at :: int
  cf_status :: string
  cf_reason :: string
  cf_exit :: "int option"
  cf_run :: string

definition cronRunReason :: "string \<Rightarrow> string" where
  "cronRunReason reason =
     (if reason = ''NonZeroExit'' then ''non_zero_exit'' else if reason = ''OOMKilled'' then ''oom_killed''
      else if reason = ''Evicted'' then ''evicted'' else if reason = ''DeadlineExceeded'' then ''timed_out'' else [])"

text \<open>\<open>derive\<close> is \<open>ids.Derive\<close> at the prefix of cron runs: the public id of a run.\<close>

definition cronRunFacts :: "(string \<Rightarrow> string) \<Rightarrow> string \<Rightarrow> cron_run \<Rightarrow> cron_fact list" where
  "cronRunFacts derive app run =
     (if app = [] \<or> cn_name run = [] then []
      else let start =
          (case cn_started run of
             None \<Rightarrow> []
           | Some t \<Rightarrow> [\<lparr>cf_key = cronRunSourceKey app (cn_name run) ''started'', cf_type = ''cron_job_run_started'', cf_at = t,
                         cf_status = [], cf_reason = [], cf_exit = None, cf_run = derive (cn_name run)\<rparr>]);
        st = (if cn_status run = ''Succeeded'' then ''succeeded'' else if cn_status run = ''Failed'' then ''failed''
              else if cn_status run = ''Canceled'' then ''canceled'' else [])
      in (case cn_finished run of
            None \<Rightarrow> start
          | Some t \<Rightarrow>
              if st = [] then start
              else start @ [\<lparr>cf_key = cronRunSourceKey app (cn_name run) ''ended'', cf_type = ''cron_job_run_ended'', cf_at = t,
                     cf_status = st, cf_reason = (if st = ''failed'' then cronRunReason (cn_failure run) else []),
                     cf_exit = (if st = ''failed'' then cn_exit run else None), cf_run = derive (cn_name run)\<rparr>]))"

lemma last_sep_none: "sep \<notin> set s \<Longrightarrow> last_sep sep s = None"
  by (induction s) auto

lemma last_sep_append: "sep \<notin> set b \<Longrightarrow> last_sep sep (a @ sep # b) = Some (a, b)"
  by (induction a) (auto simp: last_sep_none)

section \<open>Properties\<close>

text \<open>C19: Outages come in pairs. In the events of a service, over any passes on any App, with restarts,
  failed lookups and failed transactions in between, a failure never follows a failure and a recovery only
  follows one; and the checkpoint reads unhealthy exactly while an outage is open.
\<close>

theorem outages_paired:
  "outage False (map fst (snd (service_run steps unseen))) = Some (down (sv_ck (fst (service_run steps unseen))))"
  using run_outage [of steps unseen "fst (service_run steps unseen)" "snd (service_run steps unseen)"]
  by (simp add: unseen_def down_def)

text \<open>Sleep and wake alternate, whatever transient phases a pass samples in between, and a service that a
  user suspended is reported resumed, never woken by traffic.
\<close>

theorem sleeps_and_wakes_alternate:
  "rests RestUnknown (map fst (snd (service_run steps unseen))) \<noteq> None"
  using run_rests [of steps unseen "fst (service_run steps unseen)" "snd (service_run steps unseen)" RestUnknown]
  by (auto simp: agrees_def)

text \<open>An outage is confirmed. A pass reports a failure only when it concludes that the service is down and
  the pass just before it did too, with no restart between them, and, where the checkpoint can be read,
  only when the condition it rests on is not older than the health the checkpoint records.
\<close>

theorem outage_confirmed:
  assumes "service_run (xs @ [y]) unseen = (s1, e1)" and "service_pass x s1 = (s2, evs)"
    and "ev \<in> fst ` set evs" and "is_failure ev"
  shows "concludes_down y \<and> concludes_down x \<and> not_stale x s1"
proof -
  have run: "service_run (xs @ [y]) s = (case service_run xs s of (t, e) \<Rightarrow> (case service_pass y t of (u, e') \<Rightarrow> (u, e @ e')))" for s
    by (induction xs arbitrary: s) (auto split: prod.splits)
  obtain t e where t: "service_run xs unseen = (t, e)" by fastforce
  from assms(1) run [of unseen] t obtain e' where y: "service_pass y t = (s1, e')" by (auto split: prod.splits)
  from pass_failure [OF assms(2-4)] pass_sighting [OF y] show ?thesis by blast
qed

text \<open>The run of a cron start is read back from its key: the feed key of the fact gives the name of the
  job, for every service id and every name a Kubernetes object may have.
\<close>

theorem cron_key_roundtrip:
  assumes "dns run" and "\<And>s. dns s \<Longrightarrow> CHR '':'' \<notin> set s" and "app \<noteq> []"
  shows "CronRunNameFromStartedKey dns (''fact:'' @ cronRunSourceKey app run ''started'') = Some run"
proof -
  have "cut_prefix ''fact:cron:'' (''fact:'' @ cronRunSourceKey app run ''started'') = Some (app @ '':'' @ run @ '':started'')"
    by (simp add: cut_prefix_Some cronRunSourceKey_def)
  moreover have "cut_suffix '':started'' (app @ '':'' @ run @ '':started'') = Some (app @ '':'' @ run)"
    by (simp add: cut_suffix_Some)
  moreover have "last_sep (CHR '':'') (app @ '':'' @ run) = Some (app, run)"
    using last_sep_append [OF assms(2) [OF assms(1)], of app] by simp
  ultimately show ?thesis using assms(1,3) by (simp add: CronRunNameFromStartedKey_def)
qed

theorem cron_key_roundtrip_witness:
  "CronRunNameFromStartedKey (\<lambda>s. CHR '':'' \<notin> set s) (''fact:'' @ cronRunSourceKey ''srv'' ''job-1'' ''started'') = Some ''job-1''"
  by (rule cron_key_roundtrip) simp_all

definition ex_condition :: "string \<Rightarrow> cond_status \<Rightarrow> string \<Rightarrow> int \<Rightarrow> status_condition" where
  "ex_condition ty st reason t =
     \<lparr>c_type = ty, c_status = st, c_reason = reason, c_observed = 2, c_transition = t, c_message = []\<rparr>"

definition ex_up :: service_step where
  "ex_up = Observe ((ex_cr PhaseRunning)\<lparr>la_conditions := [ex_condition ''Ready'' CondTrue [] 5]\<rparr>) False 10 True True"

definition ex_down :: "int \<Rightarrow> service_step" where
  "ex_down now = Observe ((ex_cr PhaseDeploying)\<lparr>la_activeRevision := ''rev-2'',
     la_conditions := [ex_condition ''Ready'' CondFalse ''CrashLoopBackOff'' 15]\<rparr>) False now True True"

lemma ex_outage: "map fst (snd (service_run [ex_up, ex_down 20, ex_down 30, ex_up] unseen)) = [ServerFailed, ServerAvailable]"
  by code_simp

lemma ex_outage_pass: "is_failure ServerFailed \<and>
  ServerFailed \<in> fst ` set (snd (service_pass (ex_down 30) (fst (service_run ([ex_up] @ [ex_down 20]) unseen))))"
  by code_simp

theorem outage_confirmed_witness: "concludes_down (ex_down 20) \<and> concludes_down (ex_down 30)"
  using outage_confirmed [of "[ex_up]" "ex_down 20" _ _ "ex_down 30", OF prod.collapse [symmetric] prod.collapse [symmetric]]
    ex_outage_pass by blast

end
