(* ===== verification/Utf8.thy ===== *)
theory Utf8
  imports GoText
begin

text \<open>
  Decoding UTF-8 as Go's \<open>unicode/utf8\<close> does: the code points of a byte string, or nothing when it is not
  valid (an overlong form, a surrogate, a value above U+10FFFF, a stray or missing continuation byte).
\<close>

definition cont_byte :: "nat \<Rightarrow> nat \<Rightarrow> char \<Rightarrow> bool" where
  "cont_byte lo hi c \<longleftrightarrow> lo \<le> of_char c \<and> of_char c \<le> hi"

definition low6 :: "char \<Rightarrow> nat" where
  "low6 c = of_char c - 128"

text \<open>The accepted range of the second byte depends on the first.\<close>

definition second_range :: "nat \<Rightarrow> nat \<times> nat" where
  "second_range x =
     (if x = 224 then (160, 191) else if x = 237 then (128, 159)
      else if x = 240 then (144, 191) else if x = 244 then (128, 143) else (128, 191))"

fun runes :: "string \<Rightarrow> nat list option" where
  "runes [] = Some []"
| "runes (a # s) =
     (let x = of_char a; (lo, hi) = second_range x in
      if x < 128 then map_option ((#) x) (runes s)
      else if 194 \<le> x \<and> x \<le> 223 then
        (case s of
           b # t \<Rightarrow> if cont_byte lo hi b then map_option ((#) ((x - 192) * 64 + low6 b)) (runes t) else None
         | _ \<Rightarrow> None)
      else if 224 \<le> x \<and> x \<le> 239 then
        (case s of
           b # c # t \<Rightarrow>
             if cont_byte lo hi b \<and> cont_byte 128 191 c
             then map_option ((#) ((x - 224) * 4096 + low6 b * 64 + low6 c)) (runes t) else None
         | _ \<Rightarrow> None)
      else if 240 \<le> x \<and> x \<le> 244 then
        (case s of
           b # c # d # t \<Rightarrow>
             if cont_byte lo hi b \<and> cont_byte 128 191 c \<and> cont_byte 128 191 d
             then map_option ((#) ((x - 240) * 262144 + low6 b * 4096 + low6 c * 64 + low6 d)) (runes t) else None
         | _ \<Rightarrow> None)
      else None)"

definition utf8_valid :: "string \<Rightarrow> bool" where
  "utf8_valid s \<longleftrightarrow> runes s \<noteq> None"

text \<open>\<open>unicode.IsSpace\<close> and \<open>unicode.IsControl\<close>.\<close>

definition rune_space :: "nat \<Rightarrow> bool" where
  "rune_space r \<longleftrightarrow>
     (9 \<le> r \<and> r \<le> 13) \<or> (8192 \<le> r \<and> r \<le> 8202) \<or>
     r \<in> {32, 133, 160, 5760, 8232, 8233, 8239, 8287, 12288}"

definition rune_control :: "nat \<Rightarrow> bool" where
  "rune_control r \<longleftrightarrow> r < 32 \<or> (127 \<le> r \<and> r < 160)"

lemma runes_ascii: "list_all is_ascii s \<Longrightarrow> runes s = Some (map of_char s)"
  by (induction s) (simp_all add: is_ascii_def second_range_def Let_def)

lemma utf8_valid_ascii [simp]: "list_all is_ascii s \<Longrightarrow> utf8_valid s"
  by (simp add: utf8_valid_def runes_ascii)

lemma utf8_examples:
  "runes [CHR 0xE2, CHR 0x82, CHR 0xAC] = Some [8364]" "runes [CHR 0xC0, CHR 0xAF] = None"
  "runes [CHR 0xED, CHR 0xA0, CHR 0x80] = None"
  by (simp_all add: second_range_def cont_byte_def low6_def)

end
