(* ===== verification/Scopes.thy ===== *)
theory Scopes
  imports Utf8 "HOL-Library.List_Lexorder"
begin

text \<open>
  The capabilities of OAuth tokens (\<open>backend/internal/core/scope.go\<close>, \<open>identity.go\<close>): the closed scope
  vocabulary, the normalisation of what the authorization server introspects, and the scope half of every
  authorization decision. Relations and scopes are strings, as in the code.
\<close>

section \<open>Identities and relations\<close>

record identity =
  id_subject :: string
  id_method :: string
  id_client :: string
  id_human :: bool
  id_email :: string
  id_emailVerified :: bool
  id_name :: string
  id_scopes :: string
  id_audience :: string
  id_platform :: bool

definition RelCanView :: string where "RelCanView = ''can_view''"
definition RelCanViewLogs :: string where "RelCanViewLogs = ''can_view_logs''"
definition RelCanOperate :: string where "RelCanOperate = ''can_operate''"
definition RelCanCreate :: string where "RelCanCreate = ''can_create''"
definition RelCanViewSensitive :: string where "RelCanViewSensitive = ''can_view_sensitive''"
definition RelCanManageKeys :: string where "RelCanManageKeys = ''can_manage_keys''"
definition RelCanManageSSHKeys :: string where "RelCanManageSSHKeys = ''can_manage_ssh_keys''"
definition RelCanManage :: string where "RelCanManage = ''can_manage''"
definition RelCanManageBilling :: string where "RelCanManageBilling = ''can_manage_billing''"

lemmas relations = RelCanView_def RelCanViewLogs_def RelCanOperate_def RelCanCreate_def RelCanViewSensitive_def
  RelCanManageKeys_def RelCanManageSSHKeys_def RelCanManage_def RelCanManageBilling_def

definition ScopeRead :: string where "ScopeRead = ''bex.read''"
definition ScopeWrite :: string where "ScopeWrite = ''bex.write''"
definition ScopeSensitive :: string where "ScopeSensitive = ''bex.sensitive''"
definition ScopeCloudAgents :: string where "ScopeCloudAgents = ''bex.cloud_agents''"
definition ScopeAPICompatibility :: string where "ScopeAPICompatibility = ''bex.api''"

lemmas scopes = ScopeRead_def ScopeWrite_def ScopeSensitive_def ScopeCloudAgents_def ScopeAPICompatibility_def

definition ClosedOAuthScopes :: "string list" where
  "ClosedOAuthScopes = [ScopeRead, ScopeWrite, ScopeSensitive, ScopeCloudAgents, ScopeAPICompatibility]"

definition granularScopes :: "string list" where
  "granularScopes = [ScopeRead, ScopeWrite, ScopeSensitive, ScopeCloudAgents]"

definition relationCapability :: "(string \<times> string) list" where
  "relationCapability =
     [(RelCanView, ScopeRead), (RelCanViewLogs, ScopeRead), (RelCanOperate, ScopeWrite), (RelCanCreate, ScopeWrite),
      (RelCanViewSensitive, ScopeSensitive), (RelCanManageKeys, ScopeWrite), (RelCanManageSSHKeys, ScopeWrite),
      (RelCanManage, ScopeWrite), (RelCanManageBilling, ScopeWrite)]"

definition RequiredCapability :: "string \<Rightarrow> string option" where
  "RequiredCapability relation = map_of relationCapability relation"

section \<open>Grants\<close>

record grant =
  og_scopes :: string
  og_audience :: string

definition ScopeList :: "string \<Rightarrow> string list" where
  "ScopeList canonical = (if canonical = [] then [] else go_fields canonical)"

definition ContainsScope :: "string \<Rightarrow> string \<Rightarrow> bool" where
  "ContainsScope canonical want \<longleftrightarrow> want \<noteq> [] \<and> want \<in> set (go_fields canonical)"

definition HasGranularCapability :: "string \<Rightarrow> bool" where
  "HasGranularCapability canonical \<longleftrightarrow> list_ex (\<lambda>s. s \<in> set granularScopes) (go_fields canonical)"

definition HasGranular :: "grant \<Rightarrow> bool" where
  "HasGranular g = HasGranularCapability (og_scopes g)"

definition MaxOAuthScopes :: nat where "MaxOAuthScopes = 32"
definition MaxOAuthScopeLen :: nat where "MaxOAuthScopeLen = 64"
definition MaxOAuthAudiences :: nat where "MaxOAuthAudiences = 8"
definition MaxOAuthAudienceLen :: nat where "MaxOAuthAudienceLen = 256"
definition MaxOAuthClientIDLen :: nat where "MaxOAuthClientIDLen = 128"

datatype grant_error = ClientIdTooLong | TooManyScopes | ScopeTooLong | TooManyAudiences | AudienceTooLong

text \<open>\<open>kept\<close> grows at its end; what it already has is the code's \<open>seen\<close>.\<close>

fun keep_scopes :: "string list \<Rightarrow> string list \<Rightarrow> grant_error + string list" where
  "keep_scopes [] kept = Inr kept"
| "keep_scopes (s # ss) kept =
     (if MaxOAuthScopeLen < length s then Inl ScopeTooLong
      else if s \<in> set ClosedOAuthScopes then keep_scopes ss (if s \<in> set kept then kept else kept @ [s])
      else keep_scopes ss kept)"

fun accept_audience :: "string \<Rightarrow> string list \<Rightarrow> grant_error + string" where
  "accept_audience resource [] = Inr []"
| "accept_audience resource (a # as) =
     (if MaxOAuthAudienceLen < length a then Inl AudienceTooLong
      else if a = resource then Inr resource else accept_audience resource as)"

fun join_words :: "string list \<Rightarrow> string" where
  "join_words [] = []"
| "join_words [w] = w"
| "join_words (w # v # ws) = w @ '' '' @ join_words (v # ws)"

definition NormalizeOAuthGrant :: "string \<Rightarrow> string list \<Rightarrow> string \<Rightarrow> string \<Rightarrow> grant_error + grant" where
  "NormalizeOAuthGrant scope audiences clientID resource =
     (if MaxOAuthClientIDLen < length clientID then Inl ClientIdTooLong
      else if MaxOAuthScopes < length (go_fields scope) then Inl TooManyScopes
      else rbind (keep_scopes (go_fields scope) [])
        (\<lambda>kept. if MaxOAuthAudiences < length audiences then Inl TooManyAudiences
           else rbind (if resource = [] then Inr [] else accept_audience resource audiences)
             (\<lambda>accepted. Inr \<lparr>og_scopes = join_words (sort kept), og_audience = accepted\<rparr>)))"

section \<open>The scope half of a decision\<close>

definition CapabilityExempt :: "identity \<Rightarrow> bool" where
  "CapabilityExempt i \<longleftrightarrow> id_method i \<noteq> ''oauth2'' \<or> \<not> id_human i"

text \<open>The refusal names the scope that is missing, or nothing when the relation is not known.\<close>

definition RequireCapability :: "identity \<Rightarrow> string \<Rightarrow> string option" where
  "RequireCapability i relation =
     (if CapabilityExempt i then None
      else (case RequiredCapability relation of
              None \<Rightarrow> Some []
            | Some want \<Rightarrow> if ContainsScope (id_scopes i) want then None else Some want))"

definition RequireOpClass :: "identity \<Rightarrow> string \<Rightarrow> string option" where
  "RequireOpClass i cls =
     (if cls = ''read'' then RequireCapability i RelCanView
      else if cls = ''write'' \<or> cls = ''mint'' then RequireCapability i RelCanOperate
      else if cls = ''sensitive'' then RequireCapability i RelCanViewSensitive
      else Some [])"

section \<open>Words\<close>

text \<open>Words of plain characters survive joining and splitting again.\<close>

definition plain_char :: "char \<Rightarrow> bool" where
  "plain_char c \<longleftrightarrow> is_ascii c \<and> \<not> ascii_space c"

definition plain_word :: "string \<Rightarrow> bool" where
  "plain_word w \<longleftrightarrow> w \<noteq> [] \<and> list_all plain_char w"

lemma unicode_spaces_lead: "list_all (\<lambda>p. p \<noteq> [] \<and> \<not> is_ascii (hd p)) unicode_spaces"
  by code_simp

lemma plain_not_unicode: "plain_char c \<Longrightarrow> find (\<lambda>p. starts_with p (c # s)) unicode_spaces = None"
  using unicode_spaces_lead
  by (auto simp: find_None_iff list_all_iff plain_char_def starts_with_iff Cons_eq_append_conv)

lemma plain_width: "plain_char c \<Longrightarrow> space_width (c # s) = 0"
  using plain_not_unicode [of c s] by (simp add: plain_char_def space_width_def)

lemma fields_plain: "list_all plain_char w \<Longrightarrow> fields_from cur (w @ s) = fields_from (rev w @ cur) s"
  by (induction w arbitrary: cur) (simp_all add: plain_width)

lemma fields_word: "plain_word w \<Longrightarrow> go_fields w = [w]"
  using fields_plain [of w "[]" "[]"] by (simp add: go_fields_def plain_word_def)

lemma fields_space: "plain_word w \<Longrightarrow> go_fields (w @ '' '' @ s) = w # go_fields s"
proof -
  assume w: "plain_word w"
  then have "go_fields (w @ '' '' @ s) = fields_from (rev w) ('' '' @ s)"
    using fields_plain [of w "[]" "'' '' @ s"] by (simp add: go_fields_def plain_word_def)
  moreover have "space_width ('' '' @ s) = 1" by (simp add: space_width_def ascii_space_def)
  ultimately show ?thesis using w by (simp add: go_fields_def plain_word_def)
qed

lemma fields_join: "list_all plain_word ws \<Longrightarrow> go_fields (join_words ws) = ws"
proof (induction ws rule: join_words.induct)
  case 1
  then show ?case by (simp add: go_fields_def)
next
  case (2 w)
  then show ?case by (simp add: fields_word)
next
  case (3 w v ws)
  then show ?case using fields_space [of w "join_words (v # ws)"] by simp
qed

lemma join_empty: "list_all plain_word ws \<Longrightarrow> join_words ws = [] \<longleftrightarrow> ws = []"
  by (induction ws rule: join_words.induct) (auto simp: plain_word_def)

lemma closed_plain: "s \<in> set ClosedOAuthScopes \<Longrightarrow> plain_word s"
  by (auto simp: ClosedOAuthScopes_def scopes plain_word_def plain_char_def is_ascii_def ascii_space_def)

lemma kept_scopes:
  "keep_scopes ss kept = Inr ks \<Longrightarrow> distinct kept \<Longrightarrow>
     distinct ks \<and> set ks = set kept \<union> (set ss \<inter> set ClosedOAuthScopes)"
  by (induction ss arbitrary: kept) (auto split: if_splits)

lemma accepted_audience:
  "accept_audience resource as = Inr a \<Longrightarrow> a = [] \<or> (a = resource \<and> resource \<in> set as)"
  by (induction as) (auto split: if_splits)

lemma normal_grant:
  assumes "NormalizeOAuthGrant scope audiences clientID resource = Inr g"
  obtains ks where "go_fields (og_scopes g) = ks" and "ScopeList (og_scopes g) = ks" and "sorted ks" and "distinct ks"
    and "set ks = set (go_fields scope) \<inter> set ClosedOAuthScopes"
    and "og_audience g = [] \<or> (og_audience g = resource \<and> resource \<in> set audiences)"
proof -
  from assms obtain kept accepted where k: "keep_scopes (go_fields scope) [] = Inr kept"
    and a: "(if resource = [] then Inr [] else accept_audience resource audiences) = Inr accepted"
    and g: "g = \<lparr>og_scopes = join_words (sort kept), og_audience = accepted\<rparr>"
    by (auto simp: NormalizeOAuthGrant_def rbind_Inr_iff split: if_splits)
  from kept_scopes [OF k] have d: "distinct kept" and s: "set kept = set (go_fields scope) \<inter> set ClosedOAuthScopes"
    by simp_all
  then have p: "list_all plain_word (sort kept)" using closed_plain by (simp add: list_all_iff)
  have f: "go_fields (og_scopes g) = sort kept" using fields_join [OF p] by (simp add: g)
  moreover have "ScopeList (og_scopes g) = sort kept" using f by (auto simp: ScopeList_def go_fields_def)
  moreover have "og_audience g = [] \<or> (og_audience g = resource \<and> resource \<in> set audiences)"
    using a accepted_audience [of resource audiences accepted] by (auto simp: g split: if_splits)
  ultimately show ?thesis using that d s by simp
qed

lemma needed_closed: "RequiredCapability relation = Some want \<Longrightarrow> want \<in> set ClosedOAuthScopes \<and> want \<noteq> []"
proof -
  assume "RequiredCapability relation = Some want"
  then have "want \<in> set (map snd relationCapability)"
    unfolding RequiredCapability_def using map_of_SomeD [of relationCapability relation want] by force
  then show ?thesis by (auto simp: relationCapability_def ClosedOAuthScopes_def scopes)
qed

section \<open>Properties\<close>

text \<open>A normalised grant holds exactly the scopes of the closed vocabulary the token carries, once each and
  in order, so that splitting its canonical text gives them back; and the audience it keeps is the resource
  itself, named by the token, or none.
\<close>

theorem oauth_grant_closed:
  assumes "NormalizeOAuthGrant scope audiences clientID resource = Inr g"
  shows "set (ScopeList (og_scopes g)) = set (go_fields scope) \<inter> set ClosedOAuthScopes \<and>
         sorted (ScopeList (og_scopes g)) \<and> distinct (ScopeList (og_scopes g)) \<and>
         (og_audience g = [] \<or> (og_audience g = resource \<and> resource \<in> set audiences))"
  by (rule normal_grant [OF assms]) simp

theorem oauth_grant_closed_witness:
  "\<exists>g. NormalizeOAuthGrant ''openid bex.write bex.read'' [''api''] ''c'' ''api'' = Inr g \<and>
       set (ScopeList (og_scopes g)) = set (go_fields ''openid bex.write bex.read'') \<inter> set ClosedOAuthScopes"
proof -
  obtain g where g: "NormalizeOAuthGrant ''openid bex.write bex.read'' [''api''] ''c'' ''api'' = Inr g"
  proof -
    have "isl (NormalizeOAuthGrant ''openid bex.write bex.read'' [''api''] ''c'' ''api'') = False" by code_simp
    then show ?thesis using that by (cases "NormalizeOAuthGrant ''openid bex.write bex.read'' [''api''] ''c'' ''api''") auto
  qed
  with oauth_grant_closed [OF g] show ?thesis by blast
qed

text \<open>C36: A human token acts within its scopes: with a grant of the authorization server it passes the scope half
  of a decision only when the server listed the very scope the relation needs, whatever client it is from,
  and for a relation outside the vocabulary never.
\<close>

theorem token_within_scopes:
  assumes "NormalizeOAuthGrant scope audiences (id_client i) resource = Inr g" and "id_scopes i = og_scopes g"
    and "id_method i = ''oauth2''" and "id_human i"
  shows "RequireCapability i relation = None \<longleftrightarrow> (\<exists>want. RequiredCapability relation = Some want \<and> want \<in> set (go_fields scope))"
proof (rule normal_grant [OF assms(1)])
  fix ks
  assume "go_fields (og_scopes g) = ks" "set ks = set (go_fields scope) \<inter> set ClosedOAuthScopes"
  then show ?thesis using assms(2-4) needed_closed [of relation]
    by (auto simp: RequireCapability_def CapabilityExempt_def ContainsScope_def split: option.split)
qed

definition ex_token :: identity where
  "ex_token = \<lparr>id_subject = ''u'', id_method = ''oauth2'', id_client = ''c'', id_human = True, id_email = [],
     id_emailVerified = False, id_name = [], id_scopes = ''bex.read'', id_audience = ''api'', id_platform = False\<rparr>"

theorem token_within_scopes_witness:
  "RequireCapability ex_token RelCanView = None \<and> RequireCapability ex_token RelCanCreate \<noteq> None"
proof -
  have "NormalizeOAuthGrant ''openid bex.read'' [''api''] ''c'' ''api'' = Inr \<lparr>og_scopes = ''bex.read'', og_audience = ''api''\<rparr>"
    by code_simp
  then have g: "NormalizeOAuthGrant ''openid bex.read'' [''api''] (id_client ex_token) ''api'' = Inr \<lparr>og_scopes = ''bex.read'', og_audience = ''api''\<rparr>"
    by (simp add: ex_token_def)
  have "go_fields ''openid bex.read'' = [''openid'', ''bex.read'']" by code_simp
  then show ?thesis
    using token_within_scopes [OF g, of RelCanView] token_within_scopes [OF g, of RelCanCreate]
    by (simp add: ex_token_def RequiredCapability_def relationCapability_def relations scopes)
qed

end
