(* ===== verification/Access.thy ===== *)
theory Access
  imports Scopes
begin

text \<open>
  The authorization seam of the API (\<open>backend/internal/core/base.go\<close>, with \<open>workspace.go\<close>, \<open>decision.go\<close>,
  \<open>byid.go\<close> and the recording half of \<open>audit.go\<close>): in which workspace a request acts, whether its caller
  holds a relation there, and the audit rows a decision leaves.

  \<open>base\<close> is what the composition root wires: the checker (OpenFGA), the membership store and the client
  registry answer by functions, \<open>None\<close> an error; a dependency that is not wired is \<open>None\<close> itself. \<open>request\<close>
  is what travels in the context; an empty string is a value that was not set. The verb a row names comes
  from the call stack and is left out, as are the time and the delivery of a row.
\<close>

section \<open>What a decision rests on\<close>

datatype core_error =
    Forbidden | InsufficientScope string | AuthzUnavailable | BadRequest | NotFound | NotInNamedWorkspace
  | NameAmbiguous "string list" | OwnerAmbiguous | ApiError

text \<open>\<open>errors.Is\<close> on the two sentinels other errors wrap.\<close>

fun is_forbidden :: "core_error \<Rightarrow> bool" where
  "is_forbidden Forbidden = True"
| "is_forbidden (InsufficientScope _) = True"
| "is_forbidden _ = False"

fun is_not_found :: "core_error \<Rightarrow> bool" where
  "is_not_found NotFound = True"
| "is_not_found NotInNamedWorkspace = True"
| "is_not_found _ = False"

record checker =
  ck_check :: "string \<Rightarrow> string \<Rightarrow> string \<Rightarrow> bool option"
  ck_fresh :: "(string \<Rightarrow> string \<Rightarrow> string \<Rightarrow> bool option) option"

datatype membership = Member | NonMember | DataException | StoreDown

record resolver =
  rv_tenant :: "identity \<Rightarrow> string \<times> bool"
  rv_member :: "identity \<Rightarrow> string \<Rightarrow> membership"

record base =
  ba_authz :: "checker option"
  ba_workspace :: "resolver option"
  ba_memberIDs :: "(identity \<Rightarrow> string list option) option"
  ba_platform :: "(string \<Rightarrow> bool option) option"
  ba_namespace :: string

record request =
  rq_identity :: "identity option"
  rq_named :: string
  rq_acting :: string
  rq_builds :: bool
  rq_deferred :: bool
  rq_resolved :: "(core_error + string) option"

definition zero_identity :: identity where
  "zero_identity = \<lparr>id_subject = [], id_method = [], id_client = [], id_human = False, id_email = [],
     id_emailVerified = False, id_name = [], id_scopes = [], id_audience = [], id_platform = False\<rparr>"

definition caller :: "request \<Rightarrow> identity" where
  "caller q = (case rq_identity q of None \<Rightarrow> zero_identity | Some i \<Rightarrow> i)"

definition WorkspaceObject :: "string \<Rightarrow> string" where
  "WorkspaceObject tenantID = ''workspace:'' @ tenantID"

definition DefaultTenant :: string where "DefaultTenant = ''default''"
definition DefaultWorkspace :: string where "DefaultWorkspace = ''workspace:default''"

definition ValidText :: "string \<Rightarrow> bool" where
  "ValidText s \<longleftrightarrow> utf8_valid s \<and> CHR 0x00 \<notin> set s"

definition validWorkspaceName :: "string \<Rightarrow> bool" where
  "validWorkspaceName name = ValidText name"

definition fga_rune :: "nat \<Rightarrow> bool" where
  "fga_rune r \<longleftrightarrow> r \<noteq> of_char (CHR ''#'') \<and> r \<noteq> of_char (CHR '':'') \<and> \<not> rune_space r \<and> \<not> rune_control r"

definition validFGAObject :: "string \<Rightarrow> bool" where
  "validFGAObject obj \<longleftrightarrow>
     length obj \<le> 256 \<and> utf8_valid obj \<and>
     (case runes (fst (snd (cut_at (CHR '':'') obj))) of None \<Rightarrow> False | Some rs \<Rightarrow> list_all fga_rune rs)"

section \<open>The acting workspace\<close>

text \<open>A caller is asked about only when the store is wired; an unwired one counts as unreachable.\<close>

definition requireMember :: "base \<Rightarrow> identity \<Rightarrow> string \<Rightarrow> core_error option" where
  "requireMember b i tenantID =
     (case ba_workspace b of
        None \<Rightarrow> Some AuthzUnavailable
      | Some w \<Rightarrow>
          (case rv_member w i tenantID of
             Member \<Rightarrow> None
           | NonMember \<Rightarrow> Some Forbidden
           | DataException \<Rightarrow> Some Forbidden
           | StoreDown \<Rightarrow> Some AuthzUnavailable))"

definition resolveWorkspaceUncached :: "base \<Rightarrow> request \<Rightarrow> core_error + string" where
  "resolveWorkspaceUncached b q =
     (case ba_workspace b of
        None \<Rightarrow> Inr []
      | Some w \<Rightarrow>
          (case rq_identity q of
             Some i \<Rightarrow>
               let tenantID = fst (rv_tenant w i); named = rq_named q in
               if named = [] \<or> named = tenantID then Inr tenantID
               else if \<not> validWorkspaceName named then Inl BadRequest
               else (case requireMember b i named of Some e \<Rightarrow> Inl e | None \<Rightarrow> Inr named)
           | None \<Rightarrow>
               if rq_acting q \<noteq> [] then
                 (if rq_named q \<noteq> [] \<and> rq_named q \<noteq> rq_acting q then Inl AuthzUnavailable else Inr (rq_acting q))
               else Inr []))"

definition resolveWorkspace :: "base \<Rightarrow> request \<Rightarrow> core_error + string" where
  "resolveWorkspace b q = (case rq_resolved q of Some r \<Rightarrow> r | None \<Rightarrow> resolveWorkspaceUncached b q)"

definition resolveWorkspaceMemo :: "base \<Rightarrow> request \<Rightarrow> request \<times> (core_error + string)" where
  "resolveWorkspaceMemo b q =
     (let r = resolveWorkspace b q in (q\<lparr>rq_resolved := Some r\<rparr>, r))"

text \<open>Where an error is ignored, the workspace is the empty string.\<close>

definition acting_of :: "core_error + string \<Rightarrow> string" where
  "acting_of r = (case r of Inl _ \<Rightarrow> [] | Inr t \<Rightarrow> t)"

definition acting_err :: "core_error + string \<Rightarrow> core_error option" where
  "acting_err r = (case r of Inl e \<Rightarrow> Some e | Inr _ \<Rightarrow> None)"

definition ValidateNamedWorkspace :: "base \<Rightarrow> request \<Rightarrow> core_error option" where
  "ValidateNamedWorkspace b q =
     (if rq_named q = [] then None
      else if ba_workspace b = None then Some AuthzUnavailable
      else acting_err (resolveWorkspace b q))"

definition callerWorkspace :: "base \<Rightarrow> request \<Rightarrow> string \<times> core_error option" where
  "callerWorkspace b q =
     (case resolveWorkspace b q of
        Inl e \<Rightarrow> (WorkspaceObject (rq_named q), Some e)
      | Inr t \<Rightarrow> (if t = [] then DefaultWorkspace else WorkspaceObject t, None))"

definition Tenant :: "base \<Rightarrow> request \<Rightarrow> string option" where
  "Tenant b q = (case resolveWorkspace b q of Inl _ \<Rightarrow> None | Inr t \<Rightarrow> if t = [] then None else Some t)"

definition WorkspaceOrDefault :: "base \<Rightarrow> request \<Rightarrow> string" where
  "WorkspaceOrDefault b q = (case Tenant b q of Some t \<Rightarrow> t | None \<Rightarrow> DefaultTenant)"

definition workspaceArgument :: "base \<Rightarrow> request \<Rightarrow> string \<Rightarrow> string \<times> core_error option" where
  "workspaceArgument b q workspaceID =
     (if workspaceID \<noteq> [] then (workspaceID, None)
      else (case resolveWorkspace b q of
              Inl e \<Rightarrow> (rq_named q, Some e)
            | Inr t \<Rightarrow> (if t = [] then DefaultTenant else t, None)))"

text \<open>The workspace a resource is authorized against: its own, and only when the request may reach it.\<close>

definition resourceWorkspaceFor ::
  "base \<Rightarrow> request \<Rightarrow> core_error + string \<Rightarrow> string \<Rightarrow> string \<times> core_error option" where
  "resourceWorkspaceFor b q r owner =
     (case r of
        Inl e \<Rightarrow> (WorkspaceObject (rq_named q), Some e)
      | Inr acting \<Rightarrow>
          if acting = [] then (DefaultWorkspace, None)
          else if rq_named q \<noteq> [] \<and> owner \<noteq> [] \<and> owner \<noteq> rq_named q
          then (WorkspaceObject (rq_named q), Some NotInNamedWorkspace)
          else if owner = [] then (WorkspaceObject acting, Some Forbidden)
          else if owner = acting then (WorkspaceObject acting, None)
          else (WorkspaceObject owner, requireMember b (caller q) owner))"

definition resourceWorkspace :: "base \<Rightarrow> request \<Rightarrow> string \<Rightarrow> string \<times> core_error option" where
  "resourceWorkspace b q owner = resourceWorkspaceFor b q (resolveWorkspace b q) owner"

section \<open>The check\<close>

definition checkCapability :: "request \<Rightarrow> string \<Rightarrow> core_error option" where
  "checkCapability q relation =
     (case rq_identity q of None \<Rightarrow> None | Some i \<Rightarrow> map_option InsufficientScope (RequireCapability i relation))"

definition ask :: "(string \<Rightarrow> string \<Rightarrow> string \<Rightarrow> bool option) \<Rightarrow> request \<Rightarrow> string \<Rightarrow> string \<Rightarrow> core_error option" where
  "ask chk q relation obj =
     (case rq_identity q of
        None \<Rightarrow> Some Forbidden
      | Some i \<Rightarrow>
          if \<not> validFGAObject obj then Some Forbidden
          else (case chk (''user:'' @ id_subject i) relation obj of
                  None \<Rightarrow> Some AuthzUnavailable
                | Some allowed \<Rightarrow> if allowed then None else Some Forbidden))"

definition checkAuthz :: "base \<Rightarrow> request \<Rightarrow> string \<Rightarrow> string \<Rightarrow> core_error option" where
  "checkAuthz b q relation obj =
     (if obj = WorkspaceObject [] then Some BadRequest
      else (case checkCapability q relation of
              Some e \<Rightarrow> Some e
            | None \<Rightarrow> (case ba_authz b of None \<Rightarrow> None | Some c \<Rightarrow> ask (ck_check c) q relation obj)))"

definition checkAuthzFresh :: "base \<Rightarrow> request \<Rightarrow> string \<Rightarrow> string \<Rightarrow> core_error option" where
  "checkAuthzFresh b q relation obj =
     (if obj = WorkspaceObject [] then Some BadRequest
      else (case checkCapability q relation of
              Some e \<Rightarrow> Some e
            | None \<Rightarrow>
                (case ba_authz b of
                   None \<Rightarrow> checkAuthz b q relation obj
                 | Some c \<Rightarrow>
                     (case ck_fresh c of
                        None \<Rightarrow> checkAuthz b q relation obj
                      | Some fresh \<Rightarrow> ask fresh q relation obj))))"

section \<open>Decisions and their audit rows\<close>

definition writeRelations :: "string list" where
  "writeRelations = [RelCanOperate, RelCanCreate, RelCanManageKeys, RelCanManageSSHKeys, RelCanManage, RelCanManageBilling]"

definition readRelations :: "string list" where
  "readRelations = [RelCanView, RelCanViewLogs, RelCanViewSensitive]"

definition auditsDenial :: "string \<Rightarrow> bool" where
  "auditsDenial relation \<longleftrightarrow> relation \<in> set writeRelations \<or> relation \<in> set readRelations"

record audit_row =
  au_relation :: string
  au_resource :: string
  au_target :: string
  au_allowed :: bool
  au_caller :: string
  au_method :: string
  au_client :: string
  au_audience :: string
  au_scopes :: "string list"

definition AttachOAuthProvenance :: "identity \<Rightarrow> audit_row \<Rightarrow> audit_row" where
  "AttachOAuthProvenance i row =
     (if id_method i \<noteq> ''oauth2'' \<or> \<not> id_human i then row
      else row\<lparr>au_client := id_client i, au_audience := id_audience i, au_scopes := ScopeList (id_scopes i)\<rparr>)"

definition emit :: "request \<Rightarrow> string \<Rightarrow> string \<Rightarrow> string \<Rightarrow> core_error option \<Rightarrow> audit_row" where
  "emit q relation obj target err =
     (let row = \<lparr>au_relation = relation, au_resource = obj, au_target = target, au_allowed = (err = None),
                 au_caller = [], au_method = [], au_client = [], au_audience = [], au_scopes = []\<rparr>
      in (case rq_identity q of
            None \<Rightarrow> row
          | Some i \<Rightarrow> AttachOAuthProvenance i (row\<lparr>au_caller := id_subject i, au_method := id_method i\<rparr>)))"

type_synonym 'a verdict_rows = "(core_error + 'a) \<times> audit_row list"

definition authorizeAndRecord ::
  "base \<Rightarrow> request \<Rightarrow> string \<Rightarrow> string \<Rightarrow> string \<Rightarrow> core_error option \<Rightarrow> bool \<Rightarrow> core_error option \<times> audit_row list" where
  "authorizeAndRecord b q relation obj target resolveErr recordDenial =
     (let denial = (\<lambda>e. if recordDenial \<and> auditsDenial relation then [emit q relation obj target (Some e)] else []) in
      (case checkCapability q relation of
         Some e \<Rightarrow> (Some e, denial e)
       | None \<Rightarrow>
           let err = (case resolveErr of
                        Some e \<Rightarrow> Some e
                      | None \<Rightarrow> if relation \<in> set writeRelations then checkAuthzFresh b q relation obj
                                 else checkAuthz b q relation obj)
           in (case err of
                 None \<Rightarrow> (None, if relation \<in> set writeRelations \<and> \<not> rq_deferred q
                                  then [emit q relation obj target None] else [])
               | Some e \<Rightarrow> (Some e, denial e))))"

definition authorizeAndAudit ::
  "base \<Rightarrow> request \<Rightarrow> string \<Rightarrow> string \<Rightarrow> string \<Rightarrow> core_error option \<Rightarrow> core_error option \<times> audit_row list" where
  "authorizeAndAudit b q relation obj target resolveErr = authorizeAndRecord b q relation obj target resolveErr True"

definition AuthorizeTarget :: "base \<Rightarrow> request \<Rightarrow> string \<Rightarrow> string \<Rightarrow> core_error option \<times> audit_row list" where
  "AuthorizeTarget b q relation target =
     (case callerWorkspace b q of (obj, e) \<Rightarrow> authorizeAndAudit b q relation obj target e)"

definition Authorize :: "base \<Rightarrow> request \<Rightarrow> string \<Rightarrow> core_error option \<times> audit_row list" where
  "Authorize b q relation =
     (case callerWorkspace b q of (obj, e) \<Rightarrow> authorizeAndAudit b q relation obj [] e)"

definition AuthorizeOn :: "base \<Rightarrow> request \<Rightarrow> string \<Rightarrow> string \<Rightarrow> core_error option \<times> audit_row list" where
  "AuthorizeOn b q relation obj = authorizeAndAudit b q relation obj [] None"

definition AuthorizeOnTarget :: "base \<Rightarrow> request \<Rightarrow> string \<Rightarrow> string \<Rightarrow> string \<Rightarrow> core_error option \<times> audit_row list" where
  "AuthorizeOnTarget b q relation obj target = authorizeAndAudit b q relation obj target None"

definition AuthorizeOnOwner :: "base \<Rightarrow> request \<Rightarrow> string \<Rightarrow> string \<Rightarrow> core_error option \<times> audit_row list" where
  "AuthorizeOnOwner b q relation owner =
     (if rq_named q \<noteq> [] \<and> rq_named q \<noteq> owner then
        authorizeAndAudit b q relation (WorkspaceObject (rq_named q)) []
          (case resolveWorkspace b q of Inl e \<Rightarrow> Some e | Inr _ \<Rightarrow> Some NotInNamedWorkspace)
      else authorizeAndAudit b q relation (WorkspaceObject owner) [] None)"

definition AuthorizeWorkspaceTarget ::
  "base \<Rightarrow> request \<Rightarrow> string \<Rightarrow> string \<Rightarrow> string \<Rightarrow> string \<times> core_error option \<times> audit_row list" where
  "AuthorizeWorkspaceTarget b q relation workspaceID target =
     (case workspaceArgument b q workspaceID of
        (t, e) \<Rightarrow> (t, authorizeAndAudit b q relation (WorkspaceObject t) target e))"

definition AuthorizeWorkspace :: "base \<Rightarrow> request \<Rightarrow> string \<Rightarrow> string \<Rightarrow> string \<times> core_error option \<times> audit_row list" where
  "AuthorizeWorkspace b q relation workspaceID =
     (case workspaceArgument b q workspaceID of
        (t, e) \<Rightarrow> (t, authorizeAndAudit b q relation (WorkspaceObject t) [] e))"

text \<open>The decisions that leave no row.\<close>

definition AuthorizeFreshOn :: "base \<Rightarrow> request \<Rightarrow> string \<Rightarrow> string \<Rightarrow> core_error option" where
  "AuthorizeFreshOn b q relation obj = checkAuthzFresh b q relation obj"

definition AuthorizeFresh :: "base \<Rightarrow> request \<Rightarrow> string \<Rightarrow> core_error option" where
  "AuthorizeFresh b q relation =
     (case callerWorkspace b q of
        (obj, Some e) \<Rightarrow> Some e
      | (obj, None) \<Rightarrow> checkAuthzFresh b q relation obj)"

definition authorizeLabeledFresh :: "base \<Rightarrow> request \<Rightarrow> string \<Rightarrow> string \<Rightarrow> core_error option" where
  "authorizeLabeledFresh b q relation owner =
     (case resourceWorkspace b q owner of
        (obj, Some e) \<Rightarrow> Some e
      | (obj, None) \<Rightarrow> checkAuthzFresh b q relation obj)"

definition checkWorkspaceAccess :: "base \<Rightarrow> request \<Rightarrow> string \<Rightarrow> string \<Rightarrow> core_error option" where
  "checkWorkspaceAccess b q relation tenantID =
     (case requireMember b (caller q) tenantID of
        Some e \<Rightarrow> Some e
      | None \<Rightarrow> checkAuthz b q relation (WorkspaceObject tenantID))"

definition AuthorizeLabeled :: "base \<Rightarrow> request \<Rightarrow> string \<Rightarrow> string \<Rightarrow> core_error option" where
  "AuthorizeLabeled b q relation owner =
     (case resolveWorkspace b q of
        Inl e \<Rightarrow> Some e
      | Inr acting \<Rightarrow>
          if acting = [] then None
          else if rq_named q \<noteq> [] \<and> owner \<noteq> [] \<and> owner \<noteq> rq_named q then Some NotInNamedWorkspace
          else if owner = acting then None
          else if owner = [] then Some Forbidden
          else checkWorkspaceAccess b q relation owner)"

text \<open>\<open>fresh\<close> is the answer of the bearer validator the gate put in the context, if it put one.\<close>

definition AuthorizeMintClass :: "base \<Rightarrow> request \<Rightarrow> core_error option option \<Rightarrow> core_error option" where
  "AuthorizeMintClass b q fresh =
     (case fresh of
        Some (Some e) \<Rightarrow> Some e
      | _ \<Rightarrow>
          (case rq_identity q of
             None \<Rightarrow> None
           | Some i \<Rightarrow>
               if id_method i = ''session'' then None
               else if id_method i = ''oauth2'' then
                 (if \<not> id_human i then Some Forbidden
                  else if \<not> HasGranularCapability (id_scopes i) then Some (InsufficientScope [])
                  else (case ba_platform b of
                          None \<Rightarrow> Some Forbidden
                        | Some known \<Rightarrow>
                            (case known (id_client i) of
                               None \<Rightarrow> Some AuthzUnavailable
                             | Some p \<Rightarrow> if p then None else Some Forbidden)))
               else Some Forbidden))"

datatype decision = DecisionAllowed | DecisionDenied string | DecisionUnavailable

definition ClassifyDecision :: "core_error option \<Rightarrow> decision" where
  "ClassifyDecision err =
     (case err of
        None \<Rightarrow> DecisionAllowed
      | Some e \<Rightarrow>
          (case e of
             InsufficientScope _ \<Rightarrow> DecisionDenied ''missing_oauth_scope''
           | AuthzUnavailable \<Rightarrow> DecisionUnavailable
           | Forbidden \<Rightarrow> DecisionDenied ''insufficient_permission''
           | _ \<Rightarrow> DecisionUnavailable))"

definition CanDecision :: "base \<Rightarrow> request \<Rightarrow> string \<Rightarrow> decision" where
  "CanDecision b q relation =
     (case callerWorkspace b q of
        (obj, Some e) \<Rightarrow> ClassifyDecision (Some e)
      | (obj, None) \<Rightarrow> ClassifyDecision (checkAuthz b q relation obj))"

definition Can :: "base \<Rightarrow> request \<Rightarrow> string \<Rightarrow> bool" where
  "Can b q relation \<longleftrightarrow> CanDecision b q relation = DecisionAllowed"

definition CanDecisionOn :: "base \<Rightarrow> request \<Rightarrow> string \<Rightarrow> string \<Rightarrow> decision" where
  "CanDecisionOn b q relation obj = ClassifyDecision (checkAuthz b q relation obj)"

definition RequireResourceInActingWorkspace :: "base \<Rightarrow> request \<Rightarrow> string \<Rightarrow> core_error option" where
  "RequireResourceInActingWorkspace b q owner =
     (if (if owner = [] then DefaultTenant else owner) \<noteq> WorkspaceOrDefault b q then Some NotFound else None)"

section \<open>Routing by id\<close>

fun owned_among :: "base \<Rightarrow> identity \<Rightarrow> string list \<Rightarrow> string list \<Rightarrow> core_error + string list" where
  "owned_among b i [] mine = Inr mine"
| "owned_among b i (w # ws) mine =
     (case requireMember b i w of
        None \<Rightarrow> if mine \<noteq> [] then Inl OwnerAmbiguous else owned_among b i ws (mine @ [w])
      | Some e \<Rightarrow> if is_forbidden e then owned_among b i ws mine else Inl e)"

definition pickOwner :: "base \<Rightarrow> resolver \<Rightarrow> identity \<Rightarrow> string list \<Rightarrow> bool \<Rightarrow> core_error + string" where
  "pickOwner b w i workspaces visibleOnly =
     (let ws = filter (\<lambda>t. t \<noteq> []) workspaces; (home, ok) = rv_tenant w i in
      if length ws = 1 \<and> \<not> visibleOnly then Inr (hd ws)
      else if ws = [] then Inr []
      else if ok \<and> home \<in> set ws then Inr home
      else rbind (owned_among b i ws [])
        (\<lambda>mine. if length mine = 1 then Inr (hd mine) else if visibleOnly then Inr [] else Inr (hd ws)))"

text \<open>\<open>owner\<close> reads the workspaces the resource is in, when the verb has such a read.\<close>

definition scopeByID ::
  "base \<Rightarrow> request \<Rightarrow> string \<Rightarrow> (core_error + string list) option \<Rightarrow> bool \<Rightarrow> core_error + request" where
  "scopeByID b q ownerID owner visibleOnly =
     (if ownerID \<noteq> [] then Inr (q\<lparr>rq_named := ownerID\<rparr>)
      else (case (rq_named q, ba_workspace b, owner, rq_identity q) of
              ([], Some w, Some read, Some i) \<Rightarrow>
                rbind read (\<lambda>workspaces. rbind (pickOwner b w i workspaces visibleOnly)
                  (\<lambda>t. Inr (if t = [] then q else q\<lparr>rq_named := t\<rparr>)))
            | _ \<Rightarrow> Inr q))"

definition ScopeByID :: "base \<Rightarrow> request \<Rightarrow> string \<Rightarrow> (core_error + string list) option \<Rightarrow> core_error + request" where
  "ScopeByID b q ownerID owner = scopeByID b q ownerID owner False"

definition ScopeByVisibleID :: "base \<Rightarrow> request \<Rightarrow> string \<Rightarrow> (core_error + string list) option \<Rightarrow> core_error + request" where
  "ScopeByVisibleID b q ownerID owner = scopeByID b q ownerID owner True"

section \<open>Decisions\<close>

text \<open>What a positive decision means, in terms of the scopes of the caller and the answer of the checker.\<close>

definition answer_of :: "checker \<Rightarrow> string \<Rightarrow> string \<Rightarrow> string \<Rightarrow> bool option" where
  "answer_of c relation =
     (case ck_fresh c of
        None \<Rightarrow> \<lambda>subject obj. ck_check c subject relation obj
      | Some fresh \<Rightarrow> \<lambda>subject obj. if relation \<in> set writeRelations then fresh subject relation obj
                                   else ck_check c subject relation obj)"

definition granted :: "base \<Rightarrow> request \<Rightarrow> string \<Rightarrow> string \<Rightarrow> bool" where
  "granted b q relation obj \<longleftrightarrow>
     obj \<noteq> WorkspaceObject [] \<and>
     (case rq_identity q of None \<Rightarrow> True | Some i \<Rightarrow> RequireCapability i relation = None) \<and>
     (case (ba_authz b, rq_identity q) of
        (None, _) \<Rightarrow> True
      | (Some c, None) \<Rightarrow> False
      | (Some c, Some i) \<Rightarrow> validFGAObject obj \<and> answer_of c relation (''user:'' @ id_subject i) obj = Some True)"

definition belongs :: "base \<Rightarrow> request \<Rightarrow> string \<Rightarrow> bool" where
  "belongs b q tenantID \<longleftrightarrow> (case ba_workspace b of None \<Rightarrow> False | Some w \<Rightarrow> rv_member w (caller q) tenantID = Member)"

lemma member_iff: "requireMember b (caller q) t = None \<longleftrightarrow> belongs b q t"
  by (simp add: requireMember_def belongs_def split: option.split membership.split)

lemma ask_iff:
  "ask chk q relation obj = None \<longleftrightarrow>
     (case rq_identity q of None \<Rightarrow> False
      | Some i \<Rightarrow> validFGAObject obj \<and> chk (''user:'' @ id_subject i) relation obj = Some True)"
  by (simp add: ask_def split: option.split)

lemma capability_iff:
  "checkCapability q relation = None \<longleftrightarrow> (case rq_identity q of None \<Rightarrow> True | Some i \<Rightarrow> RequireCapability i relation = None)"
  by (simp add: checkCapability_def split: option.split)

lemma check_iff:
  "checkAuthz b q relation obj = None \<longleftrightarrow>
     obj \<noteq> WorkspaceObject [] \<and> checkCapability q relation = None \<and>
     (case ba_authz b of None \<Rightarrow> True | Some c \<Rightarrow> ask (ck_check c) q relation obj = None)"
  by (simp add: checkAuthz_def split: option.split)

lemma fresh_iff:
  "checkAuthzFresh b q relation obj = None \<longleftrightarrow>
     obj \<noteq> WorkspaceObject [] \<and> checkCapability q relation = None \<and>
     (case ba_authz b of None \<Rightarrow> True
      | Some c \<Rightarrow> ask (case ck_fresh c of None \<Rightarrow> ck_check c | Some fresh \<Rightarrow> fresh) q relation obj = None)"
  by (simp add: checkAuthzFresh_def check_iff split: option.split)

lemma granted_iff:
  "granted b q relation obj \<longleftrightarrow>
     (if relation \<in> set writeRelations then checkAuthzFresh b q relation obj else checkAuthz b q relation obj) = None"
  unfolding granted_def check_iff fresh_iff capability_iff ask_iff answer_of_def
  by (simp add: check_iff fresh_iff capability_iff ask_iff split: option.split)

lemma recorded_err:
  "fst (authorizeAndRecord b q relation obj target resolveErr rd) = None \<longleftrightarrow>
     checkCapability q relation = None \<and> resolveErr = None \<and>
     (if relation \<in> set writeRelations then checkAuthzFresh b q relation obj else checkAuthz b q relation obj) = None"
  by (simp add: authorizeAndRecord_def Let_def split: option.split)

lemma decided_iff [simp]:
  "fst (authorizeAndRecord b q relation obj target resolveErr rd) = None \<longleftrightarrow> resolveErr = None \<and> granted b q relation obj"
proof -
  have "granted b q relation obj \<Longrightarrow> checkCapability q relation = None"
    by (simp add: granted_def capability_iff)
  then show ?thesis unfolding recorded_err granted_iff by auto
qed

lemma audited_iff [simp]:
  "fst (authorizeAndAudit b q relation obj target resolveErr) = None \<longleftrightarrow> resolveErr = None \<and> granted b q relation obj"
  by (simp add: authorizeAndAudit_def)

text \<open>One decision leaves at most one row, and which.\<close>

definition rows_of :: "base \<Rightarrow> request \<Rightarrow> string \<Rightarrow> string \<Rightarrow> string \<Rightarrow> core_error option \<Rightarrow> audit_row list" where
  "rows_of b q relation obj target err =
     (case err of
        None \<Rightarrow> if relation \<in> set writeRelations \<and> \<not> rq_deferred q then [emit q relation obj target None] else []
      | Some e \<Rightarrow> if auditsDenial relation then [emit q relation obj target (Some e)] else [])"

lemma audit_rows:
  "snd (authorizeAndAudit b q relation obj target resolveErr) =
     rows_of b q relation obj target (fst (authorizeAndAudit b q relation obj target resolveErr))"
  by (simp add: authorizeAndAudit_def authorizeAndRecord_def rows_of_def Let_def split: option.split)

lemma emit_fields [simp]:
  "au_resource (emit q relation obj target e) = obj" "au_target (emit q relation obj target e) = target"
  "au_relation (emit q relation obj target e) = relation" "au_allowed (emit q relation obj target e) \<longleftrightarrow> e = None"
  by (simp_all add: emit_def AttachOAuthProvenance_def Let_def split: option.split)

lemma unrecorded_rows:
  "snd (authorizeAndRecord b q relation obj target resolveErr False) =
     (if fst (authorizeAndRecord b q relation obj target resolveErr False) = None
      then rows_of b q relation obj target None else [])"
  by (simp add: authorizeAndRecord_def rows_of_def Let_def split: option.split)

text \<open>Which workspaces a request reaches.\<close>

definition reachable :: "base \<Rightarrow> request \<Rightarrow> string \<Rightarrow> string \<Rightarrow> bool" where
  "reachable b q relation owner \<longleftrightarrow>
     (case resolveWorkspace b q of
        Inl _ \<Rightarrow> False
      | Inr acting \<Rightarrow>
          if acting = [] then granted b q relation DefaultWorkspace
          else owner \<noteq> [] \<and> (rq_named q = [] \<or> owner = rq_named q) \<and> (owner = acting \<or> belongs b q owner) \<and>
               granted b q relation (WorkspaceObject owner))"

lemma resource_allowed:
  "(case resourceWorkspaceFor b q (resolveWorkspace b q) owner of (obj, e) \<Rightarrow> e = None \<and> granted b q relation obj)
   \<longleftrightarrow> reachable b q relation owner"
  by (auto simp: resourceWorkspaceFor_def reachable_def member_iff split: sum.split if_splits)

end
