(* ===== verification/Ownership.thy ===== *)
theory Ownership
  imports Bex_Prelude
begin

text \<open>
  Whose an App is: the workspace its labels name and the control plane that projected it
  (\<open>AppInOwnWorkspaceNamespace\<close> and \<open>preferOwnWorkspaceNamespace\<close> of \<open>backend/internal/core/base.go\<close>,
  \<open>ownedBy\<close>, \<open>indexManagedApps\<close> and the decisions of \<open>ReconcileOnce\<close> of
  \<open>backend/internal/store/reconciler.go\<close>).
\<close>

section \<open>Whose App it is\<close>

record cr =
  cr_id :: string
  cr_owner :: "string option"
  cr_tenant :: string
  cr_ns :: string
  cr_name :: string
  cr_uid :: string

definition DefaultControlPlaneIdentity :: string where
  "DefaultControlPlaneIdentity = ''production''"

definition ownedBy :: "string option \<Rightarrow> string \<Rightarrow> bool" where
  "ownedBy owner identity =
     (case owner of None \<Rightarrow> identity = DefaultControlPlaneIdentity | Some o' \<Rightarrow> o' = identity)"

definition AppInOwnWorkspaceNamespace :: "'a cr_scheme \<Rightarrow> bool" where
  "AppInOwnWorkspaceNamespace c \<longleftrightarrow> cr_tenant c = [] \<or> cr_ns c = cr_tenant c"

definition index_app :: "cr \<Rightarrow> (string \<Rightarrow> cr option) \<Rightarrow> string \<Rightarrow> cr option" where
  "index_app c byID =
     (if cr_id c = [] then byID
      else (case byID (cr_id c) of
              None \<Rightarrow> byID(cr_id c := Some c)
            | Some cur \<Rightarrow> byID(cr_id c := Some (if AppInOwnWorkspaceNamespace cur then cur else c))))"

definition indexManagedApps :: "cr list \<Rightarrow> string \<Rightarrow> cr option" where
  "indexManagedApps items = fold index_app items (\<lambda>_. None)"

text \<open>\<open>slices.SortStableFunc\<close> on a key of two values; \<open>sort_key\<close> is stable too.\<close>

definition preferOwnWorkspaceNamespace :: "'a cr_scheme list \<Rightarrow> 'a cr_scheme list" where
  "preferOwnWorkspaceNamespace items = sort_key (\<lambda>c. if AppInOwnWorkspaceNamespace c then 0 else (1 :: nat)) items"

lemma prefer_set [simp]: "set (preferOwnWorkspaceNamespace items) = set items"
  by (simp add: preferOwnWorkspaceNamespace_def)

lemma prefer_filter: "filter P (preferOwnWorkspaceNamespace items) = preferOwnWorkspaceNamespace (filter P items)"
  by (simp add: preferOwnWorkspaceNamespace_def filter_sort)

lemma prefer_empty [simp]: "preferOwnWorkspaceNamespace items = [] \<longleftrightarrow> items = []"
  using set_empty [of "preferOwnWorkspaceNamespace items"] by simp

text \<open>What \<open>ReconcileOnce\<close> does about one desired row, and about one App of the index when the rows are done.\<close>

datatype row_verdict = SettlePending | CreateApp | RefuseForeign | UpdateFailed | Converged cr

definition row_action :: "string \<Rightarrow> (string \<Rightarrow> cr option) \<Rightarrow> string \<Rightarrow> bool \<Rightarrow> bool \<Rightarrow> row_verdict" where
  "row_action identity byID rowID creationPending updates =
     (if creationPending then SettlePending
      else (case byID rowID of
              None \<Rightarrow> CreateApp
            | Some c \<Rightarrow>
                (case cr_owner c of
                   Some o' \<Rightarrow> if o' \<noteq> [] \<and> o' \<noteq> identity then RefuseForeign
                              else if updates then Converged (c\<lparr>cr_owner := Some identity\<rparr>) else UpdateFailed
                 | None \<Rightarrow> if updates then Converged (c\<lparr>cr_owner := Some identity\<rparr>) else UpdateFailed)))"

definition pruned :: "string \<Rightarrow> string list \<Rightarrow> (string \<Rightarrow> unit got) \<Rightarrow> (string \<Rightarrow> cr option) \<Rightarrow> string \<Rightarrow> cr option" where
  "pruned identity seen getApp byID i =
     (case byID i of
        None \<Rightarrow> None
      | Some c \<Rightarrow>
          if i \<in> set seen \<or> \<not> ownedBy (cr_owner c) identity then None
          else (case getApp i of GotNone \<Rightarrow> Some c | _ \<Rightarrow> None))"

lemma index_app_in: "index_app c m i = Some x \<Longrightarrow> x = c \<or> m i = Some x"
  by (auto simp: index_app_def split: option.splits if_splits)

lemma indexed_in: "fold index_app items m i = Some x \<Longrightarrow> x \<in> set items \<or> m i = Some x"
proof (induction items arbitrary: m)
  case (Cons c items)
  from Cons.IH [of "index_app c m"] Cons.prems index_app_in [of c m i x] show ?case by auto
qed simp

lemma index_app_id: "(\<forall>x. m i = Some x \<longrightarrow> cr_id x = i) \<Longrightarrow> index_app c m i = Some x \<Longrightarrow> cr_id x = i"
  by (auto simp: index_app_def split: option.splits if_splits)

lemma indexed_id: "\<forall>x. m i = Some x \<longrightarrow> cr_id x = i \<Longrightarrow> fold index_app items m i = Some x \<Longrightarrow> cr_id x = i"
proof (induction items arbitrary: m)
  case (Cons c items)
  have "\<forall>y. index_app c m i = Some y \<longrightarrow> cr_id y = i" using index_app_id [of m i c] Cons.prems(1) by blast
  then show ?case using Cons.IH [of "index_app c m"] Cons.prems(2) by simp
qed simp

lemma index_app_keeps_home:
  "m i = Some x \<Longrightarrow> AppInOwnWorkspaceNamespace x \<Longrightarrow> index_app c m i = Some x"
  by (cases "cr_id c = i") (auto simp: index_app_def split: option.split)

lemma index_keeps_home:
  "m i = Some x \<Longrightarrow> AppInOwnWorkspaceNamespace x \<Longrightarrow> fold index_app items m i = Some x"
proof (induction items arbitrary: m)
  case (Cons c items)
  from Cons.IH [of "index_app c m"] index_app_keeps_home [of m i x c] Cons.prems show ?case by simp
qed simp

lemma index_app_home:
  "cr_id c = i \<Longrightarrow> i \<noteq> [] \<Longrightarrow> AppInOwnWorkspaceNamespace c \<Longrightarrow>
   \<exists>x. index_app c m i = Some x \<and> AppInOwnWorkspaceNamespace x"
  by (auto simp: index_app_def split: option.split)

lemma indexed_home:
  "c \<in> set items \<Longrightarrow> cr_id c = i \<Longrightarrow> i \<noteq> [] \<Longrightarrow> AppInOwnWorkspaceNamespace c \<Longrightarrow>
   \<exists>x. fold index_app items m i = Some x \<and> AppInOwnWorkspaceNamespace x"
proof (induction items arbitrary: m)
  case (Cons d items)
  show ?case
  proof (cases "c = d")
    case True
    with index_app_home [of d i m] Cons.prems obtain x where "index_app d m i = Some x" "AppInOwnWorkspaceNamespace x" by auto
    with index_keeps_home [of "index_app d m" i x items] show ?thesis by auto
  next
    case False
    with Cons show ?thesis by simp
  qed
qed simp

section \<open>Properties\<close>

text \<open>A control plane keeps its hands off what is not its own. The App of another control plane is neither
  converged nor pruned; a prune hits only an App of its own, or one that carries no label if it is the
  production one, whose row was neither listed nor found when asked for again; and of two Apps with one id
  the one in its own workspace is the one that counts.
\<close>

theorem prune_hits_own_orphans:
  assumes "pruned identity seen getApp (indexManagedApps items) i = Some c"
  shows "c \<in> set items \<and> cr_id c = i \<and> i \<notin> set seen \<and> getApp i = GotNone \<and>
         (cr_owner c = Some identity \<or> (cr_owner c = None \<and> identity = DefaultControlPlaneIdentity)) \<and>
         (AppInOwnWorkspaceNamespace c \<or> (i = [] \<or> \<not> list_ex (\<lambda>x. cr_id x = i \<and> AppInOwnWorkspaceNamespace x) items))"
proof -
  from assms have idx: "indexManagedApps items i = Some c" and own: "ownedBy (cr_owner c) identity" and
    "i \<notin> set seen" "getApp i = GotNone"
    by (auto simp: pruned_def split: option.splits if_splits got.splits)
  moreover have "c \<in> set items" using indexed_in [of items "\<lambda>_. None" i c] idx by (simp add: indexManagedApps_def)
  moreover have "cr_id c = i" using indexed_id [of "\<lambda>_. None" i items c] idx by (simp add: indexManagedApps_def)
  moreover have "AppInOwnWorkspaceNamespace c" if "x \<in> set items" "cr_id x = i" "i \<noteq> []" "AppInOwnWorkspaceNamespace x" for x
    using indexed_home [OF that, of "\<lambda>_. None"] idx by (simp add: indexManagedApps_def)
  ultimately show ?thesis by (auto simp: ownedBy_def list_ex_iff split: option.splits)
qed

lemma foreign_app_refused:
  "byID i = Some c \<Longrightarrow> cr_owner c = Some o' \<Longrightarrow> o' \<noteq> [] \<Longrightarrow> o' \<noteq> identity \<Longrightarrow>
     row_action identity byID i False updates = RefuseForeign \<and> pruned identity seen getApp byID i = None"
  by (simp add: row_action_def pruned_def ownedBy_def)

definition ex_orphan :: cr where
  "ex_orphan = \<lparr>cr_id = ''a'', cr_owner = Some ''dev-1'', cr_tenant = ''t'', cr_ns = ''t'', cr_name = ''x'', cr_uid = ''u''\<rparr>"

theorem prune_hits_own_orphans_witness:
  "pruned ''dev-1'' [] (\<lambda>_. GotNone) (indexManagedApps [ex_orphan]) ''a'' = Some ex_orphan \<and> cr_owner ex_orphan = Some ''dev-1''"
proof -
  have p: "pruned ''dev-1'' [] (\<lambda>_. GotNone) (indexManagedApps [ex_orphan]) ''a'' = Some ex_orphan" by code_simp
  from prune_hits_own_orphans [OF p] p show ?thesis by (auto simp: DefaultControlPlaneIdentity_def)
qed

end
