(* ===== verification/AppLookup.thy ===== *)
theory AppLookup
  imports Access Ownership
begin

text \<open>
  From the name in a request to the resource it may act on (\<open>backend/internal/core/base.go\<close>,
  \<open>build_source.go\<close>): \<open>AuthorizeApp\<close> and its three tiers of names, \<open>GetApp\<close>, and the datastore seam.

  The cluster is what its answers are: a list of Apps for each label selector the code uses, an App for each
  namespace and name, or an error. The validators of apimachinery are the record \<open>validators\<close>: what may be
  a label value, a path segment and a set of tenant ids. The answers the code caches within one
  request (the access to a workspace already asked about) are asked for again here.
\<close>

section \<open>Apps and their names\<close>

record capp = cr +
  ap_service :: string
  ap_display :: string
  ap_build :: bool
  ap_deleting :: bool

datatype app_query =
    ByAppID string | InWorkspace string string | OfTenants "string list" | AllApps
  | ByServiceName string | ByServiceNameIn string string string

record cluster =
  cl_list :: "app_query \<Rightarrow> capp list option"
  cl_get :: "string \<Rightarrow> string \<Rightarrow> capp got"

record validators =
  va_label :: "string \<Rightarrow> bool"
  va_segment :: "string \<Rightarrow> bool"
  va_tenants :: "string list \<Rightarrow> bool"

definition ServiceTarget :: "string \<Rightarrow> string" where
  "ServiceTarget name = ''service:'' @ name"

definition TenantNamespace :: "base \<Rightarrow> string \<Rightarrow> string" where
  "TenantNamespace b tenantID = (if tenantID \<noteq> [] \<and> tenantID \<noteq> DefaultTenant then tenantID else ba_namespace b)"

definition AppNamespace :: "base \<Rightarrow> string \<Rightarrow> string" where
  "AppNamespace b tenantID = TenantNamespace b tenantID"

definition CRName :: "string \<Rightarrow> string \<Rightarrow> string" where
  "CRName tenant name = tenant @ ''-'' @ name"

definition appCandidateNames :: "string \<Rightarrow> string \<Rightarrow> string list" where
  "appCandidateNames acting name = (if acting = [] then [name] else [CRName acting name, name])"

definition AppPublicID :: "capp \<Rightarrow> string" where
  "AppPublicID a = (if cr_id a \<noteq> [] then cr_id a else cr_name a)"

definition AppPublicName :: "capp \<Rightarrow> string" where
  "AppPublicName a = (if ap_service a \<noteq> [] then ap_service a else cr_name a)"

definition DisplayedAppName :: "capp \<Rightarrow> string" where
  "DisplayedAppName a = (if ap_display a \<noteq> [] then ap_display a else AppPublicName a)"

definition canonicalAppTarget :: "capp \<Rightarrow> string" where
  "canonicalAppTarget a = ServiceTarget (AppPublicID a)"

definition NotFoundIfDeleting :: "capp \<Rightarrow> core_error option" where
  "NotFoundIfDeleting a = (if ap_deleting a then Some NotFound else None)"

definition serviceAppsFor :: "request \<Rightarrow> capp list \<Rightarrow> capp list" where
  "serviceAppsFor q items = (if rq_builds q then items else filter (\<lambda>a. \<not> ap_build a) items)"

definition notServiceAppFor :: "request \<Rightarrow> capp got \<Rightarrow> capp got" where
  "notServiceAppFor q g = (case g of Got a \<Rightarrow> if ap_build a \<and> \<not> rq_builds q then GotNone else Got a | _ \<Rightarrow> g)"

section \<open>By the name a service is shown as\<close>

fun shown_matches :: "base \<Rightarrow> request \<Rightarrow> bool \<Rightarrow> string \<Rightarrow> string list \<Rightarrow> capp list \<Rightarrow> core_error + capp list" where
  "shown_matches b q ev acting seen [] = Inr []"
| "shown_matches b q ev acting seen (a # as) =
     (let tenant = cr_tenant a; key = tenant @ ''/'' @ AppPublicID a;
          take_it = (\<lambda>_. if key \<in> set seen then shown_matches b q ev acting seen as
                         else rbind (shown_matches b q ev acting (key # seen) as) (\<lambda>ms. Inr (a # ms)))
      in if ev \<and> tenant \<noteq> acting then
           (if tenant = [] then shown_matches b q ev acting seen as
            else (case checkWorkspaceAccess b q RelCanView tenant of
                    None \<Rightarrow> take_it ()
                  | Some e \<Rightarrow> if is_forbidden e then shown_matches b q ev acting seen as else Inl e))
         else take_it ())"

text \<open>The selector of the list; \<open>None\<close> when no workspace can match.\<close>

definition shown_query :: "validators \<Rightarrow> base \<Rightarrow> request \<Rightarrow> bool \<Rightarrow> string \<Rightarrow> core_error + app_query option" where
  "shown_query va b q ev acting =
     (if \<not> ev then Inr (Some (InWorkspace (AppNamespace b acting) acting))
      else (case ba_memberIDs b of
              None \<Rightarrow> Inr (Some AllApps)
            | Some ids \<Rightarrow>
                (case ids (caller q) of
                   None \<Rightarrow> Inl AuthzUnavailable
                 | Some ts \<Rightarrow>
                     if ts = [] then Inr None
                     else if va_tenants va ts then Inr (Some (OfTenants ts)) else Inl ApiError)))"

text \<open>A caller who names no workspace sees the services of all of theirs.\<close>

definition everywhere :: "base \<Rightarrow> request \<Rightarrow> bool" where
  "everywhere b q \<longleftrightarrow> rq_named q = [] \<and> rq_identity q \<noteq> None \<and> ba_workspace b \<noteq> None"

definition appByDisplayedName ::
  "validators \<Rightarrow> base \<Rightarrow> cluster \<Rightarrow> request \<Rightarrow> string \<Rightarrow> string \<Rightarrow> core_error + capp option" where
  "appByDisplayedName va b cl q acting name =
     (if acting = [] \<or> name = [] then Inr None
      else
        rbind (shown_query va b q (everywhere b q) acting)
          (\<lambda>sel. case sel of
             None \<Rightarrow> Inr None
           | Some sel \<Rightarrow>
               (case cl_list cl sel of
                  None \<Rightarrow> Inl ApiError
                | Some items \<Rightarrow>
                    rbind (shown_matches b q (everywhere b q) acting []
                             (preferOwnWorkspaceNamespace (filter (\<lambda>a. DisplayedAppName a = name) (serviceAppsFor q items))))
                      (\<lambda>ms. case ms of [] \<Rightarrow> Inr None | [a] \<Rightarrow> Inr (Some a) | _ \<Rightarrow> Inl (NameAmbiguous (map AppPublicID ms))))))"

text \<open>The services of the same name in other workspaces the caller can view.\<close>

fun other_ids :: "base \<Rightarrow> request \<Rightarrow> capp \<Rightarrow> capp list \<Rightarrow> core_error + string list" where
  "other_ids b q chosen [] = Inr []"
| "other_ids b q chosen (a # as) =
     (if (cr_ns a = cr_ns chosen \<and> cr_name a = cr_name chosen) \<or> cr_tenant a = [] \<or> cr_tenant a = cr_tenant chosen
      then other_ids b q chosen as
      else (case checkWorkspaceAccess b q RelCanView (cr_tenant a) of
              None \<Rightarrow> rbind (other_ids b q chosen as) (\<lambda>ids. Inr (AppPublicID a # ids))
            | Some e \<Rightarrow> if is_forbidden e then other_ids b q chosen as else Inl e))"

definition refuseAmbiguousName ::
  "validators \<Rightarrow> base \<Rightarrow> cluster \<Rightarrow> request \<Rightarrow> string \<Rightarrow> capp \<Rightarrow> core_error option" where
  "refuseAmbiguousName va b cl q name chosen =
     (if rq_named q \<noteq> [] \<or> ba_workspace b = None \<or> rq_identity q = None \<or> \<not> va_label va name then None
      else (case cl_list cl (ByServiceName name) of
              None \<Rightarrow> Some ApiError
            | Some items \<Rightarrow>
                (case other_ids b q chosen (serviceAppsFor q items) of
                   Inl e \<Rightarrow> Some e
                 | Inr ids \<Rightarrow> if ids = [] then None else Some (NameAmbiguous (AppPublicID chosen # ids)))))"

section \<open>AuthorizeApp\<close>

definition authorize_app ::
  "base \<Rightarrow> request \<Rightarrow> core_error + string \<Rightarrow> string \<Rightarrow> capp \<Rightarrow> bool \<Rightarrow> core_error option \<times> audit_row list" where
  "authorize_app b q r relation a recordDenial =
     (case resourceWorkspaceFor b q r (cr_tenant a) of
        (obj, e) \<Rightarrow> authorizeAndRecord b q relation obj (canonicalAppTarget a) e recordDenial)"

fun try_ids :: "base \<Rightarrow> request \<Rightarrow> core_error + string \<Rightarrow> string \<Rightarrow> capp list \<Rightarrow> core_error \<Rightarrow> capp verdict_rows" where
  "try_ids b q r relation [] lastErr = (Inl lastErr, [])"
| "try_ids b q r relation (a # as) lastErr =
     (case authorize_app b q r relation a True of
        (None, w) \<Rightarrow> (Inr a, w)
      | (Some e, w) \<Rightarrow> (case try_ids b q r relation as e of (res, w') \<Rightarrow> (res, w @ w')))"

text \<open>The answer of the first candidate name that is an App, if one is.\<close>

fun try_names ::
  "validators \<Rightarrow> base \<Rightarrow> cluster \<Rightarrow> request \<Rightarrow> core_error + string \<Rightarrow> string \<Rightarrow> string \<Rightarrow> string list \<Rightarrow> capp verdict_rows option" where
  "try_names va b cl q r relation name [] = None"
| "try_names va b cl q r relation name (n # ns) =
     (if \<not> va_segment va n then try_names va b cl q r relation name ns
      else (case notServiceAppFor q (cl_get cl (AppNamespace b (acting_of r)) n) of
              GotErr \<Rightarrow> Some (Inl ApiError, [])
            | GotNone \<Rightarrow> try_names va b cl q r relation name ns
            | Got a \<Rightarrow>
                Some (case authorize_app b q r relation a True of
                        (Some e, w) \<Rightarrow> (Inl e, w)
                      | (None, w) \<Rightarrow>
                          (case refuseAmbiguousName va b cl q name a of Some e \<Rightarrow> (Inl e, w) | None \<Rightarrow> (Inr a, w)))))"

definition maxFallbackCandidateAudits :: nat where "maxFallbackCandidateAudits = 3"

datatype sweep_end = SweptTo "core_error + capp" | SweptOut nat "core_error option"

fun sweep ::
  "validators \<Rightarrow> base \<Rightarrow> cluster \<Rightarrow> request \<Rightarrow> core_error + string \<Rightarrow> string \<Rightarrow> string \<Rightarrow> capp list \<Rightarrow> nat \<Rightarrow> core_error option \<Rightarrow>
     sweep_end \<times> audit_row list" where
  "sweep va b cl q r relation name [] denied lastErr = (SweptOut denied lastErr, [])"
| "sweep va b cl q r relation name (a # as) denied lastErr =
     (case authorize_app b q r relation a (denied < maxFallbackCandidateAudits) of
        (None, w) \<Rightarrow>
          (SweptTo (case refuseAmbiguousName va b cl q name a of Some e \<Rightarrow> Inl e | None \<Rightarrow> Inr a), w)
      | (Some e, w) \<Rightarrow>
          (case sweep va b cl q r relation name as (denied + 1) (Some e) of (end', w') \<Rightarrow> (end', w @ w')))"

text \<open>A name that is nobody's is refused like one that is: first the caller, then the name.\<close>

definition absent :: "core_error option \<times> audit_row list \<Rightarrow> capp verdict_rows" where
  "absent d = (case d of (Some e, w) \<Rightarrow> (Inl e, w) | (None, w) \<Rightarrow> (Inl NotFound, w))"

definition also_rows :: "audit_row list \<Rightarrow> 'a verdict_rows \<Rightarrow> 'a verdict_rows" where
  "also_rows w d = (fst d, w @ snd d)"

definition absent_here :: "base \<Rightarrow> request \<Rightarrow> string \<Rightarrow> string \<Rightarrow> capp verdict_rows" where
  "absent_here b q relation name =
     (case callerWorkspace b q of (obj, e) \<Rightarrow> absent (authorizeAndAudit b q relation obj (ServiceTarget name) e))"

definition swept_out :: "base \<Rightarrow> request \<Rightarrow> string \<Rightarrow> string \<Rightarrow> string \<Rightarrow> nat \<Rightarrow> core_error \<Rightarrow> capp verdict_rows" where
  "swept_out b q acting relation name denied e =
     also_rows
       (if maxFallbackCandidateAudits < denied \<and> auditsDenial relation
        then [emit q relation (WorkspaceObject acting) (ServiceTarget name) (Some e)] else [])
       (if \<not> is_forbidden e then (Inl e, [])
        else absent (authorizeAndAudit b q relation (WorkspaceObject acting) (ServiceTarget name) None))"

definition by_service_name ::
  "validators \<Rightarrow> base \<Rightarrow> cluster \<Rightarrow> request \<Rightarrow> core_error + string \<Rightarrow> string \<Rightarrow> string \<Rightarrow> capp verdict_rows" where
  "by_service_name va b cl q r relation name =
     (let acting = acting_of r;
          sel = (if rq_named q \<noteq> [] then ByServiceNameIn name (AppNamespace b acting) acting else ByServiceName name)
      in (case cl_list cl sel of
            None \<Rightarrow> (Inl ApiError, [])
          | Some items \<Rightarrow>
              (case sweep va b cl q r relation name (serviceAppsFor q items) 0 None of
                 (SweptTo res, w) \<Rightarrow> (res, w)
               | (SweptOut denied (Some e), w) \<Rightarrow> also_rows w (swept_out b q acting relation name denied e)
               | (SweptOut denied None, w) \<Rightarrow> also_rows w (absent_here b q relation name))))"

definition shown_answer :: "base \<Rightarrow> request \<Rightarrow> core_error + string \<Rightarrow> string \<Rightarrow> string \<Rightarrow> capp \<Rightarrow> capp verdict_rows" where
  "shown_answer b q r relation name shown =
     (case authorize_app b q r relation shown True of
        (None, w) \<Rightarrow> (Inr shown, w)
      | (Some e, w) \<Rightarrow>
          if rq_named q = [] \<and> cr_tenant shown \<noteq> acting_of r \<and> is_forbidden e
          then also_rows w (absent (authorizeAndAudit b q relation (WorkspaceObject (acting_of r)) (ServiceTarget name) None))
          else (Inl e, w))"

definition by_name ::
  "validators \<Rightarrow> base \<Rightarrow> cluster \<Rightarrow> request \<Rightarrow> core_error + string \<Rightarrow> string \<Rightarrow> string \<Rightarrow> capp verdict_rows" where
  "by_name va b cl q r relation name =
     (case appByDisplayedName va b cl q (acting_of r) name of
        Inl e \<Rightarrow> (Inl e, [])
      | Inr (Some shown) \<Rightarrow> shown_answer b q r relation name shown
      | Inr None \<Rightarrow>
          (case try_names va b cl q r relation name (appCandidateNames (acting_of r) name) of
             Some res \<Rightarrow> res
           | None \<Rightarrow>
               if acting_of r \<noteq> [] \<and> va_label va name then by_service_name va b cl q r relation name
               else absent_here b q relation name))"

definition AuthorizeApp ::
  "validators \<Rightarrow> base \<Rightarrow> cluster \<Rightarrow> request \<Rightarrow> string \<Rightarrow> string \<Rightarrow> capp verdict_rows" where
  "AuthorizeApp va b cl q relation name =
     (let r = resolveWorkspace b q in
      (case (case r of
               Inl e \<Rightarrow> authorizeAndAudit b q relation (WorkspaceObject (rq_named q)) (ServiceTarget name) (Some e)
             | Inr _ \<Rightarrow> (None, [])) of
         (Some e, w) \<Rightarrow> (Inl e, w)
       | (None, w) \<Rightarrow>
           also_rows w
             (case (if va_label va name then cl_list cl (ByAppID name) else Some []) of
                None \<Rightarrow> (Inl ApiError, [])
              | Some byID \<Rightarrow>
                  let items = preferOwnWorkspaceNamespace (serviceAppsFor q byID) in
                  if items \<noteq> [] then try_ids b q r relation items NotFound
                  else by_name va b cl q r relation name)))"

definition AuthorizeLiveApp ::
  "validators \<Rightarrow> base \<Rightarrow> cluster \<Rightarrow> request \<Rightarrow> string \<Rightarrow> string \<Rightarrow> capp verdict_rows" where
  "AuthorizeLiveApp va b cl q relation name =
     (case AuthorizeApp va b cl q relation name of
        (Inl e, w) \<Rightarrow> (Inl e, w)
      | (Inr a, w) \<Rightarrow> (case NotFoundIfDeleting a of Some e \<Rightarrow> (Inl e, w) | None \<Rightarrow> (Inr a, w)))"

section \<open>GetApp\<close>

fun try_labeled :: "base \<Rightarrow> request \<Rightarrow> string \<Rightarrow> capp list \<Rightarrow> core_error \<Rightarrow> core_error + capp" where
  "try_labeled b q relation [] lastErr = Inl lastErr"
| "try_labeled b q relation (a # as) lastErr =
     (case AuthorizeLabeled b q relation (cr_tenant a) of None \<Rightarrow> Inr a | Some e \<Rightarrow> try_labeled b q relation as e)"

definition labeled_unique ::
  "validators \<Rightarrow> base \<Rightarrow> cluster \<Rightarrow> request \<Rightarrow> string \<Rightarrow> capp \<Rightarrow> core_error + capp" where
  "labeled_unique va b cl q name a =
     (case refuseAmbiguousName va b cl q name a of Some e \<Rightarrow> Inl e | None \<Rightarrow> Inr a)"

fun get_names ::
  "validators \<Rightarrow> base \<Rightarrow> cluster \<Rightarrow> request \<Rightarrow> string \<Rightarrow> string \<Rightarrow> string \<Rightarrow> string list \<Rightarrow> (core_error + capp) option" where
  "get_names va b cl q acting relation name [] = None"
| "get_names va b cl q acting relation name (n # ns) =
     (if \<not> va_segment va n then get_names va b cl q acting relation name ns
      else (case notServiceAppFor q (cl_get cl (AppNamespace b acting) n) of
              GotErr \<Rightarrow> Some (Inl ApiError)
            | GotNone \<Rightarrow> get_names va b cl q acting relation name ns
            | Got a \<Rightarrow>
                Some (case AuthorizeLabeled b q relation (cr_tenant a) of
                        Some e \<Rightarrow> Inl e
                      | None \<Rightarrow> labeled_unique va b cl q name a)))"

fun sweep_labeled ::
  "validators \<Rightarrow> base \<Rightarrow> cluster \<Rightarrow> request \<Rightarrow> string \<Rightarrow> string \<Rightarrow> capp list \<Rightarrow> core_error \<Rightarrow> core_error + capp" where
  "sweep_labeled va b cl q relation name [] lastErr = Inl (if is_forbidden lastErr then NotFound else lastErr)"
| "sweep_labeled va b cl q relation name (a # as) lastErr =
     (case AuthorizeLabeled b q relation (cr_tenant a) of
        None \<Rightarrow> labeled_unique va b cl q name a
      | Some e \<Rightarrow> sweep_labeled va b cl q relation name as e)"

definition get_by_name ::
  "validators \<Rightarrow> base \<Rightarrow> cluster \<Rightarrow> request \<Rightarrow> string \<Rightarrow> string \<Rightarrow> string \<Rightarrow> core_error + capp" where
  "get_by_name va b cl q acting relation name =
     rbind (appByDisplayedName va b cl q acting name)
       (\<lambda>found. case found of
          Some shown \<Rightarrow>
            (case AuthorizeLabeled b q relation (cr_tenant shown) of
               None \<Rightarrow> Inr shown
             | Some e \<Rightarrow> Inl (if rq_named q = [] \<and> cr_tenant shown \<noteq> acting \<and> is_forbidden e then NotFound else e))
        | None \<Rightarrow>
            (case get_names va b cl q acting relation name (appCandidateNames acting name) of
               Some res \<Rightarrow> res
             | None \<Rightarrow>
                 if acting = [] \<or> \<not> va_label va name then Inl NotFound
                 else (case cl_list cl (if rq_named q \<noteq> [] then ByServiceNameIn name (AppNamespace b acting) acting
                                        else ByServiceName name) of
                         None \<Rightarrow> Inl ApiError
                       | Some items \<Rightarrow> sweep_labeled va b cl q relation name (serviceAppsFor q items) NotFound)))"

definition GetApp :: "validators \<Rightarrow> base \<Rightarrow> cluster \<Rightarrow> request \<Rightarrow> string \<Rightarrow> string \<Rightarrow> core_error + capp" where
  "GetApp va b cl q0 relation name =
     (case resolveWorkspaceMemo b q0 of
        (q, r) \<Rightarrow>
          rbind r (\<lambda>acting.
            (case (if va_label va name then cl_list cl (ByAppID name) else Some []) of
               None \<Rightarrow> Inl ApiError
             | Some byID \<Rightarrow>
                 let items = preferOwnWorkspaceNamespace (serviceAppsFor q byID) in
                 if items \<noteq> [] then try_labeled b q relation items NotFound
                 else get_by_name va b cl q acting relation name)))"

text \<open>The namespace of an App known by its object name.\<close>

fun namespace_of :: "string \<Rightarrow> capp list \<Rightarrow> string \<Rightarrow> string" where
  "namespace_of app [] found = found"
| "namespace_of app (a # as) found =
     (if cr_name a \<noteq> app then namespace_of app as found
      else if AppInOwnWorkspaceNamespace a then cr_ns a
      else namespace_of app as (if found = [] then cr_ns a else found))"

definition appNamespaceByName :: "cluster \<Rightarrow> request \<Rightarrow> string \<Rightarrow> core_error + string" where
  "appNamespaceByName cl q app =
     (case cl_list cl AllApps of
        None \<Rightarrow> Inl ApiError
      | Some items \<Rightarrow> Inr (namespace_of app (serviceAppsFor q items) []))"

definition AppNamespaceByName :: "base \<Rightarrow> cluster \<Rightarrow> request \<Rightarrow> string \<Rightarrow> string" where
  "AppNamespaceByName b cl q app =
     (case appNamespaceByName cl q app of Inl _ \<Rightarrow> ba_namespace b | Inr ns \<Rightarrow> if ns = [] then ba_namespace b else ns)"

definition BuildSourceOrNotFound :: "capp \<Rightarrow> core_error option" where
  "BuildSourceOrNotFound a = (if \<not> ap_build a then Some NotFound else NotFoundIfDeleting a)"

definition BuildSourceScope ::
  "validators \<Rightarrow> base \<Rightarrow> cluster \<Rightarrow> request \<Rightarrow> string \<Rightarrow> request \<times> core_error option" where
  "BuildSourceScope va b cl q i =
     (case resolveWorkspaceMemo b (q\<lparr>rq_builds := True\<rparr>) of
        (q1, Inl e) \<Rightarrow> (q1, Some e)
      | (q1, Inr acting) \<Rightarrow>
          (case GetApp va b cl q1 RelCanView i of
             Inl e \<Rightarrow> (q1, Some e)
           | Inr a \<Rightarrow> (q1, BuildSourceOrNotFound a)))"

section \<open>Access\<close>

lemma also_rows_fst [simp]: "fst (also_rows w d) = fst d" "snd (also_rows w d) = w @ snd d"
  by (simp_all add: also_rows_def)

lemma authorize_app_iff:
  "fst (authorize_app b q (resolveWorkspace b q) relation a rd) = None \<longleftrightarrow> reachable b q relation (cr_tenant a)"
  using resource_allowed [where b = b and q = q and owner = "cr_tenant a" and relation = relation]
  by (simp add: authorize_app_def split: prod.splits)

lemma try_ids_fst:
  "fst (try_ids b q r relation (a # as) e) =
     (case fst (authorize_app b q r relation a True) of None \<Rightarrow> Inr a | Some e \<Rightarrow> fst (try_ids b q r relation as e))"
  by (simp split: prod.split option.split)

lemma sweep_fst:
  "fst (sweep va b cl q r relation name (a # as) denied e) =
     (case fst (authorize_app b q r relation a (denied < maxFallbackCandidateAudits)) of
        None \<Rightarrow> SweptTo (case refuseAmbiguousName va b cl q name a of Some e \<Rightarrow> Inl e | None \<Rightarrow> Inr a)
      | Some e \<Rightarrow> fst (sweep va b cl q r relation name as (denied + 1) (Some e)))"
  by (simp split: prod.split option.split)

lemma shown_answer_fst:
  "fst (shown_answer b q r relation name shown) =
     (case fst (authorize_app b q r relation shown True) of
        None \<Rightarrow> Inr shown
      | Some e \<Rightarrow>
          if rq_named q = [] \<and> cr_tenant shown \<noteq> acting_of r \<and> is_forbidden e
          then fst (absent (authorizeAndAudit b q relation (WorkspaceObject (acting_of r)) (ServiceTarget name) None))
          else Inl e)"
  by (auto simp: shown_answer_def split: prod.split option.split)

lemma try_names_app:
  "try_names va b cl q r relation name (n # ns) = Some res \<Longrightarrow>
     (va_segment va n \<and> (\<exists>a. notServiceAppFor q (cl_get cl (AppNamespace b (acting_of r)) n) = Got a \<and>
        fst res = (case fst (authorize_app b q r relation a True) of
                     Some e \<Rightarrow> Inl e
                   | None \<Rightarrow> (case refuseAmbiguousName va b cl q name a of Some e \<Rightarrow> Inl e | None \<Rightarrow> Inr a)))) \<or>
     fst res = Inl ApiError \<or> try_names va b cl q r relation name ns = Some res"
  by (auto split: if_splits got.splits prod.splits option.splits)

lemma absent_refuses: "fst (absent d) \<noteq> Inr a"
  by (simp add: absent_def split: prod.split option.split)

lemma absent_here_refuses: "fst (absent_here b q relation name) \<noteq> Inr a"
  using absent_refuses by (simp add: absent_here_def split: prod.split)

lemma swept_out_refuses: "fst (swept_out b q acting relation name denied e) \<noteq> Inr a"
  using absent_refuses by (simp add: swept_out_def)

lemma try_ids_held:
  "fst (try_ids b q (resolveWorkspace b q) relation as e) = Inr a \<Longrightarrow> a \<in> set as \<and> reachable b q relation (cr_tenant a)"
proof (induction as arbitrary: e)
  case (Cons c as)
  show ?case
  proof (cases "fst (authorize_app b q (resolveWorkspace b q) relation c True)")
    case None
    with Cons.prems authorize_app_iff show ?thesis unfolding try_ids_fst by auto
  next
    case (Some e')
    with Cons.prems have "fst (try_ids b q (resolveWorkspace b q) relation as e') = Inr a" unfolding try_ids_fst by simp
    from Cons.IH [OF this] show ?thesis by simp
  qed
qed simp

lemma own_app: "notServiceAppFor q g = Got a \<Longrightarrow> g = Got a"
  by (auto simp: notServiceAppFor_def split: got.splits if_splits)

lemma try_names_held:
  assumes "try_names va b cl q (resolveWorkspace b q) relation name ns = Some res" and "fst res = Inr a"
  shows "reachable b q relation (cr_tenant a) \<and>
     (\<exists>n\<in>set ns. cl_get cl (AppNamespace b (acting_of (resolveWorkspace b q))) n = Got a)"
  using assms
proof (induction ns)
  case (Cons n ns)
  from try_names_app [OF Cons.prems(1)] Cons.prems(2) consider
      c where "notServiceAppFor q (cl_get cl (AppNamespace b (acting_of (resolveWorkspace b q))) n) = Got c"
        "fst (authorize_app b q (resolveWorkspace b q) relation c True) = None" "c = a"
    | "try_names va b cl q (resolveWorkspace b q) relation name ns = Some res"
    by (fastforce split: option.splits)
  then show ?case
  proof cases
    case 1
    with authorize_app_iff own_app show ?thesis by fastforce
  next
    case 2
    with Cons show ?thesis by auto
  qed
qed simp

lemma sweep_held:
  "fst (sweep va b cl q (resolveWorkspace b q) relation name as denied e) = SweptTo (Inr a) \<Longrightarrow>
     a \<in> set as \<and> reachable b q relation (cr_tenant a) \<and> refuseAmbiguousName va b cl q name a = None"
proof (induction as arbitrary: denied e)
  case (Cons c as)
  show ?case
  proof (cases "fst (authorize_app b q (resolveWorkspace b q) relation c (denied < maxFallbackCandidateAudits))")
    case None
    with Cons.prems authorize_app_iff show ?thesis unfolding sweep_fst by (auto split: option.splits)
  next
    case (Some e')
    with Cons.prems have "fst (sweep va b cl q (resolveWorkspace b q) relation name as (denied + 1) (Some e')) = SweptTo (Inr a)"
      unfolding sweep_fst by simp
    from Cons.IH [OF this] show ?thesis by simp
  qed
qed simp

lemma by_service_name_held:
  assumes "fst (by_service_name va b cl q (resolveWorkspace b q) relation name) = Inr a"
  shows "reachable b q relation (cr_tenant a) \<and>
         (\<exists>sel items. (sel = ByServiceName name \<or> (\<exists>ns t. sel = ByServiceNameIn name ns t)) \<and>
            cl_list cl sel = Some items \<and> a \<in> set items)"
proof -
  let ?r = "resolveWorkspace b q"
  let ?sel = "if rq_named q \<noteq> [] then ByServiceNameIn name (AppNamespace b (acting_of ?r)) (acting_of ?r) else ByServiceName name"
  obtain items where i: "cl_list cl ?sel = Some items"
    using assms by (cases "cl_list cl ?sel") (simp_all add: by_service_name_def Let_def)
  obtain x w where x: "sweep va b cl q ?r relation name (serviceAppsFor q items) 0 None = (x, w)" by fastforce
  have "x = SweptTo (Inr a)"
    using assms i x swept_out_refuses absent_here_refuses
    by (auto simp: by_service_name_def Let_def split: sweep_end.splits option.splits)
  with x sweep_held [of va b cl q relation name "serviceAppsFor q items" 0 None a]
  have a: "a \<in> set (serviceAppsFor q items)" "reachable b q relation (cr_tenant a)" by simp_all
  then have "a \<in> set items" by (auto simp: serviceAppsFor_def split: if_splits)
  with a(2) i show ?thesis by (intro conjI exI [of _ ?sel] exI [of _ items]) simp_all
qed

lemma shown_in: "shown_matches b q ev acting seen as = Inr ms \<Longrightarrow> set ms \<subseteq> set as"
proof (induction as arbitrary: seen ms)
  case (Cons a as)
  show ?case
  proof
    fix x
    assume "x \<in> set ms"
    with Cons.prems have "x = a \<or> (\<exists>seen' ms'. shown_matches b q ev acting seen' as = Inr ms' \<and> x \<in> set ms')"
      by (auto simp: Let_def rbind_Inr_iff split: if_splits option.splits)
    with Cons.IH show "x \<in> set (a # as)" by auto
  qed
qed simp

lemma one_shown:
  "(case ms of [] \<Rightarrow> Inr None | [a] \<Rightarrow> Inr (Some a) | _ \<Rightarrow> Inl (NameAmbiguous (map AppPublicID ms))) = Inr (Some a) \<Longrightarrow> ms = [a]"
  by (auto split: list.splits)

lemma appByDisplayedName_in:
  assumes "appByDisplayedName va b cl q acting name = Inr (Some a)"
  shows "\<exists>sel items. cl_list cl sel = Some items \<and> a \<in> set items \<and> DisplayedAppName a = name"
proof -
  let ?ev = "everywhere b q"
  let ?shown = "\<lambda>items. preferOwnWorkspaceNamespace (filter (\<lambda>a. DisplayedAppName a = name) (serviceAppsFor q items))"
  have "acting \<noteq> [] \<and> name \<noteq> []" using assms by (auto simp: appByDisplayedName_def)
  with assms have "rbind (shown_query va b q ?ev acting) (\<lambda>so. case so of None \<Rightarrow> Inr None | Some sel \<Rightarrow> (case cl_list cl sel of None \<Rightarrow> Inl ApiError
        | Some items \<Rightarrow> rbind (shown_matches b q ?ev acting [] (?shown items))
            (\<lambda>ms. case ms of [] \<Rightarrow> Inr None | [a] \<Rightarrow> Inr (Some a) | _ \<Rightarrow> Inl (NameAmbiguous (map AppPublicID ms))))) = Inr (Some a)"
    by (simp add: appByDisplayedName_def Let_def)
  then obtain so where so: "shown_query va b q ?ev acting = Inr so"
    and rest: "(case so of None \<Rightarrow> Inr None | Some sel \<Rightarrow> (case cl_list cl sel of None \<Rightarrow> Inl ApiError
        | Some items \<Rightarrow> rbind (shown_matches b q ?ev acting [] (?shown items))
            (\<lambda>ms. case ms of [] \<Rightarrow> Inr None | [a] \<Rightarrow> Inr (Some a) | _ \<Rightarrow> Inl (NameAmbiguous (map AppPublicID ms))))) = Inr (Some a)"
    unfolding rbind_Inr_iff by blast
  from rest obtain sel where sel: "so = Some sel" by (cases so) simp_all
  with rest obtain items where items: "cl_list cl sel = Some items" by (cases "cl_list cl sel") simp_all
  with rest sel obtain ms where m: "shown_matches b q ?ev acting [] (?shown items) = Inr ms" and "ms = [a]"
    using one_shown by (auto simp: rbind_Inr_iff)
  from shown_in [OF m] \<open>ms = [a]\<close> have "a \<in> set (serviceAppsFor q items)" "DisplayedAppName a = name" by auto
  moreover from this(1) have "a \<in> set items" by (auto simp: serviceAppsFor_def split: if_splits)
  ultimately show ?thesis using items by blast
qed

lemma by_name_held:
  assumes "fst (by_name va b cl q (resolveWorkspace b q) relation name) = Inr a"
  shows "reachable b q relation (cr_tenant a)"
proof -
  let ?r = "resolveWorkspace b q"
  consider (shown) shown where "appByDisplayedName va b cl q (acting_of ?r) name = Inr (Some shown)"
      "fst (shown_answer b q ?r relation name shown) = Inr a"
    | (named) res where "try_names va b cl q ?r relation name (appCandidateNames (acting_of ?r) name) = Some res" "fst res = Inr a"
    | (swept) "fst (by_service_name va b cl q ?r relation name) = Inr a"
    using assms absent_here_refuses
    by (auto simp: by_name_def split: sum.splits option.splits if_splits)
  then show ?thesis
  proof cases
    case shown
    then show ?thesis
      using authorize_app_iff [of b q relation shown True] absent_refuses
      by (auto simp: shown_answer_fst split: option.splits if_splits)
  next
    case named
    from try_names_held [OF this] show ?thesis by blast
  next
    case swept
    from by_service_name_held [OF this] show ?thesis by blast
  qed
qed

lemma AuthorizeApp_cases:
  assumes "fst (AuthorizeApp va b cl q relation name) = Inr a"
  obtains (ids) items where "cl_list cl (ByAppID name) = Some items" "a \<in> set items" "reachable b q relation (cr_tenant a)"
    | (name) "fst (by_name va b cl q (resolveWorkspace b q) relation name) = Inr a"
proof -
  from assms obtain byID where
    byID: "(if va_label va name then cl_list cl (ByAppID name) else Some []) = Some byID"
    and t: "(preferOwnWorkspaceNamespace (serviceAppsFor q byID) \<noteq> [] \<and>
              fst (try_ids b q (resolveWorkspace b q) relation (preferOwnWorkspaceNamespace (serviceAppsFor q byID)) NotFound) = Inr a) \<or>
            fst (by_name va b cl q (resolveWorkspace b q) relation name) = Inr a"
    by (auto simp: AuthorizeApp_def Let_def split: sum.splits prod.splits option.splits if_splits)
  from t show ?thesis
  proof
    assume "fst (by_name va b cl q (resolveWorkspace b q) relation name) = Inr a"
    then show ?thesis by (rule name)
  next
    assume "preferOwnWorkspaceNamespace (serviceAppsFor q byID) \<noteq> [] \<and>
      fst (try_ids b q (resolveWorkspace b q) relation (preferOwnWorkspaceNamespace (serviceAppsFor q byID)) NotFound) = Inr a"
    with try_ids_held [of b q relation "preferOwnWorkspaceNamespace (serviceAppsFor q byID)" NotFound a]
    have "a \<in> set (serviceAppsFor q byID)" "reachable b q relation (cr_tenant a)" by simp_all
    moreover from this(1) have "a \<in> set byID" "byID \<noteq> []" by (auto simp: serviceAppsFor_def split: if_splits)
    ultimately show ?thesis using byID ids [of byID] by (simp split: if_splits)
  qed
qed

lemma reachable_spelled:
  assumes "reachable b q relation owner"
  shows "\<exists>acting. resolveWorkspace b q = Inr acting
    \<and> (\<forall>i. rq_identity q = Some i \<longrightarrow> RequireCapability i relation = None)
    \<and> (\<forall>c. ba_authz b = Some c \<longrightarrow>
         (\<exists>i. rq_identity q = Some i \<and>
            answer_of c relation (''user:'' @ id_subject i) (if acting = [] then DefaultWorkspace else WorkspaceObject owner) = Some True))
    \<and> (acting \<noteq> [] \<longrightarrow> owner \<noteq> [] \<and> (rq_named q = [] \<or> owner = rq_named q) \<and> (owner = acting \<or> belongs b q owner))"
  using assms by (auto simp: reachable_def granted_def split: sum.splits if_splits option.splits)

lemma own_or_member:
  assumes "resolveWorkspace b q = Inr acting" "rq_resolved q = None" "ba_workspace b = Some v" "rq_identity q = Some i"
    and "owner = acting \<or> belongs b q owner"
  shows "owner = fst (rv_tenant v i) \<or> rv_member v i owner = Member"
  using assms by (auto simp: resolveWorkspace_def resolveWorkspaceUncached_def belongs_def caller_def requireMember_def Let_def
      split: if_splits option.splits membership.splits)

text \<open>C2: No verb acts outside what its caller holds. When an App is handed to a verb, whatever the cluster answers and
  however the App was named: the acting workspace of the request resolved, a signed-in caller has the scope of the
  relation, and, where a checker is wired, the checker says the caller holds the relation (asked past its cache
  for a mutation) on the workspace of the App; or on the default workspace, where no workspace resolves (a deployment
  without tenancy, or a caller without one). Where one resolves, the workspace of the App is the one the
  request names, when it names one, and it is the acting one or one the caller is a member of; and with a
  store of memberships and no decision left over from earlier in the request, it is the tenant of the caller or one
  they are a member of.
\<close>

theorem app_access_is_held:
  assumes "AuthorizeApp va b cl q relation name = (Inr a, rows)"
  shows "\<exists>acting. resolveWorkspace b q = Inr acting
    \<and> (\<forall>i. rq_identity q = Some i \<longrightarrow> RequireCapability i relation = None)
    \<and> (\<forall>c. ba_authz b = Some c \<longrightarrow>
         (\<exists>i. rq_identity q = Some i \<and>
            answer_of c relation (''user:'' @ id_subject i) (if acting = [] then DefaultWorkspace else WorkspaceObject (cr_tenant a)) = Some True))
    \<and> (acting \<noteq> [] \<longrightarrow>
         cr_tenant a \<noteq> [] \<and> (rq_named q = [] \<or> cr_tenant a = rq_named q) \<and> (cr_tenant a = acting \<or> belongs b q (cr_tenant a))
         \<and> (\<forall>v i. ba_workspace b = Some v \<and> rq_identity q = Some i \<and> rq_resolved q = None \<longrightarrow>
              cr_tenant a = fst (rv_tenant v i) \<or> rv_member v i (cr_tenant a) = Member))"
proof -
  from assms have "fst (AuthorizeApp va b cl q relation name) = Inr a" by simp
  then have "reachable b q relation (cr_tenant a)" by (cases rule: AuthorizeApp_cases) (auto intro: by_name_held)
  from reachable_spelled [OF this] obtain acting where acting: "resolveWorkspace b q = Inr acting"
      "\<forall>i. rq_identity q = Some i \<longrightarrow> RequireCapability i relation = None"
      "\<forall>c. ba_authz b = Some c \<longrightarrow> (\<exists>i. rq_identity q = Some i \<and>
         answer_of c relation (''user:'' @ id_subject i) (if acting = [] then DefaultWorkspace else WorkspaceObject (cr_tenant a)) = Some True)"
      "acting \<noteq> [] \<longrightarrow> cr_tenant a \<noteq> [] \<and> (rq_named q = [] \<or> cr_tenant a = rq_named q) \<and> (cr_tenant a = acting \<or> belongs b q (cr_tenant a))"
    by blast
  with own_or_member [OF acting(1)] show ?thesis by blast
qed

section \<open>Rows\<close>

lemma one_row: "length (snd (authorizeAndRecord b q relation obj target e rd)) \<le> 1"
  by (simp add: authorizeAndRecord_def Let_def split: option.split)

lemma one_app_row: "length (snd (authorize_app b q r relation a rd)) \<le> 1"
  using one_row by (simp add: authorize_app_def split: prod.split)

lemma unrecorded_denial: "authorize_app b q r relation a False = (Some e, w) \<Longrightarrow> w = []"
  by (auto simp: authorize_app_def authorizeAndRecord_def Let_def split: prod.splits option.splits)

lemma absent_rows: "snd (absent d) = snd d"
  by (simp add: absent_def split: prod.split option.split)

lemma absent_here_rows: "length (snd (absent_here b q relation name)) \<le> 1"
  using one_row by (simp add: absent_here_def absent_rows authorizeAndAudit_def split: prod.split)

lemma authorize_app_row: "authorize_app b q r relation a rd = (d, w) \<Longrightarrow> length w \<le> 1"
  using one_app_row [of b q r relation a rd] by simp

lemma try_ids_rows: "length (snd (try_ids b q r relation as e)) \<le> length as"
proof (induction as arbitrary: e)
  case (Cons a as)
  obtain d w where d: "authorize_app b q r relation a True = (d, w)" by fastforce
  from authorize_app_row [OF d] have w: "length w \<le> 1" .
  show ?case
  proof (cases d)
    case None
    with d w show ?thesis by simp
  next
    case (Some e')
    obtain res w' where t: "try_ids b q r relation as e' = (res, w')" by fastforce
    with Cons.IH [of e'] have "length w' \<le> length as" by simp
    with d w t Some show ?thesis by simp
  qed
qed simp

lemma sweep_rows_both:
  "length (snd (sweep va b cl q r relation name as denied e)) \<le> (maxFallbackCandidateAudits - denied) + 1 \<and>
   (\<forall>n e'. fst (sweep va b cl q r relation name as denied e) = SweptOut n e' \<longrightarrow>
      length (snd (sweep va b cl q r relation name as denied e)) \<le> maxFallbackCandidateAudits - denied \<and>
      n = denied + length as)"
proof (induction as arbitrary: denied e)
  case (Cons a as)
  obtain d w where d: "authorize_app b q r relation a (denied < maxFallbackCandidateAudits) = (d, w)" by fastforce
  from authorize_app_row [OF d] have w: "length w \<le> 1" .
  show ?case
  proof (cases d)
    case None
    with d w show ?thesis by simp
  next
    case (Some e')
    obtain x w' where t: "sweep va b cl q r relation name as (denied + 1) (Some e') = (x, w')" by fastforce
    have w0: "w = []" if "\<not> denied < maxFallbackCandidateAudits"
      using d that Some unrecorded_denial [of b q r relation a e' w] by simp
    have "length w + (maxFallbackCandidateAudits - (denied + 1)) \<le> maxFallbackCandidateAudits - denied"
      using w w0 by (cases "denied < maxFallbackCandidateAudits") simp_all
    with d t Some Cons.IH [of "denied + 1" "Some e'"] show ?thesis by auto
  qed
qed simp

lemmas sweep_rows = sweep_rows_both [THEN conjunct1] sweep_rows_both [THEN conjunct2, rule_format]


lemma swept_out_rows: "length (snd (swept_out b q acting relation name denied e)) \<le> 2"
  using one_row [of b q relation "WorkspaceObject acting" "ServiceTarget name" None True]
  by (simp add: swept_out_def absent_rows authorizeAndAudit_def)

lemma by_service_name_rows: "length (snd (by_service_name va b cl q r relation name)) \<le> 5"
proof (cases "cl_list cl (if rq_named q \<noteq> [] then ByServiceNameIn name (AppNamespace b (acting_of r)) (acting_of r) else ByServiceName name)")
  case None
  then show ?thesis by (simp add: by_service_name_def Let_def)
next
  case (Some items)
  obtain x w where x: "sweep va b cl q r relation name (serviceAppsFor q items) 0 None = (x, w)" by fastforce
  show ?thesis
  proof (cases x)
    case (SweptTo res)
    then show ?thesis using Some x sweep_rows(1) [of va b cl q r relation name "serviceAppsFor q items" 0 None]
      by (simp add: by_service_name_def Let_def maxFallbackCandidateAudits_def)
  next
    case (SweptOut denied lastErr)
    then have "length w \<le> 3"
      using x sweep_rows(2) [of va b cl q r relation name "serviceAppsFor q items" 0 None denied lastErr]
      by (simp add: maxFallbackCandidateAudits_def)
    then show ?thesis using Some x SweptOut absent_here_rows [of b q relation name]
        swept_out_rows [of b q "acting_of r" relation name denied]
      by (cases lastErr) (auto simp: by_service_name_def Let_def intro: order_trans [OF add_mono])
  qed
qed

lemma shown_answer_rows: "length (snd (shown_answer b q r relation name shown)) \<le> 2"
proof -
  obtain d w where d: "authorize_app b q r relation shown True = (d, w)" by fastforce
  from authorize_app_row [OF d] d show ?thesis
    using one_row [of b q relation "WorkspaceObject (acting_of r)" "ServiceTarget name" None True]
    by (auto simp: shown_answer_def absent_rows authorizeAndAudit_def split: option.split)
qed

lemma try_names_rows: "try_names va b cl q r relation name ns = Some res \<Longrightarrow> length (snd res) \<le> 1"
proof (induction ns)
  case (Cons n ns)
  then show ?case using authorize_app_row
    by (auto split: if_splits got.splits prod.splits option.splits)
qed simp

lemma by_name_rows: "length (snd (by_name va b cl q r relation name)) \<le> 5"
proof (cases "appByDisplayedName va b cl q (acting_of r) name")
  case (Inl e)
  then show ?thesis by (simp add: by_name_def)
next
  case (Inr found)
  show ?thesis
  proof (cases found)
    case (Some shown)
    with Inr shown_answer_rows [of b q r relation name shown] show ?thesis by (simp add: by_name_def)
  next
    case None
    with Inr by_service_name_rows [of va b cl q r relation name] absent_here_rows [of b q relation name]
      try_names_rows [of va b cl q r relation name "appCandidateNames (acting_of r) name"]
    show ?thesis
      by (cases "try_names va b cl q r relation name (appCandidateNames (acting_of r) name)")
         (fastforce simp: by_name_def)+
  qed
qed

text \<open>C35: A name leaves a bounded trail. However many services of the cluster bear the name, authorizing a verb by
  it writes at most five audit rows, the three of the first refused candidates, one that stands for the rest and
  the one of the decision about the caller; only Apps that share one public ID add a row each.
\<close>

theorem audit_rows_bounded:
  assumes "\<And>items. cl_list cl (ByAppID name) = Some items \<Longrightarrow> length items \<le> k"
  shows "length (snd (AuthorizeApp va b cl q relation name)) \<le> max 5 k"
proof (cases "resolveWorkspace b q")
  case (Inl e)
  then show ?thesis using one_row [of b q relation "WorkspaceObject (rq_named q)" "ServiceTarget name" "Some e" True]
    by (auto simp: AuthorizeApp_def Let_def authorizeAndAudit_def split: prod.split option.split)
       (auto simp: authorizeAndRecord_def Let_def split: option.splits)
next
  case (Inr acting)
  let ?items = "\<lambda>byID. preferOwnWorkspaceNamespace (serviceAppsFor q byID)"
  have few: "length (?items byID) \<le> length byID" for byID
    by (simp add: serviceAppsFor_def preferOwnWorkspaceNamespace_def)
  have ids: "length (snd (try_ids b q r relation (?items byID) NotFound)) \<le> length byID" for byID r
    using try_ids_rows [of b q r relation "?items byID" NotFound] few [of byID] by simp
  show ?thesis
  proof (cases "if va_label va name then cl_list cl (ByAppID name) else Some []")
    case None
    with Inr show ?thesis by (auto simp: AuthorizeApp_def)
  next
    case (Some byID)
    then have "length byID \<le> k" using assms by (auto split: if_splits)
    with Some Inr by_name_rows [of va b cl q "Inr acting" relation name] ids [of "Inr acting" byID] show ?thesis
      by (auto simp: AuthorizeApp_def Let_def simp del: if_split)
  qed
qed


section \<open>An installation to try it on\<close>

definition demo_base :: "bool \<Rightarrow> base" where
  "demo_base up = \<lparr>
     ba_authz = Some \<lparr>ck_check = \<lambda>s r obj. Some (obj = ''workspace:a''), ck_fresh = None\<rparr>,
     ba_workspace = Some \<lparr>rv_tenant = \<lambda>i. (''a'', True),
        rv_member = \<lambda>i t. if t = ''a'' then Member else if t = ''down'' \<and> \<not> up then StoreDown else NonMember\<rparr>,
     ba_memberIDs = None, ba_platform = None, ba_namespace = ''bex-apps''\<rparr>"

definition demo_request :: request where
  "demo_request = \<lparr>rq_identity = Some (zero_identity\<lparr>id_subject := ''u'', id_method := ''session''\<rparr>), rq_named = [],
     rq_acting = [], rq_builds = False, rq_deferred = False, rq_resolved = None\<rparr>"

definition demo_app :: "string \<Rightarrow> string \<Rightarrow> string \<Rightarrow> capp" where
  "demo_app tenant app shown = \<lparr>cr_id = ''srv-'' @ tenant @ app, cr_owner = None, cr_tenant = tenant, cr_ns = tenant,
     cr_name = tenant @ ''-'' @ app, cr_uid = [], ap_service = app, ap_display = shown, ap_build = False, ap_deleting = False\<rparr>"

definition demo_cluster :: "capp list \<Rightarrow> cluster" where
  "demo_cluster apps = \<lparr>
     cl_list = \<lambda>sel. Some (case sel of
        ByAppID i \<Rightarrow> filter (\<lambda>a. cr_id a = i) apps
      | InWorkspace ns t \<Rightarrow> filter (\<lambda>a. cr_ns a = ns \<and> cr_tenant a = t) apps
      | OfTenants ts \<Rightarrow> filter (\<lambda>a. cr_tenant a \<in> set ts) apps
      | AllApps \<Rightarrow> apps
      | ByServiceName n \<Rightarrow> filter (\<lambda>a. ap_service a = n) apps
      | ByServiceNameIn n ns t \<Rightarrow> filter (\<lambda>a. ap_service a = n \<and> cr_ns a = ns \<and> cr_tenant a = t) apps),
     cl_get = \<lambda>ns n. (case filter (\<lambda>a. cr_ns a = ns \<and> cr_name a = n) apps of [] \<Rightarrow> GotNone | a # _ \<Rightarrow> Got a)\<rparr>"

definition demo_validators :: validators where
  "demo_validators = \<lparr>va_label = \<lambda>_. True, va_segment = \<lambda>_. True, va_tenants = \<lambda>_. True\<rparr>"

lemma demo_object [simp]: "validFGAObject ''workspace:a''"
  by (simp add: validFGAObject_def utf8_valid_def cut_at_def fga_rune_def rune_space_def rune_control_def)

lemma demo_resolve [simp]: "resolveWorkspace (demo_base up) demo_request = Inr ''a''"
  by (simp add: resolveWorkspace_def resolveWorkspaceUncached_def demo_base_def demo_request_def)

lemma demo_capability [simp]: "checkCapability demo_request relation = None"
  by (simp add: checkCapability_def demo_request_def zero_identity_def RequireCapability_def CapabilityExempt_def)

lemmas demo_defs = demo_base_def demo_request_def demo_app_def demo_cluster_def demo_validators_def zero_identity_def

lemma demo_member [simp]:
  "requireMember (demo_base up) i t = (if t = ''a'' then None else if t = ''down'' \<and> \<not> up then Some AuthzUnavailable else Some Forbidden)"
  by (simp add: requireMember_def demo_base_def)

lemma demo_check [simp]:
  "checkAuthz (demo_base up) demo_request relation ''workspace:a'' = None"
  "checkAuthzFresh (demo_base up) demo_request relation ''workspace:a'' = None"
proof -
  have "checkAuthz (demo_base up) demo_request relation ''workspace:a'' = None"
    by (simp add: checkAuthz_def WorkspaceObject_def) (simp add: demo_defs ask_def)
  moreover have "ba_authz (demo_base up) = Some \<lparr>ck_check = \<lambda>s r obj. Some (obj = ''workspace:a''), ck_fresh = None\<rparr>"
    by (simp add: demo_base_def)
  ultimately show "checkAuthz (demo_base up) demo_request relation ''workspace:a'' = None"
    "checkAuthzFresh (demo_base up) demo_request relation ''workspace:a'' = None"
    by (simp_all add: checkAuthzFresh_def WorkspaceObject_def)
qed

lemma demo_app_fields [simp]:
  "cr_tenant (demo_app t n s) = t" "ap_service (demo_app t n s) = n" "cr_id (demo_app t n s) = ''srv-'' @ t @ n"
  "cr_ns (demo_app t n s) = t" "cr_name (demo_app t n s) = t @ ''-'' @ n" "ap_display (demo_app t n s) = s"
  "\<not> ap_build (demo_app t n s)" "\<not> ap_deleting (demo_app t n s)"
  by (simp_all add: demo_app_def)

lemma demo_fields [simp]:
  "va_label demo_validators n" "va_segment demo_validators n" "rq_named demo_request = []" "\<not> rq_builds demo_request"
  "rq_identity demo_request \<noteq> None" "ba_workspace (demo_base up) \<noteq> None" "ba_memberIDs (demo_base up) = None"
  "rq_deferred demo_request = False"
  by (simp_all add: demo_defs)

lemmas demo_lookup = AuthorizeApp_def by_name_def appByDisplayedName_def everywhere_def shown_query_def
  DisplayedAppName_def AppPublicName_def AppPublicID_def serviceAppsFor_def refuseAmbiguousName_def checkWorkspaceAccess_def
  authorize_app_def resourceWorkspaceFor_def authorizeAndRecord_def authorizeAndAudit_def WorkspaceObject_def
  by_service_name_def swept_out_def absent_def also_rows_def acting_of_def preferOwnWorkspaceNamespace_def
  appCandidateNames_def CRName_def AppNamespace_def TenantNamespace_def DefaultTenant_def notServiceAppFor_def
  canonicalAppTarget_def ServiceTarget_def AppInOwnWorkspaceNamespace_def maxFallbackCandidateAudits_def shown_answer_def Let_def

lemmas demo_relations = writeRelations_def readRelations_def auditsDenial_def RelCanView_def RelCanOperate_def RelCanCreate_def
  RelCanManageKeys_def RelCanManageSSHKeys_def RelCanManage_def RelCanManageBilling_def RelCanViewLogs_def RelCanViewSensitive_def

lemma app_access_is_held_witness:
  "\<exists>c. ba_authz (demo_base False) = Some c \<and>
     answer_of c RelCanView (''user:'' @ id_subject (caller demo_request)) (WorkspaceObject ''a'') = Some True"
proof -
  have "AuthorizeApp demo_validators (demo_base False) (demo_cluster [demo_app ''b'' ''web'' [], demo_app ''a'' ''web'' []])
      demo_request RelCanView ''web'' = (Inr (demo_app ''a'' ''web'' []), [])"
    by (simp add: demo_lookup demo_cluster_def demo_relations)
  note held = app_access_is_held [OF this]
  have r: "resolveWorkspace (demo_base False) demo_request = Inr ''a''"
    by (simp add: resolveWorkspace_def resolveWorkspaceUncached_def demo_base_def demo_request_def)
  obtain c where c: "ba_authz (demo_base False) = Some c" by (simp add: demo_base_def)
  with held r obtain i where "rq_identity demo_request = Some i"
    "answer_of c RelCanView (''user:'' @ id_subject i) (WorkspaceObject ''a'') = Some True" by auto
  with c show ?thesis by (auto simp: caller_def)
qed

lemma audit_rows_bounded_witness:
  "length (snd (AuthorizeApp demo_validators (demo_base False) (demo_cluster [demo_app ''b'' ''web'' []]) demo_request RelCanView ''web'')) \<le> max 5 1"
proof (rule audit_rows_bounded)
  fix items
  assume "cl_list (demo_cluster [demo_app ''b'' ''web'' []]) (ByAppID ''web'') = Some items"
  then show "length items \<le> 1" by (auto simp: demo_cluster_def)
qed

text \<open>The sweep keeps only the last refusal. A candidate whose workspace could not be asked about is forgotten
  when one after it is refused, and the answer is \<open>NotFound\<close>, for a name that may be of a service the
  caller holds.\<close>

lemma outage_masked:
  "fst (AuthorizeApp demo_validators (demo_base False)
     (demo_cluster [demo_app ''b'' ''web'' ''B'', demo_app ''down'' ''web'' ''D'']) demo_request RelCanView ''web'') = Inl AuthzUnavailable"
  "fst (AuthorizeApp demo_validators (demo_base False)
     (demo_cluster [demo_app ''down'' ''web'' ''D'', demo_app ''b'' ''web'' ''B'']) demo_request RelCanView ''web'') = Inl NotFound"
  by (simp_all add: demo_lookup demo_cluster_def demo_relations)

end
