(* ===== verification/NameProbe.thy ===== *)
theory NameProbe
  imports AppLookup
begin

text \<open>
  What a caller learns by trying names (\<open>AuthorizeApp\<close> and \<open>GetApp\<close> of \<open>backend/internal/core/base.go\<close>): nothing
  about the services of workspaces they are no member of. The claim is stated for an adaptive prober,
  in a locale, and interpreted on the two lookups of \<open>AppLookup\<close>.
\<close>

section \<open>Probing\<close>

text \<open>A prober chooses the next question from the answers so far, for as many rounds as it likes.\<close>

fun transcript :: "('w \<Rightarrow> 'q \<Rightarrow> 'a) \<Rightarrow> ('a list \<Rightarrow> 'q) \<Rightarrow> nat \<Rightarrow> 'w \<Rightarrow> 'a list" where
  "transcript probe plan 0 w = []"
| "transcript probe plan (Suc n) w = (let seen = transcript probe plan n w in seen @ [probe w (plan seen)])"

locale blind =
  fixes probe :: "'w \<Rightarrow> 'q \<Rightarrow> 'a" and alike :: "'w \<Rightarrow> 'w \<Rightarrow> bool" and ok :: "'q \<Rightarrow> bool"
  assumes same_answer: "alike w w' \<Longrightarrow> ok x \<Longrightarrow> probe w x = probe w' x"
begin

lemma same_transcript:
  assumes "alike w w'" and "\<And>seen. ok (plan seen)"
  shows "transcript probe plan n w = transcript probe plan n w'"
  by (induction n) (simp_all add: Let_def same_answer [OF assms(1) assms(2)])

end

section \<open>Apps of other workspaces\<close>

definition foreign :: "base \<Rightarrow> request \<Rightarrow> string \<Rightarrow> capp \<Rightarrow> bool" where
  "foreign b q acting a \<longleftrightarrow> cr_tenant a = [] \<or> (cr_tenant a \<noteq> acting \<and> \<not> belongs b q (cr_tenant a))"

definition visible :: "base \<Rightarrow> request \<Rightarrow> string \<Rightarrow> capp list option \<Rightarrow> capp list option" where
  "visible b q acting = map_option (filter (\<lambda>a. \<not> foreign b q acting a))"

text \<open>Two clusters that differ in Apps of other workspaces only, and answer alike where the code
  reads an App by its own namespace or by its id.\<close>

definition alike :: "base \<Rightarrow> request \<Rightarrow> string \<Rightarrow> (string \<Rightarrow> bool) \<Rightarrow> cluster \<Rightarrow> cluster \<Rightarrow> bool" where
  "alike b q acting guess cl cl' \<longleftrightarrow>
     (\<forall>n. cl_get cl (AppNamespace b acting) n = cl_get cl' (AppNamespace b acting) n) \<and>
     (\<forall>n. guess n \<longrightarrow> cl_list cl (ByAppID n) = cl_list cl' (ByAppID n)) \<and>
     (\<forall>sel. visible b q acting (cl_list cl sel) = visible b q acting (cl_list cl' sel))"

text \<open>No outage: the store and the checker answer.\<close>

definition steady :: "base \<Rightarrow> bool" where
  "steady b \<longleftrightarrow>
     (\<forall>w i t. ba_workspace b = Some w \<longrightarrow> rv_member w i t \<noteq> StoreDown) \<and>
     (\<forall>c s r obj. ba_authz b = Some c \<longrightarrow> ck_check c s r obj \<noteq> None) \<and>
     (\<forall>c f s r obj. ba_authz b = Some c \<longrightarrow> ck_fresh c = Some f \<longrightarrow> f s r obj \<noteq> None)"

text \<open>A caller, signed in, who names no workspace and acts in their own.\<close>

definition unnamed :: "base \<Rightarrow> request \<Rightarrow> string \<Rightarrow> bool" where
  "unnamed b q acting \<longleftrightarrow>
     rq_named q = [] \<and> rq_identity q \<noteq> None \<and> ba_workspace b \<noteq> None \<and> acting \<noteq> [] \<and>
     resolveWorkspace b q = Inr acting"

lemma unnamed_everywhere: "unnamed b q acting \<Longrightarrow> everywhere b q"
  by (simp add: unnamed_def everywhere_def)

lemma object_of_owner [simp]: "WorkspaceObject t = WorkspaceObject t' \<longleftrightarrow> t = t'"
  by (simp add: WorkspaceObject_def)

lemma steady_member: "steady b \<Longrightarrow> ba_workspace b \<noteq> None \<Longrightarrow> requireMember b i t = Some e \<Longrightarrow> is_forbidden e"
  by (auto simp: steady_def requireMember_def split: membership.splits)

lemma ask_forbids:
  assumes "\<And>s r obj. chk s r obj \<noteq> None" and "ask chk q relation obj = Some e"
  shows "is_forbidden e"
proof (cases "rq_identity q")
  case (Some i)
  from assms(1) obtain d where "chk (''user:'' @ id_subject i) relation obj = Some d" by blast
  with Some assms(2) show ?thesis by (simp add: ask_def split: if_splits)
qed (use assms in \<open>simp add: ask_def\<close>)

lemma capability_forbids: "checkCapability q relation = Some e \<Longrightarrow> is_forbidden e"
  by (auto simp: checkCapability_def split: option.splits)

lemma check_forbids:
  "steady b \<Longrightarrow> t \<noteq> [] \<Longrightarrow> checkAuthz b q relation (WorkspaceObject t) = Some e \<Longrightarrow> is_forbidden e"
  by (auto simp: checkAuthz_def steady_def split: option.splits dest: capability_forbids ask_forbids [rotated])

lemma fresh_forbids:
  assumes "steady b" and "t \<noteq> []" and "checkAuthzFresh b q relation (WorkspaceObject t) = Some e"
  shows "is_forbidden e"
proof -
  from assms(2,3) consider "checkCapability q relation = Some e"
    | "checkAuthz b q relation (WorkspaceObject t) = Some e"
    | c f where "ba_authz b = Some c" "ck_fresh c = Some f" "ask f q relation (WorkspaceObject t) = Some e"
    by (auto simp: checkAuthzFresh_def split: option.splits)
  then show ?thesis
  proof cases
    case 3
    with assms(1) show ?thesis by (intro ask_forbids [OF _ 3(3)]) (auto simp: steady_def)
  qed (rule capability_forbids check_forbids [OF assms(1,2)], assumption)+
qed

lemma resource_forbids:
  assumes "steady b" and "unnamed b q acting" and "resourceWorkspaceFor b q (Inr acting) owner = (obj, e)"
  shows "(\<forall>x. e = Some x \<longrightarrow> is_forbidden x) \<and> (\<exists>t. t \<noteq> [] \<and> obj = WorkspaceObject t)"
  using assms steady_member [of b "caller q" owner]
  by (auto simp: resourceWorkspaceFor_def unnamed_def split: if_splits)

lemma record_forbids:
  assumes "steady b" and "t \<noteq> []" and "\<And>x. re = Some x \<Longrightarrow> is_forbidden x"
    and "fst (authorizeAndRecord b q relation (WorkspaceObject t) target re rd) = Some e"
  shows "is_forbidden e"
  using assms check_forbids [of b t q relation] fresh_forbids [of b t q relation] capability_forbids [of q relation]
  by (auto simp: authorizeAndRecord_def Let_def split: option.splits if_splits)

lemma app_forbids:
  assumes "steady b" and "unnamed b q acting" and "fst (authorize_app b q (Inr acting) relation a rd) = Some e"
  shows "is_forbidden e"
proof -
  obtain obj re where r: "resourceWorkspaceFor b q (Inr acting) (cr_tenant a) = (obj, re)" by fastforce
  from resource_forbids [OF assms(1,2) r] obtain t where t: "t \<noteq> []" "obj = WorkspaceObject t"
    and re: "\<And>x. re = Some x \<Longrightarrow> is_forbidden x" by auto
  show ?thesis
  proof (rule record_forbids [OF assms(1) t(1) re])
    show "fst (authorizeAndRecord b q relation (WorkspaceObject t) (canonicalAppTarget a) re rd) = Some e"
      using assms(3) r t by (simp add: authorize_app_def)
  qed
qed

lemma foreign_unreachable: "unnamed b q acting \<Longrightarrow> foreign b q acting a \<Longrightarrow> \<not> reachable b q relation (cr_tenant a)"
  by (auto simp: unnamed_def foreign_def reachable_def)

lemma unnamed_app_iff:
  "unnamed b q acting \<Longrightarrow> fst (authorize_app b q (Inr acting) relation a rd) = None \<longleftrightarrow> reachable b q relation (cr_tenant a)"
  using authorize_app_iff [of b q relation a rd] by (simp add: unnamed_def)

lemma foreign_view:
  assumes "steady b" and "unnamed b q acting" and "foreign b q acting a" and "cr_tenant a \<noteq> []"
  shows "checkWorkspaceAccess b q relation (cr_tenant a) = Some Forbidden"
proof -
  have "requireMember b (caller q) (cr_tenant a) \<noteq> None"
    using assms(3,4) by (simp add: member_iff foreign_def)
  with assms(1,2) have "requireMember b (caller q) (cr_tenant a) = Some Forbidden"
    by (auto simp: requireMember_def steady_def unnamed_def split: option.splits membership.splits)
  then show ?thesis by (simp add: checkWorkspaceAccess_def)
qed


section \<open>The lookups do not see foreign Apps\<close>

lemma service_apps_filter: "serviceAppsFor q (filter P items) = filter P (serviceAppsFor q items)"
  by (simp add: serviceAppsFor_def conj_commute)

lemma find_filter: "(\<And>x. \<not> P x \<Longrightarrow> \<not> R x) \<Longrightarrow> find R (filter P xs) = find R xs"
  by (induction xs) auto

lemma other_ids_filter:
  assumes "steady b" and "unnamed b q acting"
  shows "other_ids b q chosen (filter (\<lambda>a. \<not> foreign b q acting a) as) = other_ids b q chosen as"
  by (induction as) (auto simp: foreign_view [OF assms] split: option.split)

lemma shown_filter:
  assumes "steady b" and "unnamed b q acting"
  shows "shown_matches b q True acting seen (filter (\<lambda>a. \<not> foreign b q acting a) as) = shown_matches b q True acting seen as"
proof (induction as arbitrary: seen)
  case (Cons a as)
  show ?case
  proof (cases "foreign b q acting a")
    case True
    with assms(2) have "cr_tenant a = [] \<or> cr_tenant a \<noteq> acting" "acting \<noteq> []" by (auto simp: foreign_def unnamed_def)
    with True foreign_view [OF assms True] show ?thesis by (auto simp: Let_def Cons.IH)
  next
    case False
    then show ?thesis by (simp add: Let_def Cons.IH split: option.split)
  qed
qed simp

text \<open>One query seen through the eyes of the caller.\<close>

lemma visible_cases:
  assumes "visible b q acting o1 = visible b q acting o2"
  obtains "o1 = None" "o2 = None"
    | xs ys where "o1 = Some xs" "o2 = Some ys"
        "filter (\<lambda>a. \<not> foreign b q acting a) xs = filter (\<lambda>a. \<not> foreign b q acting a) ys"
  using assms by (cases o1; cases o2) (simp_all add: visible_def)

lemma refuse_alike:
  assumes "steady b" and "unnamed b q acting" and "alike b q acting guess cl cl'"
  shows "refuseAmbiguousName va b cl q name a = refuseAmbiguousName va b cl' q name a"
proof -
  have "visible b q acting (cl_list cl (ByServiceName name)) = visible b q acting (cl_list cl' (ByServiceName name))"
    using assms(3) by (simp add: alike_def)
  then show ?thesis
  proof (cases rule: visible_cases)
    case 1
    then show ?thesis by (simp add: refuseAmbiguousName_def)
  next
    case (2 xs ys)
    have "other_ids b q a (serviceAppsFor q xs) = other_ids b q a (serviceAppsFor q ys)"
      using arg_cong [OF 2(3), of "\<lambda>l. other_ids b q a (serviceAppsFor q l)"]
      by (simp add: service_apps_filter other_ids_filter [OF assms(1,2)])
    with 2 show ?thesis by (simp add: refuseAmbiguousName_def)
  qed
qed

lemma shown_alike:
  assumes "steady b" and "unnamed b q acting" and "alike b q acting guess cl cl'"
  shows "appByDisplayedName va b cl q acting name = appByDisplayedName va b cl' q acting name"
proof -
  let ?pick = "\<lambda>items. shown_matches b q True acting []
    (preferOwnWorkspaceNamespace (filter (\<lambda>a. DisplayedAppName a = name) (serviceAppsFor q items)))"
  let ?own = "filter (\<lambda>a. \<not> foreign b q acting a)"
  have own: "?pick (?own xs) = ?pick xs" for xs
  proof -
    have "preferOwnWorkspaceNamespace (filter (\<lambda>a. DisplayedAppName a = name) (serviceAppsFor q (?own xs))) =
          ?own (preferOwnWorkspaceNamespace (filter (\<lambda>a. DisplayedAppName a = name) (serviceAppsFor q xs)))"
      by (simp add: service_apps_filter prefer_filter conj_commute)
    then show ?thesis by (simp add: shown_filter [OF assms(1,2)])
  qed
  have "rel_option (\<lambda>xs ys. ?pick xs = ?pick ys) (cl_list cl sel) (cl_list cl' sel)" for sel
  proof -
    have "visible b q acting (cl_list cl sel) = visible b q acting (cl_list cl' sel)" using assms(3) by (simp add: alike_def)
    then show ?thesis
    proof (cases rule: visible_cases)
      case (2 xs ys)
      then have "?pick xs = ?pick ys" using own [of xs] own [of ys] by simp
      with 2 show ?thesis by simp
    qed simp
  qed
  moreover have ev: "everywhere b q = True" using unnamed_everywhere [OF assms(2)] by simp
  ultimately have answers: "(case cl_list cl sel of None \<Rightarrow> Inl ApiError | Some items \<Rightarrow> f (?pick items)) =
    (case cl_list cl' sel of None \<Rightarrow> Inl ApiError | Some items \<Rightarrow> f (?pick items))"
    for sel and f :: "core_error + capp list \<Rightarrow> core_error + capp option"
    by (fastforce elim: option.rel_cases simp: option.rel_sel split: option.split)
  show ?thesis
    unfolding appByDisplayedName_def ev by (simp add: answers [where f = "\<lambda>r. rbind r _"])
qed

lemma names_alike:
  assumes "steady b" and "unnamed b q acting" and "alike b q acting guess cl cl'"
  shows "try_names va b cl q (Inr acting) relation name ns = try_names va b cl' q (Inr acting) relation name ns"
proof -
  have get: "cl_get cl (AppNamespace b acting) = cl_get cl' (AppNamespace b acting)"
    using assms(3) by (auto simp: alike_def)
  have refuse: "refuseAmbiguousName va b cl q name = refuseAmbiguousName va b cl' q name"
    using refuse_alike [OF assms] by blast
  show ?thesis
  proof (induction ns)
    case (Cons n ns)
    show ?case unfolding try_names.simps acting_of_def sum.case get refuse Cons.IH by (rule refl)
  qed simp
qed

lemma swept_by_first:
  assumes "steady b" and "unnamed b q acting"
  shows "case find (\<lambda>a. reachable b q relation (cr_tenant a)) as of
           Some a \<Rightarrow> fst (sweep va b cl q (Inr acting) relation name as denied e) = SweptTo (labeled_unique va b cl q name a)
         | None \<Rightarrow> (\<exists>n e'. fst (sweep va b cl q (Inr acting) relation name as denied e) = SweptOut n e' \<and>
             (if as = [] then e' = e else (\<exists>x. e' = Some x \<and> is_forbidden x)))"
proof (induction as arbitrary: denied e)
  case (Cons a as)
  show ?case
  proof (cases "fst (authorize_app b q (Inr acting) relation a (denied < maxFallbackCandidateAudits))")
    case None
    with unnamed_app_iff [OF assms(2), of relation a] have "reachable b q relation (cr_tenant a)" by blast
    with None show ?thesis by (simp add: sweep_fst labeled_unique_def del: sweep.simps)
  next
    case (Some x)
    with unnamed_app_iff [OF assms(2), of relation a "denied < maxFallbackCandidateAudits"]
    have "\<not> reachable b q relation (cr_tenant a)" by simp
    with Some Cons.IH [of "denied + 1" "Some x"] app_forbids [OF assms Some] show ?thesis
      by (auto simp: sweep_fst split: option.split_asm if_split_asm option.split simp del: sweep.simps)
  qed
qed simp


lemma by_service_name_first:
  assumes "steady b" and "unnamed b q acting"
  shows "fst (by_service_name va b cl q (Inr acting) relation name) =
    (case cl_list cl (ByServiceName name) of
       None \<Rightarrow> Inl ApiError
     | Some items \<Rightarrow>
         (case find (\<lambda>a. reachable b q relation (cr_tenant a)) (serviceAppsFor q items) of
            Some a \<Rightarrow> labeled_unique va b cl q name a
          | None \<Rightarrow> fst (absent_here b q relation name)))"
proof (cases "cl_list cl (ByServiceName name)")
  case None
  with assms(2) show ?thesis by (simp add: by_service_name_def unnamed_def)
next
  case (Some items)
  have named: "rq_named q = []" and res: "resolveWorkspace b q = Inr acting" "acting \<noteq> []"
    using assms(2) by (simp_all add: unnamed_def)
  obtain x w where x: "sweep va b cl q (Inr acting) relation name (serviceAppsFor q items) 0 None = (x, w)" by fastforce
  have here: "fst (absent_here b q relation name) =
      fst (absent (authorizeAndAudit b q relation (WorkspaceObject acting) (ServiceTarget name) None))"
    using res by (simp add: absent_here_def callerWorkspace_def)
  have by_x: "fst (by_service_name va b cl q (Inr acting) relation name) =
     (case x of SweptTo res \<Rightarrow> res
      | SweptOut denied None \<Rightarrow> fst (absent_here b q relation name)
      | SweptOut denied (Some e) \<Rightarrow> fst (swept_out b q acting relation name denied e))"
    using Some x named by (simp add: by_service_name_def Let_def acting_of_def split: sweep_end.split option.split)
  have out: "is_forbidden e \<Longrightarrow> fst (swept_out b q acting relation name denied e) = fst (absent_here b q relation name)"
    for denied e by (simp add: swept_out_def here)
  show ?thesis
    using Some by_x out x swept_by_first [OF assms, where as = "serviceAppsFor q items" and denied = 0 and e = None
        and relation = relation and va = va and cl = cl and name = name]
    by (auto split: option.splits if_splits)
qed

lemma by_service_name_alike:
  assumes "steady b" and "unnamed b q acting" and "alike b q acting guess cl cl'"
  shows "fst (by_service_name va b cl q (Inr acting) relation name) = fst (by_service_name va b cl' q (Inr acting) relation name)"
proof -
  have refuse: "labeled_unique va b cl q name = labeled_unique va b cl' q name"
    unfolding labeled_unique_def using refuse_alike [OF assms] by presburger
  have "visible b q acting (cl_list cl (ByServiceName name)) = visible b q acting (cl_list cl' (ByServiceName name))"
    using assms(3) by (simp add: alike_def)
  then show ?thesis
  proof (cases rule: visible_cases)
    case 1
    then show ?thesis by (simp add: by_service_name_first [OF assms(1,2)])
  next
    case (2 xs ys)
    have seen: "find (\<lambda>a. reachable b q relation (cr_tenant a)) (serviceAppsFor q (filter (\<lambda>a. \<not> foreign b q acting a) l)) =
      find (\<lambda>a. reachable b q relation (cr_tenant a)) (serviceAppsFor q l)" for l
      unfolding service_apps_filter by (rule find_filter) (use foreign_unreachable [OF assms(2)] in blast)
    have "find (\<lambda>a. reachable b q relation (cr_tenant a)) (serviceAppsFor q xs) =
          find (\<lambda>a. reachable b q relation (cr_tenant a)) (serviceAppsFor q ys)"
      using seen [of xs] seen [of ys] 2(3) by simp
    with 2 refuse show ?thesis by (simp add: by_service_name_first [OF assms(1,2)] split: option.split)
  qed
qed

lemma app_lookup_blind:
  assumes "steady b" and "unnamed b q acting" and "alike b q acting guess cl cl'" and "guess name"
  shows "fst (AuthorizeApp va b cl q relation name) = fst (AuthorizeApp va b cl' q relation name)"
proof -
  have res: "resolveWorkspace b q = Inr acting" using assms(2) by (simp add: unnamed_def)
  have ids: "cl_list cl (ByAppID name) = cl_list cl' (ByAppID name)" using assms(3,4) by (simp add: alike_def)
  have "fst (by_name va b cl q (Inr acting) relation name) = fst (by_name va b cl' q (Inr acting) relation name)"
    using by_service_name_alike [OF assms(1-3), of va relation name] shown_alike [OF assms(1-3), of va name]
      names_alike [OF assms(1-3), of va relation name]
    by (simp add: by_name_def acting_of_def split: sum.split option.split)
  with res ids show ?thesis by (simp add: AuthorizeApp_def Let_def split: option.split)
qed


section \<open>GetApp\<close>

lemma labeled_forbids:
  assumes "steady b" and "unnamed b q acting" and "AuthorizeLabeled b q relation owner = Some e"
  shows "is_forbidden e"
proof -
  from assms(2) have res: "resolveWorkspace b q = Inr acting" "rq_named q = []" "acting \<noteq> []" "ba_workspace b \<noteq> None"
    by (simp_all add: unnamed_def)
  with assms(3) have "e = Forbidden \<or> owner \<noteq> [] \<and> checkWorkspaceAccess b q relation owner = Some e"
    by (auto simp: AuthorizeLabeled_def split: if_splits)
  then show ?thesis
    using steady_member [OF assms(1) res(4)] check_forbids [OF assms(1)]
    by (auto simp: checkWorkspaceAccess_def split: option.splits)
qed

lemma foreign_labeled: "unnamed b q acting \<Longrightarrow> foreign b q acting a \<Longrightarrow> AuthorizeLabeled b q relation (cr_tenant a) \<noteq> None"
  using member_iff [of b q "cr_tenant a"]
  by (auto simp: AuthorizeLabeled_def unnamed_def foreign_def checkWorkspaceAccess_def split: option.split)

lemma sweep_labeled_first:
  assumes "steady b" and "unnamed b q acting" and "is_forbidden e \<or> e = NotFound"
  shows "sweep_labeled va b cl q relation name as e =
    (case find (\<lambda>a. AuthorizeLabeled b q relation (cr_tenant a) = None) as of
       Some a \<Rightarrow> labeled_unique va b cl q name a | None \<Rightarrow> Inl NotFound)"
  using assms(3) by (induction as arbitrary: e)
    (auto split: option.split dest: labeled_forbids [OF assms(1,2)])

lemma get_names_alike:
  assumes "steady b" and "unnamed b q acting" and "alike b q acting guess cl cl'"
  shows "get_names va b cl q acting relation name ns = get_names va b cl' q acting relation name ns"
proof -
  have get: "cl_get cl (AppNamespace b acting) = cl_get cl' (AppNamespace b acting)"
    using assms(3) by (auto simp: alike_def)
  have refuse: "labeled_unique va b cl q name = labeled_unique va b cl' q name"
    unfolding labeled_unique_def using refuse_alike [OF assms] by presburger
  show ?thesis
  proof (induction ns)
    case (Cons n ns)
    show ?case unfolding get_names.simps get refuse Cons.IH by (rule refl)
  qed simp
qed

lemma sweep_labeled_alike:
  assumes "steady b" and "unnamed b q acting" and "alike b q acting guess cl cl'"
  shows "(case cl_list cl (ByServiceName name) of None \<Rightarrow> Inl ApiError
          | Some items \<Rightarrow> sweep_labeled va b cl q relation name (serviceAppsFor q items) NotFound) =
         (case cl_list cl' (ByServiceName name) of None \<Rightarrow> Inl ApiError
          | Some items \<Rightarrow> sweep_labeled va b cl' q relation name (serviceAppsFor q items) NotFound)"
proof -
  have refuse: "labeled_unique va b cl q name = labeled_unique va b cl' q name"
    unfolding labeled_unique_def using refuse_alike [OF assms] by presburger
  let ?ok = "\<lambda>a. AuthorizeLabeled b q relation (cr_tenant a) = None"
  have "visible b q acting (cl_list cl (ByServiceName name)) = visible b q acting (cl_list cl' (ByServiceName name))"
    using assms(3) by (simp add: alike_def)
  then show ?thesis
  proof (cases rule: visible_cases)
    case (2 xs ys)
    have "find ?ok (serviceAppsFor q (filter (\<lambda>a. \<not> foreign b q acting a) l)) = find ?ok (serviceAppsFor q l)" for l
      unfolding service_apps_filter by (rule find_filter) (use foreign_labeled [OF assms(2)] in blast)
    from this [of xs] this [of ys] 2(3) have "find ?ok (serviceAppsFor q xs) = find ?ok (serviceAppsFor q ys)" by simp
    with 2 refuse show ?thesis by (simp add: sweep_labeled_first [OF assms(1,2)] split: option.split)
  qed simp
qed

lemma get_by_name_alike:
  assumes "steady b" and "unnamed b q acting" and "alike b q acting guess cl cl'"
  shows "get_by_name va b cl q acting relation name = get_by_name va b cl' q acting relation name"
proof -
  have named: "(rq_named q \<noteq> []) = False" using assms(2) by (simp add: unnamed_def)
  show ?thesis
    unfolding get_by_name_def shown_alike [OF assms] get_names_alike [OF assms] named if_False
      sweep_labeled_alike [OF assms] by (rule refl)
qed

lemma memo_unnamed: "unnamed b q acting \<Longrightarrow> unnamed b (q\<lparr>rq_resolved := Some (Inr acting)\<rparr>) acting"
  by (simp add: unnamed_def resolveWorkspace_def)

lemma memo_alike: "alike b (q\<lparr>rq_resolved := r\<rparr>) acting guess cl cl' = alike b q acting guess cl cl'"
proof -
  have "caller (q\<lparr>rq_resolved := r\<rparr>) = caller q" by (simp add: caller_def)
  then have "foreign b (q\<lparr>rq_resolved := r\<rparr>) acting = foreign b q acting"
    unfolding foreign_def belongs_def by presburger
  then show ?thesis by (simp add: alike_def visible_def)
qed

lemma get_app_blind:
  assumes "steady b" and "unnamed b q acting" and "alike b q acting guess cl cl'" and "guess name"
  shows "GetApp va b cl q relation name = GetApp va b cl' q relation name"
proof -
  have res: "resolveWorkspace b q = Inr acting" using assms(2) by (simp add: unnamed_def)
  have ids: "cl_list cl (ByAppID name) = cl_list cl' (ByAppID name)" using assms(3,4) by (simp add: alike_def)
  from get_by_name_alike [OF assms(1) memo_unnamed [OF assms(2)]] assms(3)
  have "get_by_name va b cl (q\<lparr>rq_resolved := Some (Inr acting)\<rparr>) acting relation name =
        get_by_name va b cl' (q\<lparr>rq_resolved := Some (Inr acting)\<rparr>) acting relation name"
    by (simp add: memo_alike)
  with res ids show ?thesis by (simp add: GetApp_def resolveWorkspaceMemo_def Let_def split: option.split)
qed

section \<open>The prober\<close>

text \<open>The two lookups are blind for a caller who names no workspace, as long as nothing fails.\<close>

definition app_probe :: "validators \<Rightarrow> base \<Rightarrow> request \<Rightarrow> cluster \<Rightarrow> string \<times> string \<Rightarrow> core_error + capp" where
  "app_probe va b q cl x = fst (AuthorizeApp va b cl q (fst x) (snd x))"

definition get_probe :: "validators \<Rightarrow> base \<Rightarrow> request \<Rightarrow> cluster \<Rightarrow> string \<times> string \<Rightarrow> core_error + capp" where
  "get_probe va b q cl x = GetApp va b cl q (fst x) (snd x)"

interpretation verbs: blind "app_probe va b q"
  "\<lambda>cl cl'. steady b \<and> unnamed b q acting \<and> alike b q acting guess cl cl'" "\<lambda>x. guess (snd x)"
  for va b q acting guess
  by unfold_locales (auto simp: app_probe_def intro: app_lookup_blind)

interpretation reads: blind "get_probe va b q"
  "\<lambda>cl cl'. steady b \<and> unnamed b q acting \<and> alike b q acting guess cl cl'" "\<lambda>x. guess (snd x)"
  for va b q acting guess
  by unfold_locales (auto simp: get_probe_def intro: get_app_blind)

text \<open>C7: Names are no oracle. A signed-in caller who names no workspace and tries names, as many as they like
  and each chosen after the answers to those before, through verbs and reads, gets the same answers from two
  clusters that differ only in Apps of workspaces they do not belong to: that a name is taken in another
  workspace cannot be told from its being free. The store and the checker must answer, and the names must
  not be the opaque public id of a foreign App, nor the object of one in the namespace of the caller.\<close>

theorem names_are_no_oracle:
  assumes "steady b" and "unnamed b q acting" and "alike b q acting guess cl cl'" and "\<And>seen. guess (snd (plan seen))"
  shows "transcript (app_probe va b q) plan n cl = transcript (app_probe va b q) plan n cl' \<and>
         transcript (get_probe va b q) plan n cl = transcript (get_probe va b q) plan n cl'"
  using assms by (auto intro: verbs.same_transcript reads.same_transcript)


lemma demo_get_foreign: "cl_get (demo_cluster [demo_app ''b'' ''web'' []]) ''a'' n = GotNone" "cl_get (demo_cluster []) ns n = GotNone"
  by (simp_all add: demo_cluster_def)

lemma demo_foreign: "foreign (demo_base True) demo_request ''a'' (demo_app ''b'' ''web'' [])"
  by (simp add: foreign_def belongs_def) (simp add: demo_base_def)

lemma demo_lists: "\<exists>xs. cl_list (demo_cluster apps) sel = Some xs \<and> set xs \<subseteq> set apps"
  by (cases sel) (auto simp: demo_cluster_def)

lemma demo_alike: "alike (demo_base True) demo_request ''a'' (\<lambda>n. n = ''web'') (demo_cluster [demo_app ''b'' ''web'' []]) (demo_cluster [])"
proof -
  have "AppNamespace (demo_base True) ''a'' = ''a''" by (simp add: AppNamespace_def TenantNamespace_def DefaultTenant_def)
  moreover have "visible (demo_base True) demo_request ''a'' (cl_list (demo_cluster [demo_app ''b'' ''web'' []]) sel) =
      visible (demo_base True) demo_request ''a'' (cl_list (demo_cluster []) sel)" for sel
    using demo_lists [of "[demo_app ''b'' ''web'' []]" sel] demo_lists [of "[]" sel] demo_foreign
    by (auto simp: visible_def filter_empty_conv)
  ultimately show ?thesis by (simp add: alike_def demo_get_foreign) (simp add: demo_cluster_def)
qed

lemma names_are_no_oracle_witness:
  "transcript (app_probe demo_validators (demo_base True) demo_request) (\<lambda>seen. (RelCanView, ''web'')) 3 (demo_cluster [demo_app ''b'' ''web'' []]) =
   transcript (app_probe demo_validators (demo_base True) demo_request) (\<lambda>seen. (RelCanView, ''web'')) 3 (demo_cluster [])"
proof -
  have "steady (demo_base True)" by (simp add: steady_def demo_base_def)
  moreover have "unnamed (demo_base True) demo_request ''a''" using demo_fields by (simp add: unnamed_def)
  ultimately show ?thesis
    using names_are_no_oracle [OF _ _ demo_alike, of "\<lambda>seen. (RelCanView, ''web'')" demo_validators 3] by simp
qed

end
