(* ===== verification/DecisionCache.thy ===== *)
theory DecisionCache
  imports GoText "HOL-Library.AList"
begin

text \<open>
  The cache of positive answers (\<open>TTLCache\<close> of \<open>backend/internal/core/http.go\<close>) and the OpenFGA checker that
  reads through it (\<open>backend/internal/authz/authz.go\<close>): what a cached permission is worth once it was revoked.

  A cache is the list of its entries. Each operation runs under the mutex. The checker is a step function:
  calls for one key share one upstream request, and OpenFGA, the clock and evictions move between the start
  of a request, its answer and its return. OpenFGA is a function from a question to its verdict; the
  history of positive verdicts and of the answers of \<open>Check\<close> is kept beside the state of the program.
\<close>

section \<open>The cache\<close>

type_synonym 'v ttl_cache = "(string \<times> 'v \<times> int) list"

definition CacheMax :: nat where "CacheMax = 4096"
definition PositiveTTL :: int where "PositiveTTL = 30 * 1000000000"

definition ttlGet :: "int \<Rightarrow> 'v ttl_cache \<Rightarrow> string \<Rightarrow> 'v option \<times> 'v ttl_cache" where
  "ttlGet now c key =
     (case map_of c key of
        None \<Rightarrow> (None, c)
      | Some (v, expires) \<Rightarrow> if \<not> now < expires then (None, AList.delete key c) else (Some v, c))"

definition ttlDelete :: "'v ttl_cache \<Rightarrow> string \<Rightarrow> 'v ttl_cache" where
  "ttlDelete c key = AList.delete key c"

definition ttlDeleteIf :: "'v ttl_cache \<Rightarrow> ('v \<Rightarrow> bool) \<Rightarrow> 'v ttl_cache" where
  "ttlDeleteIf c match = filter (\<lambda>(k, v, e). \<not> match v) c"

definition ttlDeleteKeyIf :: "'v ttl_cache \<Rightarrow> (string \<Rightarrow> bool) \<Rightarrow> 'v ttl_cache" where
  "ttlDeleteKeyIf c match = filter (\<lambda>(k, v, e). \<not> match k) c"

definition ttlRoom :: "int \<Rightarrow> 'v ttl_cache \<Rightarrow> 'v ttl_cache" where
  "ttlRoom now c =
     (if CacheMax \<le> length c then
        let live = filter (\<lambda>(k, v, e). now < e) c in if CacheMax \<le> length live then [] else live
      else c)"

definition ttlPut :: "int \<Rightarrow> 'v ttl_cache \<Rightarrow> string \<Rightarrow> 'v \<Rightarrow> int \<Rightarrow> 'v ttl_cache" where
  "ttlPut now c key v expires = AList.update key (v, expires) (ttlRoom now c)"

definition ttl_ok :: "'v ttl_cache \<Rightarrow> bool" where
  "ttl_ok c \<longleftrightarrow> distinct (map fst c) \<and> length c \<le> CacheMax"

lemma length_update: "length (AList.update k v al) \<le> Suc (length al)"
  by (induction al) auto

lemma length_delete: "length (AList.delete k al) \<le> length al"
  by (simp add: AList.delete_eq)

lemma distinct_filter_fst: "distinct (map fst c) \<Longrightarrow> distinct (map fst (filter P c))"
  by (simp add: distinct_map_filter)

lemma room_ok: "ttl_ok c \<Longrightarrow> distinct (map fst (ttlRoom now c)) \<and> length (ttlRoom now c) < CacheMax"
  by (auto simp: ttlRoom_def ttl_ok_def Let_def CacheMax_def distinct_filter_fst)

lemma ttl_ok_ops:
  assumes "ttl_ok c"
  shows "ttl_ok (snd (ttlGet now c key))" and "ttl_ok (ttlDelete c key)" and "ttl_ok (ttlDeleteIf c f)"
    and "ttl_ok (ttlDeleteKeyIf c g)" and "ttl_ok (ttlPut now c key v expires)"
proof -
  show d: "ttl_ok (ttlDelete c key)"
    using assms length_delete [of key c] by (simp add: ttlDelete_def ttl_ok_def distinct_delete)
  show "ttl_ok (snd (ttlGet now c key))"
    using assms d by (auto simp: ttlGet_def ttlDelete_def split: option.split)
  show "ttl_ok (ttlDeleteIf c f)" "ttl_ok (ttlDeleteKeyIf c g)"
    using assms length_filter_le [of _ c]
    by (auto simp: ttlDeleteIf_def ttlDeleteKeyIf_def ttl_ok_def distinct_filter_fst intro: order_trans [OF length_filter_le])
  show "ttl_ok (ttlPut now c key v expires)"
    using room_ok [OF assms, of now] length_update [of key "(v, expires)" "ttlRoom now c"]
    by (simp add: ttlPut_def ttl_ok_def distinct_update)
qed

lemma room_subset: "set (ttlRoom now c) \<subseteq> set c"
  by (auto simp: ttlRoom_def Let_def)

lemma update_subset: "set (AList.update k v al) \<subseteq> insert (k, v) (set al)"
  by (induction al) auto

lemma put_subset: "set (ttlPut now c key v expires) \<subseteq> insert (key, v, expires) (set c)"
  using update_subset [of key "(v, expires)" "ttlRoom now c"] room_subset [of now c] by (auto simp: ttlPut_def)

lemma get_subset: "set (snd (ttlGet now c key)) \<subseteq> set c"
  by (auto simp: ttlGet_def AList.delete_eq split: option.split)

lemma get_hit: "fst (ttlGet now c key) = Some v \<Longrightarrow> \<exists>e. (key, v, e) \<in> set c \<and> now < e"
  by (fastforce simp: ttlGet_def split: option.splits if_splits dest: map_of_SomeD)

text \<open>An entry just put is found until it expires.\<close>

lemma get_put: "now < expires \<Longrightarrow> fst (ttlGet now (ttlPut now' c key v expires) key) = Some v"
  by (simp add: ttlGet_def ttlPut_def update_conv')

section \<open>The checker\<close>

datatype question = Question string string string

fun checkKey :: "question \<Rightarrow> string" where
  "checkKey (Question subject relation obj) = subject @ CHR 0x00 # relation @ CHR 0x00 # obj"

text \<open>A request in the air: what it asks, who waits for it, and the verdict once OpenFGA gave one.\<close>

record flight =
  fl_asks :: question
  fl_calls :: "question list"
  fl_got :: "(bool option \<times> int) option"

record check_state =
  cs_now :: int
  cs_fga :: "question \<Rightarrow> bool"
  cs_cache :: "bool ttl_cache"
  cs_missed :: "question list"
  cs_flights :: "string \<Rightarrow> flight option"
  cs_said :: "(question \<times> int) list"
  cs_told :: "(question \<times> bool option \<times> int) list"

datatype check_event =
    CheckStarts question | Joins question | Upstream string bool | Lands string | FreshCheck question bool
  | Evict string | FgaBecomes "question \<Rightarrow> bool" | ClockAdvances nat

text \<open>OpenFGA answers: an error, or its verdict of the moment.\<close>

definition fga_answer :: "check_state \<Rightarrow> question \<Rightarrow> bool \<Rightarrow> bool option" where
  "fga_answer s x up = (if up then Some (cs_fga s x) else None)"

definition hear :: "check_state \<Rightarrow> question \<Rightarrow> bool option \<Rightarrow> check_state" where
  "hear s x a = (if a = Some True then s\<lparr>cs_said := (x, cs_now s) # cs_said s\<rparr> else s)"

definition check_starts :: "check_state \<Rightarrow> question \<Rightarrow> check_state" where
  "check_starts s x =
     (case ttlGet (cs_now s) (cs_cache s) (checkKey x) of
        (Some allowed, c) \<Rightarrow> s\<lparr>cs_cache := c, cs_told := (x, Some allowed, cs_now s) # cs_told s\<rparr>
      | (None, c) \<Rightarrow> s\<lparr>cs_cache := c, cs_missed := x # cs_missed s\<rparr>)"

text \<open>A call that missed joins the request in the air for its key, or sends one.\<close>

definition joins :: "check_state \<Rightarrow> question \<Rightarrow> check_state" where
  "joins s x =
     (if x \<notin> set (cs_missed s) then s
      else s\<lparr>cs_missed := remove1 x (cs_missed s),
             cs_flights := (cs_flights s)(checkKey x \<mapsto>
               (case cs_flights s (checkKey x) of
                  None \<Rightarrow> \<lparr>fl_asks = x, fl_calls = [x], fl_got = None\<rparr>
                | Some f \<Rightarrow> f\<lparr>fl_calls := x # fl_calls f\<rparr>))\<rparr>)"

definition upstream :: "check_state \<Rightarrow> string \<Rightarrow> bool \<Rightarrow> check_state" where
  "upstream s key up =
     (case cs_flights s key of
        Some f \<Rightarrow>
          if fl_got f \<noteq> None then s
          else let a = fga_answer s (fl_asks f) up in
            (hear s (fl_asks f) a)\<lparr>cs_flights := (cs_flights s)(key \<mapsto> f\<lparr>fl_got := Some (a, cs_now s)\<rparr>)\<rparr>
      | None \<Rightarrow> s)"

text \<open>The request returns within \<open>latency\<close> of the verdict, writes the cache and answers every call that waits.\<close>

definition lands :: "nat \<Rightarrow> check_state \<Rightarrow> string \<Rightarrow> check_state" where
  "lands latency s key =
     (case cs_flights s key of
        Some f \<Rightarrow>
          (case fl_got f of
             Some (a, at) \<Rightarrow>
               if at + int latency < cs_now s then s
               else s\<lparr>cs_cache := (if a = Some True then ttlPut (cs_now s) (cs_cache s) key True (cs_now s + PositiveTTL) else cs_cache s),
                      cs_flights := (cs_flights s)(key := None),
                      cs_told := map (\<lambda>x. (x, a, cs_now s)) (fl_calls f) @ cs_told s\<rparr>
           | None \<Rightarrow> s)
      | None \<Rightarrow> s)"

definition fresh_check :: "check_state \<Rightarrow> question \<Rightarrow> bool \<Rightarrow> check_state" where
  "fresh_check s x up =
     (let a = fga_answer s x up in (hear s x a)\<lparr>cs_told := (x, a, cs_now s) # cs_told s\<rparr>)"

definition subject_key :: "string \<Rightarrow> string \<Rightarrow> bool" where
  "subject_key subject key \<longleftrightarrow> take (Suc (length subject)) key = subject @ [CHR 0x00]"

definition evict :: "check_state \<Rightarrow> string \<Rightarrow> check_state" where
  "evict s subject = s\<lparr>cs_cache := ttlDeleteKeyIf (cs_cache s) (subject_key subject)\<rparr>"

fun check_step :: "nat \<Rightarrow> check_state \<Rightarrow> check_event \<Rightarrow> check_state" where
  "check_step latency s (CheckStarts x) = check_starts s x"
| "check_step latency s (Joins x) = joins s x"
| "check_step latency s (Upstream key up) = upstream s key up"
| "check_step latency s (Lands key) = lands latency s key"
| "check_step latency s (FreshCheck x up) = fresh_check s x up"
| "check_step latency s (Evict subject) = evict s subject"
| "check_step latency s (FgaBecomes f) = s\<lparr>cs_fga := f\<rparr>"
| "check_step latency s (ClockAdvances d) = s\<lparr>cs_now := cs_now s + int d\<rparr>"

definition check_run :: "nat \<Rightarrow> check_state \<Rightarrow> check_event list \<Rightarrow> check_state" where
  "check_run latency s es = fold (\<lambda>e s. check_step latency s e) es s"

definition new_checker :: "(question \<Rightarrow> bool) \<Rightarrow> int \<Rightarrow> check_state" where
  "new_checker fga now = \<lparr>cs_now = now, cs_fga = fga, cs_cache = [], cs_missed = [], cs_flights = Map.empty, cs_said = [], cs_told = []\<rparr>"

text \<open>What is asked has a subject and a relation without a zero byte.\<close>

fun plain :: "question \<Rightarrow> bool" where
  "plain (Question subject relation obj) \<longleftrightarrow> CHR 0x00 \<notin> set subject \<and> CHR 0x00 \<notin> set relation"

fun plain_event :: "check_event \<Rightarrow> bool" where
  "plain_event (CheckStarts x) = plain x"
| "plain_event _ = True"

lemma split_at_mark: "z \<notin> set a \<Longrightarrow> z \<notin> set b \<Longrightarrow> a @ z # x = b @ z # y \<longleftrightarrow> a = b \<and> x = y"
proof (induction a arbitrary: b)
  case Nil
  then show ?case by (cases b) auto
next
  case (Cons c a)
  then show ?case by (cases b) auto
qed

lemma key_inj: "plain x \<Longrightarrow> plain y \<Longrightarrow> checkKey x = checkKey y \<longleftrightarrow> x = y"
  by (cases x; cases y) (auto simp: split_at_mark)


section \<open>What a positive answer is worth\<close>

text \<open>The books of the requests in the air.\<close>

definition in_order :: "check_state \<Rightarrow> bool" where
  "in_order s \<longleftrightarrow>
     (\<forall>k f. cs_flights s k = Some f \<longrightarrow> plain (fl_asks f) \<and> checkKey (fl_asks f) = k \<and> (\<forall>x\<in>set (fl_calls f). x = fl_asks f)) \<and>
     (\<forall>x\<in>set (cs_missed s). plain x) \<and> (\<forall>x t. (x, t) \<in> set (cs_said s) \<longrightarrow> t \<le> cs_now s)"

text \<open>Of the keys in \<open>scope\<close>, everything the checker holds back to answer with was said by OpenFGA, and when.\<close>

definition cache_backed :: "nat \<Rightarrow> (string \<Rightarrow> bool) \<Rightarrow> check_state \<Rightarrow> bool" where
  "cache_backed latency scope s \<longleftrightarrow>
     (\<forall>k v e. (k, v, e) \<in> set (cs_cache s) \<longrightarrow> scope k \<longrightarrow>
        (\<exists>x t. checkKey x = k \<and> plain x \<and> (x, t) \<in> set (cs_said s) \<and> e \<le> t + int latency + PositiveTTL))"

definition air_backed :: "(string \<Rightarrow> bool) \<Rightarrow> check_state \<Rightarrow> bool" where
  "air_backed scope s \<longleftrightarrow>
     (\<forall>k f t. cs_flights s k = Some f \<longrightarrow> scope k \<longrightarrow> fl_got f = Some (Some True, t) \<longrightarrow> (fl_asks f, t) \<in> set (cs_said s))"

definition told_truly :: "nat \<Rightarrow> (string \<Rightarrow> bool) \<Rightarrow> check_state \<Rightarrow> bool" where
  "told_truly latency scope s \<longleftrightarrow>
     (\<forall>x t. (x, Some True, t) \<in> set (cs_told s) \<longrightarrow> scope (checkKey x) \<longrightarrow>
        (\<exists>t'. (x, t') \<in> set (cs_said s) \<and> t' \<le> t \<and> t < t' + int latency + PositiveTTL))"

definition checker_inv :: "nat \<Rightarrow> (string \<Rightarrow> bool) \<Rightarrow> check_state \<Rightarrow> bool" where
  "checker_inv latency scope s \<longleftrightarrow>
     in_order s \<and> cache_backed latency scope s \<and> air_backed scope s \<and> told_truly latency scope s"

lemma ttl_positive: "0 < PositiveTTL"
  by (simp add: PositiveTTL_def)

lemma hear_fields [simp]:
  "cs_now (hear s x a) = cs_now s" "cs_cache (hear s x a) = cs_cache s" "cs_flights (hear s x a) = cs_flights s"
  "cs_missed (hear s x a) = cs_missed s" "cs_told (hear s x a) = cs_told s"
  "set (cs_said (hear s x a)) = (if a = Some True then insert (x, cs_now s) (set (cs_said s)) else set (cs_said s))"
  by (simp_all add: hear_def)

lemma inv_cache_shrinks:
  "checker_inv latency scope s \<Longrightarrow> set c \<subseteq> set (cs_cache s) \<Longrightarrow> checker_inv latency scope (s\<lparr>cs_cache := c\<rparr>)"
  unfolding checker_inv_def in_order_def cache_backed_def air_backed_def told_truly_def subset_iff by simp metis

lemma inv_tells:
  assumes "checker_inv latency scope s"
    and "\<And>x. (x, Some True) \<in> set as \<Longrightarrow> scope (checkKey x) \<Longrightarrow>
           \<exists>t'. (x, t') \<in> set (cs_said s) \<and> t' \<le> cs_now s \<and> cs_now s < t' + int latency + PositiveTTL"
  shows "checker_inv latency scope (s\<lparr>cs_told := map (\<lambda>(x, a). (x, a, cs_now s)) as @ cs_told s\<rparr>)"
  using assms by (fastforce simp: checker_inv_def in_order_def cache_backed_def air_backed_def told_truly_def)

lemma inv_hears: "checker_inv latency scope s \<Longrightarrow> checker_inv latency scope (hear s x a)"
  unfolding checker_inv_def in_order_def cache_backed_def air_backed_def told_truly_def by simp blast

lemma inv_starts:
  assumes "checker_inv latency scope s" and "plain x"
  shows "checker_inv latency scope (check_starts s x)"
proof -
  obtain h c where g: "ttlGet (cs_now s) (cs_cache s) (checkKey x) = (h, c)" by fastforce
  with get_subset [of "cs_now s" "cs_cache s" "checkKey x"] have c: "set c \<subseteq> set (cs_cache s)" by simp
  have inv: "checker_inv latency scope (s\<lparr>cs_cache := c\<rparr>)" by (rule inv_cache_shrinks [OF assms(1) c])
  show ?thesis
  proof (cases h)
    case None
    with g assms(2) inv show ?thesis
      by (auto simp: check_starts_def checker_inv_def in_order_def cache_backed_def air_backed_def told_truly_def)
  next
    case (Some v)
    with g get_hit [of "cs_now s" "cs_cache s" "checkKey x" v] obtain e where
      e: "(checkKey x, v, e) \<in> set (cs_cache s)" "cs_now s < e" by auto
    have "\<exists>t'. (x, t') \<in> set (cs_said s) \<and> t' \<le> cs_now s \<and> cs_now s < t' + int latency + PositiveTTL" if "scope (checkKey x)"
    proof -
      from assms(1) e(1) that obtain y t where "checkKey y = checkKey x" "plain y" "(y, t) \<in> set (cs_said s)"
        "e \<le> t + int latency + PositiveTTL"
        unfolding checker_inv_def cache_backed_def by blast
      moreover from this(1,2) assms(2) have "y = x" using key_inj by blast
      moreover have "t \<le> cs_now s" using assms(1) \<open>(y, t) \<in> set (cs_said s)\<close> unfolding checker_inv_def in_order_def by blast
      ultimately show ?thesis using e(2) by force
    qed
    with inv_tells [OF inv, of "[(x, Some v)]"] g Some show ?thesis by (simp add: check_starts_def)
  qed
qed

lemma inv_joins: "checker_inv latency scope s \<Longrightarrow> checker_inv latency scope (joins s x)"
proof (cases "x \<in> set (cs_missed s)")
  case True
  let ?f = "case cs_flights s (checkKey x) of None \<Rightarrow> \<lparr>fl_asks = x, fl_calls = [x], fl_got = None\<rparr> | Some f \<Rightarrow> f\<lparr>fl_calls := x # fl_calls f\<rparr>"
  assume inv: "checker_inv latency scope s"
  then have "plain x" using True by (simp add: checker_inv_def in_order_def)
  have f: "plain (fl_asks ?f) \<and> checkKey (fl_asks ?f) = checkKey x \<and> (\<forall>y\<in>set (fl_calls ?f). y = fl_asks ?f)"
  proof (cases "cs_flights s (checkKey x)")
    case None
    with \<open>plain x\<close> show ?thesis by simp
  next
    case (Some g)
    with inv have g: "plain (fl_asks g)" "checkKey (fl_asks g) = checkKey x" "\<forall>y\<in>set (fl_calls g). y = fl_asks g"
      by (auto simp: checker_inv_def in_order_def)
    with \<open>plain x\<close> key_inj [of "fl_asks g" x] have "fl_asks g = x" by blast
    with g Some show ?thesis by simp
  qed
  have "air_backed scope (s\<lparr>cs_flights := (cs_flights s)(checkKey x \<mapsto> ?f)\<rparr>)"
    using inv by (auto simp: checker_inv_def air_backed_def split: option.splits)
  moreover have "in_order (s\<lparr>cs_missed := remove1 x (cs_missed s), cs_flights := (cs_flights s)(checkKey x \<mapsto> ?f)\<rparr>)"
    using inv f by (auto simp: checker_inv_def in_order_def dest: notin_set_remove1 [THEN contrapos_pp])
  ultimately show ?thesis using True inv
    by (simp add: joins_def checker_inv_def cache_backed_def air_backed_def told_truly_def)
qed (simp add: joins_def)

lemma inv_upstream: "checker_inv latency scope s \<Longrightarrow> checker_inv latency scope (upstream s key up)"
proof (cases "\<exists>f. cs_flights s key = Some f \<and> fl_got f = None")
  case True
  then obtain f where f: "cs_flights s key = Some f" "fl_got f = None" by blast
  let ?a = "fga_answer s (fl_asks f) up"
  let ?s1 = "hear s (fl_asks f) ?a"
  assume "checker_inv latency scope s"
  then have inv: "checker_inv latency scope ?s1" by (rule inv_hears)
  have "air_backed scope (?s1\<lparr>cs_flights := (cs_flights s)(key \<mapsto> f\<lparr>fl_got := Some (?a, cs_now s)\<rparr>)\<rparr>)"
    unfolding air_backed_def
  proof (intro allI impI)
    fix k g t
    assume "cs_flights (?s1\<lparr>cs_flights := (cs_flights s)(key \<mapsto> f\<lparr>fl_got := Some (?a, cs_now s)\<rparr>)\<rparr>) k = Some g"
      and "scope k" and "fl_got g = Some (Some True, t)"
    with inv f show "(fl_asks g, t) \<in> set (cs_said (?s1\<lparr>cs_flights := (cs_flights s)(key \<mapsto> f\<lparr>fl_got := Some (?a, cs_now s)\<rparr>)\<rparr>))"
      unfolding checker_inv_def air_backed_def by (cases "k = key") force+
  qed
  moreover have "in_order (?s1\<lparr>cs_flights := (cs_flights s)(key \<mapsto> f\<lparr>fl_got := Some (?a, cs_now s)\<rparr>)\<rparr>)"
    using inv f by (auto simp: checker_inv_def in_order_def split: if_splits)
  ultimately have "checker_inv latency scope (?s1\<lparr>cs_flights := (cs_flights s)(key \<mapsto> f\<lparr>fl_got := Some (?a, cs_now s)\<rparr>)\<rparr>)"
    using inv by (simp add: checker_inv_def cache_backed_def told_truly_def)
  with f show ?thesis by (simp add: upstream_def Let_def)
qed (auto simp: upstream_def split: option.split)

lemma inv_lands: "checker_inv latency scope s \<Longrightarrow> checker_inv latency scope (lands latency s key)"
proof -
  assume inv: "checker_inv latency scope s"
  show ?thesis
  proof (cases "\<exists>f a at. cs_flights s key = Some f \<and> fl_got f = Some (a, at) \<and> \<not> at + int latency < cs_now s")
    case False
    then have "lands latency s key = s" by (auto simp: lands_def split: option.split)
    with inv show ?thesis by simp
  next
    case True
    then obtain f a at where f: "cs_flights s key = Some f" "fl_got f = Some (a, at)" "cs_now s \<le> at + int latency" by auto
    with inv have asks: "plain (fl_asks f)" "checkKey (fl_asks f) = key" "\<forall>x\<in>set (fl_calls f). x = fl_asks f"
      by (auto simp: checker_inv_def in_order_def)
    have "(fl_asks f, at) \<in> set (cs_said s)" if "a = Some True" "scope key"
      using inv f that by (auto simp: checker_inv_def air_backed_def)
    with inv have said: "(fl_asks f, at) \<in> set (cs_said s) \<and> at \<le> cs_now s" if "a = Some True" "scope key"
      using that by (auto simp: checker_inv_def in_order_def)
    let ?c = "if a = Some True then ttlPut (cs_now s) (cs_cache s) key True (cs_now s + PositiveTTL) else cs_cache s"
    let ?s1 = "s\<lparr>cs_cache := ?c, cs_flights := (cs_flights s)(key := None)\<rparr>"
    have "cache_backed latency scope ?s1"
      unfolding cache_backed_def
    proof (intro allI impI)
      fix k v e
      assume "(k, v, e) \<in> set (cs_cache ?s1)" and k: "scope k"
      then consider "(k, v, e) \<in> set (cs_cache s)" | "a = Some True" "k = key" "e = cs_now s + PositiveTTL"
        using put_subset [of "cs_now s" "cs_cache s" key True "cs_now s + PositiveTTL"] by (auto split: if_splits)
      then show "\<exists>x t. checkKey x = k \<and> plain x \<and> (x, t) \<in> set (cs_said ?s1) \<and> e \<le> t + int latency + PositiveTTL"
      proof cases
        case 1
        with inv k show ?thesis by (simp add: checker_inv_def cache_backed_def)
      next
        case 2
        with said asks f(3) k show ?thesis by (intro exI [of _ "fl_asks f"] exI [of _ at]) simp
      qed
    qed
    with inv have "checker_inv latency scope ?s1"
      by (auto simp: checker_inv_def in_order_def air_backed_def told_truly_def)
    from inv_tells [OF this, of "map (\<lambda>x. (x, a)) (fl_calls f)"]
    have "checker_inv latency scope (?s1\<lparr>cs_told := map (\<lambda>x. (x, a, cs_now s)) (fl_calls f) @ cs_told s\<rparr>)"
      using said asks f(3) ttl_positive by (force simp: comp_def)
    with f show ?thesis by (simp add: lands_def)
  qed
qed

lemma inv_fresh: "checker_inv latency scope s \<Longrightarrow> checker_inv latency scope (fresh_check s x up)"
proof -
  let ?a = "fga_answer s x up" and ?s1 = "hear s x (fga_answer s x up)"
  assume "checker_inv latency scope s"
  then have "checker_inv latency scope ?s1" by (rule inv_hears)
  then have "checker_inv latency scope (?s1\<lparr>cs_told := map (\<lambda>(x, a). (x, a, cs_now ?s1)) [(x, ?a)] @ cs_told ?s1\<rparr>)"
  proof (rule inv_tells)
    fix y
    assume "(y, Some True) \<in> set [(x, ?a)]"
    then show "\<exists>t'. (y, t') \<in> set (cs_said ?s1) \<and> t' \<le> cs_now ?s1 \<and> cs_now ?s1 < t' + int latency + PositiveTTL"
      using ttl_positive by (intro exI [of _ "cs_now s"]) simp
  qed
  then show ?thesis by (simp add: fresh_check_def Let_def)
qed

lemma inv_evict: "checker_inv latency scope s \<Longrightarrow> checker_inv latency scope (evict s subject)"
  unfolding evict_def by (rule inv_cache_shrinks) (auto simp: ttlDeleteKeyIf_def)

lemma inv_step: "checker_inv latency scope s \<Longrightarrow> plain_event e \<Longrightarrow> checker_inv latency scope (check_step latency s e)"
  by (cases e) (auto simp: inv_starts inv_joins inv_upstream inv_lands inv_fresh inv_evict,
      (fastforce simp: checker_inv_def in_order_def cache_backed_def air_backed_def told_truly_def)+)

lemma inv_run: "checker_inv latency scope s \<Longrightarrow> list_all plain_event es \<Longrightarrow> checker_inv latency scope (check_run latency s es)"
  unfolding check_run_def by (induction es arbitrary: s) (auto intro: inv_step)


lemma inv_new: "checker_inv latency scope (new_checker fga now)"
  by (simp add: checker_inv_def in_order_def cache_backed_def air_backed_def told_truly_def new_checker_def)

text \<open>C40: A cached permission is young. Whatever calls, requests in the air, errors, evictions, clock
  and changes of OpenFGA are interleaved, each time the checker lets a question through, OpenFGA had said
  yes to that very question, and less than thirty seconds and the latency of one request before. So a
  revocation is obeyed by every replica within that window, whether or not anything evicted it.\<close>

theorem permission_is_young:
  assumes "list_all plain_event es"
    and "(x, Some True, t) \<in> set (cs_told (check_run latency (new_checker fga now) es))"
  shows "\<exists>t'. (x, t') \<in> set (cs_said (check_run latency (new_checker fga now) es)) \<and>
              t' \<le> t \<and> t < t' + int latency + PositiveTTL"
  using inv_run [OF inv_new assms(1), of latency "\<lambda>_. True" fga now] assms(2)
  unfolding checker_inv_def told_truly_def by blast

definition demo_question :: question where
  "demo_question = Question ''user:u'' ''can_view'' ''workspace:a''"

definition demo_calls :: "check_event list" where
  "demo_calls = [CheckStarts demo_question, Joins demo_question, Upstream (checkKey demo_question) True,
     Lands (checkKey demo_question), FgaBecomes (\<lambda>_. False), ClockAdvances 29000000000, CheckStarts demo_question]"

theorem permission_is_young_witness:
  "\<exists>t'. (demo_question, t') \<in> set (cs_said (check_run 5000000000 (new_checker (\<lambda>_. True) 0) demo_calls)) \<and>
        t' \<le> 29000000000 \<and> 29000000000 < t' + int 5000000000 + PositiveTTL"
proof (rule permission_is_young)
  show "list_all plain_event demo_calls" by (simp add: demo_calls_def demo_question_def)
  show "(demo_question, Some True, 29000000000) \<in> set (cs_told (check_run 5000000000 (new_checker (\<lambda>_. True) 0) demo_calls))"
    by (simp add: demo_calls_def check_run_def new_checker_def check_starts_def joins_def upstream_def lands_def hear_def
        fga_answer_def ttlGet_def ttlPut_def ttlRoom_def CacheMax_def PositiveTTL_def Let_def)
qed

section \<open>Eviction\<close>

text \<open>After the eviction of a subject with none of its requests in the air, nothing of before is left: the
  history may start anew.\<close>

definition air_clear :: "string \<Rightarrow> check_state \<Rightarrow> bool" where
  "air_clear subject s \<longleftrightarrow> (\<forall>k f. cs_flights s k = Some f \<longrightarrow> subject_key subject k \<longrightarrow> fl_got f = None)"

lemma subject_key_iff [simp]: "subject_key subject (checkKey (Question subject relation obj))"
  by (simp add: subject_key_def)

lemma inv_evicted:
  assumes "in_order s" and "air_clear subject s"
  shows "checker_inv latency (subject_key subject) (evict s subject\<lparr>cs_said := [], cs_told := []\<rparr>)"
  using assms
  by (auto simp: checker_inv_def in_order_def cache_backed_def air_backed_def told_truly_def evict_def
      ttlDeleteKeyIf_def air_clear_def)

text \<open>An eviction is final on its replica, as long as no request of the subject has its verdict and is yet
  to land. From then on, the checker lets a question of the subject through only when OpenFGA said yes to it
  after the eviction.\<close>

theorem eviction_is_final:
  assumes "list_all plain_event before" and "list_all plain_event after"
    and "s = check_run latency (new_checker fga now) before" and "air_clear subject s"
    and "(Question subject relation obj, Some True, t) \<in> set (cs_told (check_run latency (evict s subject\<lparr>cs_said := [], cs_told := []\<rparr>) after))"
  shows "\<exists>t'. (Question subject relation obj, t') \<in> set (cs_said (check_run latency (evict s subject\<lparr>cs_said := [], cs_told := []\<rparr>) after)) \<and> t' \<le> t"
proof -
  have "in_order s"
    using inv_run [OF inv_new assms(1), of latency "\<lambda>_. True" fga now] assms(3) by (simp add: checker_inv_def)
  from inv_run [OF inv_evicted [OF this assms(4)] assms(2), of latency] assms(5)
  show ?thesis unfolding checker_inv_def told_truly_def using subject_key_iff by blast
qed

theorem eviction_is_final_witness:
  "\<exists>t'. (demo_question, t') \<in> set (cs_said (check_run 5000000000
     (evict (check_run 5000000000 (new_checker (\<lambda>_. True) 0) demo_calls) ''user:u''\<lparr>cs_said := [], cs_told := []\<rparr>)
     [FgaBecomes (\<lambda>_. True), FreshCheck demo_question True])) \<and> t' \<le> 29000000000"
  unfolding demo_question_def
proof (rule eviction_is_final)
  show "list_all plain_event demo_calls" by (simp add: demo_calls_def demo_question_def)
  show "air_clear ''user:u'' (check_run 5000000000 (new_checker (\<lambda>_. True) 0) demo_calls)"
    by (simp add: air_clear_def demo_calls_def check_run_def new_checker_def check_starts_def joins_def upstream_def lands_def hear_def
        fga_answer_def ttlGet_def ttlPut_def ttlRoom_def CacheMax_def PositiveTTL_def Let_def)
  show "(Question ''user:u'' ''can_view'' ''workspace:a'', Some True, 29000000000) \<in> set (cs_told (check_run 5000000000
     (evict (check_run 5000000000 (new_checker (\<lambda>_. True) 0) demo_calls) ''user:u''\<lparr>cs_said := [], cs_told := []\<rparr>)
     [FgaBecomes (\<lambda>_. True), FreshCheck (Question ''user:u'' ''can_view'' ''workspace:a'') True]))"
    by (simp add: demo_calls_def check_run_def new_checker_def check_starts_def joins_def upstream_def lands_def hear_def evict_def
        fresh_check_def fga_answer_def ttlGet_def ttlPut_def ttlRoom_def ttlDeleteKeyIf_def CacheMax_def PositiveTTL_def Let_def)
qed simp_all

text \<open>With a request in the air it is not: the answer from before the revocation is put after the eviction, and
  a check that starts later still passes, though OpenFGA says no.\<close>

lemma revoked_and_allowed:
  "(demo_question, Some True, 2) \<in> set (cs_told (check_run 5000000000 (new_checker (\<lambda>_. True) 0)
     [CheckStarts demo_question, Joins demo_question, Upstream (checkKey demo_question) True, ClockAdvances 1,
      FgaBecomes (\<lambda>_. False), Evict ''user:u'', Lands (checkKey demo_question), ClockAdvances 1, CheckStarts demo_question]))"
  by (simp add: demo_question_def check_run_def new_checker_def check_starts_def joins_def upstream_def lands_def hear_def evict_def
      fga_answer_def ttlGet_def ttlPut_def ttlRoom_def ttlDeleteKeyIf_def CacheMax_def PositiveTTL_def Let_def)

section \<open>Room\<close>

lemma starts_ok: "ttl_ok (cs_cache s) \<Longrightarrow> ttl_ok (cs_cache (check_starts s x))"
  using ttl_ok_ops(1) [of "cs_cache s" "cs_now s" "checkKey x"]
  by (cases "ttlGet (cs_now s) (cs_cache s) (checkKey x)") (simp add: check_starts_def split: option.split)

lemma step_ok: "ttl_ok (cs_cache s) \<Longrightarrow> ttl_ok (cs_cache (check_step latency s e))"
  by (cases e) (auto simp: starts_ok joins_def upstream_def lands_def fresh_check_def evict_def Let_def
      ttl_ok_ops split: option.split)

lemma run_settled: "ttl_ok (cs_cache s) \<Longrightarrow> ttl_ok (cs_cache (check_run latency s es))"
  unfolding check_run_def by (induction es arbitrary: s) (auto intro: step_ok)

text \<open>Refusals are not kept: a call that finds no entry and sends its own request is told the verdict of the
  moment OpenFGA is asked.\<close>

lemma grant_is_immediate:
  assumes "map_of (cs_cache s) (checkKey x) = None" and "cs_flights s (checkKey x) = None"
  shows "cs_told (check_run latency s [CheckStarts x, Joins x, Upstream (checkKey x) True, Lands (checkKey x)]) =
           (x, Some (cs_fga s x), cs_now s) # cs_told s"
  using assms by (simp add: check_run_def check_starts_def ttlGet_def joins_def upstream_def lands_def fga_answer_def hear_def Let_def)

section \<open>The workspace resolver\<close>

text \<open>\<open>tenantService\<close> of \<open>backend/internal/api/tenancy.go\<close> keeps two such caches over \<open>tenant_members\<close>: the default
  workspace of a caller and their membership in a named one.\<close>

record tenant_service =
  ts_cache :: "string ttl_cache"
  ts_members :: "string ttl_cache"

definition methodSession :: string where "methodSession = ''session''"
definition methodOAuth2 :: string where "methodOAuth2 = ''oauth2''"

definition tenantKey :: "string \<Rightarrow> string \<Rightarrow> string" where
  "tenantKey meth subject = meth @ '':'' @ subject"

definition memberKey :: "string \<Rightarrow> string \<Rightarrow> string \<Rightarrow> string" where
  "memberKey meth subject tenantID = tenantKey meth subject @ '':'' @ tenantID"

definition tenantOf ::
  "int \<Rightarrow> (string \<Rightarrow> string option) \<Rightarrow> string \<Rightarrow> string \<Rightarrow> tenant_service \<Rightarrow> string option \<times> tenant_service" where
  "tenantOf now store meth subject t =
     (case ttlGet now (ts_cache t) (tenantKey meth subject) of
        (Some tid, c) \<Rightarrow> (Some tid, t\<lparr>ts_cache := c\<rparr>)
      | (None, c) \<Rightarrow>
          (case store subject of
             None \<Rightarrow> (None, t\<lparr>ts_cache := c\<rparr>)
           | Some tid \<Rightarrow> (Some tid, t\<lparr>ts_cache := ttlPut now c (tenantKey meth subject) tid (now + PositiveTTL)\<rparr>)))"

definition isMember ::
  "int \<Rightarrow> (string \<Rightarrow> string \<Rightarrow> bool option) \<Rightarrow> string \<Rightarrow> string \<Rightarrow> string \<Rightarrow> tenant_service \<Rightarrow> bool option \<times> tenant_service" where
  "isMember now store meth subject tenantID t =
     (case ttlGet now (ts_members t) (memberKey meth subject tenantID) of
        (Some _, c) \<Rightarrow> (Some True, t\<lparr>ts_members := c\<rparr>)
      | (None, c) \<Rightarrow>
          (case store subject tenantID of
             Some True \<Rightarrow> (Some True, t\<lparr>ts_members := ttlPut now c (memberKey meth subject tenantID) tenantID (now + PositiveTTL)\<rparr>)
           | r \<Rightarrow> (r, t\<lparr>ts_members := c\<rparr>)))"

definition InvalidateTenant :: "string \<Rightarrow> tenant_service \<Rightarrow> tenant_service" where
  "InvalidateTenant subject t =
     t\<lparr>ts_cache := ttlDelete (ttlDelete (ts_cache t) (tenantKey methodSession subject)) (tenantKey methodOAuth2 subject)\<rparr>"

definition InvalidateMembership :: "string \<Rightarrow> string \<Rightarrow> tenant_service \<Rightarrow> tenant_service" where
  "InvalidateMembership subject tenantID t =
     t\<lparr>ts_members := ttlDelete (ttlDelete (ts_members t) (memberKey methodSession subject tenantID)) (memberKey methodOAuth2 subject tenantID)\<rparr>"

lemma get_deleted: "map_of c key = None \<Longrightarrow> ttlGet now c key = (None, c)"
  by (simp add: ttlGet_def)

lemma invalidated_asks_store:
  assumes "meth = methodSession \<or> meth = methodOAuth2"
  shows "fst (tenantOf now store meth subject (InvalidateTenant subject t)) = store subject"
    and "fst (isMember now member meth subject tenantID (InvalidateMembership subject tenantID t)) = member subject tenantID"
  using assms
  by (auto simp: tenantOf_def isMember_def InvalidateTenant_def InvalidateMembership_def ttlDelete_def get_deleted
      delete_conv split: option.split bool.split)

end
