(* ===== verification/ApiKeys.thy ===== *)
theory ApiKeys
  imports DecisionCache AppLookup
begin

text \<open>
  The life of a machine credential (\<open>backend/internal/apikeys/service.go\<close> and the key binding of
  \<open>backend/internal/api/tenancy.go\<close>): a client of Hydra, its row in \<open>tenant_members\<close> and its role tuple in OpenFGA are
  three records in three places, written one after the other by calls that may fail.

  Each call has an outcome: it was done, it was not, or it was done and its answer got lost. A verb takes
  the outcomes of its calls; the caches of the workspace resolver are those of \<open>DecisionCache\<close>.
\<close>

section \<open>Three places\<close>

datatype outcome = Done | Lost | Down

record key_client =
  kc_marker :: bool
  kc_createdBy :: string

record key_world =
  kw_clients :: "(string \<times> key_client) list"
  kw_rows :: "string \<Rightarrow> string option"
  kw_tuples :: "string \<Rightarrow> string \<Rightarrow> bool"
  kw_revoked :: "string \<Rightarrow> bool"
  kw_deleting :: "string \<Rightarrow> bool"
  kw_granter :: bool
  kw_service :: tenant_service
  kw_now :: int

definition call :: "outcome \<Rightarrow> (key_world \<Rightarrow> key_world) \<Rightarrow> key_world \<Rightarrow> bool \<times> key_world" where
  "call out f w = (out = Done, if out = Down then w else f w)"

definition bindClient :: "string \<Rightarrow> string \<Rightarrow> key_world \<Rightarrow> key_world" where
  "bindClient cid tenantID w = w\<lparr>kw_rows := (kw_rows w)(cid \<mapsto> tenantID)\<rparr>"

definition unbindClient :: "string \<Rightarrow> key_world \<Rightarrow> key_world" where
  "unbindClient cid w = w\<lparr>kw_revoked := (kw_revoked w)(cid := True), kw_rows := (kw_rows w)(cid := None)\<rparr>"

definition grantMember :: "string \<Rightarrow> string \<Rightarrow> key_world \<Rightarrow> key_world" where
  "grantMember cid tenantID w = w\<lparr>kw_tuples := (kw_tuples w)(cid := (kw_tuples w cid)(tenantID := True))\<rparr>"

definition revokeMember :: "string \<Rightarrow> string \<Rightarrow> key_world \<Rightarrow> key_world" where
  "revokeMember cid tenantID w = w\<lparr>kw_tuples := (kw_tuples w)(cid := (kw_tuples w cid)(tenantID := False))\<rparr>"

definition createClient :: "string \<Rightarrow> string \<Rightarrow> key_world \<Rightarrow> key_world" where
  "createClient cid createdBy w =
     w\<lparr>kw_clients := kw_clients w @ [(cid, \<lparr>kc_marker = True, kc_createdBy = createdBy\<rparr>)]\<rparr>"

definition deleteClient :: "string \<Rightarrow> key_world \<Rightarrow> key_world" where
  "deleteClient cid w = w\<lparr>kw_clients := filter (\<lambda>(i, c). i \<noteq> cid) (kw_clients w)\<rparr>"

section \<open>Hydra\<close>

text \<open>The list follows the cursors of the server for at most twenty pages.\<close>

definition hydraClientPageSize :: nat where "hydraClientPageSize = 500"
definition hydraClientMaxPages :: nat where "hydraClientMaxPages = 20"

fun hydraList :: "nat \<Rightarrow> (string \<Rightarrow> ((string \<times> key_client) list \<times> string) option) \<Rightarrow> string \<Rightarrow> (string \<times> key_client) list option" where
  "hydraList 0 page next' = Some []"
| "hydraList (Suc n) page next' =
     (case page next' of
        None \<Rightarrow> None
      | Some (clients, link) \<Rightarrow>
          let keys = filter (\<lambda>(i, c). kc_marker c) clients in
          if link = [] then Some keys else map_option (\<lambda>rest. keys @ rest) (hydraList n page link))"

text \<open>A server that serves a list of pages, each linking to the next.\<close>

fun serves :: "(string \<Rightarrow> ((string \<times> key_client) list \<times> string) option) \<Rightarrow> string \<Rightarrow> (string \<times> key_client) list list \<Rightarrow> bool" where
  "serves page next' [] \<longleftrightarrow> False"
| "serves page next' (p # ps) \<longleftrightarrow>
     (\<exists>link. page next' = Some (p, link) \<and> (if ps = [] then link = [] else link \<noteq> [] \<and> serves page link ps))"

lemma hydraList_complete:
  "serves page next' ps \<Longrightarrow> hydraList n page next' = Some (filter (\<lambda>(i, c). kc_marker c) (concat (take n ps)))"
proof (induction ps arbitrary: n next')
  case (Cons p ps)
  then show ?case by (cases n) (auto split: if_splits)
qed simp

text \<open>What \<open>List\<close> answers: the marked clients of the first ten thousand.\<close>

definition keyList :: "bool \<Rightarrow> key_world \<Rightarrow> (string \<times> key_client) list option" where
  "keyList up w =
     (if up then Some (filter (\<lambda>(i, c). kc_marker c) (take (hydraClientPageSize * hydraClientMaxPages) (kw_clients w))) else None)"

definition getAPIKey :: "bool \<Rightarrow> string \<Rightarrow> key_world \<Rightarrow> key_client got" where
  "getAPIKey up cid w =
     (if \<not> up then GotErr
      else (case map_of (kw_clients w) cid of None \<Rightarrow> GotNone | Some c \<Rightarrow> if kc_marker c then Got c else GotNone))"

datatype key_error =
    KeyAuth core_error | KeyUnavailable | KeyBlank | KeyNoTenant | KeyRate | KeyLimit | KeyDeleting | KeyCall
  | KeyNotFound | KeyElsewhere | KeyForbidden | KeyNoScope

definition hydraDelete :: "bool \<Rightarrow> outcome \<Rightarrow> string \<Rightarrow> key_world \<Rightarrow> key_error option \<times> key_world" where
  "hydraDelete up out cid w =
     (case getAPIKey up cid w of
        GotErr \<Rightarrow> (Some KeyCall, w)
      | GotNone \<Rightarrow> (Some KeyNotFound, w)
      | Got c \<Rightarrow> (case call out (deleteClient cid) w of (ok, w') \<Rightarrow> (if ok then None else Some KeyCall, w')))"

definition KeyOwner :: "bool \<Rightarrow> string \<Rightarrow> key_world \<Rightarrow> string option" where
  "KeyOwner up cid w =
     (case getAPIKey up cid w of Got c \<Rightarrow> if kc_createdBy c \<noteq> [] then Some (kc_createdBy c) else None | _ \<Rightarrow> None)"

section \<open>The binding\<close>

definition tenantForKey :: "bool \<Rightarrow> string \<Rightarrow> key_world \<Rightarrow> string option \<times> key_world" where
  "tenantForKey up cid w =
     (case tenantOf (kw_now w) (\<lambda>s. if up then kw_rows w s else None) methodOAuth2 cid (kw_service w) of
        (t, svc) \<Rightarrow> (t, w\<lparr>kw_service := svc\<rparr>))"

record bind_calls =
  bc_bind :: outcome
  bc_grant :: outcome
  bc_undo :: outcome

definition BindKey :: "bind_calls \<Rightarrow> string \<Rightarrow> string \<Rightarrow> key_world \<Rightarrow> bool \<times> key_world" where
  "BindKey o' cid tenantID w =
     (case call (bc_bind o') (bindClient cid tenantID) w of
        (False, w1) \<Rightarrow> (False, w1)
      | (True, w1) \<Rightarrow>
          if \<not> kw_granter w1 then (True, w1)
          else (case call (bc_grant o') (grantMember cid tenantID) w1 of
                  (True, w2) \<Rightarrow> (True, w2)
                | (False, w2) \<Rightarrow> (False, snd (call (bc_undo o') (unbindClient cid) w2))))"

record unbind_calls =
  uc_look :: bool
  uc_revoke :: outcome
  uc_unbind :: outcome

definition UnbindKey :: "unbind_calls \<Rightarrow> string \<Rightarrow> key_world \<Rightarrow> bool \<times> key_world" where
  "UnbindKey o' cid w =
     (if \<not> uc_look o' then (False, w)
      else
        (case (case kw_rows w cid of
                 Some t \<Rightarrow> if kw_granter w then call (uc_revoke o') (revokeMember cid t) w else (True, w)
               | None \<Rightarrow> (True, w)) of
           (False, w1) \<Rightarrow> (False, w1)
         | (True, w1) \<Rightarrow> call (uc_unbind o') (unbindClient cid) w1))"

section \<open>Minting\<close>

fun count_active :: "(string \<Rightarrow> bool) \<Rightarrow> string \<Rightarrow> string list \<Rightarrow> key_world \<Rightarrow> nat \<times> key_world" where
  "count_active up tenantID [] w = (0, w)"
| "count_active up tenantID (i # is) w =
     (case tenantForKey (up i) i w of
        (t, w1) \<Rightarrow> (case count_active up tenantID is w1 of (n, w2) \<Rightarrow> (if t = Some tenantID then Suc n else n, w2)))"

definition refuseDeletingCreator :: "bool \<Rightarrow> string \<Rightarrow> key_world \<Rightarrow> key_error option" where
  "refuseDeletingCreator up subject w =
     (if subject = [] then None else if \<not> up then Some KeyCall else if kw_deleting w subject then Some KeyDeleting else None)"

record create_calls =
  cc_tomb :: bool
  cc_list :: bool
  cc_up :: "string \<Rightarrow> bool"
  cc_create :: outcome
  cc_bind :: bind_calls
  cc_dies :: bool
  cc_tomb2 :: bool
  cc_unbind :: unbind_calls
  cc_get :: bool
  cc_delete :: outcome

text \<open>\<open>cc_dies\<close>: the deletion of the account of the creator commits while the key is being issued.\<close>

definition createBoundAPIKey ::
  "nat \<Rightarrow> create_calls \<Rightarrow> string \<Rightarrow> string \<Rightarrow> string \<Rightarrow> key_world \<Rightarrow> (key_error + string) \<times> key_world" where
  "createBoundAPIKey quota o' cid tenantID createdBy w =
     (case refuseDeletingCreator (cc_tomb o') createdBy w of
        Some e \<Rightarrow> (Inl e, w)
      | None \<Rightarrow>
          (case keyList (cc_list o') w of
             None \<Rightarrow> (Inl KeyCall, w)
           | Some keys \<Rightarrow>
               (case count_active (cc_up o') tenantID (map fst keys) w of
                  (active, w1) \<Rightarrow>
                    if quota \<le> active then (Inl KeyLimit, w1)
                    else
                      (case call (cc_create o') (createClient cid createdBy) w1 of
                         (False, w2) \<Rightarrow> (Inl KeyCall, w2)
                       | (True, w2) \<Rightarrow>
                           (case BindKey (cc_bind o') cid tenantID w2 of
                              (False, w3) \<Rightarrow> (Inl KeyCall, snd (hydraDelete (cc_get o') (cc_delete o') cid w3))
                            | (True, w3) \<Rightarrow>
                                let w4 = (if cc_dies o' then w3\<lparr>kw_deleting := (kw_deleting w3)(createdBy := True)\<rparr> else w3) in
                                (case refuseDeletingCreator (cc_tomb2 o') createdBy w4 of
                                   Some e \<Rightarrow>
                                     (Inl e, snd (hydraDelete (cc_get o') (cc_delete o') cid (snd (UnbindKey (cc_unbind o') cid w4))))
                                 | None \<Rightarrow> (Inr cid, w4)))))))"

definition defaultMaxActiveKeys :: nat where "defaultMaxActiveKeys = 20"

definition activeKeyQuota :: "int \<Rightarrow> nat" where
  "activeKeyQuota maxActive = (if 0 < maxActive then nat maxActive else defaultMaxActiveKeys)"

text \<open>\<open>wired\<close>: the client registry is there; \<open>fresh\<close>: the answer of the bearer validator; \<open>allow\<close>: of the rate limiter.\<close>

definition CreateAPIKey ::
  "base \<Rightarrow> request \<Rightarrow> core_error option option \<Rightarrow> bool \<Rightarrow> bool \<Rightarrow> int \<Rightarrow> create_calls \<Rightarrow> string \<Rightarrow> string \<Rightarrow> string \<Rightarrow> key_world \<Rightarrow>
     (key_error + string) \<times> key_world" where
  "CreateAPIKey b q0 fresh wired allow maxActive o' cid ownerID name w =
     (case AuthorizeMintClass b q0 fresh of
        Some e \<Rightarrow> (Inl (KeyAuth e), w)
      | None \<Rightarrow>
          let q = (if ownerID = [] then q0 else q0\<lparr>rq_named := ownerID\<rparr>) in
          (case fst (Authorize b q RelCanManageKeys) of
             Some e \<Rightarrow> (Inl (KeyAuth e), w)
           | None \<Rightarrow>
               (case AuthorizeFresh b q RelCanManageKeys of
                  Some e \<Rightarrow> (Inl (KeyAuth e), w)
                | None \<Rightarrow>
                    if \<not> wired then (Inl KeyUnavailable, w)
                    else if trim_space name = [] then (Inl KeyBlank, w)
                    else (case Tenant b q of
                            None \<Rightarrow> (Inl KeyNoTenant, w)
                          | Some tenantID \<Rightarrow>
                              if \<not> allow then (Inl KeyRate, w)
                              else createBoundAPIKey (activeKeyQuota maxActive) o' cid tenantID (id_subject (caller q)) w))))"

section \<open>Revoking\<close>

record revoke_calls =
  rc_scope :: bool
  rc_owner :: bool
  rc_unbind :: unbind_calls
  rc_get :: bool
  rc_delete :: outcome

text \<open>The key is looked up for its workspace only when the request names none.\<close>

definition scope_reads :: "base \<Rightarrow> request \<Rightarrow> string \<Rightarrow> bool" where
  "scope_reads b q ownerID \<longleftrightarrow> ownerID = [] \<and> rq_named q = [] \<and> ba_workspace b \<noteq> None \<and> rq_identity q \<noteq> None"

definition revokeScope ::
  "base \<Rightarrow> request \<Rightarrow> bool \<Rightarrow> string \<Rightarrow> string \<Rightarrow> key_world \<Rightarrow> (core_error + request) \<times> key_world" where
  "revokeScope b q up ownerID cid w =
     (case (if scope_reads b q ownerID then tenantForKey up cid w else (None, w)) of
        (t, w1) \<Rightarrow> (ScopeByID b q ownerID (Some (Inr (case t of None \<Rightarrow> [] | Some t \<Rightarrow> [t]))), w1))"

definition RevokeAPIKey ::
  "base \<Rightarrow> request \<Rightarrow> bool \<Rightarrow> revoke_calls \<Rightarrow> string \<Rightarrow> string \<Rightarrow> key_world \<Rightarrow> key_error option \<times> key_world" where
  "RevokeAPIKey b q0 wired o' ownerID cid w =
     (case revokeScope b q0 (rc_scope o') ownerID cid w of
        (Inl e, w1) \<Rightarrow> (Some (KeyAuth e), w1)
      | (Inr q, w1) \<Rightarrow>
          (case fst (Authorize b q RelCanManageKeys) of
             Some e \<Rightarrow> (Some (KeyAuth e), w1)
           | None \<Rightarrow>
               if \<not> wired then (Some KeyUnavailable, w1)
               else
                 (case Tenant b q of
                    None \<Rightarrow> (Some KeyForbidden, w1)
                  | Some tenantID \<Rightarrow>
                      (case tenantForKey (rc_owner o') cid w1 of
                         (None, w2) \<Rightarrow> (Some KeyNotFound, w2)
                       | (Some owner, w2) \<Rightarrow>
                           if owner \<noteq> tenantID then (Some KeyElsewhere, w2)
                           else (case UnbindKey (rc_unbind o') cid w2 of
                                   (False, w3) \<Rightarrow> (Some KeyCall, w3)
                                 | (True, w3) \<Rightarrow> hydraDelete (rc_get o') (rc_delete o') cid w3)))))"

fun keep_bound :: "(string \<Rightarrow> bool) \<Rightarrow> string \<Rightarrow> (string \<times> key_client) list \<Rightarrow> key_world \<Rightarrow> (string \<times> key_client) list \<times> key_world" where
  "keep_bound up tenantID [] w = ([], w)"
| "keep_bound up tenantID ((i, c) # ks) w =
     (case tenantForKey (up i) i w of
        (t, w1) \<Rightarrow> (case keep_bound up tenantID ks w1 of (out, w2) \<Rightarrow> (if t = Some tenantID then (i, c) # out else out, w2)))"

definition ListAPIKeys ::
  "base \<Rightarrow> request \<Rightarrow> bool \<Rightarrow> bool \<Rightarrow> (string \<Rightarrow> bool) \<Rightarrow> string \<Rightarrow> key_world \<Rightarrow> (key_error + (string \<times> key_client) list) \<times> key_world" where
  "ListAPIKeys b q0 wired list up ownerID w =
     (let q = (if ownerID = [] then q0 else q0\<lparr>rq_named := ownerID\<rparr>) in
      (case fst (Authorize b q RelCanManageKeys) of
         Some e \<Rightarrow> (Inl (KeyAuth e), w)
       | None \<Rightarrow>
           if \<not> wired then (Inl KeyUnavailable, w)
           else (case keyList list w of
                   None \<Rightarrow> (Inl KeyCall, w)
                 | Some keys \<Rightarrow>
                     (case Tenant b q of
                        None \<Rightarrow> (Inr [], w)
                      | Some t \<Rightarrow> (case keep_bound up t keys w of (out, w1) \<Rightarrow> (Inr out, w1))))))"

text \<open>The teardown of the keys one subject created, everywhere or in one workspace.\<close>

fun cleanup_keys ::
  "(string \<Rightarrow> revoke_calls) \<Rightarrow> string \<Rightarrow> string \<Rightarrow> (string \<times> key_client) list \<Rightarrow> key_world \<Rightarrow> (string list \<times> key_error option) \<times> key_world" where
  "cleanup_keys o' subject workspaceID [] w = (([], None), w)"
| "cleanup_keys o' subject workspaceID ((i, c) # ks) w =
     (if kc_createdBy c \<noteq> subject then cleanup_keys o' subject workspaceID ks w
      else
        (case (if workspaceID = [] then (True, w)
               else (case tenantForKey (rc_owner (o' i)) i w of (t, w1) \<Rightarrow> (t = Some workspaceID, w1))) of
           (False, w1) \<Rightarrow> cleanup_keys o' subject workspaceID ks w1
         | (True, w1) \<Rightarrow>
             (case UnbindKey (rc_unbind (o' i)) i w1 of
                (False, w2) \<Rightarrow> (([], Some KeyCall), w2)
              | (True, w2) \<Rightarrow>
                  (case hydraDelete (rc_get (o' i)) (rc_delete (o' i)) i w2 of
                     (e, w3) \<Rightarrow>
                       if e \<noteq> None \<and> e \<noteq> Some KeyNotFound then (([], e), w3)
                       else (case cleanup_keys o' subject workspaceID ks w3 of
                               ((ids, e'), w4) \<Rightarrow> ((i # ids, e'), w4))))))"

definition cleanup ::
  "bool \<Rightarrow> (string \<Rightarrow> revoke_calls) \<Rightarrow> string \<Rightarrow> string \<Rightarrow> key_world \<Rightarrow> (string list \<times> key_error option) \<times> key_world" where
  "cleanup list o' subject workspaceID w =
     (case keyList list w of
        None \<Rightarrow> (([], Some KeyCall), w)
      | Some keys \<Rightarrow> cleanup_keys o' subject workspaceID keys w)"

definition CleanupSubject :: "bool \<Rightarrow> (string \<Rightarrow> revoke_calls) \<Rightarrow> string \<Rightarrow> key_world \<Rightarrow> key_error option \<times> key_world" where
  "CleanupSubject list o' subject w = (case cleanup list o' subject [] w of ((ids, e), w') \<Rightarrow> (e, w'))"

definition CleanupSubjectInWorkspace ::
  "bool \<Rightarrow> (string \<Rightarrow> revoke_calls) \<Rightarrow> string \<Rightarrow> string \<Rightarrow> key_world \<Rightarrow> (string list \<times> key_error option) \<times> key_world" where
  "CleanupSubjectInWorkspace list o' subject workspaceID w =
     (if workspaceID = [] then (([], Some KeyBlank), w) else cleanup list o' subject workspaceID w)"

section \<open>No authority without its row\<close>

text \<open>A live tuple is anchored when the row that leads a retry to it is still there.\<close>

definition anchored :: "key_world \<Rightarrow> bool" where
  "anchored w \<longleftrightarrow> (\<forall>i t. kw_tuples w i t \<longrightarrow> kw_rows w i = Some t)"

text \<open>Nothing is left of a key: no role, no row; its tokens are refused.\<close>

definition powerless :: "key_world \<Rightarrow> string \<Rightarrow> bool" where
  "powerless w i \<longleftrightarrow> kw_rows w i = None \<and> (\<forall>t. \<not> kw_tuples w i t) \<and> kw_revoked w i"

lemma tenantForKey_keeps [simp]:
  "kw_rows (snd (tenantForKey up i w)) = kw_rows w" "kw_tuples (snd (tenantForKey up i w)) = kw_tuples w"
  "kw_clients (snd (tenantForKey up i w)) = kw_clients w" "kw_revoked (snd (tenantForKey up i w)) = kw_revoked w"
  "kw_granter (snd (tenantForKey up i w)) = kw_granter w" "kw_deleting (snd (tenantForKey up i w)) = kw_deleting w"
  "kw_now (snd (tenantForKey up i w)) = kw_now w"
  by (simp_all add: tenantForKey_def split: prod.split)

lemma hydraDelete_keeps [simp]:
  "kw_rows (snd (hydraDelete up out i w)) = kw_rows w" "kw_tuples (snd (hydraDelete up out i w)) = kw_tuples w"
  "kw_revoked (snd (hydraDelete up out i w)) = kw_revoked w" "kw_granter (snd (hydraDelete up out i w)) = kw_granter w"
  "kw_service (snd (hydraDelete up out i w)) = kw_service w" "kw_now (snd (hydraDelete up out i w)) = kw_now w"
  "kw_deleting (snd (hydraDelete up out i w)) = kw_deleting w"
  by (simp_all add: hydraDelete_def call_def deleteClient_def split: got.split)

lemma UnbindKey_keeps [simp]:
  "kw_clients (snd (UnbindKey o' i w)) = kw_clients w" "kw_granter (snd (UnbindKey o' i w)) = kw_granter w"
  "kw_service (snd (UnbindKey o' i w)) = kw_service w" "kw_now (snd (UnbindKey o' i w)) = kw_now w"
  "kw_deleting (snd (UnbindKey o' i w)) = kw_deleting w"
  by (simp_all add: UnbindKey_def call_def revokeMember_def unbindClient_def split: option.split bool.split)

lemma UnbindKey_others:
  "j \<noteq> i \<Longrightarrow> kw_rows (snd (UnbindKey o' i w)) j = kw_rows w j \<and> kw_tuples (snd (UnbindKey o' i w)) j = kw_tuples w j"
  by (simp add: UnbindKey_def call_def revokeMember_def unbindClient_def split: option.split bool.split)

lemma unbind_anchored: "anchored w \<Longrightarrow> kw_granter w \<Longrightarrow> anchored (snd (UnbindKey o' i w))"
  by (auto simp: anchored_def UnbindKey_def call_def revokeMember_def unbindClient_def split: option.splits bool.splits)

lemma unbind_powerless: "anchored w \<Longrightarrow> kw_granter w \<Longrightarrow> fst (UnbindKey o' i w) \<Longrightarrow> powerless (snd (UnbindKey o' i w)) i"
  by (auto simp: anchored_def powerless_def UnbindKey_def call_def revokeMember_def unbindClient_def
      split: option.splits bool.splits if_splits)

lemma UnbindKey_revoked: "j \<noteq> i \<Longrightarrow> kw_revoked (snd (UnbindKey o' i w)) j = kw_revoked w j"
  by (simp add: UnbindKey_def call_def revokeMember_def unbindClient_def split: option.split bool.split)

lemma deleted_only:
  "fst (hydraDelete up out i w) = None \<Longrightarrow> kw_clients (snd (hydraDelete up out i w)) = filter (\<lambda>(j, c). j \<noteq> i) (kw_clients w)"
  by (auto simp: hydraDelete_def call_def deleteClient_def split: got.splits if_splits)

lemma deleted_gone: "fst (hydraDelete up out i w) = None \<Longrightarrow> i \<notin> fst ` set (kw_clients (snd (hydraDelete up out i w)))"
  by (auto simp: hydraDelete_def call_def deleteClient_def split: got.splits if_splits)

lemma revoked_cases:
  assumes "RevokeAPIKey b q wired o' ownerID i w = (None, w')"
  obtains w2 where "anchored w2 = anchored w" "kw_granter w2 = kw_granter w" "kw_clients w2 = kw_clients w"
    "kw_rows w2 = kw_rows w" "kw_tuples w2 = kw_tuples w" "kw_revoked w2 = kw_revoked w" "kw_deleting w2 = kw_deleting w"
    "fst (UnbindKey (rc_unbind o') i w2)" "fst (hydraDelete (rc_get o') (rc_delete o') i (snd (UnbindKey (rc_unbind o') i w2))) = None"
    "w' = snd (hydraDelete (rc_get o') (rc_delete o') i (snd (UnbindKey (rc_unbind o') i w2)))"
proof -
  obtain r w1 where s: "revokeScope b q (rc_scope o') ownerID i w = (r, w1)" by fastforce
  then have w1: "w1 = w \<or> w1 = snd (tenantForKey (rc_scope o') i w)"
    by (auto simp: revokeScope_def split: prod.splits if_splits)
  obtain t w2 where t: "tenantForKey (rc_owner o') i w1 = (t, w2)" by fastforce
  then have "w2 = snd (tenantForKey (rc_owner o') i w1)" by simp
  with w1 have same: "anchored w2 = anchored w" "kw_granter w2 = kw_granter w" "kw_clients w2 = kw_clients w"
    "kw_rows w2 = kw_rows w" "kw_tuples w2 = kw_tuples w" "kw_revoked w2 = kw_revoked w" "kw_deleting w2 = kw_deleting w"
    by (auto simp: anchored_def)
  from assms s t have "fst (UnbindKey (rc_unbind o') i w2)"
    "hydraDelete (rc_get o') (rc_delete o') i (snd (UnbindKey (rc_unbind o') i w2)) = (None, w')"
    by (auto simp: RevokeAPIKey_def split: sum.splits option.splits if_splits prod.splits bool.splits)
  with same that show ?thesis by simp
qed

text \<open>C37: A revocation that reports success is complete and touches nothing else. With OpenFGA wired, and from a state
  where every role of a key in OpenFGA has its row: the roles of the key, its row and its client are all gone and
  its tokens are refused, whichever calls lost their answers on the way; every other key keeps its row,
  its roles, its client and its standing with the token gate; and still no role is without its row.\<close>

theorem revocation_is_complete:
  assumes "anchored w" and "kw_granter w" and "RevokeAPIKey b q wired o' ownerID i w = (None, w')"
  shows "powerless w' i \<and> anchored w' \<and> kw_clients w' = filter (\<lambda>(j, c). j \<noteq> i) (kw_clients w) \<and> kw_deleting w' = kw_deleting w \<and>
         (\<forall>j. j \<noteq> i \<longrightarrow> kw_rows w' j = kw_rows w j \<and> kw_tuples w' j = kw_tuples w j \<and> kw_revoked w' j = kw_revoked w j)"
  using assms(3)
proof (rule revoked_cases)
  fix w2
  let ?u = "snd (UnbindKey (rc_unbind o') i w2)"
  assume same: "anchored w2 = anchored w" "kw_granter w2 = kw_granter w" "kw_rows w2 = kw_rows w" "kw_tuples w2 = kw_tuples w"
      "kw_clients w2 = kw_clients w" "kw_revoked w2 = kw_revoked w" "kw_deleting w2 = kw_deleting w"
    and u: "fst (UnbindKey (rc_unbind o') i w2)"
    and d: "fst (hydraDelete (rc_get o') (rc_delete o') i ?u) = None"
    and w': "w' = snd (hydraDelete (rc_get o') (rc_delete o') i ?u)"
  from assms same have a: "anchored w2" "kw_granter w2" by simp_all
  from unbind_powerless [OF a u] unbind_anchored [OF a] have "powerless w' i" "anchored w'"
    unfolding w' by (simp_all add: powerless_def anchored_def)
  moreover have "kw_clients w' = filter (\<lambda>(j, c). j \<noteq> i) (kw_clients w)" using deleted_only [OF d] same w' by simp
  moreover have "kw_rows w' j = kw_rows w j \<and> kw_tuples w' j = kw_tuples w j \<and> kw_revoked w' j = kw_revoked w j" if "j \<noteq> i" for j
    using UnbindKey_others [OF that, of "rc_unbind o'" w2] UnbindKey_revoked [OF that, of "rc_unbind o'" w2] same w' by simp
  ultimately show ?thesis using same w' by simp
qed

section \<open>Histories\<close>

text \<open>What the resolver remembers of a key is its row, or the row it had. The keys of a workspace are the marked
  clients with a row there.\<close>

definition truthful :: "key_world \<Rightarrow> bool" where
  "truthful w \<longleftrightarrow>
     (\<forall>i v e. (tenantKey methodOAuth2 i, v, e) \<in> set (ts_cache (kw_service w)) \<longrightarrow> kw_rows w i = Some v \<or> kw_rows w i = None)"

definition keys_of :: "string \<Rightarrow> key_world \<Rightarrow> (string \<times> key_client) list" where
  "keys_of t w = filter (\<lambda>(i, c). kc_marker c \<and> kw_rows w i = Some t) (kw_clients w)"

definition key_inv :: "nat \<Rightarrow> key_world \<Rightarrow> bool" where
  "key_inv quota w \<longleftrightarrow> kw_granter w \<and> anchored w \<and> truthful w \<and> (\<forall>t. length (keys_of t w) \<le> quota)"

text \<open>The ids Hydra gives are new.\<close>

definition fresh_id :: "string \<Rightarrow> key_world \<Rightarrow> bool" where
  "fresh_id i w \<longleftrightarrow> i \<notin> fst ` set (kw_clients w) \<and> kw_rows w i = None \<and> (\<forall>t. \<not> kw_tuples w i t) \<and>
     map_of (ts_cache (kw_service w)) (tenantKey methodOAuth2 i) = None"

datatype key_event =
    Mints create_calls string string string
  | Revokes base request bool revoke_calls string string
  | Cleans bool "string \<Rightarrow> revoke_calls" string string
  | Lists base request bool bool "string \<Rightarrow> bool" string
  | Tombstoned string
  | Passes nat

fun key_step :: "nat \<Rightarrow> key_world \<Rightarrow> key_event \<Rightarrow> key_world" where
  "key_step quota w (Mints o' i t by') = (if fresh_id i w then snd (createBoundAPIKey quota o' i t by' w) else w)"
| "key_step quota w (Revokes b q wired o' ownerID i) = snd (RevokeAPIKey b q wired o' ownerID i w)"
| "key_step quota w (Cleans list o' subject t) = snd (cleanup list o' subject t w)"
| "key_step quota w (Lists b q wired list up ownerID) = snd (ListAPIKeys b q wired list up ownerID w)"
| "key_step quota w (Tombstoned subject) = w\<lparr>kw_deleting := (kw_deleting w)(subject := True)\<rparr>"
| "key_step quota w (Passes d) = w\<lparr>kw_now := kw_now w + int d\<rparr>"

definition key_run :: "nat \<Rightarrow> key_world \<Rightarrow> key_event list \<Rightarrow> key_world" where
  "key_run quota w es = fold (\<lambda>e w. key_step quota w e) es w"

text \<open>A mint that is counted on: its grant is not lost, and no lookup of the count fails.\<close>

fun dependable :: "key_event \<Rightarrow> bool" where
  "dependable (Mints o' i t by') \<longleftrightarrow> bc_grant (cc_bind o') \<noteq> Lost \<and> cc_up o' = (\<lambda>_. True)"
| "dependable _ \<longleftrightarrow> True"

definition roomy :: "key_world \<Rightarrow> bool" where
  "roomy w \<longleftrightarrow> length (kw_clients w) \<le> hydraClientPageSize * hydraClientMaxPages"

fun roomy_run :: "nat \<Rightarrow> key_world \<Rightarrow> key_event list \<Rightarrow> bool" where
  "roomy_run quota w [] \<longleftrightarrow> True"
| "roomy_run quota w (e # es) \<longleftrightarrow> roomy w \<and> roomy_run quota (key_step quota w e) es"

lemma truthfulD:
  "truthful w \<Longrightarrow> (tenantKey methodOAuth2 j, v, e) \<in> set (ts_cache (kw_service w)) \<Longrightarrow> kw_rows w j = Some v \<or> kw_rows w j = None"
  unfolding truthful_def by (drule spec)+ (erule mp)

lemma tenantKey_inj [simp]: "tenantKey m i = tenantKey m j \<longleftrightarrow> i = j"
  by (simp add: tenantKey_def)

lemma tenantOf_cache:
  "(k, v, e) \<in> set (ts_cache (snd (tenantOf now store m i svc))) \<Longrightarrow>
     (k, v, e) \<in> set (ts_cache svc) \<or> (k = tenantKey m i \<and> store i = Some v)"
  using get_subset [of now "ts_cache svc" "tenantKey m i"]
    put_subset [of now "snd (ttlGet now (ts_cache svc) (tenantKey m i))" "tenantKey m i" _ "now + PositiveTTL"]
  by (fastforce simp: tenantOf_def split: prod.splits option.splits)

lemma tenantForKey_truthful: "truthful w \<Longrightarrow> truthful (snd (tenantForKey up i w))"
proof -
  assume w: "truthful w"
  obtain r svc where t: "tenantOf (kw_now w) (\<lambda>s. if up then kw_rows w s else None) methodOAuth2 i (kw_service w) = (r, svc)" by fastforce
  have "kw_rows w j = Some v \<or> kw_rows w j = None" if "(tenantKey methodOAuth2 j, v, e) \<in> set (ts_cache svc)" for j v e
  proof -
    from tenantOf_cache [of "tenantKey methodOAuth2 j" v e "kw_now w" "\<lambda>s. if up then kw_rows w s else None" methodOAuth2 i "kw_service w"] that t
    have "(tenantKey methodOAuth2 j, v, e) \<in> set (ts_cache (kw_service w)) \<or> kw_rows w j = Some v" by (auto split: if_splits)
    with truthfulD [OF w, of j v e] show ?thesis by auto
  qed
  then show ?thesis using t by (simp add: truthful_def tenantForKey_def)
qed

lemma tenantForKey_row: "truthful w \<Longrightarrow> kw_rows w i = Some t \<Longrightarrow> fst (tenantForKey True i w) = Some t"
  using get_hit [of "kw_now w" "ts_cache (kw_service w)" "tenantKey methodOAuth2 i"]
  by (fastforce simp: tenantForKey_def tenantOf_def truthful_def split: prod.splits option.splits)

lemma inv_lookup: "key_inv n w \<Longrightarrow> key_inv n (snd (tenantForKey up i w))"
  by (simp add: key_inv_def tenantForKey_truthful anchored_def keys_of_def)

text \<open>Rows that go and clients that go make no more keys.\<close>

lemma keys_fewer:
  assumes "\<And>i. kw_rows w' i = kw_rows w i \<or> kw_rows w' i = None" and "kw_clients w' = filter P (kw_clients w)"
  shows "length (keys_of t w') \<le> length (keys_of t w)"
proof -
  have "keys_of t w' = filter (\<lambda>(i, c). kw_rows w' i = Some t) (filter P (keys_of t w))"
    unfolding keys_of_def assms(2) filter_filter using assms(1) by (intro filter_cong) (auto, metis option.distinct(1))
  then show ?thesis by (metis length_filter_le order_trans)
qed

lemma inv_unbind: "key_inv n w \<Longrightarrow> key_inv n (snd (UnbindKey o' i w))"
proof -
  assume inv: "key_inv n w"
  have rows: "kw_rows (snd (UnbindKey o' i w)) j = kw_rows w j \<or> kw_rows (snd (UnbindKey o' i w)) j = None" for j
    by (simp add: UnbindKey_def call_def revokeMember_def unbindClient_def split: option.split bool.split)
  have "length (keys_of t (snd (UnbindKey o' i w))) \<le> length (keys_of t w)" for t
    by (rule keys_fewer [where P = "\<lambda>_. True"]) (use rows in simp_all)
  moreover have "truthful (snd (UnbindKey o' i w))"
    unfolding truthful_def
  proof (intro allI impI)
    fix j v e
    assume "(tenantKey methodOAuth2 j, v, e) \<in> set (ts_cache (kw_service (snd (UnbindKey o' i w))))"
    with inv truthfulD [of w j v e] have "kw_rows w j = Some v \<or> kw_rows w j = None" by (simp add: key_inv_def)
    with rows [of j] show "kw_rows (snd (UnbindKey o' i w)) j = Some v \<or> kw_rows (snd (UnbindKey o' i w)) j = None" by auto
  qed
  moreover have "length (keys_of t (snd (UnbindKey o' i w))) \<le> n" for t
    using inv calculation(1) [of t] by (meson key_inv_def order_trans)
  ultimately show ?thesis using inv unbind_anchored by (simp add: key_inv_def)
qed

lemma inv_delete: "key_inv n w \<Longrightarrow> key_inv n (snd (hydraDelete up out i w))"
proof -
  assume inv: "key_inv n w"
  have "\<exists>P. kw_clients (snd (hydraDelete up out i w)) = filter P (kw_clients w)"
    by (auto simp: hydraDelete_def call_def deleteClient_def split: got.split intro: exI [of _ "\<lambda>_. True"])
  then have "length (keys_of t (snd (hydraDelete up out i w))) \<le> length (keys_of t w)" for t
    using keys_fewer [of "snd (hydraDelete up out i w)" w] by auto
  then have "length (keys_of t (snd (hydraDelete up out i w))) \<le> n" for t
    using inv by (meson key_inv_def order_trans)
  with inv show ?thesis by (simp add: key_inv_def anchored_def truthful_def)
qed

lemma inv_revoke: "key_inv n w \<Longrightarrow> key_inv n (snd (RevokeAPIKey b q wired o' ownerID i w))"
proof -
  assume inv: "key_inv n w"
  obtain r w1 where s: "revokeScope b q (rc_scope o') ownerID i w = (r, w1)" by fastforce
  then have w1: "key_inv n w1" using inv inv_lookup [OF inv, of "rc_scope o'" i]
    by (auto simp: revokeScope_def split: prod.splits if_splits)
  obtain t w2 where t: "tenantForKey (rc_owner o') i w1 = (t, w2)" by fastforce
  with inv_lookup [OF w1, of "rc_owner o'" i] have w2: "key_inv n w2" by simp
  obtain u w3 where u: "UnbindKey (rc_unbind o') i w2 = (u, w3)" by fastforce
  with inv_unbind [OF w2, of "rc_unbind o'" i] have w3: "key_inv n w3" by simp
  from s t u w1 w2 w3 inv_delete [OF w3] show ?thesis
    by (auto simp: RevokeAPIKey_def split: sum.split option.split bool.split)
qed

lemma inv_cleanup_keys: "key_inv n w \<Longrightarrow> key_inv n (snd (cleanup_keys o' subject t ks w))"
proof (induction ks arbitrary: w)
  case (Cons k ks)
  obtain i c where k: "k = (i, c)" by fastforce
  obtain r w1 where r: "(if t = [] then (True, w)
      else (case tenantForKey (rc_owner (o' i)) i w of (t', w1) \<Rightarrow> (t' = Some t, w1))) = (r, w1)" by fastforce
  then have w1: "key_inv n w1" using Cons.prems inv_lookup [OF Cons.prems, of "rc_owner (o' i)" i]
    by (auto split: if_splits prod.splits)
  obtain u w2 where u: "UnbindKey (rc_unbind (o' i)) i w1 = (u, w2)" by fastforce
  with inv_unbind [OF w1, of "rc_unbind (o' i)" i] have w2: "key_inv n w2" by simp
  obtain e w3 where e: "hydraDelete (rc_get (o' i)) (rc_delete (o' i)) i w2 = (e, w3)" by fastforce
  with inv_delete [OF w2, of "rc_get (o' i)" "rc_delete (o' i)" i] have w3: "key_inv n w3" by simp
  obtain x w4 where x: "cleanup_keys o' subject t ks w3 = (x, w4)" by fastforce
  with Cons.IH [OF w3] have "key_inv n w4" by simp
  with k r u e x w1 w2 w3 Cons.IH Cons.prems show ?case
    by (cases r; cases u) (auto simp del: if_split split: prod.split if_split)
qed simp

lemma inv_keep_bound: "key_inv n w \<Longrightarrow> key_inv n (snd (keep_bound up t ks w))"
proof (induction ks arbitrary: w)
  case (Cons k ks)
  obtain i c where k: "k = (i, c)" by fastforce
  obtain r w1 where r: "tenantForKey (up i) i w = (r, w1)" by fastforce
  with inv_lookup [OF Cons.prems, of "up i" i] have "key_inv n w1" by simp
  moreover obtain out w2 where "keep_bound up t ks w1 = (out, w2)" by fastforce
  ultimately show ?case using Cons.IH [of w1] k r by simp
qed simp

lemma inv_count: "key_inv n w \<Longrightarrow> key_inv n (snd (count_active up t is w))"
proof (induction "is" arbitrary: w)
  case (Cons i "is")
  obtain r w1 where r: "tenantForKey (up i) i w = (r, w1)" by fastforce
  with inv_lookup [OF Cons.prems, of "up i" i] have "key_inv n w1" by simp
  moreover obtain m w2 where "count_active up t is w1 = (m, w2)" by fastforce
  ultimately show ?case using Cons.IH [of w1] r by simp
qed simp

lemma count_keeps_all:
  "kw_rows (snd (count_active up t is w)) = kw_rows w \<and> kw_clients (snd (count_active up t is w)) = kw_clients w \<and>
   kw_tuples (snd (count_active up t is w)) = kw_tuples w"
proof (induction "is" arbitrary: w)
  case (Cons i "is")
  obtain r w1 where r: "tenantForKey (up i) i w = (r, w1)" by fastforce
  then have "kw_rows w1 = kw_rows w" "kw_clients w1 = kw_clients w" "kw_tuples w1 = kw_tuples w"
    using tenantForKey_keeps [of "up i" i w] by simp_all
  moreover obtain m w2 where "count_active up t is w1 = (m, w2)" by fastforce
  ultimately show ?case using Cons.IH [of w1] r by simp
qed simp

lemmas count_keeps = count_keeps_all [THEN conjunct1] count_keeps_all [THEN conjunct2, THEN conjunct1]
  count_keeps_all [THEN conjunct2, THEN conjunct2]

lemma count_enough:
  "key_inv n w \<Longrightarrow> length (filter (\<lambda>i. kw_rows w i = Some t) is) \<le> fst (count_active (\<lambda>_. True) t is w)"
proof (induction "is" arbitrary: w)
  case (Cons i "is")
  obtain r w1 where r: "tenantForKey True i w = (r, w1)" by fastforce
  then have w1: "w1 = snd (tenantForKey True i w)" by simp
  with inv_lookup [OF Cons.prems, of True i] have inv: "key_inv n w1" by simp
  have "kw_rows w i = Some t \<Longrightarrow> r = Some t"
    using tenantForKey_row [of w i t] Cons.prems r by (simp add: key_inv_def)
  moreover have "kw_rows w1 = kw_rows w" using w1 by simp
  moreover obtain m w2 where "count_active (\<lambda>_. True) t is w1 = (m, w2)" by fastforce
  ultimately show ?case using Cons.IH [OF inv] r by simp
qed simp


lemma count_cache:
  "(tenantKey methodOAuth2 i, v, e) \<in> set (ts_cache (kw_service (snd (count_active up t is w)))) \<Longrightarrow>
     (tenantKey methodOAuth2 i, v, e) \<in> set (ts_cache (kw_service w)) \<or> kw_rows w i = Some v"
proof (induction "is" arbitrary: w)
  case (Cons j "is")
  obtain r w1 where r: "tenantForKey (up j) j w = (r, w1)" by fastforce
  then have rows: "kw_rows w1 = kw_rows w" using tenantForKey_keeps(1) [of "up j" j w] by simp
  obtain m w2 where c: "count_active up t is w1 = (m, w2)" by fastforce
  from Cons.prems r c have "(tenantKey methodOAuth2 i, v, e) \<in> set (ts_cache (kw_service (snd (count_active up t is w1))))" by simp
  from Cons.IH [OF this] rows show ?case
    using tenantOf_cache [of "tenantKey methodOAuth2 i" v e "kw_now w" "\<lambda>s. if up j then kw_rows w s else None" methodOAuth2 j "kw_service w"] r
    by (auto simp: tenantForKey_def split: prod.splits if_splits)
qed simp

text \<open>A new key in a workspace that had room.\<close>

lemma fresh_rows: "fresh_id i w \<Longrightarrow> kw_rows w i = None" "fresh_id i w \<Longrightarrow> \<not> kw_tuples w i t"
  "fresh_id i w \<Longrightarrow> (tenantKey methodOAuth2 i, v, e) \<notin> set (ts_cache (kw_service w))"
  by (auto simp: fresh_id_def map_of_eq_None_iff image_iff)

lemma inv_fields:
  "key_inv n w \<Longrightarrow> kw_granter w' = kw_granter w \<Longrightarrow> kw_tuples w' = kw_tuples w \<Longrightarrow> kw_rows w' = kw_rows w \<Longrightarrow>
     kw_service w' = kw_service w \<Longrightarrow> kw_clients w' = kw_clients w \<Longrightarrow> key_inv n w'"
  by (simp add: key_inv_def anchored_def truthful_def keys_of_def)

lemma created_inv:
  assumes "key_inv n w" and "kw_rows w i = None"
  shows "key_inv n (snd (call out (createClient i by') w))"
proof -
  have "keys_of t (createClient i by' w) = keys_of t w" for t
    using assms(2) by (simp add: keys_of_def createClient_def)
  with assms(1) show ?thesis
    by (simp add: call_def key_inv_def) (simp add: createClient_def anchored_def truthful_def)
qed

lemma keys_of_bound:
  assumes "kw_rows w i = None" and "length (filter (\<lambda>(j, c). j = i) (kw_clients w)) \<le> 1"
  shows "length (keys_of t (bindClient i t' w)) \<le> length (keys_of t w) + (if t = t' then 1 else 0)"
proof -
  have "length (filter (\<lambda>(j, c). kc_marker c \<and> ((kw_rows w)(i \<mapsto> t')) j = Some t) cs) \<le>
        length (filter (\<lambda>(j, c). kc_marker c \<and> kw_rows w j = Some t) cs) +
        (if t = t' then length (filter (\<lambda>(j, c). j = i) cs) else 0)" for cs :: "(string \<times> key_client) list"
    using assms(1) by (induction cs) auto
  from this [of "kw_clients w"] assms(2) show ?thesis by (auto simp: keys_of_def bindClient_def)
qed

text \<open>Binding a key that is not bound, in a workspace with room.\<close>

lemma BindKey_inv:
  assumes inv: "key_inv n w" and rows: "kw_rows w i = None" and tuples: "\<And>t. \<not> kw_tuples w i t"
    and cache: "\<And>v e. (tenantKey methodOAuth2 i, v, e) \<notin> set (ts_cache (kw_service w))"
    and one: "length (filter (\<lambda>(j, c). j = i) (kw_clients w)) \<le> 1"
    and room: "length (keys_of t w) < n" and sure: "bc_grant o' \<noteq> Lost"
  shows "key_inv n (snd (BindKey o' i t w))"
proof -
  have bound: "key_inv n (bindClient i t w)"
  proof -
    have "length (keys_of t' (bindClient i t w)) \<le> n" for t'
      using keys_of_bound [OF rows one, of t' t] room inv by (auto simp: key_inv_def intro: order_trans split: if_splits)
    moreover have "anchored (bindClient i t w)" using inv tuples by (auto simp: key_inv_def anchored_def bindClient_def)
    moreover have "truthful (bindClient i t w)"
      unfolding truthful_def
    proof (intro allI impI)
      fix j v e
      assume e: "(tenantKey methodOAuth2 j, v, e) \<in> set (ts_cache (kw_service (bindClient i t w)))"
      then have "j \<noteq> i" using cache by (auto simp: bindClient_def)
      with e truthfulD [of w j v e] inv show "kw_rows (bindClient i t w) j = Some v \<or> kw_rows (bindClient i t w) j = None"
        by (simp add: key_inv_def bindClient_def)
    qed
    ultimately show ?thesis using inv by (simp add: key_inv_def) (simp add: bindClient_def)
  qed
  have granted: "key_inv n (grantMember i t (bindClient i t w))"
  proof -
    have "anchored (grantMember i t (bindClient i t w))"
      using inv tuples by (auto simp: key_inv_def anchored_def grantMember_def bindClient_def)
    with bound show ?thesis by (simp add: key_inv_def truthful_def keys_of_def grantMember_def)
  qed
  have undone: "key_inv n (unbindClient i (bindClient i t w))"
  proof -
    have same: "kw_rows (unbindClient i (bindClient i t w)) = kw_rows w"
      using rows by (auto simp: unbindClient_def bindClient_def)
    show ?thesis by (rule inv_fields [OF inv]) (simp_all add: same, simp_all add: unbindClient_def bindClient_def)
  qed
  show ?thesis using inv bound granted undone sure
    by (cases "bc_grant o'") (auto simp: BindKey_def call_def split: bool.split)
qed

lemma fresh_one: "fresh_id i w \<Longrightarrow> length (filter (\<lambda>(j, c). j = i) (kw_clients (createClient i by' w))) \<le> 1"
proof -
  assume "fresh_id i w"
  then have "filter (\<lambda>(j, c). j = i) (kw_clients w) = []" by (auto simp: fresh_id_def filter_empty_conv image_iff)
  then show ?thesis by (simp add: createClient_def)
qed

lemma map_fst_keys:
  "length (keys_of t w) = length (filter (\<lambda>i. kw_rows w i = Some t) (map fst (filter (\<lambda>(i, c). kc_marker c) (kw_clients w))))"
  by (simp add: keys_of_def filter_map comp_def case_prod_unfold conj_commute)


lemma inv_mint:
  assumes inv: "key_inv n w" and fresh: "fresh_id i w" and room: "roomy w"
    and sure: "bc_grant (cc_bind o') \<noteq> Lost" and up: "cc_up o' = (\<lambda>_. True)"
  shows "key_inv n (snd (createBoundAPIKey n o' i t by' w))"
proof -
  let ?keys = "filter (\<lambda>(i, c). kc_marker c) (kw_clients w)"
  obtain active w1 where c: "count_active (cc_up o') t (map fst ?keys) w = (active, w1)" by fastforce
  have w1: "key_inv n w1" "kw_rows w1 = kw_rows w" "kw_clients w1 = kw_clients w" "kw_tuples w1 = kw_tuples w"
    using inv_count [OF inv, of "cc_up o'" t "map fst ?keys"] count_keeps [of "cc_up o'" t "map fst ?keys" w] c by simp_all
  have few: "length (keys_of t w) \<le> active"
    using count_enough [OF inv, of t "map fst ?keys"] c up by (simp add: map_fst_keys)
  have all: "keyList True w = Some ?keys" using room by (simp add: keyList_def roomy_def)
  have cache1: "(tenantKey methodOAuth2 i, v, e) \<notin> set (ts_cache (kw_service w1))" for v e
  proof
    assume "(tenantKey methodOAuth2 i, v, e) \<in> set (ts_cache (kw_service w1))"
    then show False using count_cache [of i v e "cc_up o'" t "map fst ?keys" w] c fresh fresh_rows [OF fresh] by simp
  qed
  let ?w2 = "createClient i by' w1"
  have w2: "key_inv n ?w2"
    using created_inv [OF w1(1), of i Done by'] w1(2) fresh_rows(1) [OF fresh] by (simp add: call_def)
  have "keys_of t ?w2 = keys_of t w"
    using w1 fresh_rows(1) [OF fresh] by (simp add: keys_of_def createClient_def)
  with few have room2: "active < n \<Longrightarrow> length (keys_of t ?w2) < n" by simp
  have one: "length (filter (\<lambda>(j, c). j = i) (kw_clients ?w2)) \<le> 1"
    using fresh_one [OF fresh, of by'] w1 by (simp add: createClient_def)
  obtain ok w3 where b: "BindKey (cc_bind o') i t ?w2 = (ok, w3)" by fastforce
  have w3: "active < n \<Longrightarrow> key_inv n w3"
    using BindKey_inv [OF w2 _ _ _ one room2 sure] b w1 fresh_rows(1,2) [OF fresh] cache1
    by (simp add: createClient_def)
  let ?w4 = "if cc_dies o' then w3\<lparr>kw_deleting := (kw_deleting w3)(by' := True)\<rparr> else w3"
  have w4: "active < n \<Longrightarrow> key_inv n ?w4" using w3 by (auto intro: inv_fields)
  have undone: "active < n \<Longrightarrow> key_inv n (snd (hydraDelete g d i (snd (UnbindKey u i ?w4))))" for g d u
    using inv_delete [OF inv_unbind [OF w4]] by blast
  have w2': "key_inv n (snd (call out (createClient i by') w1))" for out
    using created_inv [OF w1(1)] w1(2) fresh_rows(1) [OF fresh] by simp
  show ?thesis
  proof (cases "refuseDeletingCreator (cc_tomb o') by' w = None \<and> cc_list o' \<and> active < n")
    case False
    then show ?thesis using inv w1 c all
      by (auto simp: createBoundAPIKey_def keyList_def roomy_def split: option.split)
  next
    case True
    then have "snd (createBoundAPIKey n o' i t by' w) =
        (if cc_create o' \<noteq> Done then snd (call (cc_create o') (createClient i by') w1)
         else if \<not> ok then snd (hydraDelete (cc_get o') (cc_delete o') i w3)
         else if refuseDeletingCreator (cc_tomb2 o') by' ?w4 = None then ?w4
         else snd (hydraDelete (cc_get o') (cc_delete o') i (snd (UnbindKey (cc_unbind o') i ?w4))))"
      using c all b by (simp add: createBoundAPIKey_def call_def Let_def split: bool.split option.split)
    with True w2' inv_delete [OF w3] w4 undone show ?thesis by (simp split del: if_split) (simp split: if_split)
  qed
qed


lemma inv_list: "key_inv n w \<Longrightarrow> key_inv n (snd (ListAPIKeys b q wired list up ownerID w))"
  using inv_keep_bound [of n w up] by (auto simp: ListAPIKeys_def Let_def split: option.split prod.split) (metis snd_conv)+

lemma inv_key_step:
  assumes "key_inv n w" and "roomy w" and "dependable e"
  shows "key_inv n (key_step n w e)"
proof (cases e)
  case (Mints o' i t by')
  with assms inv_mint [OF assms(1) _ assms(2), of i o' t by'] show ?thesis by auto
next
  case (Cleans list o' subject t)
  with assms(1) inv_cleanup_keys show ?thesis by (auto simp: cleanup_def split: option.split)
qed (use assms(1) inv_revoke inv_list in \<open>auto intro: inv_fields\<close>)

lemma inv_key_run: "key_inv n w \<Longrightarrow> list_all dependable es \<Longrightarrow> roomy_run n w es \<Longrightarrow> key_inv n (key_run n w es)"
  unfolding key_run_def by (induction es arbitrary: w) (auto intro: inv_key_step)

definition no_keys :: "int \<Rightarrow> key_world" where
  "no_keys now = \<lparr>kw_clients = [], kw_rows = Map.empty, kw_tuples = \<lambda>_ _. False, kw_revoked = \<lambda>_. False, kw_deleting = \<lambda>_. False,
     kw_granter = True, kw_service = \<lparr>ts_cache = [], ts_members = []\<rparr>, kw_now = now\<rparr>"

lemma inv_no_keys: "key_inv n (no_keys now)"
  by (simp add: key_inv_def no_keys_def anchored_def truthful_def keys_of_def)

text \<open>C38: Keys stay counted and reachable. Over any history of mints, revocations, teardowns, listings, account
  deletions and failing calls, a workspace never has more keys than its quota, and no key holds a role without
  the row a later revocation finds it by. Counted on are the lookups of a mint, that the answer to its
  grant is not lost, and that Hydra lists no more than ten thousand clients.\<close>

theorem keys_within_quota:
  assumes "list_all dependable es" and "roomy_run n (no_keys now) es"
  shows "length (keys_of t (key_run n (no_keys now) es)) \<le> n \<and>
         (kw_tuples (key_run n (no_keys now) es) i t \<longrightarrow> kw_rows (key_run n (no_keys now) es) i = Some t)"
  using inv_key_run [OF inv_no_keys assms] by (simp add: key_inv_def anchored_def)

definition sure_unbind :: unbind_calls where
  "sure_unbind = \<lparr>uc_look = True, uc_revoke = Done, uc_unbind = Done\<rparr>"

definition sure_create :: create_calls where
  "sure_create = \<lparr>cc_tomb = True, cc_list = True, cc_up = \<lambda>_. True, cc_create = Done,
     cc_bind = \<lparr>bc_bind = Done, bc_grant = Done, bc_undo = Done\<rparr>, cc_dies = False, cc_tomb2 = True,
     cc_unbind = sure_unbind, cc_get = True, cc_delete = Done\<rparr>"

definition one_key :: key_world where
  "one_key = key_run 1 (no_keys 0) [Mints sure_create ''k1'' ''a'' ''u'']"

definition two_mints :: "key_event list" where
  "two_mints = [Mints sure_create ''k1'' ''a'' ''u'', Mints sure_create ''k2'' ''a'' ''u'']"

lemmas key_defs = key_run_def fresh_id_def createBoundAPIKey_def refuseDeletingCreator_def keyList_def call_def createClient_def
  BindKey_def bindClient_def grantMember_def sure_create_def sure_unbind_def no_keys_def hydraClientPageSize_def hydraClientMaxPages_def
  tenantForKey_def tenantOf_def ttlGet_def ttlPut_def ttlRoom_def CacheMax_def PositiveTTL_def tenantKey_def methodOAuth2_def Let_def

lemma one_key_is:
  "kw_rows one_key = [''k1'' \<mapsto> ''a'']" "kw_granter one_key" "kw_now one_key = 0"
  "kw_clients one_key = [(''k1'', \<lparr>kc_marker = True, kc_createdBy = ''u''\<rparr>)]" "kw_tuples one_key ''k1'' ''a''"
  "ts_cache (kw_service one_key) = []" "anchored one_key"
  by (simp_all add: one_key_def key_defs anchored_def)

theorem keys_within_quota_witness:
  "length (keys_of ''a'' (key_run 1 (no_keys 0) two_mints)) \<le> 1 \<and> map fst (keys_of ''a'' (key_run 1 (no_keys 0) two_mints)) = [''k1'']"
proof -
  have "list_all dependable two_mints" by (simp add: two_mints_def sure_create_def)
  moreover have "roomy_run 1 (no_keys 0) two_mints"
    by (simp add: two_mints_def roomy_def key_defs)
  moreover have "map fst (keys_of ''a'' (key_run 1 (no_keys 0) two_mints)) = [''k1'']"
    by (simp add: two_mints_def key_defs keys_of_def)
  ultimately show ?thesis using keys_within_quota [of two_mints 1 0 "''a''"] by blast
qed


lemma demo_manager:
  "fst (Authorize (demo_base up) (demo_request\<lparr>rq_named := ''a''\<rparr>) RelCanManageKeys) = None"
  "Tenant (demo_base up) (demo_request\<lparr>rq_named := ''a''\<rparr>) = Some ''a''"
proof -
  let ?q = "demo_request\<lparr>rq_named := ''a''\<rparr>"
  have r: "resolveWorkspace (demo_base up) ?q = Inr ''a''"
    by (simp add: resolveWorkspace_def resolveWorkspaceUncached_def demo_base_def demo_request_def)
  then show "Tenant (demo_base up) ?q = Some ''a''" by (simp add: Tenant_def)
  have "callerWorkspace (demo_base up) ?q = (''workspace:a'', None)"
    using r by (simp add: callerWorkspace_def WorkspaceObject_def)
  moreover have "granted (demo_base up) ?q RelCanManageKeys ''workspace:a''"
    using demo_object by (simp add: granted_def WorkspaceObject_def)
      (simp add: demo_defs RequireCapability_def CapabilityExempt_def answer_of_def)
  ultimately show "fst (Authorize (demo_base up) ?q RelCanManageKeys) = None" by (simp add: Authorize_def)
qed

lemma demo_revoke:
  "RevokeAPIKey (demo_base up) demo_request True o' ''a'' i w =
     (case tenantForKey (rc_owner o') i w of
        (None, w2) \<Rightarrow> (Some KeyNotFound, w2)
      | (Some owner, w2) \<Rightarrow>
          if owner \<noteq> ''a'' then (Some KeyElsewhere, w2)
          else (case UnbindKey (rc_unbind o') i w2 of
                  (False, w3) \<Rightarrow> (Some KeyCall, w3)
                | (True, w3) \<Rightarrow> hydraDelete (rc_get o') (rc_delete o') i w3))"
  by (simp add: RevokeAPIKey_def revokeScope_def scope_reads_def ScopeByID_def scopeByID_def demo_manager)

definition sure_revoke :: "outcome \<Rightarrow> revoke_calls" where
  "sure_revoke out = \<lparr>rc_scope = True, rc_owner = True, rc_unbind = sure_unbind, rc_get = True, rc_delete = out\<rparr>"

theorem revocation_is_complete_witness:
  "powerless (snd (RevokeAPIKey (demo_base True) demo_request True (sure_revoke Done) ''a'' ''k1'' one_key)) ''k1''"
proof -
  have "fst (RevokeAPIKey (demo_base True) demo_request True (sure_revoke Done) ''a'' ''k1'' one_key) = None"
    by (simp add: demo_revoke tenantForKey_def tenantOf_def ttlGet_def one_key_is sure_revoke_def sure_unbind_def UnbindKey_def
        call_def revokeMember_def unbindClient_def hydraDelete_def getAPIKey_def)
  then have "RevokeAPIKey (demo_base True) demo_request True (sure_revoke Done) ''a'' ''k1'' one_key =
      (None, snd (RevokeAPIKey (demo_base True) demo_request True (sure_revoke Done) ''a'' ''k1'' one_key))"
    by (metis prod.collapse)
  from revocation_is_complete [OF one_key_is(7) one_key_is(2) this] show ?thesis by blast
qed

section \<open>Leaving a workspace\<close>

lemma rows_only_go:
  "kw_rows (snd (UnbindKey o' i w)) j = kw_rows w j \<or> kw_rows (snd (UnbindKey o' i w)) j = None"
  by (simp add: UnbindKey_def call_def revokeMember_def unbindClient_def split: option.split bool.split)

lemma lookup_keeps: "tenantForKey up i w = (t, w1) \<Longrightarrow> kw_rows w1 = kw_rows w \<and> kw_clients w1 = kw_clients w"
  using tenantForKey_keeps [of up i w] by simp

lemma cleanup_rows_go:
  "kw_rows (snd (cleanup_keys o' subject t ks w)) j = kw_rows w j \<or> kw_rows (snd (cleanup_keys o' subject t ks w)) j = None"
proof (induction ks arbitrary: w)
  case (Cons k ks)
  obtain i c where k: "k = (i, c)" by fastforce
  obtain r w1 where r: "(if t = [] then (True, w)
      else (case tenantForKey (rc_owner (o' i)) i w of (t', w1) \<Rightarrow> (t' = Some t, w1))) = (r, w1)" by fastforce
  then have w1: "kw_rows w1 = kw_rows w" by (auto split: if_splits prod.splits dest: lookup_keeps)
  obtain u w2 where u: "UnbindKey (rc_unbind (o' i)) i w1 = (u, w2)" by fastforce
  then have w2: "kw_rows w2 j = kw_rows w j \<or> kw_rows w2 j = None"
    using rows_only_go [of "rc_unbind (o' i)" i w1 j] w1 by simp
  obtain e w3 where e: "hydraDelete (rc_get (o' i)) (rc_delete (o' i)) i w2 = (e, w3)" by fastforce
  then have w3: "kw_rows w3 = kw_rows w2" using hydraDelete_keeps(1) [of "rc_get (o' i)" "rc_delete (o' i)" i w2] by simp
  obtain x w4 where x: "cleanup_keys o' subject t ks w3 = (x, w4)" by fastforce
  with Cons.IH [of w3] have w4: "kw_rows w4 j = kw_rows w3 j \<or> kw_rows w4 j = None" by simp
  show ?case
    using k r u e x w1 w2 w3 w4 Cons.IH [of w] Cons.IH [of w1]
    by (cases r; cases u) (auto simp del: if_split split: prod.split if_split)
qed simp

lemma cleanup_clients: "set (kw_clients (snd (cleanup_keys o' subject t ks w))) \<subseteq> set (kw_clients w)"
proof (induction ks arbitrary: w)
  case (Cons k ks)
  obtain i c where k: "k = (i, c)" by fastforce
  obtain r w1 where r: "(if t = [] then (True, w)
      else (case tenantForKey (rc_owner (o' i)) i w of (t', w1) \<Rightarrow> (t' = Some t, w1))) = (r, w1)" by fastforce
  then have w1: "kw_clients w1 = kw_clients w" by (auto split: if_splits prod.splits dest: lookup_keeps)
  obtain u w2 where u: "UnbindKey (rc_unbind (o' i)) i w1 = (u, w2)" by fastforce
  then have w2: "kw_clients w2 = kw_clients w" using UnbindKey_keeps(1) [of "rc_unbind (o' i)" i w1] w1 by simp
  obtain e w3 where e: "hydraDelete (rc_get (o' i)) (rc_delete (o' i)) i w2 = (e, w3)" by fastforce
  then have "w3 = snd (hydraDelete (rc_get (o' i)) (rc_delete (o' i)) i w2)" by simp
  then have w3: "set (kw_clients w3) \<subseteq> set (kw_clients w)"
    using w2 by (auto simp: hydraDelete_def call_def deleteClient_def split: got.split)
  obtain x w4 where x: "cleanup_keys o' subject t ks w3 = (x, w4)" by fastforce
  with Cons.IH [of w3] w3 have "set (kw_clients w4) \<subseteq> set (kw_clients w)" by auto
  with k r u e x w1 w2 w3 Cons.IH [of w] Cons.IH [of w1] show ?case
    by (cases r; cases u) (auto simp del: if_split split: prod.split if_split)
qed simp

lemma cleanup_done:
  assumes "\<And>i. rc_owner (o' i)" and "key_inv n w" and "snd (fst (cleanup_keys o' subject t ks w)) = None"
    and "(i, c) \<in> set ks" and "kc_createdBy c = subject" and "t = [] \<or> kw_rows w i = Some t"
  shows "kw_rows (snd (cleanup_keys o' subject t ks w)) i = None"
  using assms(2-6)
proof (induction ks arbitrary: w)
  case (Cons k ks)
  obtain j d where k: "k = (j, d)" by fastforce
  obtain r w1 where r: "(if t = [] then (True, w)
      else (case tenantForKey (rc_owner (o' j)) j w of (t', w1) \<Rightarrow> (t' = Some t, w1))) = (r, w1)" by fastforce
  then have w1: "kw_rows w1 = kw_rows w" "key_inv n w1"
    using inv_lookup [OF Cons.prems(1), of "rc_owner (o' j)" j] Cons.prems(1)
    by (auto split: if_splits prod.splits dest: lookup_keeps)
  have found: "t = [] \<or> kw_rows w j = Some t \<Longrightarrow> r"
    using r tenantForKey_row [of w j t] Cons.prems(1) assms(1) by (auto simp: key_inv_def split: if_splits prod.splits)
  obtain u w2 where u: "UnbindKey (rc_unbind (o' j)) j w1 = (u, w2)" by fastforce
  then have w2: "key_inv n w2" "\<And>i. kw_rows w2 i = kw_rows w i \<or> kw_rows w2 i = None" "u \<Longrightarrow> kw_rows w2 j = None"
    using inv_unbind [OF w1(2), of "rc_unbind (o' j)" j] rows_only_go [of "rc_unbind (o' j)" j w1] w1
      unbind_powerless [of w1 "rc_unbind (o' j)" j] by (auto simp: key_inv_def powerless_def)
  obtain e w3 where e: "hydraDelete (rc_get (o' j)) (rc_delete (o' j)) j w2 = (e, w3)" by fastforce
  then have w3: "kw_rows w3 = kw_rows w2" "key_inv n w3"
    using hydraDelete_keeps(1) [of "rc_get (o' j)" "rc_delete (o' j)" j w2] inv_delete [OF w2(1), of "rc_get (o' j)" "rc_delete (o' j)" j] by simp_all
  obtain ids e' w4 where x: "cleanup_keys o' subject t ks w3 = ((ids, e'), w4)" by (metis prod.collapse)
  show ?case
  proof (cases "kc_createdBy d = subject \<and> r")
    case False
    then have skip: "cleanup_keys o' subject t (k # ks) w = cleanup_keys o' subject t ks (if kc_createdBy d = subject then w1 else w)"
      using k r by (auto simp del: if_split split: if_split)
    have "(i, c) \<in> set ks"
    proof -
      have "(i, c) \<noteq> k" using False k found Cons.prems by auto
      with Cons.prems show ?thesis by simp
    qed
    then show ?thesis
      using skip Cons.IH [of "if kc_createdBy d = subject then w1 else w"] Cons.prems w1 by (auto split: if_splits)
  next
    case True
    with Cons.prems(2) k r u e x have ok: "u" "e = None \<or> e = Some KeyNotFound"
      by (auto split: if_splits bool.splits)
    with True k r u e x have step: "cleanup_keys o' subject t (k # ks) w = ((j # ids, e'), w4)"
      by (auto simp del: if_split split: if_split)
    with Cons.prems(2) have e': "e' = None" by simp
    show ?thesis
    proof (cases "kw_rows w3 i = None")
      case True
      then show ?thesis using step cleanup_rows_go [of o' subject t ks w3 i] x by auto
    next
      case False
      then have "i \<noteq> j" "kw_rows w3 i = kw_rows w i" using w2 w3 ok by metis+
      with Cons.prems k Cons.IH [OF w3(2)] x e' step show ?thesis by auto
    qed
  qed
qed simp

lemma cleanup_takes_keys:
  assumes "key_inv n w" and "roomy w" and "\<And>i. rc_owner (o' i)"
    and "CleanupSubjectInWorkspace list o' subject workspaceID w = ((ids, None), w')"
  shows "\<forall>(i, c)\<in>set (keys_of workspaceID w'). kc_createdBy c \<noteq> subject"
proof -
  let ?ks = "filter (\<lambda>(i, c). kc_marker c) (kw_clients w)"
  have c: "cleanup_keys o' subject workspaceID ?ks w = ((ids, None), w')" "workspaceID \<noteq> []"
    using assms(2,4) by (auto simp: CleanupSubjectInWorkspace_def cleanup_def keyList_def roomy_def split: if_splits)
  show ?thesis
  proof (clarify)
    fix i c
    assume k: "(i, c) \<in> set (keys_of workspaceID w')" and by': "subject = kc_createdBy c"
    have rows: "kw_rows w' i = Some workspaceID" "kc_marker c" "(i, c) \<in> set (kw_clients w')" using k by (auto simp: keys_of_def)
    have "(i, c) \<in> set ?ks"
      using rows cleanup_clients [of o' subject workspaceID ?ks w] c by auto
    moreover have "kw_rows w i = Some workspaceID"
      using rows(1) cleanup_rows_go [of o' subject workspaceID ?ks w i] c by simp
    ultimately have "kw_rows (snd (cleanup_keys o' subject workspaceID ?ks w)) i = None"
      using c(1) by' by (intro cleanup_done [OF assms(3,1)]) auto
    with rows c(1) show False by simp
  qed
qed

text \<open>C39: Leaving a workspace leaves no key behind. In a state such as mints leave when no answer of a grant is lost (\<open>key_inv\<close>),
  with no more clients than Hydra's listing returns, a teardown that reports success, and every one of whose lookups of the
  workspace of a key was answered, has unbound every key the subject created in the workspace. (A lookup that fails
  hides its key: \<open>exit_skips_on_outage\<close> below.)\<close>

theorem exit_takes_keys:
  assumes "key_inv n w" and "roomy w" and "\<And>i. rc_owner (o' i)"
    and "CleanupSubjectInWorkspace list o' subject workspaceID w = ((ids, None), w')"
  shows "\<forall>(i, c)\<in>set (keys_of workspaceID w'). kc_createdBy c \<noteq> subject"
  by (rule cleanup_takes_keys [OF assms])


lemma inv_one_key: "key_inv 1 one_key"
proof -
  have "roomy (no_keys 0)" by (simp add: roomy_def no_keys_def)
  then show ?thesis
    using inv_key_run [OF inv_no_keys, of "[Mints sure_create ''k1'' ''a'' ''u'']" 1 0]
    by (simp add: one_key_def sure_create_def)
qed

theorem exit_takes_keys_witness:
  "''u'' \<notin> (\<lambda>(i, c). kc_createdBy c) ` set (keys_of ''a''
     (snd (CleanupSubjectInWorkspace True (\<lambda>_. sure_revoke Done) ''u'' ''a'' one_key)))"
proof -
  have "CleanupSubjectInWorkspace True (\<lambda>_. sure_revoke Done) ''u'' ''a'' one_key =
    (([''k1''], None), snd (CleanupSubjectInWorkspace True (\<lambda>_. sure_revoke Done) ''u'' ''a'' one_key))"
    by (simp add: CleanupSubjectInWorkspace_def cleanup_def keyList_def hydraClientPageSize_def hydraClientMaxPages_def
        tenantForKey_def tenantOf_def ttlGet_def one_key_is sure_revoke_def sure_unbind_def UnbindKey_def
        call_def revokeMember_def unbindClient_def hydraDelete_def getAPIKey_def)
  moreover have "roomy one_key" by (simp add: roomy_def one_key_is hydraClientPageSize_def hydraClientMaxPages_def)
  ultimately have "\<forall>(i, c)\<in>set (keys_of ''a'' (snd (CleanupSubjectInWorkspace True (\<lambda>_. sure_revoke Done) ''u'' ''a'' one_key))).
      kc_createdBy c \<noteq> ''u''"
    by (intro exit_takes_keys [OF inv_one_key]) (auto simp: sure_revoke_def)
  then show ?thesis by auto
qed

section \<open>Where it gives way\<close>

text \<open>A lookup that fails counts as a key of nowhere: the teardown passes over the key and reports success, and the
  key keeps its role.\<close>

lemma exit_skips_on_outage:
  "CleanupSubjectInWorkspace True (\<lambda>_. sure_revoke Done\<lparr>rc_owner := False\<rparr>) ''u'' ''a'' one_key = (([], None), one_key) \<and>
   kw_tuples one_key ''k1'' ''a''"
  by (simp add: CleanupSubjectInWorkspace_def cleanup_def keyList_def hydraClientPageSize_def hydraClientMaxPages_def
      tenantForKey_def tenantOf_def ttlGet_def one_key_is sure_revoke_def)

text \<open>Once its row is gone and forgotten, no call of the verb deletes the client of a key, though the delete that
  failed after the unbinding is said to be retryable.\<close>

lemma unbound_key_stays:
  assumes "kw_rows w i = None" and "map_of (ts_cache (kw_service w)) (tenantKey methodOAuth2 i) = None"
  shows "fst (RevokeAPIKey b q wired o' ownerID i w) \<noteq> None \<and> kw_clients (snd (RevokeAPIKey b q wired o' ownerID i w)) = kw_clients w"
proof -
  have look: "tenantForKey up i w = (None, w)" for up
    using assms by (simp add: tenantForKey_def tenantOf_def ttlGet_def)
  then show ?thesis
    by (simp add: RevokeAPIKey_def revokeScope_def split: prod.split sum.split option.split)
qed

lemma partial_revoke_is_stuck:
  "\<exists>w. w = snd (RevokeAPIKey (demo_base True) demo_request True (sure_revoke Down) ''a'' ''k1'' one_key)\<lparr>kw_now := 31000000000\<rparr> \<and>
     fst (RevokeAPIKey (demo_base True) demo_request True (sure_revoke Done) ''a'' ''k1'' w) = Some KeyNotFound \<and>
     map fst (kw_clients w) = [''k1'']"
  by (simp add: demo_revoke tenantForKey_def tenantOf_def ttlGet_def ttlPut_def ttlRoom_def CacheMax_def PositiveTTL_def one_key_is
      sure_revoke_def sure_unbind_def UnbindKey_def call_def revokeMember_def unbindClient_def hydraDelete_def getAPIKey_def)

text \<open>A grant whose answer is lost leaves the role behind when the row is rolled back.\<close>

lemma lost_grant_strays:
  "BindKey \<lparr>bc_bind = Done, bc_grant = Lost, bc_undo = Done\<rparr> ''k1'' ''a'' (no_keys 0) = (False, w) \<Longrightarrow>
     kw_tuples w ''k1'' ''a'' \<and> kw_rows w ''k1'' = None"
  by (auto simp: BindKey_def call_def bindClient_def grantMember_def unbindClient_def no_keys_def)

end
