(* ===== verification/Team.thy ===== *)
theory Team
  imports Bex_Prelude
begin

text \<open>
  Who belongs to a workspace (\<open>backend/internal/store/members.go\<close>, \<open>role_reconciliations.go\<close>, \<open>plans.go\<close>, with the
  other writes of \<open>tenant_members\<close> in \<open>store.go\<close>, \<open>workspaces.go\<close>, \<open>workspace_creation.go\<close> and \<open>accounts.go\<close>): memberships, invites and the
  outbox of role changes that OpenFGA has yet to hear of.

  Every operation is one transaction over these tables: it commits the database it returns, or fails
  and leaves the old one. The constraints of the migrations (keys, checks, the cascade from a membership
  to its outbox row) are part of the statements. Rows stand in the order of their creation.
\<close>

section \<open>Tables\<close>

record member =
  mb_tenant :: string
  mb_subject :: string
  mb_role :: string
  mb_machine :: bool

record tenant_row =
  tn_id :: string
  tn_name :: string
  tn_plan :: string
  tn_owner :: "string option"

record invite =
  iv_id :: string
  iv_tenant :: string
  iv_email :: string
  iv_role :: string
  iv_hash :: string
  iv_invitedBy :: string
  iv_expires :: int
  iv_accepted :: "int option"

record intent =
  ri_tenant :: string
  ri_subject :: string
  ri_role :: string
  ri_attempts :: nat
  ri_next :: int
  ri_error :: "string option"
  ri_updated :: int

record team_db =
  td_tenants :: "tenant_row list"
  td_members :: "member list"
  td_invites :: "invite list"
  td_intents :: "intent list"
  td_deleting :: "string \<Rightarrow> bool"

datatype team_error =
    TeamNotFound | TeamConflict | TeamInvalid | LastAdmin | OwnerMember | OwnerRole
  | InviteAlreadyAccepted | InviteExpired | InvitePlanLimit | AccountDeletionPending

section \<open>Plans\<close>

definition PlanHobby :: string where "PlanHobby = ''hobby''"
definition PlanPro :: string where "PlanPro = ''pro''"
definition PlanScale :: string where "PlanScale = ''scale''"
definition PlanEnterprise :: string where "PlanEnterprise = ''enterprise''"
definition DefaultPlan :: string where "DefaultPlan = PlanHobby"
definition WorkspacePlans :: "string list" where "WorkspacePlans = [PlanHobby, PlanPro, PlanScale, PlanEnterprise]"

record plan_limits =
  pl_services :: int
  pl_members :: int
  pl_workspaces :: int
  pl_roles :: "string list"

definition LimitsFor :: "string \<Rightarrow> plan_limits" where
  "LimitsFor plan =
     (if plan = PlanHobby then \<lparr>pl_services = 25, pl_members = 1, pl_workspaces = 5, pl_roles = [''admin'']\<rparr>
      else if plan = PlanPro then \<lparr>pl_services = 0, pl_members = 0, pl_workspaces = 0, pl_roles = [''admin'', ''developer'']\<rparr>
      else \<lparr>pl_services = 0, pl_members = 0, pl_workspaces = 0,
             pl_roles = [''admin'', ''developer'', ''contributor'', ''viewer'', ''billing'']\<rparr>)"

record quota_caps =
  qc_services :: int
  qc_postgres :: int
  qc_keyValues :: int
  qc_buildSources :: int

definition QuotaCapsForPlan :: "string \<Rightarrow> quota_caps" where
  "QuotaCapsForPlan plan =
     (if plan \<in> {PlanHobby, [], ''free''}
      then \<lparr>qc_services = pl_services (LimitsFor PlanHobby), qc_postgres = 25, qc_keyValues = 25, qc_buildSources = 25\<rparr>
      else \<lparr>qc_services = 100, qc_postgres = 25, qc_keyValues = 25, qc_buildSources = 25\<rparr>)"

definition RoleAllowedOnPlan :: "string \<Rightarrow> string \<Rightarrow> bool" where
  "RoleAllowedOnPlan plan role \<longleftrightarrow> role \<in> set (pl_roles (LimitsFor plan))"

definition CanAddMember :: "string \<Rightarrow> int \<Rightarrow> bool" where
  "CanAddMember plan n \<longleftrightarrow> (let limit = pl_members (LimitsFor plan) in limit = 0 \<or> n < limit)"

definition NormalizePlan :: "string \<Rightarrow> string option" where
  "NormalizePlan plan =
     (if plan = [] then Some DefaultPlan else if plan \<in> set WorkspacePlans then Some plan else None)"

definition Roles :: "string list" where
  "Roles = [''viewer'', ''contributor'', ''developer'', ''admin'', ''billing'']"

section \<open>Reads\<close>

definition seat_of :: "team_db \<Rightarrow> string \<Rightarrow> string \<Rightarrow> member option" where
  "seat_of d t s = find (\<lambda>m. mb_tenant m = t \<and> mb_subject m = s) (td_members d)"

definition tenant_of :: "team_db \<Rightarrow> string \<Rightarrow> tenant_row option" where
  "tenant_of d t = find (\<lambda>r. tn_id r = t) (td_tenants d)"

definition GetTenant :: "string \<Rightarrow> team_db \<Rightarrow> team_error + tenant_row" where
  "GetTenant t d = (case tenant_of d t of None \<Rightarrow> Inl TeamNotFound | Some r \<Rightarrow> Inr r)"

definition GetTenantMember :: "string \<Rightarrow> string \<Rightarrow> team_db \<Rightarrow> team_error + member" where
  "GetTenantMember t s d = (case seat_of d t s of None \<Rightarrow> Inl TeamNotFound | Some m \<Rightarrow> Inr m)"

definition CountTenantAdmins :: "string \<Rightarrow> team_db \<Rightarrow> nat" where
  "CountTenantAdmins t d =
     length (filter (\<lambda>m. mb_tenant m = t \<and> mb_role m = ''admin'' \<and> \<not> mb_machine m) (td_members d))"

definition SubjectIsWorkspaceAdmin :: "string \<Rightarrow> string \<Rightarrow> team_db \<Rightarrow> bool" where
  "SubjectIsWorkspaceAdmin t s d =
     list_ex (\<lambda>m. mb_tenant m = t \<and> mb_subject m = s \<and> mb_role m = ''admin'' \<and> \<not> mb_machine m) (td_members d)"

definition ListTenantMembers :: "string \<Rightarrow> team_db \<Rightarrow> member list" where
  "ListTenantMembers t d = filter (\<lambda>m. mb_tenant m = t \<and> \<not> mb_machine m) (td_members d)"

definition countTenantMembers :: "string \<Rightarrow> team_db \<Rightarrow> nat" where
  "countTenantMembers t d = length (filter (\<lambda>m. mb_tenant m = t \<and> \<not> mb_machine m) (td_members d))"

definition tenantOwnerIs :: "string \<Rightarrow> string \<Rightarrow> team_db \<Rightarrow> bool" where
  "tenantOwnerIs t s d = (case tenant_of d t of None \<Rightarrow> False | Some r \<Rightarrow> tn_owner r = Some s)"

definition TenantOwnerSubject :: "string \<Rightarrow> team_db \<Rightarrow> team_error + string" where
  "TenantOwnerSubject t d =
     (case tenant_of d t of
        None \<Rightarrow> Inl TeamNotFound
      | Some r \<Rightarrow> Inr (case tn_owner r of None \<Rightarrow> [] | Some s \<Rightarrow> s))"

definition outstanding :: "int \<Rightarrow> invite \<Rightarrow> bool" where
  "outstanding now i \<longleftrightarrow> iv_accepted i = None \<and> now < iv_expires i"

definition ListInvites :: "int \<Rightarrow> string \<Rightarrow> team_db \<Rightarrow> invite list" where
  "ListInvites now t d = filter (\<lambda>i. iv_tenant i = t \<and> outstanding now i) (td_invites d)"

definition CountInvites :: "int \<Rightarrow> string \<Rightarrow> team_db \<Rightarrow> nat" where
  "CountInvites now t d = length (filter (\<lambda>i. iv_tenant i = t \<and> outstanding now i) (td_invites d))"

definition GetInvite :: "string \<Rightarrow> string \<Rightarrow> team_db \<Rightarrow> team_error + invite" where
  "GetInvite t i d =
     (case find (\<lambda>v. iv_tenant v = t \<and> iv_id v = i) (td_invites d) of None \<Rightarrow> Inl TeamNotFound | Some v \<Rightarrow> Inr v)"

definition GetInviteByToken :: "(string \<Rightarrow> string) \<Rightarrow> string \<Rightarrow> team_db \<Rightarrow> team_error + invite" where
  "GetInviteByToken sha token d =
     (case find (\<lambda>v. iv_hash v = sha token) (td_invites d) of None \<Rightarrow> Inl TeamNotFound | Some v \<Rightarrow> Inr v)"

definition pending_intent :: "team_db \<Rightarrow> string \<Rightarrow> string \<Rightarrow> intent option" where
  "pending_intent d t s = find (\<lambda>i. ri_tenant i = t \<and> ri_subject i = s) (td_intents d)"

definition HasPendingRoleReconciliation :: "string \<Rightarrow> string \<Rightarrow> team_db \<Rightarrow> bool" where
  "HasPendingRoleReconciliation t s d \<longleftrightarrow> pending_intent d t s \<noteq> None"

section \<open>Statements\<close>

definition set_role :: "string \<Rightarrow> string \<Rightarrow> string \<Rightarrow> team_db \<Rightarrow> team_db" where
  "set_role t s role d =
     d\<lparr>td_members := map (\<lambda>m. if mb_tenant m = t \<and> mb_subject m = s then m\<lparr>mb_role := role\<rparr> else m) (td_members d)\<rparr>"

text \<open>Deleting a membership takes its outbox row along.\<close>

definition drop_seats :: "(string \<Rightarrow> string \<Rightarrow> bool) \<Rightarrow> team_db \<Rightarrow> team_db" where
  "drop_seats out d =
     d\<lparr>td_members := filter (\<lambda>m. \<not> out (mb_tenant m) (mb_subject m)) (td_members d),
       td_intents := filter (\<lambda>i. \<not> out (ri_tenant i) (ri_subject i)) (td_intents d)\<rparr>"

definition add_seat :: "string \<Rightarrow> string \<Rightarrow> string \<Rightarrow> bool \<Rightarrow> team_db \<Rightarrow> team_db" where
  "add_seat t s role machine d =
     d\<lparr>td_members := td_members d @ [\<lparr>mb_tenant = t, mb_subject = s, mb_role = role, mb_machine = machine\<rparr>]\<rparr>"

definition seat_unless_there :: "string \<Rightarrow> string \<Rightarrow> string \<Rightarrow> team_db \<Rightarrow> team_error + team_db" where
  "seat_unless_there t s role d =
     (if seat_of d t s \<noteq> None then Inr d
      else if tenant_of d t = None then Inl TeamNotFound
      else Inr (add_seat t s role False d))"

definition enqueueRoleReconciliation :: "int \<Rightarrow> string \<Rightarrow> string \<Rightarrow> string \<Rightarrow> team_db \<Rightarrow> team_error + team_db" where
  "enqueueRoleReconciliation now t s role d =
     (if role \<notin> set Roles then Inl TeamInvalid
      else if seat_of d t s = None then Inl TeamNotFound
      else
        Inr (d\<lparr>td_intents :=
                (if pending_intent d t s = None
                 then td_intents d @ [\<lparr>ri_tenant = t, ri_subject = s, ri_role = role, ri_attempts = 0, ri_next = now,
                                       ri_error = None, ri_updated = now\<rparr>]
                 else map (\<lambda>i. if ri_tenant i = t \<and> ri_subject i = s
                               then i\<lparr>ri_role := role, ri_attempts := 0, ri_next := now, ri_error := None, ri_updated := now\<rparr>
                               else i) (td_intents d))\<rparr>))"

section \<open>Memberships\<close>

definition MarkMachineMemberships :: "string list \<Rightarrow> team_db \<Rightarrow> team_db" where
  "MarkMachineMemberships ids d =
     d\<lparr>td_members := map (\<lambda>m. if mb_subject m \<in> set ids then m\<lparr>mb_machine := True\<rparr> else m) (td_members d)\<rparr>"

definition UpdateMemberRole :: "int \<Rightarrow> string \<Rightarrow> string \<Rightarrow> string \<Rightarrow> team_db \<Rightarrow> team_error option \<times> team_db" where
  "UpdateMemberRole now t s role d =
     (case seat_of d t s of
        None \<Rightarrow> (Some TeamNotFound, d)
      | Some m \<Rightarrow>
          if role \<noteq> ''admin'' \<and> tenantOwnerIs t s d then (Some OwnerRole, d)
          else if mb_role m = ''admin'' \<and> role \<noteq> ''admin'' \<and> CountTenantAdmins t d \<le> 1 then (Some LastAdmin, d)
          else (case enqueueRoleReconciliation now t s role (set_role t s role d) of
                  Inl e \<Rightarrow> (Some e, d)
                | Inr d' \<Rightarrow> (None, d')))"

definition RemoveMember :: "string \<Rightarrow> string \<Rightarrow> team_db \<Rightarrow> team_error option \<times> team_db" where
  "RemoveMember t s d =
     (case seat_of d t s of
        None \<Rightarrow> (Some TeamNotFound, d)
      | Some m \<Rightarrow>
          if tenantOwnerIs t s d then (Some OwnerMember, d)
          else if mb_role m = ''admin'' \<and> CountTenantAdmins t d \<le> 1 then (Some LastAdmin, d)
          else (None, drop_seats (\<lambda>t' s'. t' = t \<and> s' = s) d))"

definition RemoveAccountMember :: "string \<Rightarrow> string \<Rightarrow> team_db \<Rightarrow> team_error option \<times> team_db" where
  "RemoveAccountMember t s d =
     (if filter (\<lambda>m. mb_tenant m = t \<and> mb_role m = ''admin'' \<and> \<not> mb_machine m \<and> mb_subject m \<noteq> s) (td_members d) = []
      then (Some LastAdmin, d)
      else
        let d1 = drop_seats (\<lambda>t' s'. t' = t \<and> s' = s) d in
        (None, d1\<lparr>td_tenants := map (\<lambda>r. if tn_id r = t \<and> tn_owner r = Some s then r\<lparr>tn_owner := None\<rparr> else r) (td_tenants d1)\<rparr>))"

definition insert_tenant :: "string \<Rightarrow> string \<Rightarrow> string \<Rightarrow> string option \<Rightarrow> team_db \<Rightarrow> team_error + team_db" where
  "insert_tenant t name plan owner d =
     (if plan \<notin> set WorkspacePlans then Inl TeamInvalid
      else if list_ex (\<lambda>r. tn_id r = t \<or> tn_name r = name) (td_tenants d) then Inl TeamConflict
      else Inr (d\<lparr>td_tenants := td_tenants d @ [\<lparr>tn_id = t, tn_name = name, tn_plan = plan, tn_owner = owner\<rparr>]\<rparr>))"

definition CreateTenant :: "string \<Rightarrow> string \<Rightarrow> string \<Rightarrow> team_db \<Rightarrow> team_error option \<times> team_db" where
  "CreateTenant t name plan d =
     (case insert_tenant t name plan None d of Inl e \<Rightarrow> (Some e, d) | Inr d1 \<Rightarrow> (None, d1))"

definition CreateWorkspace :: "string \<Rightarrow> string \<Rightarrow> string \<Rightarrow> string \<Rightarrow> team_db \<Rightarrow> team_error option \<times> team_db" where
  "CreateWorkspace t name plan s d =
     (if td_deleting d s then (Some AccountDeletionPending, d)
      else (case insert_tenant t name plan None d of
              Inl e \<Rightarrow> (Some e, d)
            | Inr d1 \<Rightarrow> if seat_of d1 t s \<noteq> None then (Some TeamConflict, d) else (None, add_seat t s ''admin'' False d1)))"

text \<open>\<open>t\<close> is the id minted for the personal workspace; an identity that owns one already gets that one.\<close>

definition CreateTenantWithMember :: "string \<Rightarrow> string \<Rightarrow> string \<Rightarrow> team_db \<Rightarrow> (team_error + string) \<times> team_db" where
  "CreateTenantWithMember t plan s d =
     (if td_deleting d s then (Inl AccountDeletionPending, d)
      else
        (case (case find (\<lambda>r. tn_owner r = Some s) (td_tenants d) of
                 Some r \<Rightarrow> Inr (tn_id r, d)
               | None \<Rightarrow> (case insert_tenant t t plan (Some s) d of Inl e \<Rightarrow> Inl e | Inr d1 \<Rightarrow> Inr (t, d1))) of
           Inl e \<Rightarrow> (Inl e, d)
         | Inr (home, d1) \<Rightarrow>
             (case seat_unless_there home s ''admin'' d1 of Inl e \<Rightarrow> (Inl e, d) | Inr d2 \<Rightarrow> (Inr home, d2))))"

definition AddMember :: "string \<Rightarrow> string \<Rightarrow> string \<Rightarrow> team_db \<Rightarrow> team_error option \<times> team_db" where
  "AddMember s t role d =
     (if td_deleting d s then (Some AccountDeletionPending, d)
      else (case seat_unless_there t s role d of Inl e \<Rightarrow> (Some e, d) | Inr d1 \<Rightarrow> (None, d1)))"

definition BindClient :: "string \<Rightarrow> string \<Rightarrow> team_db \<Rightarrow> team_error option \<times> team_db" where
  "BindClient cid t d =
     (if tenant_of d t = None then (Some TeamNotFound, d)
      else (None, add_seat t cid ''developer'' True (drop_seats (\<lambda>t' s'. s' = cid) d)))"

definition UnbindClient :: "string \<Rightarrow> team_db \<Rightarrow> team_db" where
  "UnbindClient cid d = drop_seats (\<lambda>t' s'. s' = cid) d"

definition UpdateTenantPlan :: "string \<Rightarrow> string \<Rightarrow> team_db \<Rightarrow> team_error option \<times> team_db" where
  "UpdateTenantPlan t plan d =
     (if tenant_of d t = None then (Some TeamNotFound, d)
      else if plan \<notin> set WorkspacePlans then (Some TeamInvalid, d)
      else (None, d\<lparr>td_tenants := map (\<lambda>r. if tn_id r = t then r\<lparr>tn_plan := plan\<rparr> else r) (td_tenants d)\<rparr>))"

text \<open>The row of a workspace goes with its memberships, outbox rows and invites.\<close>

definition DeleteTenant :: "string \<Rightarrow> team_db \<Rightarrow> team_error option \<times> team_db" where
  "DeleteTenant t d =
     (if tenant_of d t = None then (Some TeamNotFound, d)
      else
        let d1 = drop_seats (\<lambda>t' s'. t' = t) d in
        (None, d1\<lparr>td_tenants := filter (\<lambda>r. tn_id r \<noteq> t) (td_tenants d1),
                  td_invites := filter (\<lambda>v. iv_tenant v \<noteq> t) (td_invites d1)\<rparr>))"

text \<open>
  The creation of a workspace in steps (\<open>workspace_creation.go\<close>): an attempt is prepared, its payment set up when
  one is needed, and then finalized. \<open>found\<close> is the attempt of that id and owner, and \<open>wall\<close> the clock of the
  API process; the row of the attempt and the billing rows are outside these tables.
\<close>

datatype creation_state =
    CreationPrepared | CreationSetupPending | CreationSetupSucceeded | CreationFinalized | CreationCleanupPending | CreationExpired

record creation_attempt =
  wc_workspace :: string
  wc_name :: string
  wc_plan :: string
  wc_payment :: bool
  wc_state :: creation_state
  wc_expires :: int

definition FinalizeWorkspaceCreation :: "int \<Rightarrow> creation_attempt option \<Rightarrow> string \<Rightarrow> team_db \<Rightarrow> (team_error + tenant_row) \<times> team_db" where
  "FinalizeWorkspaceCreation wall found s d =
     (case found of
        None \<Rightarrow> (Inl TeamNotFound, d)
      | Some a \<Rightarrow>
          if wc_state a = CreationFinalized then (GetTenant (wc_workspace a) d, d)
          else if wc_expires a < wall then (Inl TeamConflict, d)
          else if wc_payment a \<and> wc_state a \<noteq> CreationSetupSucceeded then (Inl TeamConflict, d)
          else if wc_state a \<noteq> CreationPrepared \<and> wc_state a \<noteq> CreationSetupSucceeded then (Inl TeamConflict, d)
          else (case CreateWorkspace (wc_workspace a) (wc_name a) (wc_plan a) s d of
                  (Some e, d1) \<Rightarrow> (Inl e, d1)
                | (None, d1) \<Rightarrow> (GetTenant (wc_workspace a) d1, d1)))"

section \<open>Invites\<close>

definition CreateInvite ::
  "(string \<Rightarrow> string) \<Rightarrow> string \<Rightarrow> string \<Rightarrow> string \<Rightarrow> string \<Rightarrow> string \<Rightarrow> string \<Rightarrow> int \<Rightarrow> team_db \<Rightarrow> (team_error + invite) \<times> team_db" where
  "CreateInvite sha i t email role token invitedBy expires d =
     (let v = \<lparr>iv_id = i, iv_tenant = t, iv_email = email, iv_role = role, iv_hash = sha token, iv_invitedBy = invitedBy,
               iv_expires = expires, iv_accepted = None\<rparr> in
      if role \<notin> set Roles then (Inl TeamInvalid, d)
      else if list_ex (\<lambda>u. iv_id u = i \<or> iv_hash u = sha token \<or> iv_tenant u = t \<and> iv_email u = email \<and> iv_accepted u = None)
                (td_invites d) then (Inl TeamConflict, d)
      else if tenant_of d t = None then (Inl TeamNotFound, d)
      else (Inr v, d\<lparr>td_invites := td_invites d @ [v]\<rparr>))"

definition RefreshInvite ::
  "(string \<Rightarrow> string) \<Rightarrow> string \<Rightarrow> string \<Rightarrow> string \<Rightarrow> int \<Rightarrow> team_db \<Rightarrow> (team_error + invite) \<times> team_db" where
  "RefreshInvite sha t i token expires d =
     (let hit = (\<lambda>u. iv_tenant u = t \<and> iv_id u = i \<and> iv_accepted u = None) in
      (case find hit (td_invites d) of
         None \<Rightarrow> (Inl TeamNotFound, d)
       | Some v \<Rightarrow>
           if list_ex (\<lambda>u. iv_hash u = sha token \<and> iv_id u \<noteq> i) (td_invites d) then (Inl TeamConflict, d)
           else (Inr (v\<lparr>iv_expires := expires, iv_hash := sha token\<rparr>),
                 d\<lparr>td_invites := map (\<lambda>u. if hit u then u\<lparr>iv_expires := expires, iv_hash := sha token\<rparr> else u) (td_invites d)\<rparr>)))"

definition DeleteInvite :: "string \<Rightarrow> string \<Rightarrow> team_db \<Rightarrow> team_error option \<times> team_db" where
  "DeleteInvite t i d =
     (if list_ex (\<lambda>u. iv_tenant u = t \<and> iv_id u = i) (td_invites d)
      then (None, d\<lparr>td_invites := filter (\<lambda>u. \<not> (iv_tenant u = t \<and> iv_id u = i)) (td_invites d)\<rparr>)
      else (Some TeamNotFound, d))"

text \<open>\<open>ops\<close>: the pinned operations workspace, empty when there is none.\<close>

definition planAllowsJoin :: "string \<Rightarrow> invite \<Rightarrow> string \<Rightarrow> team_db \<Rightarrow> team_error + bool" where
  "planAllowsJoin ops iv s d =
     (if ops \<noteq> [] \<and> iv_tenant iv = ops then Inr True
      else (case tenant_of d (iv_tenant iv) of
              None \<Rightarrow> Inl TeamNotFound
            | Some r \<Rightarrow>
                if \<not> RoleAllowedOnPlan (tn_plan r) (iv_role iv) then Inr False
                else let limit = pl_members (LimitsFor (tn_plan r)) in
                  if limit \<le> 0 then Inr True
                  else if seat_of d (iv_tenant iv) s \<noteq> None then Inr True
                  else Inr (int (countTenantMembers (iv_tenant iv) d) < limit)))"

definition mark_accepted :: "int \<Rightarrow> string \<Rightarrow> team_db \<Rightarrow> team_db" where
  "mark_accepted now i d = d\<lparr>td_invites := map (\<lambda>u. if iv_id u = i then u\<lparr>iv_accepted := Some now\<rparr> else u) (td_invites d)\<rparr>"

definition redeemInvite :: "int \<Rightarrow> invite \<Rightarrow> string \<Rightarrow> team_db \<Rightarrow> team_error + string \<times> team_db" where
  "redeemInvite now iv s d =
     (case seat_unless_there (iv_tenant iv) s (iv_role iv) d of
        Inl e \<Rightarrow> Inl e
      | Inr d1 \<Rightarrow>
          let effective = (case seat_of d1 (iv_tenant iv) s of None \<Rightarrow> [] | Some m \<Rightarrow> mb_role m) in
          (case enqueueRoleReconciliation now (iv_tenant iv) s effective d1 of
             Inl e \<Rightarrow> Inl e
           | Inr d2 \<Rightarrow> Inr (effective, mark_accepted now (iv_id iv) d2)))"

fun redeem_all :: "string \<Rightarrow> int \<Rightarrow> string \<Rightarrow> invite list \<Rightarrow> team_db \<Rightarrow> team_error + invite list \<times> team_db" where
  "redeem_all ops now s [] d = Inr ([], d)"
| "redeem_all ops now s (iv # ivs) d =
     (case planAllowsJoin ops iv s d of
        Inl e \<Rightarrow> Inl e
      | Inr False \<Rightarrow> redeem_all ops now s ivs d
      | Inr True \<Rightarrow>
          (case redeemInvite now iv s d of
             Inl e \<Rightarrow> Inl e
           | Inr (effective, d1) \<Rightarrow>
               (case redeem_all ops now s ivs d1 of
                  Inl e \<Rightarrow> Inl e
                | Inr (got, d2) \<Rightarrow> Inr (iv\<lparr>iv_role := effective\<rparr> # got, d2))))"

text \<open>\<open>seen\<close>: the database when the pending set was read, before the transaction on \<open>d\<close> began.\<close>

definition pendingInvites :: "int \<Rightarrow> string \<Rightarrow> team_db \<Rightarrow> invite list" where
  "pendingInvites now email seen = filter (\<lambda>i. iv_email i = email \<and> outstanding now i) (td_invites seen)"

definition redeemPending :: "string \<Rightarrow> int \<Rightarrow> string \<Rightarrow> invite list \<Rightarrow> team_db \<Rightarrow> (team_error + invite list) \<times> team_db" where
  "redeemPending ops now s pending d =
     (if pending = [] then (Inr [], d)
      else if td_deleting d s then (Inl AccountDeletionPending, d)
      else (case redeem_all ops now s pending d of
              Inl e \<Rightarrow> (Inl e, d)
            | Inr (got, d1) \<Rightarrow> (Inr got, d1)))"

definition AcceptInvitesForEmail ::
  "string \<Rightarrow> int \<Rightarrow> string \<Rightarrow> string \<Rightarrow> team_db \<Rightarrow> team_db \<Rightarrow> (team_error + invite list) \<times> team_db" where
  "AcceptInvitesForEmail ops now email s seen d = redeemPending ops now s (pendingInvites now email seen) d"

text \<open>\<open>wall\<close>: the clock of the API process; the rows carry the clock of the database.\<close>

definition AcceptInviteByToken ::
  "(string \<Rightarrow> string) \<Rightarrow> string \<Rightarrow> int \<Rightarrow> int \<Rightarrow> string \<Rightarrow> string \<Rightarrow> team_db \<Rightarrow> (team_error + invite) \<times> team_db" where
  "AcceptInviteByToken sha ops now wall token s d =
     (if td_deleting d s then (Inl AccountDeletionPending, d)
      else (case GetInviteByToken sha token d of
              Inl e \<Rightarrow> (Inl e, d)
            | Inr iv \<Rightarrow>
                if iv_accepted iv \<noteq> None then (Inl InviteAlreadyAccepted, d)
                else if iv_expires iv < wall then (Inl InviteExpired, d)
                else (case planAllowsJoin ops iv s d of
                        Inl e \<Rightarrow> (Inl e, d)
                      | Inr False \<Rightarrow> (Inl InvitePlanLimit, d)
                      | Inr True \<Rightarrow>
                          (case redeemInvite now iv s d of
                             Inl e \<Rightarrow> (Inl e, d)
                           | Inr (effective, d1) \<Rightarrow> (Inr (iv\<lparr>iv_role := effective\<rparr>), d1)))))"

section \<open>The outbox\<close>

text \<open>\<open>free\<close>: the rows no other transaction holds locked. Claiming leases a row for a minute.\<close>

definition ClaimRoleReconciliations :: "int \<Rightarrow> (intent \<Rightarrow> bool) \<Rightarrow> int \<Rightarrow> team_db \<Rightarrow> intent list \<times> team_db" where
  "ClaimRoleReconciliations now free limit d =
     (let n = (if limit \<le> 0 \<or> 500 < limit then 100 else nat limit);
          due = take n (sort_key ri_next (sort_key ri_updated (filter (\<lambda>i. ri_next i \<le> now \<and> free i) (td_intents d))));
          lease = (\<lambda>i. i\<lparr>ri_next := now + 60, ri_updated := now\<rparr>) in
      (map lease due,
       d\<lparr>td_intents := map (\<lambda>i. if list_ex (\<lambda>u. ri_tenant u = ri_tenant i \<and> ri_subject u = ri_subject i) due then lease i else i)
                        (td_intents d)\<rparr>))"

definition CompleteRoleReconciliation :: "string \<Rightarrow> string \<Rightarrow> string \<Rightarrow> team_db \<Rightarrow> team_db" where
  "CompleteRoleReconciliation t s role d =
     d\<lparr>td_intents := filter (\<lambda>i. \<not> (ri_tenant i = t \<and> ri_subject i = s \<and> ri_role i = role)) (td_intents d)\<rparr>"

definition FailRoleReconciliation :: "int \<Rightarrow> string \<Rightarrow> string \<Rightarrow> string \<Rightarrow> string \<Rightarrow> team_db \<Rightarrow> team_db" where
  "FailRoleReconciliation now t s role message d =
     d\<lparr>td_intents :=
         map (\<lambda>i. if ri_tenant i = t \<and> ri_subject i = s \<and> ri_role i = role
                  then i\<lparr>ri_attempts := ri_attempts i + 1, ri_next := now + min 3600 (5 * 2 ^ min (ri_attempts i) 10),
                         ri_error := Some (take 2000 message), ri_updated := now\<rparr>
                  else i) (td_intents d)\<rparr>"

section \<open>Lookups after a statement\<close>

named_theorems team_lookups

lemma seat_found: "seat_of d t s = Some m \<Longrightarrow> mb_tenant m = t \<and> mb_subject m = s \<and> m \<in> set (td_members d)"
  by (auto simp: seat_of_def find_Some_iff)

lemma seat_of_set_role [team_lookups]:
  "seat_of (set_role t s role d) t' s' =
     (if t' = t \<and> s' = s then map_option (\<lambda>m. m\<lparr>mb_role := role\<rparr>) (seat_of d t s) else seat_of d t' s')"
proof -
  have "find (\<lambda>m. mb_tenant m = t' \<and> mb_subject m = s')
          (map (\<lambda>m. if mb_tenant m = t \<and> mb_subject m = s then m\<lparr>mb_role := role\<rparr> else m) ms) =
        (if t' = t \<and> s' = s then map_option (\<lambda>m. m\<lparr>mb_role := role\<rparr>) (find (\<lambda>m. mb_tenant m = t \<and> mb_subject m = s) ms)
         else find (\<lambda>m. mb_tenant m = t' \<and> mb_subject m = s') ms)" for ms
    by (induction ms) auto
  from this [of "td_members d"] show ?thesis by (simp add: seat_of_def set_role_def)
qed

lemma seat_of_drop [team_lookups]: "seat_of (drop_seats out d) t s = (if out t s then None else seat_of d t s)"
proof -
  have "find (\<lambda>m. mb_tenant m = t \<and> mb_subject m = s) (filter (\<lambda>m. \<not> out (mb_tenant m) (mb_subject m)) ms) =
        (if out t s then None else find (\<lambda>m. mb_tenant m = t \<and> mb_subject m = s) ms)" for ms
    by (induction ms) auto
  from this [of "td_members d"] show ?thesis by (simp add: seat_of_def drop_seats_def)
qed

lemma find_append_seat: "find P (xs @ [x]) = (case find P xs of Some y \<Rightarrow> Some y | None \<Rightarrow> if P x then Some x else None)"
  by (induction xs) auto

lemma seat_of_add [team_lookups]:
  "seat_of (add_seat t s role k d) t' s' =
     (case seat_of d t' s' of
        Some m \<Rightarrow> Some m
      | None \<Rightarrow> if t' = t \<and> s' = s then Some \<lparr>mb_tenant = t, mb_subject = s, mb_role = role, mb_machine = k\<rparr> else None)"
  by (auto simp: seat_of_def add_seat_def find_append_seat split: option.split)

lemma seat_of_marked [team_lookups]:
  "seat_of (MarkMachineMemberships ids d) t s =
     map_option (\<lambda>m. if s \<in> set ids then m\<lparr>mb_machine := True\<rparr> else m) (seat_of d t s)"
proof -
  have "find (\<lambda>m. mb_tenant m = t \<and> mb_subject m = s) (map (\<lambda>m. if mb_subject m \<in> set ids then m\<lparr>mb_machine := True\<rparr> else m) ms) =
        map_option (\<lambda>m. if s \<in> set ids then m\<lparr>mb_machine := True\<rparr> else m) (find (\<lambda>m. mb_tenant m = t \<and> mb_subject m = s) ms)" for ms
    by (induction ms) auto
  from this [of "td_members d"] show ?thesis by (simp add: seat_of_def MarkMachineMemberships_def)
qed

lemma seat_of_other_tables [team_lookups]:
  "seat_of (d\<lparr>td_tenants := x\<rparr>) t s = seat_of d t s" "seat_of (d\<lparr>td_invites := y\<rparr>) t s = seat_of d t s"
  "seat_of (d\<lparr>td_intents := z\<rparr>) t s = seat_of d t s"
  by (simp_all add: seat_of_def)

lemma pending_iff: "HasPendingRoleReconciliation t s d \<longleftrightarrow> (\<exists>i\<in>set (td_intents d). ri_tenant i = t \<and> ri_subject i = s)"
  by (auto simp: HasPendingRoleReconciliation_def pending_intent_def find_None_iff)

section \<open>What every history keeps\<close>

text \<open>
  \<open>c\<close> tells the ids of Hydra clients from identities. A workspace's owner is a person who is seated there
  as an admin, the outbox asks for the role the membership has, and the rows of clients are marked.
\<close>

definition seat_key :: "member \<Rightarrow> string \<times> string" where
  "seat_key m = (mb_tenant m, mb_subject m)"

definition role_at :: "team_db \<Rightarrow> string \<Rightarrow> string \<Rightarrow> string option" where
  "role_at d t s = map_option mb_role (seat_of d t s)"

definition owners_seated :: "(string \<Rightarrow> bool) \<Rightarrow> team_db \<Rightarrow> bool" where
  "owners_seated c d \<longleftrightarrow>
     (\<forall>r\<in>set (td_tenants d). \<forall>s. tn_owner r = Some s \<longrightarrow> \<not> c s \<and> role_at d (tn_id r) s = Some ''admin'')"

definition intents_current :: "team_db \<Rightarrow> bool" where
  "intents_current d \<longleftrightarrow> (\<forall>i\<in>set (td_intents d). role_at d (ri_tenant i) (ri_subject i) = Some (ri_role i) \<and> ri_role i \<in> set Roles)"

definition machines_marked :: "(string \<Rightarrow> bool) \<Rightarrow> team_db \<Rightarrow> bool" where
  "machines_marked c d \<longleftrightarrow> (\<forall>m\<in>set (td_members d). mb_machine m = c (mb_subject m))"

definition seats_housed :: "team_db \<Rightarrow> bool" where
  "seats_housed d \<longleftrightarrow> (\<forall>m\<in>set (td_members d). mb_tenant m \<in> tn_id ` set (td_tenants d))"

definition team_ok :: "(string \<Rightarrow> bool) \<Rightarrow> team_db \<Rightarrow> bool" where
  "team_ok c d \<longleftrightarrow>
     distinct (map seat_key (td_members d)) \<and> distinct (map tn_id (td_tenants d)) \<and> seats_housed d \<and>
     machines_marked c d \<and> owners_seated c d \<and> intents_current d"

text \<open>One transaction of the control plane. Bindings are of clients, memberships of persons.\<close>

datatype team_op =
    ChangesRole int string string string
  | Removes string string
  | Offboards string string
  | Registers string string string
  | Opens string string string string
  | Onboards string string string
  | Adds string string string
  | Binds string string
  | Unbinds string
  | Marks "string list"
  | Replans string string
  | Invites string string string string string string int
  | Resends string string string int
  | Revokes string string
  | Accepts int int string string
  | Joins int string "invite list"
  | Claims int int "intent \<Rightarrow> bool"
  | Completes string string string
  | Fails int string string string string
  | Finalizes int "creation_attempt option" string
  | Deletes string

fun team_step :: "(string \<Rightarrow> bool) \<Rightarrow> (string \<Rightarrow> string) \<Rightarrow> string \<Rightarrow> team_op \<Rightarrow> team_db \<Rightarrow> team_db" where
  "team_step c sha ops (ChangesRole now t s role) d = snd (UpdateMemberRole now t s role d)"
| "team_step c sha ops (Removes t s) d = snd (RemoveMember t s d)"
| "team_step c sha ops (Offboards t s) d = snd (RemoveAccountMember t s d)"
| "team_step c sha ops (Registers t name plan) d = snd (CreateTenant t name plan d)"
| "team_step c sha ops (Opens t name plan s) d = (if c s then d else snd (CreateWorkspace t name plan s d))"
| "team_step c sha ops (Onboards t plan s) d = (if c s then d else snd (CreateTenantWithMember t plan s d))"
| "team_step c sha ops (Adds s t role) d = (if c s then d else snd (AddMember s t role d))"
| "team_step c sha ops (Binds cid t) d = (if c cid then snd (BindClient cid t d) else d)"
| "team_step c sha ops (Unbinds cid) d = (if c cid then UnbindClient cid d else d)"
| "team_step c sha ops (Marks ids) d = (if list_all c ids then MarkMachineMemberships ids d else d)"
| "team_step c sha ops (Replans t plan) d = snd (UpdateTenantPlan t plan d)"
| "team_step c sha ops (Invites i t email role token by' expires) d = snd (CreateInvite sha i t email role token by' expires d)"
| "team_step c sha ops (Resends t i token expires) d = snd (RefreshInvite sha t i token expires d)"
| "team_step c sha ops (Revokes t i) d = snd (DeleteInvite t i d)"
| "team_step c sha ops (Accepts now wall token s) d =
     (if c s then d else snd (AcceptInviteByToken sha ops now wall token s d))"
| "team_step c sha ops (Joins now s pending) d = (if c s then d else snd (redeemPending ops now s pending d))"
| "team_step c sha ops (Claims now limit free) d = snd (ClaimRoleReconciliations now free limit d)"
| "team_step c sha ops (Completes t s role) d = CompleteRoleReconciliation t s role d"
| "team_step c sha ops (Fails now t s role message) d = FailRoleReconciliation now t s role message d"
| "team_step c sha ops (Finalizes wall found s) d = (if c s then d else snd (FinalizeWorkspaceCreation wall found s d))"
| "team_step c sha ops (Deletes t) d = snd (DeleteTenant t d)"

text \<open>An admin who is a person.\<close>

definition admin_seat :: "team_db \<Rightarrow> string \<Rightarrow> string \<Rightarrow> bool" where
  "admin_seat d t s \<longleftrightarrow> (case seat_of d t s of None \<Rightarrow> False | Some m \<Rightarrow> mb_role m = ''admin'' \<and> \<not> mb_machine m)"

lemma seat_of_member: "distinct (map seat_key (td_members d)) \<Longrightarrow> m \<in> set (td_members d) \<Longrightarrow> seat_of d (mb_tenant m) (mb_subject m) = Some m"
proof -
  have "distinct (map seat_key ms) \<Longrightarrow> m \<in> set ms \<Longrightarrow> find (\<lambda>u. mb_tenant u = mb_tenant m \<and> mb_subject u = mb_subject m) ms = Some m" for ms
    by (induction ms) (force simp: seat_key_def)+
  then show "distinct (map seat_key (td_members d)) \<Longrightarrow> m \<in> set (td_members d) \<Longrightarrow> ?thesis"
    by (simp add: seat_of_def)
qed

lemma admins_iff:
  assumes "distinct (map seat_key (td_members d))"
  shows "0 < CountTenantAdmins t d \<longleftrightarrow> (\<exists>s. admin_seat d t s)"
proof
  assume "0 < CountTenantAdmins t d"
  then obtain m where m: "m \<in> set (td_members d)" "mb_tenant m = t" "mb_role m = ''admin''" "\<not> mb_machine m"
    by (auto simp: CountTenantAdmins_def filter_empty_conv)
  with seat_of_member [OF assms m(1)] have "admin_seat d t (mb_subject m)" by (simp add: admin_seat_def)
  then show "\<exists>s. admin_seat d t s" ..
next
  assume "\<exists>s. admin_seat d t s"
  then obtain s m where "seat_of d t s = Some m" "mb_role m = ''admin''" "\<not> mb_machine m"
    by (auto simp: admin_seat_def split: option.splits)
  with seat_found [of d t s m] show "0 < CountTenantAdmins t d"
    by (auto simp: CountTenantAdmins_def filter_empty_conv)
qed

lemma second_admin:
  assumes "distinct (map seat_key (td_members d))" "1 < CountTenantAdmins t d"
  shows "\<exists>s'. s' \<noteq> s \<and> admin_seat d t s'"
proof -
  let ?as = "filter (\<lambda>m. mb_tenant m = t \<and> mb_role m = ''admin'' \<and> \<not> mb_machine m) (td_members d)"
  from assms(2) obtain a b rest where ab: "?as = a # b # rest"
    by (cases ?as; cases "tl ?as") (auto simp: CountTenantAdmins_def)
  have "distinct (map seat_key ?as)" using assms(1) by (rule distinct_map_filter)
  with ab have "seat_key a \<noteq> seat_key b" by simp
  have in_as: "a \<in> set ?as" "b \<in> set ?as" unfolding ab by simp_all
  with \<open>seat_key a \<noteq> seat_key b\<close> have "mb_subject a \<noteq> mb_subject b" by (auto simp: seat_key_def)
  moreover have "admin_seat d t (mb_subject a)" "admin_seat d t (mb_subject b)"
    using in_as seat_of_member [OF assms(1), of a] seat_of_member [OF assms(1), of b] by (auto simp: admin_seat_def)
  ultimately show ?thesis by metis
qed

text \<open>A transaction that keeps the tables sound, and an admin in every workspace that has one.\<close>

definition keeps :: "(string \<Rightarrow> bool) \<Rightarrow> team_db \<Rightarrow> team_db \<Rightarrow> bool" where
  "keeps c d d' \<longleftrightarrow> team_ok c d \<longrightarrow> team_ok c d' \<and> (\<forall>t s. admin_seat d t s \<longrightarrow> (\<exists>s'. admin_seat d' t s'))"

lemma keeps_refl [simp]: "keeps c d d"
  by (auto simp: keeps_def)

lemma keeps_trans: "keeps c d1 d2 \<Longrightarrow> keeps c d2 d3 \<Longrightarrow> keeps c d1 d3"
  unfolding keeps_def by blast

lemma tenant_of_in: "tenant_of d t = Some r \<Longrightarrow> r \<in> set (td_tenants d) \<and> tn_id r = t"
  by (auto simp: tenant_of_def find_Some_iff)

lemma tenant_of_row: "distinct (map tn_id (td_tenants d)) \<Longrightarrow> r \<in> set (td_tenants d) \<Longrightarrow> tenant_of d (tn_id r) = Some r"
proof -
  have "distinct (map tn_id rs) \<Longrightarrow> r \<in> set rs \<Longrightarrow> find (\<lambda>q. tn_id q = tn_id r) rs = Some r" for rs
    by (induction rs) force+
  from this [of "td_tenants d"] show "distinct (map tn_id (td_tenants d)) \<Longrightarrow> r \<in> set (td_tenants d) \<Longrightarrow> ?thesis"
    by (simp add: tenant_of_def)
qed

lemma tenant_of_None: "tenant_of d t = None \<longleftrightarrow> t \<notin> tn_id ` set (td_tenants d)"
  by (auto simp: tenant_of_def find_None_iff)

lemma role_at_tables [simp]:
  "role_at (d\<lparr>td_tenants := x\<rparr>) = role_at d" "role_at (d\<lparr>td_invites := y\<rparr>) = role_at d" "role_at (d\<lparr>td_intents := z\<rparr>) = role_at d"
  by (simp_all add: role_at_def fun_eq_iff team_lookups)

lemma admin_seat_tables [simp]:
  "admin_seat (d\<lparr>td_tenants := x\<rparr>) = admin_seat d" "admin_seat (d\<lparr>td_invites := y\<rparr>) = admin_seat d"
  "admin_seat (d\<lparr>td_intents := z\<rparr>) = admin_seat d"
  by (simp_all add: admin_seat_def fun_eq_iff team_lookups)

lemma keeps_intents:
  assumes "\<And>i. i \<in> set qs \<Longrightarrow> (\<exists>j\<in>set (td_intents d). ri_tenant i = ri_tenant j \<and> ri_subject i = ri_subject j \<and> ri_role i = ri_role j)
      \<or> role_at d (ri_tenant i) (ri_subject i) = Some (ri_role i) \<and> ri_role i \<in> set Roles"
  shows "keeps c d (d\<lparr>td_intents := qs\<rparr>)"
proof -
  have "intents_current d \<Longrightarrow> intents_current (d\<lparr>td_intents := qs\<rparr>)"
    unfolding intents_current_def using assms by fastforce
  then show ?thesis
    by (auto simp: keeps_def team_ok_def seats_housed_def machines_marked_def owners_seated_def)
qed

lemma keeps_invites: "keeps c d (d\<lparr>td_invites := qs\<rparr>)"
  by (auto simp: keeps_def team_ok_def seats_housed_def machines_marked_def owners_seated_def intents_current_def)

lemma enqueue_cases:
  assumes "enqueueRoleReconciliation now t s role d = Inr d'"
  obtains qs where "d' = d\<lparr>td_intents := qs\<rparr>" "role \<in> set Roles"
    "\<And>i. i \<in> set qs \<Longrightarrow> i \<in> set (td_intents d) \<and> (ri_tenant i, ri_subject i) \<noteq> (t, s) \<or> ri_tenant i = t \<and> ri_subject i = s \<and> ri_role i = role"
    "\<exists>i\<in>set qs. ri_tenant i = t \<and> ri_subject i = s"
proof -
  let ?new = "\<lparr>ri_tenant = t, ri_subject = s, ri_role = role, ri_attempts = 0, ri_next = now, ri_error = None, ri_updated = now\<rparr>"
  let ?up = "\<lambda>i. if ri_tenant i = t \<and> ri_subject i = s
       then i\<lparr>ri_role := role, ri_attempts := 0, ri_next := now, ri_error := None, ri_updated := now\<rparr> else i"
  show thesis
  proof (cases "pending_intent d t s")
    case None
    then have "\<And>i. i \<in> set (td_intents d) \<Longrightarrow> (ri_tenant i, ri_subject i) \<noteq> (t, s)"
      by (auto simp: pending_intent_def find_None_iff)
    moreover from None assms have eq: "d' = d\<lparr>td_intents := td_intents d @ [?new]\<rparr>" "role \<in> set Roles"
      by (auto simp: enqueueRoleReconciliation_def split: if_splits)
    ultimately show thesis by (intro that [OF eq]) auto
  next
    case (Some j)
    then have j: "j \<in> set (td_intents d)" "ri_tenant j = t" "ri_subject j = s"
      by (auto simp: pending_intent_def find_Some_iff)
    have "?up j \<in> set (map ?up (td_intents d))" using j(1) unfolding set_map by (rule imageI)
    moreover have "ri_tenant (?up j) = t \<and> ri_subject (?up j) = s" using j by simp
    ultimately have ex: "\<exists>i\<in>set (map ?up (td_intents d)). ri_tenant i = t \<and> ri_subject i = s" by blast
    from Some assms have eq: "d' = d\<lparr>td_intents := map ?up (td_intents d)\<rparr>" "role \<in> set Roles"
      by (auto simp: enqueueRoleReconciliation_def split: if_splits)
    have "i \<in> set (td_intents d) \<and> (ri_tenant i, ri_subject i) \<noteq> (t, s) \<or> ri_tenant i = t \<and> ri_subject i = s \<and> ri_role i = role"
      if i: "i \<in> set (map ?up (td_intents d))" for i
    proof -
      from i obtain k where "k \<in> set (td_intents d)" "i = ?up k" by auto
      then show ?thesis by (cases "ri_tenant k = t \<and> ri_subject k = s") auto
    qed
    then show thesis by (rule that [OF eq _ ex])
  qed
qed

lemma keeps_role:
  assumes m: "seat_of d t s = Some m" and enq: "enqueueRoleReconciliation now t s role (set_role t s role d) = Inr d'"
    and owner: "role = ''admin'' \<or> \<not> tenantOwnerIs t s d"
    and admin: "mb_role m \<noteq> ''admin'' \<or> role = ''admin'' \<or> 1 < CountTenantAdmins t d"
  shows "keeps c d d'"
  unfolding keeps_def
proof (intro impI conjI allI)
  assume ok: "team_ok c d"
  from enq obtain qs where d': "d' = (set_role t s role d)\<lparr>td_intents := qs\<rparr>" and role: "role \<in> set Roles"
    and qs': "\<And>i. i \<in> set qs \<Longrightarrow> i \<in> set (td_intents d) \<and> (ri_tenant i, ri_subject i) \<noteq> (t, s) \<or>
        ri_tenant i = t \<and> ri_subject i = s \<and> ri_role i = role"
    by (rule enqueue_cases) (auto simp: set_role_def)
  have at: "role_at d' t' s' = (if t' = t \<and> s' = s then Some role else role_at d t' s')" for t' s'
    using m by (simp add: d' role_at_def team_lookups)
  have keys: "map seat_key (td_members d') = map seat_key (td_members d)"
    by (simp add: d' set_role_def seat_key_def comp_def)
  have rows: "td_tenants d' = td_tenants d" by (simp add: d' set_role_def)
  have "owners_seated c d'"
    using ok owner tenant_of_row [of d]
    by (auto simp: owners_seated_def team_ok_def at rows tenantOwnerIs_def split: option.splits)
  moreover have "intents_current d'"
    unfolding intents_current_def
  proof
    fix i assume "i \<in> set (td_intents d')"
    then have "i \<in> set qs" by (simp add: d')
    from qs' [OF this] ok role show "role_at d' (ri_tenant i) (ri_subject i) = Some (ri_role i) \<and> ri_role i \<in> set Roles"
      by (auto simp: at team_ok_def intents_current_def)
  qed
  moreover have "seats_housed d'" "machines_marked c d'"
    using ok by (auto simp: seats_housed_def machines_marked_def team_ok_def d' set_role_def)
  ultimately show "team_ok c d'" using ok by (simp add: team_ok_def keys rows)
  fix t' s' assume a: "admin_seat d t' s'"
  show "\<exists>u. admin_seat d' t' u"
  proof (cases "t' = t \<and> s' = s \<and> role \<noteq> ''admin''")
    case True
    with a m admin have "1 < CountTenantAdmins t d" by (auto simp: admin_seat_def)
    with ok second_admin [of d t s] obtain u where "u \<noteq> s" "admin_seat d t u" by (auto simp: team_ok_def)
    with True have "admin_seat d' t' u" by (simp add: admin_seat_def d' team_lookups)
    then show ?thesis ..
  next
    case False
    with a have "admin_seat d' t' s'" by (auto simp: admin_seat_def d' team_lookups split: option.splits)
    then show ?thesis ..
  qed
qed

lemma keeps_drop:
  assumes owner: "\<And>r s. r \<in> set rs \<Longrightarrow> tn_owner r = Some s \<Longrightarrow> r \<in> set (td_tenants d) \<and> \<not> out (tn_id r) s"
    and ids: "map tn_id rs = map tn_id (td_tenants d)"
    and admin: "\<And>t s. team_ok c d \<Longrightarrow> admin_seat d t s \<Longrightarrow> \<exists>u. admin_seat d t u \<and> \<not> out t u"
  shows "keeps c d ((drop_seats out d)\<lparr>td_tenants := rs\<rparr>)"
  unfolding keeps_def
proof (intro impI conjI allI)
  let ?d = "(drop_seats out d)\<lparr>td_tenants := rs\<rparr>"
  assume ok: "team_ok c d"
  have at: "role_at (drop_seats out d) t s = (if out t s then None else role_at d t s)" for t s
    by (simp add: role_at_def team_lookups)
  have img: "tn_id ` set rs = tn_id ` set (td_tenants d)" using ids by (metis set_map)
  have "owners_seated c ?d"
    using ok owner by (auto simp: owners_seated_def team_ok_def at)
  moreover have "intents_current ?d"
    using ok by (auto simp: intents_current_def team_ok_def at) (auto simp: drop_seats_def)
  moreover have "distinct (map seat_key (td_members ?d))"
    using ok by (simp add: team_ok_def drop_seats_def distinct_map_filter)
  ultimately show "team_ok c ?d"
    using ok ids by (auto simp: team_ok_def seats_housed_def machines_marked_def drop_seats_def img)
  fix t s assume "admin_seat d t s"
  with admin [OF ok] obtain u where "admin_seat d t u" "\<not> out t u" by blast
  then have "admin_seat ?d t u" by (simp add: admin_seat_def team_lookups)
  then show "\<exists>s'. admin_seat ?d t s'" ..
qed

lemma keeps_add:
  assumes "seat_of d t s = None" "tenant_of d t \<noteq> None" "k = c s"
  shows "keeps c d (add_seat t s role k d)"
  unfolding keeps_def
proof (intro impI conjI allI)
  let ?d = "add_seat t s role k d"
  assume ok: "team_ok c d"
  have at: "role_at d t' s' = Some r \<Longrightarrow> role_at ?d t' s' = Some r" for t' s' r
    by (auto simp: role_at_def team_lookups)
  have "(t, s) \<notin> seat_key ` set (td_members d)"
    using assms(1) by (auto simp: seat_of_def find_None_iff seat_key_def)
  then have "distinct (map seat_key (td_members ?d))" using ok by (simp add: team_ok_def add_seat_def seat_key_def)
  moreover have "owners_seated c ?d" "intents_current ?d"
    using ok at by (auto simp: owners_seated_def intents_current_def team_ok_def) (auto simp: add_seat_def)
  moreover have "seats_housed ?d" "machines_marked c ?d"
    using ok assms by (auto simp: team_ok_def seats_housed_def machines_marked_def add_seat_def tenant_of_None)
  ultimately show "team_ok c ?d" using ok by (simp add: team_ok_def add_seat_def)
  fix t' s' assume "admin_seat d t' s'"
  then have "admin_seat ?d t' s'" by (auto simp: admin_seat_def team_lookups split: option.splits)
  then show "\<exists>u. admin_seat ?d t' u" ..
qed

lemma keeps_seat:
  "seat_unless_there t s role d = Inr d' \<Longrightarrow> \<not> c s \<Longrightarrow> keeps c d d'"
  by (auto simp: seat_unless_there_def split: if_splits intro!: keeps_add)

lemma keeps_update_role: "keeps c d (snd (UpdateMemberRole now t s role d))"
  by (auto simp: UpdateMemberRole_def split: option.split sum.split intro!: keeps_role)

lemma removal_owner:
  assumes "distinct (map tn_id (td_tenants d))" "\<not> tenantOwnerIs t s d" "r \<in> set (td_tenants d)" "tn_owner r = Some o'"
  shows "\<not> (tn_id r = t \<and> o' = s)"
  using assms tenant_of_row [of d r] by (auto simp: tenantOwnerIs_def)

lemma keeps_self: "(team_ok c d \<Longrightarrow> keeps c d d') \<Longrightarrow> keeps c d d'"
  by (auto simp: keeps_def)

lemma keeps_remove: "keeps c d (snd (RemoveMember t s d))"
proof (rule keeps_self)
  assume ok: "team_ok c d"
  let ?out = "\<lambda>t' s'. t' = t \<and> s' = s"
  show ?thesis
  proof (cases "\<exists>m. seat_of d t s = Some m \<and> \<not> tenantOwnerIs t s d \<and> (mb_role m = ''admin'' \<longrightarrow> 1 < CountTenantAdmins t d)")
    case False
    then have "snd (RemoveMember t s d) = d" by (auto simp: RemoveMember_def split: option.split)
    then show ?thesis by simp
  next
    case True
    then obtain m where m: "seat_of d t s = Some m" "\<not> tenantOwnerIs t s d" "mb_role m = ''admin'' \<longrightarrow> 1 < CountTenantAdmins t d"
      by blast
    then have "snd (RemoveMember t s d) = (drop_seats ?out d)\<lparr>td_tenants := td_tenants d\<rparr>"
      by (auto simp: RemoveMember_def drop_seats_def)
    moreover have "keeps c d ((drop_seats ?out d)\<lparr>td_tenants := td_tenants d\<rparr>)"
    proof (rule keeps_drop)
      show "r \<in> set (td_tenants d) \<Longrightarrow> tn_owner r = Some u \<Longrightarrow> r \<in> set (td_tenants d) \<and> \<not> (tn_id r = t \<and> u = s)" for r u
        using removal_owner [of d t s r u] ok m(2) by (simp add: team_ok_def)
      show "admin_seat d t' s' \<Longrightarrow> \<exists>u. admin_seat d t' u \<and> \<not> (t' = t \<and> u = s)" for t' s'
        using second_admin [of d t s] ok m(1,3) by (cases "t' = t \<and> s' = s") (auto simp: admin_seat_def team_ok_def)
    qed simp
    ultimately show ?thesis by simp
  qed
qed

lemma keeps_offboard: "keeps c d (snd (RemoveAccountMember t s d))"
proof (rule keeps_self)
  assume ok: "team_ok c d"
  let ?out = "\<lambda>t' s'. t' = t \<and> s' = s"
  let ?free = "\<lambda>r. if tn_id r = t \<and> tn_owner r = Some s then r\<lparr>tn_owner := None\<rparr> else r"
  show ?thesis
  proof (cases "filter (\<lambda>m. mb_tenant m = t \<and> mb_role m = ''admin'' \<and> \<not> mb_machine m \<and> mb_subject m \<noteq> s) (td_members d) = []")
    case True
    then show ?thesis by (simp add: RemoveAccountMember_def)
  next
    case False
    then obtain m where m: "m \<in> set (td_members d)" "mb_tenant m = t" "mb_role m = ''admin''" "\<not> mb_machine m" "mb_subject m \<noteq> s"
      by (auto simp: filter_empty_conv)
    from ok m seat_of_member [of d m] have other: "admin_seat d t (mb_subject m)" by (simp add: team_ok_def admin_seat_def)
    from False have "snd (RemoveAccountMember t s d) = (drop_seats ?out d)\<lparr>td_tenants := map ?free (td_tenants d)\<rparr>"
      by (simp add: RemoveAccountMember_def drop_seats_def)
    moreover have "keeps c d ((drop_seats ?out d)\<lparr>td_tenants := map ?free (td_tenants d)\<rparr>)"
    proof (rule keeps_drop)
      show "r \<in> set (map ?free (td_tenants d)) \<Longrightarrow> tn_owner r = Some u \<Longrightarrow> r \<in> set (td_tenants d) \<and> \<not> (tn_id r = t \<and> u = s)" for r u
        by (auto split: if_splits)
      show "admin_seat d t' s' \<Longrightarrow> \<exists>u. admin_seat d t' u \<and> \<not> (t' = t \<and> u = s)" for t' s'
        using other m(5) by (cases "t' = t") auto
    qed (simp add: comp_def)
    ultimately show ?thesis by simp
  qed
qed

lemma insert_tenant_cases:
  "insert_tenant t name plan owner d = Inr d' \<Longrightarrow>
     t \<notin> tn_id ` set (td_tenants d) \<and>
     d' = d\<lparr>td_tenants := td_tenants d @ [\<lparr>tn_id = t, tn_name = name, tn_plan = plan, tn_owner = owner\<rparr>]\<rparr>"
  by (auto simp: insert_tenant_def list_ex_iff split: if_splits)

lemma keeps_insert_tenant: "insert_tenant t name plan None d = Inr d' \<Longrightarrow> keeps c d d'"
  by (drule insert_tenant_cases)
    (auto simp: keeps_def team_ok_def seats_housed_def machines_marked_def owners_seated_def intents_current_def)

lemma keeps_create_tenant: "keeps c d (snd (CreateTenant t name plan d))"
  by (auto simp: CreateTenant_def split: sum.split intro: keeps_insert_tenant)

lemma keeps_create_workspace: "\<not> c s \<Longrightarrow> keeps c d (snd (CreateWorkspace t name plan s d))"
proof -
  assume s: "\<not> c s"
  have "insert_tenant t name plan None d = Inr d1 \<Longrightarrow> seat_of d1 t s = None \<Longrightarrow> keeps c d (add_seat t s ''admin'' False d1)" for d1
    using keeps_trans [OF keeps_insert_tenant keeps_add [of d1 t s False c "''admin''"]] insert_tenant_cases s
    by (force simp: tenant_of_None)
  then show ?thesis by (auto simp: CreateWorkspace_def split: sum.split)
qed

lemma keeps_onboard:
  assumes s: "\<not> c s"
  shows "keeps c d (snd (CreateTenantWithMember t plan s d))"
proof (rule keeps_self)
  assume ok: "team_ok c d"
  show ?thesis
  proof (cases "find (\<lambda>r. tn_owner r = Some s) (td_tenants d)")
    case (Some r)
    then have "r \<in> set (td_tenants d)" "tn_owner r = Some s" by (auto simp: find_Some_iff)
    with ok have "seat_of d (tn_id r) s \<noteq> None" by (auto simp: team_ok_def owners_seated_def role_at_def)
    with Some show ?thesis by (simp add: CreateTenantWithMember_def seat_unless_there_def)
  next
    case None
    show ?thesis
    proof (cases "insert_tenant t t plan (Some s) d")
      case (Inl e)
      with None show ?thesis by (simp add: CreateTenantWithMember_def)
    next
      case (Inr d1)
      let ?r = "\<lparr>tn_id = t, tn_name = t, tn_plan = plan, tn_owner = Some s\<rparr>"
      from insert_tenant_cases [OF Inr] have t: "t \<notin> tn_id ` set (td_tenants d)" "d1 = d\<lparr>td_tenants := td_tenants d @ [?r]\<rparr>"
        by auto
      have "seat_of d t s = None"
        using ok t(1) seat_found [of d t s] by (cases "seat_of d t s") (auto simp: team_ok_def seats_housed_def)
      with t(2) have no: "seat_of d1 t s = None" by (simp add: team_lookups)
      have home: "tenant_of d1 t \<noteq> None" by (simp add: tenant_of_None t(2))
      have "snd (CreateTenantWithMember t plan s d) = (if td_deleting d s then d else add_seat t s ''admin'' False d1)"
        using None Inr no home by (auto simp: CreateTenantWithMember_def seat_unless_there_def)
      moreover have "add_seat t s ''admin'' False d1 = (add_seat t s ''admin'' False d1)\<lparr>td_tenants := td_tenants d @ [?r]\<rparr>"
        by (simp add: add_seat_def t(2))
      moreover have "keeps c d (add_seat t s ''admin'' False d1)"
        unfolding keeps_def
      proof (intro impI conjI allI)
        let ?d = "add_seat t s ''admin'' False d1"
        have at: "role_at ?d t' s' = (if t' = t \<and> s' = s then Some ''admin'' else role_at d t' s')" for t' s'
          using no by (auto simp: role_at_def team_lookups t(2) split: option.split)
        have new: "role_at d t s = None" using no by (simp add: role_at_def t(2) team_lookups)
        have "owners_seated c ?d"
          using ok s t(1) by (auto simp: owners_seated_def team_ok_def at) (auto simp: add_seat_def t(2))
        moreover have "intents_current ?d"
          using ok new by (auto simp: intents_current_def team_ok_def at) (auto simp: add_seat_def t(2))
        moreover have "distinct (map seat_key (td_members ?d))"
          using ok no by (auto simp: team_ok_def add_seat_def t(2) seat_key_def seat_of_def find_None_iff)
        ultimately show "team_ok c ?d"
          using ok s t(1) by (auto simp: team_ok_def seats_housed_def machines_marked_def add_seat_def t(2))
        fix t' s' assume "admin_seat d t' s'"
        then have "admin_seat ?d t' s'" by (auto simp: admin_seat_def team_lookups t(2) split: option.splits)
        then show "\<exists>u. admin_seat ?d t' u" ..
      qed
      ultimately show ?thesis by simp
    qed
  qed
qed

lemma keeps_add_member: "\<not> c s \<Longrightarrow> keeps c d (snd (AddMember s t role d))"
  by (auto simp: AddMember_def split: sum.split intro: keeps_seat)

lemma client_never_admin: "team_ok c d \<Longrightarrow> admin_seat d t s \<Longrightarrow> \<not> c s"
  by (auto simp: admin_seat_def team_ok_def machines_marked_def dest: seat_found split: option.splits)

lemma keeps_drop_client: "c cid \<Longrightarrow> keeps c d (drop_seats (\<lambda>t' s'. s' = cid) d)"
proof (rule keeps_self)
  assume cid: "c cid" and ok: "team_ok c d"
  have "keeps c d ((drop_seats (\<lambda>t' s'. s' = cid) d)\<lparr>td_tenants := td_tenants d\<rparr>)"
  proof (rule keeps_drop)
    show "r \<in> set (td_tenants d) \<Longrightarrow> tn_owner r = Some u \<Longrightarrow> r \<in> set (td_tenants d) \<and> u \<noteq> cid" for r u
      using ok cid by (auto simp: team_ok_def owners_seated_def)
    show "admin_seat d t u \<Longrightarrow> \<exists>v. admin_seat d t v \<and> v \<noteq> cid" for t u
      using client_never_admin [OF ok] cid by auto
  qed simp
  then show "keeps c d (drop_seats (\<lambda>t' s'. s' = cid) d)" by (simp add: drop_seats_def)
qed

lemma keeps_bind: "c cid \<Longrightarrow> keeps c d (snd (BindClient cid t d))"
proof (cases "tenant_of d t")
  case (Some r)
  assume cid: "c cid"
  have "keeps c (drop_seats (\<lambda>t' s'. s' = cid) d) (add_seat t cid ''developer'' True (drop_seats (\<lambda>t' s'. s' = cid) d))"
    using Some cid by (intro keeps_add) (simp_all add: team_lookups, simp add: drop_seats_def tenant_of_def)
  from keeps_trans [OF keeps_drop_client [of c cid, OF cid] this] Some show ?thesis by (simp add: BindClient_def)
qed (simp add: BindClient_def)

lemma keeps_mark:
  assumes "list_all c ids"
  shows "keeps c d (MarkMachineMemberships ids d)"
proof (rule keeps_self)
  assume ok: "team_ok c d"
  have same: "map (\<lambda>m. if mb_subject m \<in> set ids then m\<lparr>mb_machine := True\<rparr> else m) (td_members d) = td_members d"
    using ok assms by (auto simp: team_ok_def machines_marked_def list_all_iff intro!: map_idI)
  then show "keeps c d (MarkMachineMemberships ids d)" by (simp add: MarkMachineMemberships_def)
qed

lemma keeps_tenants:
  assumes ids: "map tn_id rs = map tn_id (td_tenants d)"
    and owners: "\<And>r u. r \<in> set rs \<Longrightarrow> tn_owner r = Some u \<Longrightarrow> \<exists>q\<in>set (td_tenants d). tn_id q = tn_id r \<and> tn_owner q = Some u"
  shows "keeps c d (d\<lparr>td_tenants := rs\<rparr>)"
proof -
  have "tn_id ` set rs = tn_id ` set (td_tenants d)" using ids by (metis set_map)
  moreover have "owners_seated c d \<Longrightarrow> owners_seated c (d\<lparr>td_tenants := rs\<rparr>)"
    using owners by (fastforce simp: owners_seated_def)
  ultimately show ?thesis
    by (simp add: keeps_def team_ok_def seats_housed_def machines_marked_def intents_current_def ids)
qed

lemma keeps_replan: "keeps c d (snd (UpdateTenantPlan t plan d))"
proof -
  have "keeps c d (d\<lparr>td_tenants := map (\<lambda>r. if tn_id r = t then r\<lparr>tn_plan := plan\<rparr> else r) (td_tenants d)\<rparr>)"
    by (rule keeps_tenants) (auto split: if_splits)
  then show ?thesis by (simp add: UpdateTenantPlan_def)
qed

lemma keeps_invite_ops:
  "keeps c d (snd (CreateInvite sha i t email role token by' expires d))"
  "keeps c d (snd (RefreshInvite sha t i token expires d))"
  "keeps c d (snd (DeleteInvite t i d))"
  by (simp_all add: CreateInvite_def RefreshInvite_def DeleteInvite_def Let_def keeps_invites split: option.split)

lemma keeps_enqueue:
  assumes "enqueueRoleReconciliation now t s role d = Inr d'" "role_at d t s = Some role"
  shows "keeps c d d'"
  using assms(1)
proof (rule enqueue_cases)
  fix qs
  assume d': "d' = d\<lparr>td_intents := qs\<rparr>" and role: "role \<in> set Roles"
    and qs: "\<And>i. i \<in> set qs \<Longrightarrow> i \<in> set (td_intents d) \<and> (ri_tenant i, ri_subject i) \<noteq> (t, s) \<or>
       ri_tenant i = t \<and> ri_subject i = s \<and> ri_role i = role"
  show "keeps c d d'" unfolding d' by (rule keeps_intents) (use qs assms(2) role in blast)
qed

lemma seated_after: "seat_unless_there t s role d = Inr d' \<Longrightarrow> seat_of d' t s \<noteq> None"
  by (auto simp: seat_unless_there_def team_lookups split: if_splits)

lemma keeps_redeem:
  assumes "redeemInvite now iv s d = Inr (effective, d')" "\<not> c s"
  shows "keeps c d d'"
proof -
  from assms(1) obtain d1 d2 m where
    d1: "seat_unless_there (iv_tenant iv) s (iv_role iv) d = Inr d1" "seat_of d1 (iv_tenant iv) s = Some m" and
    d2: "enqueueRoleReconciliation now (iv_tenant iv) s (mb_role m) d1 = Inr d2" and
    d': "d' = mark_accepted now (iv_id iv) d2"
    by (auto simp: redeemInvite_def Let_def dest: seated_after split: sum.splits)
  from keeps_seat [of _ _ _ _ _ c, OF d1(1) assms(2)] keeps_enqueue [of _ _ _ _ _ _ c, OF d2] d1(2)
  have "keeps c d d2" by (auto simp: role_at_def intro: keeps_trans)
  then show ?thesis unfolding d' mark_accepted_def by (rule keeps_trans) (rule keeps_invites)
qed

lemma keeps_redeem_all: "redeem_all ops now s ivs d = Inr (got, d') \<Longrightarrow> \<not> c s \<Longrightarrow> keeps c d d'"
proof (induction ivs arbitrary: d got)
  case (Cons iv ivs)
  show ?case
  proof (cases "planAllowsJoin ops iv s d = Inr True")
    case True
    with Cons.prems(1) obtain e d1 got1 where
      "redeemInvite now iv s d = Inr (e, d1)" "redeem_all ops now s ivs d1 = Inr (got1, d')"
      by (auto split: sum.splits)
    with Cons.IH [of d1 got1] keeps_redeem [of now iv s d e d1 c] Cons.prems(2) show ?thesis
      by (auto intro: keeps_trans)
  next
    case False
    with Cons.prems(1) have "redeem_all ops now s ivs d = Inr (got, d')" by (auto split: sum.splits bool.splits)
    with Cons.IH Cons.prems(2) show ?thesis by blast
  qed
qed simp

lemma keeps_join: "\<not> c s \<Longrightarrow> keeps c d (snd (redeemPending ops now s pending d))"
  by (auto simp: redeemPending_def split: sum.split intro: keeps_redeem_all)

lemma keeps_accept: "\<not> c s \<Longrightarrow> keeps c d (snd (AcceptInviteByToken sha ops now wall token s d))"
  by (auto simp: AcceptInviteByToken_def split: sum.split bool.split intro: keeps_redeem)

lemma keeps_outbox:
  "keeps c d (snd (ClaimRoleReconciliations now free limit d))"
  "keeps c d (CompleteRoleReconciliation t s role d)"
  "keeps c d (FailRoleReconciliation now t s role message d)"
  unfolding ClaimRoleReconciliations_def CompleteRoleReconciliation_def FailRoleReconciliation_def Let_def snd_conv
  by (rule keeps_intents; force)+

lemma keeps_finalize: "\<not> c s \<Longrightarrow> keeps c d (snd (FinalizeWorkspaceCreation wall found s d))"
proof -
  assume s: "\<not> c s"
  have "snd (FinalizeWorkspaceCreation wall found s d) = d \<or>
      (\<exists>t name plan. snd (FinalizeWorkspaceCreation wall found s d) = snd (CreateWorkspace t name plan s d))"
    by (auto simp: FinalizeWorkspaceCreation_def split: option.split prod.split) (metis snd_conv)+
  with keeps_create_workspace [of c s, OF s] show ?thesis by (metis keeps_refl)
qed

text \<open>Deleting a workspace touches no other.\<close>

lemma DeleteTenant_ok:
  assumes "team_ok c d"
  shows "team_ok c (snd (DeleteTenant t d))" and "t' \<noteq> t \<Longrightarrow> seat_of (snd (DeleteTenant t d)) t' s = seat_of d t' s"
proof -
  show same: "t' \<noteq> t \<Longrightarrow> seat_of (snd (DeleteTenant t d)) t' s = seat_of d t' s" for t' s
    by (simp add: DeleteTenant_def Let_def team_lookups)
  let ?d = "snd (DeleteTenant t d)"
  show "team_ok c ?d"
  proof (cases "tenant_of d t = None")
    case True
    with assms show ?thesis by (simp add: DeleteTenant_def)
  next
    case False
    then have tables: "td_members ?d = filter (\<lambda>m. mb_tenant m \<noteq> t) (td_members d)"
      "td_tenants ?d = filter (\<lambda>r. tn_id r \<noteq> t) (td_tenants d)"
      "td_intents ?d = filter (\<lambda>i. ri_tenant i \<noteq> t) (td_intents d)"
      by (auto simp: DeleteTenant_def Let_def drop_seats_def)
    have role: "t' \<noteq> t \<Longrightarrow> role_at ?d t' s = role_at d t' s" for t' s by (simp add: role_at_def same)
    show ?thesis
      using assms
      by (auto simp: team_ok_def seats_housed_def machines_marked_def owners_seated_def intents_current_def tables role
          distinct_map_filter)
  qed
qed

lemma keeps_step: "(\<forall>t. a \<noteq> Deletes t) \<Longrightarrow> keeps c d (team_step c sha ops a d)"
  by (cases a) (simp_all add: keeps_update_role keeps_remove keeps_offboard keeps_create_tenant keeps_create_workspace
    keeps_onboard keeps_add_member keeps_bind UnbindClient_def keeps_drop_client keeps_mark keeps_replan keeps_invite_ops
    keeps_accept keeps_join keeps_outbox keeps_finalize)

lemma step_keeps_admin:
  assumes "team_ok c d" and "a \<noteq> Deletes t" and "admin_seat d t s"
  shows "\<exists>u. admin_seat (team_step c sha ops a d) t u"
proof (cases "\<exists>t'. a = Deletes t'")
  case True
  then obtain t' where "a = Deletes t'" ..
  with assms DeleteTenant_ok(2) [OF assms(1), of t t' s] have "admin_seat (team_step c sha ops a d) t s"
    by (auto simp: admin_seat_def)
  then show ?thesis ..
next
  case False
  with assms keeps_step [of a c d sha ops] show ?thesis by (auto simp: keeps_def)
qed

lemma step_team_ok: "team_ok c d \<Longrightarrow> team_ok c (team_step c sha ops a d)"
  using keeps_step [of a c d sha ops] DeleteTenant_ok(1) [of c d] by (cases "\<exists>t. a = Deletes t") (auto simp: keeps_def)

definition team_run :: "(string \<Rightarrow> bool) \<Rightarrow> (string \<Rightarrow> string) \<Rightarrow> string \<Rightarrow> team_op list \<Rightarrow> team_db \<Rightarrow> team_db" where
  "team_run c sha ops as d = fold (team_step c sha ops) as d"

text \<open>The workspaces with an admin are the rows that a history keeps, the deletion of the workspace apart.\<close>

interpretation team: history "team_step c sha ops" "team_ok c" "\<lambda>d. {t. 0 < CountTenantAdmins t d}" "(=)"
  "\<lambda>a t. a \<noteq> Deletes t" "\<lambda>a t. t"
proof
  fix a d t
  assume ok: "team_ok c d"
  show ok': "team_ok c (team_step c sha ops a d)" by (rule step_team_ok [OF ok])
  assume "t \<in> {t. 0 < CountTenantAdmins t d}" "a \<noteq> Deletes t"
  with ok step_keeps_admin [OF ok] have "\<exists>s. admin_seat (team_step c sha ops a d) t s"
    by (auto simp: admins_iff team_ok_def)
  with ok' show "\<exists>q\<in>{t. 0 < CountTenantAdmins t (team_step c sha ops a d)}. t = q" by (simp add: admins_iff team_ok_def)
qed auto

definition no_team :: team_db where
  "no_team = \<lparr>td_tenants = [], td_members = [], td_invites = [], td_intents = [], td_deleting = \<lambda>_. False\<rparr>"

lemma no_team_ok [simp]: "team_ok c no_team"
  by (simp add: team_ok_def no_team_def seats_housed_def machines_marked_def owners_seated_def intents_current_def)

lemma run_team_ok [simp]: "team_ok c (team_run c sha ops as no_team)"
  unfolding team_run_def by (rule team.run_ok) simp

lemma owner_role: "team_ok c d \<Longrightarrow> tenantOwnerIs t s d \<Longrightarrow> role_at d t s = Some ''admin''"
  using tenant_of_in [of d t] by (auto simp: tenantOwnerIs_def team_ok_def owners_seated_def split: option.splits)

section \<open>What a transaction does to one member\<close>

text \<open>Only the seat and the outbox rows of one subject in one workspace change.\<close>

definition only_member :: "string \<Rightarrow> string \<Rightarrow> team_db \<Rightarrow> team_db \<Rightarrow> bool" where
  "only_member t s d d' \<longleftrightarrow>
     (\<forall>t' s'. (t', s') \<noteq> (t, s) \<longrightarrow> seat_of d' t' s' = seat_of d t' s' \<and>
        HasPendingRoleReconciliation t' s' d' = HasPendingRoleReconciliation t' s' d)"

lemma only_member_refl [simp]: "only_member t s d d"
  by (simp add: only_member_def)

lemma pending_tables [simp]:
  "HasPendingRoleReconciliation t s (d\<lparr>td_tenants := x\<rparr>) = HasPendingRoleReconciliation t s d"
  "HasPendingRoleReconciliation t s (d\<lparr>td_members := y\<rparr>) = HasPendingRoleReconciliation t s d"
  "HasPendingRoleReconciliation t s (d\<lparr>td_invites := z\<rparr>) = HasPendingRoleReconciliation t s d"
  by (simp_all add: HasPendingRoleReconciliation_def pending_intent_def)

lemma pending_map:
  assumes "\<And>i. ri_tenant (f i) = ri_tenant i \<and> ri_subject (f i) = ri_subject i"
  shows "HasPendingRoleReconciliation t s (d\<lparr>td_intents := map f (td_intents d)\<rparr>) = HasPendingRoleReconciliation t s d"
  unfolding pending_iff using assms by (auto simp: image_iff)

lemma only_member_trans: "only_member t s d d1 \<Longrightarrow> only_member t s d1 d2 \<Longrightarrow> only_member t s d d2"
  by (simp add: only_member_def)

lemma enqueue_member:
  assumes "enqueueRoleReconciliation now t s role d = Inr d'"
  shows "only_member t s d d' \<and> seat_of d' = seat_of d \<and> HasPendingRoleReconciliation t s d' \<and> role \<in> set Roles"
  using assms
proof (rule enqueue_cases)
  fix qs
  assume d': "d' = d\<lparr>td_intents := qs\<rparr>" and role: "role \<in> set Roles" and ex: "\<exists>i\<in>set qs. ri_tenant i = t \<and> ri_subject i = s"
  have "HasPendingRoleReconciliation t' s' d' = HasPendingRoleReconciliation t' s' d" if "(t', s') \<noteq> (t, s)" for t' s'
  proof -
    have a: "find (\<lambda>i. ri_tenant i = t' \<and> ri_subject i = s') (map (\<lambda>i. if ri_tenant i = t \<and> ri_subject i = s
             then i\<lparr>ri_role := role, ri_attempts := 0, ri_next := now, ri_error := None, ri_updated := now\<rparr> else i) is) =
          find (\<lambda>i. ri_tenant i = t' \<and> ri_subject i = s') is" for "is"
      using that by (induction "is") auto
    have b: "find (\<lambda>i. ri_tenant i = t' \<and> ri_subject i = s')
        (is @ [\<lparr>ri_tenant = t, ri_subject = s, ri_role = role, ri_attempts = 0, ri_next = now, ri_error = None, ri_updated = now\<rparr>]) =
          find (\<lambda>i. ri_tenant i = t' \<and> ri_subject i = s') is" for "is"
      using that by (induction "is") auto
    show ?thesis
      using assms a [of "td_intents d"] b [of "td_intents d"]
      by (auto simp: enqueueRoleReconciliation_def HasPendingRoleReconciliation_def pending_intent_def split: if_splits)
  qed
  with ex role show ?thesis
    by (auto simp: only_member_def d' pending_iff team_lookups fun_eq_iff)
qed

lemma update_role_member:
  assumes "UpdateMemberRole now t s role d = (e, d')"
  shows "e = None \<and> only_member t s d d' \<and> map_option mb_role (seat_of d' t s) = Some role \<and>
      HasPendingRoleReconciliation t s d' \<and> role \<in> set Roles \<or> e \<noteq> None \<and> d' = d"
proof (cases "e = None")
  case False
  with assms show ?thesis by (auto simp: UpdateMemberRole_def split: option.splits if_splits sum.splits)
next
  case True
  with assms obtain m where m: "seat_of d t s = Some m" and
    enq: "enqueueRoleReconciliation now t s role (set_role t s role d) = Inr d'"
    by (auto simp: UpdateMemberRole_def split: option.splits if_splits sum.splits)
  have "only_member t s d (set_role t s role d)"
    by (auto simp: only_member_def team_lookups pending_iff) (auto simp: set_role_def)
  with enqueue_member [OF enq] m True show ?thesis
    by (auto simp: team_lookups intro: only_member_trans)
qed

lemma complete_member:
  "only_member t s d (CompleteRoleReconciliation t s role d)"
  "seat_of (CompleteRoleReconciliation t s role d) = seat_of d"
  by (auto simp: only_member_def CompleteRoleReconciliation_def team_lookups pending_iff fun_eq_iff)

lemma complete_done:
  "intents_current d \<Longrightarrow> role_at d t s = Some role \<Longrightarrow> \<not> HasPendingRoleReconciliation t s (CompleteRoleReconciliation t s role d)"
  by (auto simp: pending_iff intents_current_def CompleteRoleReconciliation_def)

lemma fail_member [simp]:
  "seat_of (FailRoleReconciliation now t s role message d) = seat_of d"
  "HasPendingRoleReconciliation t' s' (FailRoleReconciliation now t s role message d) = HasPendingRoleReconciliation t' s' d"
proof -
  show "seat_of (FailRoleReconciliation now t s role message d) = seat_of d"
    by (simp add: FailRoleReconciliation_def team_lookups fun_eq_iff)
  show "HasPendingRoleReconciliation t' s' (FailRoleReconciliation now t s role message d) = HasPendingRoleReconciliation t' s' d"
    unfolding FailRoleReconciliation_def by (rule pending_map) simp
qed

lemma claim_member:
  assumes "ClaimRoleReconciliations now free limit d = (rows, d')"
  shows "seat_of d' = seat_of d" "HasPendingRoleReconciliation t s d' = HasPendingRoleReconciliation t s d"
    "i \<in> set rows \<Longrightarrow> \<exists>j\<in>set (td_intents d). ri_tenant j = ri_tenant i \<and> ri_subject j = ri_subject i \<and> ri_role j = ri_role i"
proof -
  show "seat_of d' = seat_of d"
    using assms by (auto simp: ClaimRoleReconciliations_def Let_def team_lookups fun_eq_iff)
  show "HasPendingRoleReconciliation t s d' = HasPendingRoleReconciliation t s d"
    using assms by (auto simp: ClaimRoleReconciliations_def Let_def intro!: pending_map)
  show "i \<in> set rows \<Longrightarrow> \<exists>j\<in>set (td_intents d). ri_tenant j = ri_tenant i \<and> ri_subject j = ri_subject i \<and> ri_role j = ri_role i"
  proof -
    assume "i \<in> set rows"
    with assms obtain n j where j: "i = j\<lparr>ri_next := now + 60, ri_updated := now\<rparr>"
      "j \<in> set (take n (sort_key ri_next (sort_key ri_updated (filter (\<lambda>i. ri_next i \<le> now \<and> free i) (td_intents d)))))"
      by (auto simp: ClaimRoleReconciliations_def Let_def)
    then have "j \<in> set (td_intents d)" by (auto dest!: in_set_takeD)
    with j(1) show ?thesis by (intro bexI [of _ j]) simp_all
  qed
qed

lemma drop_member:
  "only_member t s d (drop_seats (\<lambda>t' s'. t' = t \<and> s' = s) d)"
  "seat_of (drop_seats (\<lambda>t' s'. t' = t \<and> s' = s) d) t s = None"
  "\<not> HasPendingRoleReconciliation t s (drop_seats (\<lambda>t' s'. t' = t \<and> s' = s) d)"
  by (auto simp: only_member_def team_lookups pending_iff) (auto simp: drop_seats_def)

lemma remove_member:
  "RemoveMember t s d = (e, d') \<Longrightarrow>
     only_member t s d d' \<and> (e = None \<and> seat_of d' t s = None \<and> \<not> HasPendingRoleReconciliation t s d' \<or> e \<noteq> None \<and> d' = d)"
  by (auto simp: RemoveMember_def drop_member split: option.splits if_splits)

lemma only_member_tenants [simp]: "only_member t s d (d'\<lparr>td_tenants := x\<rparr>) = only_member t s d d'"
  by (simp add: only_member_def team_lookups)

lemma offboard_member:
  "RemoveAccountMember t s d = (e, d') \<Longrightarrow>
     only_member t s d d' \<and> (e = None \<and> seat_of d' t s = None \<and> \<not> HasPendingRoleReconciliation t s d' \<or> e \<noteq> None \<and> d' = d)"
  using drop_member [of t s d]
  by (auto simp: RemoveAccountMember_def Let_def team_lookups split: if_splits)

lemma add_pending: "HasPendingRoleReconciliation t' s' (add_seat t s role k d) = HasPendingRoleReconciliation t' s' d"
  by (simp add: add_seat_def)

lemma redeem_member:
  assumes "redeemInvite now iv s d = Inr (effective, d')"
  shows "only_member (iv_tenant iv) s d d' \<and> map_option mb_role (seat_of d' (iv_tenant iv) s) = Some effective \<and>
    HasPendingRoleReconciliation (iv_tenant iv) s d' \<and> effective \<in> set Roles \<and>
    (\<forall>r. map_option mb_role (seat_of d (iv_tenant iv) s) = Some r \<longrightarrow> effective = r)"
proof -
  let ?t = "iv_tenant iv"
  from assms obtain d1 d2 m where
    d1: "seat_unless_there ?t s (iv_role iv) d = Inr d1" "seat_of d1 ?t s = Some m" and eff: "effective = mb_role m" and
    d2: "enqueueRoleReconciliation now ?t s (mb_role m) d1 = Inr d2" and d': "d' = mark_accepted now (iv_id iv) d2"
    by (auto simp: redeemInvite_def Let_def dest: seated_after split: sum.splits)
  have "only_member ?t s d d1 \<and> (\<forall>m'. seat_of d ?t s = Some m' \<longrightarrow> m' = m)"
    using d1 by (auto simp: seat_unless_there_def only_member_def team_lookups add_pending split: if_splits option.splits)
  moreover have "seat_of d' = seat_of d2" "HasPendingRoleReconciliation t' s' d' = HasPendingRoleReconciliation t' s' d2" for t' s'
    by (simp_all add: d' mark_accepted_def team_lookups fun_eq_iff)
  ultimately show ?thesis
    using enqueue_member [OF d2] d1(2) eff by (auto simp: only_member_def)
qed

section \<open>Properties\<close>

text \<open>C4: whatever transactions of the membership tables are committed, in any order, a workspace that ever had a person
  as an admin has one from then on until it is deleted, its owner is seated as an admin while the binding stands, and each row of the
  outbox asks for exactly the role the membership holds; provided that a client of Hydra is bound as a key and never
  seated as a person (\<open>c\<close> tells the clients, and \<open>team_step\<close> leaves out the transactions that would).\<close>

theorem workspace_keeps_admin:
  assumes "d = team_run c sha ops as no_team" "d' = team_run c sha ops bs d"
  shows "(0 < CountTenantAdmins t d \<and> Deletes t \<notin> set bs \<longrightarrow> 0 < CountTenantAdmins t d') \<and>
    (tenantOwnerIs t s d' \<longrightarrow> map_option mb_role (seat_of d' t s) = Some ''admin'') \<and>
    (\<forall>i\<in>set (td_intents d'). map_option mb_role (seat_of d' (ri_tenant i) (ri_subject i)) = Some (ri_role i))"
proof (intro conjI impI)
  have ok: "team_ok c d" by (simp add: assms)
  then have ok': "team_ok c d'" unfolding assms(2) team_run_def by (rule team.run_ok)
  have edits: "fold (\<lambda>a t. t) bs t = t" by (induction bs) simp_all
  show "0 < CountTenantAdmins t d'" if "0 < CountTenantAdmins t d \<and> Deletes t \<notin> set bs"
  proof -
    have "list_all (\<lambda>a. a \<noteq> Deletes t) bs" using that by (auto simp: list_all_iff)
    with team.run_evolves [OF ok, of t bs sha ops] that show ?thesis by (simp add: assms(2) team_run_def edits)
  qed
  show "map_option mb_role (seat_of d' t s) = Some ''admin''" if "tenantOwnerIs t s d'"
    using owner_role [OF ok' that] by (simp add: role_at_def)
  show "\<forall>i\<in>set (td_intents d'). map_option mb_role (seat_of d' (ri_tenant i) (ri_subject i)) = Some (ri_role i)"
    using ok' by (simp add: team_ok_def intents_current_def role_at_def)
qed

lemmas team_eval = team_run_def no_team_def CreateWorkspace_def CreateTenantWithMember_def insert_tenant_def add_seat_def
  seat_unless_there_def seat_of_def tenant_of_def WorkspacePlans_def PlanHobby_def PlanPro_def PlanScale_def PlanEnterprise_def
  UpdateMemberRole_def tenantOwnerIs_def CountTenantAdmins_def enqueueRoleReconciliation_def set_role_def Roles_def
  pending_intent_def RemoveMember_def drop_seats_def AddMember_def Let_def

text \<open>Ann opens a workspace, Bob joins it as an admin, and each tries to end the other.\<close>

definition ann_and_bob :: "team_op list" where
  "ann_and_bob = [Opens ''w'' ''acme'' ''scale'' ''ann'', Adds ''bob'' ''w'' ''admin'']"

theorem workspace_keeps_admin_witness:
  "0 < CountTenantAdmins ''w''
     (team_run (\<lambda>_. False) id [] [Removes ''w'' ''ann'', ChangesRole 0 ''w'' ''bob'' ''viewer'', Deletes ''x'']
       (team_run (\<lambda>_. False) id [] ann_and_bob no_team))"
proof -
  have "0 < CountTenantAdmins ''w'' (team_run (\<lambda>_. False) id [] ann_and_bob no_team)"
    by (simp add: team_eval ann_and_bob_def)
  moreover have "Deletes ''w'' \<notin> set [Removes ''w'' ''ann'', ChangesRole 0 ''w'' ''bob'' ''viewer'', Deletes ''x'']" by simp
  ultimately show ?thesis
    using workspace_keeps_admin [OF refl refl, of "''w''" "\<lambda>_. False" id "[]" ann_and_bob] by blast
qed

section \<open>Where it does not hold\<close>

text \<open>An invite revoked between the read of the pending set and the transaction of a login still seats its recipient.\<close>

definition one_invite :: invite where
  "one_invite = \<lparr>iv_id = ''i'', iv_tenant = ''w'', iv_email = ''e'', iv_role = ''admin'', iv_hash = ''h'', iv_invitedBy = ''ann'',
     iv_expires = 100, iv_accepted = None\<rparr>"

definition invited_db :: team_db where
  "invited_db = (team_run (\<lambda>_. False) id [] ann_and_bob no_team)\<lparr>td_invites := [one_invite]\<rparr>"

lemma revoked_invite_seats:
  "let (e, d) = DeleteInvite ''w'' ''i'' invited_db; (r, d') = AcceptInvitesForEmail [] 5 ''e'' ''eve'' invited_db d in
     e = None \<and> td_invites d = [] \<and> map_option mb_role (seat_of d' ''w'' ''eve'') = Some ''admin''"
  by (simp add: invited_db_def one_invite_def ann_and_bob_def team_eval DeleteInvite_def AcceptInvitesForEmail_def pendingInvites_def
      outstanding_def redeemPending_def planAllowsJoin_def RoleAllowedOnPlan_def LimitsFor_def redeemInvite_def mark_accepted_def)

text \<open>
  A client of Hydra that redeems a link is seated as a person. It counts as the second admin of its workspace, so the
  first may leave; revoking the key leaves the workspace without any.
\<close>

lemma key_seated_as_person:
  "let (r, d1) = AcceptInviteByToken (\<lambda>_. ''h'') [] 5 5 ''token'' ''key'' (invited_db\<lparr>td_members := take 1 (td_members invited_db)\<rparr>);
       (e, d2) = RemoveMember ''w'' ''ann'' d1 in
     e = None \<and> CountTenantAdmins ''w'' d2 = 1 \<and> CountTenantAdmins ''w'' (UnbindClient ''key'' d2) = 0"
  by (simp add: invited_db_def one_invite_def ann_and_bob_def team_eval AcceptInviteByToken_def GetInviteByToken_def UnbindClient_def
      planAllowsJoin_def RoleAllowedOnPlan_def LimitsFor_def redeemInvite_def mark_accepted_def)

end
