(* ===== verification/Members.thy ===== *)
theory Members
  imports ApiKeys Team
begin

text \<open>
  The team of a workspace as its service changes it (\<open>backend/internal/members/service.go\<close>, and the redemption of invites
  at login in \<open>backend/internal/api/tenancy.go\<close>): a row of \<open>tenant_members\<close> is the truth, and a role tuple of OpenFGA has
  to follow it by calls that may fail. The model of OpenFGA grants what any tuple of a subject grants, so
  what matters is which tuples are left when a verb stops half way.

  The world is the membership tables of \<open>Team\<close>, the role tuples, and the registry of \<open>ApiKeys\<close> when there is one. A call
  has the outcomes of \<open>ApiKeys\<close>: done, not done, or done with its answer lost; revoking an absent tuple is no
  error, as the client of OpenFGA promises. Mail, audit rows and the cached resolution of a
  departed caller are left out.
\<close>

section \<open>The world\<close>

record member_world =
  mw_db :: team_db
  mw_tuples :: "string \<Rightarrow> string \<Rightarrow> string \<Rightarrow> bool"
  mw_keys :: "key_world option"
  mw_now :: int
  mw_wall :: int

record members_service =
  ms_store :: bool
  ms_granter :: bool
  ms_revoker :: bool

record role_calls =
  rl_check :: "string \<Rightarrow> bool"
  rl_revoke :: "string \<Rightarrow> outcome"
  rl_grant :: outcome
  rl_complete :: outcome
  rl_fail :: outcome
  rl_text :: string

record verb_calls =
  vc_pending :: bool
  vc_member :: bool
  vc_owner :: bool
  vc_tenant :: bool
  vc_count :: bool
  vc_write :: outcome
  vc_role :: role_calls
  vc_keyList :: bool
  vc_keys :: "string \<Rightarrow> revoke_calls"

datatype member_error =
    MemAuth core_error | MemUnavailable | MemBadRequest | MemNotFound | MemCoded string | MemPlanLimit | MemCall
  | MemDeleting | MemPending | MemKeys key_error

definition remote :: "outcome \<Rightarrow> (member_world \<Rightarrow> member_world) \<Rightarrow> member_world \<Rightarrow> bool \<times> member_world" where
  "remote out f w = (out = Done, if out = Down then w else f w)"

definition put_tuple :: "string \<Rightarrow> string \<Rightarrow> string \<Rightarrow> bool \<Rightarrow> member_world \<Rightarrow> member_world" where
  "put_tuple t s r held w =
     w\<lparr>mw_tuples := (\<lambda>s' t' r'. if s' = s \<and> t' = t \<and> r' = r then held else mw_tuples w s' t' r')\<rparr>"

definition on_db :: "(team_db \<Rightarrow> team_db) \<Rightarrow> member_world \<Rightarrow> member_world" where
  "on_db f w = w\<lparr>mw_db := f (mw_db w)\<rparr>"

fun mapStoreErr :: "team_error \<Rightarrow> member_error" where
  "mapStoreErr TeamNotFound = MemNotFound"
| "mapStoreErr OwnerMember = MemCoded ''OWNER_CANNOT_BE_REMOVED''"
| "mapStoreErr OwnerRole = MemCoded ''OWNER_ROLE_CANNOT_CHANGE''"
| "mapStoreErr LastAdmin = MemCoded ''LAST_ADMIN''"
| "mapStoreErr AccountDeletionPending = MemDeleting"
| "mapStoreErr _ = MemBadRequest"

fun mapAcceptInviteErr :: "team_error \<Rightarrow> member_error" where
  "mapAcceptInviteErr TeamNotFound = MemCoded ''INVITE_INVALID''"
| "mapAcceptInviteErr InviteAlreadyAccepted = MemCoded ''INVITE_ALREADY_ACCEPTED''"
| "mapAcceptInviteErr InviteExpired = MemCoded ''INVITE_EXPIRED''"
| "mapAcceptInviteErr InvitePlanLimit = MemCoded ''INVITE_PLAN_LIMIT''"
| "mapAcceptInviteErr e = mapStoreErr e"

fun leaveStoreErr :: "team_error \<Rightarrow> member_error" where
  "leaveStoreErr OwnerMember = MemCoded ''OWNER_CANNOT_LEAVE''"
| "leaveStoreErr e = mapStoreErr e"

definition read :: "bool \<Rightarrow> team_error + 'a \<Rightarrow> member_error + 'a" where
  "read up r = (if \<not> up then Inl MemCall else case r of Inl e \<Rightarrow> Inl (mapStoreErr e) | Inr x \<Rightarrow> Inr x)"

text \<open>A transaction of the store; \<open>Lost\<close> when it committed and the answer did not arrive.\<close>

definition store_commit ::
  "(team_error \<Rightarrow> member_error) \<Rightarrow> outcome \<Rightarrow> (team_db \<Rightarrow> team_error option \<times> team_db) \<Rightarrow> member_world \<Rightarrow>
     member_error option \<times> member_world" where
  "store_commit errOf out f w =
     (case f (mw_db w) of
        (e, d) \<Rightarrow>
          (if out = Done then map_option errOf e else Some MemCall,
           if out = Down then w else w\<lparr>mw_db := d\<rparr>))"

definition store_write ::
  "(team_error \<Rightarrow> member_error) \<Rightarrow> outcome \<Rightarrow> (team_db \<Rightarrow> (team_error + 'a) \<times> team_db) \<Rightarrow> member_world \<Rightarrow>
     (member_error + 'a) \<times> member_world" where
  "store_write errOf out f w =
     (case f (mw_db w) of
        (r, d) \<Rightarrow>
          (if out = Done then (case r of Inl e \<Rightarrow> Inl (errOf e) | Inr x \<Rightarrow> Inr x) else Inl MemCall,
           if out = Down then w else w\<lparr>mw_db := d\<rparr>))"

section \<open>Role tuples\<close>

definition revokeRoleErr :: "members_service \<Rightarrow> role_calls \<Rightarrow> string \<Rightarrow> string \<Rightarrow> string \<Rightarrow> member_world \<Rightarrow> bool \<times> member_world" where
  "revokeRoleErr sv rc t s r w = (if \<not> ms_revoker sv then (True, w) else remote (rl_revoke rc r) (put_tuple t s r False) w)"

definition grantRole ::
  "members_service \<Rightarrow> base \<Rightarrow> role_calls \<Rightarrow> string \<Rightarrow> string \<Rightarrow> string \<Rightarrow> member_world \<Rightarrow> bool \<times> member_world" where
  "grantRole sv b rc t s r w =
     (if \<not> ms_granter sv then (True, w)
      else if ba_authz b \<noteq> None \<and> rl_check rc r \<and> mw_tuples w s t r then (True, w)
      else remote (rl_grant rc) (put_tuple t s r True) w)"

fun revoke_others ::
  "members_service \<Rightarrow> role_calls \<Rightarrow> string \<Rightarrow> string \<Rightarrow> string \<Rightarrow> string list \<Rightarrow> member_world \<Rightarrow> bool \<times> member_world" where
  "revoke_others sv rc t s role [] w = (True, w)"
| "revoke_others sv rc t s role (r # rs) w =
     (if r = role \<or> rl_check rc r \<and> \<not> mw_tuples w s t r then revoke_others sv rc t s role rs w
      else (case revokeRoleErr sv rc t s r w of
              (ok, w1) \<Rightarrow> (case revoke_others sv rc t s role rs w1 of (ok', w2) \<Rightarrow> (ok \<and> ok', w2))))"

definition reconcileExactRole ::
  "members_service \<Rightarrow> base \<Rightarrow> role_calls \<Rightarrow> string \<Rightarrow> string \<Rightarrow> string \<Rightarrow> member_world \<Rightarrow> bool \<times> member_world" where
  "reconcileExactRole sv b rc t s role w =
     (case (if ba_authz b \<noteq> None then revoke_others sv rc t s role Roles w else (True, w)) of
        (ok, w1) \<Rightarrow> (case grantRole sv b rc t s role w1 of (ok', w2) \<Rightarrow> (ok \<and> ok', w2)))"

definition completeQueuedRole :: "role_calls \<Rightarrow> string \<Rightarrow> string \<Rightarrow> string \<Rightarrow> member_world \<Rightarrow> bool \<times> member_world" where
  "completeQueuedRole rc t s role w = remote (rl_complete rc) (on_db (CompleteRoleReconciliation t s role)) w"

definition failQueuedRole :: "role_calls \<Rightarrow> string \<Rightarrow> string \<Rightarrow> string \<Rightarrow> member_world \<Rightarrow> member_world" where
  "failQueuedRole rc t s role w = snd (remote (rl_fail rc) (on_db (FailRoleReconciliation (mw_now w) t s role (rl_text rc))) w)"

text \<open>The answer is whether the change is still pending, which is also when there is an error.\<close>

definition reconcileQueuedRole ::
  "members_service \<Rightarrow> base \<Rightarrow> role_calls \<Rightarrow> string \<Rightarrow> string \<Rightarrow> string \<Rightarrow> member_world \<Rightarrow> bool \<times> member_world" where
  "reconcileQueuedRole sv b rc t s role w =
     (case reconcileExactRole sv b rc t s role w of
        (False, w1) \<Rightarrow> (True, failQueuedRole rc t s role w1)
      | (True, w1) \<Rightarrow> (case completeQueuedRole rc t s role w1 of (ok, w2) \<Rightarrow> (\<not> ok, w2)))"

text \<open>\<open>cancel\<close>: the failures that are the cancellation of the sweep itself.\<close>

fun reconcile_rows ::
  "members_service \<Rightarrow> base \<Rightarrow> (intent \<Rightarrow> role_calls) \<Rightarrow> (intent \<Rightarrow> bool) \<Rightarrow> intent list \<Rightarrow> member_world \<Rightarrow> bool \<times> member_world" where
  "reconcile_rows sv b rc cancel [] w = (True, w)"
| "reconcile_rows sv b rc cancel (i # is) w =
     (case reconcileQueuedRole sv b (rc i) (ri_tenant i) (ri_subject i) (ri_role i) w of
        (pending, w1) \<Rightarrow> if pending \<and> cancel i then (False, w1) else reconcile_rows sv b rc cancel is w1)"

definition reconcilePendingRoles ::
  "members_service \<Rightarrow> base \<Rightarrow> outcome \<Rightarrow> (intent \<Rightarrow> bool) \<Rightarrow> (intent \<Rightarrow> role_calls) \<Rightarrow> (intent \<Rightarrow> bool) \<Rightarrow> int \<Rightarrow> member_world \<Rightarrow>
     bool \<times> member_world" where
  "reconcilePendingRoles sv b out free rc cancel limit w =
     (if \<not> ms_store sv then (True, w)
      else (case ClaimRoleReconciliations (mw_now w) free limit (mw_db w) of
              (rows, d) \<Rightarrow>
                let w1 = (if out = Down then w else w\<lparr>mw_db := d\<rparr>) in
                if out \<noteq> Done then (False, w1) else reconcile_rows sv b rc cancel rows w1))"

section \<open>Guards\<close>

definition canonicalRole :: "(string \<Rightarrow> string) \<Rightarrow> string \<Rightarrow> string option" where
  "canonicalRole uni s = (let r = to_lower uni (trim_space s) in if r \<in> set Roles then Some r else None)"

definition guardPlanRole :: "string \<Rightarrow> string \<Rightarrow> member_error option" where
  "guardPlanRole plan role = (if RoleAllowedOnPlan plan role then None else Some MemPlanLimit)"

definition guardMachine :: "member \<Rightarrow> member_error option" where
  "guardMachine m = (if mb_machine m then Some (MemCoded ''MEMBER_IS_MACHINE'') else None)"

definition guardSelf :: "request \<Rightarrow> string \<Rightarrow> string \<Rightarrow> member_error option" where
  "guardSelf q subject code =
     (case rq_identity q of
        None \<Rightarrow> None
      | Some i \<Rightarrow> if id_subject i \<noteq> subject then None else Some (MemCoded code))"

definition guardOwner :: "bool \<Rightarrow> string \<Rightarrow> string \<Rightarrow> string \<Rightarrow> member_world \<Rightarrow> member_error option" where
  "guardOwner up t s newRole w =
     (if newRole = ''admin'' then None
      else (case read up (TenantOwnerSubject t (mw_db w)) of
              Inl e \<Rightarrow> Some e
            | Inr owner \<Rightarrow>
                if owner = [] \<or> owner \<noteq> s then None
                else if newRole = [] then Some (MemCoded ''OWNER_CANNOT_BE_REMOVED'')
                else Some (MemCoded ''OWNER_ROLE_CANNOT_CHANGE'')))"

definition guardOwnerLeaving :: "bool \<Rightarrow> string \<Rightarrow> string \<Rightarrow> member_world \<Rightarrow> member_error option" where
  "guardOwnerLeaving up t s w =
     (case read up (TenantOwnerSubject t (mw_db w)) of
        Inl e \<Rightarrow> Some e
      | Inr owner \<Rightarrow> if owner = [] \<or> owner \<noteq> s then None else Some (MemCoded ''OWNER_CANNOT_LEAVE''))"

definition guardLastAdmin :: "bool \<Rightarrow> string \<Rightarrow> string \<Rightarrow> string \<Rightarrow> member_world \<Rightarrow> member_error option" where
  "guardLastAdmin up t currentRole newRole w =
     (if currentRole \<noteq> ''admin'' \<or> newRole = ''admin'' then None
      else if \<not> up then Some MemCall
      else if CountTenantAdmins t (mw_db w) \<le> 1 then Some (MemCoded ''LAST_ADMIN'') else None)"

definition guardCallerRoleSettled :: "members_service \<Rightarrow> request \<Rightarrow> bool \<Rightarrow> string \<Rightarrow> member_world \<Rightarrow> member_error option" where
  "guardCallerRoleSettled sv q up t w =
     (if \<not> ms_store sv then None
      else (case rq_identity q of
              None \<Rightarrow> None
            | Some i \<Rightarrow>
                if id_subject i = [] then None
                else if \<not> up then Some MemCall
                else if HasPendingRoleReconciliation t (id_subject i) (mw_db w) then Some MemPending else None))"

text \<open>The refusal of the first guard that has one.\<close>

fun first_refusal :: "'e option list \<Rightarrow> 'e option" where
  "first_refusal [] = None"
| "first_refusal (None # gs) = first_refusal gs"
| "first_refusal (Some e # gs) = Some e"

definition wired :: "members_service \<Rightarrow> member_error option" where
  "wired sv = (if ms_store sv then None else Some MemUnavailable)"

definition MemberTarget :: "string \<Rightarrow> string" where "MemberTarget subject = ''member:'' @ subject"
definition InviteTarget :: "string \<Rightarrow> string" where "InviteTarget i = ''invite:'' @ i"

section \<open>Verbs\<close>

definition shift_role ::
  "members_service \<Rightarrow> base \<Rightarrow> verb_calls \<Rightarrow> string \<Rightarrow> string \<Rightarrow> string \<Rightarrow> string \<Rightarrow> member_world \<Rightarrow> member_error option \<times> member_world" where
  "shift_role sv b o' t s old new w =
     (case store_commit mapStoreErr (vc_write o') (UpdateMemberRole (mw_now w) t s new) w of
        (Some e, w1) \<Rightarrow> (Some e, w1)
      | (None, w1) \<Rightarrow>
          (case revokeRoleErr sv (vc_role o') t s old w1 of
             (False, w2) \<Rightarrow> (Some MemCall, failQueuedRole (vc_role o') t s new w2)
           | (True, w2) \<Rightarrow>
               (case grantRole sv b (vc_role o') t s new w2 of
                  (False, w3) \<Rightarrow> (Some MemCall, failQueuedRole (vc_role o') t s new w3)
                | (True, w3) \<Rightarrow>
                    (case completeQueuedRole (vc_role o') t s new w3 of
                       (ok, w4) \<Rightarrow> (if ok then None else Some MemCall, w4)))))"

definition change_guards ::
  "members_service \<Rightarrow> base \<Rightarrow> request \<Rightarrow> verb_calls \<Rightarrow> string \<Rightarrow> string \<Rightarrow> string \<Rightarrow> member_world \<Rightarrow> member_error option" where
  "change_guards sv b q o' t subject selfCode w =
     first_refusal
       [map_option MemAuth (AuthorizeFreshOn b q RelCanManage (WorkspaceObject t)),
        guardCallerRoleSettled sv q (vc_pending o') t w,
        guardSelf q subject selfCode,
        wired sv]"

definition ChangeRole ::
  "members_service \<Rightarrow> base \<Rightarrow> (string \<Rightarrow> string) \<Rightarrow> request \<Rightarrow> verb_calls \<Rightarrow> string \<Rightarrow> string \<Rightarrow> string \<Rightarrow> member_world \<Rightarrow>
     (member_error + member) \<times> member_world" where
  "ChangeRole sv b uni q o' workspaceID subject role w =
     (case AuthorizeWorkspaceTarget b (q\<lparr>rq_deferred := True\<rparr>) RelCanManage workspaceID (MemberTarget subject) of
        (t, Some e, rows) \<Rightarrow> (Inl (MemAuth e), w)
      | (t, None, rows) \<Rightarrow>
          (case change_guards sv b q o' t subject ''CANNOT_CHANGE_OWN_ROLE'' w of
             Some e \<Rightarrow> (Inl e, w)
           | None \<Rightarrow>
               (case canonicalRole uni role of
                  None \<Rightarrow> (Inl MemBadRequest, w)
                | Some new \<Rightarrow>
                    (case read (vc_member o') (GetTenantMember t subject (mw_db w)) of
                       Inl e \<Rightarrow> (Inl e, w)
                     | Inr m \<Rightarrow>
                         (case first_refusal [guardMachine m, guardOwner (vc_owner o') t subject new w] of
                            Some e \<Rightarrow> (Inl e, w)
                          | None \<Rightarrow>
                              if mb_role m = new
                              then (case reconcileQueuedRole sv b (vc_role o') t subject new w of
                                      (pending, w1) \<Rightarrow> (if pending then Inl MemCall else Inr m, w1))
                              else (case read (vc_tenant o') (GetTenant t (mw_db w)) of
                                      Inl e \<Rightarrow> (Inl e, w)
                                    | Inr tn \<Rightarrow>
                                        (case first_refusal [guardPlanRole (tn_plan tn) new,
                                                guardLastAdmin (vc_count o') t (mb_role m) new w] of
                                           Some e \<Rightarrow> (Inl e, w)
                                         | None \<Rightarrow>
                                             (case shift_role sv b o' t subject (mb_role m) new w of
                                                (Some e, w1) \<Rightarrow> (Inl e, w1)
                                              | (None, w1) \<Rightarrow> (Inr (m\<lparr>mb_role := new\<rparr>), w1)))))))))"

definition disposeMemberKeys :: "verb_calls \<Rightarrow> string \<Rightarrow> string \<Rightarrow> member_world \<Rightarrow> (member_error + string list) \<times> member_world" where
  "disposeMemberKeys o' t s w =
     (case mw_keys w of
        None \<Rightarrow> (Inr [], w)
      | Some k \<Rightarrow>
          (case CleanupSubjectInWorkspace (vc_keyList o') (vc_keys o') s t k of
             ((ids, e), k') \<Rightarrow> (case e of None \<Rightarrow> Inr ids | Some e \<Rightarrow> Inl (MemKeys e), w\<lparr>mw_keys := Some k'\<rparr>)))"

definition endMembership ::
  "members_service \<Rightarrow> (team_error \<Rightarrow> member_error) \<Rightarrow> verb_calls \<Rightarrow> string \<Rightarrow> string \<Rightarrow> string \<Rightarrow> member_world \<Rightarrow>
     member_error option \<times> member_world" where
  "endMembership sv errOf o' t s role w =
     (case disposeMemberKeys o' t s w of
        (Inl e, w1) \<Rightarrow> (Some e, w1)
      | (Inr ids, w1) \<Rightarrow>
          (case revokeRoleErr sv (vc_role o') t s role w1 of
             (False, w2) \<Rightarrow> (Some MemCall, w2)
           | (True, w2) \<Rightarrow> store_commit errOf (vc_write o') (RemoveMember t s) w2))"

definition Remove ::
  "members_service \<Rightarrow> base \<Rightarrow> request \<Rightarrow> verb_calls \<Rightarrow> string \<Rightarrow> string \<Rightarrow> member_world \<Rightarrow> member_error option \<times> member_world" where
  "Remove sv b q o' workspaceID subject w =
     (case AuthorizeWorkspaceTarget b (q\<lparr>rq_deferred := True\<rparr>) RelCanManage workspaceID (MemberTarget subject) of
        (t, Some e, rows) \<Rightarrow> (Some (MemAuth e), w)
      | (t, None, rows) \<Rightarrow>
          (case change_guards sv b q o' t subject ''CANNOT_REMOVE_SELF'' w of
             Some e \<Rightarrow> (Some e, w)
           | None \<Rightarrow>
               (case read (vc_member o') (GetTenantMember t subject (mw_db w)) of
                  Inl e \<Rightarrow> (Some e, w)
                | Inr m \<Rightarrow>
                    (case first_refusal [guardMachine m, guardOwner (vc_owner o') t subject [] w,
                            guardLastAdmin (vc_count o') t (mb_role m) [] w] of
                       Some e \<Rightarrow> (Some e, w)
                     | None \<Rightarrow> endMembership sv mapStoreErr o' t subject (mb_role m) w))))"

definition LeaveWorkspace ::
  "members_service \<Rightarrow> base \<Rightarrow> request \<Rightarrow> verb_calls \<Rightarrow> string \<Rightarrow> member_world \<Rightarrow> member_error option \<times> member_world" where
  "LeaveWorkspace sv b q o' workspaceID w =
     (let s = id_subject (caller q) in
      if s = [] then (Some (MemAuth Forbidden), w)
      else
        (case AuthorizeWorkspaceTarget b (q\<lparr>rq_deferred := True\<rparr>) RelCanView workspaceID (MemberTarget s) of
           (t, Some e, rows) \<Rightarrow> (Some (MemAuth e), w)
         | (t, None, rows) \<Rightarrow>
             if \<not> ms_store sv then (Some MemUnavailable, w)
             else (case read (vc_member o') (GetTenantMember t s (mw_db w)) of
                     Inl e \<Rightarrow> (Some e, w)
                   | Inr m \<Rightarrow>
                       (case first_refusal [guardMachine m, guardOwnerLeaving (vc_owner o') t s w,
                               guardLastAdmin (vc_count o') t (mb_role m) [] w] of
                          Some e \<Rightarrow> (Some e, w)
                        | None \<Rightarrow> endMembership sv leaveStoreErr o' t s (mb_role m) w))))"

text \<open>The worker that deletes an account removes its memberships without being an admin of them.\<close>

definition offboard ::
  "members_service \<Rightarrow> verb_calls \<Rightarrow> string \<Rightarrow> string \<Rightarrow> member_world \<Rightarrow> member_error option \<times> member_world" where
  "offboard sv o' t s w =
     (if \<not> ms_store sv then (Some MemUnavailable, w)
      else if \<not> vc_member o' then (Some MemCall, w)
      else (case seat_of (mw_db w) t s of
              None \<Rightarrow> (None, w)
            | Some m \<Rightarrow>
                (case revokeRoleErr sv (vc_role o') t s (mb_role m) w of
                   (False, w1) \<Rightarrow> (Some MemCall, w1)
                 | (True, w1) \<Rightarrow> store_commit mapStoreErr (vc_write o') (RemoveAccountMember t s) w1)))"

section \<open>Invites\<close>

definition DefaultInviteTTL :: int where "DefaultInviteTTL = 7 * 24 * 3600"

definition inviteTTL :: "int \<Rightarrow> int" where
  "inviteTTL ttl = (if 0 < ttl then ttl else DefaultInviteTTL)"

definition seatsUsed :: "bool \<Rightarrow> bool \<Rightarrow> string \<Rightarrow> member_world \<Rightarrow> int option" where
  "seatsUsed upM upI t w =
     (if upM \<and> upI then Some (int (countTenantMembers t (mw_db w)) + int (CountInvites (mw_now w) t (mw_db w))) else None)"

text \<open>\<open>emails\<close>: what the identity provider answers, when there is one. A subject it misses does not match.\<close>

definition memberWithEmail ::
  "(string \<Rightarrow> string \<Rightarrow> bool) \<Rightarrow> (string \<Rightarrow> string option) option \<Rightarrow> bool \<Rightarrow> string \<Rightarrow> string \<Rightarrow> member_world \<Rightarrow> bool option" where
  "memberWithEmail fold_eq emails up t email w =
     (case emails of
        None \<Rightarrow> Some False
      | Some look \<Rightarrow>
          if \<not> up then None
          else Some (list_ex (\<lambda>m. case look (mb_subject m) of None \<Rightarrow> False | Some e \<Rightarrow> equal_fold fold_eq (trim_space e) email)
                       (ListTenantMembers t (mw_db w))))"

record invite_calls =
  ic_pending :: bool
  ic_members :: bool
  ic_tenant :: bool
  ic_countMembers :: bool
  ic_countInvites :: bool
  ic_token :: "string option"
  ic_write :: outcome

definition Invite ::
  "members_service \<Rightarrow> base \<Rightarrow> (string \<Rightarrow> string) \<Rightarrow> (string \<Rightarrow> string \<Rightarrow> bool) \<Rightarrow> (string \<Rightarrow> string option) \<Rightarrow>
     (string \<Rightarrow> string option) option \<Rightarrow> (string \<Rightarrow> string) \<Rightarrow> int \<Rightarrow> request \<Rightarrow> invite_calls \<Rightarrow> string \<Rightarrow> string \<Rightarrow> string \<Rightarrow> string \<Rightarrow>
     member_world \<Rightarrow> (member_error + invite) \<times> member_world" where
  "Invite sv b uni fold_eq parseAddress emails sha ttl q o' i workspaceID email0 role0 w =
     (case AuthorizeWorkspace b (q\<lparr>rq_deferred := True\<rparr>) RelCanManage workspaceID of
        (t, Some e, rows) \<Rightarrow> (Inl (MemAuth e), w)
      | (t, None, rows) \<Rightarrow>
          (case first_refusal [map_option MemAuth (AuthorizeFreshOn b q RelCanManage (WorkspaceObject t)),
                  guardCallerRoleSettled sv q (ic_pending o') t w, wired sv] of
             Some e \<Rightarrow> (Inl e, w)
           | None \<Rightarrow>
               (case canonicalRole uni role0 of
                  None \<Rightarrow> (Inl MemBadRequest, w)
                | Some role \<Rightarrow>
                    (case map_option (to_lower uni) (parseAddress email0) of
                       None \<Rightarrow> (Inl MemBadRequest, w)
                     | Some email \<Rightarrow>
                         (case memberWithEmail fold_eq emails (ic_members o') t email w of
                            None \<Rightarrow> (Inl MemCall, w)
                          | Some True \<Rightarrow> (Inl (MemCoded ''MEMBER_ALREADY_EXISTS''), w)
                          | Some False \<Rightarrow>
                              (case read (ic_tenant o') (GetTenant t (mw_db w)) of
                                 Inl e \<Rightarrow> (Inl e, w)
                               | Inr tn \<Rightarrow>
                                   if \<not> RoleAllowedOnPlan (tn_plan tn) role then (Inl MemPlanLimit, w)
                                   else (case seatsUsed (ic_countMembers o') (ic_countInvites o') t w of
                                           None \<Rightarrow> (Inl MemCall, w)
                                         | Some used \<Rightarrow>
                                             if \<not> CanAddMember (tn_plan tn) used then (Inl MemPlanLimit, w)
                                             else (case ic_token o' of
                                                     None \<Rightarrow> (Inl MemCall, w)
                                                   | Some token \<Rightarrow>
                                                       store_write mapStoreErr (ic_write o')
                                                         (CreateInvite sha i t email role token (id_subject (caller q))
                                                            (mw_wall w + inviteTTL ttl)) w)))))))) "

definition ResendInvite ::
  "members_service \<Rightarrow> base \<Rightarrow> (string \<Rightarrow> string) \<Rightarrow> int \<Rightarrow> request \<Rightarrow> invite_calls \<Rightarrow> string \<Rightarrow> string \<Rightarrow> member_world \<Rightarrow>
     (member_error + invite) \<times> member_world" where
  "ResendInvite sv b sha ttl q o' workspaceID i w =
     (case AuthorizeWorkspaceTarget b q RelCanManage workspaceID (InviteTarget i) of
        (t, Some e, rows) \<Rightarrow> (Inl (MemAuth e), w)
      | (t, None, rows) \<Rightarrow>
          (case first_refusal [guardCallerRoleSettled sv q (ic_pending o') t w, wired sv] of
             Some e \<Rightarrow> (Inl e, w)
           | None \<Rightarrow>
               (case ic_token o' of
                  None \<Rightarrow> (Inl MemCall, w)
                | Some token \<Rightarrow>
                    (case store_write mapStoreErr (ic_write o') (RefreshInvite sha t i token (mw_wall w + inviteTTL ttl)) w of
                       (Inl e, w1) \<Rightarrow> (Inl e, w1)
                     | (Inr v, w1) \<Rightarrow>
                         (case read (ic_tenant o') (GetTenant t (mw_db w1)) of Inl e \<Rightarrow> (Inl e, w1) | Inr _ \<Rightarrow> (Inr v, w1))))))"

definition RevokeInvite ::
  "members_service \<Rightarrow> base \<Rightarrow> request \<Rightarrow> invite_calls \<Rightarrow> string \<Rightarrow> string \<Rightarrow> member_world \<Rightarrow> member_error option \<times> member_world" where
  "RevokeInvite sv b q o' workspaceID i w =
     (case AuthorizeWorkspaceTarget b q RelCanManage workspaceID (InviteTarget i) of
        (t, Some e, rows) \<Rightarrow> (Some (MemAuth e), w)
      | (t, None, rows) \<Rightarrow>
          (case first_refusal [guardCallerRoleSettled sv q (ic_pending o') t w, wired sv] of
             Some e \<Rightarrow> (Some e, w)
           | None \<Rightarrow> store_commit mapStoreErr (ic_write o') (DeleteInvite t i) w))"

record accept_calls =
  ac_write :: outcome
  ac_role :: role_calls

definition AcceptInvite ::
  "members_service \<Rightarrow> base \<Rightarrow> (string \<Rightarrow> string) \<Rightarrow> string \<Rightarrow> request \<Rightarrow> accept_calls \<Rightarrow> string \<Rightarrow> member_world \<Rightarrow>
     (member_error + invite \<times> bool) \<times> member_world" where
  "AcceptInvite sv b sha ops q o' token w =
     (case first_refusal [map_option MemAuth (fst (Authorize b q RelCanView)), wired sv,
             if trim_space token = [] then Some (MemCoded ''INVITE_INVALID'') else None,
             if rq_identity q = None then Some (MemAuth Forbidden) else None] of
        Some e \<Rightarrow> (Inl e, w)
      | None \<Rightarrow>
          (let s = id_subject (caller q) in
           (case store_write mapAcceptInviteErr (ac_write o') (AcceptInviteByToken sha ops (mw_now w) (mw_wall w) token s) w of
              (Inl e, w1) \<Rightarrow> (Inl e, w1)
            | (Inr v, w1) \<Rightarrow>
                (case reconcileQueuedRole sv b (ac_role o') (iv_tenant v) s (iv_role v) w1 of
                   (pending, w2) \<Rightarrow> (Inr (v, pending), w2)))))"

text \<open>The redemption at login. Its reconciliation stops at the first tuple it cannot revoke.\<close>

fun revokeOtherRoles :: "role_calls \<Rightarrow> string \<Rightarrow> string \<Rightarrow> string \<Rightarrow> string list \<Rightarrow> member_world \<Rightarrow> bool \<times> member_world" where
  "revokeOtherRoles rc t s role [] w = (True, w)"
| "revokeOtherRoles rc t s role (r # rs) w =
     (if r = role \<or> rl_check rc r \<and> \<not> mw_tuples w s t r then revokeOtherRoles rc t s role rs w
      else (case remote (rl_revoke rc r) (put_tuple t s r False) w of
              (False, w1) \<Rightarrow> (False, w1)
            | (True, w1) \<Rightarrow> revokeOtherRoles rc t s role rs w1))"

text \<open>\<open>checks\<close>: the granter can check as well, as the one of the composition root does.\<close>

definition reconcileInviteRole ::
  "members_service \<Rightarrow> bool \<Rightarrow> role_calls \<Rightarrow> string \<Rightarrow> string \<Rightarrow> string \<Rightarrow> member_world \<Rightarrow> bool \<times> member_world" where
  "reconcileInviteRole sv checks rc t s role w =
     (if \<not> ms_granter sv then (True, w)
      else (case (if checks then revokeOtherRoles rc t s role Roles w else (True, w)) of
              (False, w1) \<Rightarrow> (False, w1)
            | (True, w1) \<Rightarrow> remote (rl_grant rc) (put_tuple t s role True) w1))"

fun settle_invites ::
  "members_service \<Rightarrow> bool \<Rightarrow> (invite \<Rightarrow> role_calls) \<Rightarrow> string \<Rightarrow> invite list \<Rightarrow> member_world \<Rightarrow> member_world" where
  "settle_invites sv checks rc s [] w = w"
| "settle_invites sv checks rc s (v # vs) w =
     (case reconcileInviteRole sv checks (rc v) (iv_tenant v) s (iv_role v) w of
        (ok, w1) \<Rightarrow>
          settle_invites sv checks rc s vs
            (if ok then snd (completeQueuedRole (rc v) (iv_tenant v) s (iv_role v) w1)
             else failQueuedRole (rc v) (iv_tenant v) s (iv_role v) w1))"

definition acceptInvites ::
  "members_service \<Rightarrow> bool \<Rightarrow> bool \<Rightarrow> string \<Rightarrow> outcome \<Rightarrow> (invite \<Rightarrow> role_calls) \<Rightarrow> string \<Rightarrow> string \<Rightarrow> bool \<Rightarrow> team_db \<Rightarrow> member_world \<Rightarrow> member_world" where
  "acceptInvites sv checks requireVerified ops out rc s email emailVerified seen w =
     (if email = [] \<or> requireVerified \<and> \<not> emailVerified then w
      else (case store_write mapStoreErr out (AcceptInvitesForEmail ops (mw_now w) email s seen) w of
              (Inl e, w1) \<Rightarrow> w1
            | (Inr got, w1) \<Rightarrow> settle_invites sv checks rc s got w1))"

section \<open>Reads\<close>

definition is_hex :: "char \<Rightarrow> bool" where
  "is_hex c \<longleftrightarrow> CHR ''0'' \<le> c \<and> c \<le> CHR ''9'' \<or> CHR ''a'' \<le> c \<and> c \<le> CHR ''f''"

text \<open>The token decodes to sixteen bytes and is written in lower case.\<close>

definition token_shaped :: "string \<Rightarrow> bool" where
  "token_shaped token \<longleftrightarrow> length token = 32 \<and> list_all is_hex token"

definition PreviewInvite ::
  "members_service \<Rightarrow> base \<Rightarrow> (string \<Rightarrow> string) \<Rightarrow> request \<Rightarrow> bool \<Rightarrow> bool \<Rightarrow> bool \<Rightarrow> string \<Rightarrow> member_world \<Rightarrow>
     member_error + string \<times> string \<times> bool" where
  "PreviewInvite sv b sha q upInvite upMember upTenant token w =
     (case first_refusal [map_option MemAuth (fst (Authorize b q RelCanView)), wired sv,
             if token_shaped token then None else Some (MemCoded ''INVITE_INVALID''),
             if rq_identity q = None then Some (MemAuth Forbidden) else None] of
        Some e \<Rightarrow> Inl e
      | None \<Rightarrow>
          (case (if upInvite then GetInviteByToken sha token (mw_db w) else Inl TeamNotFound) of
             Inl e \<Rightarrow> Inl (if upInvite then mapAcceptInviteErr e else MemCall)
           | Inr v \<Rightarrow>
               if \<not> upMember then Inl MemCall
               else (case seat_of (mw_db w) (iv_tenant v) (id_subject (caller q)) of
                       None \<Rightarrow>
                         if iv_accepted v \<noteq> None then Inl (MemCoded ''INVITE_ALREADY_ACCEPTED'')
                         else if \<not> mw_wall w < iv_expires v then Inl (MemCoded ''INVITE_EXPIRED'')
                         else if \<not> upTenant then Inl MemCall
                         else (case tenant_of (mw_db w) (iv_tenant v) of
                                 None \<Rightarrow> Inl (MemCoded ''INVITE_INVALID'')
                               | Some tn \<Rightarrow> Inr (iv_tenant v, iv_role v, False))
                     | Some m \<Rightarrow>
                         if \<not> upTenant then Inl MemCall
                         else (case tenant_of (mw_db w) (iv_tenant v) of
                                 None \<Rightarrow> Inl (MemCoded ''INVITE_INVALID'')
                               | Some tn \<Rightarrow> Inr (iv_tenant v, mb_role m, True)))))"

definition SeatUsage ::
  "members_service \<Rightarrow> base \<Rightarrow> request \<Rightarrow> bool \<Rightarrow> bool \<Rightarrow> bool \<Rightarrow> string \<Rightarrow> member_world \<Rightarrow> member_error + int \<times> int" where
  "SeatUsage sv b q upT upM upI workspaceID w =
     (case AuthorizeWorkspace b q RelCanView workspaceID of
        (t, Some e, rows) \<Rightarrow> Inl (MemAuth e)
      | (t, None, rows) \<Rightarrow>
          (case wired sv of
             Some e \<Rightarrow> Inl e
           | None \<Rightarrow>
               (case read upT (GetTenant t (mw_db w)) of
                  Inl e \<Rightarrow> Inl e
                | Inr tn \<Rightarrow>
                    (case seatsUsed upM upI t w of
                       None \<Rightarrow> Inl MemCall
                     | Some used \<Rightarrow> Inr (used, pl_members (LimitsFor (tn_plan tn)))))))"

record member_view =
  mv_subject :: string
  mv_role :: string
  mv_isOwner :: bool
  mv_isSelf :: bool

text \<open>The enrichment of the list by the identity provider is left out.\<close>

definition ListMembers ::
  "members_service \<Rightarrow> base \<Rightarrow> request \<Rightarrow> bool \<Rightarrow> bool \<Rightarrow> string \<Rightarrow> member_world \<Rightarrow> member_error + member_view list" where
  "ListMembers sv b q upMembers upOwner workspaceID w =
     (case AuthorizeWorkspace b q RelCanView workspaceID of
        (t, Some e, rows) \<Rightarrow> Inl (MemAuth e)
      | (t, None, rows) \<Rightarrow>
          (case wired sv of
             Some e \<Rightarrow> Inl e
           | None \<Rightarrow>
               if \<not> upMembers then Inl MemCall
               else (case read upOwner (TenantOwnerSubject t (mw_db w)) of
                       Inl e \<Rightarrow> Inl e
                     | Inr owner \<Rightarrow>
                         let me = id_subject (caller q) in
                         Inr (map (\<lambda>m. \<lparr>mv_subject = mb_subject m, mv_role = mb_role m,
                                        mv_isOwner = (owner \<noteq> [] \<and> mb_subject m = owner),
                                        mv_isSelf = (me \<noteq> [] \<and> mb_subject m = me)\<rparr>)
                                (ListTenantMembers t (mw_db w))))))"

section \<open>What a call may change\<close>

text \<open>Nothing but the tuples of one subject in one workspace.\<close>

definition only_tuples :: "string \<Rightarrow> string \<Rightarrow> member_world \<Rightarrow> member_world \<Rightarrow> bool" where
  "only_tuples t s w w' \<longleftrightarrow>
     mw_db w' = mw_db w \<and> mw_now w' = mw_now w \<and> mw_keys w' = mw_keys w \<and>
     (\<forall>s' t' r. (t', s') \<noteq> (t, s) \<longrightarrow> mw_tuples w' s' t' r = mw_tuples w s' t' r)"

lemma only_tuples_refl [simp]: "only_tuples t s w w"
  by (simp add: only_tuples_def)

lemma only_tuples_trans: "only_tuples t s w w1 \<Longrightarrow> only_tuples t s w1 w2 \<Longrightarrow> only_tuples t s w w2"
  by (simp add: only_tuples_def)

lemma only_put [simp]: "only_tuples t s w (put_tuple t s r held w)"
  by (auto simp: only_tuples_def put_tuple_def)

lemma put_holds [simp]: "mw_tuples (put_tuple t s r held w) s t r' = (if r' = r then held else mw_tuples w s t r')"
  by (simp add: put_tuple_def)

lemma remote_effect: "remote out f w = (ok, w') \<Longrightarrow> ok \<and> w' = f w \<or> \<not> ok \<and> (w' = w \<or> w' = f w)"
  by (auto simp: remote_def split: if_splits)

lemma revoke_effect:
  "revokeRoleErr sv rc t s r w = (ok, w') \<Longrightarrow>
     only_tuples t s w w' \<and> (\<forall>r'. mw_tuples w' s t r' \<longrightarrow> mw_tuples w s t r') \<and>
     (\<forall>r'. r' \<noteq> r \<longrightarrow> mw_tuples w' s t r' = mw_tuples w s t r') \<and> (ok \<and> ms_revoker sv \<longrightarrow> \<not> mw_tuples w' s t r)"
  by (auto simp: revokeRoleErr_def dest!: remote_effect split: if_splits)

lemma grant_effect:
  "grantRole sv b rc t s r w = (ok, w') \<Longrightarrow>
     only_tuples t s w w' \<and> (\<forall>r'. r' \<noteq> r \<longrightarrow> mw_tuples w' s t r' = mw_tuples w s t r') \<and>
     (ok \<and> ms_granter sv \<longrightarrow> mw_tuples w' s t r)"
  by (auto simp: grantRole_def dest!: remote_effect split: if_splits)

lemma revoke_others_effect:
  "revoke_others sv rc t s role rs w = (ok, w') \<Longrightarrow>
     only_tuples t s w w' \<and> (\<forall>r. mw_tuples w' s t r \<longrightarrow> mw_tuples w s t r) \<and>
     (ok \<and> ms_revoker sv \<longrightarrow> (\<forall>r\<in>set rs. r \<noteq> role \<longrightarrow> \<not> mw_tuples w' s t r))"
proof (induction rs arbitrary: w ok w')
  case (Cons r rs)
  show ?case
  proof (cases "r = role \<or> rl_check rc r \<and> \<not> mw_tuples w s t r")
    case True
    with Cons.prems have "revoke_others sv rc t s role rs w = (ok, w')" by simp
    from Cons.IH [OF this] True show ?thesis by auto
  next
    case False
    obtain ok1 w1 where 1: "revokeRoleErr sv rc t s r w = (ok1, w1)" by fastforce
    obtain ok2 w2 where 2: "revoke_others sv rc t s role rs w1 = (ok2, w2)" by fastforce
    from False Cons.prems 1 2 have "ok = (ok1 \<and> ok2)" "w' = w2" by auto
    with revoke_effect [OF 1] Cons.IH [OF 2] show ?thesis by (auto intro: only_tuples_trans)
  qed
qed simp

lemma exact_effect:
  assumes "reconcileExactRole sv b rc t s role w = (ok, w')"
  shows "only_tuples t s w w' \<and> (\<forall>r. mw_tuples w' s t r \<longrightarrow> mw_tuples w s t r \<or> r = role) \<and>
    (ok \<and> ms_revoker sv \<and> ms_granter sv \<and> ba_authz b \<noteq> None \<longrightarrow> (\<forall>r\<in>set Roles. mw_tuples w' s t r \<longleftrightarrow> r = role) \<or>
      role \<notin> set Roles)"
proof -
  obtain ok1 w1 where 1: "(if ba_authz b \<noteq> None then revoke_others sv rc t s role Roles w else (True, w)) = (ok1, w1)"
    by fastforce
  obtain ok2 w2 where 2: "grantRole sv b rc t s role w1 = (ok2, w2)" by fastforce
  from assms 1 2 have eq: "ok = (ok1 \<and> ok2)" "w' = w2" by (auto simp: reconcileExactRole_def)
  from 1 have "only_tuples t s w w1 \<and> (\<forall>r. mw_tuples w1 s t r \<longrightarrow> mw_tuples w s t r) \<and>
     (ok1 \<and> ms_revoker sv \<and> ba_authz b \<noteq> None \<longrightarrow> (\<forall>r\<in>set Roles. r \<noteq> role \<longrightarrow> \<not> mw_tuples w1 s t r))"
    by (auto dest!: revoke_others_effect split: if_splits)
  with grant_effect [OF 2] eq show ?thesis by (auto intro: only_tuples_trans)
qed

section \<open>Drift is queued\<close>

text \<open>A tuple agrees with the membership, or the outbox still has a change for it.\<close>

definition settled_at :: "member_world \<Rightarrow> string \<Rightarrow> string \<Rightarrow> bool" where
  "settled_at w t s \<longleftrightarrow>
     (\<forall>r. mw_tuples w s t r \<longrightarrow> r \<in> set Roles \<and>
        (map_option mb_role (seat_of (mw_db w) t s) = Some r \<or> HasPendingRoleReconciliation t s (mw_db w)))"

definition drift_queued :: "member_world \<Rightarrow> bool" where
  "drift_queued w \<longleftrightarrow> (\<forall>t s. settled_at w t s)"

definition full_service :: "members_service \<Rightarrow> base \<Rightarrow> bool" where
  "full_service sv b \<longleftrightarrow> ms_store sv \<and> ms_granter sv \<and> ms_revoker sv \<and> ba_authz b \<noteq> None"

lemma drift_at:
  assumes "drift_queued w" "only_member t s (mw_db w) (mw_db w')" "settled_at w' t s"
    and "\<And>s' t' r. (t', s') \<noteq> (t, s) \<Longrightarrow> mw_tuples w' s' t' r = mw_tuples w s' t' r"
  shows "drift_queued w'"
  unfolding drift_queued_def
proof (intro allI)
  fix t' s'
  show "settled_at w' t' s'"
  proof (cases "(t', s') = (t, s)")
    case False
    with assms(1,2,4) show ?thesis by (simp add: drift_queued_def settled_at_def only_member_def)
  qed (use assms(3) in simp)
qed

text \<open>At most one role is in force for a subject of a workspace.\<close>

definition one_role :: "member_world \<Rightarrow> string \<Rightarrow> string \<Rightarrow> bool" where
  "one_role w t s \<longleftrightarrow> (\<forall>r r'. mw_tuples w s t r \<longrightarrow> mw_tuples w s t r' \<longrightarrow> r = r')"

definition holds_exactly :: "member_world \<Rightarrow> string \<Rightarrow> string \<Rightarrow> string \<Rightarrow> bool" where
  "holds_exactly w t s role \<longleftrightarrow>
     (\<forall>r. mw_tuples w s t r \<longleftrightarrow> r = role) \<and> map_option mb_role (seat_of (mw_db w) t s) = Some role \<and>
     \<not> HasPendingRoleReconciliation t s (mw_db w)"

text \<open>What a verb on one member does to the world.\<close>

definition only_at :: "string \<Rightarrow> string \<Rightarrow> member_world \<Rightarrow> member_world \<Rightarrow> bool" where
  "only_at t s w w' \<longleftrightarrow> only_member t s (mw_db w) (mw_db w') \<and>
     (\<forall>s' t' r. (t', s') \<noteq> (t, s) \<longrightarrow> mw_tuples w' s' t' r = mw_tuples w s' t' r)"

lemma only_at_refl [simp]: "only_at t s w w"
  by (simp add: only_at_def)

lemma only_at_trans: "only_at t s w w1 \<Longrightarrow> only_at t s w1 w2 \<Longrightarrow> only_at t s w w2"
  by (auto simp: only_at_def intro: only_member_trans)

lemma only_at_tuples: "only_tuples t s w w' \<Longrightarrow> only_at t s w w'"
  by (auto simp: only_at_def only_tuples_def)

lemma only_at_db: "only_member t s (mw_db w) d \<Longrightarrow> only_at t s w (w\<lparr>mw_db := d\<rparr>)"
  by (simp add: only_at_def)

lemma fail_effect:
  "only_at t s w (failQueuedRole rc t s r w)" "mw_tuples (failQueuedRole rc t s r w) = mw_tuples w"
  "seat_of (mw_db (failQueuedRole rc t s r w)) = seat_of (mw_db w)"
  "HasPendingRoleReconciliation t' s' (mw_db (failQueuedRole rc t s r w)) = HasPendingRoleReconciliation t' s' (mw_db w)"
  "team_ok c (mw_db w) \<Longrightarrow> team_ok c (mw_db (failQueuedRole rc t s r w))"
  using keeps_outbox(3) [of c "mw_db w" "mw_now w" t s r "rl_text rc"]
  by (simp_all add: failQueuedRole_def remote_def on_db_def only_at_def only_member_def keeps_def)

lemma complete_effect:
  assumes "completeQueuedRole rc t s r w = (ok, w')"
  shows "only_at t s w w' \<and> mw_tuples w' = mw_tuples w \<and> seat_of (mw_db w') = seat_of (mw_db w) \<and>
    (team_ok c (mw_db w) \<longrightarrow> team_ok c (mw_db w')) \<and>
    (ok \<and> team_ok c (mw_db w) \<and> map_option mb_role (seat_of (mw_db w) t s) = Some r \<longrightarrow>
       \<not> HasPendingRoleReconciliation t s (mw_db w'))"
  using assms complete_member(1) [of t s "mw_db w" r] complete_member(2) [of t s r "mw_db w"] keeps_outbox(2) [of c "mw_db w" t s r] complete_done [of "mw_db w" t s r]
  by (auto simp: completeQueuedRole_def remote_def on_db_def only_at_def keeps_def role_at_def team_ok_def split: if_splits)

lemma commit_effect:
  assumes "store_commit errOf out f w = (e, w')" "f (mw_db w) = (e1, d)"
  shows "(w' = w \<and> e \<noteq> None \<or> w' = w\<lparr>mw_db := d\<rparr>) \<and> (e = None \<longrightarrow> e1 = None \<and> w' = w\<lparr>mw_db := d\<rparr>)"
  using assms by (auto simp: store_commit_def split: if_splits)

lemma shift_effect:
  assumes full: "full_service sv b" and ok: "team_ok c (mw_db w)" and new: "new \<in> set Roles" "new \<noteq> old"
    and only_old: "\<And>r. mw_tuples w s t r \<Longrightarrow> r = old \<and> old \<in> set Roles"
    and row: "map_option mb_role (seat_of (mw_db w) t s) = Some old"
    and shift: "shift_role sv b o' t s old new w = (e, w')"
  shows "only_at t s w w' \<and> settled_at w' t s \<and> one_role w' t s \<and> team_ok c (mw_db w') \<and>
    (e = None \<longrightarrow> holds_exactly w' t s new)"
proof -
  obtain e1 w1 where 1: "store_commit mapStoreErr (vc_write o') (UpdateMemberRole (mw_now w) t s new) w = (e1, w1)" by fastforce
  obtain eu du where u: "UpdateMemberRole (mw_now w) t s new (mw_db w) = (eu, du)" by fastforce
  from keeps_update_role [of c "mw_db w" "mw_now w" t s new] u ok have okd: "team_ok c du" by (simp add: keeps_def)
  have still: "settled_at w t s" "one_role w t s"
    using only_old row by (auto simp: settled_at_def one_role_def)
  show ?thesis
  proof (cases "w1 = w \<and> e1 \<noteq> None \<or> eu \<noteq> None")
    case True
    with update_role_member [OF u] commit_effect [OF 1 u] have "w1 = w" "e1 \<noteq> None" by auto
    with shift 1 have "w' = w" "e \<noteq> None" by (auto simp: shift_role_def)
    with still ok show ?thesis by auto
  next
    case False
    with update_role_member [OF u] have m: "only_member t s (mw_db w) du" "map_option mb_role (seat_of du t s) = Some new"
      "HasPendingRoleReconciliation t s du" by auto
    from False commit_effect [OF 1 u] have w1: "w1 = w\<lparr>mw_db := du\<rparr>" by blast
    define queued where "queued v \<longleftrightarrow> only_at t s w v \<and> mw_db v = du" for v
    have q1: "queued w1" by (simp add: queued_def w1 only_at_db m)
    have late: "settled_at v t s \<and> team_ok c (mw_db v)" if "queued v" "\<And>r. mw_tuples v s t r \<Longrightarrow> r \<in> set Roles" for v
      using that m okd by (simp add: queued_def settled_at_def)
    have failed: "only_at t s w (failQueuedRole rc t s new v) \<and> settled_at (failQueuedRole rc t s new v) t s \<and>
        team_ok c (mw_db (failQueuedRole rc t s new v)) \<and> (one_role v t s \<longrightarrow> one_role (failQueuedRole rc t s new v) t s)"
      if v: "queued v" "\<And>r. mw_tuples v s t r \<Longrightarrow> r \<in> set Roles" for v rc
      using v m okd fail_effect(1) [of t s v rc new] fail_effect(5) [of c v rc t s new]
      by (auto simp: queued_def settled_at_def one_role_def fail_effect(2-4) intro: only_at_trans)
    show ?thesis
    proof (cases e1)
      case (Some x)
      with shift 1 have "w' = w1" "e \<noteq> None" by (auto simp: shift_role_def)
      with late [OF q1] q1 still only_old show ?thesis by (auto simp: queued_def w1 one_role_def)
    next
      case None
      obtain ok2 w2 where 2: "revokeRoleErr sv (vc_role o') t s old w1 = (ok2, w2)" by fastforce
      from revoke_effect [OF 2] have q2: "queued w2"
        using q1 by (auto simp: queued_def only_tuples_def only_at_def w1)
      have "mw_tuples w1 = mw_tuples w" by (simp add: w1)
      then have t2: "mw_tuples w2 s t r \<Longrightarrow> r = old \<and> old \<in> set Roles \<and> \<not> ok2" for r
        using revoke_effect [OF 2] only_old full unfolding full_service_def by metis
      show ?thesis
      proof (cases ok2)
        case False
        with shift 1 2 None have "w' = failQueuedRole (vc_role o') t s new w2" "e \<noteq> None" by (auto simp: shift_role_def)
        moreover have "mw_tuples w2 s t r \<Longrightarrow> r \<in> set Roles" for r using t2 by blast
        note failed [OF q2 this, of "vc_role o'"]
        moreover have "one_role w2 t s" using t2 unfolding one_role_def by blast
        ultimately show ?thesis by auto
      next
        case True
        obtain ok3 w3 where 3: "grantRole sv b (vc_role o') t s new w2 = (ok3, w3)" by fastforce
        from grant_effect [OF 3] have q3: "queued w3"
          using q2 by (auto simp: queued_def only_tuples_def only_at_def)
        have t3: "mw_tuples w3 s t r \<Longrightarrow> r = new" for r using grant_effect [OF 3] t2 True by metis
        have got: "ok3 \<Longrightarrow> mw_tuples w3 s t new" using grant_effect [OF 3] full by (simp add: full_service_def)
        show ?thesis
        proof (cases ok3)
          case False
          with shift 1 2 3 None True have "w' = failQueuedRole (vc_role o') t s new w3" "e \<noteq> None" by (auto simp: shift_role_def)
          moreover have "mw_tuples w3 s t r \<Longrightarrow> r \<in> set Roles" for r using t3 new by blast
          note failed [OF q3 this, of "vc_role o'"]
          moreover have "one_role w3 t s" using t3 unfolding one_role_def by blast
          ultimately show ?thesis by auto
        next
          case ok3: True
          obtain ok4 w4 where 4: "completeQueuedRole (vc_role o') t s new w3 = (ok4, w4)" by fastforce
          from shift 1 2 3 4 None True ok3 have "w' = w4" "e = None \<longleftrightarrow> ok4"
            by (auto simp: shift_role_def split: if_splits)
          note end' = complete_effect [OF 4, of c]
          have "only_at t s w w'" using end' q3 \<open>w' = w4\<close> only_at_trans [of t s w w3 w4] by (simp add: queued_def)
          moreover have tup: "mw_tuples w' s t r \<longleftrightarrow> r = new" for r
            using end' t3 [of r] got [OF ok3] \<open>w' = w4\<close> by metis
          moreover have at: "map_option mb_role (seat_of (mw_db w') t s) = Some new"
            using end' q3 m(2) \<open>w' = w4\<close> by (simp add: queued_def)
          moreover have "team_ok c (mw_db w')" using end' q3 okd \<open>w' = w4\<close> by (simp add: queued_def)
          moreover have "e = None \<Longrightarrow> \<not> HasPendingRoleReconciliation t s (mw_db w')"
            using end' q3 okd m(2) \<open>w' = w4\<close> \<open>e = None \<longleftrightarrow> ok4\<close> by (simp add: queued_def)
          ultimately show ?thesis
            using new(1) by (simp add: settled_at_def one_role_def holds_exactly_def)
        qed
      qed
    qed
  qed
qed

lemma queued_effect:
  assumes full: "full_service sv b" and ok: "team_ok c (mw_db w)" and at: "settled_at w t s"
    and row: "map_option mb_role (seat_of (mw_db w) t s) = Some role" "role \<in> set Roles"
    and rec: "reconcileQueuedRole sv b rc t s role w = (pending, w')"
  shows "only_at t s w w' \<and> settled_at w' t s \<and> team_ok c (mw_db w') \<and> seat_of (mw_db w') = seat_of (mw_db w) \<and>
    (one_role w t s \<and> (\<forall>r. mw_tuples w s t r \<longrightarrow> r = role) \<longrightarrow> one_role w' t s) \<and> (\<not> pending \<longrightarrow> holds_exactly w' t s role)"
proof -
  obtain ok1 w1 where 1: "reconcileExactRole sv b rc t s role w = (ok1, w1)" by fastforce
  from exact_effect [OF 1] have q1: "only_at t s w w1" "mw_db w1 = mw_db w" and
    t1: "\<And>r. mw_tuples w1 s t r \<Longrightarrow> mw_tuples w s t r \<or> r = role"
    by (auto simp: only_tuples_def intro: only_at_tuples)
  have in_roles: "mw_tuples w1 s t r \<Longrightarrow> r \<in> set Roles" for r
    using t1 at row(2) by (auto simp: settled_at_def)
  have exact: "ok1 \<Longrightarrow> mw_tuples w1 s t r \<longleftrightarrow> r = role" for r
    using exact_effect [OF 1] full row(2) in_roles by (auto simp: full_service_def)
  have at1: "settled_at w1 t s"
    using at t1 row in_roles by (auto simp: settled_at_def q1(2))
  show ?thesis
  proof (cases ok1)
    case False
    with rec 1 have "w' = failQueuedRole rc t s role w1" "pending" by (auto simp: reconcileQueuedRole_def)
    with fail_effect(1) [of t s w1 rc role] fail_effect(5) [of c w1 rc t s role] q1 at1 ok t1 show ?thesis
      by (auto simp: settled_at_def one_role_def fail_effect(2-4) intro: only_at_trans) blast
  next
    case True
    obtain ok2 w2 where 2: "completeQueuedRole rc t s role w1 = (ok2, w2)" by fastforce
    with rec 1 True have w': "w' = w2" "pending \<longleftrightarrow> \<not> ok2" by (auto simp: reconcileQueuedRole_def)
    from complete_effect [OF 2, of c] q1 w' exact [OF True] ok row show ?thesis
      by (auto simp: settled_at_def one_role_def holds_exactly_def intro: only_at_trans)
  qed
qed

lemma canonicalRole_in: "canonicalRole uni s = Some r \<Longrightarrow> r \<in> set Roles"
  by (auto simp: canonicalRole_def Let_def split: if_splits)

lemma read_ok: "read up r = Inr x \<Longrightarrow> r = Inr x"
  by (auto simp: read_def split: if_splits sum.splits)

lemma member_row: "GetTenantMember t s d = Inr m \<Longrightarrow> seat_of d t s = Some m"
  by (auto simp: GetTenantMember_def split: option.splits)

text \<open>The ways of a role change: refused, brought in line, or shifted.\<close>

lemma ChangeRole_cases:
  assumes "ChangeRole sv b uni q o' ws s role w = (res, w')"
  defines "t \<equiv> fst (AuthorizeWorkspaceTarget b (q\<lparr>rq_deferred := True\<rparr>) RelCanManage ws (MemberTarget s))"
  obtains (refused) e where "res = Inl e" "w' = w"
  | (same) m pending where "seat_of (mw_db w) t s = Some m" "mb_role m \<in> set Roles"
      "reconcileQueuedRole sv b (vc_role o') t s (mb_role m) w = (pending, w')" "res = (if pending then Inl MemCall else Inr m)"
  | (shifted) m new e where "seat_of (mw_db w) t s = Some m" "new \<in> set Roles" "new \<noteq> mb_role m"
      "shift_role sv b o' t s (mb_role m) new w = (e, w')"
      "res = (case e of Some x \<Rightarrow> Inl x | None \<Rightarrow> Inr (m\<lparr>mb_role := new\<rparr>))"
proof -
  obtain t' a rows where gate: "AuthorizeWorkspaceTarget b (q\<lparr>rq_deferred := True\<rparr>) RelCanManage ws (MemberTarget s) = (t', a, rows)"
    by (metis prod_cases3)
  then have t: "t' = t" by (simp add: t_def)
  note run = assms(1) [unfolded ChangeRole_def gate t, simplified]
  show thesis
  proof (cases "\<exists>new m. a = None \<and> change_guards sv b q o' t s ''CANNOT_CHANGE_OWN_ROLE'' w = None \<and> canonicalRole uni role = Some new \<and>
        read (vc_member o') (GetTenantMember t s (mw_db w)) = Inr m \<and>
        first_refusal [guardMachine m, guardOwner (vc_owner o') t s new w] = None")
    case False
    with run have "w' = w \<and> (\<exists>e. res = Inl e)" by (auto split: option.splits sum.splits) metis
    then show thesis using refused by blast
  next
    case True
    then obtain new m where g: "a = None" "change_guards sv b q o' t s ''CANNOT_CHANGE_OWN_ROLE'' w = None"
      "canonicalRole uni role = Some new" "read (vc_member o') (GetTenantMember t s (mw_db w)) = Inr m"
      "first_refusal [guardMachine m, guardOwner (vc_owner o') t s new w] = None" by blast
    from g have row: "seat_of (mw_db w) t s = Some m" "new \<in> set Roles" by (auto dest: read_ok member_row canonicalRole_in)
    show thesis
    proof (cases "mb_role m = new")
      case True
      with run g same row show thesis by (auto split: prod.splits)
    next
      case False
      show thesis
      proof (cases "\<exists>tn. read (vc_tenant o') (GetTenant t (mw_db w)) = Inr tn \<and>
          first_refusal [guardPlanRole (tn_plan tn) new, guardLastAdmin (vc_count o') t (mb_role m) new w] = None")
        case True
        then obtain tn where "read (vc_tenant o') (GetTenant t (mw_db w)) = Inr tn"
          "first_refusal [guardPlanRole (tn_plan tn) new, guardLastAdmin (vc_count o') t (mb_role m) new w] = None" by blast
        moreover obtain e v where "shift_role sv b o' t s (mb_role m) new w = (e, v)" by fastforce
        ultimately show thesis
          using run g False shifted [OF row(1,2), of e] by (auto split: option.splits)
      next
        case none: False
        with run g False have "w' = w \<and> (\<exists>e. res = Inl e)" by (auto split: option.splits sum.splits)
        then show thesis using refused by blast
      qed
    qed
  qed
qed

text \<open>OpenFGA is in step with a member: what it holds of them, if anything, is the role of their row.\<close>

definition in_step :: "member_world \<Rightarrow> string \<Rightarrow> string \<Rightarrow> bool" where
  "in_step w t s \<longleftrightarrow>
     (\<forall>r. mw_tuples w s t r \<longrightarrow> r \<in> set Roles \<and> map_option mb_role (seat_of (mw_db w) t s) = Some r)"

lemma in_step_settled: "in_step w t s \<Longrightarrow> settled_at w t s"
  by (simp add: in_step_def settled_at_def)

lemma idle_in_step: "drift_queued w \<Longrightarrow> \<not> HasPendingRoleReconciliation t s (mw_db w) \<Longrightarrow> in_step w t s"
  unfolding drift_queued_def settled_at_def in_step_def by blast

lemma change_at:
  assumes full: "full_service sv b" and ok: "team_ok c (mw_db w)"
    and run: "ChangeRole sv b uni q o' ws s role w = (res, w')"
  defines "t \<equiv> fst (AuthorizeWorkspaceTarget b (q\<lparr>rq_deferred := True\<rparr>) RelCanManage ws (MemberTarget s))"
  assumes held: "in_step w t s"
  shows "only_at t s w w' \<and> settled_at w' t s \<and> team_ok c (mw_db w') \<and> one_role w' t s \<and>
    (\<forall>m. res = Inr m \<longrightarrow> holds_exactly w' t s (mb_role m))"
proof -
  note at = in_step_settled [OF held]
  have held': "mw_tuples w s t r \<Longrightarrow> map_option mb_role (seat_of (mw_db w) t s) = Some r \<and> r \<in> set Roles" for r
    using held by (simp add: in_step_def)
  then have one: "one_role w t s" unfolding one_role_def by (metis option.inject)
  from run show ?thesis
  proof (cases rule: ChangeRole_cases)
    case (refused e)
    with ok at one show ?thesis by simp
  next
    case (same m pending)
    note same = same [folded t_def]
    have "map_option mb_role (seat_of (mw_db w) t s) = Some (mb_role m)" using same(1) by simp
    from queued_effect [OF full ok at this same(2,3)] held' same(1,4) one show ?thesis by auto
  next
    case (shifted m new e)
    note shifted = shifted [folded t_def]
    have "map_option mb_role (seat_of (mw_db w) t s) = Some (mb_role m)" using shifted(1) by simp
    from shift_effect [OF full ok shifted(2,3) _ this shifted(4)] held' shifted(1)
    have "only_at t s w w'" "settled_at w' t s" "one_role w' t s" "team_ok c (mw_db w')" "e = None \<longrightarrow> holds_exactly w' t s new"
      by auto
    with shifted(5) show ?thesis by (auto split: option.splits)
  qed
qed

lemma change_effect:
  assumes full: "full_service sv b" and ok: "team_ok c (mw_db w)" and drift: "drift_queued w"
    and run: "ChangeRole sv b uni q o' ws s role w = (res, w')"
  defines "t \<equiv> fst (AuthorizeWorkspaceTarget b (q\<lparr>rq_deferred := True\<rparr>) RelCanManage ws (MemberTarget s))"
  assumes idle: "\<not> HasPendingRoleReconciliation t s (mw_db w)"
  shows "team_ok c (mw_db w') \<and> drift_queued w'"
  using change_at [OF full ok run, folded t_def, OF idle_in_step [OF drift idle]] drift_at [OF drift, of t s w']
  by (auto simp: only_at_def)

lemma dispose_keeps:
  "disposeMemberKeys o' t s w = (r, w') \<Longrightarrow> mw_db w' = mw_db w \<and> mw_tuples w' = mw_tuples w \<and> mw_now w' = mw_now w"
  by (auto simp: disposeMemberKeys_def split: option.splits prod.splits)

definition gone_from :: "member_world \<Rightarrow> string \<Rightarrow> string \<Rightarrow> bool" where
  "gone_from w t s \<longleftrightarrow> seat_of (mw_db w) t s = None \<and> (\<forall>r. \<not> mw_tuples w s t r) \<and> \<not> HasPendingRoleReconciliation t s (mw_db w)"

text \<open>The end of a membership, whichever way it is ordered: the tuple, then the row.\<close>

lemma leaving_effect:
  assumes full: "full_service sv b" and ok: "team_ok c (mw_db w)" and held: "in_step w t s"
    and row: "seat_of (mw_db w) t s = Some m"
    and 1: "revokeRoleErr sv rc t s (mb_role m) w = (ok1, w1)"
    and last: "ok1 \<longrightarrow> store_commit errOf out f w1 = (e, w')" "\<not> ok1 \<longrightarrow> w' = w1 \<and> e \<noteq> None"
    and f: "f = RemoveMember t s \<or> f = RemoveAccountMember t s"
  shows "only_at t s w w' \<and> settled_at w' t s \<and> team_ok c (mw_db w') \<and> (e = None \<longrightarrow> gone_from w' t s)"
proof -
  note at = in_step_settled [OF held]
  from revoke_effect [OF 1] have q1: "only_at t s w w1" "mw_db w1 = mw_db w"
    and t1: "\<And>r. mw_tuples w1 s t r \<Longrightarrow> mw_tuples w s t r" "ok1 \<Longrightarrow> \<not> mw_tuples w1 s t (mb_role m)"
    using full by (auto simp: only_tuples_def full_service_def intro: only_at_tuples)
  have none: "\<not> mw_tuples w1 s t r" if ok1 for r
    using t1(1) [of r] t1(2) [OF that] held row by (auto simp: in_step_def)
  show ?thesis
  proof (cases ok1)
    case False
    with last(2) q1 t1(1) at ok show ?thesis by (auto simp: settled_at_def)
  next
    case True
    obtain e1 d where fd: "f (mw_db w1) = (e1, d)" by fastforce
    note c1 = commit_effect [OF last(1) [rule_format, OF True] fd]
    have d: "only_member t s (mw_db w) d" "team_ok c d" "e1 = None \<Longrightarrow> seat_of d t s = None \<and> \<not> HasPendingRoleReconciliation t s d"
      using f fd q1(2) remove_member [of t s "mw_db w" e1 d] offboard_member [of t s "mw_db w" e1 d]
        keeps_remove [of c "mw_db w" t s] keeps_offboard [of c "mw_db w" t s] ok
      by (auto simp: keeps_def)
    have "w' = w1 \<or> w' = w1\<lparr>mw_db := d\<rparr>" using c1 by blast
    then show ?thesis
    proof
      assume w': "w' = w1"
      have "e = None \<Longrightarrow> mw_db w' = d" using c1 by auto
      with w' d(3) c1 none [OF True] q1 ok show ?thesis by (auto simp: settled_at_def gone_from_def)
    next
      assume w': "w' = w1\<lparr>mw_db := d\<rparr>"
      have "only_at t s w1 w'" using d(1) q1(2) by (simp add: w' only_at_db)
      with q1(1) have "only_at t s w w'" by (rule only_at_trans)
      with w' d none [OF True] c1 show ?thesis by (auto simp: settled_at_def gone_from_def)
    qed
  qed
qed

lemma end_at:
  assumes full: "full_service sv b" and ok: "team_ok c (mw_db w)"
    and held: "in_step w t s" and row: "seat_of (mw_db w) t s = Some m"
    and run: "endMembership sv errOf o' t s (mb_role m) w = (e, w')"
  shows "only_at t s w w' \<and> settled_at w' t s \<and> team_ok c (mw_db w') \<and> (e = None \<longrightarrow> gone_from w' t s)"
proof -
  obtain r w1 where 1: "disposeMemberKeys o' t s w = (r, w1)" by fastforce
  note k = dispose_keeps [OF 1]
  from held k have held1: "in_step w1 t s" by (simp add: in_step_def)
  have q1: "only_at t s w w1" using k by (simp add: only_at_def)
  show ?thesis
  proof (cases r)
    case (Inl x)
    with run 1 have "w' = w1" "e \<noteq> None" by (auto simp: endMembership_def)
    with in_step_settled [OF held1] q1 k ok show ?thesis by auto
  next
    case (Inr ids)
    obtain ok1 w2 where 2: "revokeRoleErr sv (vc_role o') t s (mb_role m) w1 = (ok1, w2)" by fastforce
    have "only_at t s w1 w' \<and> settled_at w' t s \<and> team_ok c (mw_db w') \<and> (e = None \<longrightarrow> gone_from w' t s)"
      by (rule leaving_effect [OF full _ held1 _ 2, where f = "RemoveMember t s" and errOf = errOf and out = "vc_write o'"])
        (use run 1 2 Inr k ok row in \<open>auto simp: endMembership_def split: bool.splits\<close>)
    with only_at_trans [OF q1, of w'] show ?thesis by blast
  qed
qed

lemma end_effect:
  assumes "full_service sv b" and "team_ok c (mw_db w)" and drift: "drift_queued w"
    and "\<not> HasPendingRoleReconciliation t s (mw_db w)" and "seat_of (mw_db w) t s = Some m"
    and "endMembership sv errOf o' t s (mb_role m) w = (e, w')"
  shows "team_ok c (mw_db w') \<and> drift_queued w' \<and> (e = None \<longrightarrow> gone_from w' t s)"
  using end_at [OF assms(1,2) idle_in_step [OF assms(3,4)] assms(5,6)] drift_at [OF drift, of t s w']
  by (auto simp: only_at_def)

text \<open>A transaction after which every member it touched has a queued change.\<close>

definition queues :: "team_db \<Rightarrow> team_db \<Rightarrow> bool" where
  "queues d d' \<longleftrightarrow>
     (\<forall>t s. seat_of d' t s = seat_of d t s \<and> HasPendingRoleReconciliation t s d' = HasPendingRoleReconciliation t s d \<or>
        HasPendingRoleReconciliation t s d')"

lemma queues_refl [simp]: "queues d d"
  by (simp add: queues_def)

lemma queues_trans: "queues d d1 \<Longrightarrow> queues d1 d2 \<Longrightarrow> queues d d2"
  unfolding queues_def by metis

lemma queues_same: "seat_of d' = seat_of d \<Longrightarrow> (\<And>t s. HasPendingRoleReconciliation t s d' = HasPendingRoleReconciliation t s d) \<Longrightarrow> queues d d'"
  by (simp add: queues_def)

lemma queues_drift: "drift_queued w \<Longrightarrow> queues (mw_db w) d \<Longrightarrow> \<forall>t s r. mw_tuples w s t r \<longrightarrow> r \<in> set Roles \<Longrightarrow> drift_queued (w\<lparr>mw_db := d\<rparr>)"
  unfolding drift_queued_def settled_at_def queues_def by (simp, metis)

lemma drift_roles: "drift_queued w \<Longrightarrow> mw_tuples w s t r \<Longrightarrow> r \<in> set Roles"
  by (auto simp: drift_queued_def settled_at_def)

lemma drift_after: "drift_queued w \<Longrightarrow> queues (mw_db w) d \<Longrightarrow> drift_queued (w\<lparr>mw_db := d\<rparr>)"
  by (rule queues_drift) (auto dest: drift_roles)

lemma redeem_queues: "redeemInvite now iv s d = Inr (effective, d') \<Longrightarrow> queues d d'"
  using redeem_member [of now iv s d effective d'] unfolding only_member_def queues_def by (metis prod.inject)

definition seated_as :: "string \<Rightarrow> team_db \<Rightarrow> invite \<Rightarrow> bool" where
  "seated_as s d v \<longleftrightarrow> map_option mb_role (seat_of d (iv_tenant v) s) = Some (iv_role v) \<and> iv_role v \<in> set Roles"

lemma redeem_seated: "redeemInvite now iv s d = Inr (effective, d') \<Longrightarrow> seated_as s d v \<Longrightarrow> seated_as s d' v"
  using redeem_member [of now iv s d effective d'] unfolding only_member_def seated_as_def
  by (cases "iv_tenant v = iv_tenant iv") auto

lemma redeem_all_facts:
  "redeem_all ops now s ivs d = Inr (got, d') \<Longrightarrow>
     queues d d' \<and> (\<forall>v. seated_as s d v \<longrightarrow> seated_as s d' v) \<and> (\<forall>v\<in>set got. seated_as s d' v)"
proof (induction ivs arbitrary: d got)
  case (Cons iv ivs)
  show ?case
  proof (cases "planAllowsJoin ops iv s d = Inr True")
    case True
    with Cons.prems obtain e d1 got1 where r: "redeemInvite now iv s d = Inr (e, d1)"
      "redeem_all ops now s ivs d1 = Inr (got1, d')" "got = iv\<lparr>iv_role := e\<rparr> # got1"
      by (auto split: sum.splits)
    have "seated_as s d1 (iv\<lparr>iv_role := e\<rparr>)" using redeem_member [OF r(1)] by (simp add: seated_as_def)
    with Cons.IH [OF r(2)] redeem_queues [OF r(1)] redeem_seated [OF r(1)] r(3) show ?thesis
      by (auto intro: queues_trans)
  next
    case False
    with Cons.prems have "redeem_all ops now s ivs d = Inr (got, d')" by (auto split: sum.splits bool.splits)
    with Cons.IH show ?thesis by blast
  qed
qed simp

lemma join_facts:
  assumes "redeemPending ops now s pending d = (r, d')"
  shows "queues d d' \<and> (\<forall>got. r = Inr got \<longrightarrow> (\<forall>v\<in>set got. seated_as s d' v))"
  using assms by (auto simp: redeemPending_def dest: redeem_all_facts split: if_splits sum.splits)

lemma accept_facts:
  assumes "AcceptInviteByToken sha ops now wall token s d = (r, d')"
  shows "queues d d' \<and> (\<forall>v. r = Inr v \<longrightarrow> seated_as s d' v)"
proof (cases "\<exists>iv e. redeemInvite now iv s d = Inr (e, d') \<and> r = Inr (iv\<lparr>iv_role := e\<rparr>)")
  case True
  then obtain iv e where "redeemInvite now iv s d = Inr (e, d')" "r = Inr (iv\<lparr>iv_role := e\<rparr>)" by blast
  with redeem_queues redeem_member show ?thesis by (fastforce simp: seated_as_def)
next
  case False
  with assms have "d' = d \<and> (\<exists>e. r = Inl e)"
    by (auto simp: AcceptInviteByToken_def split: if_splits sum.splits bool.splits) metis
  then show ?thesis by auto
qed

lemma store_write_effect:
  assumes "store_write errOf out f w = (r, w')" "f (mw_db w) = (r1, d)"
  shows "(w' = w \<or> w' = w\<lparr>mw_db := d\<rparr>) \<and> (\<forall>x. r = Inr x \<longrightarrow> r1 = Inr x \<and> w' = w\<lparr>mw_db := d\<rparr>)"
  using assms by (auto simp: store_write_def split: if_splits sum.splits)

text \<open>The two reconciliations of one member.\<close>

lemma revokeOther_effect:
  "revokeOtherRoles rc t s role rs w = (ok, w') \<Longrightarrow> only_tuples t s w w' \<and> (\<forall>r. mw_tuples w' s t r \<longrightarrow> mw_tuples w s t r)"
proof (induction rs arbitrary: w)
  case (Cons r rs)
  show ?case
  proof (cases "r = role \<or> rl_check rc r \<and> \<not> mw_tuples w s t r")
    case True
    with Cons show ?thesis by auto
  next
    case False
    obtain ok1 w1 where 1: "remote (rl_revoke rc r) (put_tuple t s r False) w = (ok1, w1)" by fastforce
    then have 2: "only_tuples t s w w1 \<and> (\<forall>r. mw_tuples w1 s t r \<longrightarrow> mw_tuples w s t r)"
      by (auto dest!: remote_effect split: if_splits)
    show ?thesis
    proof (cases ok1)
      case True
      with Cons.prems False 1 have "revokeOtherRoles rc t s role rs w1 = (ok, w')" by auto
      from Cons.IH [OF this] 2 show ?thesis by (auto intro: only_tuples_trans)
    next
      case no: False
      with Cons.prems False 1 2 show ?thesis by auto
    qed
  qed
qed simp

lemma revokeOther_done:
  "revokeOtherRoles rc t s role rs w = (True, w') \<Longrightarrow> \<forall>r\<in>set rs. r \<noteq> role \<longrightarrow> \<not> mw_tuples w' s t r"
proof (induction rs arbitrary: w)
  case (Cons r rs)
  show ?case
  proof (cases "r = role \<or> rl_check rc r \<and> \<not> mw_tuples w s t r")
    case True
    with Cons.prems have 1: "revokeOtherRoles rc t s role rs w = (True, w')" by simp
    from Cons.IH [OF 1] revokeOther_effect [OF 1] True show ?thesis by auto
  next
    case False
    with Cons.prems obtain w1 where 1: "remote (rl_revoke rc r) (put_tuple t s r False) w = (True, w1)"
      "revokeOtherRoles rc t s role rs w1 = (True, w')" by (auto split: prod.splits bool.splits)
    then have "\<not> mw_tuples w1 s t r" by (auto dest!: remote_effect)
    with Cons.IH [OF 1(2)] revokeOther_effect [OF 1(2)] show ?thesis by auto
  qed
qed simp

lemma invite_role_effect:
  assumes "reconcileInviteRole sv True rc t s role w = (ok, w')" "ms_granter sv"
  shows "only_tuples t s w w' \<and> (\<forall>r. mw_tuples w' s t r \<longrightarrow> mw_tuples w s t r \<or> r = role) \<and>
    (ok \<longrightarrow> (\<forall>r\<in>set Roles. r \<noteq> role \<longrightarrow> \<not> mw_tuples w' s t r))"
proof -
  obtain ok1 w1 where 1: "revokeOtherRoles rc t s role Roles w = (ok1, w1)" by fastforce
  note r = revokeOther_effect [OF 1]
  show ?thesis
  proof (cases ok1)
    case False
    with assms 1 have "\<not> ok" "w' = w1" by (auto simp: reconcileInviteRole_def)
    with r show ?thesis by auto
  next
    case True
    with assms 1 have 2: "remote (rl_grant rc) (put_tuple t s role True) w1 = (ok, w')" by (simp add: reconcileInviteRole_def)
    have "only_tuples t s w w'" using remote_effect [OF 2] r by (auto intro: only_tuples_trans)
    moreover have "mw_tuples w' s t r' \<longleftrightarrow> (mw_tuples w1 s t r' \<or> r' = role \<and> w' \<noteq> w1)" for r'
      using remote_effect [OF 2] by (cases "w' = w1") auto
    ultimately show ?thesis using r revokeOther_done [of rc t s role Roles w w1] 1 True by auto
  qed
qed

lemma settle_one:
  assumes "drift_queued w" "team_ok c (mw_db w)" "seated_as s (mw_db w) v" "ms_granter sv"
    and rec: "reconcileInviteRole sv True rc (iv_tenant v) s (iv_role v) w = (ok, w1)"
    and w': "w' = (if ok then snd (completeQueuedRole rc (iv_tenant v) s (iv_role v) w1) else failQueuedRole rc (iv_tenant v) s (iv_role v) w1)"
  shows "drift_queued w' \<and> team_ok c (mw_db w') \<and> seat_of (mw_db w') = seat_of (mw_db w)"
proof -
  let ?t = "iv_tenant v" and ?r = "iv_role v"
  note e = invite_role_effect [OF rec assms(4)]
  have q1: "only_at ?t s w w1" "mw_db w1 = mw_db w" using e by (auto simp: only_tuples_def intro: only_at_tuples)
  have row: "map_option mb_role (seat_of (mw_db w) ?t s) = Some ?r" "?r \<in> set Roles"
    using assms(3) by (auto simp: seated_as_def)
  have in_roles: "mw_tuples w1 s ?t r \<Longrightarrow> r \<in> set Roles" for r using e drift_roles [OF assms(1)] row(2) by metis
  have at1: "settled_at w1 ?t s"
    using assms(1) e row in_roles q1(2) unfolding drift_queued_def settled_at_def by metis
  have "only_at ?t s w1 w' \<and> settled_at w' ?t s \<and> team_ok c (mw_db w') \<and> seat_of (mw_db w') = seat_of (mw_db w1)"
  proof (cases ok)
    case False
    with w' fail_effect(1) [of ?t s w1 rc ?r] fail_effect(5) [of c w1 rc ?t s ?r] at1 assms(2) q1(2) show ?thesis
      by (simp add: settled_at_def fail_effect(2-4))
  next
    case True
    obtain ok2 w2 where 2: "completeQueuedRole rc ?t s ?r w1 = (ok2, w2)" by fastforce
    have "mw_tuples w1 s ?t r \<Longrightarrow> r = ?r" for r using e True in_roles by blast
    with complete_effect [OF 2, of c] row q1(2) assms(2) True w' 2 show ?thesis
      by (auto simp: settled_at_def)
  qed
  with q1 only_at_trans [OF q1(1), of w'] drift_at [OF assms(1), of ?t s w'] show ?thesis
    by (simp add: only_at_def)
qed

lemma settle_all:
  "drift_queued w \<Longrightarrow> team_ok c (mw_db w) \<Longrightarrow> \<forall>v\<in>set vs. seated_as s (mw_db w) v \<Longrightarrow> ms_granter sv \<Longrightarrow>
     drift_queued (settle_invites sv True rc s vs w) \<and> team_ok c (mw_db (settle_invites sv True rc s vs w))"
proof (induction vs arbitrary: w)
  case (Cons v vs)
  obtain ok w1 where 1: "reconcileInviteRole sv True (rc v) (iv_tenant v) s (iv_role v) w = (ok, w1)" by fastforce
  define w2 where "w2 = (if ok then snd (completeQueuedRole (rc v) (iv_tenant v) s (iv_role v) w1)
     else failQueuedRole (rc v) (iv_tenant v) s (iv_role v) w1)"
  from Cons.prems settle_one [OF _ _ _ _ 1 w2_def, of c]
  have "drift_queued w2" "team_ok c (mw_db w2)" "seat_of (mw_db w2) = seat_of (mw_db w)" by auto
  with Cons.IH [of w2] Cons.prems show ?case by (simp add: 1 w2_def [symmetric] seated_as_def)
qed simp

lemma sweep_effect:
  "drift_queued w \<Longrightarrow> team_ok c (mw_db w) \<Longrightarrow> full_service sv b \<Longrightarrow>
     \<forall>i\<in>set is. map_option mb_role (seat_of (mw_db w) (ri_tenant i) (ri_subject i)) = Some (ri_role i) \<and> ri_role i \<in> set Roles \<Longrightarrow>
     drift_queued (snd (reconcile_rows sv b rc cancel is w)) \<and> team_ok c (mw_db (snd (reconcile_rows sv b rc cancel is w)))"
proof (induction "is" arbitrary: w)
  case (Cons i "is")
  obtain p w1 where 1: "reconcileQueuedRole sv b (rc i) (ri_tenant i) (ri_subject i) (ri_role i) w = (p, w1)" by fastforce
  have at: "settled_at w (ri_tenant i) (ri_subject i)" using Cons.prems(1) by (simp add: drift_queued_def)
  from Cons.prems(4) have row: "map_option mb_role (seat_of (mw_db w) (ri_tenant i) (ri_subject i)) = Some (ri_role i)" "ri_role i \<in> set Roles"
    by auto
  note q = queued_effect [OF Cons.prems(3) Cons.prems(2) at row 1]
  then have "drift_queued w1" using drift_at [OF Cons.prems(1), of "ri_tenant i" "ri_subject i" w1] by (auto simp: only_at_def)
  with q Cons.IH [of w1] Cons.prems(3,4) show ?case by (simp add: 1)
qed simp

section \<open>Histories of a team\<close>

lemma Remove_cases:
  assumes "Remove sv b q o' ws s w = (e, w')"
  defines "t \<equiv> fst (AuthorizeWorkspaceTarget b (q\<lparr>rq_deferred := True\<rparr>) RelCanManage ws (MemberTarget s))"
  shows "w' = w \<and> e \<noteq> None \<or>
    (\<exists>m. seat_of (mw_db w) t s = Some m \<and> endMembership sv mapStoreErr o' t s (mb_role m) w = (e, w'))"
proof -
  obtain t' a rows where gate: "AuthorizeWorkspaceTarget b (q\<lparr>rq_deferred := True\<rparr>) RelCanManage ws (MemberTarget s) = (t', a, rows)"
    by (metis prod_cases3)
  then have t: "t' = t" by (simp add: t_def)
  note run = assms(1) [unfolded Remove_def gate t, simplified]
  show ?thesis
  proof (cases "\<exists>m. read (vc_member o') (GetTenantMember t s (mw_db w)) = Inr m")
    case False
    with run show ?thesis by (auto split: option.splits sum.splits)
  next
    case True
    then obtain m where m: "read (vc_member o') (GetTenantMember t s (mw_db w)) = Inr m" by blast
    then have "seat_of (mw_db w) t s = Some m" by (auto dest: read_ok member_row)
    with run m show ?thesis by (auto split: option.splits) metis+
  qed
qed

lemma Leave_cases:
  assumes "LeaveWorkspace sv b q o' ws w = (e, w')"
  defines "s \<equiv> id_subject (caller q)"
  defines "t \<equiv> fst (AuthorizeWorkspaceTarget b (q\<lparr>rq_deferred := True\<rparr>) RelCanView ws (MemberTarget s))"
  shows "w' = w \<and> e \<noteq> None \<or>
    (\<exists>m. seat_of (mw_db w) t s = Some m \<and> endMembership sv leaveStoreErr o' t s (mb_role m) w = (e, w'))"
proof (cases "s = []")
  case True
  with assms(1) show ?thesis by (auto simp: LeaveWorkspace_def s_def)
next
  case False
  obtain t' a rows where gate: "AuthorizeWorkspaceTarget b (q\<lparr>rq_deferred := True\<rparr>) RelCanView ws (MemberTarget s) = (t', a, rows)"
    by (metis prod_cases3)
  then have t: "t' = t" by (simp add: t_def)
  note run = assms(1) [unfolded LeaveWorkspace_def Let_def s_def [symmetric] gate t, simplified]
  show ?thesis
  proof (cases "\<exists>m. read (vc_member o') (GetTenantMember t s (mw_db w)) = Inr m")
    case no: False
    with run False show ?thesis by (auto split: option.splits sum.splits if_splits)
  next
    case True
    then obtain m where m: "read (vc_member o') (GetTenantMember t s (mw_db w)) = Inr m" by blast
    then have "seat_of (mw_db w) t s = Some m" by (auto dest: read_ok member_row)
    with run m False show ?thesis by (auto split: option.splits if_splits) metis+
  qed
qed

text \<open>
  What happens to a team, with any outcomes of the calls. The verbs on a member are on one whose last
  change has reached OpenFGA; a sweep of the outbox is one step.
\<close>

inductive member_step :: "(string \<Rightarrow> bool) \<Rightarrow> member_world \<Rightarrow> member_world \<Rightarrow> bool" for c where
  changes: "full_service sv b \<Longrightarrow> \<forall>t. \<not> HasPendingRoleReconciliation t s (mw_db w) \<Longrightarrow>
     member_step c w (snd (ChangeRole sv b uni q o' ws s role w))"
| removes: "full_service sv b \<Longrightarrow> \<forall>t. \<not> HasPendingRoleReconciliation t s (mw_db w) \<Longrightarrow>
     member_step c w (snd (Remove sv b q o' ws s w))"
| leaves: "full_service sv b \<Longrightarrow> \<forall>t. \<not> HasPendingRoleReconciliation t (id_subject (caller q)) (mw_db w) \<Longrightarrow>
     member_step c w (snd (LeaveWorkspace sv b q o' ws w))"
| offboards: "full_service sv b \<Longrightarrow> \<not> HasPendingRoleReconciliation t s (mw_db w) \<Longrightarrow>
     member_step c w (snd (offboard sv o' t s w))"
| accepts: "full_service sv b \<Longrightarrow> \<not> c (id_subject (caller q)) \<Longrightarrow>
     member_step c w (snd (AcceptInvite sv b sha ops q ac token w))"
| logs_in: "full_service sv b \<Longrightarrow> \<not> c s \<Longrightarrow>
     member_step c w (acceptInvites sv True verified ops out rcs s email emailVerified seen w)"
| sweeps: "full_service sv b \<Longrightarrow>
     member_step c w (snd (reconcilePendingRoles sv b out free rci cancel limit w))"
| invites: "member_step c w (snd (Invite sv b uni fold_eq parse emails sha ttl q ic i ws email role w))"
| resends: "member_step c w (snd (ResendInvite sv b sha ttl q ic ws i w))"
| revokes: "member_step c w (snd (RevokeInvite sv b q ic ws i w))"
| passes: "member_step c w (w\<lparr>mw_now := now, mw_wall := wall\<rparr>)"

text \<open>The verbs on invites leave the members, the outbox and the tuples alone.\<close>

definition only_invites :: "member_world \<Rightarrow> member_world \<Rightarrow> bool" where
  "only_invites w w' \<longleftrightarrow> mw_db w' = (mw_db w)\<lparr>td_invites := td_invites (mw_db w')\<rparr> \<and> mw_tuples w' = mw_tuples w"

lemma only_invites_refl [simp]: "only_invites w w"
  by (simp add: only_invites_def)

lemma only_invites_ops [simp]:
  "only_invites w (snd (store_write errOf out (CreateInvite sha i t e r token by' x) w))"
  "only_invites w (snd (store_write errOf out (RefreshInvite sha t i token x) w))"
  "only_invites w (snd (store_commit errOf out (DeleteInvite t i) w))"
  by (auto simp: only_invites_def store_write_def store_commit_def CreateInvite_def RefreshInvite_def DeleteInvite_def Let_def
      split: option.split)

lemma only_invites_keeps: "only_invites w w' \<Longrightarrow> team_ok c (mw_db w) \<Longrightarrow> drift_queued w \<Longrightarrow> team_ok c (mw_db w') \<and> drift_queued w'"
  using keeps_invites [of c "mw_db w" "td_invites (mw_db w')"]
  by (auto simp: only_invites_def keeps_def drift_queued_def settled_at_def team_lookups)
    (metis pending_tables(3) team_lookups(6))+

lemma Invite_tables: "only_invites w (snd (Invite sv b uni fold_eq parse emails sha ttl q ic i ws email role w))"
  unfolding Invite_def by (simp split: prod.split option.split sum.split bool.split)

lemma ResendInvite_tables: "only_invites w (snd (ResendInvite sv b sha ttl q ic ws i w))"
proof -
  have "only_invites w w1" if "store_write mapStoreErr (ic_write ic) (RefreshInvite sha t i token x) w = (r, w1)" for t token x r w1
    using only_invites_ops(2) [of w mapStoreErr "ic_write ic" sha t i token x] that by simp
  then show ?thesis unfolding ResendInvite_def by (auto split: prod.split option.split sum.split)
qed

lemma RevokeInvite_tables: "only_invites w (snd (RevokeInvite sv b q ic ws i w))"
  unfolding RevokeInvite_def by (simp split: prod.split option.split)

lemma offboard_effect:
  assumes full: "full_service sv b" and ok: "team_ok c (mw_db w)" and drift: "drift_queued w"
    and idle: "\<not> HasPendingRoleReconciliation t s (mw_db w)"
    and run: "offboard sv o' t s w = (e, w')"
  shows "team_ok c (mw_db w') \<and> drift_queued w' \<and> (e = None \<and> seat_of (mw_db w) t s \<noteq> None \<longrightarrow> gone_from w' t s)"
proof (cases "ms_store sv \<and> vc_member o' \<and> seat_of (mw_db w) t s \<noteq> None")
  case False
  with run have "w' = w" "e = None \<longrightarrow> seat_of (mw_db w) t s = None"
    by (auto simp: offboard_def split: if_splits option.splits)
  with ok drift show ?thesis by auto
next
  case True
  then obtain m where m: "seat_of (mw_db w) t s = Some m" by blast
  obtain ok1 w1 where 1: "revokeRoleErr sv (vc_role o') t s (mb_role m) w = (ok1, w1)" by fastforce
  have "only_at t s w w' \<and> settled_at w' t s \<and> team_ok c (mw_db w') \<and> (e = None \<longrightarrow> gone_from w' t s)"
    by (rule leaving_effect [OF full ok idle_in_step [OF drift idle] m 1, where f = "RemoveAccountMember t s" and errOf = mapStoreErr and out = "vc_write o'"])
      (use run 1 True m in \<open>auto simp: offboard_def split: bool.splits\<close>)
  with drift_at [OF drift, of t s w'] show ?thesis by (auto simp: only_at_def)
qed

lemma exit_keeps:
  assumes full: "full_service sv b" and ok: "team_ok c (mw_db w)" and drift: "drift_queued w"
    and idle: "\<not> HasPendingRoleReconciliation t s (mw_db w)"
    and run: "w' = w \<or> (\<exists>m. seat_of (mw_db w) t s = Some m \<and> endMembership sv errOf o' t s (mb_role m) w = (e, w'))"
  shows "team_ok c (mw_db w') \<and> drift_queued w'"
  using run end_effect [OF full ok drift idle, of _ errOf o' e w'] ok drift by auto

lemma accept_keeps:
  assumes full: "full_service sv b" and person: "\<not> c (id_subject (caller q))" and ok: "team_ok c (mw_db w)" and drift: "drift_queued w"
    and run: "AcceptInvite sv b sha ops q o' token w = (res, w')"
  shows "team_ok c (mw_db w') \<and> drift_queued w'"
proof (cases "first_refusal [map_option MemAuth (fst (Authorize b q RelCanView)), wired sv,
     if trim_space token = [] then Some (MemCoded ''INVITE_INVALID'') else None,
     if rq_identity q = None then Some (MemAuth Forbidden) else None]")
  case (Some e)
  with run have "w' = w" unfolding AcceptInvite_def by simp
  with ok drift show ?thesis by simp
next
  case None
  let ?s = "id_subject (caller q)" and ?f = "AcceptInviteByToken sha ops (mw_now w) (mw_wall w) token (id_subject (caller q))"
  obtain r w1 where 1: "store_write mapAcceptInviteErr (ac_write o') ?f w = (r, w1)" by fastforce
  obtain r1 d where f: "?f (mw_db w) = (r1, d)" by fastforce
  note e1 = store_write_effect [OF 1 f]
  have okd: "team_ok c d" using keeps_accept [of c "id_subject (caller q)", OF person, of "mw_db w" sha ops "mw_now w" "mw_wall w" token] ok f by (simp add: keeps_def)
  from accept_facts [OF f] drift_after [OF drift, of d] have d: "drift_queued (w\<lparr>mw_db := d\<rparr>)" by simp
  have w1: "team_ok c (mw_db w1)" "drift_queued w1" using e1 ok okd drift d by auto
  show ?thesis
  proof (cases r)
    case (Inl e)
    with run 1 None have "w' = w1" unfolding AcceptInvite_def by (simp add: Let_def)
    with w1 show ?thesis by simp
  next
    case (Inr v)
    obtain p w2 where 2: "reconcileQueuedRole sv b (ac_role o') (iv_tenant v) ?s (iv_role v) w1 = (p, w2)" by fastforce
    with run 1 None Inr have w': "w' = w2" unfolding AcceptInvite_def by (simp add: Let_def)
    from e1 Inr accept_facts [OF f] have "seated_as ?s (mw_db w1) v" by auto
    then have row: "map_option mb_role (seat_of (mw_db w1) (iv_tenant v) ?s) = Some (iv_role v)" "iv_role v \<in> set Roles"
      by (auto simp: seated_as_def)
    have at: "settled_at w1 (iv_tenant v) ?s" using w1(2) by (simp add: drift_queued_def)
    from queued_effect [OF full w1(1) at row 2] drift_at [OF w1(2), of "iv_tenant v" ?s w2] w' show ?thesis
      by (auto simp: only_at_def)
  qed
qed

lemma login_keeps:
  assumes full: "full_service sv b" and person: "\<not> c s" and ok: "team_ok c (mw_db w)" and drift: "drift_queued w"
    and w'_def: "w' = acceptInvites sv True verified ops out rc s email emailVerified seen w"
  shows "team_ok c (mw_db w') \<and> drift_queued w'"
proof (cases "email = [] \<or> verified \<and> \<not> emailVerified")
  case True
  then have "w' = w" unfolding w'_def acceptInvites_def by simp
  with ok drift show ?thesis by simp
next
  case False
  let ?f = "AcceptInvitesForEmail ops (mw_now w) email s seen"
  obtain r w1 where 1: "store_write mapStoreErr out ?f w = (r, w1)" by fastforce
  obtain r1 d where f: "?f (mw_db w) = (r1, d)" by fastforce
  then have j: "redeemPending ops (mw_now w) s (pendingInvites (mw_now w) email seen) (mw_db w) = (r1, d)"
    by (simp add: AcceptInvitesForEmail_def)
  note e1 = store_write_effect [OF 1 f]
  have okd: "team_ok c d" using keeps_join [of c s, OF person, of "mw_db w" ops "mw_now w" "pendingInvites (mw_now w) email seen"] ok j
    by (simp add: keeps_def)
  from join_facts [OF j] drift_after [OF drift, of d] have d: "drift_queued (w\<lparr>mw_db := d\<rparr>)" by simp
  have w1: "team_ok c (mw_db w1)" "drift_queued w1" using e1 ok okd drift d by auto
  show ?thesis
  proof (cases r)
    case (Inl e)
    with 1 False have "w' = w1" unfolding w'_def acceptInvites_def by (simp only: if_False) (simp add: 1)
    with w1 show ?thesis by simp
  next
    case (Inr got)
    with 1 False have w': "w' = settle_invites sv True rc s got w1"
      unfolding w'_def acceptInvites_def by (simp only: if_False) (simp add: 1)
    from e1 Inr join_facts [OF j] have "\<forall>v\<in>set got. seated_as s (mw_db w1) v" by auto
    with settle_all [OF w1(2,1)] full w' show ?thesis by (simp add: full_service_def)
  qed
qed

lemma sweep_keeps:
  assumes full: "full_service sv b" and ok: "team_ok c (mw_db w)" and drift: "drift_queued w"
    and w'_def: "w' = snd (reconcilePendingRoles sv b out free rc cancel limit w)"
  shows "team_ok c (mw_db w') \<and> drift_queued w'"
proof -
  obtain rows d where cl: "ClaimRoleReconciliations (mw_now w) free limit (mw_db w) = (rows, d)" by fastforce
  note m = claim_member [OF cl]
  have okd: "team_ok c d" using keeps_outbox(1) [of c "mw_db w" "mw_now w" free limit] ok cl by (simp add: keeps_def)
  have dd: "drift_queued (w\<lparr>mw_db := d\<rparr>)" using drift by (intro drift_after queues_same) (simp_all add: m)
  have rows: "\<forall>i\<in>set rows. map_option mb_role (seat_of d (ri_tenant i) (ri_subject i)) = Some (ri_role i) \<and> ri_role i \<in> set Roles"
  proof
    fix i assume "i \<in> set rows"
    from m(3) [OF this] ok show "map_option mb_role (seat_of d (ri_tenant i) (ri_subject i)) = Some (ri_role i) \<and> ri_role i \<in> set Roles"
      unfolding m(1) team_ok_def intents_current_def role_at_def by metis
  qed
  show ?thesis
  proof (cases "ms_store sv \<and> out = Done")
    case False
    then have "w' = w \<or> w' = w\<lparr>mw_db := d\<rparr>" by (auto simp: w'_def reconcilePendingRoles_def cl Let_def)
    with ok okd drift dd show ?thesis by auto
  next
    case True
    then have "w' = snd (reconcile_rows sv b rc cancel rows (w\<lparr>mw_db := d\<rparr>))"
      by (simp add: w'_def reconcilePendingRoles_def cl)
    with sweep_effect [OF dd, of c sv b rows rc cancel] okd full rows show ?thesis by simp
  qed
qed

lemma step_keeps:
  assumes "member_step c w w'" "team_ok c (mw_db w)" "drift_queued w"
  shows "team_ok c (mw_db w') \<and> drift_queued w'"
  using assms
proof (induction rule: member_step.induct)
  case (changes sv b s w uni q o' ws role)
  obtain res w' where r: "ChangeRole sv b uni q o' ws s role w = (res, w')" by fastforce
  with change_effect [OF changes(1,3,4) r] changes(2) show ?case by simp
next
  case (removes sv b s w q o' ws)
  obtain e w' where r: "Remove sv b q o' ws s w = (e, w')" by fastforce
  then have "w' = w \<or> (\<exists>m. seat_of (mw_db w) (fst (AuthorizeWorkspaceTarget b (q\<lparr>rq_deferred := True\<rparr>) RelCanManage ws (MemberTarget s))) s = Some m \<and>
      endMembership sv mapStoreErr o' (fst (AuthorizeWorkspaceTarget b (q\<lparr>rq_deferred := True\<rparr>) RelCanManage ws (MemberTarget s))) s (mb_role m) w = (e, w'))"
    using Remove_cases [OF r] by blast
  from exit_keeps [OF removes(1,3,4) removes(2) [rule_format] this] r show ?case by simp
next
  case (leaves sv b q w o' ws)
  obtain e w' where r: "LeaveWorkspace sv b q o' ws w = (e, w')" by fastforce
  let ?s = "id_subject (caller q)"
  have "w' = w \<or> (\<exists>m. seat_of (mw_db w) (fst (AuthorizeWorkspaceTarget b (q\<lparr>rq_deferred := True\<rparr>) RelCanView ws (MemberTarget ?s))) ?s = Some m \<and>
      endMembership sv leaveStoreErr o' (fst (AuthorizeWorkspaceTarget b (q\<lparr>rq_deferred := True\<rparr>) RelCanView ws (MemberTarget ?s))) ?s (mb_role m) w = (e, w'))"
    using Leave_cases [OF r] by blast
  from exit_keeps [OF leaves(1,3,4) leaves(2) [rule_format] this] r show ?case by simp
next
  case (offboards sv b t s w o')
  obtain e w' where r: "offboard sv o' t s w = (e, w')" by fastforce
  with offboard_effect [OF offboards(1,3,4,2) r] show ?case by simp
next
  case (accepts sv b q w sha ops ac token)
  obtain res w' where r: "AcceptInvite sv b sha ops q ac token w = (res, w')" by fastforce
  with accept_keeps [OF accepts(1-4) r] show ?case by simp
next
  case logs_in
  then show ?case by (intro login_keeps [OF _ _ _ _ refl])
next
  case sweeps
  then show ?case by (intro sweep_keeps [OF _ _ _ refl])
next
  case (invites w sv b uni fold_eq parse emails sha ttl q ic i ws email role)
  then show ?case using only_invites_keeps [OF Invite_tables] by blast
next
  case (resends w sv b sha ttl q ic ws i)
  then show ?case using only_invites_keeps [OF ResendInvite_tables] by blast
next
  case (revokes w sv b q ic ws i)
  then show ?case using only_invites_keeps [OF RevokeInvite_tables] by blast
next
  case (passes w now wall)
  then show ?case by (simp add: drift_queued_def settled_at_def)
qed

lemma steps_keep:
  assumes "(member_step c)\<^sup>*\<^sup>* w w'" "team_ok c (mw_db w)" "drift_queued w"
  shows "team_ok c (mw_db w') \<and> drift_queued w'"
  using assms by (induction rule: rtranclp_induct) (auto dest: step_keeps)

section \<open>Properties\<close>

text \<open>C3: OpenFGA never forgets a difference. Whatever verbs and sweeps run, and whichever of their calls fail or lose their
  answer, a role tuple that disagrees with the membership it belongs to has its correction in the outbox; the verbs on
  a member, one at a time, are on one whose last change has arrived.\<close>

theorem role_drift_is_queued:
  assumes "(member_step c)\<^sup>*\<^sup>* w w'" and "team_ok c (mw_db w)" and "drift_queued w" and "mw_tuples w' s t r"
  shows "map_option mb_role (seat_of (mw_db w') t s) = Some r \<or> HasPendingRoleReconciliation t s (mw_db w')"
  using steps_keep [OF assms(1-3)] assms(4) by (simp add: drift_queued_def settled_at_def)

text \<open>C6: a role change fails closed. Take a member of whom OpenFGA holds nothing but the role of their row, with the store, the granter, the
  revoker and the checker wired, in tables as their transactions leave them (\<open>team_ok\<close>). Whichever calls of the change fail or lose their answer, the member never holds the old role and the
  new one together; when it reports success the member holds exactly the reported role, the row agrees, and nothing is queued. (A
  member who also holds an older role keeps it: \<open>second_change_forgets\<close> below.)\<close>

theorem role_change_fails_closed:
  assumes "full_service sv b" and "team_ok c (mw_db w)"
    and "t = fst (AuthorizeWorkspaceTarget b (q\<lparr>rq_deferred := True\<rparr>) RelCanManage ws (MemberTarget s))"
    and "\<And>r. mw_tuples w s t r \<Longrightarrow> r \<in> set Roles \<and> map_option mb_role (seat_of (mw_db w) t s) = Some r"
    and "ChangeRole sv b uni q o' ws s role w = (res, w')"
  shows "(\<forall>r r'. mw_tuples w' s t r \<longrightarrow> mw_tuples w' s t r' \<longrightarrow> r = r') \<and>
    (\<forall>m. res = Inr m \<longrightarrow> (\<forall>r. mw_tuples w' s t r \<longleftrightarrow> r = mb_role m) \<and>
       map_option mb_role (seat_of (mw_db w') t s) = Some (mb_role m) \<and> \<not> HasPendingRoleReconciliation t s (mw_db w'))"
proof -
  have "in_step w t s" using assms(4) by (simp add: in_step_def)
  with change_at [OF assms(1,2,5)] assms(3)
  have "one_role w' t s \<and> (\<forall>m. res = Inr m \<longrightarrow> holds_exactly w' t s (mb_role m))" by simp
  then show ?thesis unfolding one_role_def holds_exactly_def by blast
qed

text \<open>C5: a removal is complete. Take a member of whom OpenFGA holds nothing but the role of their row, with the services wired,
  the tables as their transactions leave them (\<open>team_ok\<close>), and a key registry such as the key service leaves when no grant's
  answer is lost (\<open>key_inv\<close>), no larger than Hydra's listing returns; and suppose every lookup of the workspace a key belongs to
  answers. When the verb then reports success, whichever other calls failed, the member has no row in the
  workspace, no role tuple, no queued change, and none of the API keys it created there is bound.\<close>

theorem removal_is_complete:
  assumes "full_service sv b" and "team_ok c (mw_db w)"
    and "t = fst (AuthorizeWorkspaceTarget b (q\<lparr>rq_deferred := True\<rparr>) RelCanManage ws (MemberTarget s))"
    and "\<And>r. mw_tuples w s t r \<Longrightarrow> r \<in> set Roles \<and> map_option mb_role (seat_of (mw_db w) t s) = Some r"
    and "mw_keys w = Some k" and "key_inv n k" and "roomy k" and "\<And>i. rc_owner (vc_keys o' i)"
    and "Remove sv b q o' ws s w = (None, w')"
  shows "seat_of (mw_db w') t s = None \<and> (\<forall>r. \<not> mw_tuples w' s t r) \<and> \<not> HasPendingRoleReconciliation t s (mw_db w') \<and>
    (\<exists>k'. mw_keys w' = Some k' \<and> (\<forall>(i, c)\<in>set (keys_of t k'). kc_createdBy c \<noteq> s))"
proof -
  have held: "in_step w t s" using assms(4) by (simp add: in_step_def)
  from Remove_cases [OF assms(9)] assms(3) obtain m where m: "seat_of (mw_db w) t s = Some m"
    "endMembership sv mapStoreErr o' t s (mb_role m) w = (None, w')" by auto
  with end_at [OF assms(1,2) held] have gone: "gone_from w' t s" by blast
  from m(2) obtain ids k' ok w2 where 1: "CleanupSubjectInWorkspace (vc_keyList o') (vc_keys o') s t k = ((ids, None), k')"
    and 2: "revokeRoleErr sv (vc_role o') t s (mb_role m) (w\<lparr>mw_keys := Some k'\<rparr>) = (True, w2)"
    and 3: "store_commit mapStoreErr (vc_write o') (RemoveMember t s) w2 = (None, w')"
    by (auto simp: endMembership_def disposeMemberKeys_def assms(5) split: prod.splits option.splits sum.splits bool.splits)
  have "mw_keys w' = Some k'"
    using revoke_effect [OF 2] 3 by (auto simp: only_tuples_def store_commit_def split: prod.splits if_splits)
  with gone cleanup_takes_keys [OF assms(6,7,8) 1] show ?thesis by (auto simp: gone_from_def)
qed

section \<open>Examples\<close>

text \<open>Workspace \<open>a\<close>, its admins \<open>u\<close> and \<open>v\<close>, and a caller \<open>u\<close> who may manage it.\<close>

definition demo_team :: team_db where
  "demo_team = \<lparr>
     td_tenants = [\<lparr>tn_id = ''a'', tn_name = ''a'', tn_plan = ''scale'', tn_owner = None\<rparr>],
     td_members = [\<lparr>mb_tenant = ''a'', mb_subject = ''u'', mb_role = ''admin'', mb_machine = False\<rparr>,
        \<lparr>mb_tenant = ''a'', mb_subject = ''v'', mb_role = ''admin'', mb_machine = False\<rparr>],
     td_invites = [], td_intents = [], td_deleting = \<lambda>_. False\<rparr>"

definition demo_members :: "key_world option \<Rightarrow> member_world" where
  "demo_members k = \<lparr>mw_db = demo_team, mw_tuples = \<lambda>s t r. s \<in> {''u'', ''v''} \<and> t = ''a'' \<and> r = ''admin'', mw_keys = k, mw_now = 0, mw_wall = 0\<rparr>"

definition demo_service :: members_service where
  "demo_service = \<lparr>ms_store = True, ms_granter = True, ms_revoker = True\<rparr>"

definition member_calls :: "outcome \<Rightarrow> outcome \<Rightarrow> verb_calls" where
  "member_calls revoke grant = \<lparr>vc_pending = True, vc_member = True, vc_owner = True, vc_tenant = True, vc_count = True, vc_write = Done,
     vc_role = \<lparr>rl_check = \<lambda>_. True, rl_revoke = \<lambda>_. revoke, rl_grant = grant, rl_complete = Done, rl_fail = Down, rl_text = []\<rparr>,
     vc_keyList = True, vc_keys = \<lambda>_. sure_revoke Done\<rparr>"

lemma demo_full [simp]: "full_service demo_service (demo_base up)"
  by (simp add: full_service_def demo_service_def demo_base_def)

lemma demo_team_ok [simp]: "team_ok (\<lambda>_. False) demo_team"
  by (simp add: team_ok_def demo_team_def seat_key_def seats_housed_def machines_marked_def owners_seated_def intents_current_def)

lemma demo_drift [simp]: "drift_queued (demo_members k)"
  by (auto simp: drift_queued_def settled_at_def demo_members_def demo_team_def seat_of_def Roles_def)

lemma demo_idle [simp]: "\<not> HasPendingRoleReconciliation t s (mw_db (demo_members k))"
  by (simp add: HasPendingRoleReconciliation_def pending_intent_def demo_members_def demo_team_def)

lemma demo_members_fields [simp]: "mw_db (demo_members k) = demo_team" "mw_keys (demo_members k) = k"
  by (simp_all add: demo_members_def)

lemma target_named [simp]: "ws \<noteq> [] \<Longrightarrow> fst (AuthorizeWorkspaceTarget b q r ws target) = ws"
  by (simp add: AuthorizeWorkspaceTarget_def workspaceArgument_def)

lemma demo_gate [simp]:
  "fst (snd (AuthorizeWorkspaceTarget (demo_base up) (demo_request\<lparr>rq_deferred := True\<rparr>) RelCanManage ''a'' target)) = None"
  "AuthorizeFreshOn (demo_base up) demo_request RelCanManage (WorkspaceObject ''a'') = None"
proof -
  have "granted (demo_base up) (demo_request\<lparr>rq_deferred := True\<rparr>) RelCanManage ''workspace:a''"
    using demo_object by (simp add: granted_def WorkspaceObject_def)
      (simp add: demo_defs RequireCapability_def CapabilityExempt_def answer_of_def)
  then show "fst (snd (AuthorizeWorkspaceTarget (demo_base up) (demo_request\<lparr>rq_deferred := True\<rparr>) RelCanManage ''a'' target)) = None"
    by (simp add: AuthorizeWorkspaceTarget_def workspaceArgument_def WorkspaceObject_def)
  show "AuthorizeFreshOn (demo_base up) demo_request RelCanManage (WorkspaceObject ''a'') = None"
    by (simp add: AuthorizeFreshOn_def WorkspaceObject_def)
qed

lemma demo_caller [simp]: "rq_identity demo_request = Some (zero_identity\<lparr>id_subject := ''u'', id_method := ''session''\<rparr>)"
  by (simp add: demo_request_def)

lemma demo_call_fields [simp]:
  "vc_pending (member_calls x y) = True" "vc_member (member_calls x y) = True" "vc_owner (member_calls x y) = True"
  "vc_tenant (member_calls x y) = True" "vc_count (member_calls x y) = True" "vc_write (member_calls x y) = Done"
  "vc_keyList (member_calls x y) = True" "vc_keys (member_calls x y) = (\<lambda>_. sure_revoke Done)"
  by (simp_all add: member_calls_def)

lemma demo_guards:
  "change_guards demo_service (demo_base up) demo_request (member_calls x y) ''a'' ''v'' code w =
     (if HasPendingRoleReconciliation ''a'' ''u'' (mw_db w) then Some MemPending else None)"
  by (simp add: change_guards_def guardCallerRoleSettled_def guardSelf_def wired_def demo_service_def member_calls_def)

text \<open>The verbs of that caller on \<open>v\<close>, past the gate.\<close>

lemma demo_Remove:
  "Remove demo_service (demo_base up) demo_request (member_calls x y) ''a'' ''v'' w =
     (case change_guards demo_service (demo_base up) demo_request (member_calls x y) ''a'' ''v'' ''CANNOT_REMOVE_SELF'' w of
        Some e \<Rightarrow> (Some e, w)
      | None \<Rightarrow>
          (case read True (GetTenantMember ''a'' ''v'' (mw_db w)) of
             Inl e \<Rightarrow> (Some e, w)
           | Inr m \<Rightarrow>
               (case first_refusal [guardMachine m, guardOwner True ''a'' ''v'' [] w, guardLastAdmin True ''a'' (mb_role m) [] w] of
                  Some e \<Rightarrow> (Some e, w)
                | None \<Rightarrow> endMembership demo_service mapStoreErr (member_calls x y) ''a'' ''v'' (mb_role m) w)))"
proof -
  obtain rows where gate: "AuthorizeWorkspaceTarget (demo_base up) (demo_request\<lparr>rq_deferred := True\<rparr>) RelCanManage ''a'' (MemberTarget ''v'') =
      (''a'', None, rows)"
    using demo_gate(1) [of up "MemberTarget ''v''"] target_named [of "''a''" "demo_base up"]
    by (metis list.distinct(1) prod.collapse)
  show ?thesis unfolding Remove_def gate demo_call_fields prod.case option.case by (rule refl)
qed

lemma demo_ChangeRole:
  "ChangeRole demo_service (demo_base up) uni demo_request (member_calls x y) ''a'' ''v'' role w =
     (case change_guards demo_service (demo_base up) demo_request (member_calls x y) ''a'' ''v'' ''CANNOT_CHANGE_OWN_ROLE'' w of
        Some e \<Rightarrow> (Inl e, w)
      | None \<Rightarrow>
          (case canonicalRole uni role of
             None \<Rightarrow> (Inl MemBadRequest, w)
           | Some new \<Rightarrow>
               (case read True (GetTenantMember ''a'' ''v'' (mw_db w)) of
                  Inl e \<Rightarrow> (Inl e, w)
                | Inr m \<Rightarrow>
                    (case first_refusal [guardMachine m, guardOwner True ''a'' ''v'' new w] of
                       Some e \<Rightarrow> (Inl e, w)
                     | None \<Rightarrow>
                         if mb_role m = new
                         then (case reconcileQueuedRole demo_service (demo_base up) (vc_role (member_calls x y)) ''a'' ''v'' new w of
                                 (pending, w1) \<Rightarrow> (if pending then Inl MemCall else Inr m, w1))
                         else (case read True (GetTenant ''a'' (mw_db w)) of
                                 Inl e \<Rightarrow> (Inl e, w)
                               | Inr tn \<Rightarrow>
                                   (case first_refusal [guardPlanRole (tn_plan tn) new, guardLastAdmin True ''a'' (mb_role m) new w] of
                                      Some e \<Rightarrow> (Inl e, w)
                                    | None \<Rightarrow>
                                        (case shift_role demo_service (demo_base up) (member_calls x y) ''a'' ''v'' (mb_role m) new w of
                                           (Some e, w1) \<Rightarrow> (Inl e, w1)
                                         | (None, w1) \<Rightarrow> (Inr (m\<lparr>mb_role := new\<rparr>), w1))))))))"
proof -
  obtain rows where gate: "AuthorizeWorkspaceTarget (demo_base up) (demo_request\<lparr>rq_deferred := True\<rparr>) RelCanManage ''a'' (MemberTarget ''v'') =
      (''a'', None, rows)"
    using demo_gate(1) [of up "MemberTarget ''v''"] target_named [of "''a''" "demo_base up"]
    by (metis list.distinct(1) prod.collapse)
  show ?thesis unfolding ChangeRole_def gate demo_call_fields prod.case option.case by (rule refl)
qed

lemma demo_roles [simp]:
  "canonicalRole uni ''developer'' = Some ''developer''" "canonicalRole uni ''viewer'' = Some ''viewer''"
  by (simp_all add: canonicalRole_def Roles_def to_lower_def is_ascii_def ascii_lower_def text_eval Let_def)

lemma demo_team_idle [simp]: "\<not> HasPendingRoleReconciliation t s demo_team"
  by (simp add: HasPendingRoleReconciliation_def pending_intent_def demo_team_def)

lemmas demo_tables = demo_team_def seat_of_def tenant_of_def pending_intent_def HasPendingRoleReconciliation_def
  CountTenantAdmins_def tenantOwnerIs_def TenantOwnerSubject_def GetTenantMember_def GetTenant_def

lemma demo_world [simp]: "mw_tuples (demo_members k) = (\<lambda>s t r. s \<in> {''u'', ''v''} \<and> t = ''a'' \<and> r = ''admin'')" "mw_now (demo_members k) = 0"
  by (simp_all add: demo_members_def)

lemma demo_role_calls [simp]:
  "rl_check (vc_role (member_calls x y)) = (\<lambda>_. True)" "rl_revoke (vc_role (member_calls x y)) = (\<lambda>_. x)"
  "rl_grant (vc_role (member_calls x y)) = y" "rl_complete (vc_role (member_calls x y)) = Done" "rl_fail (vc_role (member_calls x y)) = Down"
  by (simp_all add: member_calls_def)

lemma demo_service_fields [simp]: "ms_store demo_service" "ms_granter demo_service" "ms_revoker demo_service"
  by (simp_all add: demo_service_def)

lemmas demo_verbs = read_def guardMachine_def guardOwner_def guardPlanRole_def
  guardLastAdmin_def RoleAllowedOnPlan_def LimitsFor_def PlanHobby_def PlanPro_def PlanScale_def
  shift_role_def store_commit_def UpdateMemberRole_def revokeRoleErr_def grantRole_def remote_def put_tuple_def failQueuedRole_def
  completeQueuedRole_def on_db_def FailRoleReconciliation_def CompleteRoleReconciliation_def enqueueRoleReconciliation_def
  set_role_def Roles_def

text \<open>The world after a change of \<open>v\<close> to developer whose revoke failed: the row is new, the tuple old, the change queued.\<close>

definition stuck_team :: team_db where
  "stuck_team = demo_team\<lparr>
     td_members := [\<lparr>mb_tenant = ''a'', mb_subject = ''u'', mb_role = ''admin'', mb_machine = False\<rparr>,
        \<lparr>mb_tenant = ''a'', mb_subject = ''v'', mb_role = ''developer'', mb_machine = False\<rparr>],
     td_intents := [\<lparr>ri_tenant = ''a'', ri_subject = ''v'', ri_role = ''developer'', ri_attempts = 0, ri_next = 0,
        ri_error = None, ri_updated = 0\<rparr>]\<rparr>"

lemma demo_stuck:
  "snd (ChangeRole demo_service (demo_base True) uni demo_request (member_calls Down Done) ''a'' ''v'' ''developer'' (demo_members k)) =
     (demo_members k)\<lparr>mw_db := stuck_team\<rparr>"
  unfolding demo_ChangeRole demo_guards
  by (simp add: demo_verbs demo_tables stuck_team_def)

theorem role_drift_is_queued_witness:
  "let w' = snd (ChangeRole demo_service (demo_base True) id demo_request (member_calls Down Done) ''a'' ''v'' ''developer'' (demo_members None)) in
     mw_tuples w' ''v'' ''a'' ''admin'' \<and> map_option mb_role (seat_of (mw_db w') ''a'' ''v'') = Some ''developer'' \<and>
     HasPendingRoleReconciliation ''a'' ''v'' (mw_db w')"
proof -
  let ?w = "snd (ChangeRole demo_service (demo_base True) id demo_request (member_calls Down Done) ''a'' ''v'' ''developer'' (demo_members None))"
  have "member_step (\<lambda>_. False) (demo_members None) ?w"
    by (rule changes) simp_all
  note queued = role_drift_is_queued [OF r_into_rtranclp [where r = "member_step (\<lambda>_. False)", OF this]]
  have "mw_tuples ?w ''v'' ''a'' ''admin''" "map_option mb_role (seat_of (mw_db ?w) ''a'' ''v'') = Some ''developer''"
    unfolding demo_stuck by (simp_all add: stuck_team_def seat_of_def demo_members_def)
  with queued [of "''v''" "''a''" "''admin''"] show ?thesis by (simp add: Let_def)
qed

lemma demo_held: "mw_tuples (demo_members k) s ''a'' r \<Longrightarrow>
    r \<in> set Roles \<and> map_option mb_role (seat_of (mw_db (demo_members k)) ''a'' s) = Some r"
  by (auto simp: demo_tables Roles_def)

theorem role_change_fails_closed_witness:
  "let w' = snd (ChangeRole demo_service (demo_base True) id demo_request (member_calls Done Lost) ''a'' ''v'' ''developer'' (demo_members None)) in
     \<not> (mw_tuples w' ''v'' ''a'' ''admin'' \<and> mw_tuples w' ''v'' ''a'' ''developer'')"
proof -
  obtain res w' where r: "ChangeRole demo_service (demo_base True) id demo_request (member_calls Done Lost) ''a'' ''v'' ''developer'' (demo_members None) = (res, w')"
    by fastforce
  have "team_ok (\<lambda>_. False) (mw_db (demo_members None))" by simp
  from role_change_fails_closed [OF demo_full this _ demo_held r] show ?thesis by (auto simp: r)
qed

text \<open>Workspace \<open>a\<close> with a key of \<open>v\<close> in its registry loses \<open>v\<close>.\<close>

definition team_keys :: key_world where
  "team_keys = key_run 2 (no_keys 0) [Mints sure_create ''k1'' ''a'' ''u'', Mints sure_create ''k2'' ''a'' ''v'']"

lemma team_keys_are:
  "kw_rows team_keys = [''k1'' \<mapsto> ''a'', ''k2'' \<mapsto> ''a'']" "kw_granter team_keys" "kw_now team_keys = 0"
  "kw_clients team_keys = [(''k1'', \<lparr>kc_marker = True, kc_createdBy = ''u''\<rparr>), (''k2'', \<lparr>kc_marker = True, kc_createdBy = ''v''\<rparr>)]"
  "ts_cache (kw_service team_keys) = [(''oauth2:k1'', ''a'', 30000000000)]"
  by (simp_all add: team_keys_def key_defs)

lemma roomy_team_keys: "roomy team_keys"
  by (simp add: roomy_def team_keys_are hydraClientPageSize_def hydraClientMaxPages_def)

lemma inv_team_keys: "key_inv 2 team_keys"
proof -
  have "roomy_run 2 (no_keys 0) [Mints sure_create ''k1'' ''a'' ''u'', Mints sure_create ''k2'' ''a'' ''v'']"
    by (simp add: roomy_def key_defs)
  then show ?thesis
    unfolding team_keys_def by (intro inv_key_run inv_no_keys) (simp_all add: sure_create_def)
qed

lemma demo_removed:
  "fst (Remove demo_service (demo_base True) demo_request (member_calls Done Done) ''a'' ''v'' (demo_members (Some team_keys))) = None"
  unfolding demo_Remove demo_guards
  by (simp add: demo_verbs demo_tables endMembership_def disposeMemberKeys_def RemoveMember_def
      CleanupSubjectInWorkspace_def cleanup_def keyList_def hydraClientPageSize_def hydraClientMaxPages_def
      tenantForKey_def tenantOf_def ttlGet_def team_keys_are sure_revoke_def sure_unbind_def UnbindKey_def
      call_def revokeMember_def unbindClient_def hydraDelete_def getAPIKey_def ttlPut_def ttlRoom_def CacheMax_def PositiveTTL_def
      tenantKey_def methodOAuth2_def deleteClient_def)

theorem removal_is_complete_witness:
  "''v'' \<in> (\<lambda>(i, c). kc_createdBy c) ` set (keys_of ''a'' team_keys) \<and>
   (let w' = snd (Remove demo_service (demo_base True) demo_request (member_calls Done Done) ''a'' ''v'' (demo_members (Some team_keys))) in
     seat_of (mw_db w') ''a'' ''v'' = None \<and> \<not> mw_tuples w' ''v'' ''a'' ''admin'' \<and>
     ''v'' \<notin> (\<lambda>(i, c). kc_createdBy c) ` set (keys_of ''a'' (the (mw_keys w'))))"
proof -
  obtain w' where r: "Remove demo_service (demo_base True) demo_request (member_calls Done Done) ''a'' ''v'' (demo_members (Some team_keys)) = (None, w')"
    using demo_removed by (metis prod.collapse)
  have ok: "team_ok (\<lambda>_. False) (mw_db (demo_members (Some team_keys)))" by simp
  have owners: "\<And>i. rc_owner (vc_keys (member_calls Done Done) i)" by (simp add: sure_revoke_def)
  have "''v'' \<in> (\<lambda>(i, c). kc_createdBy c) ` set (keys_of ''a'' team_keys)" by (simp add: keys_of_def team_keys_are)
  moreover have "seat_of (mw_db w') ''a'' ''v'' = None" "\<not> mw_tuples w' ''v'' ''a'' ''admin''"
    "''v'' \<notin> (\<lambda>(i, c). kc_createdBy c) ` set (keys_of ''a'' (the (mw_keys w')))"
    using removal_is_complete [OF demo_full ok _ demo_held _ inv_team_keys roomy_team_keys owners r] by auto
  ultimately show ?thesis by (simp add: r)
qed

section \<open>What the verbs leave behind\<close>

text \<open>The second change of a member whose first one is still queued revokes the role of the row, not the one that is held.\<close>

lemma second_change_forgets:
  "let w1 = snd (ChangeRole demo_service (demo_base True) id demo_request (member_calls Down Done) ''a'' ''v'' ''developer'' (demo_members None));
       r = ChangeRole demo_service (demo_base True) id demo_request (member_calls Done Done) ''a'' ''v'' ''viewer'' w1 in
     map_sum id mb_role (fst r) = Inr ''viewer'' \<and> mw_tuples (snd r) ''v'' ''a'' ''admin'' \<and>
     \<not> HasPendingRoleReconciliation ''a'' ''v'' (mw_db (snd r))"
  unfolding Let_def demo_stuck unfolding demo_ChangeRole demo_guards
  by (simp add: demo_verbs demo_tables stuck_team_def)

lemma removed_member_keeps_admin:
  "let w1 = snd (ChangeRole demo_service (demo_base True) id demo_request (member_calls Down Done) ''a'' ''v'' ''developer'' (demo_members None));
       r = Remove demo_service (demo_base True) demo_request (member_calls Done Done) ''a'' ''v'' w1 in
     fst r = None \<and> seat_of (mw_db (snd r)) ''a'' ''v'' = None \<and> mw_tuples (snd r) ''v'' ''a'' ''admin'' \<and>
     \<not> HasPendingRoleReconciliation ''a'' ''v'' (mw_db (snd r))"
  unfolding Let_def demo_stuck unfolding demo_Remove demo_guards
  by (simp add: demo_verbs demo_tables stuck_team_def endMembership_def disposeMemberKeys_def RemoveMember_def
      drop_seats_def)

text \<open>A worker that claimed the change to developer reconciles after the change to viewer has completed.\<close>

lemma stale_worker_regrants:
  "let w1 = snd (ChangeRole demo_service (demo_base True) id demo_request (member_calls Down Done) ''a'' ''v'' ''developer'' (demo_members None));
       w2 = snd (ChangeRole demo_service (demo_base True) id demo_request (member_calls Done Done) ''a'' ''v'' ''viewer'' w1);
       w3 = snd (reconcileQueuedRole demo_service (demo_base True) (vc_role (member_calls Done Done)) ''a'' ''v'' ''developer'' w2) in
     map_option mb_role (seat_of (mw_db w3) ''a'' ''v'') = Some ''viewer'' \<and> mw_tuples w3 ''v'' ''a'' ''developer'' \<and>
     \<not> HasPendingRoleReconciliation ''a'' ''v'' (mw_db w3)"
  unfolding Let_def demo_stuck unfolding demo_ChangeRole demo_guards
  by (simp add: demo_verbs demo_tables stuck_team_def reconcileQueuedRole_def reconcileExactRole_def demo_base_def)

end
