(* ===== verification/Spec2Isabelle.thy ===== *)
theory Spec2Isabelle
  imports Limiters Allowlist ProxyProto TlsHello PgRouter KvRouter FrontDoor Autoscale ReleasePlan DrainGuard DiskAutoscale StaticSite Redeem DrainBuffer SleepWake Availability NameProbe Members
begin

text \<open>
  A verification library of bex, a platform that runs applications on Kubernetes. Paths below are
  under \<open>src/lego\<close>. The control plane (\<open>backend/\<close>) authorizes requests, keeps rows in PostgreSQL and
  projects each application onto an \<open>App\<close> resource; the operator (\<open>operator/internal/controller\<close>)
  reconciles that resource into Deployments and Ingresses; small servers of the operator module stand
  in the data path (the static-site server, the activator, the two TLS proxies of public databases);
  the gateway (\<open>backend/internal/sshgateway\<close>) carries shells, commands and files to pods under
  tickets the control plane signs. Every definition is a translation of the Go code it names. All of
  them compute, except the step relations and the predicates of properties.

  How the code is read. A Go expression that may panic is an \<open>option\<close>, an error is the left side of a
  sum, a map used as a counter is a partial function, an \<open>int32\<close> whose wrap matters is a word or has
  the wrap written out. A function that is atomic under a mutex is one definition; where several
  processes share state, the points between which they may interleave are the steps of an inductive
  relation. A remote call is an argument that gives its outcome, failures and lost answers included.

  The theories, in the order they build on each other:

  \<^item> \<open>Bex_Prelude\<close>: panics, errors, counters, and the locale \<open>history\<close>: steps that keep an invariant
    and evolve the items they do not end by a relation, up to the edits they make on purpose (interpreted
    as \<open>deploys\<close> in \<open>DeployRows\<close>, as \<open>control\<close> in \<open>DeployRecord\<close> and as \<open>team\<close> in \<open>Team\<close>). \<open>GoText\<close>, \<open>Utf8\<close>, \<open>NetIP\<close>: the functions of Go's \<open>strings\<close>, \<open>strconv\<close>, \<open>unicode/utf8\<close>
    and \<open>net/netip\<close> the code calls.

  \<^item> \<open>Admission\<close>: what connection limiters promise (\<open>leasing\<close>, \<open>admission\<close>, \<open>total_admission\<close>): counters
    agree with the leases that are out and never pass a cap. Interpreted as \<open>global\<close>, \<open>source\<close>, \<open>route\<close>,
    \<open>session\<close>, \<open>channel\<close> and \<open>src\<close> in \<open>Limiters\<close> (\<open>operator/internal/sniproxy/limiter.go\<close>,
    \<open>backend/internal/sshgateway/limiter.go\<close>), as \<open>fetch\<close> in \<open>StaticCache\<close>, as \<open>holds\<close> in \<open>Activator\<close>.

  \<^item> \<open>Allowlist\<close>, \<open>ProxyProto\<close>, \<open>TlsHello\<close>, \<open>RouteSync\<close>, \<open>PgRouter\<close>, \<open>KvRouter\<close>, \<open>FrontDoor\<close>: a connection to a
    public database, from its first byte to the dial (\<open>operator/internal/sniproxy\<close>,
    \<open>types/proxyproto\<close>, \<open>operator/cmd/pg-sni-proxy\<close>, \<open>operator/cmd/kv-sni-proxy\<close>). \<open>route_sync\<close> is the
    contract between a watch and a routing table, interpreted for both routers as \<open>pg\<close> and \<open>kv\<close>: the
    table refines the newest object seen under each name. \<open>FrontDoor\<close> composes them.

  \<^item> \<open>StaticCache\<close>, \<open>StaticRules\<close>, \<open>StaticSite\<close>: the static-site server
    (\<open>operator/internal/staticserver\<close>). \<open>object_reader\<close> and \<open>reliable_reader\<close> are what the handler asks of a
    source of objects; \<open>server\<close> and \<open>smooth_server\<close> are the cached reader. With an origin that answers,
    a request gets what a direct read of the published site gives.

  \<^item> \<open>Autoscale\<close>, \<open>ReleasePlan\<close>, \<open>SleepWake\<close>, \<open>DrainGuard\<close>, \<open>DiskAutoscale\<close>: the operator's decisions
    (\<open>operator/internal/controller\<close>, \<open>operator/internal/drainguard\<close>). \<open>ReleasePlan\<close> has the loop that
    executes a release with fuel 3: \<open>release_loop_terminates\<close> shows that fuel is enough. \<open>SleepWake\<close>
    interleaves passes with the wakes of the activator and shows which route is backed by a pod.

  \<^item> \<open>Activator\<close>: the server behind the route of an App that cannot answer (\<open>operator/cmd/activator\<close>):
    host index, wakes, held requests, custom pages.

  \<^item> \<open>Tickets\<close>, \<open>NonceGuard\<close>, \<open>Redeem\<close>, \<open>DrainBuffer\<close>: the gateway (\<open>backend/internal/hmacticket\<close>,
    \<open>shellticket\<close>, \<open>sandboxexec\<close>, \<open>sandboxfiles\<close>, \<open>agentsessionticket\<close>, \<open>sshgateway\<close>, \<open>sandbox\<close>): envelopes
    and their checks, the single-use table across replicas, every transport up to its stream, and
    the bounded output buffer.

  \<^item> \<open>DeployRows\<close>, \<open>DeployRecord\<close>, \<open>Availability\<close>, \<open>Ownership\<close>: the record of what ran
    (\<open>backend/internal/store/store.go\<close>, \<open>deploy_lifecycle.go\<close>, \<open>reconciler.go\<close>, \<open>release_cancel.go\<close>,
    \<open>event_facts.go\<close>, \<open>accounts.go\<close>, \<open>backend/internal/deploys/service.go\<close>). Rows come and go with their App,
    and change by transactions whose commit
    checks the constraints of the migrations; the reconciler, the Cancel verb and the queue of
    deploys are interleaved over them. The opening of a deploy refines an abstract pair of slots.

  \<^item> \<open>Scopes\<close>, \<open>Access\<close>, \<open>DecisionCache\<close>, \<open>AppLookup\<close>, \<open>NameProbe\<close>, \<open>ApiKeys\<close>: who may do what
    (\<open>backend/internal/core\<close>, \<open>authz\<close>, \<open>api/tenancy.go\<close>, \<open>apikeys\<close>): the scopes of OAuth tokens, the
    Authorize verbs with their audit rows, the cache in front of OpenFGA with its shared requests
    interleaved, the lookup of services by name, and machine credentials over Hydra, the store and
    OpenFGA. The locale \<open>blind\<close> (interpreted as \<open>verbs\<close> and \<open>reads\<close>) states that an answer does not
    depend on what the caller may not see.

  \<^item> \<open>Team\<close>, \<open>Members\<close>: who belongs to a workspace. \<open>Team\<close> has the transactions over memberships,
    invites and the outbox of role changes (\<open>backend/internal/store/members.go\<close>,
    \<open>role_reconciliations.go\<close>, \<open>plans.go\<close>, \<open>workspaces.go\<close>, \<open>workspace_creation.go\<close>, \<open>accounts.go\<close>), with \<open>history\<close> interpreted as \<open>team\<close>;
    \<open>Members\<close> the verbs of \<open>backend/internal/members/service.go\<close> and the redemption at login
    (\<open>api/tenancy.go\<close>), whose calls to OpenFGA, Hydra and the store fail one by one. What the rows and
    the role tuples disagree on is queued, up to the runs \<open>second_change_forgets\<close>,
    \<open>removed_member_keeps_admin\<close> and \<open>stale_worker_regrants\<close> show.

  What the groups of lemmas show: for each component its invariant and that every operation keeps
  it, the effect of each operation on every branch, errors included, and then the properties, each
  with a witness at concrete inputs when it has hypotheses. The lemmas that show a divergence end in
  a concrete run (\<open>pg_buffered_bytes_lost\<close>, \<open>maintenance_drains_routed_service\<close>,
  \<open>nonce_granted_twice_when_late\<close>, \<open>outage_masked\<close>, \<open>revoked_and_allowed\<close>, \<open>exit_skips_on_outage\<close> and the
  like).

  Bounds. Constants are the ones of the code: six hops for a custom page, four attempts to mark a
  wake, a fallback sweep with three audit rows, Hydra pages of 500 up to 20, a cache of 4096
  entries, 30 seconds for a positive answer. The recursions that replace unbounded loops are
  structural on the list they walk, or carry the counter of the code; none may run out.

  Parameters of the definitions, code that is not in the repository: the HMAC and the JSON codec of
  tickets, Unicode case folding, URL and media-type parsing, the semaphores of
  \<open>golang.org/x/sync\<close> (their grants), the order of ids, floating-point rounding of a metric, the
  OpenFGA verdict, Hydra, the Kubernetes client (outcome of each call), the name validators of
  apimachinery. Hypotheses on them are the documented laws (a codec decodes what it encoded, a MAC
  is keyed) and each is instantiated in a witness.

  Not modelled, and why. The surfaces (dashboard, mobile application, CLI, GraphQL, REST and MCP
  bindings in \<open>backend/internal/api\<close>, \<open>backend/cmd/api\<close>) and clients of services (Stripe, GitHub,
  Prometheus, Loki, S3, mail) are input and output around the logic. The rendering of Kubernetes
  objects (\<open>app_controller.go\<close> beyond the plan, the database and key-value controllers, builds) has
  third-party types on every line. The SQL of the store is modelled where a rule of the program is
  written in it and otherwise left out. The services of \<open>backend/internal/apps\<close>, billing, usage,
  notifications, webhooks, metrics, logs and agent sessions are left out for their size. In the modelled
  components: the streams of the gateway after admission, content coding and range requests of
  static sites, HTML bodies, metrics and log lines.
\<close>

end
